(* ===== verification/Prelude.thy ===== *)
theory Prelude
  imports Complex_Main "HOL-Library.AList" "HOL-Library.Multiset"
begin

text \<open>
  Shared vocabulary of the development.  Python's exceptions are values of the sum type
  \<open>py_error + 'a\<close>, sequenced with \<open>bindE\<close>; dictionaries are association lists (the order
  of a Python \<open>dict\<close> is the order of insertion, and an assignment to an existing key keeps
  its place, exactly as \<open>AList.update\<close> does); sets that the code iterates over are
  duplicate-free lists.  Slices and negative indices follow Python's rules.
\<close>

section \<open>Collections of facts\<close>

named_theorems result_simps \<open>computation rules of the exception monad\<close>
named_theorems dict_simps \<open>lookup rules of Python dictionaries\<close>

section \<open>Exceptions as values\<close>

text \<open>\<open>Diverges\<close> is no exception: it is the value of a call that does not return.\<close>

datatype py_error =
    KeyError | IndexError | AssertionError | ValueError | TypeError
  | RuntimeError | NotImplementedError | FileNotFoundError | ZeroDivisionError | StopIteration
  | AttributeError | NameError
  | Diverges

type_synonym 'a result = "py_error + 'a"

definition bindE :: "'a result \<Rightarrow> ('a \<Rightarrow> 'b result) \<Rightarrow> 'b result" where
  "bindE m f = (case m of Inl e \<Rightarrow> Inl e | Inr x \<Rightarrow> f x)"

definition assertE :: "bool \<Rightarrow> unit result" where
  "assertE b = (if b then Inr () else Inl AssertionError)"

definition raise_unless :: "py_error \<Rightarrow> bool \<Rightarrow> unit result" where
  "raise_unless e b = (if b then Inr () else Inl e)"

lemma bindE_simps [simp, result_simps]:
  "bindE (Inr x) f = f x"
  "bindE (Inl e) f = Inl e"
  by (simp_all add: bindE_def)

lemma bindE_eq_Inr: "bindE m f = Inr y \<longleftrightarrow> (\<exists>x. m = Inr x \<and> f x = Inr y)"
  by (cases m) auto

lemma bindE_eq_Inl: "bindE m f = Inl e \<longleftrightarrow> m = Inl e \<or> (\<exists>x. m = Inr x \<and> f x = Inl e)"
  by (cases m) auto

lemma bindE_assoc: "bindE (bindE m f) g = bindE m (\<lambda>x. bindE (f x) g)"
  by (cases m) auto

lemma assertE_simps [simp, result_simps]:
  "assertE True = Inr ()"
  "assertE False = Inl AssertionError"
  "assertE b = Inr u \<longleftrightarrow> b"
  by (simp_all add: assertE_def)

lemma raise_unless_simps [simp, result_simps]:
  "raise_unless e True = Inr ()"
  "raise_unless e False = Inl e"
  "raise_unless e b = Inr u \<longleftrightarrow> b"
  by (simp_all add: raise_unless_def)

lemma bindE_cong [fundef_cong]:
  "m = m' \<Longrightarrow> (\<And>x. m' = Inr x \<Longrightarrow> f x = f' x) \<Longrightarrow> bindE m f = bindE m' f'"
  by (cases m') auto

text \<open>A \<open>for\<close> loop whose body may raise, over a list and a state.\<close>

primrec foldE :: "('a \<Rightarrow> 's \<Rightarrow> 's result) \<Rightarrow> 'a list \<Rightarrow> 's \<Rightarrow> 's result" where
  "foldE f [] s = Inr s"
| "foldE f (x # xs) s = bindE (f x s) (foldE f xs)"

text \<open>A list comprehension whose element expression may raise.\<close>

primrec mapE :: "('a \<Rightarrow> 'b result) \<Rightarrow> 'a list \<Rightarrow> 'b list result" where
  "mapE f [] = Inr []"
| "mapE f (x # xs) = bindE (f x) (\<lambda>y. bindE (mapE f xs) (\<lambda>ys. Inr (y # ys)))"

lemma foldE_append: "foldE f (xs @ ys) s = bindE (foldE f xs s) (foldE f ys)"
  by (induction xs arbitrary: s) (auto simp: bindE_def split: sum.splits)

lemma foldE_invariant:
  assumes "foldE f xs s = Inr t" and "P s"
    and "\<And>x s t. x \<in> set xs \<Longrightarrow> P s \<Longrightarrow> f x s = Inr t \<Longrightarrow> P t"
  shows "P t"
  using assms by (induction xs arbitrary: s) (auto simp: bindE_eq_Inr)

lemma foldE_total:
  assumes "P s" and "\<And>x s. x \<in> set xs \<Longrightarrow> P s \<Longrightarrow> \<exists>t. f x s = Inr t \<and> P t"
  shows "\<exists>t. foldE f xs s = Inr t \<and> P t"
  using assms by (induction xs arbitrary: s) fastforce+

lemma mapE_Inr: "(\<And>x. x \<in> set xs \<Longrightarrow> f x = Inr (g x)) \<Longrightarrow> mapE f xs = Inr (map g xs)"
  by (induction xs) auto

lemma mapE_eq_Inr_length: "mapE f xs = Inr ys \<Longrightarrow> length ys = length xs"
  by (induction xs arbitrary: ys) (auto simp: bindE_eq_Inr)

lemma mapE_eq_Inr_nth: "mapE f xs = Inr ys \<Longrightarrow> i < length xs \<Longrightarrow> f (xs ! i) = Inr (ys ! i)"
  by (induction xs arbitrary: ys i) (auto simp: bindE_eq_Inr nth_Cons split: nat.splits)

lemma mapE_total:
  "(\<And>x. x \<in> set xs \<Longrightarrow> \<exists>y. f x = Inr y) \<Longrightarrow> \<exists>ys. mapE f xs = Inr ys"
  by (induction xs) fastforce+

section \<open>Dictionaries\<close>

type_synonym ('k, 'v) dict = "('k \<times> 'v) list"

text \<open>\<open>d[k]\<close>, which raises \<open>KeyError\<close>; \<open>del d[k]\<close>, which raises it too; \<open>d[k] = v\<close>.\<close>

definition dget :: "('k, 'v) dict \<Rightarrow> 'k \<Rightarrow> 'v result" where
  "dget d k = (case map_of d k of None \<Rightarrow> Inl KeyError | Some v \<Rightarrow> Inr v)"

definition ddel :: "('k, 'v) dict \<Rightarrow> 'k \<Rightarrow> ('k, 'v) dict result" where
  "ddel d k = (if map_of d k = None then Inl KeyError else Inr (AList.delete k d))"

abbreviation dset :: "'k \<Rightarrow> 'v \<Rightarrow> ('k, 'v) dict \<Rightarrow> ('k, 'v) dict" where
  "dset \<equiv> AList.update"

definition dget_default :: "('k, 'v) dict \<Rightarrow> 'k \<Rightarrow> 'v \<Rightarrow> 'v" where
  "dget_default d k v = (case map_of d k of None \<Rightarrow> v | Some w \<Rightarrow> w)"

lemma dget_eq_Inr [simp, dict_simps]: "dget d k = Inr v \<longleftrightarrow> map_of d k = Some v"
  by (simp add: dget_def split: option.splits)

lemma dget_Some [simp, dict_simps]: "map_of d k = Some v \<Longrightarrow> dget d k = Inr v"
  by simp

lemma dget_None [simp, dict_simps]: "map_of d k = None \<Longrightarrow> dget d k = Inl KeyError"
  by (simp add: dget_def)

lemma ddel_eq_Inr: "ddel d k = Inr d' \<longleftrightarrow> map_of d k \<noteq> None \<and> d' = AList.delete k d"
  by (auto simp: ddel_def)

lemma ddel_Some [simp, dict_simps]: "map_of d k = Some v \<Longrightarrow> ddel d k = Inr (AList.delete k d)"
  by (simp add: ddel_def)

lemma map_of_dset [simp, dict_simps]: "map_of (dset k v d) = (map_of d)(k \<mapsto> v)"
  by (rule update_conv')

lemma map_of_ddelete [simp, dict_simps]: "map_of (AList.delete k d) = (map_of d)(k := None)"
  by (rule delete_conv')

lemma distinct_dset [simp]: "distinct (map fst d) \<Longrightarrow> distinct (map fst (dset k v d))"
  by (rule distinct_update)

lemma distinct_ddelete [simp]: "distinct (map fst d) \<Longrightarrow> distinct (map fst (AList.delete k d))"
  by (rule distinct_delete)

section \<open>Sets that are iterated over\<close>

definition set_add :: "'a \<Rightarrow> 'a list \<Rightarrow> 'a list" where
  "set_add x s = (if x \<in> set s then s else s @ [x])"

definition set_update :: "'a list \<Rightarrow> 'a list \<Rightarrow> 'a list" where
  "set_update s xs = fold set_add xs s"

lemma set_set_add [simp]: "set (set_add x s) = insert x (set s)"
  by (auto simp: set_add_def)

lemma distinct_set_add [simp]: "distinct (set_add x s) = distinct s"
  by (auto simp: set_add_def)

lemma set_set_update [simp]: "set (set_update s xs) = set s \<union> set xs"
  by (induction xs arbitrary: s) (auto simp: set_update_def)

lemma distinct_set_update [simp]: "distinct (set_update s xs) = distinct s"
  by (induction xs arbitrary: s) (auto simp: set_update_def)

section \<open>Lists\<close>

text \<open>
  \<open>xs[i:j]\<close> for integers: a negative index counts from the end, and both are clipped to the
  list, so a slice never raises.
\<close>

definition clip_index :: "nat \<Rightarrow> int \<Rightarrow> nat" where
  "clip_index n i = (if i < 0 then nat (max 0 (int n + i)) else min n (nat i))"

definition py_slice :: "'a list \<Rightarrow> int \<Rightarrow> int \<Rightarrow> 'a list" where
  "py_slice xs i j =
     (let a = clip_index (length xs) i; b = clip_index (length xs) j in take (b - a) (drop a xs))"

text \<open>\<open>xs[i]\<close>, with a negative index counting from the end; out of range raises.\<close>

definition py_nth :: "'a list \<Rightarrow> int \<Rightarrow> 'a result" where
  "py_nth xs i =
     (let j = (if i < 0 then int (length xs) + i else i)
      in if 0 \<le> j \<and> j < int (length xs) then Inr (xs ! nat j) else Inl IndexError)"

definition enumerate_list :: "'a list \<Rightarrow> (nat \<times> 'a) list" where
  "enumerate_list xs = List.enumerate 0 xs"

lemma find_SomeD: "find P xs = Some x \<Longrightarrow> x \<in> set xs \<and> P x"
  by (induction xs) (auto split: if_splits)

lemma find_NoneD: "find P xs = None \<Longrightarrow> x \<in> set xs \<Longrightarrow> \<not> P x"
  by (induction xs) (auto split: if_splits)

lemma clip_index_le: "clip_index n i \<le> n"
  by (auto simp: clip_index_def)

lemma py_slice_nat:
  "0 \<le> i \<Longrightarrow> 0 \<le> j \<Longrightarrow> py_slice xs i j = take (nat j - nat i) (drop (nat i) xs)"
  by (auto simp: py_slice_def clip_index_def Let_def min_def)

lemma py_slice_of_nat: "py_slice xs (int a) (int b) = take (b - a) (drop a xs)"
  by (simp add: py_slice_nat)

lemma length_py_slice_nat:
  "0 \<le> i \<Longrightarrow> i \<le> j \<Longrightarrow> j \<le> int (length xs) \<Longrightarrow> length (py_slice xs i j) = nat (j - i)"
  by (simp add: py_slice_nat min_def nat_diff_distrib') linarith

lemma py_nth_nat [simp]: "i < length xs \<Longrightarrow> py_nth xs (int i) = Inr (xs ! i)"
  by (simp add: py_nth_def)

lemma set_enumerate_list: "set (enumerate_list xs) = {(i, xs ! i) | i. i < length xs}"
  by (auto simp: enumerate_list_def in_set_enumerate_eq)

lemma map_fst_enumerate_list [simp]: "map fst (enumerate_list xs) = [0..<length xs]"
  by (simp add: enumerate_list_def)

lemma map_snd_enumerate_list [simp]: "map snd (enumerate_list xs) = xs"
  by (simp add: enumerate_list_def)

lemma length_enumerate_list [simp]: "length (enumerate_list xs) = length xs"
  by (simp add: enumerate_list_def)

end
