(* ===== verification/Board_Util.thy ===== *)
theory Board_Util
  imports Prelude "HOL-Library.Sublist"
begin

text \<open>
  The lookup tables of \<open>patch/board/board_util.py\<close>.  Positions are integers (30 squares per
  player and nine in the centre, 0 to 128).  The railway lines that leave a square are kept by
  the program in a trie of nested dictionaries keyed by tuples (\<open>POS2STRAIGHT\<close>); the other
  tables are dictionaries from a square to a set of squares.  The lemmas show that the trie holds
  exactly the prefixes of what was inserted, so that the entry of a square is exactly the set of
  rays from it, and check the finite facts about the tables the move generator rests on.
\<close>

section \<open>The trie of straight lines\<close>

type_synonym pos = int

fun lcp :: "'a list \<Rightarrow> 'a list \<Rightarrow> nat" where
  "lcp (a # as) (b # bs) = (if a = b then Suc (lcp as bs) else 0)"
| "lcp _ _ = 0"

datatype trie = Trie (trie_items: "(pos list \<times> trie) list")

lemma lcp_le: "lcp a b \<le> length a" "lcp a b \<le> length b"
  by (induction a b rule: lcp.induct) auto

lemma take_lcp: "take (lcp a b) a = take (lcp a b) b"
  by (induction a b rule: lcp.induct) auto

lemma lcp_0_iff: "lcp a b = 0 \<longleftrightarrow> a = [] \<or> b = [] \<or> hd a \<noteq> hd b"
  by (induction a b rule: lcp.induct) auto

lemma lcp_nth: "lcp a b < length a \<Longrightarrow> lcp a b < length b \<Longrightarrow> a ! lcp a b \<noteq> b ! lcp a b"
  by (induction a b rule: lcp.induct) auto

text \<open>
  \<open>add_graph\<close> looks for the first key that shares its first square with the sequence and
  descends into it, splits it, or leaves it; a sequence that meets no key is a new branch.
\<close>

function add_graph :: "trie \<Rightarrow> pos list \<Rightarrow> trie" where
  "add_graph (Trie cs) seq =
     (case find (\<lambda>c. lcp (fst c) seq \<noteq> 0) cs of
        None \<Rightarrow> (if seq \<noteq> [] then Trie (dset seq (Trie []) cs) else Trie cs)
      | Some (key, sub) \<Rightarrow>
          (let common = lcp key seq in
           if common = length key then Trie (dset key (add_graph sub (drop common seq)) cs)
           else if common = length seq
             then Trie (AList.delete key (dset seq (Trie [(drop common key, sub)]) cs))
           else Trie (AList.delete key
                  (dset (take common key)
                     (Trie [(drop common key, sub), (drop common seq, Trie [])]) cs))))"
  by pat_completeness auto
termination
proof (relation "measure (\<lambda>(t, seq). length seq)")
  fix cs :: "(pos list \<times> trie) list" and seq x key sub common
  assume *: "find (\<lambda>c. lcp (fst c) seq \<noteq> 0) cs = Some x" "(key, sub) = x" "common = lcp key seq"
  have "common \<noteq> 0" using find_SomeD[OF *(1)] *(2,3) by auto
  moreover have "common \<le> length seq" using *(3) lcp_le(2)[of key seq] by simp
  ultimately show "((sub, drop common seq), Trie cs, seq) \<in> measure (\<lambda>(t, seq). length seq)" by auto
qed simp

definition STRAIGHT_SEQS :: "pos list list" where
  "STRAIGHT_SEQS =
     [[0, 1, 2, 3, 4], [20, 21, 22, 23, 24], [30, 31, 32, 33, 34], [50, 51, 52, 53, 54],
      [60, 61, 62, 63, 64], [80, 81, 82, 83, 84], [90, 91, 92, 93, 94], [110, 111, 112, 113, 114],
      [20, 15, 10, 5, 0, 126, 127, 120, 64, 69, 74, 79, 84],
      [24, 19, 14, 9, 4, 124, 123, 122, 60, 65, 70, 75, 80],
      [50, 45, 40, 35, 30, 124, 125, 126, 94, 99, 104, 109, 114],
      [54, 49, 44, 39, 34, 122, 121, 120, 90, 95, 100, 105, 110],
      [20, 15, 10, 5, 0, 94, 99, 104, 109, 114], [24, 19, 14, 9, 4, 30, 35, 40, 45, 50],
      [54, 49, 44, 39, 34, 60, 65, 70, 75, 80], [84, 79, 74, 69, 64, 90, 95, 100, 105, 110],
      [2, 125, 128, 121, 62], [32, 123, 128, 127, 92]]"

definition add_ray :: "pos \<Rightarrow> pos list \<Rightarrow> (pos, trie) dict \<Rightarrow> (pos, trie) dict" where
  "add_ray a r graph = dset a (add_graph (dget_default graph a (Trie [])) r) graph"

definition straight_add_seq :: "pos list \<Rightarrow> (pos, trie) dict \<Rightarrow> (pos, trie) dict" where
  "straight_add_seq seq =
     fold (\<lambda>(i, a) graph. add_ray a (drop (i + 1) seq) (add_ray a (rev (take i seq)) graph))
       (enumerate_list seq)"

definition make_pos2straight :: "(pos, trie) dict" where
  "make_pos2straight = fold straight_add_seq STRAIGHT_SEQS []"

definition POS2STRAIGHT :: "(pos, trie) dict" where
  "POS2STRAIGHT = make_pos2straight"

section \<open>The trie holds the prefixes of its sequences\<close>

fun trie_ok :: "trie \<Rightarrow> bool" where
  "trie_ok (Trie cs) \<longleftrightarrow>
     distinct (map (\<lambda>c. hd (fst c)) cs) \<and> (\<forall>c \<in> set cs. fst c \<noteq> [] \<and> trie_ok (snd c))"

fun trie_paths :: "trie \<Rightarrow> pos list set" where
  "trie_paths (Trie cs) =
     insert [] (\<Union>c \<in> set cs. set (prefixes (fst c)) \<union> (@) (fst c) ` trie_paths (snd c))"

lemma find_key_Some:
  assumes "find (\<lambda>c. lcp (fst c) seq \<noteq> 0) cs = Some (k, t)"
  shows "(k, t) \<in> set cs" "k \<noteq> []" "seq \<noteq> []" "hd seq = hd k"
  using find_SomeD[OF assms] by (auto simp: lcp_0_iff)

lemma find_key_None:
  assumes "find (\<lambda>c. lcp (fst c) seq \<noteq> 0) cs = None" "c \<in> set cs" "fst c \<noteq> []" "seq \<noteq> []"
  shows "hd (fst c) \<noteq> hd seq"
  using find_NoneD[OF assms(1,2)] assms(3,4) by (auto simp: lcp_0_iff)

lemma set_dset:
  "distinct (map fst cs) \<Longrightarrow> set (dset k v cs) = insert (k, v) {c \<in> set cs. fst c \<noteq> k}"
  by (induction cs) (auto simp: image_iff)

lemma set_ddelete: "set (AList.delete k cs) = {c \<in> set cs. fst c \<noteq> k}"
  by (auto simp: AList.delete_eq)

lemma map_dset:
  "map (\<lambda>c. f (fst c)) (dset k v cs) =
     (if k \<in> fst ` set cs then map (\<lambda>c. f (fst c)) cs else map (\<lambda>c. f (fst c)) cs @ [f k])"
  by (induction cs) auto

lemma distinct_hd_keys:
  "distinct (map (\<lambda>c. hd (fst c)) cs) \<Longrightarrow> distinct (map fst cs)"
  by (metis (mono_tags, lifting) distinct_map inj_onD inj_onI)

lemma hd_key_unique:
  "distinct (map (\<lambda>c. hd (fst c)) cs) \<Longrightarrow> c \<in> set cs \<Longrightarrow> d \<in> set cs \<Longrightarrow> hd (fst c) = hd (fst d) \<Longrightarrow> c = d"
  by (simp add: distinct_map inj_on_def)

definition item_paths :: "pos list \<times> trie \<Rightarrow> pos list set" where
  "item_paths c = set (prefixes (fst c)) \<union> (@) (fst c) ` trie_paths (snd c)"

lemma trie_paths_items: "trie_paths (Trie cs) = insert [] (\<Union>c \<in> set cs. item_paths c)"
  by (simp add: item_paths_def)

lemma set_prefixes_append: "set (prefixes (xs @ ys)) = set (prefixes xs) \<union> (@) xs ` set (prefixes ys)"
  by (auto simp: prefix_append)

lemma Nil_in_trie_paths [simp]: "[] \<in> trie_paths t"
  by (cases t) auto

text \<open>The invariant of the trie, and what an insertion adds.\<close>

lemma replace_key:
  assumes "k' \<notin> fst ` set cs" "k' \<noteq> k"
  shows "AList.delete k (dset k' v cs) = AList.delete k cs @ [(k', v)]"
proof -
  have "dset k' v cs = cs @ [(k', v)]" using assms(1) by (induction cs) auto
  then show ?thesis using assms(2) by (simp add: AList.delete_eq)
qed

lemma hd_key_fresh:
  assumes "distinct (map (\<lambda>c. hd (fst c)) cs)" "(k, t) \<in> set cs" "hd k' = hd k" "k' \<noteq> k"
  shows "k' \<notin> fst ` set cs"
  using hd_key_unique[OF assms(1) assms(2)] assms(3,4) by fastforce

lemma trie_ok_replace:
  assumes "trie_ok (Trie cs)" "(k, t) \<in> set cs" "hd k' = hd k" "k' \<noteq> []" "trie_ok v"
  shows "trie_ok (Trie (AList.delete k cs @ [(k', v)]))"
proof -
  have d: "distinct (map (\<lambda>c. hd (fst c)) cs)" using assms(1) by simp
  have "distinct (map (\<lambda>c. hd (fst c)) (AList.delete k cs))"
    unfolding AList.delete_eq by (rule distinct_map_filter[OF d])
  moreover have "hd k' \<notin> (\<lambda>c. hd (fst c)) ` set (AList.delete k cs)"
    using hd_key_unique[OF d assms(2)] assms(3) by (auto simp: set_ddelete)
  ultimately show ?thesis using assms(1,4,5) by (auto simp: set_ddelete)
qed

lemma add_graph_ok: "trie_ok t \<Longrightarrow> trie_ok (add_graph t seq)"
proof (induction t seq rule: add_graph.induct)
  case (1 cs seq)
  note ok = 1(2)
  then have d: "distinct (map (\<lambda>c. hd (fst c)) cs)" and dk: "distinct (map fst cs)"
    by (auto dest: distinct_hd_keys)
  show ?case
  proof (cases "find (\<lambda>c. lcp (fst c) seq \<noteq> 0) cs")
    case None
    show ?thesis
    proof (cases "seq = []")
      case False
      have *: "hd seq \<notin> (\<lambda>c. hd (fst c)) ` set cs"
      proof (rule notI, erule imageE)
        fix c assume "hd seq = hd (fst c)" "c \<in> set cs"
        moreover from this have "fst c \<noteq> []" using ok by simp
        ultimately show False using find_key_None[OF None _ _ False] by metis
      qed
      then have "seq \<notin> fst ` set cs" by auto
      then show ?thesis using None False ok dk * by (auto simp: map_dset set_dset)
    qed (use None ok in simp)
  next
    case (Some x)
    then obtain k sub where x: "x = (k, sub)" by (cases x)
    note f = find_key_Some[OF Some[unfolded x]]
    have sub: "trie_ok sub" using ok f(1) by auto
    define c where "c = lcp k seq"
    consider (descend) "c = length k" | (up) "c \<noteq> length k" "c = length seq"
      | (split) "c < length k" "c < length seq"
      using lcp_le[of k seq] unfolding c_def by linarith
    then show ?thesis
    proof cases
      case descend
      have "trie_ok (add_graph sub (drop c seq))"
        using 1(1)[OF Some x[symmetric] c_def descend] sub .
      moreover have "k \<in> fst ` set cs" using f(1) by force
      ultimately show ?thesis
        using Some x ok d dk descend f(2) by (auto simp: c_def[symmetric] map_dset set_dset)
    next
      case up
      have "seq \<noteq> k" using up by auto
      note fresh = hd_key_fresh[OF d f(1) f(4) this]
      have "drop c k \<noteq> []" using up lcp_le[of k seq] unfolding c_def by auto
      then have "trie_ok (Trie [(drop c k, sub)])" using sub by simp
      from trie_ok_replace[OF ok f(1) f(4) f(3) this] show ?thesis
        using Some x up \<open>seq \<noteq> k\<close> by (simp add: c_def[symmetric] replace_key[OF fresh])
    next
      case split
      have c0: "c \<noteq> 0" using find_SomeD[OF Some[unfolded x]] by (simp add: c_def)
      have hdt: "hd (take c k) = hd k" using c0 by simp
      have "take c k \<noteq> k" using split by auto
      note fresh = hd_key_fresh[OF d f(1) hdt this]
      have "hd (drop c k) \<noteq> hd (drop c seq)"
        using lcp_nth[of k seq] split by (simp add: c_def hd_drop_conv_nth)
      then have v: "trie_ok (Trie [(drop c k, sub), (drop c seq, Trie [])])" using sub split by simp
      have "take c k \<noteq> []" using c0 f(2) by simp
      from trie_ok_replace[OF ok f(1) hdt this v] show ?thesis
        using Some x split \<open>take c k \<noteq> k\<close> c0 by (simp add: c_def[symmetric] replace_key[OF fresh])
    qed
  qed
qed

lemma item_paths_split:
  assumes "k = l @ m"
  shows "item_paths (k, t) = set (prefixes l) \<union> (@) l ` item_paths (m, t)"
  using assms by (auto simp: item_paths_def set_prefixes_append image_Un image_image)

lemma trie_paths_replace:
  assumes "trie_ok (Trie cs)" "(k, t) \<in> set cs"
    and "set cs' = insert (k', t') {c \<in> set cs. fst c \<noteq> k}"
    and "item_paths (k', t') = item_paths (k, t) \<union> P"
  shows "trie_paths (Trie cs') = trie_paths (Trie cs) \<union> P"
proof -
  have "set cs = insert (k, t) {c \<in> set cs. fst c \<noteq> k}"
    using assms(1,2) by (auto dest: distinct_hd_keys simp: eq_key_imp_eq_value)
  then have "trie_paths (Trie cs) = insert [] (item_paths (k, t) \<union> (\<Union>c \<in> {c \<in> set cs. fst c \<noteq> k}. item_paths c))"
    unfolding trie_paths_items by (metis UN_insert)
  then show ?thesis unfolding trie_paths_items assms(3) using assms(4) by auto
qed

lemma add_graph_paths:
  "trie_ok t \<Longrightarrow> trie_paths (add_graph t seq) = trie_paths t \<union> set (prefixes seq)"
proof (induction t seq rule: add_graph.induct)
  case (1 cs seq)
  note ok = 1(2)
  then have d: "distinct (map (\<lambda>c. hd (fst c)) cs)" and dk: "distinct (map fst cs)"
    by (auto dest: distinct_hd_keys)
  show ?case
  proof (cases "find (\<lambda>c. lcp (fst c) seq \<noteq> 0) cs")
    case None
    show ?thesis
    proof (cases "seq = []")
      case False
      have "seq \<notin> fst ` set cs"
        using find_key_None[OF None] ok False by auto
      then have "set (dset seq (Trie []) cs) = insert (seq, Trie []) (set cs)"
        using dk by (auto simp: set_dset)
      then show ?thesis using None False
        by (auto simp: trie_paths_items item_paths_def simp del: trie_paths.simps)
    qed (use None in auto)
  next
    case (Some x)
    then obtain k sub where x: "x = (k, sub)" by (cases x)
    note f = find_key_Some[OF Some[unfolded x]]
    have sub: "trie_ok sub" using ok f(1) by auto
    define c where "c = lcp k seq"
    have tk: "take c k = take c seq" unfolding c_def by (rule take_lcp)
    then have k: "k = take c k @ drop c k" and seq: "seq = take c k @ drop c seq"
      by (simp_all) (metis append_take_drop_id)
    consider (descend) "c = length k" | (up) "c \<noteq> length k" "c = length seq"
      | (split) "c < length k" "c < length seq"
      using lcp_le[of k seq] unfolding c_def by linarith
    then show ?thesis
    proof cases
      case descend
      have seq': "seq = k @ drop c seq" using seq descend by simp
      have IH: "trie_paths (add_graph sub (drop c seq)) = trie_paths sub \<union> set (prefixes (drop c seq))"
        using 1(1)[OF Some x[symmetric] c_def descend] sub .
      have "item_paths (k, add_graph sub (drop c seq)) = item_paths (k, sub) \<union> set (prefixes seq)"
        using set_prefixes_append[of k "drop c seq"] seq'
        unfolding item_paths_def fst_conv snd_conv IH by auto
      from trie_paths_replace[OF ok f(1) set_dset[OF dk] this] show ?thesis
        using Some x descend by (simp add: c_def[symmetric] del: trie_paths.simps)
    next
      case up
      have "seq \<noteq> k" using up by auto
      note fresh = hd_key_fresh[OF d f(1) f(4) this]
      have seqk: "seq = take c k" using seq up by simp
      have "item_paths (seq, Trie [(drop c k, sub)]) = item_paths (k, sub) \<union> set (prefixes seq)"
        by (subst item_paths_split[OF k]) (auto simp: seqk item_paths_def)
      from trie_paths_replace[OF ok f(1) _ this, of "AList.delete k cs @ [(seq, Trie [(drop c k, sub)])]"]
      show ?thesis
        using Some x up \<open>seq \<noteq> k\<close>
        by (simp add: c_def[symmetric] replace_key[OF fresh] set_ddelete del: trie_paths.simps)
    next
      case split
      have "take c k \<noteq> k" using split by auto
      have hdt: "hd (take c k) = hd k" using find_SomeD[OF Some[unfolded x]] by (simp add: c_def)
      note fresh = hd_key_fresh[OF d f(1) hdt \<open>take c k \<noteq> k\<close>]
      let ?t = "Trie [(drop c k, sub), (drop c seq, Trie [])]"
      have "item_paths (take c k, ?t) = item_paths (k, sub) \<union> set (prefixes seq)"
        using set_prefixes_append[of "take c k" "drop c seq"] seq
        by (subst item_paths_split[OF k]) (auto simp: item_paths_def)
      from trie_paths_replace[OF ok f(1) _ this, of "AList.delete k cs @ [(take c k, ?t)]"]
      show ?thesis
        using Some x split \<open>take c k \<noteq> k\<close>
        by (simp add: c_def[symmetric] replace_key[OF fresh] set_ddelete del: trie_paths.simps)
    qed
  qed
qed

section \<open>The other tables\<close>

text \<open>A \<open>defaultdict(set)\<close>: reading a missing key gives the empty set.\<close>

type_synonym adj = "(pos, pos list) dict"

definition nbrs :: "adj \<Rightarrow> pos \<Rightarrow> pos list" where
  "nbrs graph a = dget_default graph a []"

definition adj_add :: "pos \<Rightarrow> pos \<Rightarrow> adj \<Rightarrow> adj" where
  "adj_add a b graph = dset a (set_add b (nbrs graph a)) graph"

definition any_add_seq :: "pos list \<Rightarrow> adj \<Rightarrow> adj" where
  "any_add_seq seq =
     (let n = length seq in
      fold (\<lambda>(i, a) graph.
              (let g = (if i > 0 then adj_add a (seq ! (i - 1)) graph else graph)
               in if i < n - 1 then adj_add a (seq ! (i + 1)) g else g))
        (enumerate_list seq))"

definition make_pos2any :: adj where
  "make_pos2any = fold any_add_seq STRAIGHT_SEQS []"

definition add_src :: "pos list list \<Rightarrow> adj \<Rightarrow> adj" where
  "add_src seqs graph =
     fold (\<lambda>seq graph. dset (hd seq) (set_update (nbrs graph (hd seq)) (tl seq)) graph) seqs graph"

definition add_from_src :: "pos list list \<Rightarrow> adj \<Rightarrow> adj" where
  "add_from_src seqs graph =
     fold (\<lambda>seq graph. fold (\<lambda>i graph. adj_add i (hd seq) graph) (tl seq) graph) seqs graph"

definition plain_add_seqs :: "(pos \<times> pos) list \<Rightarrow> adj \<Rightarrow> adj" where
  "plain_add_seqs seqs graph =
     fold (\<lambda>(a, b) graph. adj_add b a (adj_add a b graph)) seqs graph"

definition PLAIN_PAIRS :: "(pos \<times> pos) list" where
  "PLAIN_PAIRS =
     [(2, 7), (10, 11), (13, 14), (17, 22), (20, 25), (22, 27), (24, 29),
      (32, 37), (40, 41), (43, 44), (47, 52), (50, 55), (52, 57), (54, 59),
      (62, 67), (70, 71), (73, 74), (77, 82), (80, 85), (82, 87), (84, 89),
      (92, 97), (100, 101), (103, 104), (107, 112), (110, 115), (112, 117), (114, 119)]"

definition PLAIN_SRC :: "pos list list" where
  "PLAIN_SRC =
     [[6, 0, 1, 2, 5, 7, 10, 11], [8, 2, 3, 4, 7, 9, 13, 14], [12, 7, 11, 13, 17],
      [16, 10, 11, 15, 17, 20, 21, 22], [18, 13, 14, 17, 19, 22, 23, 24],
      [36, 30, 31, 32, 35, 37, 40, 41], [38, 32, 33, 34, 37, 39, 43, 44], [42, 37, 41, 43, 47],
      [46, 40, 41, 45, 47, 50, 51, 52], [48, 43, 44, 47, 49, 52, 53, 54],
      [66, 60, 61, 62, 65, 67, 70, 71], [68, 62, 63, 64, 67, 69, 73, 74], [72, 67, 71, 73, 77],
      [76, 70, 71, 75, 77, 80, 81, 82], [78, 73, 74, 77, 79, 82, 83, 84],
      [96, 90, 91, 92, 95, 97, 100, 101], [98, 92, 93, 94, 97, 99, 103, 104],
      [102, 97, 101, 103, 107],
      [106, 100, 101, 105, 107, 110, 111, 112], [108, 103, 104, 107, 109, 112, 113, 114]]"

definition make_pos2plain :: adj where
  "make_pos2plain = add_src PLAIN_SRC (plain_add_seqs PLAIN_PAIRS [])"

definition CAMP_SRC :: "pos list list" where
  "CAMP_SRC =
     [[6, 0, 1, 2, 5, 7, 10, 11, 12], [8, 2, 3, 4, 7, 9, 12, 13, 14],
      [12, 6, 7, 8, 11, 13, 16, 17, 18],
      [16, 10, 11, 12, 15, 17, 20, 21, 22], [18, 12, 13, 14, 17, 19, 22, 23, 24],
      [36, 30, 31, 32, 35, 37, 40, 41, 42], [38, 32, 33, 34, 37, 39, 42, 43, 44],
      [42, 36, 37, 38, 41, 43, 46, 47, 48],
      [46, 40, 41, 42, 45, 47, 50, 51, 52], [48, 42, 43, 44, 47, 49, 52, 53, 54],
      [66, 60, 61, 62, 65, 67, 70, 71, 72], [68, 62, 63, 64, 67, 69, 72, 73, 74],
      [72, 66, 67, 68, 71, 73, 76, 77, 78],
      [76, 70, 71, 72, 75, 77, 80, 81, 82], [78, 72, 73, 74, 77, 79, 82, 83, 84],
      [96, 90, 91, 92, 95, 97, 100, 101, 102], [98, 92, 93, 94, 97, 99, 102, 103, 104],
      [102, 96, 97, 98, 101, 103, 106, 107, 108],
      [106, 100, 101, 102, 105, 107, 110, 111, 112], [108, 102, 103, 104, 107, 109, 112, 113, 114]]"

definition make_pos2camp :: adj where
  "make_pos2camp = add_from_src CAMP_SRC []"

definition FLAG_SRC :: "pos list list" where
  "FLAG_SRC =
     [[26, 21, 25, 27], [28, 23, 27, 29], [56, 51, 55, 57], [58, 53, 57, 59], [86, 81, 85, 87],
      [88, 83, 87, 89], [116, 111, 115, 117], [118, 113, 117, 119]]"

definition make_pos2flag :: adj where
  "make_pos2flag = add_from_src FLAG_SRC []"

definition make_flag2pos :: adj where
  "make_flag2pos = add_src FLAG_SRC []"

definition POS2ANY :: adj where "POS2ANY = make_pos2any"
definition POS2PLAIN :: adj where "POS2PLAIN = make_pos2plain"
definition POS2CAMP :: adj where "POS2CAMP = make_pos2camp"
definition POS2FLAG :: adj where "POS2FLAG = make_pos2flag"
definition FLAG2POS :: adj where "FLAG2POS = make_flag2pos"

text \<open>
  The initial action mask.  A numpy array of 46 * 129 booleans is the predicate on its index;
  every index written is a row \<open>a * 129\<close> plus a square.
\<close>

type_synonym bmask = "int \<Rightarrow> bool"

definition action_posmap :: adj where
  "action_posmap =
     (let m = add_from_src
                [[6, 0, 1, 2, 5, 6, 8, 9], [8, 2, 3, 4, 6, 7, 10, 11], [12, 6, 9, 10, 13],
                 [16, 8, 9, 12, 13, 15, 16, 17], [18, 10, 11, 13, 14, 17, 18, 19],
                 [66, 23, 24, 25, 28, 29, 31, 32], [68, 25, 26, 27, 29, 30, 33, 34],
                 [72, 29, 32, 33, 36],
                 [76, 31, 32, 35, 36, 38, 39, 40], [78, 33, 34, 36, 37, 40, 41, 42]] [];
          upd = (\<lambda>k xs m. dset k (set_update (nbrs m k) xs) m)
      in upd 27 [126, 127, 120, 90] (upd 25 [125, 128, 121] (upd 23 [124, 123, 122, 34]
           (upd 4 [124, 123, 122, 30] (upd 2 [125, 128, 121] (upd 0 [126, 127, 120, 94] m))))))"

definition make_action_mask :: bmask where
  "make_action_mask =
     (\<lambda>i. list_ex (\<lambda>(a, neighbors). list_ex (\<lambda>n. i = a * 129 + n) neighbors) action_posmap)"

definition ACTION_MASK :: bmask where "ACTION_MASK = make_action_mask"

section \<open>What the tables hold\<close>

text \<open>
  Each table is built by a sequence of \<open>graph[a].add(b)\<close>; its entry at a square is then the
  targets of the events of that square, in their order.
\<close>

definition edges_at :: "(pos \<times> pos) list \<Rightarrow> pos \<Rightarrow> pos list" where
  "edges_at es a = set_update [] (map snd (filter (\<lambda>e. fst e = a) es))"

definition add_edges :: "(pos \<times> pos) list \<Rightarrow> adj \<Rightarrow> adj" where
  "add_edges es graph = fold (\<lambda>(a, b). adj_add a b) es graph"

lemma nbrs_dset: "nbrs (dset k v g) a = (if a = k then v else nbrs g a)"
  by (simp add: nbrs_def dget_default_def)

lemma set_update_Cons: "set_update s (x # xs) = set_update (set_add x s) xs"
  by (simp add: set_update_def)

lemma set_update_Nil [simp]: "set_update s [] = s"
  by (simp add: set_update_def)

lemma nbrs_add_edges:
  "nbrs (add_edges es g) a = set_update (nbrs g a) (map snd (filter (\<lambda>e. fst e = a) es))"
proof (induction es arbitrary: g)
  case (Cons e es)
  then show ?case
    by (cases e) (simp add: add_edges_def adj_add_def nbrs_dset set_update_Cons)
qed (simp add: add_edges_def)

lemma nbrs_Nil [simp]: "nbrs [] a = []"
  by (simp add: nbrs_def dget_default_def)

lemma nbrs_add_edges_Nil: "nbrs (add_edges es []) = edges_at es"
  by (rule ext) (simp add: nbrs_add_edges edges_at_def)

lemma set_edges_at: "set (edges_at es a) = {b. (a, b) \<in> set es}"
  by (force simp: edges_at_def)

lemma add_edges_append: "add_edges (es @ es') g = add_edges es' (add_edges es g)"
  by (simp add: add_edges_def)

definition src_edges :: "pos list list \<Rightarrow> (pos \<times> pos) list" where
  "src_edges seqs = concat (map (\<lambda>seq. map (Pair (hd seq)) (tl seq)) seqs)"

definition from_src_edges :: "pos list list \<Rightarrow> (pos \<times> pos) list" where
  "from_src_edges seqs = concat (map (\<lambda>seq. map (\<lambda>i. (i, hd seq)) (tl seq)) seqs)"

definition plain_edges :: "(pos \<times> pos) list" where
  "plain_edges = concat (map (\<lambda>(a, b). [(a, b), (b, a)]) PLAIN_PAIRS) @ src_edges PLAIN_SRC"

definition seq_edges :: "pos list \<Rightarrow> (pos \<times> pos) list" where
  "seq_edges seq =
     concat (map (\<lambda>(i, a). (if i > 0 then [(a, seq ! (i - 1))] else []) @
                          (if i < length seq - 1 then [(a, seq ! (i + 1))] else []))
       (enumerate_list seq))"

definition any_edges :: "(pos \<times> pos) list" where
  "any_edges = concat (map seq_edges STRAIGHT_SEQS)"

lemma nbrs_add_src: "nbrs (add_src seqs g) = nbrs (add_edges (src_edges seqs) g)"
proof (induction seqs arbitrary: g)
  case (Cons seq seqs)
  let ?g = "dset (hd seq) (set_update (nbrs g (hd seq)) (tl seq)) g"
  have "nbrs ?g = nbrs (add_edges (map (Pair (hd seq)) (tl seq)) g)"
    by (rule ext) (simp add: nbrs_dset nbrs_add_edges filter_map comp_def)
  moreover have "nbrs (add_edges es g) = nbrs (add_edges es h)" if "nbrs g = nbrs h" for es g h
    using that by (auto simp: nbrs_add_edges)
  ultimately have "nbrs (add_edges (src_edges seqs) ?g) = nbrs (add_edges (src_edges (seq # seqs)) g)"
    unfolding src_edges_def list.map concat.simps add_edges_append by blast
  moreover have "add_src (seq # seqs) g = add_src seqs ?g" by (simp add: add_src_def)
  ultimately show ?case using Cons.IH[of ?g] by simp
qed (simp add: add_src_def add_edges_def src_edges_def)

lemma add_from_src_edges: "add_from_src seqs g = add_edges (from_src_edges seqs) g"
proof -
  have "fold (\<lambda>i graph. adj_add i s graph) xs g = add_edges (map (\<lambda>i. (i, s)) xs) g" for s xs g
    by (induction xs arbitrary: g) (simp_all add: add_edges_def)
  then show ?thesis
    by (induction seqs arbitrary: g)
       (simp_all add: add_from_src_def from_src_edges_def add_edges_append, simp add: add_edges_def)
qed

lemma plain_add_seqs_edges:
  "plain_add_seqs ps g = add_edges (concat (map (\<lambda>(a, b). [(a, b), (b, a)]) ps)) g"
  by (induction ps arbitrary: g) (auto simp: plain_add_seqs_def add_edges_def)

lemma any_add_seq_edges: "any_add_seq seq g = add_edges (seq_edges seq) g"
proof -
  have "fold (\<lambda>(i, a) graph.
              (let g = (if i > 0 then adj_add a (seq ! (i - 1)) graph else graph)
               in if i < length seq - 1 then adj_add a (seq ! (i + 1)) g else g)) es g =
        add_edges (concat (map (\<lambda>(i, a). (if i > 0 then [(a, seq ! (i - 1))] else []) @
                          (if i < length seq - 1 then [(a, seq ! (i + 1))] else [])) es)) g"
    for es :: "(nat \<times> pos) list" and g
    by (induction es arbitrary: g) (auto simp: add_edges_def Let_def)
  then show ?thesis by (simp add: any_add_seq_def seq_edges_def)
qed

lemma nbrs_POS2ANY: "nbrs POS2ANY = edges_at any_edges"
proof -
  have "fold any_add_seq seqs g = add_edges (concat (map seq_edges seqs)) g" for seqs g
    by (induction seqs arbitrary: g) (simp_all add: add_edges_append any_add_seq_edges, simp add: add_edges_def)
  then show ?thesis
    by (simp add: POS2ANY_def make_pos2any_def any_edges_def nbrs_add_edges_Nil)
qed

lemma nbrs_POS2PLAIN: "nbrs POS2PLAIN = edges_at plain_edges"
  by (simp add: POS2PLAIN_def make_pos2plain_def plain_add_seqs_edges nbrs_add_src plain_edges_def
      flip: add_edges_append nbrs_add_edges_Nil)

lemma nbrs_POS2CAMP: "nbrs POS2CAMP = edges_at (from_src_edges CAMP_SRC)"
  by (simp add: POS2CAMP_def make_pos2camp_def add_from_src_edges nbrs_add_edges_Nil)

lemma nbrs_POS2FLAG: "nbrs POS2FLAG = edges_at (from_src_edges FLAG_SRC)"
  by (simp add: POS2FLAG_def make_pos2flag_def add_from_src_edges nbrs_add_edges_Nil)

lemma nbrs_FLAG2POS: "nbrs FLAG2POS = edges_at (src_edges FLAG_SRC)"
  by (simp add: FLAG2POS_def make_flag2pos_def nbrs_add_src nbrs_add_edges_Nil)

lemmas nbrs_tables = nbrs_POS2ANY nbrs_POS2PLAIN nbrs_POS2CAMP nbrs_POS2FLAG nbrs_FLAG2POS

section \<open>The rays of a square\<close>

text \<open>
  The rays from \<open>a\<close>: for every line through \<open>a\<close>, the part before it reversed and the part
  after it.  The trie of \<open>a\<close> is the insertion of these, in this order, into the empty trie.
\<close>

definition seq_rays :: "pos \<Rightarrow> pos list \<Rightarrow> pos list list" where
  "seq_rays a seq =
     concat (map (\<lambda>(i, x). if x = a then [rev (take i seq), drop (i + 1) seq] else [])
       (enumerate_list seq))"

definition rays :: "pos \<Rightarrow> pos list list" where
  "rays a = concat (map (seq_rays a) STRAIGHT_SEQS)"

definition straight_at :: "pos \<Rightarrow> trie" where
  "straight_at a = fold (\<lambda>r t. add_graph t r) (rays a) (Trie [])"

definition trie_at :: "(pos, trie) dict \<Rightarrow> pos \<Rightarrow> trie" where
  "trie_at graph a = dget_default graph a (Trie [])"

lemma trie_at_add_ray:
  "trie_at (add_ray b r g) a = (if a = b then add_graph (trie_at g a) r else trie_at g a)"
  by (simp add: trie_at_def add_ray_def dget_default_def)

lemma trie_at_add_seq:
  "trie_at (straight_add_seq seq g) a = fold (\<lambda>r t. add_graph t r) (seq_rays a seq) (trie_at g a)"
proof -
  have "trie_at (fold (\<lambda>(i, a) graph. add_ray a (drop (i + 1) seq) (add_ray a (rev (take i seq)) graph)) es g) a
        = fold (\<lambda>r t. add_graph t r)
            (concat (map (\<lambda>(i, x). if x = a then [rev (take i seq), drop (i + 1) seq] else []) es))
            (trie_at g a)" for es g
    by (induction es arbitrary: g) (auto simp: trie_at_add_ray)
  then show ?thesis by (simp add: straight_add_seq_def seq_rays_def)
qed

lemma trie_at_POS2STRAIGHT: "trie_at POS2STRAIGHT a = straight_at a"
proof -
  have "trie_at (fold straight_add_seq seqs g) a =
        fold (\<lambda>r t. add_graph t r) (concat (map (seq_rays a) seqs)) (trie_at g a)" for seqs g
    by (induction seqs arbitrary: g) (simp_all add: trie_at_add_seq)
  then show ?thesis
    by (simp add: POS2STRAIGHT_def make_pos2straight_def straight_at_def rays_def)
       (simp add: trie_at_def dget_default_def)
qed

lemma fold_add_graph:
  assumes "trie_ok t"
  shows "trie_ok (fold (\<lambda>r t. add_graph t r) rs t) \<and>
    trie_paths (fold (\<lambda>r t. add_graph t r) rs t) = trie_paths t \<union> (\<Union>r \<in> set rs. set (prefixes r))"
  using assms by (induction rs arbitrary: t) (auto simp: add_graph_ok add_graph_paths)

lemma straight_at_ok: "trie_ok (straight_at a)"
  by (simp add: straight_at_def fold_add_graph)

lemma straight_at_paths:
  "trie_paths (straight_at a) = insert [] (\<Union>r \<in> set (rays a). set (prefixes r))"
  by (simp add: straight_at_def fold_add_graph)

lemma mem_seq_rays: "r \<in> set (seq_rays a seq) \<longleftrightarrow> (\<exists>u v. seq = u @ a # v \<and> (r = rev u \<or> r = v))"
proof
  assume "r \<in> set (seq_rays a seq)"
  then obtain i where i: "i < length seq" "seq ! i = a" "r = rev (take i seq) \<or> r = drop (i + 1) seq"
    by (auto simp: seq_rays_def set_enumerate_list split: if_splits)
  then have "seq = take i seq @ a # drop (i + 1) seq" using id_take_nth_drop[OF i(1)] by simp
  then show "\<exists>u v. seq = u @ a # v \<and> (r = rev u \<or> r = v)" using i(3) by blast
next
  assume "\<exists>u v. seq = u @ a # v \<and> (r = rev u \<or> r = v)"
  then obtain u v where "seq = u @ a # v" "r = rev u \<or> r = v" by blast
  then show "r \<in> set (seq_rays a seq)"
    by (auto simp: seq_rays_def set_enumerate_list intro!: exI[of _ "length u"])
qed

text \<open>
  The nonempty paths from \<open>a\<close> are the ways along one line, in either direction; so a way from
  \<open>a\<close> to \<open>b\<close> reversed is a way from \<open>b\<close> to \<open>a\<close>.
\<close>

definition on_line :: "pos list \<Rightarrow> bool" where
  "on_line w \<longleftrightarrow> (\<exists>seq \<in> set STRAIGHT_SEQS. sublist w seq \<or> sublist (rev w) seq)"

lemma ray_path_iff:
  "p \<noteq> [] \<Longrightarrow> p \<in> trie_paths (straight_at a) \<longleftrightarrow> on_line (a # p)"
proof
  assume "p \<noteq> []" "p \<in> trie_paths (straight_at a)"
  then obtain seq r where r: "seq \<in> set STRAIGHT_SEQS" "r \<in> set (seq_rays a seq)" "prefix p r"
    by (auto simp: straight_at_paths rays_def)
  then obtain u v where uv: "seq = u @ a # v" "r = rev u \<or> r = v" by (auto simp: mem_seq_rays)
  from r(3) obtain z where z: "r = p @ z" by (auto simp: prefix_def)
  show "on_line (a # p)"
  proof (cases "r = v")
    case True
    then have "seq = u @ (a # p) @ z" using uv z by simp
    then show ?thesis using r(1) by (auto simp: on_line_def intro: sublist_appendI)
  next
    case False
    then have "u = rev z @ rev p" using uv z by (metis rev_append rev_rev_ident)
    then have "seq = rev z @ rev (a # p) @ v" using uv by simp
    then show ?thesis using r(1) by (auto simp: on_line_def intro: sublist_appendI)
  qed
next
  assume "on_line (a # p)"
  then obtain seq where seq: "seq \<in> set STRAIGHT_SEQS" "sublist (a # p) seq \<or> sublist (rev (a # p)) seq"
    by (auto simp: on_line_def)
  then have "\<exists>r \<in> set (seq_rays a seq). prefix p r"
  proof (elim disjE)
    assume "sublist (a # p) seq"
    then obtain u v where "seq = u @ a # p @ v" by (auto simp: sublist_def)
    then have "p @ v \<in> set (seq_rays a seq)" by (auto simp: mem_seq_rays)
    then show ?thesis by (meson prefixI)
  next
    assume "sublist (rev (a # p)) seq"
    then obtain u v where "seq = (u @ rev p) @ a # v" by (auto simp: sublist_def)
    then have "rev (u @ rev p) \<in> set (seq_rays a seq)" unfolding mem_seq_rays by blast
    then show ?thesis by (metis prefixI rev_append rev_rev_ident)
  qed
  then show "p \<in> trie_paths (straight_at a)"
    using seq(1) by (auto simp: straight_at_paths rays_def)
qed

lemma on_line_rev: "on_line (rev w) \<longleftrightarrow> on_line w"
  by (auto simp: on_line_def)

section \<open>Finite facts about the tables\<close>

definition RAIL :: "pos list" where "RAIL = remdups (concat STRAIGHT_SEQS)"
definition CAMPS :: "pos list" where "CAMPS = map hd CAMP_SRC"
definition HQS :: "pos list" where "HQS = [26, 28, 56, 58, 86, 88, 116, 118]"

definition rays_unique :: "pos list list \<Rightarrow> bool" where
  "rays_unique rs \<longleftrightarrow>
     list_all (\<lambda>r. list_all (\<lambda>s. let n = lcp r s in list_all (\<lambda>x. x \<notin> set (drop n s)) (drop n r)) rs) rs"

lemma RAIL_eval [code]:
  "RAIL =
     [1, 3, 21, 22, 23, 31, 33, 51, 52, 53, 61, 63, 81, 82, 83, 91, 93, 111, 112, 113, 124, 126,
      122, 120, 20, 15, 10, 5, 0, 94, 99, 104, 109, 114, 24, 19, 14, 9, 4, 30, 35, 40, 45, 50, 54,
      49, 44, 39, 34, 60, 65, 70, 75, 80, 84, 79, 74, 69, 64, 90, 95, 100, 105, 110, 2, 125, 121,
      62, 32, 123, 128, 127, 92]"
  by code_simp

lemma CAMPS_eval [code]:
  "CAMPS = [6, 8, 12, 16, 18, 36, 38, 42, 46, 48, 66, 68, 72, 76, 78, 96, 98, 102, 106, 108]"
  by (simp add: CAMPS_def CAMP_SRC_def)

lemma hd_FLAG_SRC: "map hd FLAG_SRC = HQS"
  by (simp add: FLAG_SRC_def HQS_def)

lemma seqs_distinct: "list_all distinct STRAIGHT_SEQS"
  by code_simp

lemma rail_rays_unique: "list_all (\<lambda>a. rays_unique (rays a)) RAIL"
  by code_simp

lemma rail_range: "list_all (\<lambda>a. 0 \<le> a \<and> a \<le> 128) RAIL"
  by code_simp

lemma rail_no_camp: "list_all (\<lambda>a. a \<notin> set CAMPS \<and> a \<notin> set HQS) RAIL"
  by code_simp

lemma camps_facts: "list_all (\<lambda>a. a \<notin> set HQS \<and> 0 \<le> a \<and> a \<le> 128) CAMPS"
  by code_simp

lemma plain_facts:
  "list_all (\<lambda>(a, b). a \<noteq> b \<and> 0 \<le> b \<and> b \<le> 128 \<and> b \<notin> set CAMPS \<and> b \<notin> set HQS \<and>
     (a \<in> set CAMPS \<or> a \<notin> set HQS \<and> (a \<in> set RAIL \<longrightarrow> b \<notin> set RAIL))) plain_edges"
  by code_simp

lemma plain_src_camp:
  "list_all2 (\<lambda>s t. hd s = hd t \<and> list_all (\<lambda>x. x \<in> set (tl t)) (tl s) \<and>
      list_all (\<lambda>x. x \<in> set CAMPS \<or> x \<in> set (tl s)) (tl t)) PLAIN_SRC CAMP_SRC"
  by code_simp

lemma camp_facts: "list_all (\<lambda>(a, c). a \<noteq> c \<and> 0 \<le> a \<and> a \<le> 128) (from_src_edges CAMP_SRC)"
  by code_simp

lemma camp_camp:
  "list_all (\<lambda>(a, c). a \<in> set CAMPS \<longrightarrow> (c, a) \<in> set (from_src_edges CAMP_SRC)) (from_src_edges CAMP_SRC)"
  by code_simp

lemma flag_facts: "list_all (\<lambda>(a, c). a \<noteq> c \<and> 0 \<le> a \<and> a \<le> 128 \<and> a \<notin> set HQS \<and> a \<notin> set CAMPS) (from_src_edges FLAG_SRC)"
  by code_simp
abbreviation camp_edges :: "(pos \<times> pos) list" where
  "camp_edges \<equiv> from_src_edges CAMP_SRC"

abbreviation flag_edges :: "(pos \<times> pos) list" where
  "flag_edges \<equiv> from_src_edges FLAG_SRC"

lemma mem_src_edges: "(a, b) \<in> set (src_edges seqs) \<longleftrightarrow> (\<exists>s \<in> set seqs. a = hd s \<and> b \<in> set (tl s))"
  by (auto simp: src_edges_def)

lemma mem_from_src_edges:
  "(a, b) \<in> set (from_src_edges seqs) \<longleftrightarrow> (\<exists>s \<in> set seqs. b = hd s \<and> a \<in> set (tl s))"
  by (auto simp: from_src_edges_def)

lemma src_edges_flip: "(a, b) \<in> set (src_edges seqs) \<longleftrightarrow> (b, a) \<in> set (from_src_edges seqs)"
  by (simp add: mem_src_edges mem_from_src_edges)

lemma plain_src_in_camp: "(a, b) \<in> set (src_edges PLAIN_SRC) \<Longrightarrow> (b, a) \<in> set camp_edges"
proof -
  assume "(a, b) \<in> set (src_edges PLAIN_SRC)"
  then obtain i where i: "i < length PLAIN_SRC" "a = hd (PLAIN_SRC ! i)" "b \<in> set (tl (PLAIN_SRC ! i))"
    unfolding mem_src_edges by (metis in_set_conv_nth)
  have "i < length CAMP_SRC" "hd (CAMP_SRC ! i) = a" "b \<in> set (tl (CAMP_SRC ! i))"
    using plain_src_camp i by (auto simp: list_all2_conv_all_nth list_all_iff)
  then show ?thesis unfolding mem_from_src_edges by (metis nth_mem)
qed

lemma plain_sym: "(a, b) \<in> set plain_edges \<Longrightarrow> (b, a) \<in> set plain_edges \<or> (b, a) \<in> set camp_edges"
  using plain_src_in_camp by (fastforce simp: plain_edges_def)

lemma camp_sym: "(a, c) \<in> set camp_edges \<Longrightarrow> (c, a) \<in> set plain_edges \<or> (c, a) \<in> set camp_edges"
proof -
  assume ac: "(a, c) \<in> set camp_edges"
  then obtain i where i: "i < length CAMP_SRC" "c = hd (CAMP_SRC ! i)" "a \<in> set (tl (CAMP_SRC ! i))"
    unfolding mem_from_src_edges by (metis in_set_conv_nth)
  have *: "i < length PLAIN_SRC" "hd (PLAIN_SRC ! i) = c" "a \<in> set CAMPS \<or> a \<in> set (tl (PLAIN_SRC ! i))"
    using plain_src_camp i by (auto simp: list_all2_conv_all_nth list_all_iff)
  from *(3) show ?thesis
  proof
    assume "a \<in> set CAMPS"
    then show ?thesis using camp_camp ac by (auto simp: list_all_iff)
  next
    assume "a \<in> set (tl (PLAIN_SRC ! i))"
    then have "(c, a) \<in> set (src_edges PLAIN_SRC)"
      unfolding mem_src_edges using *(1,2) by (metis nth_mem)
    then show ?thesis by (simp add: plain_edges_def)
  qed
qed

lemma plain_edge:
  "(a, b) \<in> set plain_edges \<Longrightarrow> a \<noteq> b \<and> 0 \<le> b \<and> b \<le> 128 \<and> b \<notin> set CAMPS \<and> b \<notin> set HQS \<and>
     a \<notin> set HQS \<and> (a \<in> set RAIL \<longrightarrow> b \<notin> set RAIL)"
  using plain_facts camps_facts rail_no_camp by (fastforce simp: list_all_iff)

lemma camp_edge:
  "(a, c) \<in> set camp_edges \<Longrightarrow> a \<noteq> c \<and> c \<in> set CAMPS \<and> c \<notin> set HQS \<and> c \<notin> set RAIL \<and> 0 \<le> c \<and> c \<le> 128"
  using camp_facts camps_facts rail_no_camp by (fastforce simp: list_all_iff mem_from_src_edges CAMPS_def)

lemma flag_edge:
  "(a, h) \<in> set flag_edges \<Longrightarrow> a \<noteq> h \<and> h \<in> set HQS \<and> h \<notin> set CAMPS \<and> h \<notin> set RAIL \<and> 0 \<le> h \<and> h \<le> 128 \<and> a \<notin> set HQS"
proof -
  assume a: "(a, h) \<in> set flag_edges"
  then have h: "h \<in> set HQS" unfolding mem_from_src_edges by (metis hd_FLAG_SRC imageI set_map)
  moreover have "h \<notin> set CAMPS" using h camps_facts by (auto simp: list_all_iff)
  moreover have "h \<notin> set RAIL" using h rail_no_camp by (auto simp: list_all_iff)
  moreover have "0 \<le> h \<and> h \<le> 128" using h by (auto simp: HQS_def)
  moreover have "a \<noteq> h \<and> a \<notin> set HQS" using a flag_facts by (auto simp: list_all_iff)
  ultimately show ?thesis by blast
qed

lemma on_line_facts:
  assumes "on_line (a # p)"
  shows "distinct (a # p)" "set (a # p) \<subseteq> set RAIL"
proof -
  obtain seq where seq: "seq \<in> set STRAIGHT_SEQS" "sublist (a # p) seq \<or> sublist (rev (a # p)) seq"
    using assms by (auto simp: on_line_def)
  have "distinct seq" using seq(1) seqs_distinct by (auto simp: list_all_iff)
  with seq(2) have "distinct (a # p) \<and> set (a # p) \<subseteq> set seq"
    by (auto simp: sublist_def)
  then show "distinct (a # p)" "set (a # p) \<subseteq> set RAIL" using seq(1) by (auto simp: RAIL_def)
qed

lemma rail_bounds: "a \<in> set RAIL \<Longrightarrow> 0 \<le> a \<and> a \<le> 128"
  using rail_range by (auto simp: list_all_iff)

lemma rail_not_special: "a \<in> set RAIL \<Longrightarrow> a \<notin> set CAMPS \<and> a \<notin> set HQS"
  using rail_no_camp by (auto simp: list_all_iff)

lemma prefix_last_eq:
  assumes "distinct s" "prefix p s" "prefix q s" "p \<noteq> []" "q \<noteq> []" "last p = last q"
  shows "p = q"
proof -
  have *: "x = y" if "prefix x y" "prefix y s" "x \<noteq> []" "last x = last y" for x y
  proof -
    obtain z w where z: "y = x @ z" "s = x @ z @ w" using \<open>prefix x y\<close> \<open>prefix y s\<close> by (auto simp: prefix_def)
    have "last x \<in> set x" using that(3) by simp
    then have nz: "last x \<notin> set z" using assms(1) z(2) by auto
    have "z = []"
    proof (rule ccontr)
      assume "z \<noteq> []"
      then have "last y \<in> set z" using z(1) by simp
      then show False using nz that(4) by simp
    qed
    then show ?thesis using z(1) by simp
  qed
  from prefix_same_cases[OF assms(2,3)] show ?thesis
    using *[OF _ assms(3,4,6)] *[OF _ assms(2,5) assms(6)[symmetric]] by metis
qed

lemma last_in_drop: "prefix p r \<Longrightarrow> n < length p \<Longrightarrow> last p \<in> set (drop n r)"
  using last_in_set[of "drop n p"] by (auto simp: prefix_def)

lemma path_unique:
  assumes p: "on_line (a # p)" "p \<noteq> []" and q: "on_line (a # q)" "q \<noteq> []" and l: "last p = last q"
  shows "p = q"
proof -
  have a: "a \<in> set RAIL" using on_line_facts(2)[OF p(1)] by simp
  obtain r s where rs: "r \<in> set (rays a)" "prefix p r" "s \<in> set (rays a)" "prefix q s"
    using p q by (auto simp flip: ray_path_iff simp: straight_at_paths)
  have d: "distinct r" "distinct s"
  proof -
    have "distinct x" if "x \<in> set (rays a)" for x
    proof (cases "x = []")
      case False
      have "x \<in> trie_paths (straight_at a)" using that by (auto simp: straight_at_paths)
      then show ?thesis using on_line_facts(1) False by (auto simp: ray_path_iff)
    qed simp
    then show "distinct r" "distinct s" using rs by auto
  qed
  let ?n = "lcp r s"
  have t: "take ?n r = take ?n s" by (rule take_lcp)
  have disj: "set (drop ?n r) \<inter> set (drop ?n s) = {}"
    using rail_rays_unique a rs(1,3) by (fastforce simp: list_all_iff rays_unique_def Let_def)
  consider "length p \<le> ?n" | "length q \<le> ?n" | "?n < length p" "?n < length q" by linarith
  then show ?thesis
  proof cases
    case 1
    then have "p = take (length p) (take ?n s)" using rs(2) t
      by (metis append_eq_conv_conj min.absorb1 prefix_def take_take)
    then have "prefix p s" by (metis take_is_prefix take_take)
    then show ?thesis using prefix_last_eq[OF d(2) _ rs(4) p(2) q(2) l] by blast
  next
    case 2
    then have "q = take (length q) (take ?n r)" using rs(4) t
      by (metis append_eq_conv_conj min.absorb1 prefix_def take_take)
    then have "prefix q r" by (metis take_is_prefix take_take)
    then show ?thesis using prefix_last_eq[OF d(1) rs(2) _ p(2) q(2) l] by blast
  next
    case 3
    then have "last p \<in> set (drop ?n r)" "last q \<in> set (drop ?n s)"
      using rs by (auto intro: last_in_drop)
    then show ?thesis using disj l by auto
  qed
qed

end
