(* ===== verification/Board_Moves.thy ===== *)
theory Board_Moves
  imports Board_Util
begin

text \<open>
  The move generator of \<open>patch/board/board_util.py\<close>: \<open>traverse_bfs\<close> (the engineer's railway
  moves), \<open>traverse_dfs\<close> (straight railway moves, over the trie), \<open>traverse\<close> (single steps),
  \<open>get_moves\<close> and \<open>get_engineer_moves\<close>, and the rotation of squares between the two seats of a
  group.  The lemmas relate what each traversal collects to lines of sight and reachability on the
  board, and show that the duplicate-key assertion never fails, so both generators are total.
\<close>

section \<open>Rotation of squares\<close>

definition transform_pos_elem :: "pos \<Rightarrow> pos" where
  "transform_pos_elem p =
     (if p < 120 then (p - 30) mod 120
      else if 120 \<le> p \<and> p \<le> 125 then p + 2
      else if 126 \<le> p \<and> p \<le> 127 then p - 6
      else p)"

text \<open>The masks are computed before any assignment, so the in-place update acts element-wise.\<close>

definition transform_pos :: "pos list \<Rightarrow> pos list" where
  "transform_pos ps = map transform_pos_elem ps"

definition transform_pos_reverse_elem :: "pos \<Rightarrow> pos" where
  "transform_pos_reverse_elem p =
     (if p < 120 then (p + 30) mod 120
      else if 120 \<le> p \<and> p \<le> 121 then p + 6
      else if 122 \<le> p \<and> p \<le> 127 then p - 2
      else p)"

definition transform_pos_reverse :: "pos list \<Rightarrow> pos list" where
  "transform_pos_reverse ps = map transform_pos_reverse_elem ps"

definition transform_pos_reverse_scalar :: "pos \<Rightarrow> pos" where
  "transform_pos_reverse_scalar p =
     (if p < 120 then (p + 30) mod 120
      else if 120 \<le> p \<and> p \<le> 121 then p + 6
      else if 122 \<le> p \<and> p \<le> 127 then p - 2
      else p)"

abbreviation on_board :: "pos \<Rightarrow> bool" where
  "on_board p \<equiv> 0 \<le> p \<and> p \<le> 128"

lemma transform_pos_elem_on_board: "on_board p \<Longrightarrow> on_board (transform_pos_elem p)"
proof -
  have "0 \<le> (p - 30) mod 120" "(p - 30) mod 120 < 120" by simp_all
  then show "on_board p \<Longrightarrow> ?thesis" by (auto simp: transform_pos_elem_def simp del: pos_mod_bound)
qed

lemma reverse_on_board: "on_board p \<Longrightarrow> on_board (transform_pos_reverse_scalar p)"
proof -
  have "0 \<le> (p + 30) mod 120" "(p + 30) mod 120 < 120" by simp_all
  then show "on_board p \<Longrightarrow> ?thesis" by (auto simp: transform_pos_reverse_scalar_def simp del: pos_mod_bound)
qed

lemma reverse_transform: "on_board p \<Longrightarrow> transform_pos_reverse_scalar (transform_pos_elem p) = p"
proof (cases "p < 120")
  case True
  moreover assume "on_board p"
  moreover have "(p - 30) mod 120 < 120" by simp
  ultimately show ?thesis
    by (simp add: transform_pos_elem_def transform_pos_reverse_scalar_def mod_add_left_eq mod_pos_pos_trivial)
next
  case False
  then show "on_board p \<Longrightarrow> ?thesis"
    by (auto simp: transform_pos_elem_def transform_pos_reverse_scalar_def)
qed

lemma transform_reverse: "on_board p \<Longrightarrow> transform_pos_elem (transform_pos_reverse_scalar p) = p"
proof (cases "p < 120")
  case True
  moreover assume "on_board p"
  moreover have "(p + 30) mod 120 < 120" by simp
  ultimately show ?thesis
    by (simp add: transform_pos_elem_def transform_pos_reverse_scalar_def mod_diff_left_eq mod_pos_pos_trivial)
next
  case False
  then show "on_board p \<Longrightarrow> ?thesis"
    by (auto simp: transform_pos_elem_def transform_pos_reverse_scalar_def)
qed

section \<open>The traversals\<close>

type_synonym piece = "nat \<times> nat \<times> nat"
type_synonym p2p = "(pos, piece) dict"

abbreviation player_of :: "piece \<Rightarrow> nat" where "player_of \<equiv> fst"
abbreviation role_of :: "piece \<Rightarrow> nat" where "role_of p \<equiv> fst (snd p)"

definition enemy :: "piece \<Rightarrow> piece \<Rightarrow> bool" where
  "enemy p q \<longleftrightarrow> \<bar>int (player_of p) - int (player_of q)\<bar> \<in> {1, 3}"

text \<open>What a traversal returns: the squares to move to, the pieces met, and the search tree.\<close>

record trav =
  t_positions :: "pos list"
  t_pieces :: "piece list"
  t_parent :: "(pos, pos) dict"

definition trav0 :: trav where
  "trav0 = \<lparr>t_positions = [], t_pieces = [], t_parent = []\<rparr>"

definition add_position :: "pos \<Rightarrow> pos \<Rightarrow> trav \<Rightarrow> trav" where
  "add_position p prev s =
     s\<lparr>t_positions := set_add p (t_positions s), t_parent := dset p prev (t_parent s)\<rparr>"

definition add_piece :: "piece \<Rightarrow> trav \<Rightarrow> trav" where
  "add_piece q s = s\<lparr>t_pieces := set_add q (t_pieces s)\<rparr>"

definition bfs_visit ::
  "piece \<Rightarrow> p2p \<Rightarrow> pos \<Rightarrow> pos \<Rightarrow> pos list \<times> pos list \<times> trav \<Rightarrow> pos list \<times> pos list \<times> trav" where
  "bfs_visit piece pos2piece nxt p = (\<lambda>(queue, visited, s).
     if p \<in> set visited then (queue, visited, s)
     else (case map_of pos2piece p of
             None \<Rightarrow> (queue @ [p], set_add p visited, add_position p nxt s)
           | Some piece1 \<Rightarrow>
               (queue, set_add p visited,
                (let s1 = add_piece piece1 s
                 in if enemy piece piece1 then add_position p nxt s1 else s1))))"

definition adj_nodes :: "adj \<Rightarrow> pos set" where
  "adj_nodes graph = set (concat (map snd graph))"

lemma nbrs_adj_nodes: "set (nbrs graph a) \<subseteq> adj_nodes graph"
proof (cases "map_of graph a")
  case (Some ns)
  then have "(a, ns) \<in> set graph" by (rule map_of_SomeD)
  then show ?thesis using Some by (auto simp: nbrs_def dget_default_def adj_nodes_def intro!: bexI)
qed (simp add: nbrs_def dget_default_def)

definition bfs_measure :: "pos set \<Rightarrow> pos list \<times> pos list \<times> trav \<Rightarrow> nat" where
  "bfs_measure U = (\<lambda>(queue, visited, s). card (U - set visited) + length queue)"

lemma bfs_visit_measure:
  assumes "finite U" "p \<in> U"
  shows "bfs_measure U (bfs_visit piece m nxt p st) \<le> bfs_measure U st"
proof -
  obtain queue visited s where st: "st = (queue, visited, s)" by (cases st)
  have "card (U - insert p (set visited)) < card (U - set visited)" if "p \<notin> set visited"
    using assms that by (intro psubset_card_mono) auto
  then show ?thesis
    by (auto simp: st bfs_visit_def bfs_measure_def Let_def split: option.splits)
qed

lemma fold_bfs_visit_measure:
  assumes "finite U" "set ps \<subseteq> U"
  shows "bfs_measure U (fold (bfs_visit piece m nxt) ps st) \<le> bfs_measure U st"
  using assms(2)
proof (induction ps arbitrary: st)
  case (Cons p ps)
  have "bfs_measure U (fold (bfs_visit piece m nxt) ps (bfs_visit piece m nxt p st))
        \<le> bfs_measure U (bfs_visit piece m nxt p st)" using Cons by simp
  also have "\<dots> \<le> bfs_measure U st" using Cons.prems by (intro bfs_visit_measure assms(1)) simp
  finally show ?case by simp
qed simp

function bfs_loop :: "piece \<Rightarrow> p2p \<Rightarrow> adj \<Rightarrow> pos list \<times> pos list \<times> trav \<Rightarrow> trav" where
  "bfs_loop piece pos2piece graph (queue, visited, s) =
     (case queue of
        [] \<Rightarrow> s
      | nxt # queue' \<Rightarrow>
          bfs_loop piece pos2piece graph
            (fold (bfs_visit piece pos2piece nxt) (nbrs graph nxt) (queue', visited, s)))"
  by pat_completeness auto
termination
proof (relation "measure (\<lambda>(piece, m, graph, st). bfs_measure (adj_nodes graph) st)")
  fix piece m graph queue visited s and nxt :: pos and queue'
  assume q: "queue = nxt # queue'"
  have "finite (adj_nodes graph)" by (simp add: adj_nodes_def)
  from fold_bfs_visit_measure[OF this nbrs_adj_nodes]
  have "bfs_measure (adj_nodes graph) (fold (bfs_visit piece m nxt) (nbrs graph nxt) (queue', visited, s))
        \<le> bfs_measure (adj_nodes graph) (queue', visited, s)" .
  also have "\<dots> < bfs_measure (adj_nodes graph) (queue, visited, s)" by (simp add: bfs_measure_def q)
  finally show "((piece, m, graph, fold (bfs_visit piece m nxt) (nbrs graph nxt) (queue', visited, s)),
     piece, m, graph, queue, visited, s) \<in> measure (\<lambda>(piece, m, graph, st). bfs_measure (adj_nodes graph) st)"
    unfolding in_measure prod.case .
qed simp

definition traverse_bfs :: "pos \<Rightarrow> p2p \<Rightarrow> adj \<Rightarrow> trav result" where
  "traverse_bfs start pos2piece graph =
     bindE (dget pos2piece start)
       (\<lambda>piece. Inr (bfs_loop piece pos2piece graph ([start], [start], trav0)))"

definition can_take :: "piece option \<Rightarrow> piece \<Rightarrow> bool" where
  "can_take piece piece1 = (case piece of None \<Rightarrow> False | Some p \<Rightarrow> enemy p piece1)"

text \<open>
  The inner loop over one key of the trie: the last square reached (for the \<open>else\<close> branch of the
  loop), or None when it was left by \<open>break\<close>.
\<close>

fun dfs_path :: "piece option \<Rightarrow> p2p \<Rightarrow> pos list \<Rightarrow> pos \<Rightarrow> trav \<Rightarrow> pos option \<times> trav" where
  "dfs_path piece pos2piece [] cur_prev s = (Some cur_prev, s)"
| "dfs_path piece pos2piece (p # path) cur_prev s =
     (case map_of pos2piece p of
        None \<Rightarrow> dfs_path piece pos2piece path p (add_position p cur_prev s)
      | Some piece1 \<Rightarrow>
          (None,
           (let s1 = add_piece piece1 s
            in if can_take piece piece1 then add_position p cur_prev s1 else s1)))"

fun dfs :: "piece option \<Rightarrow> p2p \<Rightarrow> trie \<Rightarrow> pos \<Rightarrow> trav \<Rightarrow> trav"
and dfs_items :: "piece option \<Rightarrow> p2p \<Rightarrow> (pos list \<times> trie) list \<Rightarrow> pos \<Rightarrow> trav \<Rightarrow> trav" where
  "dfs piece pos2piece (Trie items) prev s = dfs_items piece pos2piece items prev s"
| "dfs_items piece pos2piece [] prev s = s"
| "dfs_items piece pos2piece ((path, subtree) # items) prev s =
     dfs_items piece pos2piece items prev
       (case dfs_path piece pos2piece path prev s of
          (Some cur_prev, s1) \<Rightarrow> dfs piece pos2piece subtree cur_prev s1
        | (None, s1) \<Rightarrow> s1)"

definition traverse_dfs :: "pos \<Rightarrow> p2p \<Rightarrow> (pos, trie) dict \<Rightarrow> trav" where
  "traverse_dfs start pos2piece graph =
     dfs (map_of pos2piece start) pos2piece (trie_at graph start) start trav0"

definition step_visit :: "piece option \<Rightarrow> p2p \<Rightarrow> pos \<Rightarrow> bool \<Rightarrow> pos \<Rightarrow> trav \<Rightarrow> trav" where
  "step_visit piece pos2piece start is_camp p s =
     (case map_of pos2piece p of
        None \<Rightarrow> add_position p start s
      | Some piece1 \<Rightarrow>
          (let s1 = add_piece piece1 s
           in if \<not> is_camp \<and> can_take piece piece1 then add_position p start s1 else s1))"

definition traverse :: "pos \<Rightarrow> p2p \<Rightarrow> adj \<Rightarrow> bool \<Rightarrow> trav" where
  "traverse start pos2piece graph is_camp =
     fold (step_visit (map_of pos2piece start) pos2piece start is_camp) (nbrs graph start) trav0"

section \<open>The moves of a piece\<close>

text \<open>
  \<open>parent\<close> maps a square to the square before it, and the start to \<open>None\<close>.
\<close>

type_synonym parents = "(pos, pos option) dict"

definition merge_parent :: "(pos, pos) dict \<Rightarrow> parents \<Rightarrow> parents result" where
  "merge_parent d =
     foldE (\<lambda>(k, v) parent.
       bindE (assertE (map_of parent k = None)) (\<lambda>_. Inr (dset k (Some v) parent))) d"

type_synonym moves = "pos list \<times> piece list \<times> parents"

definition merge_moves :: "pos \<Rightarrow> trav \<Rightarrow> trav \<Rightarrow> trav \<Rightarrow> trav \<Rightarrow> trav \<Rightarrow> moves result" where
  "merge_moves start t1 t2 t3 t4 t5 =
     (let positions = set_update (set_update (set_update (t_positions t1) (t_positions t2))
                        (t_positions t3)) (t_positions t4);
          pieces = set_update (set_update (set_update (t_pieces t1) (t_pieces t2))
                     (t_pieces t3)) (t_pieces t5)
      in bindE (foldE merge_parent [t_parent t1, t_parent t2, t_parent t3, t_parent t4]
                  [(start, None)])
           (\<lambda>parent. Inr (positions, pieces, parent)))"

definition get_moves :: "pos \<Rightarrow> p2p \<Rightarrow> moves result" where
  "get_moves start pos2piece =
     merge_moves start
       (traverse_dfs start pos2piece POS2STRAIGHT)
       (traverse start pos2piece POS2PLAIN False)
       (traverse start pos2piece POS2CAMP True)
       (traverse start pos2piece POS2FLAG False)
       (traverse start pos2piece FLAG2POS False)"

definition get_engineer_moves :: "pos \<Rightarrow> p2p \<Rightarrow> moves result" where
  "get_engineer_moves start pos2piece =
     bindE (traverse_bfs start pos2piece POS2ANY) (\<lambda>t1.
       merge_moves start t1
         (traverse start pos2piece POS2PLAIN False)
         (traverse start pos2piece POS2CAMP True)
         (traverse start pos2piece POS2FLAG False)
         (traverse start pos2piece FLAG2POS False))"

section \<open>What a traversal collects\<close>

definition enterable :: "piece option \<Rightarrow> p2p \<Rightarrow> pos \<Rightarrow> bool" where
  "enterable piece m x \<longleftrightarrow> (case map_of m x of None \<Rightarrow> True | Some q \<Rightarrow> can_take piece q)"

definition clear :: "p2p \<Rightarrow> pos list \<Rightarrow> bool" where
  "clear m xs \<longleftrightarrow> (\<forall>x \<in> set xs. map_of m x = None)"

text \<open>
  \<open>adds s t A Q\<close>: \<open>t\<close> is \<open>s\<close> with the moves \<open>A\<close> (square and the one before it) and the pieces \<open>Q\<close>.
\<close>

definition adds :: "trav \<Rightarrow> trav \<Rightarrow> (pos \<times> pos) set \<Rightarrow> piece set \<Rightarrow> bool" where
  "adds s t A Q \<longleftrightarrow>
     set (t_positions t) = set (t_positions s) \<union> fst ` A \<and>
     set (t_pieces t) = set (t_pieces s) \<union> Q \<and>
     dom (map_of (t_parent t)) = dom (map_of (t_parent s)) \<union> fst ` A \<and>
     (distinct (map fst (t_parent s)) \<longrightarrow> distinct (map fst (t_parent t))) \<and>
     (\<forall>x y. map_of (t_parent t) x = Some y \<longrightarrow> map_of (t_parent s) x = Some y \<or> (x, y) \<in> A)"

lemma adds_refl: "adds s s {} {}"
  by (simp add: adds_def)

lemma adds_trans: "adds s t A P \<Longrightarrow> adds t u B Q \<Longrightarrow> adds s u (A \<union> B) (P \<union> Q)"
  unfolding adds_def
  apply (elim conjE, intro conjI)
      apply (simp_all add: Un_assoc image_Un)
  by metis

lemma adds_position: "adds s (add_position p prev s) {(p, prev)} {}"
  by (auto simp: adds_def add_position_def)

lemma adds_piece: "adds s (add_piece q s) {} {q}"
  by (auto simp: adds_def add_piece_def)

lemma adds_found:
  "adds s (let s1 = add_piece q s in if b then add_position p prev s1 else s1)
     (if b then {(p, prev)} else {}) {q}"
  using adds_trans[OF adds_piece[of s q] adds_position[of _ p prev]] by (simp add: adds_piece Let_def)

lemma adds_cong: "adds s t A Q \<Longrightarrow> A = A' \<Longrightarrow> Q = Q' \<Longrightarrow> adds s t A' Q'"
  by simp

subsection \<open>Lines of sight\<close>

text \<open>The squares and pieces visible along a set of paths.\<close>

definition sight :: "piece option \<Rightarrow> p2p \<Rightarrow> pos \<Rightarrow> pos list set \<Rightarrow> (pos \<times> pos) set" where
  "sight piece m prev P =
     {(last p, last (prev # butlast p)) | p. p \<in> P \<and> p \<noteq> [] \<and> clear m (butlast p) \<and> enterable piece m (last p)}"

definition seen :: "p2p \<Rightarrow> pos list set \<Rightarrow> piece set" where
  "seen m P = {q. \<exists>p \<in> P. p \<noteq> [] \<and> clear m (butlast p) \<and> map_of m (last p) = Some q}"

lemma sight_Un: "sight piece m prev (P \<union> Q) = sight piece m prev P \<union> sight piece m prev Q"
  by (auto simp: sight_def)

lemma seen_Un: "seen m (P \<union> Q) = seen m P \<union> seen m Q"
  by (auto simp: seen_def)

lemma sight_UN: "sight piece m prev (\<Union>c \<in> C. P c) = (\<Union>c \<in> C. sight piece m prev (P c))"
  by (auto simp: sight_def)

lemma seen_UN: "seen m (\<Union>c \<in> C. P c) = (\<Union>c \<in> C. seen m (P c))"
  by (auto simp: seen_def)

lemma sight_insert_Nil: "sight piece m prev (insert [] P) = sight piece m prev P"
  by (auto simp: sight_def)

lemma seen_insert_Nil: "seen m (insert [] P) = seen m P"
  by (auto simp: seen_def)

lemma clear_append: "clear m (xs @ ys) \<longleftrightarrow> clear m xs \<and> clear m ys"
  by (auto simp: clear_def)

lemma clear_Nil [simp]: "clear m []"
  by (simp add: clear_def)

lemma sight_append:
  "sight piece m prev (set (prefixes k) \<union> (@) k ` P) =
     sight piece m prev (set (prefixes k)) \<union>
     (if clear m k then sight piece m (last (prev # k)) P else {})"
proof (intro equalityI subsetI)
  fix z assume "z \<in> sight piece m prev (set (prefixes k) \<union> (@) k ` P)"
  then obtain p where p: "p \<in> set (prefixes k) \<union> (@) k ` P" "p \<noteq> []" "clear m (butlast p)"
    "enterable piece m (last p)" "z = (last p, last (prev # butlast p))"
    unfolding sight_def by blast
  show "z \<in> sight piece m prev (set (prefixes k)) \<union>
     (if clear m k then sight piece m (last (prev # k)) P else {})"
  proof (cases "p \<in> set (prefixes k)")
    case True
    then have "z \<in> sight piece m prev (set (prefixes k))" unfolding sight_def using p by blast
    then show ?thesis ..
  next
    case False
    then obtain q where q: "q \<in> P" "p = k @ q" "q \<noteq> []" using p(1) by fastforce
    then have "clear m k" "clear m (butlast q)" using p(3) by (auto simp: butlast_append clear_append)
    moreover have "z = (last q, last (last (prev # k) # butlast q))"
      using p(5) q by (simp add: butlast_append)
    ultimately have "z \<in> sight piece m (last (prev # k)) P" unfolding sight_def using p(4) q by auto
    then show ?thesis using \<open>clear m k\<close> by simp
  qed
next
  fix z assume *: "z \<in> sight piece m prev (set (prefixes k)) \<union>
     (if clear m k then sight piece m (last (prev # k)) P else {})"
  show "z \<in> sight piece m prev (set (prefixes k) \<union> (@) k ` P)"
  proof (cases "z \<in> sight piece m prev (set (prefixes k))")
    case True
    then show ?thesis by (auto simp: sight_Un)
  next
    case False
    then obtain q where "clear m k" "q \<in> P" "q \<noteq> []" "clear m (butlast q)" "enterable piece m (last q)"
      "z = (last q, last (last (prev # k) # butlast q))"
      using * by (auto simp: sight_def split: if_splits)
    then show ?thesis unfolding sight_def mem_Collect_eq
      by (intro exI[of _ "k @ q"]) (auto simp: butlast_append clear_append)
  qed
qed

lemma seen_append:
  "seen m (set (prefixes k) \<union> (@) k ` P) =
     seen m (set (prefixes k)) \<union> (if clear m k then seen m P else {})"
proof (intro equalityI subsetI)
  fix z assume "z \<in> seen m (set (prefixes k) \<union> (@) k ` P)"
  then obtain p where p: "p \<in> set (prefixes k) \<union> (@) k ` P" "p \<noteq> []" "clear m (butlast p)"
    "map_of m (last p) = Some z"
    unfolding seen_def by blast
  show "z \<in> seen m (set (prefixes k)) \<union> (if clear m k then seen m P else {})"
  proof (cases "p \<in> set (prefixes k)")
    case True
    then have "z \<in> seen m (set (prefixes k))" unfolding seen_def using p by blast
    then show ?thesis ..
  next
    case False
    then obtain q where q: "q \<in> P" "p = k @ q" "q \<noteq> []" using p(1) by fastforce
    then have "clear m k" "clear m (butlast q)" using p(3) by (auto simp: butlast_append clear_append)
    then show ?thesis using p(4) q by (auto simp: seen_def)
  qed
next
  fix z assume *: "z \<in> seen m (set (prefixes k)) \<union> (if clear m k then seen m P else {})"
  show "z \<in> seen m (set (prefixes k) \<union> (@) k ` P)"
  proof (cases "z \<in> seen m (set (prefixes k))")
    case True
    then show ?thesis by (auto simp: seen_Un)
  next
    case False
    then obtain q where "clear m k" "q \<in> P" "q \<noteq> []" "clear m (butlast q)" "map_of m (last q) = Some z"
      using * by (auto simp: seen_def split: if_splits)
    then show ?thesis unfolding seen_def mem_Collect_eq
      by (intro bexI[of _ "k @ q"]) (auto simp: butlast_append clear_append)
  qed
qed

lemma prefixes_Cons: "set (prefixes (x # xs)) = {[], [x]} \<union> (@) [x] ` set (prefixes xs)"
  by (auto simp: image_iff)

lemma sight_single: "sight piece m prev {[], [x]} = (if enterable piece m x then {(x, prev)} else {})"
proof -
  have "sight piece m prev {[], [x]} = {z. \<exists>p. p = [x] \<and> z = (x, prev) \<and> enterable piece m x}"
    unfolding sight_def by (rule Collect_cong) (metis butlast.simps(2) clear_Nil insert_iff last.simps
        list.distinct(1) singletonD)
  then show ?thesis by auto
qed

lemma seen_single: "seen m {[], [x]} = (case map_of m x of None \<Rightarrow> {} | Some q \<Rightarrow> {q})"
  by (auto simp: seen_def split: option.splits)

lemma prefixes_single: "set (prefixes [x]) = {[], [x]}"
  by simp

lemma sight_Cons:
  "sight piece m prev (set (prefixes (x # xs))) =
     (if enterable piece m x then {(x, prev)} else {}) \<union>
     (if map_of m x = None then sight piece m x (set (prefixes xs)) else {})"
  unfolding prefixes_Cons
    sight_append[of piece m prev "[x]" "set (prefixes xs)", unfolded prefixes_single sight_single]
  by (simp add: clear_def)

lemma seen_Cons:
  "seen m (set (prefixes (x # xs))) =
     (case map_of m x of None \<Rightarrow> seen m (set (prefixes xs)) | Some q \<Rightarrow> {q})"
  unfolding prefixes_Cons
    seen_append[of m "[x]" "set (prefixes xs)", unfolded prefixes_single seen_single]
  by (simp add: clear_def split: option.splits)

lemma dfs_path_spec:
  assumes "dfs_path piece m path prev s = (e, t)"
  shows "adds s t (sight piece m prev (set (prefixes path))) (seen m (set (prefixes path)))"
    and "e = (if clear m path then Some (last (prev # path)) else None)"
proof -
  have "adds s t (sight piece m prev (set (prefixes path))) (seen m (set (prefixes path))) \<and>
    e = (if clear m path then Some (last (prev # path)) else None)"
    using assms
  proof (induction path arbitrary: prev s)
    case Nil
    then show ?case by (simp add: adds_refl sight_def seen_def)
  next
    case (Cons x path)
    show ?case
    proof (cases "map_of m x")
      case None
      then have "dfs_path piece m path x (add_position x prev s) = (e, t)" using Cons.prems by simp
      note IH = Cons.IH[OF this]
      have "enterable piece m x" by (simp add: enterable_def None)
      then have "adds s t (sight piece m prev (set (prefixes (x # path)))) (seen m (set (prefixes (x # path))))"
        using adds_trans[OF adds_position conjunct1[OF IH]] None
        unfolding sight_Cons seen_Cons by simp
      then show ?thesis using IH None by (auto simp: clear_def)
    next
      case (Some q)
      then have "e = None" "t = (let s1 = add_piece q s in if can_take piece q then add_position x prev s1 else s1)"
        using Cons.prems by auto
      then show ?thesis
        using adds_found[of s q "can_take piece q" x prev] Some
        unfolding sight_Cons seen_Cons by (simp add: clear_def enterable_def)
    qed
  qed
  then show "adds s t (sight piece m prev (set (prefixes path))) (seen m (set (prefixes path)))"
    "e = (if clear m path then Some (last (prev # path)) else None)" by auto
qed

lemma dfs_spec:
  "adds s (dfs piece m t prev s) (sight piece m prev (trie_paths t)) (seen m (trie_paths t))"
  "adds s (dfs_items piece m items prev s)
     (sight piece m prev (\<Union>c \<in> set items. item_paths c)) (seen m (\<Union>c \<in> set items. item_paths c))"
proof (induction piece m t prev s and piece m items prev s rule: dfs_dfs_items.induct)
  case (1 piece m items prev s)
  then show ?case by (simp add: trie_paths_items sight_insert_Nil seen_insert_Nil del: trie_paths.simps)
next
  case (2 piece m prev s)
  then show ?case by (simp add: adds_refl sight_def seen_def)
next
  case (3 piece m path subtree items prev s)
  obtain e s1 where e: "dfs_path piece m path prev s = (e, s1)" by fastforce
  note spec = dfs_path_spec[OF e]
  let ?s2 = "case (e, s1) of (Some cur_prev, s1) \<Rightarrow> dfs piece m subtree cur_prev s1 | (None, s1) \<Rightarrow> s1"
  have "adds s ?s2 (sight piece m prev (item_paths (path, subtree))) (seen m (item_paths (path, subtree)))"
  proof (cases "clear m path")
    case True
    then have ep: "e = Some (last (prev # path))" using spec(2) by simp
    have "adds s1 (dfs piece m subtree (last (prev # path)) s1)
       (sight piece m (last (prev # path)) (trie_paths subtree)) (seen m (trie_paths subtree))"
      using 3(1)[OF e[symmetric] ep] .
    from adds_trans[OF spec(1) this] show ?thesis
      using True by (simp add: ep item_paths_def sight_append seen_append)
  next
    case False
    then show ?thesis using spec by (simp add: item_paths_def sight_append seen_append)
  qed
  from adds_trans[OF this] 3(2) show ?case
    by (simp add: e sight_Un seen_Un)
qed

subsection \<open>Single steps\<close>

definition step_ok :: "piece option \<Rightarrow> p2p \<Rightarrow> bool \<Rightarrow> pos \<Rightarrow> bool" where
  "step_ok piece m is_camp x \<longleftrightarrow>
     (case map_of m x of None \<Rightarrow> True | Some q \<Rightarrow> \<not> is_camp \<and> can_take piece q)"

lemma fold_adds:
  assumes "\<And>x s. x \<in> set xs \<Longrightarrow> adds s (f x s) (A x) (Q x)"
  shows "adds s (fold f xs s) (\<Union>x \<in> set xs. A x) (\<Union>x \<in> set xs. Q x)"
  using assms
proof (induction xs arbitrary: s)
  case Nil
  then show ?case by (simp add: adds_refl)
next
  case (Cons x xs)
  have "adds s (f x s) (A x) (Q x)" using Cons.prems by simp
  moreover have "adds (f x s) (fold f xs (f x s)) (\<Union>x \<in> set xs. A x) (\<Union>x \<in> set xs. Q x)"
    using Cons by simp
  ultimately show ?case using adds_trans by fastforce
qed

lemma step_visit_adds:
  "adds s (step_visit piece m start is_camp p s)
     (if step_ok piece m is_camp p then {(p, start)} else {})
     (case map_of m p of None \<Rightarrow> {} | Some q \<Rightarrow> {q})"
proof (cases "map_of m p")
  case None
  then show ?thesis by (simp add: step_visit_def step_ok_def adds_position)
next
  case (Some q)
  then show ?thesis using adds_found[of s q "\<not> is_camp \<and> can_take piece q" p start]
    by (simp add: step_visit_def step_ok_def)
qed

definition steps :: "piece option \<Rightarrow> p2p \<Rightarrow> bool \<Rightarrow> pos \<Rightarrow> pos list \<Rightarrow> (pos \<times> pos) set" where
  "steps piece m is_camp start ns = {(x, start) | x. x \<in> set ns \<and> step_ok piece m is_camp x}"

definition met :: "p2p \<Rightarrow> pos set \<Rightarrow> piece set" where
  "met m X = {q. \<exists>x \<in> X. map_of m x = Some q}"

lemma met_Un: "met m (X \<union> Y) = met m X \<union> met m Y"
  by (auto simp: met_def)

lemma traverse_spec:
  "adds trav0 (traverse start m graph is_camp)
     (steps (map_of m start) m is_camp start (nbrs graph start)) (met m (set (nbrs graph start)))"
proof -
  have "adds trav0 (traverse start m graph is_camp)
     (\<Union>x \<in> set (nbrs graph start). if step_ok (map_of m start) m is_camp x then {(x, start)} else {})
     (\<Union>x \<in> set (nbrs graph start). case map_of m x of None \<Rightarrow> {} | Some q \<Rightarrow> {q})"
    unfolding traverse_def by (rule fold_adds) (rule step_visit_adds)
  then show ?thesis
    by (rule adds_cong) (auto simp: steps_def met_def split: option.splits if_splits)
qed

lemma traverse_dfs_spec:
  "adds trav0 (traverse_dfs start m POS2STRAIGHT)
     (sight (map_of m start) m start (trie_paths (straight_at start)))
     (seen m (trie_paths (straight_at start)))"
  unfolding traverse_dfs_def trie_at_POS2STRAIGHT by (rule dfs_spec)

subsection \<open>Reachability on the railway\<close>

inductive_set free_reach :: "p2p \<Rightarrow> adj \<Rightarrow> pos \<Rightarrow> pos set" for m graph start where
  start: "start \<in> free_reach m graph start"
| step: "y \<in> free_reach m graph start \<Longrightarrow> x \<in> set (nbrs graph y) \<Longrightarrow> map_of m x = None \<Longrightarrow>
    x \<in> free_reach m graph start"

lemma free_reach_cases: "y \<in> free_reach m graph start \<Longrightarrow> y = start \<or> map_of m y = None"
  by (induction rule: free_reach.induct) auto

definition ranked :: "pos \<Rightarrow> (pos \<Rightarrow> pos option) \<Rightarrow> bool" where
  "ranked start par \<longleftrightarrow>
     (\<exists>rank :: pos \<Rightarrow> nat. rank start = 0 \<and>
        (\<forall>x y. par x = Some y \<longrightarrow> x \<noteq> start \<and> (y = start \<or> par y \<noteq> None) \<and> rank y < rank x))"

lemma ranked_add:
  assumes "ranked start par" "par x = None" "x \<noteq> start" "y = start \<or> par y \<noteq> None"
  shows "ranked start (par(x \<mapsto> y))"
proof -
  obtain rank :: "pos \<Rightarrow> nat" where r: "rank start = 0"
    "\<forall>x y. par x = Some y \<longrightarrow> x \<noteq> start \<and> (y = start \<or> par y \<noteq> None) \<and> rank y < rank x"
    using assms(1) by (auto simp: ranked_def)
  have "y \<noteq> x" using assms by auto
  have "z \<noteq> x" if "par w = Some z" for w z
  proof
    assume "z = x"
    with r(2) that have "x = start \<or> par x \<noteq> None" by blast
    then show False using assms(2,3) by simp
  qed
  then show ?thesis unfolding ranked_def using r assms \<open>y \<noteq> x\<close>
    by (intro exI[of _ "rank(x := Suc (rank y))"]) auto
qed

definition bfs_inv ::
  "piece \<Rightarrow> p2p \<Rightarrow> adj \<Rightarrow> pos \<Rightarrow> (pos \<Rightarrow> pos set) \<Rightarrow> pos list \<times> pos list \<times> trav \<Rightarrow> bool" where
  "bfs_inv piece m g start R = (\<lambda>(queue, visited, s).
     start \<in> set visited \<and> set queue \<subseteq> set visited \<inter> free_reach m g start \<and>
     set visited \<subseteq> insert start {x. \<exists>y \<in> free_reach m g start. x \<in> set (nbrs g y)} \<and>
     set (t_positions s) = {x \<in> set visited. x \<noteq> start \<and> enterable (Some piece) m x} \<and>
     set (t_pieces s) = {q. \<exists>x \<in> set visited. x \<noteq> start \<and> map_of m x = Some q} \<and>
     (\<forall>y \<in> set visited. y = start \<or> map_of m y = None \<longrightarrow>
        y \<in> set queue \<or> set (nbrs g y) \<subseteq> set visited \<union> R y) \<and>
     dom (map_of (t_parent s)) = set (t_positions s) \<and> distinct (map fst (t_parent s)) \<and>
     ranked start (map_of (t_parent s)) \<and>
     (\<forall>x y. map_of (t_parent s) x = Some y \<longrightarrow> y \<in> free_reach m g start \<and> x \<in> set (nbrs g y)))"

lemma enterable_Some:
  "map_of m x = Some q \<Longrightarrow> enterable (Some p) m x \<longleftrightarrow> enemy p q"
  "map_of m x = None \<Longrightarrow> enterable pc m x"
  by (simp_all add: enterable_def can_take_def)

lemma enemy_irrefl [simp]: "\<not> enemy p p"
  by (simp add: enemy_def)

definition rest_of :: "pos \<Rightarrow> pos list \<Rightarrow> pos \<Rightarrow> pos set" where
  "rest_of nxt ps = (\<lambda>y. if y = nxt then set ps else {})"

lemma bfs_visit_facts:
  assumes "p \<notin> set visited" "bfs_visit piece m nxt p (queue, visited, s) = (queue', visited', s')"
  defines "E \<equiv> enterable (Some piece) m p"
  shows "set queue' = set queue \<union> (if map_of m p = None then {p} else {})"
    "set visited' = insert p (set visited)"
    "set (t_positions s') = set (t_positions s) \<union> (if E then {p} else {})"
    "set (t_pieces s') = set (t_pieces s) \<union> (case map_of m p of None \<Rightarrow> {} | Some q \<Rightarrow> {q})"
    "map_of (t_parent s') = (if E then (map_of (t_parent s))(p \<mapsto> nxt) else map_of (t_parent s))"
    "distinct (map fst (t_parent s)) \<Longrightarrow> distinct (map fst (t_parent s'))"
  using assms(2) unfolding bfs_visit_def E_def
  by (auto simp: assms(1) enterable_def can_take_def add_position_def add_piece_def Let_def
      split: option.splits if_splits)

lemma bfs_visit_inv:
  assumes inv: "bfs_inv piece m g start (rest_of nxt (p # ps)) st"
    and nxt: "nxt \<in> free_reach m g start" "nxt \<in> set (fst (snd st))" "p \<in> set (nbrs g nxt)"
  shows "bfs_inv piece m g start (rest_of nxt ps) (bfs_visit piece m nxt p st)"
proof -
  obtain queue visited s where st: "st = (queue, visited, s)" by (cases st)
  obtain queue' visited' s' where v: "bfs_visit piece m nxt p st = (queue', visited', s')"
    by (cases "bfs_visit piece m nxt p st")
  note I = inv[unfolded st bfs_inv_def prod.case]
  have I1: "start \<in> set visited" and I2: "set queue \<subseteq> set visited \<inter> free_reach m g start"
    and I3: "set visited \<subseteq> insert start {x. \<exists>y \<in> free_reach m g start. x \<in> set (nbrs g y)}"
    and I4: "set (t_positions s) = {x \<in> set visited. x \<noteq> start \<and> enterable (Some piece) m x}"
    and I5: "set (t_pieces s) = {q. \<exists>x \<in> set visited. x \<noteq> start \<and> map_of m x = Some q}"
    and I7: "dom (map_of (t_parent s)) = set (t_positions s)"
    and I8: "distinct (map fst (t_parent s))"
    and I9: "ranked start (map_of (t_parent s))"
    and I10: "\<And>x y. map_of (t_parent s) x = Some y \<Longrightarrow> y \<in> free_reach m g start \<and> x \<in> set (nbrs g y)"
    using I by simp_all
  have I6: "\<And>y. y \<in> set visited \<Longrightarrow> y = start \<or> map_of m y = None \<Longrightarrow>
        y \<in> set queue \<or> set (nbrs g y) \<subseteq> set visited \<union> rest_of nxt (p # ps) y"
    using I by blast
  have R: "rest_of nxt (p # ps) y \<subseteq> insert p (rest_of nxt ps y)" for y by (auto simp: rest_of_def)
  show ?thesis
  proof (cases "p \<in> set visited")
    case True
    have "y \<in> set queue \<or> set (nbrs g y) \<subseteq> set visited \<union> rest_of nxt ps y"
      if "y \<in> set visited" "y = start \<or> map_of m y = None" for y
      using I6[OF that] R[of y] True by blast
    then show ?thesis using True I1 I2 I3 I4 I5 I7 I8 I9 I10
      by (simp add: st bfs_visit_def bfs_inv_def)
  next
    case False
    note F = bfs_visit_facts[OF False v[unfolded st]]
    have ps: "p \<noteq> start" "map_of (t_parent s) p = None" using I1 I4 I7 False by auto
    have "nxt = start \<or> map_of (t_parent s) nxt \<noteq> None"
    proof (cases "nxt = start")
      case False
      then have "map_of m nxt = None" using free_reach_cases[OF nxt(1)] by simp
      then have "nxt \<in> set (t_positions s)" using I4 nxt(2) False st by (simp add: enterable_Some)
      then show ?thesis using I7 by blast
    qed simp
    then have G9: "ranked start (map_of (t_parent s'))"
      using ranked_add[OF I9 ps(2,1)] I9 F(5) by simp
    have G2: "set queue' \<subseteq> set visited' \<inter> free_reach m g start"
      using I2 F(1,2) free_reach.step[OF nxt(1,3)] by auto
    have G3: "set visited' \<subseteq> insert start {x. \<exists>y \<in> free_reach m g start. x \<in> set (nbrs g y)}"
      using I3 F(2) nxt by auto
    have G4: "set (t_positions s') = {x \<in> set visited'. x \<noteq> start \<and> enterable (Some piece) m x}"
      using I4 F(2,3) ps by auto
    have G5: "set (t_pieces s') = {q. \<exists>x \<in> set visited'. x \<noteq> start \<and> map_of m x = Some q}"
      using I5 F(2,4) ps by (auto split: option.splits)
    have G6: "y \<in> set queue' \<or> set (nbrs g y) \<subseteq> set visited' \<union> rest_of nxt ps y"
      if y: "y \<in> set visited'" "y = start \<or> map_of m y = None" for y
    proof (cases "y = p")
      case True
      then show ?thesis using F(1) y(2) ps by simp
    next
      case False
      then have "y \<in> set visited" using y F(2) by simp
      from I6[OF this y(2)] show ?thesis using F(1,2) R[of y] by auto
    qed
    have G7: "dom (map_of (t_parent s')) = set (t_positions s')" using I7 F(3,5) by auto
    have G10: "y \<in> free_reach m g start \<and> x \<in> set (nbrs g y)" if "map_of (t_parent s') x = Some y" for x y
      using that I10 F(5) nxt by (auto split: if_splits)
    show ?thesis unfolding v bfs_inv_def prod.case
      using I1 F(2) F(6)[OF I8] G2 G3 G4 G5 G6 G7 G9 G10 by simp
  qed
qed

lemma bfs_visit_visited: "set (fst (snd st)) \<subseteq> set (fst (snd (bfs_visit piece m nxt p st)))"
  by (auto simp: bfs_visit_def split: prod.splits option.splits)

lemma fold_bfs_visit_inv:
  assumes "bfs_inv piece m g start (rest_of nxt ps) st"
    and "nxt \<in> free_reach m g start" "nxt \<in> set (fst (snd st))" "set ps \<subseteq> set (nbrs g nxt)"
  shows "bfs_inv piece m g start (\<lambda>_. {}) (fold (bfs_visit piece m nxt) ps st)"
  using assms
proof (induction ps arbitrary: st)
  case Nil
  then show ?case by (simp add: rest_of_def cong: if_cong)
next
  case (Cons p ps)
  have "bfs_inv piece m g start (rest_of nxt ps) (bfs_visit piece m nxt p st)"
    using bfs_visit_inv[OF Cons.prems(1-3)] Cons.prems(4) by simp
  then show ?case using Cons.IH[of "bfs_visit piece m nxt p st"] Cons.prems bfs_visit_visited[of st piece m nxt p]
    by auto
qed

lemma bfs_loop_inv:
  assumes "bfs_inv piece m g start (\<lambda>_. {}) st"
  shows "\<exists>visited. bfs_inv piece m g start (\<lambda>_. {}) ([], visited, bfs_loop piece m g st)"
  using assms
proof (induction piece m g st rule: bfs_loop.induct)
  case (1 piece m g queue visited s)
  show ?case
  proof (cases queue)
    case Nil
    then show ?thesis using 1(2) by auto
  next
    case (Cons nxt queue')
    let ?st = "(queue', visited, s)"
    have nxt: "nxt \<in> free_reach m g start" "nxt \<in> set visited"
      using 1(2) Cons by (auto simp: bfs_inv_def)
    have "bfs_inv piece m g start (rest_of nxt (nbrs g nxt)) ?st"
      using 1(2) Cons unfolding bfs_inv_def prod.case by (simp add: rest_of_def) blast
    then have "bfs_inv piece m g start (\<lambda>_. {}) (fold (bfs_visit piece m nxt) (nbrs g nxt) ?st)"
      using nxt by (intro fold_bfs_visit_inv) auto
    from 1(1)[OF Cons this] show ?thesis using Cons by simp
  qed
qed

lemma bfs_inv_start: "bfs_inv piece m g start (\<lambda>_. {}) ([start], [start], trav0)"
  by (auto simp: bfs_inv_def trav0_def ranked_def intro: free_reach.start)

text \<open>
  The engineer reaches exactly the squares with a neighbour that is connected to the start through
  empty squares, and meets exactly the pieces on such squares.
\<close>

definition bfs_area :: "p2p \<Rightarrow> adj \<Rightarrow> pos \<Rightarrow> pos set" where
  "bfs_area m g start = {x. x \<noteq> start \<and> (\<exists>y \<in> free_reach m g start. x \<in> set (nbrs g y))}"

lemma traverse_bfs_spec:
  assumes "map_of m start = Some piece"
  obtains t where "traverse_bfs start m g = Inr t"
    "set (t_positions t) = {x \<in> bfs_area m g start. enterable (Some piece) m x}"
    "set (t_pieces t) = met m (bfs_area m g start)"
    "dom (map_of (t_parent t)) = set (t_positions t)" "distinct (map fst (t_parent t))"
    "ranked start (map_of (t_parent t))"
    "\<And>x y. map_of (t_parent t) x = Some y \<Longrightarrow> y \<in> free_reach m g start \<and> x \<in> set (nbrs g y)"
proof -
  let ?t = "bfs_loop piece m g ([start], [start], trav0)"
  obtain visited where I: "bfs_inv piece m g start (\<lambda>_. {}) ([], visited, ?t)"
    using bfs_loop_inv[OF bfs_inv_start] by blast
  note I' = I[unfolded bfs_inv_def prod.case]
  have fr: "y \<in> set visited" if "y \<in> free_reach m g start" for y
    using that
  proof induction
    case start
    show ?case using I' by blast
  next
    case (step y x)
    then show ?case using I' free_reach_cases[OF step(1)] by auto
  qed
  have "x \<in> set visited \<longleftrightarrow> x \<in> bfs_area m g start" if "x \<noteq> start" for x
  proof
    assume "x \<in> set visited"
    then show "x \<in> bfs_area m g start" using I' that by (auto simp: bfs_area_def)
  next
    assume "x \<in> bfs_area m g start"
    then obtain y where y: "y \<in> free_reach m g start" "x \<in> set (nbrs g y)" by (auto simp: bfs_area_def)
    then show "x \<in> set visited" using I' fr[OF y(1)] free_reach_cases[OF y(1)] by auto
  qed
  then have area: "{x \<in> set visited. x \<noteq> start} = bfs_area m g start" by (auto simp: bfs_area_def)
  show thesis
  proof (rule that[of ?t])
    show "traverse_bfs start m g = Inr ?t" by (simp add: traverse_bfs_def assms)
    show "set (t_positions ?t) = {x \<in> bfs_area m g start. enterable (Some piece) m x}"
      using I' area by auto
    show "set (t_pieces ?t) = met m (bfs_area m g start)" using I' area by (auto simp: met_def)
  qed (use I' in auto)
qed

section \<open>The generators are total\<close>

lemma merge_parent_spec:
  assumes "distinct (map fst d)" "fst ` set d \<inter> dom (map_of par) = {}"
  shows "\<exists>par'. merge_parent d par = Inr par' \<and>
    map_of par' = (\<lambda>x. case map_of d x of None \<Rightarrow> map_of par x | Some v \<Rightarrow> Some (Some v))"
  using assms
proof (induction d arbitrary: par)
  case Nil
  then show ?case by (simp add: merge_parent_def)
next
  case (Cons kv d)
  obtain k v where kv: "kv = (k, v)" by (cases kv)
  have n: "map_of par k = None" using Cons.prems(2) kv by (auto simp: domIff)
  have k: "k \<notin> fst ` set d" using Cons.prems(1) kv by simp
  have "fst ` set d \<inter> dom (map_of (dset k (Some v) par)) = {}" using Cons.prems k kv by auto
  from Cons.IH[OF _ this] Cons.prems(1) kv obtain par' where
    p: "merge_parent d (dset k (Some v) par) = Inr par'"
    "map_of par' = (\<lambda>x. case map_of d x of None \<Rightarrow> map_of (dset k (Some v) par) x | Some v \<Rightarrow> Some (Some v))"
    by auto
  have "map_of d k = None" using k by (simp add: map_of_eq_None_iff)
  then have "map_of par' = (\<lambda>x. case map_of (kv # d) x of None \<Rightarrow> map_of par x | Some v \<Rightarrow> Some (Some v))"
    unfolding p(2) by (rule_tac ext) (simp add: kv split: option.splits)
  then show ?case using p(1) n by (simp add: merge_parent_def kv)
qed

text \<open>
  The square before \<open>x\<close> in the merged search tree; the start has none.
\<close>

definition before :: "parents \<Rightarrow> pos \<Rightarrow> pos option" where
  "before par x = Option.bind (map_of par x) (\<lambda>y. y)"

definition good_parents :: "pos \<Rightarrow> pos list \<Rightarrow> parents \<Rightarrow> bool" where
  "good_parents start ps par \<longleftrightarrow>
     map_of par start = Some None \<and> start \<notin> set ps \<and>
     (\<forall>x. before par x \<noteq> None \<longleftrightarrow> x \<in> set ps) \<and> ranked start (before par)"

lemma ranked_union:
  assumes r: "ranked start p1" and v: "\<And>x y. p2 x = Some y \<Longrightarrow> y = start \<and> x \<noteq> start"
  shows "ranked start (p1 ++ p2)"
proof -
  obtain rank :: "pos \<Rightarrow> nat" where k: "rank start = 0"
    "\<And>x y. p1 x = Some y \<Longrightarrow> x \<noteq> start \<and> (y = start \<or> p1 y \<noteq> None) \<and> rank y < rank x"
    using r unfolding ranked_def by blast
  let ?r = "\<lambda>x. if x = start then 0 else if p1 x = None then 1 else rank x"
  have "x \<noteq> start \<and> (y = start \<or> (p1 ++ p2) y \<noteq> None) \<and> ?r y < ?r x" if xy: "(p1 ++ p2) x = Some y" for x y
  proof (cases "p2 x")
    case None
    then have p: "p1 x = Some y" using xy by (simp add: map_add_Some_iff)
    moreover have "0 < rank x" using k(2)[OF p] by simp
    moreover have "x \<noteq> start" "rank y < rank x" "y = start \<or> p1 y \<noteq> None" using k(2)[OF p] by auto
    ultimately show ?thesis by (auto simp: map_add_Some_iff)
  next
    case (Some z)
    then have "y = start" "x \<noteq> start" using v xy by (auto simp: map_add_Some_iff)
    moreover have "0 < rank x" if "p1 x \<noteq> None" using k(2) that by fastforce
    ultimately show ?thesis by simp
  qed
  note * = this
  show ?thesis unfolding ranked_def
    by (rule exI[of _ ?r], rule conjI, simp, intro allI impI, rule *)
qed

lemma dom_overlay: "dom (\<lambda>x. case p x of None \<Rightarrow> f x | Some v \<Rightarrow> Some (g v)) = dom f \<union> dom p"
  by (auto simp: domIff split: option.splits)

lemma merge_moves_spec:
  fixes t1 t2 t3 t4 :: trav
  defines "p1 \<equiv> map_of (t_parent t1)" and "p2 \<equiv> map_of (t_parent t2)"
    and "p3 \<equiv> map_of (t_parent t3)" and "p4 \<equiv> map_of (t_parent t4)"
  assumes d: "distinct (map fst (t_parent t1))" "distinct (map fst (t_parent t2))"
      "distinct (map fst (t_parent t3))" "distinct (map fst (t_parent t4))"
    and disj: "dom p1 \<inter> dom p2 = {}" "(dom p1 \<union> dom p2) \<inter> dom p3 = {}"
      "(dom p1 \<union> dom p2 \<union> dom p3) \<inter> dom p4 = {}"
    and start: "start \<notin> dom p1" "start \<notin> dom p2" "start \<notin> dom p3" "start \<notin> dom p4"
    and vals: "\<And>x y. p2 x = Some y \<Longrightarrow> y = start" "\<And>x y. p3 x = Some y \<Longrightarrow> y = start"
      "\<And>x y. p4 x = Some y \<Longrightarrow> y = start"
    and r: "ranked start p1"
    and pos: "set (t_positions t1) = dom p1" "set (t_positions t2) = dom p2"
      "set (t_positions t3) = dom p3" "set (t_positions t4) = dom p4"
  shows "\<exists>ps qs par. merge_moves start t1 t2 t3 t4 t5 = Inr (ps, qs, par) \<and>
    set ps = dom p1 \<union> dom p2 \<union> dom p3 \<union> dom p4 \<and> distinct ps = distinct (t_positions t1) \<and>
    set qs = set (t_pieces t1) \<union> set (t_pieces t2) \<union> set (t_pieces t3) \<union> set (t_pieces t5) \<and>
    good_parents start ps par \<and>
    before par = p1 ++ (p2 ++ p3 ++ p4)"
proof -
  have ds: "fst ` set (t_parent t) = dom (map_of (t_parent t))" for t :: trav
    by (simp add: dom_map_of_conv_image_fst)
  let ?m0 = "[(start, None)] :: parents"
  have d0: "dom (map_of ?m0) = {start}" by simp
  have "fst ` set (t_parent t1) \<inter> dom (map_of ?m0) = {}"
    unfolding ds d0 p1_def[symmetric] using disj start by auto
  from merge_parent_spec[OF d(1) this] obtain a where a: "merge_parent (t_parent t1) ?m0 = Inr a"
    "map_of a = (\<lambda>x. case p1 x of None \<Rightarrow> map_of ?m0 x | Some v \<Rightarrow> Some (Some v))"
    unfolding p1_def by blast
  have da: "dom (map_of a) = insert start (dom p1)" unfolding a(2) dom_overlay by auto
  have "fst ` set (t_parent t2) \<inter> dom (map_of a) = {}"
    unfolding ds da p2_def[symmetric] using disj start by auto
  from merge_parent_spec[OF d(2) this] obtain b where b: "merge_parent (t_parent t2) a = Inr b"
    "map_of b = (\<lambda>x. case p2 x of None \<Rightarrow> map_of a x | Some v \<Rightarrow> Some (Some v))"
    unfolding p2_def by blast
  have db: "dom (map_of b) = insert start (dom p1 \<union> dom p2)" unfolding b(2) dom_overlay da by auto
  have "fst ` set (t_parent t3) \<inter> dom (map_of b) = {}"
    unfolding ds db p3_def[symmetric] using disj start by auto
  from merge_parent_spec[OF d(3) this] obtain c where c: "merge_parent (t_parent t3) b = Inr c"
    "map_of c = (\<lambda>x. case p3 x of None \<Rightarrow> map_of b x | Some v \<Rightarrow> Some (Some v))"
    unfolding p3_def by blast
  have dc: "dom (map_of c) = insert start (dom p1 \<union> dom p2 \<union> dom p3)" unfolding c(2) dom_overlay db by auto
  have "fst ` set (t_parent t4) \<inter> dom (map_of c) = {}"
    unfolding ds dc p4_def[symmetric] using disj start by auto
  from merge_parent_spec[OF d(4) this] obtain e where e: "merge_parent (t_parent t4) c = Inr e"
    "map_of e = (\<lambda>x. case p4 x of None \<Rightarrow> map_of c x | Some v \<Rightarrow> Some (Some v))"
    unfolding p4_def by blast
  have m: "foldE merge_parent [t_parent t1, t_parent t2, t_parent t3, t_parent t4] ?m0 = Inr e"
    using a b c e by simp
  let ?ps = "set_update (set_update (set_update (t_positions t1) (t_positions t2)) (t_positions t3)) (t_positions t4)"
  have bef: "before e = p1 ++ (p2 ++ p3 ++ p4)"
    unfolding before_def e(2) c(2) b(2) a(2) map_add_def
    by (rule ext) (auto split: option.splits)
  have "ranked start (before e)"
    unfolding bef using start vals by (intro ranked_union[OF r]) (auto simp: map_add_Some_iff)
  moreover have "map_of e start = Some None"
    unfolding e(2) c(2) b(2) a(2) using start by (auto simp: domIff split: option.splits)
  ultimately have "good_parents start ?ps e"
    unfolding good_parents_def using bef pos start by (auto simp: domIff map_add_def split: option.splits)
  then show ?thesis using m bef pos by (simp add: merge_moves_def Let_def)
qed

lemma adds_trav0:
  assumes "adds trav0 t A Q"
  shows "set (t_positions t) = fst ` A" "set (t_pieces t) = Q" "dom (map_of (t_parent t)) = fst ` A"
    "distinct (map fst (t_parent t))" "map_of (t_parent t) x = Some y \<Longrightarrow> (x, y) \<in> A"
  using assms by (auto simp: adds_def trav0_def)

text \<open>The squares a piece may enter by one kind of move, and the lines along which it slides.\<close>

abbreviation lines :: "pos \<Rightarrow> pos list set" where
  "lines a \<equiv> trie_paths (straight_at a)"

definition slide :: "p2p \<Rightarrow> pos \<Rightarrow> (pos \<times> pos) set" where
  "slide m a = sight (map_of m a) m a (lines a)"

definition hops :: "p2p \<Rightarrow> pos \<Rightarrow> (pos \<times> pos) set" where
  "hops m a =
     steps (map_of m a) m False a (edges_at plain_edges a) \<union>
     steps (map_of m a) m True a (edges_at camp_edges a) \<union>
     steps (map_of m a) m False a (edges_at flag_edges a)"

definition neighbours :: "pos \<Rightarrow> pos set" where
  "neighbours a = {b. (a, b) \<in> set plain_edges \<or> (a, b) \<in> set camp_edges \<or> (b, a) \<in> set flag_edges}"

definition lookout :: "p2p \<Rightarrow> pos \<Rightarrow> piece set" where
  "lookout m a = seen m (lines a) \<union> met m (neighbours a)"

lemma slide_facts:
  assumes "(x, y) \<in> slide m a"
  shows "x \<in> set RAIL" "x \<noteq> a" "a \<in> set RAIL"
    and "\<exists>p. on_line (a # p) \<and> p \<noteq> [] \<and> last p = x \<and> y = last (a # butlast p) \<and> clear m (butlast p) \<and>
      enterable (map_of m a) m x"
proof -
  obtain p where p: "p \<in> lines a" "p \<noteq> []" "clear m (butlast p)" "enterable (map_of m a) m (last p)"
    "x = last p" "y = last (a # butlast p)"
    using assms by (auto simp: slide_def sight_def)
  have "on_line (a # p)" using p ray_path_iff by simp
  then show "\<exists>p. on_line (a # p) \<and> p \<noteq> [] \<and> last p = x \<and> y = last (a # butlast p) \<and> clear m (butlast p) \<and>
      enterable (map_of m a) m x" using p by auto
  have "last p \<in> set p" using p by simp
  then show "x \<in> set RAIL" "x \<noteq> a" "a \<in> set RAIL"
    using on_line_facts[OF \<open>on_line (a # p)\<close>] p by auto
qed

lemma on_line_prefix: "on_line (a # p) \<Longrightarrow> on_line (a # butlast p)"
proof (cases "p = []")
  case False
  assume "on_line (a # p)"
  moreover have "sublist (a # butlast p) (a # p)"
    using False by (metis append_butlast_last_id append_Cons sublist_append_rightI)
  moreover from this have "sublist (rev (a # butlast p)) (rev (a # p))"
    by (simp only: sublist_rev)
  ultimately show ?thesis unfolding on_line_def by (meson sublist_order.order_trans)
qed simp

lemma slide_ranked:
  assumes "\<And>x y. par x = Some y \<Longrightarrow> (x, y) \<in> slide m a" "dom par = fst ` slide m a"
  shows "ranked a par"
proof -
  define rank where "rank x = (if x = a then 0 else length (SOME p. on_line (a # p) \<and> p \<noteq> [] \<and> last p = x))" for x
  have rank: "rank x = length p" if "on_line (a # p)" "p \<noteq> []" "last p = x" for x p
  proof -
    have "x \<in> set p" using that(2,3) last_in_set by blast
    then have "x \<noteq> a" using on_line_facts(1)[OF that(1)] that by auto
    moreover have "(SOME p. on_line (a # p) \<and> p \<noteq> [] \<and> last p = x) = p"
      using that path_unique[of a] by (intro some_equality) auto
    ultimately show ?thesis by (simp add: rank_def)
  qed
  have "x \<noteq> a \<and> (y = a \<or> par y \<noteq> None) \<and> rank y < rank x" if xy: "par x = Some y" for x y
  proof -
    from slide_facts(4)[OF assms(1)[OF xy]] obtain p where p: "on_line (a # p)" "p \<noteq> []" "last p = x"
      "y = last (a # butlast p)" "clear m (butlast p)" by blast
    have x: "x \<noteq> a" using slide_facts(2)[OF assms(1)[OF xy]] .
    show ?thesis
    proof (cases "butlast p = []")
      case True
      then show ?thesis using p x rank[OF p(1-3)] by (simp add: rank_def)
    next
      case False
      let ?q = "butlast p"
      have y: "y = last ?q" using p(4) False by simp
      have q: "on_line (a # ?q)" using on_line_prefix[OF p(1)] .
      have "map_of m y = None" using p(5) False y by (simp add: clear_def)
      moreover have "clear m (butlast ?q)" using p(5) by (auto simp: clear_def dest: in_set_butlastD)
      ultimately have "(y, last (a # butlast ?q)) \<in> slide m a"
        using q False y unfolding slide_def sight_def ray_path_iff[OF False, symmetric]
        by (auto simp: enterable_Some intro!: exI[of _ ?q])
      then have "y \<in> dom par" unfolding assms(2) by force
      moreover have "rank y < rank x" using rank[OF p(1-3)] rank[OF q False y[symmetric]] p(2) by simp
      ultimately show ?thesis using x by auto
    qed
  qed
  note * = this
  show ?thesis unfolding ranked_def
    by (rule exI[of _ rank], rule conjI, simp add: rank_def, intro allI impI, rule *)
qed

text \<open>
  The duplicate-key assertion never fails: the four kinds of move reach disjoint squares.
\<close>

lemma merge_with_hops:
  fixes t1 :: trav
  defines "p1 \<equiv> map_of (t_parent t1)"
  assumes t1: "set (t_positions t1) = dom p1" "distinct (map fst (t_parent t1))" "ranked a p1"
    and k1: "\<And>x. x \<in> dom p1 \<Longrightarrow> x \<noteq> a \<and> a \<in> set RAIL \<and> x \<in> set RAIL"
  obtains ps qs par where
    "merge_moves a t1 (traverse a m POS2PLAIN False) (traverse a m POS2CAMP True)
       (traverse a m POS2FLAG False) (traverse a m FLAG2POS False) = Inr (ps, qs, par)"
    "set ps = dom p1 \<union> fst ` hops m a" "set qs = set (t_pieces t1) \<union> met m (neighbours a)"
    "good_parents a ps par"
    "\<And>x y. before par x = Some y \<Longrightarrow> p1 x = Some y \<or> (x, y) \<in> hops m a"
proof -
  let ?t2 = "traverse a m POS2PLAIN False" and ?t3 = "traverse a m POS2CAMP True"
    and ?t4 = "traverse a m POS2FLAG False" and ?t5 = "traverse a m FLAG2POS False"
  let ?A2 = "steps (map_of m a) m False a (edges_at plain_edges a)"
    and ?A3 = "steps (map_of m a) m True a (edges_at camp_edges a)"
    and ?A4 = "steps (map_of m a) m False a (edges_at flag_edges a)"
  note T2 = adds_trav0[OF traverse_spec[of a m POS2PLAIN False, unfolded nbrs_tables]]
  note T3 = adds_trav0[OF traverse_spec[of a m POS2CAMP True, unfolded nbrs_tables]]
  note T4 = adds_trav0[OF traverse_spec[of a m POS2FLAG False, unfolded nbrs_tables]]
  note T5 = adds_trav0[OF traverse_spec[of a m FLAG2POS False, unfolded nbrs_tables]]
  have k2: "x \<noteq> a \<and> x \<notin> set CAMPS \<and> x \<notin> set HQS \<and> (a \<in> set RAIL \<longrightarrow> x \<notin> set RAIL)" if "x \<in> fst ` ?A2" for x
    using that plain_edge[of a x] by (auto simp: steps_def set_edges_at)
  have k3: "x \<noteq> a \<and> x \<in> set CAMPS \<and> x \<notin> set HQS \<and> x \<notin> set RAIL" if "x \<in> fst ` ?A3" for x
    using that camp_edge[of a x] by (auto simp: steps_def set_edges_at)
  have k4: "x \<noteq> a \<and> x \<notin> set CAMPS \<and> x \<in> set HQS \<and> x \<notin> set RAIL" if "x \<in> fst ` ?A4" for x
    using that flag_edge[of a x] by (auto simp: steps_def set_edges_at)
  have d12: "dom p1 \<inter> fst ` ?A2 = {}" using k1 k2 by blast
  have d3: "(dom p1 \<union> fst ` ?A2) \<inter> fst ` ?A3 = {}" using k1 k2 k3 by blast
  have d4: "(dom p1 \<union> fst ` ?A2 \<union> fst ` ?A3) \<inter> fst ` ?A4 = {}" using k1 k2 k3 k4 by blast
  have "\<exists>ps qs par. merge_moves a t1 ?t2 ?t3 ?t4 ?t5 = Inr (ps, qs, par) \<and>
    set ps = dom (map_of (t_parent t1)) \<union> dom (map_of (t_parent ?t2)) \<union> dom (map_of (t_parent ?t3)) \<union> dom (map_of (t_parent ?t4)) \<and>
    distinct ps = distinct (t_positions t1) \<and>
    set qs = set (t_pieces t1) \<union> set (t_pieces ?t2) \<union> set (t_pieces ?t3) \<union> set (t_pieces ?t5) \<and>
    good_parents a ps par \<and>
    before par = map_of (t_parent t1) ++ (map_of (t_parent ?t2) ++ map_of (t_parent ?t3) ++ map_of (t_parent ?t4))"
  proof (rule merge_moves_spec)
    show "dom (map_of (t_parent t1)) \<inter> dom (map_of (t_parent ?t2)) = {}"
      unfolding T2(3) p1_def[symmetric] by (rule d12)
    show "(dom (map_of (t_parent t1)) \<union> dom (map_of (t_parent ?t2))) \<inter> dom (map_of (t_parent ?t3)) = {}"
      unfolding T2(3) T3(3) p1_def[symmetric] by (rule d3)
    show "(dom (map_of (t_parent t1)) \<union> dom (map_of (t_parent ?t2)) \<union> dom (map_of (t_parent ?t3)))
        \<inter> dom (map_of (t_parent ?t4)) = {}"
      unfolding T2(3) T3(3) T4(3) p1_def[symmetric] by (rule d4)
    show "a \<notin> dom (map_of (t_parent t1))" unfolding p1_def[symmetric] using k1 by blast
    show "a \<notin> dom (map_of (t_parent ?t2))" unfolding T2(3) using k2 by blast
    show "a \<notin> dom (map_of (t_parent ?t3))" unfolding T3(3) using k3 by blast
    show "a \<notin> dom (map_of (t_parent ?t4))" unfolding T4(3) using k4 by blast
    show "y = a" if "map_of (t_parent ?t2) x = Some y" for x y using T2(5)[OF that] by (auto simp: steps_def)
    show "y = a" if "map_of (t_parent ?t3) x = Some y" for x y using T3(5)[OF that] by (auto simp: steps_def)
    show "y = a" if "map_of (t_parent ?t4) x = Some y" for x y using T4(5)[OF that] by (auto simp: steps_def)
  qed (simp_all only: t1[unfolded p1_def] T2 T3 T4)
  then obtain ps qs par where M: "merge_moves a t1 ?t2 ?t3 ?t4 ?t5 = Inr (ps, qs, par)"
    "set ps = dom (map_of (t_parent t1)) \<union> dom (map_of (t_parent ?t2)) \<union> dom (map_of (t_parent ?t3)) \<union> dom (map_of (t_parent ?t4))"
    "set qs = set (t_pieces t1) \<union> set (t_pieces ?t2) \<union> set (t_pieces ?t3) \<union> set (t_pieces ?t5)"
    "good_parents a ps par"
    "before par = map_of (t_parent t1) ++ (map_of (t_parent ?t2) ++ map_of (t_parent ?t3) ++ map_of (t_parent ?t4))"
    by blast
  show thesis
  proof (rule that[OF M(1)])
    show "set ps = dom p1 \<union> fst ` hops m a"
      unfolding M(2) T2(3) T3(3) T4(3) hops_def p1_def by (simp only: image_Un Un_assoc)
    show "set qs = set (t_pieces t1) \<union> met m (neighbours a)"
      unfolding M(3) T2(2) T3(2) T5(2) neighbours_def set_edges_at
      by (auto simp: met_def src_edges_flip)
    show "p1 x = Some y \<or> (x, y) \<in> hops m a" if "before par x = Some y" for x y
      using that T2(5)[of x y] T3(5)[of x y] T4(5)[of x y]
      unfolding M(5) hops_def p1_def by (auto simp: map_add_Some_iff)
  qed (rule M(4))
qed

text \<open>
  The squares of \<open>get_moves\<close> are those of a slide or a hop, its pieces those in the line of sight
  or next to the start.
\<close>

lemma get_moves_spec:
  obtains ps qs par where "get_moves a m = Inr (ps, qs, par)"
    "set ps = fst ` (slide m a \<union> hops m a)" "set qs = lookout m a" "good_parents a ps par"
    "\<And>x y. before par x = Some y \<Longrightarrow> (x, y) \<in> slide m a \<union> hops m a"
proof -
  let ?t1 = "traverse_dfs a m POS2STRAIGHT"
  note T1 = adds_trav0[OF traverse_dfs_spec[of a m, folded slide_def]]
  have k1: "x \<noteq> a \<and> a \<in> set RAIL \<and> x \<in> set RAIL" if "x \<in> dom (map_of (t_parent ?t1))" for x
    using that slide_facts unfolding T1(3) by fastforce
  have p1: "set (t_positions ?t1) = dom (map_of (t_parent ?t1))" using T1(1,3) by simp
  obtain ps qs par where M: "get_moves a m = Inr (ps, qs, par)"
    "set ps = fst ` slide m a \<union> fst ` hops m a" "set qs = lookout m a" "good_parents a ps par"
    "\<And>x y. before par x = Some y \<Longrightarrow> map_of (t_parent ?t1) x = Some y \<or> (x, y) \<in> hops m a"
    using merge_with_hops[OF p1 T1(4) slide_ranked[OF T1(5) T1(3)] k1, of m]
    unfolding get_moves_def lookout_def T1(2,3) by metis
  show thesis using that[OF M(1)] M(2-5) T1(5) by (simp add: image_Un) blast
qed

text \<open>The engineer's slide is the whole connected part of the railway.\<close>

definition ride :: "p2p \<Rightarrow> pos \<Rightarrow> (pos \<times> pos) set" where
  "ride m a = {(x, y). x \<noteq> a \<and> y \<in> free_reach m POS2ANY a \<and> (y, x) \<in> set any_edges \<and> enterable (map_of m a) m x}"

definition engineer_lookout :: "p2p \<Rightarrow> pos \<Rightarrow> piece set" where
  "engineer_lookout m a = met m (bfs_area m POS2ANY a) \<union> met m (neighbours a)"

lemma any_edge: "(x, y) \<in> set any_edges \<Longrightarrow> x \<in> set RAIL \<and> y \<in> set RAIL"
proof -
  assume "(x, y) \<in> set any_edges"
  then obtain seq where seq: "seq \<in> set STRAIGHT_SEQS" "(x, y) \<in> set (seq_edges seq)"
    by (auto simp: any_edges_def)
  from seq(2) have "x \<in> set seq \<and> y \<in> set seq"
    by (auto simp: seq_edges_def set_enumerate_list split: if_splits)
  then show ?thesis using seq(1) by (auto simp: RAIL_def)
qed

lemma get_engineer_moves_spec:
  assumes "map_of m a = Some piece"
  obtains ps qs par where "get_engineer_moves a m = Inr (ps, qs, par)"
    "set ps = fst ` (ride m a \<union> hops m a)" "set qs = engineer_lookout m a" "good_parents a ps par"
    "\<And>x y. before par x = Some y \<Longrightarrow> (x, y) \<in> ride m a \<union> hops m a"
proof -
  obtain t where t: "traverse_bfs a m POS2ANY = Inr t"
    "set (t_positions t) = {x \<in> bfs_area m POS2ANY a. enterable (Some piece) m x}"
    "set (t_pieces t) = met m (bfs_area m POS2ANY a)"
    "dom (map_of (t_parent t)) = set (t_positions t)" "distinct (map fst (t_parent t))"
    "ranked a (map_of (t_parent t))"
    "\<And>x y. map_of (t_parent t) x = Some y \<Longrightarrow> y \<in> free_reach m POS2ANY a \<and> x \<in> set (nbrs POS2ANY y)"
    by (rule traverse_bfs_spec[OF assms, of POS2ANY]) blast
  have area: "x \<noteq> a \<and> x \<in> set RAIL \<and> a \<in> set RAIL" if x: "x \<in> bfs_area m POS2ANY a" for x
  proof -
    obtain y where y: "y \<in> free_reach m POS2ANY a" "(y, x) \<in> set any_edges" "x \<noteq> a"
      using x unfolding bfs_area_def nbrs_tables set_edges_at by blast
    from y(1) have "y = a \<or> a \<in> set RAIL"
      by induction (auto simp: nbrs_tables set_edges_at dest: any_edge)
    then show ?thesis using any_edge[OF y(2)] y(3) by auto
  qed
  have pos: "set (t_positions t) = fst ` ride m a"
    unfolding t(2) ride_def bfs_area_def assms by (force simp: nbrs_tables set_edges_at)
  have k1: "x \<noteq> a \<and> a \<in> set RAIL \<and> x \<in> set RAIL" if "x \<in> dom (map_of (t_parent t))" for x
    using that area unfolding t(4) t(2) by blast
  obtain ps qs par where M: "get_engineer_moves a m = Inr (ps, qs, par)"
    "set ps = fst ` ride m a \<union> fst ` hops m a" "set qs = engineer_lookout m a" "good_parents a ps par"
    "\<And>x y. before par x = Some y \<Longrightarrow> map_of (t_parent t) x = Some y \<or> (x, y) \<in> hops m a"
    using merge_with_hops[OF t(4)[symmetric] t(5,6) k1, of m]
    unfolding get_engineer_moves_def engineer_lookout_def t(1,3,4) bindE_simps pos by metis
  have "(x, y) \<in> ride m a" if "map_of (t_parent t) x = Some y" for x y
  proof -
    have "x \<in> set (t_positions t)" using that t(4) by auto
    then show ?thesis using t(7)[OF that] t(2) assms
      by (auto simp: ride_def nbrs_tables set_edges_at bfs_area_def)
  qed
  then show thesis using that[OF M(1)] M(2-5) by (simp add: image_Un) blast
qed

section \<open>A change elsewhere on the board\<close>

text \<open>
  The squares of a piece change only when it can be seen from one of the changed squares.  This is
  what lets the program recompute the mask of the pieces in sight of a move only.
\<close>

definition targets :: "p2p \<Rightarrow> pos \<Rightarrow> pos set" where
  "targets m a = fst ` (slide m a \<union> hops m a)"

lemma mem_slide:
  "x \<in> fst ` slide m a \<longleftrightarrow>
    (\<exists>p. on_line (a # p) \<and> p \<noteq> [] \<and> last p = x \<and> clear m (butlast p) \<and> enterable (map_of m a) m x)"
  unfolding slide_def sight_def using ray_path_iff by (auto simp: image_def)

lemma mem_hops:
  "x \<in> fst ` hops m a \<longleftrightarrow>
     (a, x) \<in> set plain_edges \<and> step_ok (map_of m a) m False x \<or>
     (a, x) \<in> set camp_edges \<and> step_ok (map_of m a) m True x \<or>
     (a, x) \<in> set flag_edges \<and> step_ok (map_of m a) m False x"
  by (force simp: hops_def steps_def set_edges_at)

lemma mem_targets:
  "x \<in> targets m a \<longleftrightarrow>
     (\<exists>p. on_line (a # p) \<and> p \<noteq> [] \<and> last p = x \<and> clear m (butlast p) \<and> enterable (map_of m a) m x) \<or>
     (a, x) \<in> set plain_edges \<and> step_ok (map_of m a) m False x \<or>
     (a, x) \<in> set camp_edges \<and> step_ok (map_of m a) m True x \<or>
     (a, x) \<in> set flag_edges \<and> step_ok (map_of m a) m False x"
  by (simp add: targets_def image_Un mem_slide mem_hops)

lemma targets_bounds: "x \<in> targets m a \<Longrightarrow> on_board x \<and> x \<noteq> a"
proof -
  assume "x \<in> targets m a"
  then consider (line) p where "on_line (a # p)" "p \<noteq> []" "last p = x"
    | (plain) "(a, x) \<in> set plain_edges" | (camp) "(a, x) \<in> set camp_edges" | (flag) "(a, x) \<in> set flag_edges"
    unfolding mem_targets by blast
  then show ?thesis
  proof cases
    case line
    then have "x \<in> set p" using last_in_set by blast
    then show ?thesis using on_line_facts[OF line(1)] rail_bounds by auto
  qed (use plain_edge camp_edge flag_edge in blast)+
qed

lemma hq_no_targets: "a \<in> set HQS \<Longrightarrow> targets m a = {}"
proof -
  assume a: "a \<in> set HQS"
  have "\<not> on_line (a # p)" for p using on_line_facts(2)[of a p] rail_not_special a by auto
  moreover have "(a, x) \<notin> set plain_edges" for x using plain_edge a by blast
  moreover have "(a, x) \<notin> set flag_edges" for x using flag_edge a by blast
  moreover have "(a, x) \<notin> set camp_edges" for x
  proof -
    have "list_all (\<lambda>(a, c). a \<notin> set HQS) camp_edges" by code_simp
    then show ?thesis using a by (auto simp: list_all_iff)
  qed
  ultimately show ?thesis using mem_targets by blast
qed

lemma seen_back:
  assumes "on_line (a # u @ [d])" "clear m u" "map_of m a = Some q"
  shows "q \<in> lookout m d"
proof -
  have "on_line (d # rev u @ [a])" using assms(1) on_line_rev[of "a # u @ [d]"] by simp
  then have "rev u @ [a] \<in> lines d" by (simp add: ray_path_iff)
  then have "q \<in> seen m (lines d)" using assms(2,3) unfolding seen_def
    by (intro CollectI bexI[of _ "rev u @ [a]"]) (auto simp: clear_def butlast_append)
  then show ?thesis by (simp add: lookout_def)
qed

lemma first_changed:
  assumes "x \<in> set p" "x \<in> D"
  obtains u d v where "p = u @ d # v" "d \<in> D" "set u \<inter> D = {}"
  using split_list_first_prop[of p "\<lambda>x. x \<in> D"] assms by blast

lemma on_line_append: "on_line (a # u @ v) \<Longrightarrow> on_line (a # u)"
proof -
  have "sublist (a # u) (a # u @ v)" by (metis append_Cons sublist_append_rightI)
  moreover from this have "sublist (rev (a # u)) (rev (a # u @ v))" by (simp only: sublist_rev)
  moreover assume "on_line (a # u @ v)"
  ultimately show ?thesis unfolding on_line_def by (meson sublist_order.order_trans)
qed

lemma clear_agree:
  assumes "\<And>x. x \<notin> D \<Longrightarrow> map_of m x = map_of m' x" "set u \<inter> D = {}"
  shows "clear m u \<longleftrightarrow> clear m' u"
proof -
  have "map_of m x = map_of m' x" if "x \<in> set u" for x using assms that by blast
  then show ?thesis by (simp add: clear_def)
qed

lemma targets_frame_sub:
  assumes agree: "\<And>x. x \<notin> D \<Longrightarrow> map_of m x = map_of m' x" and a: "a \<notin> D" "map_of k a = Some q"
    and k: "k = m \<or> k = m'"
    and unseen: "\<And>d. d \<in> D \<Longrightarrow> q \<notin> lookout k d"
    and x: "x \<in> targets m a"
  shows "x \<in> targets m' a"
proof -
  have ma: "map_of m a = map_of m' a" using agree a by simp
  have step: "x \<notin> D" if "(a, x) \<in> set plain_edges \<or> (a, x) \<in> set camp_edges \<or> (a, x) \<in> set flag_edges"
  proof
    assume "x \<in> D"
    moreover have "a \<in> neighbours x" using that plain_sym camp_sym by (auto simp: neighbours_def)
    then have "q \<in> lookout k x" using a(2) by (auto simp: lookout_def met_def)
    ultimately show False using unseen by blast
  qed
  consider (line) p where "on_line (a # p)" "p \<noteq> []" "last p = x" "clear m (butlast p)"
      "enterable (map_of m a) m x"
    | (hop) "x \<in> fst ` hops m a"
    using x unfolding targets_def image_Un Un_iff mem_slide by blast
  then show ?thesis
  proof cases
    case line
    have pD: "set p \<inter> D = {}"
    proof (rule ccontr)
      assume "set p \<inter> D \<noteq> {}"
      then obtain u d v where p: "p = u @ d # v" "d \<in> D" "set u \<inter> D = {}"
        using first_changed by (metis disjoint_iff)
      have "clear m u" using line(4) p(1) by (auto simp: clear_def butlast_append split: if_splits)
      then have "clear k u" using clear_agree[of D m m' u] agree p(3) k by blast
      moreover have "on_line (a # u @ [d])" using line(1) p(1) on_line_append[of a "u @ [d]" v] by simp
      ultimately show False using seen_back[OF _ _ a(2)] unseen p(2) by blast
    qed
    have "set (butlast p) \<inter> D = {}" using pD by (auto dest: in_set_butlastD)
    then have "clear m' (butlast p)" using clear_agree[of D m m' "butlast p"] agree line(4) by blast
    moreover have "x \<notin> D" using pD last_in_set[OF line(2)] line(3) by auto
    then have "map_of m x = map_of m' x" using agree by simp
    ultimately show ?thesis using line(1-3,5) ma unfolding mem_targets by (auto simp: enterable_def)
  next
    case hop
    then have "x \<notin> D" using step by (auto simp: hops_def steps_def set_edges_at)
    then have "map_of m x = map_of m' x" using agree by simp
    then have "x \<in> fst ` hops m' a" using hop ma by (force simp: hops_def steps_def step_ok_def)
    then show ?thesis by (auto simp: targets_def)
  qed
qed

lemma targets_frame:
  assumes "\<And>x. x \<notin> D \<Longrightarrow> map_of m x = map_of m' x" "a \<notin> D" "map_of m' a = Some q"
    "\<And>d. d \<in> D \<Longrightarrow> q \<notin> lookout m' d"
  shows "targets m a = targets m' a"
  using targets_frame_sub[of D m m' a m' q] targets_frame_sub[of D m' m a m' q] assms by auto

end
