(* ===== verification/Board.thy ===== *)
theory Board
  imports Board_Moves
begin

text \<open>
  The game state of \<open>patch/board/board.py\<close>: class \<open>Board\<close> as a record, its constructor and every
  method as a function from the state to an error or the new state.  Players are 0 to 3; a piece is
  the triple (player, role, index); squares are 0 to 128; an action is a row of 129 squares per
  movable piece, and 5934 is the action that skips a turn.
\<close>

section \<open>State\<close>

record board =
  b_layout :: "nat list list"
  pos2piece :: p2p
  piece2pos :: "(piece, pos) dict"
  action2piece :: "(int, piece) dict list"
  piece2action :: "(piece, int) dict list"
  action_mask :: "bmask list"
  influenced_pieces :: "piece list list"
  engineer_pieces :: "piece list list"
  dead_players :: "nat list"
  step_count :: "int list"
  pieces_count :: "int list"
  flag_pos :: "nat list"

definition reward_map :: "(nat, real) dict" where
  "reward_map =
     [(0, 1), (1, 15), (2, 9), (3, 5), (4, 3), (5, 2), (6, 3/2), (7, 6/5), (8, 1), (9, 2), (10, 3), (11, 0)]"

section \<open>Construction\<close>

definition POSITIONS :: "pos list" where
  "POSITIONS = [0, 1, 2, 3, 4, 5, 7, 9, 10, 11, 13, 14, 15, 17, 19, 20, 21, 22, 23, 24, 25, 26, 27, 28, 29]"

type_synonym init_state = "((nat \<times> nat), nat) dict \<times> int list \<times> board"

definition init_piece :: "nat \<Rightarrow> nat \<times> pos \<Rightarrow> init_state \<Rightarrow> init_state" where
  "init_piece player_id = (\<lambda>(role, p) (counter, action_ids, b).
     let base = 30 * int player_id;
         grp = player_id mod 2;
         idx = dget_default counter (player_id, role) 0;
         counter = dset (player_id, role) (idx + 1) counter;
         piece = (player_id, role, idx);
         board_pos = base + p;
         b = b\<lparr>piece2pos := dset piece board_pos (piece2pos b),
               pos2piece := dset board_pos piece (pos2piece b)\<rparr>
     in if p \<notin> {26, 28}
        then let action_id = action_ids ! grp in
             (counter, action_ids[grp := action_id + 1],
              b\<lparr>action2piece := (action2piece b)[grp := dset action_id piece (action2piece b ! grp)],
                piece2action := (piece2action b)[grp := dset piece action_id (piece2action b ! grp)]\<rparr>)
        else (counter, action_ids, b))"

definition init_layout :: "nat list list \<Rightarrow> board \<Rightarrow> board" where
  "init_layout layout b =
     snd (snd (fold (\<lambda>(player_id, roles). fold (init_piece player_id) (zip roles POSITIONS))
                 (enumerate_list layout) ([], [0, 0], b)))"

text \<open>\<open>mask[indices] = v\<close> for a list of indices.\<close>

definition mask_set :: "int list \<Rightarrow> bool \<Rightarrow> bmask \<Rightarrow> bmask" where
  "mask_set idxs v msk = (\<lambda>i. if i \<in> set idxs then v else msk i)"

definition init_mask_at ::
  "nat \<Rightarrow> nat \<Rightarrow> int list \<Rightarrow> bool \<Rightarrow> pos \<Rightarrow> board \<Rightarrow> board result" where
  "init_mask_at role group_id action_offsets v p b =
     bindE (dget (pos2piece b) p) (\<lambda>piece.
       if role_of piece = role
       then bindE (dget (piece2action b ! group_id) piece) (\<lambda>a.
              Inr (b\<lparr>action_mask := (action_mask b)[group_id :=
                      mask_set (map (\<lambda>off. a * 129 + off) action_offsets) v (action_mask b ! group_id)]\<rparr>))
       else Inr b)"

definition engineer_positions :: "(nat, pos list) dict" where
  "engineer_positions = [(0, [0, 2, 4, 60, 62, 64]), (1, [30, 32, 34, 90, 92, 94])]"

definition mine_positions :: "(nat, pos list) dict" where
  "mine_positions =
     [(0, [20, 21, 22, 23, 24, 80, 81, 82, 83, 84]), (1, [50, 51, 52, 53, 54, 110, 111, 112, 113, 114])]"

definition init_action_mask :: "board \<Rightarrow> board result" where
  "init_action_mask b =
     bindE (foldE (\<lambda>(group_id, positions). foldE (init_mask_at 9 group_id [120..128] True) positions)
              engineer_positions b)
       (foldE (\<lambda>(group_id, positions). foldE (init_mask_at 0 group_id [0..128] False) positions)
          mine_positions)"

definition init_engineer_pieces :: "board \<Rightarrow> board" where
  "init_engineer_pieces b =
     fold (\<lambda>p b. if role_of p = 9
                 then b\<lparr>engineer_pieces := (engineer_pieces b)[player_of p :=
                        set_add p (engineer_pieces b ! player_of p)]\<rparr> else b)
       (map fst (piece2pos b)) b"

definition flag_positions :: "(nat, pos list) dict" where
  "flag_positions = [(0, [26, 28]), (1, [56, 58]), (2, [86, 88]), (3, [116, 118])]"

definition init_count_at :: "nat \<Rightarrow> nat \<times> pos \<Rightarrow> board \<Rightarrow> board result" where
  "init_count_at player = (\<lambda>(i, p) b.
     bindE (dget (pos2piece b) p) (\<lambda>piece.
       let b = (if role_of piece = 0
                then b\<lparr>pieces_count := (pieces_count b)[player := pieces_count b ! player + 1]\<rparr> else b)
       in Inr (if role_of piece = 11 then b\<lparr>flag_pos := (flag_pos b)[player := i + player * 2]\<rparr> else b)))"

definition init_pieces_count :: "board \<Rightarrow> board result" where
  "init_pieces_count =
     foldE (\<lambda>(player, positions). foldE (init_count_at player) (enumerate_list positions)) flag_positions"

text \<open>\<open>Board(layout)\<close>.\<close>

definition new_board :: "nat list list \<Rightarrow> board result" where
  "new_board layout =
     (let b = init_layout layout
                \<lparr>b_layout = layout, pos2piece = [], piece2pos = [], action2piece = [[], []],
                 piece2action = [[], []], action_mask = [], influenced_pieces = [],
                 engineer_pieces = [], dead_players = [], step_count = [], pieces_count = [],
                 flag_pos = []\<rparr>
      in bindE (init_action_mask (b\<lparr>action_mask := [ACTION_MASK, ACTION_MASK]\<rparr>)) (\<lambda>b.
         init_pieces_count
           ((init_engineer_pieces (b\<lparr>influenced_pieces := replicate 4 [], engineer_pieces := replicate 4 []\<rparr>))
            \<lparr>dead_players := [], step_count := [0, 0, 0, 0], pieces_count := [20, 20, 20, 20],
             flag_pos := [0, 0, 0, 0]\<rparr>)))"

definition get_layout :: "nat \<Rightarrow> board \<Rightarrow> nat list" where
  "get_layout grp b =
     (if grp = 0 then b_layout b ! 0 @ b_layout b ! 2 else b_layout b ! 1 @ b_layout b ! 3)"

section \<open>The action mask\<close>

definition influence :: "piece \<Rightarrow> board \<Rightarrow> board" where
  "influence piece b =
     (if role_of piece = 0 then b
      else b\<lparr>influenced_pieces := (influenced_pieces b)[player_of piece :=
               set_add piece (influenced_pieces b ! player_of piece)]\<rparr>)"

definition update_influenced_pieces :: "piece list \<Rightarrow> pos list \<Rightarrow> board \<Rightarrow> board result" where
  "update_influenced_pieces pieces positions b =
     foldE (\<lambda>p b. bindE (get_moves p (pos2piece b)) (\<lambda>(_, pieces, _). Inr (fold influence pieces b)))
       positions (fold influence pieces b)"

definition moves_of :: "piece \<Rightarrow> board \<Rightarrow> pos \<Rightarrow> moves result" where
  "moves_of piece b p =
     (if role_of piece = 9 then get_engineer_moves p (pos2piece b) else get_moves p (pos2piece b))"

definition clear_row :: "int \<Rightarrow> bmask \<Rightarrow> bmask" where
  "clear_row base msk = (\<lambda>i. if base \<le> i \<and> i < base + 129 then False else msk i)"

definition update_mask_piece :: "piece \<Rightarrow> board \<Rightarrow> board result" where
  "update_mask_piece piece b =
     (if role_of piece = 0 then Inr b
      else let grp = player_of piece mod 2 in
        (case map_of (piece2action b ! grp) piece of
           None \<Rightarrow> Inr b
         | Some action_id \<Rightarrow>
             let base = action_id * 129;
                 msk = clear_row base (action_mask b ! grp);
                 b1 = b\<lparr>action_mask := (action_mask b)[grp := msk]\<rparr>
             in (case map_of (piece2pos b) piece of
                   None \<Rightarrow> Inr b1
                 | Some p \<Rightarrow>
                     bindE (moves_of piece b p) (\<lambda>(positions, _, _).
                       let positions = (if grp \<noteq> 0 then transform_pos positions else positions)
                       in Inr (b1\<lparr>action_mask := (action_mask b1)[grp :=
                                 mask_set (map (\<lambda>x. base + x) positions) True msk]\<rparr>)))))"

definition update_mask_by_pieces :: "piece list \<Rightarrow> board \<Rightarrow> board result" where
  "update_mask_by_pieces = foldE update_mask_piece"

definition update_mask :: "piece list \<Rightarrow> board \<Rightarrow> board result" where
  "update_mask del_pieces b =
     (let pieces = set_update (fold (\<lambda>s acc. set_update acc s) (influenced_pieces b) (map fst (piece2pos b)))
                     del_pieces
      in bindE (update_mask_by_pieces pieces b)
           (\<lambda>b. Inr (b\<lparr>influenced_pieces := map (\<lambda>_. []) (influenced_pieces b)\<rparr>)))"

section \<open>Moves\<close>

definition HQ_SQUARES :: "pos list" where
  "HQ_SQUARES = [26, 28, 56, 58, 86, 88, 116, 118]"

definition remove_piece :: "piece \<Rightarrow> real \<times> board \<Rightarrow> (real \<times> board) result" where
  "remove_piece rm_piece = (\<lambda>(reward, b).
     bindE (dget (piece2pos b) rm_piece) (\<lambda>rm_pos.
     bindE (ddel (piece2pos b) rm_piece) (\<lambda>q.
     bindE (ddel (pos2piece b) rm_pos) (\<lambda>p.
       let b = b\<lparr>piece2pos := q, pos2piece := p\<rparr>
       in if rm_pos \<notin> set HQ_SQUARES
          then bindE (dget reward_map (role_of rm_piece)) (\<lambda>r. Inr (reward + r, b))
          else Inr (reward, b)))))"

definition update_dead_players :: "nat \<Rightarrow> board \<Rightarrow> (real \<times> board) result" where
  "update_dead_players player b =
     (let rm_pieces = filter (\<lambda>p. player_of p = player) (map fst (piece2pos b)) in
      bindE (foldE remove_piece rm_pieces (0, b)) (\<lambda>(reward, b).
        Inr (reward, b\<lparr>dead_players := set_add player (dead_players b),
               influenced_pieces := (influenced_pieces b)[player :=
                 set_update (influenced_pieces b ! player) rm_pieces]\<rparr>)))"

definition decode :: "nat \<Rightarrow> int \<Rightarrow> board \<Rightarrow> (piece \<times> pos) result" where
  "decode player action b =
     (let grp = player mod 2; action_id = action div 129; p = action mod 129 in
      bindE (dget (action2piece b ! grp) action_id) (\<lambda>piece.
        Inr (piece, if grp = 1 then transform_pos_reverse_scalar p else p)))"

text \<open>
  The loop of \<open>get_path\<close> follows \<open>parent\<close> until there is none; \<open>None\<close> is a loop that never ends.
\<close>

partial_function (option) follow :: "parents \<Rightarrow> pos option \<Rightarrow> pos list option" where
  "follow parent cur =
     (case cur of None \<Rightarrow> Some []
      | Some c \<Rightarrow> Option.bind (follow parent (before parent c)) (\<lambda>path. Some (c # path)))"

definition get_path :: "piece \<Rightarrow> pos \<Rightarrow> board \<Rightarrow> pos list result" where
  "get_path piece pos1 b =
     bindE (dget (piece2pos b) piece) (\<lambda>p.
     bindE (moves_of piece b p) (\<lambda>(_, _, parent).
       (case follow parent (Some pos1) of None \<Rightarrow> Inl Diverges | Some path \<Rightarrow> Inr (rev path))))"

text \<open>What \<open>update\<close> returns: the kind of event, the path, flags shown, players that died, the reward.\<close>

type_synonym outcome = "nat \<times> pos list \<times> nat list \<times> nat list \<times> real"

definition move_piece :: "piece \<Rightarrow> pos \<Rightarrow> pos \<Rightarrow> board \<Rightarrow> board result" where
  "move_piece piece p pos1 b =
     bindE (ddel (pos2piece b) p) (\<lambda>m.
       Inr (b\<lparr>piece2pos := dset piece pos1 (piece2pos b), pos2piece := dset pos1 piece m\<rparr>))"

definition take_piece :: "piece \<Rightarrow> pos \<Rightarrow> piece \<Rightarrow> pos \<Rightarrow> board \<Rightarrow> board result" where
  "take_piece piece p piece1 pos1 b =
     bindE (ddel (dset piece pos1 (piece2pos b)) piece1) (\<lambda>q.
     bindE (ddel (pos2piece b) p) (\<lambda>m.
       Inr (b\<lparr>piece2pos := q, pos2piece := dset pos1 piece m\<rparr>)))"

definition drop_both :: "piece \<Rightarrow> pos \<Rightarrow> piece \<Rightarrow> pos \<Rightarrow> board \<Rightarrow> board result" where
  "drop_both piece p piece1 pos1 b =
     bindE (ddel (piece2pos b) piece) (\<lambda>q.
     bindE (ddel q piece1) (\<lambda>q.
     bindE (ddel (pos2piece b) p) (\<lambda>m.
     bindE (ddel m pos1) (\<lambda>m.
       Inr (b\<lparr>piece2pos := q, pos2piece := m\<rparr>)))))"

definition drop_piece :: "piece \<Rightarrow> pos \<Rightarrow> board \<Rightarrow> board result" where
  "drop_piece piece p b =
     bindE (ddel (piece2pos b) piece) (\<lambda>q.
     bindE (ddel (pos2piece b) p) (\<lambda>m.
       Inr (b\<lparr>piece2pos := q, pos2piece := m\<rparr>)))"

text \<open>
  \<open>pieces_count[player] -= 1\<close>, and the death of the player when none is left; the value of his
  pieces is added to the reward with the given sign.
\<close>

definition lose_piece ::
  "real \<Rightarrow> nat \<Rightarrow> real \<times> nat list \<times> board \<Rightarrow> (real \<times> nat list \<times> board) result" where
  "lose_piece sign player = (\<lambda>(reward, dead, b).
     let b = b\<lparr>pieces_count := (pieces_count b)[player := pieces_count b ! player - 1]\<rparr> in
     if pieces_count b ! player = 0
     then bindE (update_dead_players player b) (\<lambda>(r, b). Inr (reward + sign * r, dead @ [player], b))
     else Inr (reward, dead, b))"

definition update_skip :: "nat \<Rightarrow> board \<Rightarrow> (outcome \<times> board) result" where
  "update_skip player b =
     (let b = b\<lparr>step_count := (step_count b)[player := step_count b ! player + 1]\<rparr> in
      if step_count b ! player = 5
      then bindE (update_dead_players player b) (\<lambda>(r, b).
           bindE (update_mask [] b) (\<lambda>b. Inr ((4, [], [], [player], - r), b)))
      else Inr ((4, [], [], [], - 2), b))"

definition update_empty ::
  "nat \<Rightarrow> piece \<Rightarrow> pos \<Rightarrow> pos \<Rightarrow> pos list \<Rightarrow> board \<Rightarrow> (outcome \<times> board) result" where
  "update_empty player piece p pos1 path b =
     bindE (move_piece piece p pos1 b) (\<lambda>b.
       if pos1 \<in> set HQ_SQUARES
       then bindE (dget reward_map (role_of piece)) (\<lambda>r.
            bindE (lose_piece (- 1) player (- r, [], b)) (\<lambda>(reward, dead, b).
              if dead \<noteq> []
              then bindE (update_mask [] b) (\<lambda>b. Inr ((0, path, [], [player], reward), b))
              else bindE (update_influenced_pieces [piece] [p, pos1] b) (\<lambda>b.
                     Inr ((0, path, [], [], reward), b))))
       else bindE (update_influenced_pieces [piece] [p, pos1] b) (\<lambda>b.
              Inr ((0, path, [], [], 0), b)))"

definition update_flag ::
  "nat \<Rightarrow> piece \<Rightarrow> pos \<Rightarrow> piece \<Rightarrow> pos \<Rightarrow> pos list \<Rightarrow> board \<Rightarrow> (outcome \<times> board) result" where
  "update_flag player piece p piece1 pos1 path b =
     bindE (if role_of piece = 10 then drop_both piece p piece1 pos1 b
            else take_piece piece p piece1 pos1 b) (\<lambda>b.
     bindE (dget reward_map (role_of piece)) (\<lambda>r.
     bindE (lose_piece (- 1) player (- r, [], b)) (\<lambda>(reward, dead, b).
     bindE (update_dead_players (player_of piece1) b) (\<lambda>(r1, b).
     bindE (update_mask [piece, piece1] b) (\<lambda>b.
       Inr ((if role_of piece = 10 then 3 else 1, path, [], dead @ [player_of piece1], reward + r1), b))))))"

definition update_trade ::
  "nat \<Rightarrow> piece \<Rightarrow> pos \<Rightarrow> piece \<Rightarrow> pos \<Rightarrow> pos list \<Rightarrow> board \<Rightarrow> (outcome \<times> board) result" where
  "update_trade player piece p piece1 pos1 path b =
     (let to_flag = pos1 \<in> set HQ_SQUARES; player1 = player_of piece1 in
      bindE (drop_both piece p piece1 pos1 b) (\<lambda>b.
      bindE (dget reward_map (role_of piece)) (\<lambda>r.
      bindE (if to_flag then Inr 0 else dget reward_map (role_of piece1)) (\<lambda>r1.
      bindE (lose_piece (- 1) player (- r + r1, [], b)) (\<lambda>st.
      bindE (if role_of piece1 \<noteq> 0 \<and> \<not> to_flag then lose_piece 1 player1 st else Inr st)
        (\<lambda>(reward, dead, b).
      bindE (if dead \<noteq> [] then update_mask [piece, piece1] b
             else update_influenced_pieces [piece, piece1] [p, pos1] b) (\<lambda>b.
        let flags = (if role_of piece = 1 \<and> player \<notin> set dead then [flag_pos b ! player] else []) @
                    (if role_of piece1 = 1 \<and> player1 \<notin> set dead then [flag_pos b ! player1] else [])
        in Inr ((3, path, flags, dead, reward), b))))))))"

definition update_win ::
  "nat \<Rightarrow> piece \<Rightarrow> pos \<Rightarrow> piece \<Rightarrow> pos \<Rightarrow> pos list \<Rightarrow> board \<Rightarrow> (outcome \<times> board) result" where
  "update_win player piece p piece1 pos1 path b =
     (let to_flag = pos1 \<in> set HQ_SQUARES; player1 = player_of piece1 in
      bindE (take_piece piece p piece1 pos1 b) (\<lambda>b.
      bindE (if to_flag then Inr 0 else dget reward_map (role_of piece1)) (\<lambda>r1.
      bindE (if to_flag
             then bindE (dget reward_map (role_of piece)) (\<lambda>r. lose_piece (- 1) player (r1 - r, [], b))
             else Inr (r1, [], b)) (\<lambda>st.
      bindE (if role_of piece1 \<noteq> 0 \<and> \<not> to_flag then lose_piece 1 player1 st else Inr st)
        (\<lambda>(reward, dead, b).
      bindE (if dead \<noteq> [] then update_mask [piece1] b
             else update_influenced_pieces [piece, piece1] [p, pos1] b) (\<lambda>b.
        Inr ((1, path, [], dead, reward), b)))))))"

definition update_loss ::
  "nat \<Rightarrow> piece \<Rightarrow> pos \<Rightarrow> pos list \<Rightarrow> board \<Rightarrow> (outcome \<times> board) result" where
  "update_loss player piece p path b =
     bindE (drop_piece piece p b) (\<lambda>b.
     bindE (dget reward_map (role_of piece)) (\<lambda>r.
     bindE (lose_piece (- 1) player (- r, [], b)) (\<lambda>(reward, dead, b).
     bindE (if dead \<noteq> [] then update_mask [piece] b
            else update_influenced_pieces [piece] [p] b) (\<lambda>b.
       let flags = (if role_of piece = 1 \<and> player \<notin> set dead then [flag_pos b ! player] else [])
       in Inr ((2, path, flags, dead, reward), b)))))"

definition battle ::
  "nat \<Rightarrow> piece \<Rightarrow> pos \<Rightarrow> piece \<Rightarrow> pos \<Rightarrow> pos list \<Rightarrow> board \<Rightarrow> (outcome \<times> board) result" where
  "battle player piece p piece1 pos1 path b =
     (let role = role_of piece; role1 = role_of piece1 in
      if role1 = 11 then update_flag player piece p piece1 pos1 path b
      else if role = 10 \<or> role1 = 10 \<or> role = role1 then update_trade player piece p piece1 pos1 path b
      else if (role = 9 \<and> role1 = 0) \<or> (role < role1 \<and> \<not> (role = 0 \<and> role1 = 9))
        then update_win player piece p piece1 pos1 path b
      else update_loss player piece p path b)"

definition decode_path :: "nat \<Rightarrow> int \<Rightarrow> board \<Rightarrow> (piece \<times> pos \<times> pos list) result" where
  "decode_path player action b =
     bindE (decode player action b) (\<lambda>(piece, pos1).
     bindE (get_path piece pos1 b) (\<lambda>path. Inr (piece, pos1, path)))"

definition update_move :: "nat \<Rightarrow> int \<Rightarrow> board \<Rightarrow> (outcome \<times> board) result" where
  "update_move player action b =
     bindE (decode_path player action b) (\<lambda>(piece, pos1, path).
     bindE (if length path = 1 then decode_path player action b else Inr (piece, pos1, path))
       (\<lambda>(piece, pos1, path).
     bindE (dget (piece2pos b) piece) (\<lambda>p.
     bindE (assertE (p \<noteq> pos1)) (\<lambda>_.
       (case map_of (pos2piece b) pos1 of
          None \<Rightarrow> update_empty player piece p pos1 path b
        | Some piece1 \<Rightarrow> battle player piece p piece1 pos1 path b)))))"

definition update :: "nat \<Rightarrow> int \<Rightarrow> board \<Rightarrow> (outcome \<times> board) result" where
  "update player action b =
     (if action = 5934 then update_skip player b else update_move player action b)"

text \<open>The mask of a player; \<open>None\<close> for a dead one.  It has one entry more than the array.\<close>

definition get_action_mask :: "nat \<Rightarrow> board \<Rightarrow> (bmask option \<times> board) result" where
  "get_action_mask player b =
     (if player \<in> set (dead_players b) then Inr (None, b)
      else
        bindE (update_mask_by_pieces
                 (set_update (influenced_pieces b ! player) (engineer_pieces b ! player)) b) (\<lambda>b.
          let b = b\<lparr>influenced_pieces := (influenced_pieces b)[player := []]\<rparr>;
              msk = action_mask b ! (player mod 2);
              half = 5934 div 2
          in Inr (Some (\<lambda>i. if i = 5934 then True
                            else if player < 2 then 0 \<le> i \<and> i < half \<and> msk i
                            else half \<le> i \<and> i < 5934 \<and> msk i), b)))"

end
