(* ===== verification/Board_Mask.thy ===== *)
theory Board_Mask
  imports Board
begin

text \<open>
  The action mask of \<open>Board\<close>.  A row of 129 entries belongs to a movable piece; the program
  refreshes the rows of the pieces whose view may have changed and of the engineers only.  The
  invariant below says which rows are exact at any moment, and the lemmas show that each method
  keeps it, so that the mask handed to a player is exactly the set of his legal moves.
\<close>

declare split_paired_All [simp del] split_paired_Ex [simp del]

section \<open>Invariants\<close>

text \<open>The two dictionaries of the board are inverse to each other and hold pieces on squares.\<close>

definition placed :: "board \<Rightarrow> bool" where
  "placed b \<longleftrightarrow>
     (\<forall>p x. map_of (piece2pos b) p = Some x \<longleftrightarrow> map_of (pos2piece b) x = Some p) \<and>
     distinct (map fst (piece2pos b)) \<and>
     (\<forall>p x. map_of (piece2pos b) p = Some x \<longrightarrow> player_of p < 4 \<and> role_of p \<le> 11 \<and> on_board x)"

lemma placedD:
  assumes "placed b"
  shows "map_of (piece2pos b) p = Some x \<longleftrightarrow> map_of (pos2piece b) x = Some p"
    "distinct (map fst (piece2pos b))"
    "map_of (piece2pos b) p = Some x \<Longrightarrow> player_of p < 4 \<and> role_of p \<le> 11 \<and> on_board x"
  using assms unfolding placed_def by blast+

text \<open>Every movable piece owns one row of its group; the upper half of the rows is for players 2 and 3.\<close>

definition rows_ok :: "board \<Rightarrow> bool" where
  "rows_ok b \<longleftrightarrow>
     length (action2piece b) = 2 \<and> length (piece2action b) = 2 \<and> length (action_mask b) = 2 \<and>
     length (influenced_pieces b) = 4 \<and> length (engineer_pieces b) = 4 \<and>
     (\<forall>g < 2. \<forall>p a. map_of (piece2action b ! g) p = Some a \<longleftrightarrow> map_of (action2piece b ! g) a = Some p) \<and>
     (\<forall>g < 2. \<forall>p a. map_of (piece2action b ! g) p = Some a \<longrightarrow>
        player_of p < 4 \<and> player_of p mod 2 = g \<and> role_of p \<le> 11 \<and> role_of p \<noteq> 11 \<and>
        0 \<le> a \<and> a < 46 \<and> (a < 23 \<longleftrightarrow> player_of p < 2) \<and>
        (role_of p = 9 \<longrightarrow> p \<in> set (engineer_pieces b ! player_of p)))"

text \<open>The square an entry of a row stands for: group 1 sees the board turned by 90 degrees.\<close>

definition turned :: "nat \<Rightarrow> pos \<Rightarrow> pos" where
  "turned g c = (if g = 1 then transform_pos_reverse_scalar c else c)"

definition squares_from :: "p2p \<Rightarrow> (piece, pos) dict \<Rightarrow> piece \<Rightarrow> pos set" where
  "squares_from m q p =
     (if role_of p = 0 then {} else
      case map_of q p of
        None \<Rightarrow> {}
      | Some x \<Rightarrow> if role_of p = 9 then fst ` (ride m x \<union> hops m x) else targets m x)"

definition legal_squares :: "board \<Rightarrow> piece \<Rightarrow> pos set" where
  "legal_squares b p = squares_from (pos2piece b) (piece2pos b) p"

definition row_is :: "board \<Rightarrow> nat \<Rightarrow> int \<Rightarrow> pos set \<Rightarrow> bool" where
  "row_is b g a X \<longleftrightarrow> (\<forall>c. on_board c \<longrightarrow> (action_mask b ! g) (a * 129 + c) = (turned g c \<in> X))"

definition row_exact :: "board \<Rightarrow> piece \<Rightarrow> bool" where
  "row_exact b p \<longleftrightarrow>
     (let g = player_of p mod 2 in
      \<forall>a. map_of (piece2action b ! g) p = Some a \<longrightarrow> row_is b g a (legal_squares b p))"

definition masks_ok :: "board \<Rightarrow> bool" where
  "masks_ok b \<longleftrightarrow>
     (\<forall>p. role_of p \<noteq> 9 \<longrightarrow> player_of p < 4 \<longrightarrow>
        role_of p = 0 \<or> p \<notin> set (influenced_pieces b ! player_of p) \<longrightarrow> row_exact b p) \<and>
     (\<forall>g < 2. \<forall>i. 0 \<le> i \<longrightarrow> i < 5934 \<longrightarrow> (action_mask b ! g) i \<longrightarrow>
        map_of (action2piece b ! g) (i div 129) \<noteq> None)"

text \<open>Everything but the mask: what a refresh of rows leaves alone.\<close>

definition same_game :: "board \<Rightarrow> board \<Rightarrow> bool" where
  "same_game b b' \<longleftrightarrow>
     b' = b\<lparr>action_mask := action_mask b'\<rparr> \<and> length (action_mask b') = length (action_mask b)"

lemma same_game_refl [simp]: "same_game b b"
  by (simp add: same_game_def)

lemma same_game_trans: "same_game a b \<Longrightarrow> same_game b c \<Longrightarrow> same_game a c"
  by (cases a; cases b; cases c) (simp add: same_game_def)

lemma same_gameD:
  assumes "same_game b b'"
  shows "b_layout b' = b_layout b" "pos2piece b' = pos2piece b" "piece2pos b' = piece2pos b"
    "action2piece b' = action2piece b" "piece2action b' = piece2action b"
    "influenced_pieces b' = influenced_pieces b" "engineer_pieces b' = engineer_pieces b"
    "dead_players b' = dead_players b" "step_count b' = step_count b"
    "pieces_count b' = pieces_count b" "flag_pos b' = flag_pos b"
    "length (action_mask b') = length (action_mask b)"
  using assms by (cases b; cases b'; simp add: same_game_def)+

lemma same_game_inv:
  assumes "same_game b b'"
  shows "placed b' = placed b" "rows_ok b' = rows_ok b" "legal_squares b' = legal_squares b"
  using same_gameD[OF assms] by (simp_all add: placed_def rows_ok_def legal_squares_def fun_eq_iff)

section \<open>Refreshing a row\<close>

lemma turned_mem:
  assumes "on_board c" "\<And>x. x \<in> set ps \<Longrightarrow> on_board x"
  shows "c \<in> set (if g \<noteq> 0 then transform_pos ps else ps) \<longleftrightarrow> (if g \<noteq> 0 then transform_pos_reverse_scalar c else c) \<in> set ps"
proof -
  have "c \<in> transform_pos_elem ` set ps \<longleftrightarrow> transform_pos_reverse_scalar c \<in> set ps"
  proof
    assume "c \<in> transform_pos_elem ` set ps"
    then show "transform_pos_reverse_scalar c \<in> set ps" using reverse_transform assms(2) by auto
  next
    assume "transform_pos_reverse_scalar c \<in> set ps"
    then show "c \<in> transform_pos_elem ` set ps" using transform_reverse[OF assms(1)] by (metis imageI)
  qed
  then show ?thesis by (simp add: transform_pos_def)
qed

lemma ride_bounds: "x \<in> fst ` ride m a \<Longrightarrow> on_board x"
  using any_edge rail_bounds by (fastforce simp: ride_def)

lemma moves_of_spec:
  assumes "placed b" "map_of (piece2pos b) p = Some x" "role_of p \<noteq> 0"
  obtains ps qs par where "moves_of p b x = Inr (ps, qs, par)" "set ps = legal_squares b p"
    "good_parents x ps par" "\<And>c. c \<in> set ps \<Longrightarrow> on_board c"
proof (cases "role_of p = 9")
  case True
  have "map_of (pos2piece b) x = Some p" using placedD(1)[OF assms(1)] assms(2) by blast
  from get_engineer_moves_spec[OF this] obtain ps qs par where
    M: "get_engineer_moves x (pos2piece b) = Inr (ps, qs, par)"
      "set ps = fst ` (ride (pos2piece b) x \<union> hops (pos2piece b) x)" "good_parents x ps par" by metis
  have "on_board c" if "c \<in> set ps" for c
    using that targets_bounds[of c "pos2piece b" x] ride_bounds[of c "pos2piece b" x]
    unfolding M(2) targets_def by (auto simp: image_Un)
  then show thesis using that[of ps qs par] M True assms by (simp add: moves_of_def legal_squares_def squares_from_def)
next
  case False
  obtain ps qs par where M: "get_moves x (pos2piece b) = Inr (ps, qs, par)"
      "set ps = targets (pos2piece b) x" "good_parents x ps par"
    using get_moves_spec[of x "pos2piece b"] unfolding targets_def by metis
  then show thesis using that[of ps qs par] False assms targets_bounds[of _ "pos2piece b" x]
    by (simp add: moves_of_def legal_squares_def squares_from_def)
qed

lemma row_div_mod: "on_board c \<Longrightarrow> (a * 129 + c) div 129 = a" "on_board c \<Longrightarrow> (a * 129 + c) mod 129 = c"
  for a c :: int
  by simp_all

lemma row_index_unique:
  "on_board c \<Longrightarrow> on_board d \<Longrightarrow> a * 129 + c = e * 129 + d \<Longrightarrow> a = e \<and> c = d" for a e :: int
  using row_div_mod[of c a] row_div_mod[of d e] by simp

text \<open>The two entries of the mask after a refresh of the row of \<open>p\<close>.\<close>

definition refreshed :: "board \<Rightarrow> piece \<Rightarrow> board \<Rightarrow> bool" where
  "refreshed b p b' \<longleftrightarrow> same_game b b' \<and>
     (\<forall>g < 2. \<forall>a c. on_board c \<longrightarrow>
        (action_mask b' ! g) (a * 129 + c) =
        (if role_of p \<noteq> 0 \<and> player_of p mod 2 = g \<and> map_of (piece2action b ! g) p = Some a
         then turned g c \<in> legal_squares b p
         else (action_mask b ! g) (a * 129 + c)))"

lemma update_mask_piece_spec:
  assumes b: "placed b" "rows_ok b"
  shows "\<exists>b'. update_mask_piece p b = Inr b' \<and> refreshed b p b'"
proof -
  define g where "g = player_of p mod 2"
  have g: "g < 2" "length (action_mask b) = 2" using b(2) by (auto simp: g_def rows_ok_def)
  show ?thesis
  proof (cases "role_of p = 0")
    case True
    then show ?thesis by (auto simp: update_mask_piece_def refreshed_def)
  next
    case role: False
    show ?thesis
    proof (cases "map_of (piece2action b ! g) p")
      case None
      then have "update_mask_piece p b = Inr b"
        using role by (simp add: update_mask_piece_def g_def Let_def)
      then show ?thesis using None by (auto simp: refreshed_def g_def)
    next
      case (Some a)
      let ?mk = "clear_row (a * 129) (action_mask b ! g)"
      have row: "?mk (e * 129 + c) = (if e = a then False else (action_mask b ! g) (e * 129 + c))"
        if "on_board c" for e c :: int
        using that row_index_unique[of c _ e a] by (auto simp: clear_row_def)
      show ?thesis
      proof (cases "map_of (piece2pos b) p")
        case None
        let ?b = "b\<lparr>action_mask := (action_mask b)[g := ?mk]\<rparr>"
        have u: "update_mask_piece p b = Inr ?b"
          using role Some None by (simp add: update_mask_piece_def g_def Let_def)
        have "legal_squares b p = {}" using None by (simp add: legal_squares_def squares_from_def)
        then have "refreshed b p ?b"
          unfolding refreshed_def same_game_def using g Some role row
          by (auto simp: nth_list_update g_def)
        then show ?thesis using u by blast
      next
        case x: (Some x)
        obtain ps qs par where M: "moves_of p b x = Inr (ps, qs, par)" "set ps = legal_squares b p"
          "\<And>c. c \<in> set ps \<Longrightarrow> on_board c" using moves_of_spec[OF b(1) x role] by metis
        let ?ps = "if g \<noteq> 0 then transform_pos ps else ps"
        let ?b = "b\<lparr>action_mask := (action_mask b)[g := mask_set (map (\<lambda>x. a * 129 + x) ?ps) True ?mk]\<rparr>"
        have u: "update_mask_piece p b = Inr ?b"
          using role Some x M(1) by (simp add: update_mask_piece_def g_def[symmetric] Let_def)
        have ps: "on_board y" if "y \<in> set ?ps" for y
          using that M(3) transform_pos_elem_on_board by (auto simp: transform_pos_def split: if_splits)
        have "mask_set (map (\<lambda>x. a * 129 + x) ?ps) True ?mk (e * 129 + c) =
            (if e = a then turned g c \<in> legal_squares b p else (action_mask b ! g) (e * 129 + c))"
          if c: "on_board c" for e c
        proof -
          have "e * 129 + c \<in> set (map (\<lambda>x. a * 129 + x) ?ps) \<longleftrightarrow> e = a \<and> c \<in> set ?ps"
          proof
            assume "e * 129 + c \<in> set (map (\<lambda>x. a * 129 + x) ?ps)"
            then obtain y where y: "y \<in> set ?ps" "e * 129 + c = a * 129 + y" unfolding set_map by blast
            then show "e = a \<and> c \<in> set ?ps" using row_index_unique[OF c ps[OF y(1)] y(2)] by simp
          qed (auto intro: imageI)
          moreover have "c \<in> set ?ps \<longleftrightarrow> turned g c \<in> legal_squares b p"
            using turned_mem[where ps = ps and g = g, OF c M(3)] M(2) g(1) by (auto simp: turned_def)
          ultimately show ?thesis using row[OF c, of e] by (cases "e = a") (auto simp: mask_set_def)
        qed
        then have "refreshed b p ?b"
          unfolding refreshed_def same_game_def using g Some role
          by (auto simp: nth_list_update g_def)
        then show ?thesis using u by blast
      qed
    qed
  qed
qed

section \<open>Refreshing the rows of several pieces\<close>

lemma rows_okD:
  assumes "rows_ok b"
  shows "length (action2piece b) = 2" "length (piece2action b) = 2" "length (action_mask b) = 2"
    "length (influenced_pieces b) = 4" "length (engineer_pieces b) = 4"
    "g < 2 \<Longrightarrow> map_of (piece2action b ! g) p = Some a \<longleftrightarrow> map_of (action2piece b ! g) a = Some p"
    "g < 2 \<Longrightarrow> map_of (piece2action b ! g) p = Some a \<Longrightarrow>
        player_of p < 4 \<and> player_of p mod 2 = g \<and> role_of p \<le> 11 \<and> role_of p \<noteq> 11 \<and>
        0 \<le> a \<and> a < 46 \<and> (a < 23 \<longleftrightarrow> player_of p < 2) \<and>
        (role_of p = 9 \<longrightarrow> p \<in> set (engineer_pieces b ! player_of p))"
  using assms unfolding rows_ok_def by blast+

lemma rows_ok_inj:
  "rows_ok b \<Longrightarrow> g < 2 \<Longrightarrow> map_of (piece2action b ! g) p = Some a \<Longrightarrow>
     map_of (piece2action b ! g) q = Some a \<Longrightarrow> p = q"
  using rows_okD(6)[of b g p a] rows_okD(6)[of b g q a] by simp

lemma refreshed_row_exact:
  assumes r: "refreshed b p b'" and ok: "rows_ok b" "role_of p \<noteq> 0"
  shows "row_exact b' p"
  unfolding row_exact_def row_is_def Let_def
  using r ok same_gameD(5) same_game_inv(3) by (auto simp: refreshed_def)

lemma refreshed_row_other:
  assumes r: "refreshed b p b'" and ok: "rows_ok b" and q: "q \<noteq> p" "row_exact b q"
  shows "row_exact b' q"
proof -
  have s: "same_game b b'" using r by (simp add: refreshed_def)
  define g where "g = player_of q mod 2"
  have g: "g < 2" by (simp add: g_def)
  have "(action_mask b' ! g) (a * 129 + c) = (turned g c \<in> legal_squares b q)"
    if a: "map_of (piece2action b ! g) q = Some a" and c: "on_board c" for a c
  proof -
    have "\<not> (player_of p mod 2 = g \<and> map_of (piece2action b ! g) p = Some a)"
      using rows_ok_inj[OF ok g a] q(1) by blast
    then have "(action_mask b' ! g) (a * 129 + c) = (action_mask b ! g) (a * 129 + c)"
      using r g c by (auto simp: refreshed_def)
    then show ?thesis using q(2) a c by (simp add: row_exact_def row_is_def g_def Let_def)
  qed
  then show ?thesis
    unfolding row_exact_def row_is_def Let_def using same_gameD(5)[OF s] same_game_inv(3)[OF s]
    by (simp add: g_def)
qed

lemma refreshed_mine:
  assumes "refreshed b p b'" "role_of p = 0" "row_exact b q"
  shows "row_exact b' q"
proof -
  have s: "same_game b b'" using assms by (simp add: refreshed_def)
  show ?thesis using assms same_gameD(5)[OF s] same_game_inv(3)[OF s]
    by (auto simp: refreshed_def row_exact_def row_is_def Let_def)
qed

lemma int_row_split: "i = i div 129 * 129 + i mod 129" "on_board (i mod 129)" for i :: int
  using pos_mod_bound[of 129 i] by (auto simp del: pos_mod_bound)

lemma refreshed_owned:
  assumes r: "refreshed b p b'" and ok: "rows_ok b" "g < 2"
    and own: "\<And>i. 0 \<le> i \<Longrightarrow> i < 5934 \<Longrightarrow> (action_mask b ! g) i \<Longrightarrow> map_of (action2piece b ! g) (i div 129) \<noteq> None"
    and i: "0 \<le> i" "i < 5934" "(action_mask b' ! g) i"
  shows "map_of (action2piece b' ! g) (i div 129) \<noteq> None"
proof -
  have s: "same_game b b'" using r by (simp add: refreshed_def)
  have "(action_mask b' ! g) (i div 129 * 129 + i mod 129)" using i(3) int_row_split(1)[of i] by simp
  then have "map_of (piece2action b ! g) p = Some (i div 129) \<or> (action_mask b ! g) i"
    using r ok(2) int_row_split[of i] unfolding refreshed_def by (metis (no_types, lifting))
  then show ?thesis
    using own[OF i(1,2)] rows_okD(6)[OF ok] same_gameD(4)[OF s] by auto
qed

lemma update_mask_by_pieces_spec:
  assumes "placed b" "rows_ok b"
    and own: "\<forall>g < 2. \<forall>i. 0 \<le> i \<longrightarrow> i < 5934 \<longrightarrow> (action_mask b ! g) i \<longrightarrow>
        map_of (action2piece b ! g) (i div 129) \<noteq> None"
  shows "\<exists>b'. update_mask_by_pieces ps b = Inr b' \<and> same_game b b' \<and>
    (\<forall>p \<in> set ps. role_of p \<noteq> 0 \<longrightarrow> row_exact b' p) \<and> (\<forall>p. row_exact b p \<longrightarrow> row_exact b' p) \<and>
    (\<forall>g < 2. \<forall>i. 0 \<le> i \<longrightarrow> i < 5934 \<longrightarrow> (action_mask b' ! g) i \<longrightarrow>
        map_of (action2piece b' ! g) (i div 129) \<noteq> None)"
  using assms
proof (induction ps arbitrary: b)
  case Nil
  then show ?case by (auto simp: update_mask_by_pieces_def)
next
  case (Cons p ps)
  obtain b1 where b1: "update_mask_piece p b = Inr b1" "refreshed b p b1"
    using update_mask_piece_spec[OF Cons.prems(1,2)] by blast
  have s: "same_game b b1" using b1(2) by (simp add: refreshed_def)
  have "placed b1" "rows_ok b1" using Cons.prems same_game_inv[OF s] by auto
  moreover have "\<forall>g < 2. \<forall>i. 0 \<le> i \<longrightarrow> i < 5934 \<longrightarrow> (action_mask b1 ! g) i \<longrightarrow>
        map_of (action2piece b1 ! g) (i div 129) \<noteq> None"
    using refreshed_owned[OF b1(2) Cons.prems(2)] Cons.prems(3) by blast
  ultimately obtain b2 where b2: "update_mask_by_pieces ps b1 = Inr b2" "same_game b1 b2"
    "\<forall>p \<in> set ps. role_of p \<noteq> 0 \<longrightarrow> row_exact b2 p" "\<forall>p. row_exact b1 p \<longrightarrow> row_exact b2 p"
    "\<forall>g < 2. \<forall>i. 0 \<le> i \<longrightarrow> i < 5934 \<longrightarrow> (action_mask b2 ! g) i \<longrightarrow>
        map_of (action2piece b2 ! g) (i div 129) \<noteq> None"
    using Cons.IH by blast
  have keep: "row_exact b1 q" if "row_exact b q" for q
    using refreshed_row_other[OF b1(2) Cons.prems(2) _ that] refreshed_row_exact[OF b1(2) Cons.prems(2)]
      refreshed_mine[OF b1(2) _ that] by blast
  have "row_exact b1 p" if "role_of p \<noteq> 0"
    using refreshed_row_exact[OF b1(2) Cons.prems(2) that] .
  then show ?case using b1(1) b2 keep same_game_trans[OF s b2(2)]
    by (auto simp: update_mask_by_pieces_def)
qed

text \<open>A full refresh makes every row of the pieces it covers exact.\<close>

lemma update_mask_spec:
  assumes "placed b" "rows_ok b"
    and own: "\<forall>g < 2. \<forall>i. 0 \<le> i \<longrightarrow> i < 5934 \<longrightarrow> (action_mask b ! g) i \<longrightarrow>
        map_of (action2piece b ! g) (i div 129) \<noteq> None"
    and old: "\<And>p. role_of p \<noteq> 9 \<Longrightarrow> player_of p < 4 \<Longrightarrow> p \<notin> dom (map_of (piece2pos b)) \<Longrightarrow>
        p \<notin> set (influenced_pieces b ! player_of p) \<Longrightarrow> p \<notin> set del_pieces \<Longrightarrow> row_exact b p"
    and mines: "\<And>p. role_of p = 0 \<Longrightarrow> row_exact b p"
  shows "\<exists>b'. update_mask del_pieces b = Inr b' \<and>
    b' = b\<lparr>action_mask := action_mask b', influenced_pieces := map (\<lambda>_. []) (influenced_pieces b)\<rparr> \<and>
    length (action_mask b') = length (action_mask b) \<and> masks_ok b'"
proof -
  let ?ps = "set_update (fold (\<lambda>s acc. set_update acc s) (influenced_pieces b) (map fst (piece2pos b))) del_pieces"
  have fold_set: "set (fold (\<lambda>s acc. set_update acc s) xss ys) = set ys \<union> (\<Union>xs \<in> set xss. set xs)"
    for xss and ys :: "piece list" by (induction xss arbitrary: ys) auto
  obtain b1 where b1: "update_mask_by_pieces ?ps b = Inr b1" "same_game b b1"
    "\<forall>p \<in> set ?ps. role_of p \<noteq> 0 \<longrightarrow> row_exact b1 p" "\<forall>p. row_exact b p \<longrightarrow> row_exact b1 p"
    "\<forall>g < 2. \<forall>i. 0 \<le> i \<longrightarrow> i < 5934 \<longrightarrow> (action_mask b1 ! g) i \<longrightarrow>
        map_of (action2piece b1 ! g) (i div 129) \<noteq> None"
    using update_mask_by_pieces_spec[OF assms(1-3)] by blast
  let ?b = "b1\<lparr>influenced_pieces := map (\<lambda>_. []) (influenced_pieces b1)\<rparr>"
  have u: "update_mask del_pieces b = Inr ?b"
    using b1(1) by (simp add: update_mask_def Let_def)
  have ex: "row_exact b1 p" if p: "role_of p \<noteq> 9" "player_of p < 4" for p
  proof (cases "p \<in> set ?ps")
    case True
    then show ?thesis using b1(3,4) mines by blast
  next
    case False
    then have "p \<notin> dom (map_of (piece2pos b))" "p \<notin> set del_pieces"
      by (auto simp: fold_set dom_map_of_conv_image_fst)
    moreover have "p \<notin> set (influenced_pieces b ! player_of p)"
      using False p(2) rows_okD(4)[OF assms(2)] by (auto simp: fold_set)
    ultimately show ?thesis using old[OF p] b1(4) by blast
  qed
  have "row_exact ?b p = row_exact b1 p" for p
    by (simp add: row_exact_def row_is_def legal_squares_def)
  then have "masks_ok ?b" using ex b1(5) by (simp add: masks_ok_def)
  moreover have "?b = b\<lparr>action_mask := action_mask ?b, influenced_pieces := map (\<lambda>_. []) (influenced_pieces b)\<rparr>"
    using b1(2) by (cases b; cases b1) (simp add: same_game_def)
  ultimately show ?thesis using u same_gameD(12)[OF b1(2)] by auto
qed

section \<open>The mask of a player\<close>

definition legal_action :: "board \<Rightarrow> nat \<Rightarrow> int \<Rightarrow> bool" where
  "legal_action b player i \<longleftrightarrow>
     (\<exists>p c. decode player i b = Inr (p, c) \<and> player_of p = player \<and> c \<in> legal_squares b p)"

lemma decode_eq:
  "decode player i b = Inr (p, c) \<longleftrightarrow>
     map_of (action2piece b ! (player mod 2)) (i div 129) = Some p \<and> c = turned (player mod 2) (i mod 129)"
  by (auto simp: decode_def Let_def bindE_eq_Inr turned_def)

lemma mask_entry:
  assumes ok: "rows_ok b" and ex: "\<And>p. player_of p = player \<Longrightarrow> row_exact b p"
    and own: "\<forall>g < 2. \<forall>i. 0 \<le> i \<longrightarrow> i < 5934 \<longrightarrow> (action_mask b ! g) i \<longrightarrow>
        map_of (action2piece b ! g) (i div 129) \<noteq> None"
    and i: "0 \<le> i" "i < 5934" and player: "player < 4"
  shows "(if player < 2 then i < 2967 else 2967 \<le> i) \<and> (action_mask b ! (player mod 2)) i
    \<longleftrightarrow> legal_action b player i"
proof -
  let ?g = "player mod 2" and ?a = "i div 129" and ?c = "i mod 129"
  have g: "?g < 2" by simp
  have half: "i < 2967 \<longleftrightarrow> ?a < 23" by linarith
  have ic: "(action_mask b ! ?g) (?a * 129 + ?c) = (action_mask b ! ?g) i" by simp
  have row: "(action_mask b ! ?g) i = (turned ?g ?c \<in> legal_squares b p)"
    if p: "map_of (action2piece b ! ?g) ?a = Some p" "player_of p = player" for p
  proof -
    have "map_of (piece2action b ! ?g) p = Some ?a" using rows_okD(6)[OF ok g] p(1) by blast
    then have "(action_mask b ! ?g) (?a * 129 + ?c) = (turned ?g ?c \<in> legal_squares b p)"
      using ex[OF p(2)] int_row_split(2)[of i] p(2) unfolding row_exact_def row_is_def Let_def by blast
    then show ?thesis using ic by simp
  qed
  have pl: "player_of p < 4 \<and> player_of p mod 2 = ?g \<and> (?a < 23 \<longleftrightarrow> player_of p < 2)"
    if "map_of (action2piece b ! ?g) ?a = Some p" for p
    using rows_okD(6,7)[OF ok g] that by blast
  show ?thesis
  proof
    assume *: "(if player < 2 then i < 2967 else 2967 \<le> i) \<and> (action_mask b ! ?g) i"
    then obtain p where p: "map_of (action2piece b ! ?g) ?a = Some p" using own i g by blast
    have "player_of p < 2 \<longleftrightarrow> player < 2" using * half pl[OF p] by (auto split: if_splits)
    moreover have "player_of p < 4" "player_of p mod 2 = player mod 2" using pl[OF p] by auto
    moreover have "player_of p div 2 = player div 2"
    proof (cases "player < 2")
      case True
      then show ?thesis using calculation by simp
    next
      case False
      then have "player_of p div 2 = 1" "player div 2 = 1" using calculation player by linarith+
      then show ?thesis by simp
    qed
    ultimately have "player_of p = player" by (metis div_mult_mod_eq)
    then show "legal_action b player i" using row[OF p] * p by (auto simp: legal_action_def decode_eq)
  next
    assume "legal_action b player i"
    then obtain p where p: "map_of (action2piece b ! ?g) ?a = Some p" "player_of p = player"
      "turned ?g ?c \<in> legal_squares b p" by (auto simp: legal_action_def decode_eq)
    then show "(if player < 2 then i < 2967 else 2967 \<le> i) \<and> (action_mask b ! ?g) i"
      using row[OF p(1,2)] pl[OF p(1)] half by auto
  qed
qed

lemma rows_ok_influenced:
  "rows_ok b \<Longrightarrow> length is = 4 \<Longrightarrow> rows_ok (b\<lparr>influenced_pieces := is\<rparr>)"
  by (simp add: rows_ok_def)

lemma row_exact_influenced [simp]: "row_exact (b\<lparr>influenced_pieces := is\<rparr>) p = row_exact b p"
  by (simp add: row_exact_def row_is_def legal_squares_def)

lemma get_action_mask_spec:
  assumes b: "placed b" "rows_ok b" "masks_ok b" and player: "player < 4" "player \<notin> set (dead_players b)"
  shows "\<exists>mk b'. get_action_mask player b = Inr (Some mk, b') \<and>
    b' = b\<lparr>action_mask := action_mask b', influenced_pieces := (influenced_pieces b)[player := []]\<rparr> \<and>
    length (action_mask b') = length (action_mask b) \<and> masks_ok b' \<and>
    (\<forall>i. 0 \<le> i \<longrightarrow> i < 5934 \<longrightarrow> mk i = legal_action b player i) \<and> mk 5934"
proof -
  let ?ps = "set_update (influenced_pieces b ! player) (engineer_pieces b ! player)"
  have own: "\<forall>g < 2. \<forall>i. 0 \<le> i \<longrightarrow> i < 5934 \<longrightarrow> (action_mask b ! g) i \<longrightarrow>
        map_of (action2piece b ! g) (i div 129) \<noteq> None" using b(3) by (simp add: masks_ok_def)
  obtain b1 where b1: "update_mask_by_pieces ?ps b = Inr b1" "same_game b b1"
    "\<forall>p \<in> set ?ps. role_of p \<noteq> 0 \<longrightarrow> row_exact b1 p" "\<forall>p. row_exact b p \<longrightarrow> row_exact b1 p"
    "\<forall>g < 2. \<forall>i. 0 \<le> i \<longrightarrow> i < 5934 \<longrightarrow> (action_mask b1 ! g) i \<longrightarrow>
        map_of (action2piece b1 ! g) (i div 129) \<noteq> None"
    using update_mask_by_pieces_spec[OF b(1,2) own] by blast
  note S = same_gameD[OF b1(2)] same_game_inv[OF b1(2)]
  have ok1: "rows_ok b1" using S b(2) by simp
  let ?b = "b1\<lparr>influenced_pieces := (influenced_pieces b1)[player := []]\<rparr>"
  have ex: "row_exact b1 p" if p: "player_of p = player" for p
  proof (cases "role_of p = 9")
    case True
    show ?thesis
    proof (cases "map_of (piece2action b ! (player mod 2)) p")
      case None
      then show ?thesis using p S(5) by (simp add: row_exact_def Let_def)
    next
      case (Some a)
      then have "p \<in> set (engineer_pieces b ! player)" using rows_okD(7)[OF b(2) _ Some] True p by simp
      then show ?thesis using b1(3) True by auto
    qed
  next
    case False
    then show ?thesis using b1(3,4) b(3) p player(1) unfolding masks_ok_def by auto
  qed
  have ex': "row_exact b1 p" if "role_of p \<noteq> 9" "player_of p < 4"
    "role_of p = 0 \<or> p \<notin> set ((influenced_pieces b1)[player := []] ! player_of p)" for p
    using that ex[of p] b(3) b1(4) S(6) unfolding masks_ok_def
    by (cases "player_of p = player") (auto simp: nth_list_update)
  have m: "masks_ok ?b" using ex' b1(5) by (simp add: masks_ok_def)
  define mk where "mk = (\<lambda>i. if i = 5934 then True
      else if player < 2 then 0 \<le> i \<and> i < 5934 div 2 \<and> (action_mask b1 ! (player mod 2)) i
      else 5934 div 2 \<le> i \<and> i < 5934 \<and> (action_mask b1 ! (player mod 2)) i)"
  have g: "get_action_mask player b = Inr (Some mk, ?b)"
    using player b1(1) by (simp add: get_action_mask_def Let_def mk_def)
  have "mk i = legal_action b player i" if i: "0 \<le> i" "i < 5934" for i
  proof -
    have "legal_action b1 player i = legal_action b player i"
      by (simp add: legal_action_def decode_def S)
    then show ?thesis using mask_entry[OF ok1 ex b1(5) i player(1)] i by (auto simp: mk_def)
  qed
  moreover have "?b = b\<lparr>action_mask := action_mask ?b, influenced_pieces := (influenced_pieces b)[player := []]\<rparr>"
    using b1(2) by (cases b; cases b1) (simp add: same_game_def)
  ultimately show ?thesis using g m S(12) by (intro exI[of _ mk] exI[of _ ?b]) (auto simp: mk_def)
qed

end
