(* ===== verification/Board_Inv.thy ===== *)
theory Board_Inv
  imports Board_Mask
begin

text \<open>
  The game: \<open>Board.update\<close> keeps the invariant of the board and never raises on a legal action.
  The invariant ties \<open>pieces_count\<close> to the pieces that can still move, the dead players to the
  empty hands, and the mask to the legal moves.
\<close>

section \<open>The path of a move\<close>

lemma follow_None [simp]: "follow par None = Some []"
  by (subst follow.simps) simp

lemma follow_Some: "follow par (Some c) = Option.bind (follow par (before par c)) (\<lambda>path. Some (c # path))"
  by (subst follow.simps) simp

definition adjacent :: "pos \<Rightarrow> pos \<Rightarrow> bool" where
  "adjacent a b \<longleftrightarrow> (a, b) \<in> set any_edges \<or> (a, b) \<in> set plain_edges \<or> (a, b) \<in> set camp_edges \<or>
     (a, b) \<in> set flag_edges"

lemma follow_ranked:
  assumes "good_parents start ps par" "c = start \<or> c \<in> set ps"
  shows "\<exists>path. follow par (Some c) = Some path \<and> path \<noteq> [] \<and> hd path = c \<and> last path = start \<and>
    successively (\<lambda>x y. before par x = Some y) path \<and> (c \<noteq> start \<longrightarrow> length path \<ge> 2) \<and>
    (\<forall>y \<in> set (butlast (tl path)). y \<noteq> start \<and> (\<exists>x. before par x = Some y))"
proof -
  obtain rank :: "pos \<Rightarrow> nat" where r: "rank start = 0"
    "\<And>x y. before par x = Some y \<Longrightarrow> x \<noteq> start \<and> (y = start \<or> before par y \<noteq> None) \<and> rank y < rank x"
    using assms(1) unfolding good_parents_def ranked_def by blast
  have bs: "before par start = None" using r(2)[of start] by (cases "before par start") auto
  then have fs: "follow par (Some start) = Some [start]" by (simp add: follow_Some)
  show ?thesis
    using assms(2)
  proof (induction "rank c" arbitrary: c rule: less_induct)
    case less
    show ?case
    proof (cases "c = start")
      case True
      then show ?thesis using fs by simp
    next
      case False
      then have "before par c \<noteq> None" using less.prems assms(1) by (auto simp: good_parents_def)
      then obtain y where y: "before par c = Some y" by blast
      then have "y = start \<or> y \<in> set ps" "rank y < rank c" using r(2)[OF y] assms(1)
        by (auto simp: good_parents_def)
      then obtain path where p: "follow par (Some y) = Some path" "path \<noteq> []" "hd path = y"
        "last path = start" "successively (\<lambda>x y. before par x = Some y) path"
        "\<forall>y \<in> set (butlast (tl path)). y \<noteq> start \<and> (\<exists>x. before par x = Some y)"
        using less.hyps by blast
      have "z \<noteq> start \<and> (\<exists>x. before par x = Some z)" if z: "z \<in> set (butlast path)" for z
      proof (cases "y = start")
        case True
        then have "path = [start]" using p(1) fs by simp
        then show ?thesis using z by simp
      next
        case False
        have "path = y # tl path" using p(2,3) by (cases path) auto
        then have "z = y \<or> z \<in> set (butlast (tl path))"
          using z by (metis butlast.simps(2) empty_iff list.set(1) set_ConsD)
        then show ?thesis using False y p(6) by blast
      qed
      then show ?thesis using y False p(1-5)
        by (auto simp: follow_Some successively_Cons Suc_le_eq)
    qed
  qed
qed

text \<open>
  On a line, and on the engineer's ride, a square is next to the one before it, and that one is
  empty unless it is the start.
\<close>

lemma mem_seq_edges:
  "(x, y) \<in> set (seq_edges seq) \<longleftrightarrow>
     (\<exists>i < length seq. seq ! i = x \<and> (i > 0 \<and> y = seq ! (i - 1) \<or> i < length seq - 1 \<and> y = seq ! (i + 1)))"
  by (auto simp: seq_edges_def set_enumerate_list split: if_splits)

lemma seq_edges_consecutive:
  assumes "seq = u @ x # y # v"
  shows "(x, y) \<in> set (seq_edges seq)" "(y, x) \<in> set (seq_edges seq)"
  unfolding mem_seq_edges
   apply (rule exI[of _ "length u"], simp add: assms nth_append)
  by (rule exI[of _ "Suc (length u)"], simp add: assms nth_append)

lemma on_line_adjacent:
  assumes "on_line (u @ x # y # v)"
  shows "(x, y) \<in> set any_edges"
proof -
  obtain seq where seq: "seq \<in> set STRAIGHT_SEQS"
    "sublist (u @ x # y # v) seq \<or> sublist (rev (u @ x # y # v)) seq"
    using assms by (auto simp: on_line_def)
  from seq(2) have "(x, y) \<in> set (seq_edges seq)"
  proof
    assume "sublist (u @ x # y # v) seq"
    then obtain a c where "seq = (a @ u) @ x # y # (v @ c)" by (auto simp: sublist_def)
    then show ?thesis by (rule seq_edges_consecutive)
  next
    assume "sublist (rev (u @ x # y # v)) seq"
    then obtain a c where "seq = (a @ rev v) @ y # x # (rev u @ c)" by (auto simp: sublist_def)
    then show ?thesis by (rule seq_edges_consecutive)
  qed
  then show ?thesis using seq(1) by (auto simp: any_edges_def)
qed

lemma slide_step:
  assumes "(x, y) \<in> slide m a"
  shows "adjacent y x \<and> (y = a \<or> map_of m y = None)"
proof -
  obtain p where p: "on_line (a # p)" "p \<noteq> []" "last p = x" "y = last (a # butlast p)" "clear m (butlast p)"
    using slide_facts(4)[OF assms] by blast
  show ?thesis
  proof (cases "butlast p = []")
    case True
    then have "p = [x]" using p(2,3) append_butlast_last_id[OF p(2)] by simp
    then show ?thesis using on_line_adjacent[of "[]" a x "[]"] p(1,4) by (simp add: adjacent_def)
  next
    case False
    then have y: "y = last (butlast p)" using p(4) by simp
    have "a # p = (a # butlast (butlast p)) @ y # x # []"
      using append_butlast_last_id[OF p(2)] append_butlast_last_id[OF False] p(3) y
      by (metis append_Cons append_Nil append_assoc)
    then have "(y, x) \<in> set any_edges" using p(1) on_line_adjacent by metis
    moreover have "map_of m y = None" using p(5) False y by (simp add: clear_def)
    ultimately show ?thesis by (simp add: adjacent_def)
  qed
qed

lemma hops_step: "(x, y) \<in> hops m a \<Longrightarrow> adjacent y x \<and> y = a"
  by (auto simp: hops_def steps_def set_edges_at adjacent_def)

lemma ride_step: "(x, y) \<in> ride m a \<Longrightarrow> adjacent y x \<and> (y = a \<or> map_of m y = None)"
  using free_reach_cases by (fastforce simp: ride_def adjacent_def)

text \<open>
  A walk from \<open>a\<close> to \<open>c\<close>: every step goes to a neighbouring square, over empty squares only.
\<close>

definition walk :: "p2p \<Rightarrow> pos \<Rightarrow> pos \<Rightarrow> pos list \<Rightarrow> bool" where
  "walk m a c path \<longleftrightarrow>
     length path \<ge> 2 \<and> hd path = a \<and> last path = c \<and> successively adjacent path \<and>
     (\<forall>x \<in> set (butlast (tl path)). map_of m x = None)"

lemma legal_squares_alive:
  assumes "c \<in> legal_squares b p"
  obtains x where "map_of (piece2pos b) p = Some x" "role_of p \<noteq> 0"
  using assms by (auto simp: legal_squares_def squares_from_def split: if_splits option.splits)

lemma hq_engineer_none: "x \<in> set HQS \<Longrightarrow> fst ` (ride m x \<union> hops m x) = {}"
proof -
  assume x: "x \<in> set HQS"
  have "fst ` hops m x = {}" using hq_no_targets[OF x, of m] by (simp add: targets_def image_Un)
  moreover have "y = x \<and> False" if "y \<in> free_reach m POS2ANY x" "(y, z) \<in> set any_edges" for y z
    using that
  proof (induction arbitrary: z)
    case start
    then show ?case using any_edge x rail_not_special by blast
  next
    case (step y w)
    then show ?case by (auto simp: nbrs_tables set_edges_at)
  qed
  then have "ride m x = {}" by (auto simp: ride_def)
  ultimately show ?thesis by simp
qed

lemma HQ_SQUARES_eq: "HQ_SQUARES = HQS"
  by (simp add: HQ_SQUARES_def HQS_def)

text \<open>What is known of a legal move before it is made.\<close>

lemma legal_squares_facts:
  assumes b: "placed b" and c: "c \<in> legal_squares b p" and x: "map_of (piece2pos b) p = Some x"
  shows "c \<noteq> x" "x \<notin> set HQ_SQUARES" "on_board c"
    "\<And>q. map_of (pos2piece b) c = Some q \<Longrightarrow> enemy p q"
proof -
  have m: "map_of (pos2piece b) x = Some p" using placedD(1)[OF b] x by blast
  have r: "role_of p \<noteq> 0" using c by (rule legal_squares_alive)
  have c': "c \<in> fst ` (ride (pos2piece b) x \<union> hops (pos2piece b) x) \<or> c \<in> targets (pos2piece b) x"
    using c x by (auto simp: legal_squares_def squares_from_def split: if_splits)
  have ride: "c \<in> fst ` ride (pos2piece b) x \<Longrightarrow> c \<noteq> x" by (auto simp: ride_def)
  have hops: "c \<in> fst ` hops (pos2piece b) x \<Longrightarrow> c \<in> targets (pos2piece b) x"
    by (simp add: targets_def image_Un)
  show "c \<noteq> x" using c' targets_bounds[of c] ride hops unfolding image_Un by blast
  show "x \<notin> set HQ_SQUARES" using c' hq_engineer_none hq_no_targets unfolding HQ_SQUARES_eq by blast
  show "on_board c" using c' targets_bounds[of c] ride_bounds[of c] hops unfolding image_Un by blast
  have en: "enterable (Some p) (pos2piece b) c"
  proof -
    have "step_ok (Some p) (pos2piece b) k c \<Longrightarrow> enterable (Some p) (pos2piece b) c" for k
      by (auto simp: step_ok_def enterable_def split: option.splits)
    then have "c \<in> fst ` hops (pos2piece b) x \<Longrightarrow> enterable (Some p) (pos2piece b) c"
      unfolding mem_hops m by blast
    moreover have "c \<in> fst ` ride (pos2piece b) x \<Longrightarrow> enterable (Some p) (pos2piece b) c"
      using m by (auto simp: ride_def)
    moreover have "c \<in> fst ` slide (pos2piece b) x \<Longrightarrow> enterable (Some p) (pos2piece b) c"
      unfolding mem_slide m by blast
    ultimately show ?thesis using c' unfolding targets_def image_Un by blast
  qed
  show "enemy p q" if "map_of (pos2piece b) c = Some q" for q
    using en that by (simp add: enterable_def can_take_def)
qed

lemma get_path_legal:
  assumes b: "placed b" and c: "c \<in> legal_squares b p" and x: "map_of (piece2pos b) p = Some x"
  shows "\<exists>path. get_path p c b = Inr path \<and> walk (pos2piece b) x c path"
proof -
  have r: "role_of p \<noteq> 0" using c by (rule legal_squares_alive)
  have m: "map_of (pos2piece b) x = Some p" using placedD(1)[OF b] x by blast
  obtain ps qs par where M: "moves_of p b x = Inr (ps, qs, par)" "c \<in> set ps" "good_parents x ps par"
    "\<And>u v. before par u = Some v \<Longrightarrow> adjacent v u \<and> (v = x \<or> map_of (pos2piece b) v = None)"
  proof (cases "role_of p = 9")
    case True
    obtain ps qs par where E: "get_engineer_moves x (pos2piece b) = Inr (ps, qs, par)"
      "set ps = fst ` (ride (pos2piece b) x \<union> hops (pos2piece b) x)" "good_parents x ps par"
      "\<And>u v. before par u = Some v \<Longrightarrow> (u, v) \<in> ride (pos2piece b) x \<union> hops (pos2piece b) x"
      using get_engineer_moves_spec[OF m] by metis
    show thesis
    proof (rule that[OF _ _ E(3)])
      show "moves_of p b x = Inr (ps, qs, par)" using True E(1) by (simp add: moves_of_def)
      show "c \<in> set ps" using c x True unfolding E(2) by (auto simp: legal_squares_def squares_from_def)
      show "adjacent v u \<and> (v = x \<or> map_of (pos2piece b) v = None)" if "before par u = Some v" for u v
        using E(4)[OF that] ride_step[of u v _ x] hops_step[of u v _ x] by (elim UnE) auto
    qed
  next
    case False
    obtain ps qs par where E: "get_moves x (pos2piece b) = Inr (ps, qs, par)"
      "set ps = fst ` (slide (pos2piece b) x \<union> hops (pos2piece b) x)" "good_parents x ps par"
      "\<And>u v. before par u = Some v \<Longrightarrow> (u, v) \<in> slide (pos2piece b) x \<union> hops (pos2piece b) x"
      using get_moves_spec[of x "pos2piece b"] by metis
    show thesis
    proof (rule that[OF _ _ E(3)])
      show "moves_of p b x = Inr (ps, qs, par)" using False E(1) by (simp add: moves_of_def)
      show "c \<in> set ps" using c x False r unfolding E(2)
        by (auto simp: legal_squares_def squares_from_def targets_def)
      show "adjacent v u \<and> (v = x \<or> map_of (pos2piece b) v = None)" if "before par u = Some v" for u v
        using E(4)[OF that] slide_step[of u v _ x] hops_step[of u v _ x] by (elim UnE) auto
    qed
  qed
  obtain path where f: "follow par (Some c) = Some path" "path \<noteq> []" "hd path = c" "last path = x"
    "successively (\<lambda>x y. before par x = Some y) path" "length path \<ge> 2"
    "\<forall>y \<in> set (butlast (tl path)). y \<noteq> x \<and> (\<exists>z. before par z = Some y)"
    using follow_ranked[OF M(3), of c] M(2) legal_squares_facts(1)[OF b c x] by blast
  have g: "get_path p c b = Inr (rev path)" using x M(1) f(1) by (simp add: get_path_def)
  have "successively (\<lambda>a b. before par b = Some a) (rev path)"
    using f(5) by (simp add: successively_rev)
  then have "successively adjacent (rev path)"
    by (rule successively_mono) (use M(4) in blast)
  moreover have "butlast (tl (rev path)) = rev (butlast (tl path))"
    by (metis butlast_rev butlast_tl rev_rev_ident)
  moreover have "hd (rev path) = x" "last (rev path) = c" using f by (simp_all add: hd_rev last_rev)
  ultimately have "walk (pos2piece b) x c (rev path)"
    using f(6,7) M(4) by (fastforce simp: walk_def)
  then show ?thesis using g by blast
qed

section \<open>Changes of the board\<close>

text \<open>What no step of the game changes.\<close>

definition frame :: "board \<Rightarrow> board \<Rightarrow> bool" where
  "frame b b' \<longleftrightarrow>
     b_layout b' = b_layout b \<and> action2piece b' = action2piece b \<and> piece2action b' = piece2action b \<and>
     engineer_pieces b' = engineer_pieces b \<and> flag_pos b' = flag_pos b \<and>
     length (action_mask b') = length (action_mask b) \<and>
     length (influenced_pieces b') = length (influenced_pieces b) \<and>
     step_count b' = step_count b \<and> length (pieces_count b') = length (pieces_count b)"

lemma frame_refl [simp]: "frame b b"
  by (simp add: frame_def)

lemma frame_trans: "frame a b \<Longrightarrow> frame b c \<Longrightarrow> frame a c"
  by (simp add: frame_def)

lemma frame_rows_ok: "frame b b' \<Longrightarrow> rows_ok b \<Longrightarrow> rows_ok b'"
  by (simp add: frame_def rows_ok_def)

definition growing :: "board \<Rightarrow> board \<Rightarrow> bool" where
  "growing b b' \<longleftrightarrow> action_mask b' = action_mask b \<and>
     (\<forall>i. set (influenced_pieces b ! i) \<subseteq> set (influenced_pieces b' ! i))"

lemma growing_refl [simp]: "growing b b"
  by (simp add: growing_def)

lemma growing_trans: "growing a b \<Longrightarrow> growing b c \<Longrightarrow> growing a c"
  by (fastforce simp: growing_def)

lemma influence_simps [simp]:
  "b_layout (influence q b) = b_layout b" "pos2piece (influence q b) = pos2piece b"
  "piece2pos (influence q b) = piece2pos b" "action2piece (influence q b) = action2piece b"
  "piece2action (influence q b) = piece2action b" "action_mask (influence q b) = action_mask b"
  "engineer_pieces (influence q b) = engineer_pieces b" "dead_players (influence q b) = dead_players b"
  "step_count (influence q b) = step_count b" "pieces_count (influence q b) = pieces_count b"
  "flag_pos (influence q b) = flag_pos b"
  "length (influenced_pieces (influence q b)) = length (influenced_pieces b)"
  by (simp_all add: influence_def)

definition only_influence :: "board \<Rightarrow> board \<Rightarrow> bool" where
  "only_influence b b' \<longleftrightarrow> b' = b\<lparr>influenced_pieces := influenced_pieces b'\<rparr> \<and>
     length (influenced_pieces b') = length (influenced_pieces b)"

lemma only_influence_refl [simp]: "only_influence b b"
  by (simp add: only_influence_def)

lemma only_influence_trans: "only_influence a b \<Longrightarrow> only_influence b c \<Longrightarrow> only_influence a c"
  by (cases a; cases b; cases c) (simp add: only_influence_def)

lemma only_influenceD:
  assumes "only_influence b b'"
  shows "b_layout b' = b_layout b" "pos2piece b' = pos2piece b" "piece2pos b' = piece2pos b"
    "action2piece b' = action2piece b" "piece2action b' = piece2action b" "action_mask b' = action_mask b"
    "engineer_pieces b' = engineer_pieces b" "dead_players b' = dead_players b"
    "step_count b' = step_count b" "pieces_count b' = pieces_count b" "flag_pos b' = flag_pos b"
    "length (influenced_pieces b') = length (influenced_pieces b)"
  using assms by (cases b; cases b'; simp add: only_influence_def)+

lemma influence_set:
  assumes "length (influenced_pieces b) = 4" "player_of q < 4" "i < 4"
  shows "set (influenced_pieces (influence q b) ! i) =
    set (influenced_pieces b ! i) \<union> (if role_of q \<noteq> 0 \<and> player_of q = i then {q} else {})"
  using assms by (auto simp: influence_def nth_list_update)

lemma fold_influence:
  assumes "length (influenced_pieces b) = 4" "\<And>q. q \<in> set qs \<Longrightarrow> player_of q < 4"
  shows "only_influence b (fold influence qs b)"
    "i < 4 \<Longrightarrow> set (influenced_pieces (fold influence qs b) ! i) =
      set (influenced_pieces b ! i) \<union> {q \<in> set qs. role_of q \<noteq> 0 \<and> player_of q = i}"
proof -
  have "only_influence b (fold influence qs b) \<and> (i < 4 \<longrightarrow> set (influenced_pieces (fold influence qs b) ! i) =
      set (influenced_pieces b ! i) \<union> {q \<in> set qs. role_of q \<noteq> 0 \<and> player_of q = i})"
    using assms
  proof (induction qs arbitrary: b)
    case (Cons q qs)
    have o: "only_influence b (influence q b)" by (simp add: only_influence_def influence_def)
    have IH: "only_influence (influence q b) (fold influence qs (influence q b)) \<and>
      (i < 4 \<longrightarrow> set (influenced_pieces (fold influence qs (influence q b)) ! i) =
      set (influenced_pieces (influence q b) ! i) \<union> {q \<in> set qs. role_of q \<noteq> 0 \<and> player_of q = i})"
      using Cons.prems by (intro Cons.IH) auto
    have "set (influenced_pieces (influence q b) ! i) =
      set (influenced_pieces b ! i) \<union> (if role_of q \<noteq> 0 \<and> player_of q = i then {q} else {})" if "i < 4"
      using Cons.prems that by (intro influence_set) auto
    then show ?case using IH only_influence_trans[OF o conjunct1[OF IH]] by auto
  qed simp
  then show "only_influence b (fold influence qs b)"
    "i < 4 \<Longrightarrow> set (influenced_pieces (fold influence qs b) ! i) =
      set (influenced_pieces b ! i) \<union> {q \<in> set qs. role_of q \<noteq> 0 \<and> player_of q = i}" by auto
qed

lemma lookout_players:
  assumes "placed b" "q \<in> lookout (pos2piece b) d"
  shows "player_of q < 4" "\<exists>x. map_of (pos2piece b) x = Some q"
proof -
  show *: "\<exists>x. map_of (pos2piece b) x = Some q"
    using assms(2) by (auto simp: lookout_def seen_def met_def)
  then show "player_of q < 4" using placedD[OF assms(1)] by blast
qed

lemma update_influenced_pieces_spec:
  assumes b: "placed b" "length (influenced_pieces b) = 4" and ps: "\<And>q. q \<in> set ps \<Longrightarrow> player_of q < 4"
  shows "\<exists>b'. update_influenced_pieces ps ds b = Inr b' \<and> only_influence b b' \<and>
    (\<forall>i < 4. set (influenced_pieces b' ! i) = set (influenced_pieces b ! i) \<union>
      {q \<in> set ps \<union> (\<Union>d \<in> set ds. lookout (pos2piece b) d). role_of q \<noteq> 0 \<and> player_of q = i})"
proof -
  let ?f = "\<lambda>p b. bindE (get_moves p (pos2piece b)) (\<lambda>(_, pieces, _). Inr (fold influence pieces b))"
  have "\<exists>b'. foldE ?f ds c = Inr b' \<and> only_influence c b' \<and>
    (\<forall>i < 4. set (influenced_pieces b' ! i) = set (influenced_pieces c ! i) \<union>
      {q \<in> (\<Union>d \<in> set ds. lookout (pos2piece c) d). role_of q \<noteq> 0 \<and> player_of q = i})"
    if "placed c" "length (influenced_pieces c) = 4" for c
    using that
  proof (induction ds arbitrary: c)
    case (Cons d ds)
    obtain xs qs par where M: "get_moves d (pos2piece c) = Inr (xs, qs, par)"
      "set qs = lookout (pos2piece c) d" using get_moves_spec by metis
    let ?c = "fold influence qs c"
    have pl: "player_of q < 4" if "q \<in> set qs" for q
      using that M(2) lookout_players(1)[OF Cons.prems(1)] by blast
    note F = fold_influence[where qs = qs and b = c, OF Cons.prems(2) pl]
    note O = only_influenceD[OF F(1)]
    have "placed ?c" "length (influenced_pieces ?c) = 4" using Cons.prems O by (simp_all add: placed_def)
    from Cons.IH[OF this] obtain b' where b': "foldE ?f ds ?c = Inr b'" "only_influence ?c b'"
      "\<forall>i < 4. set (influenced_pieces b' ! i) = set (influenced_pieces ?c ! i) \<union>
      {q \<in> (\<Union>d \<in> set ds. lookout (pos2piece ?c) d). role_of q \<noteq> 0 \<and> player_of q = i}" by blast
    have "foldE ?f (d # ds) c = Inr b'" using M(1) b'(1) by simp
    moreover have "set (influenced_pieces b' ! i) = set (influenced_pieces c ! i) \<union>
      {q \<in> (\<Union>d \<in> set (d # ds). lookout (pos2piece c) d). role_of q \<noteq> 0 \<and> player_of q = i}" if "i < 4" for i
      using b'(3) F(2)[OF _ that] that O(2) M(2) by auto
    ultimately show ?case using only_influence_trans[OF F(1) b'(2)] by blast
  qed auto
  note ex = this
  let ?b = "fold influence ps b"
  note F = fold_influence[where qs = ps and b = b, OF b(2) ps]
  note O = only_influenceD[OF F(1)]
  have "placed ?b" "length (influenced_pieces ?b) = 4" using b O by (simp_all add: placed_def)
  from ex[OF this] obtain b' where b': "foldE ?f ds ?b = Inr b'" "only_influence ?b b'"
    "\<forall>i < 4. set (influenced_pieces b' ! i) = set (influenced_pieces ?b ! i) \<union>
      {q \<in> (\<Union>d \<in> set ds. lookout (pos2piece ?b) d). role_of q \<noteq> 0 \<and> player_of q = i}" by blast
  then have "update_influenced_pieces ps ds b = Inr b'" by (simp add: update_influenced_pieces_def)
  moreover have "set (influenced_pieces b' ! i) = set (influenced_pieces b ! i) \<union>
      {q \<in> set ps \<union> (\<Union>d \<in> set ds. lookout (pos2piece b) d). role_of q \<noteq> 0 \<and> player_of q = i}" if "i < 4" for i
    using b'(3) F(2)[OF _ that] that O(2) by auto
  ultimately show ?thesis using only_influence_trans[OF F(1) b'(2)] by blast
qed

text \<open>
  A local change: pieces \<open>P\<close> are moved or removed, on squares \<open>D\<close> only.  Marking \<open>P\<close> and what is seen
  from \<open>D\<close> keeps the invariant of the mask.
\<close>

definition local_change :: "board \<Rightarrow> board \<Rightarrow> piece set \<Rightarrow> pos set \<Rightarrow> bool" where
  "local_change b b' P D \<longleftrightarrow>
     frame b b' \<and> growing b b' \<and> placed b' \<and>
     (\<forall>x. x \<notin> D \<longrightarrow> map_of (pos2piece b') x = map_of (pos2piece b) x) \<and>
     (\<forall>p. p \<notin> P \<longrightarrow> map_of (piece2pos b') p = map_of (piece2pos b) p) \<and>
     (\<forall>d \<in> D. \<forall>p. map_of (pos2piece b') d = Some p \<longrightarrow> p \<in> P) \<and>
     dom (map_of (piece2pos b')) \<subseteq> dom (map_of (piece2pos b))"

lemma squares_unseen:
  assumes c: "local_change b b' P D" and b: "placed b"
    and p: "p \<notin> P" "role_of p \<noteq> 9" "\<And>d. d \<in> D \<Longrightarrow> p \<notin> lookout (pos2piece b') d"
  shows "legal_squares b' p = legal_squares b p"
proof (cases "map_of (piece2pos b) p")
  case None
  then show ?thesis using c p(1) by (simp add: legal_squares_def squares_from_def local_change_def)
next
  case (Some x)
  then have x': "map_of (piece2pos b') p = Some x" using c p(1) by (simp add: local_change_def)
  then have m': "map_of (pos2piece b') x = Some p" using c placedD(1) by (auto simp: local_change_def)
  then have "x \<notin> D" using c p(1) by (auto simp: local_change_def)
  have "targets (pos2piece b) x = targets (pos2piece b') x"
    using targets_frame[where D = D and m = "pos2piece b" and m' = "pos2piece b'", OF _ \<open>x \<notin> D\<close> m' p(3)] c
    by (simp add: local_change_def)
  then show ?thesis using Some x' p(2) by (simp add: legal_squares_def squares_from_def)
qed

lemma row_exact_cong:
  "piece2action b' = piece2action b \<Longrightarrow> action_mask b' = action_mask b \<Longrightarrow>
     legal_squares b' p = legal_squares b p \<Longrightarrow> row_exact b' p = row_exact b p"
  by (simp add: row_exact_def row_is_def)

lemma legal_squares_mine: "role_of p = 0 \<Longrightarrow> legal_squares b p = {}"
  by (simp add: legal_squares_def squares_from_def)

lemma influenced_masks_ok:
  assumes b: "placed b" "rows_ok b" "masks_ok b" and c: "local_change b b1 (set ps) (set ds)"
    and ps: "\<And>q. q \<in> set ps \<Longrightarrow> player_of q < 4"
  shows "\<exists>b2. update_influenced_pieces ps ds b1 = Inr b2 \<and> only_influence b1 b2 \<and> masks_ok b2"
proof -
  have fr: "frame b b1" "growing b b1" "placed b1" using c by (auto simp: local_change_def)
  have len: "length (influenced_pieces b1) = 4"
    using frame_rows_ok[OF fr(1) b(2)] by (simp add: rows_ok_def)
  obtain b2 where b2: "update_influenced_pieces ps ds b1 = Inr b2" "only_influence b1 b2"
    "\<forall>i < 4. set (influenced_pieces b2 ! i) = set (influenced_pieces b1 ! i) \<union>
      {q \<in> set ps \<union> (\<Union>d \<in> set ds. lookout (pos2piece b1) d). role_of q \<noteq> 0 \<and> player_of q = i}"
    using update_influenced_pieces_spec[where ps = ps and b = b1 and ds = ds, OF fr(3) len ps] by blast
  note O = only_influenceD[OF b2(2)]
  have same: "piece2action b2 = piece2action b" "action_mask b2 = action_mask b"
    "action2piece b2 = action2piece b" using fr O by (simp_all add: frame_def growing_def)
  have "row_exact b2 p" if p: "role_of p \<noteq> 9" "player_of p < 4"
    "role_of p = 0 \<or> p \<notin> set (influenced_pieces b2 ! player_of p)" for p
  proof (cases "role_of p = 0")
    case True
    then have "row_exact b p" using b(3) p by (simp add: masks_ok_def)
    then show ?thesis using row_exact_cong[OF same(1,2)] True by (simp add: legal_squares_mine)
  next
    case False
    then have "p \<notin> set (influenced_pieces b2 ! player_of p)" using p(3) by simp
    then have n: "p \<notin> set (influenced_pieces b1 ! player_of p)" "p \<notin> set ps"
      "\<And>d. d \<in> set ds \<Longrightarrow> p \<notin> lookout (pos2piece b1) d"
      using b2(3) p(2) False by auto
    have "p \<notin> set (influenced_pieces b ! player_of p)" using n(1) fr(2) by (auto simp: growing_def)
    then have "row_exact b p" using b(3) p(1,2) by (simp add: masks_ok_def)
    moreover have "legal_squares b2 p = legal_squares b1 p" by (simp add: legal_squares_def O)
    ultimately show ?thesis
      using row_exact_cong[OF same(1,2)] squares_unseen[OF c b(1) n(2) p(1) n(3)] by simp
  qed
  moreover have "\<forall>g < 2. \<forall>i. 0 \<le> i \<longrightarrow> i < 5934 \<longrightarrow> (action_mask b2 ! g) i \<longrightarrow>
        map_of (action2piece b2 ! g) (i div 129) \<noteq> None"
    using b(3) same by (simp add: masks_ok_def)
  ultimately have "masks_ok b2" unfolding masks_ok_def by blast
  then show ?thesis using b2(1,2) by blast
qed

text \<open>Removals: every piece that disappeared is marked or named, then a full refresh is exact.\<close>

definition removal :: "board \<Rightarrow> board \<Rightarrow> piece set \<Rightarrow> bool" where
  "removal b b' P \<longleftrightarrow>
     frame b b' \<and> growing b b' \<and> placed b' \<and>
     dom (map_of (piece2pos b')) \<subseteq> dom (map_of (piece2pos b)) \<and>
     (\<forall>p. p \<in> dom (map_of (piece2pos b)) \<longrightarrow> p \<notin> dom (map_of (piece2pos b')) \<longrightarrow>
        p \<in> P \<or> p \<in> set (influenced_pieces b' ! player_of p))"

lemma update_mask_masks_ok:
  assumes b: "placed b" "rows_ok b" "masks_ok b" and c: "removal b b1 (set ps)"
  shows "\<exists>b2. update_mask ps b1 = Inr b2 \<and>
    b2 = b1\<lparr>action_mask := action_mask b2, influenced_pieces := map (\<lambda>_. []) (influenced_pieces b1)\<rparr> \<and>
    length (action_mask b2) = length (action_mask b1) \<and> masks_ok b2"
proof (rule update_mask_spec)
  have fr: "frame b b1" "growing b b1" "placed b1" using c by (auto simp: removal_def)
  then show "placed b1" "rows_ok b1" using frame_rows_ok b(2) by auto
  have same: "piece2action b1 = piece2action b" "action_mask b1 = action_mask b"
    "action2piece b1 = action2piece b" using fr by (simp_all add: frame_def growing_def)
  show "\<forall>g < 2. \<forall>i. 0 \<le> i \<longrightarrow> i < 5934 \<longrightarrow> (action_mask b1 ! g) i \<longrightarrow>
        map_of (action2piece b1 ! g) (i div 129) \<noteq> None"
    using b(3) same by (simp add: masks_ok_def)
  show "row_exact b1 p" if "role_of p \<noteq> 9" "player_of p < 4" "p \<notin> dom (map_of (piece2pos b1))"
    "p \<notin> set (influenced_pieces b1 ! player_of p)" "p \<notin> set ps" for p
  proof -
    have d: "p \<notin> dom (map_of (piece2pos b))" using that c by (auto simp: removal_def)
    have "p \<notin> set (influenced_pieces b ! player_of p)" using that(4) fr(2) by (auto simp: growing_def)
    then have "row_exact b p" using b(3) that by (simp add: masks_ok_def)
    moreover have "legal_squares b1 p = {}" "legal_squares b p = {}"
      using d that(3) by (auto simp: legal_squares_def squares_from_def domIff)
    ultimately show ?thesis using row_exact_cong[OF same(1,2)] by simp
  qed
  show "row_exact b1 p" if "role_of p = 0" for p
  proof (cases "map_of (piece2action b ! (player_of p mod 2)) p")
    case None
    then show ?thesis using same by (simp add: row_exact_def Let_def)
  next
    case (Some a)
    then have "player_of p < 4" using rows_okD(7)[OF b(2) _ Some] by simp
    then have "row_exact b p" using b(3) that by (simp add: masks_ok_def)
    then show ?thesis using row_exact_cong[OF same(1,2)] that by (simp add: legal_squares_mine)
  qed
qed

end
