(* ===== verification/Board_Game.thy ===== *)
theory Board_Game
  imports Board_Inv
begin

text \<open>
  What the methods of \<open>Board\<close> do to the hands of the players: \<open>pieces_count\<close> is the number of mobile
  pieces, a player without any is removed with all he has, and each of the five endings of \<open>update\<close>
  (a free square, a flag, a trade, a win, a loss) leaves a board that satisfies the invariant.
\<close>

section \<open>The hands of the players\<close>

definition mobile :: "(piece \<rightharpoonup> pos) \<Rightarrow> nat \<Rightarrow> piece set" where
  "mobile q pl = {p. player_of p = pl \<and> role_of p \<noteq> 0 \<and> role_of p \<noteq> 11 \<and>
     (\<exists>x. q p = Some x \<and> x \<notin> set HQ_SQUARES)}"

text \<open>
  \<open>count_ok b S pl\<close>: \<open>pieces_count\<close> of a living player is the number of his mobile pieces, except that
  the players in \<open>S\<close> have lost one that is still to be subtracted.
\<close>

definition count_ok :: "board \<Rightarrow> nat set \<Rightarrow> nat \<Rightarrow> bool" where
  "count_ok b S pl \<longleftrightarrow>
     (pl \<notin> set (dead_players b) \<longrightarrow>
        pieces_count b ! pl = int (card (mobile (map_of (piece2pos b)) pl)) + (if pl \<in> S then 1 else 0) \<and>
        (pl \<notin> S \<longrightarrow> 0 < card (mobile (map_of (piece2pos b)) pl)))"

definition lists_ok :: "board \<Rightarrow> bool" where
  "lists_ok b \<longleftrightarrow>
     length (pieces_count b) = 4 \<and> length (step_count b) = 4 \<and> length (flag_pos b) = 4 \<and>
     set (dead_players b) \<subseteq> {..<4} \<and> distinct (dead_players b) \<and>
     (\<forall>p \<in> dom (map_of (piece2pos b)). player_of p \<notin> set (dead_players b))"

definition hands_ok :: "board \<Rightarrow> nat set \<Rightarrow> bool" where
  "hands_ok b S \<longleftrightarrow> lists_ok b \<and> (\<forall>pl < 4. count_ok b S pl)"

definition game_inv :: "board \<Rightarrow> bool" where
  "game_inv b \<longleftrightarrow> placed b \<and> rows_ok b \<and> masks_ok b \<and> hands_ok b {}"

section \<open>Two inverse maps\<close>

definition inverse_maps :: "(piece \<rightharpoonup> pos) \<Rightarrow> (pos \<rightharpoonup> piece) \<Rightarrow> bool" where
  "inverse_maps Q M \<longleftrightarrow> (\<forall>p x. Q p = Some x \<longleftrightarrow> M x = Some p)"

lemma inverse_move:
  assumes "inverse_maps Q M" "Q p = Some x" "M c = None"
  shows "inverse_maps (Q(p \<mapsto> c)) ((M(x := None))(c \<mapsto> p))"
proof -
  have i: "Q q = Some y \<longleftrightarrow> M y = Some q" for q y using assms(1) by (simp add: inverse_maps_def)
  have "M x = Some p" using i assms(2) by simp
  then have "c \<noteq> x" using assms(3) by auto
  show ?thesis unfolding inverse_maps_def
  proof (intro allI)
    fix q y
    show "(Q(p \<mapsto> c)) q = Some y \<longleftrightarrow> ((M(x := None))(c \<mapsto> p)) y = Some q"
      using i[of q y] i[of q x] i[of q c] i[of p y] assms(2,3) \<open>c \<noteq> x\<close> by auto
  qed
qed

lemma inverse_drop:
  assumes "inverse_maps Q M" "Q p = Some x"
  shows "inverse_maps (Q(p := None)) (M(x := None))"
proof -
  have i: "Q q = Some y \<longleftrightarrow> M y = Some q" for q y using assms(1) by (simp add: inverse_maps_def)
  show ?thesis unfolding inverse_maps_def
  proof (intro allI)
    fix q y
    show "(Q(p := None)) q = Some y \<longleftrightarrow> (M(x := None)) y = Some q"
      using i[of q y] i[of q x] i[of p y] assms(2) by auto
  qed
qed

lemma inverse_take:
  assumes "inverse_maps Q M" "Q p = Some x" "M c = Some p1" "c \<noteq> x"
  shows "inverse_maps ((Q(p \<mapsto> c))(p1 := None)) ((M(x := None))(c \<mapsto> p))"
proof -
  have i: "Q q = Some y \<longleftrightarrow> M y = Some q" for q y using assms(1) by (simp add: inverse_maps_def)
  have Q1: "Q p1 = Some c" using i assms(3) by simp
  then have np: "p1 \<noteq> p" using assms(2,4) by auto
  have "inverse_maps (Q(p1 := None)) (M(c := None))" using inverse_drop[OF assms(1) Q1] .
  from inverse_move[OF this, of p x c] have "inverse_maps ((Q(p1 := None))(p \<mapsto> c)) ((M(c := None, x := None))(c \<mapsto> p))"
    using assms(2) np by simp
  then show ?thesis using np assms(4) by (simp add: fun_upd_twist)
qed

lemma placed_inverse: "placed b \<Longrightarrow> inverse_maps (map_of (piece2pos b)) (map_of (pos2piece b))"
  by (simp add: inverse_maps_def placed_def)

lemma placedI:
  assumes "placed b" "inverse_maps (map_of (piece2pos b')) (map_of (pos2piece b'))"
    "distinct (map fst (piece2pos b'))"
    "\<And>p y. map_of (piece2pos b') p = Some y \<Longrightarrow> player_of p < 4 \<and> role_of p \<le> 11 \<and> on_board y"
  shows "placed b'"
  using assms unfolding placed_def inverse_maps_def by blast

section \<open>The four changes of the board\<close>

text \<open>
  A piece moves, takes, falls, or falls together with the piece it attacks.  \<open>step_to b b' Q M\<close>: the
  board now holds the maps \<open>Q\<close> and \<open>M\<close>.
\<close>

definition step_to :: "board \<Rightarrow> board \<Rightarrow> (piece \<rightharpoonup> pos) \<Rightarrow> (pos \<rightharpoonup> piece) \<Rightarrow> bool" where
  "step_to b b' Q M \<longleftrightarrow>
     b' = b\<lparr>piece2pos := piece2pos b', pos2piece := pos2piece b'\<rparr> \<and> placed b' \<and>
     map_of (piece2pos b') = Q \<and> map_of (pos2piece b') = M"

lemma move_piece_spec:
  assumes b: "placed b" and p: "map_of (piece2pos b) p = Some x" and c: "map_of (pos2piece b) c = None" "on_board c"
  shows "\<exists>b'. move_piece p x c b = Inr b' \<and>
    step_to b b' ((map_of (piece2pos b))(p \<mapsto> c)) ((map_of (pos2piece b))(x := None, c \<mapsto> p))"
proof -
  let ?b = "b\<lparr>piece2pos := dset p c (piece2pos b), pos2piece := dset c p (AList.delete x (pos2piece b))\<rparr>"
  have m: "map_of (pos2piece b) x = Some p" using placedD(1)[OF b] p by blast
  have "placed ?b"
  proof (rule placedI[OF b])
    show "inverse_maps (map_of (piece2pos ?b)) (map_of (pos2piece ?b))"
      using inverse_move[OF placed_inverse[OF b] p c(1)] by simp
    show "player_of q < 4 \<and> role_of q \<le> 11 \<and> on_board y" if "map_of (piece2pos ?b) q = Some y" for q y
      using that placedD(3)[OF b, of q y] placedD(3)[OF b p] c(2) by (auto split: if_splits)
  qed (use placedD(2)[OF b] in simp)
  then show ?thesis using m by (intro exI[of _ ?b]) (simp add: move_piece_def step_to_def)
qed

lemma take_piece_spec:
  assumes b: "placed b" and p: "map_of (piece2pos b) p = Some x" and c: "map_of (pos2piece b) c = Some p1" "c \<noteq> x"
  shows "\<exists>b'. take_piece p x p1 c b = Inr b' \<and>
    step_to b b' ((map_of (piece2pos b))(p \<mapsto> c, p1 := None)) ((map_of (pos2piece b))(x := None, c \<mapsto> p))"
proof -
  let ?b = "b\<lparr>piece2pos := AList.delete p1 (dset p c (piece2pos b)),
    pos2piece := dset c p (AList.delete x (pos2piece b))\<rparr>"
  have m: "map_of (pos2piece b) x = Some p" and q: "map_of (piece2pos b) p1 = Some c"
    using placedD(1)[OF b] p c by blast+
  then have "p \<noteq> p1" using p c(2) by auto
  have "placed ?b"
  proof (rule placedI[OF b])
    show "inverse_maps (map_of (piece2pos ?b)) (map_of (pos2piece ?b))"
      using inverse_take[OF placed_inverse[OF b] p c] by simp
    show "player_of r < 4 \<and> role_of r \<le> 11 \<and> on_board y" if "map_of (piece2pos ?b) r = Some y" for r y
      using that placedD(3)[OF b, of r y] placedD(3)[OF b p] placedD(3)[OF b q] by (auto split: if_splits)
  qed (use placedD(2)[OF b] in simp)
  then show ?thesis using m q \<open>p \<noteq> p1\<close> by (intro exI[of _ ?b]) (simp add: take_piece_def step_to_def)
qed

lemma drop_piece_spec:
  assumes b: "placed b" and p: "map_of (piece2pos b) p = Some x"
  shows "\<exists>b'. drop_piece p x b = Inr b' \<and>
    step_to b b' ((map_of (piece2pos b))(p := None)) ((map_of (pos2piece b))(x := None))"
proof -
  let ?b = "b\<lparr>piece2pos := AList.delete p (piece2pos b), pos2piece := AList.delete x (pos2piece b)\<rparr>"
  have m: "map_of (pos2piece b) x = Some p" using placedD(1)[OF b] p by blast
  have "placed ?b"
  proof (rule placedI[OF b])
    show "inverse_maps (map_of (piece2pos ?b)) (map_of (pos2piece ?b))"
      using inverse_drop[OF placed_inverse[OF b] p] by simp
    show "player_of r < 4 \<and> role_of r \<le> 11 \<and> on_board y" if "map_of (piece2pos ?b) r = Some y" for r y
      using that placedD(3)[OF b, of r y] by (auto split: if_splits)
  qed (use placedD(2)[OF b] in simp)
  then show ?thesis using m p by (intro exI[of _ ?b]) (simp add: drop_piece_def step_to_def)
qed

lemma drop_both_spec:
  assumes b: "placed b" and p: "map_of (piece2pos b) p = Some x" and c: "map_of (pos2piece b) c = Some p1" "c \<noteq> x"
  shows "\<exists>b'. drop_both p x p1 c b = Inr b' \<and>
    step_to b b' ((map_of (piece2pos b))(p := None, p1 := None)) ((map_of (pos2piece b))(x := None, c := None))"
proof -
  let ?b = "b\<lparr>piece2pos := AList.delete p1 (AList.delete p (piece2pos b)),
    pos2piece := AList.delete c (AList.delete x (pos2piece b))\<rparr>"
  have m: "map_of (pos2piece b) x = Some p" and q: "map_of (piece2pos b) p1 = Some c"
    using placedD(1)[OF b] p c by blast+
  then have np: "p \<noteq> p1" using p c(2) by auto
  have "placed ?b"
  proof (rule placedI[OF b])
    have "inverse_maps ((map_of (piece2pos b))(p := None)) ((map_of (pos2piece b))(x := None))"
      using inverse_drop[OF placed_inverse[OF b] p] .
    from inverse_drop[OF this, of p1 c] show "inverse_maps (map_of (piece2pos ?b)) (map_of (pos2piece ?b))"
      using q np by simp
    show "player_of r < 4 \<and> role_of r \<le> 11 \<and> on_board y" if "map_of (piece2pos ?b) r = Some y" for r y
      using that placedD(3)[OF b, of r y] by (auto split: if_splits)
  qed (use placedD(2)[OF b] in simp)
  then show ?thesis using m q p np c by (intro exI[of _ ?b]) (simp add: drop_both_def step_to_def)
qed

section \<open>The death of a player\<close>

definition value_of :: "nat \<Rightarrow> real" where
  "value_of role = (case map_of reward_map role of None \<Rightarrow> 0 | Some r \<Rightarrow> r)"

lemma reward_total: "role \<le> 11 \<Longrightarrow> dget reward_map role = Inr (value_of role)"
  by (auto simp: reward_map_def value_of_def le_Suc_eq numeral_eq_Suc)

lemma reward_total' [simp]: "role \<le> 11 \<Longrightarrow> map_of reward_map role = Some (value_of role)"
  using reward_total by simp

text \<open>What the pieces of a player outside the headquarters are worth.\<close>

definition worth :: "board \<Rightarrow> piece \<Rightarrow> real" where
  "worth b p = (case map_of (piece2pos b) p of None \<Rightarrow> 0
     | Some x \<Rightarrow> if x \<in> set HQ_SQUARES then 0 else value_of (role_of p))"

definition hand_value :: "board \<Rightarrow> nat \<Rightarrow> real" where
  "hand_value b pl = (\<Sum>p\<leftarrow>filter (\<lambda>p. player_of p = pl) (map fst (piece2pos b)). worth b p)"

definition removed :: "board \<Rightarrow> board \<Rightarrow> piece set \<Rightarrow> bool" where
  "removed b b' P \<longleftrightarrow>
     b' = b\<lparr>piece2pos := piece2pos b', pos2piece := pos2piece b'\<rparr> \<and> placed b' \<and>
     (\<forall>p. map_of (piece2pos b') p = (if p \<in> P then None else map_of (piece2pos b) p))"

lemma remove_pieces_spec:
  assumes "placed b" "distinct ps" "\<And>p. p \<in> set ps \<Longrightarrow> p \<in> dom (map_of (piece2pos b))"
  shows "\<exists>b'. foldE remove_piece ps (r, b) = Inr (r + (\<Sum>p\<leftarrow>ps. worth b p), b') \<and> removed b b' (set ps)"
  using assms
proof (induction ps arbitrary: r b)
  case Nil
  then show ?case by (simp add: removed_def)
next
  case (Cons p ps)
  obtain x where x: "map_of (piece2pos b) p = Some x" using Cons.prems(3)[of p] by auto
  have m: "map_of (pos2piece b) x = Some p" using placedD(1)[OF Cons.prems(1)] x by blast
  have role: "role_of p \<le> 11" using placedD(3)[OF Cons.prems(1) x] by blast
  obtain b1 where b1: "drop_piece p x b = Inr b1"
    "step_to b b1 ((map_of (piece2pos b))(p := None)) ((map_of (pos2piece b))(x := None))"
    using drop_piece_spec[OF Cons.prems(1) x] by blast
  have b1e: "b1 = b\<lparr>piece2pos := AList.delete p (piece2pos b), pos2piece := AList.delete x (pos2piece b)\<rparr>"
    using b1(1) x m by (simp add: drop_piece_def)
  have r1: "remove_piece p (r, b) = Inr (r + worth b p, b1)"
    using x m role by (simp add: remove_piece_def b1e worth_def Let_def)
  have w: "worth b1 q = worth b q" if "q \<in> set ps" for q
    using that Cons.prems(2) b1(2) by (auto simp: worth_def step_to_def)
  have "placed b1" using b1(2) by (simp add: step_to_def)
  moreover have "q \<in> dom (map_of (piece2pos b1))" if "q \<in> set ps" for q
  proof -
    have "q \<noteq> p" using Cons.prems(2) that by auto
    then show ?thesis using b1(2) Cons.prems(3)[of q] that by (simp add: step_to_def domIff)
  qed
  ultimately obtain b2 where b2: "foldE remove_piece ps (r + worth b p, b1) = Inr (r + worth b p + (\<Sum>p\<leftarrow>ps. worth b1 p), b2)"
    "removed b1 b2 (set ps)" using Cons.IH[of b1 "r + worth b p"] Cons.prems(2) by auto
  have "(\<Sum>p\<leftarrow>ps. worth b1 p) = (\<Sum>p\<leftarrow>ps. worth b p)" using w by (simp cong: map_cong)
  then have "foldE remove_piece (p # ps) (r, b) = Inr (r + (\<Sum>p\<leftarrow>p # ps. worth b p), b2)"
    using b2(1) r1 by (simp add: add.assoc)
  moreover have "removed b b2 (set (p # ps))"
    using b2(2) b1(2) unfolding removed_def step_to_def by (cases b; cases b1; cases b2) auto
  ultimately show ?case by blast
qed

lemma update_dead_players_spec:
  assumes b: "placed b" "length (influenced_pieces b) = 4" and pl: "pl < 4"
  shows "\<exists>b'. update_dead_players pl b = Inr (hand_value b pl, b') \<and> placed b' \<and>
    frame b b' \<and> growing b b' \<and>
    (\<forall>p. map_of (piece2pos b') p = (if player_of p = pl then None else map_of (piece2pos b) p)) \<and>
    (\<forall>p \<in> dom (map_of (piece2pos b)). player_of p = pl \<longrightarrow> p \<in> set (influenced_pieces b' ! pl)) \<and>
    dead_players b' = set_add pl (dead_players b) \<and>
    step_count b' = step_count b \<and> pieces_count b' = pieces_count b"
proof -
  let ?ps = "filter (\<lambda>p. player_of p = pl) (map fst (piece2pos b))"
  have ps: "set ?ps = {p \<in> dom (map_of (piece2pos b)). player_of p = pl}"
    by (auto simp: dom_map_of_conv_image_fst)
  have "distinct ?ps" using placedD(2)[OF b(1)] by simp
  then obtain b1 where b1: "foldE remove_piece ?ps (0, b) = Inr (hand_value b pl, b1)" "removed b b1 (set ?ps)"
    using remove_pieces_spec[OF b(1), of ?ps 0] ps unfolding hand_value_def by auto
  let ?b = "b1\<lparr>dead_players := set_add pl (dead_players b1),
       influenced_pieces := (influenced_pieces b1)[pl := set_update (influenced_pieces b1 ! pl) ?ps]\<rparr>"
  have u: "update_dead_players pl b = Inr (hand_value b pl, ?b)"
    using b1(1) by (simp add: update_dead_players_def Let_def)
  obtain Q M where e: "b1 = b\<lparr>piece2pos := Q, pos2piece := M\<rparr>" using b1(2) by (auto simp: removed_def)
  have "placed ?b = placed b1" by (simp add: placed_def)
  then have "placed ?b" using b1(2) by (simp add: removed_def)
  moreover have "frame b ?b" by (simp add: frame_def e)
  moreover have "set (influenced_pieces b ! i) \<subseteq> set (influenced_pieces ?b ! i)" for i
    using b(2) pl by (cases "i = pl") (simp_all add: e)
  then have "growing b ?b" by (simp add: growing_def e)
  moreover have "map_of (piece2pos ?b) p = (if player_of p = pl then None else map_of (piece2pos b) p)" for p
    using b1(2) unfolding removed_def ps by (auto simp: domIff)
  moreover have "p \<in> set (influenced_pieces ?b ! pl)" if "p \<in> dom (map_of (piece2pos b))" "player_of p = pl" for p
    using that ps b(2) pl by (simp add: e)
  ultimately show ?thesis using u by (intro exI[of _ ?b]) (simp add: e)
qed

section \<open>Losing a piece\<close>

lemma finite_mobile: "finite (mobile (map_of q) pl)"
  by (rule finite_subset[of _ "dom (map_of q)"]) (auto simp: mobile_def finite_dom_map_of)

lemma mobile_other:
  assumes "\<And>p. player_of p = pl \<Longrightarrow> Q' p = Q p"
  shows "mobile Q' pl = mobile Q pl"
  using assms by (auto simp: mobile_def)

text \<open>
  What the handlers need to know of the state between two of their steps, relative to the board \<open>b\<close>
  before the move: \<open>P\<close> are the pieces taken off so far and \<open>S\<close> the players with a piece to subtract.
\<close>

definition midway :: "board \<Rightarrow> board \<Rightarrow> piece set \<Rightarrow> nat set \<Rightarrow> bool" where
  "midway b b1 P S \<longleftrightarrow> removal b b1 P \<and> hands_ok b1 S \<and> length (influenced_pieces b1) = 4"

lemma update_dead_midway:
  assumes m: "removal b b1 P" "length (influenced_pieces b1) = 4" "lists_ok b1"
      "\<And>i. i < 4 \<Longrightarrow> i \<noteq> pl \<Longrightarrow> count_ok b1 S i"
    and pl: "pl < 4" "pl \<notin> set (dead_players b1)"
  shows "\<exists>b2. update_dead_players pl b1 = Inr (hand_value b1 pl, b2) \<and> midway b b2 P (S - {pl}) \<and>
    dead_players b2 = dead_players b1 @ [pl] \<and> flag_pos b2 = flag_pos b1 \<and>
    (\<forall>p. map_of (piece2pos b2) p = (if player_of p = pl then None else map_of (piece2pos b1) p))"
proof -
  have b1: "placed b1" using m by (auto simp: removal_def)
  obtain b2 where b2: "update_dead_players pl b1 = Inr (hand_value b1 pl, b2)" "placed b2" "frame b1 b2"
    "growing b1 b2"
    "\<And>p. map_of (piece2pos b2) p = (if player_of p = pl then None else map_of (piece2pos b1) p)"
    "\<And>p. p \<in> dom (map_of (piece2pos b1)) \<Longrightarrow> player_of p = pl \<Longrightarrow> p \<in> set (influenced_pieces b2 ! pl)"
    "dead_players b2 = set_add pl (dead_players b1)" "step_count b2 = step_count b1"
    "pieces_count b2 = pieces_count b1"
    using update_dead_players_spec[OF b1 m(2) pl(1)] by blast
  have d: "dead_players b2 = dead_players b1 @ [pl]" using pl(2) b2(7) by (simp add: set_add_def)
  have sub: "dom (map_of (piece2pos b2)) \<subseteq> dom (map_of (piece2pos b1))"
  proof
    fix p assume "p \<in> dom (map_of (piece2pos b2))"
    then have "map_of (piece2pos b2) p \<noteq> None" by blast
    then show "p \<in> dom (map_of (piece2pos b1))" using b2(5)[of p] by (simp add: domIff split: if_splits)
  qed
  have "removal b b2 P"
    unfolding removal_def
  proof (intro conjI allI impI)
    show "frame b b2" "growing b b2" using m(1) b2(3,4) frame_trans growing_trans by (auto simp: removal_def)
    show "dom (map_of (piece2pos b2)) \<subseteq> dom (map_of (piece2pos b))"
      using m(1) sub by (auto simp: removal_def)
    show "p \<in> P \<or> p \<in> set (influenced_pieces b2 ! player_of p)"
      if "p \<in> dom (map_of (piece2pos b))" "p \<notin> dom (map_of (piece2pos b2))" for p
    proof (cases "p \<in> dom (map_of (piece2pos b1))")
      case True
      then have "player_of p = pl" using that(2) b2(5)[of p] by (auto split: if_splits)
      then show ?thesis using b2(6)[OF True] by simp
    next
      case False
      then have "p \<in> P \<or> p \<in> set (influenced_pieces b1 ! player_of p)"
        using m(1) that(1) by (auto simp: removal_def)
      then show ?thesis using b2(4) by (auto simp: growing_def)
    qed
  qed (rule b2(2))
  moreover have mob: "mobile (map_of (piece2pos b2)) i = mobile (map_of (piece2pos b1)) i" if "i \<noteq> pl" for i
    by (rule mobile_other) (use b2(5) that in auto)
  have "count_ok b2 (S - {pl}) i" if "i < 4" for i
    using m(4)[OF that] mob[of i] by (cases "i = pl") (auto simp: count_ok_def d b2(9))
  moreover have "lists_ok b2"
  proof -
    have "player_of p \<notin> set (dead_players b2)" if "p \<in> dom (map_of (piece2pos b2))" for p
      using that sub m(3) b2(5)[of p] by (auto simp: lists_ok_def d split: if_splits)
    then show ?thesis using m(3) pl b2(3) by (simp add: lists_ok_def d frame_def)
  qed
  moreover have "length (influenced_pieces b2) = 4" using m(2) b2(3) by (simp add: frame_def)
  moreover have "flag_pos b2 = flag_pos b1" using b2(3) by (simp add: frame_def)
  ultimately show ?thesis using b2(1,5) d unfolding midway_def hands_ok_def by blast
qed

text \<open>The count is lowered; at zero the player dies and his hand is added to the reward.\<close>

lemma lose_piece_midway:
  assumes m: "midway b b1 P S" and pl: "pl < 4" "pl \<notin> set (dead_players b1)" "pl \<in> S"
  shows "\<exists>r' dead' b2. lose_piece sign pl (r, dead, b1) = Inr (r', dead', b2) \<and> midway b b2 P (S - {pl}) \<and>
    flag_pos b2 = flag_pos b1 \<and>
    (if card (mobile (map_of (piece2pos b1)) pl) = 0
     then dead' = dead @ [pl] \<and> dead_players b2 = dead_players b1 @ [pl] \<and> r' = r + sign * hand_value b1 pl \<and>
       (\<forall>p. map_of (piece2pos b2) p = (if player_of p = pl then None else map_of (piece2pos b1) p))
     else dead' = dead \<and> dead_players b2 = dead_players b1 \<and> r' = r \<and>
       b2 = b1\<lparr>pieces_count := pieces_count b2\<rparr>)"
proof -
  let ?c = "card (mobile (map_of (piece2pos b1)) pl)"
  let ?b = "b1\<lparr>pieces_count := (pieces_count b1)[pl := pieces_count b1 ! pl - 1]\<rparr>"
  have h: "lists_ok b1" "\<And>i. i < 4 \<Longrightarrow> count_ok b1 S i" using m by (auto simp: midway_def hands_ok_def)
  then have cnt: "pieces_count b1 ! pl = int ?c + 1" using pl by (auto simp: count_ok_def)
  have len: "length (pieces_count b1) = 4" using h by (simp add: lists_ok_def)
  have c0: "pieces_count ?b ! pl = int ?c" using cnt len pl(1) by simp
  have rm: "removal b ?b P"
    using m by (simp add: midway_def removal_def frame_def growing_def placed_def)
  have hv: "hand_value ?b pl = hand_value b1 pl" by (simp add: hand_value_def worth_def)
  have lb: "lists_ok ?b" using h(1) by (simp add: lists_ok_def)
  have cb: "count_ok ?b S i" if "i < 4" "i \<noteq> pl" for i
    using h(2)[OF that(1)] that by (simp add: count_ok_def)
  have il: "length (influenced_pieces ?b) = 4" using m by (simp add: midway_def)
  show ?thesis
  proof (cases "?c = 0")
    case True
    have pl': "pl \<notin> set (dead_players ?b)" using pl by simp
    obtain b2 where b2: "update_dead_players pl ?b = Inr (hand_value ?b pl, b2)" "midway b b2 P (S - {pl})"
      "dead_players b2 = dead_players ?b @ [pl]" "flag_pos b2 = flag_pos ?b"
      "\<forall>p. map_of (piece2pos b2) p = (if player_of p = pl then None else map_of (piece2pos ?b) p)"
      using update_dead_midway[OF rm il lb cb pl(1) pl'] by blast
    have "lose_piece sign pl (r, dead, b1) = Inr (r + sign * hand_value b1 pl, dead @ [pl], b2)"
      using True c0 b2(1) hv by (simp add: lose_piece_def Let_def)
    then show ?thesis using True b2(2-5) by simp
  next
    case False
    have "count_ok ?b (S - {pl}) i" if "i < 4" for i
      using cb[OF that] that False c0 by (cases "i = pl") (auto simp: count_ok_def)
    then have "midway b ?b P (S - {pl})" using rm lb il by (simp add: midway_def hands_ok_def)
    moreover have "lose_piece sign pl (r, dead, b1) = Inr (r, dead, ?b)"
      using False c0 by (simp add: lose_piece_def Let_def)
    ultimately show ?thesis using False by simp
  qed
qed

section \<open>Between the steps of a move\<close>

text \<open>
  \<open>after b b1 Q P S dead\<close>: starting from \<open>b\<close>, the pieces stand as in \<open>Q\<close> except that the hands of the
  players \<open>dead\<close> have been removed.
\<close>

definition after :: "board \<Rightarrow> board \<Rightarrow> (piece \<rightharpoonup> pos) \<Rightarrow> piece set \<Rightarrow> nat set \<Rightarrow> nat list \<Rightarrow> bool" where
  "after b b1 Q P S dead \<longleftrightarrow>
     midway b b1 P S \<and> dead_players b1 = dead_players b @ dead \<and> flag_pos b1 = flag_pos b \<and>
     (\<forall>p. map_of (piece2pos b1) p = (if player_of p \<in> set dead then None else Q p))"

lemma lose_piece_after:
  assumes a: "after b b1 Q P S dead" and pl: "pl < 4" "pl \<notin> set (dead_players b1)" "pl \<in> S"
  shows "\<exists>r' d b2. lose_piece sign pl (r, dead, b1) = Inr (r', dead @ d, b2) \<and>
    after b b2 Q P (S - {pl}) (dead @ d) \<and>
    (if mobile Q pl = {} then d = [pl]
     else d = [] \<and> r' = r \<and> b2 = b1\<lparr>pieces_count := pieces_count b2\<rparr>)"
proof -
  have nd: "pl \<notin> set dead" using a pl(2) by (simp add: after_def)
  have mob: "mobile (map_of (piece2pos b1)) pl = mobile Q pl"
    by (rule mobile_other) (use a nd in \<open>auto simp: after_def\<close>)
  have c0: "card (mobile (map_of (piece2pos b1)) pl) = 0 \<longleftrightarrow> mobile Q pl = {}"
    unfolding mob[symmetric] using finite_mobile by simp
  have m: "midway b b1 P S" using a by (simp add: after_def)
  obtain r' dead' b2 where L: "lose_piece sign pl (r, dead, b1) = Inr (r', dead', b2)" "midway b b2 P (S - {pl})"
    "flag_pos b2 = flag_pos b1"
    "if card (mobile (map_of (piece2pos b1)) pl) = 0
     then dead' = dead @ [pl] \<and> dead_players b2 = dead_players b1 @ [pl] \<and> r' = r + sign * hand_value b1 pl \<and>
       (\<forall>p. map_of (piece2pos b2) p = (if player_of p = pl then None else map_of (piece2pos b1) p))
     else dead' = dead \<and> dead_players b2 = dead_players b1 \<and> r' = r \<and>
       b2 = b1\<lparr>pieces_count := pieces_count b2\<rparr>"
    using lose_piece_midway[OF m pl, of sign r dead] by blast
  show ?thesis
  proof (cases "mobile Q pl = {}")
    case True
    then have d: "dead' = dead @ [pl]" "dead_players b2 = dead_players b1 @ [pl]"
       "\<And>p. map_of (piece2pos b2) p = (if player_of p = pl then None else map_of (piece2pos b1) p)"
      using L(4) c0 by auto
    have "after b b2 Q P (S - {pl}) (dead @ [pl])"
      using a L(2,3) d(2,3) by (auto simp: after_def)
    then show ?thesis using L(1) d(1) True by (intro exI[of _ r'] exI[of _ "[pl]"] exI[of _ b2]) simp
  next
    case False
    then have d: "dead' = dead" "dead_players b2 = dead_players b1" "r' = r"
       "b2 = b1\<lparr>pieces_count := pieces_count b2\<rparr>"
      using L(4) c0 by auto
    have "piece2pos b2 = piece2pos b1" using d(4) by (cases b1; cases b2) simp
    then have "after b b2 Q P (S - {pl}) dead" using a L(2,3) d(2) by (simp add: after_def)
    moreover have "lose_piece sign pl (r, dead, b1) = Inr (r, dead @ [], b2)" using L(1) d(1,3) by simp
    ultimately show ?thesis using d(4) False by (intro exI[of _ r] exI[of _ "[]"] exI[of _ b2]) simp
  qed
qed

lemma update_dead_after:
  assumes a: "after b b1 Q P S dead" and pl: "pl < 4" "pl \<notin> set (dead_players b1)"
  shows "\<exists>b2. update_dead_players pl b1 = Inr (hand_value b1 pl, b2) \<and> after b b2 Q P (S - {pl}) (dead @ [pl])"
proof -
  have m: "removal b b1 P" "length (influenced_pieces b1) = 4" "lists_ok b1"
    "\<And>i. i < 4 \<Longrightarrow> i \<noteq> pl \<Longrightarrow> count_ok b1 S i"
    using a by (auto simp: after_def midway_def hands_ok_def)
  obtain b2 where b2: "update_dead_players pl b1 = Inr (hand_value b1 pl, b2)" "midway b b2 P (S - {pl})"
    "dead_players b2 = dead_players b1 @ [pl]" "flag_pos b2 = flag_pos b1"
    "\<forall>p. map_of (piece2pos b2) p = (if player_of p = pl then None else map_of (piece2pos b1) p)"
    using update_dead_midway[OF m pl] by blast
  then show ?thesis using a by (intro exI[of _ b2]) (auto simp: after_def)
qed

text \<open>The two ways a move ends: marking what may have changed, or refreshing every row.\<close>

definition ended :: "board \<Rightarrow> board \<Rightarrow> (piece \<rightharpoonup> pos) \<Rightarrow> nat list \<Rightarrow> bool" where
  "ended b b' Q dead \<longleftrightarrow>
     game_inv b' \<and> frame b b' \<and> dead_players b' = dead_players b @ dead \<and>
     (\<forall>p. map_of (piece2pos b') p = (if player_of p \<in> set dead then None else Q p))"

lemma hands_ok_cong:
  "piece2pos b' = piece2pos b \<Longrightarrow> dead_players b' = dead_players b \<Longrightarrow> pieces_count b' = pieces_count b \<Longrightarrow>
     step_count b' = step_count b \<Longrightarrow> flag_pos b' = flag_pos b \<Longrightarrow> hands_ok b' S = hands_ok b S"
  by (simp add: hands_ok_def lists_ok_def count_ok_def)

lemma placed_cong: "piece2pos b' = piece2pos b \<Longrightarrow> pos2piece b' = pos2piece b \<Longrightarrow> placed b' = placed b"
  by (simp add: placed_def)

lemma finish_refresh:
  assumes g: "game_inv b" and a: "after b b1 Q (set ps) {} dead"
  shows "\<exists>b2. update_mask ps b1 = Inr b2 \<and> ended b b2 Q dead"
proof -
  have r: "removal b b1 (set ps)" "hands_ok b1 {}" using a by (auto simp: after_def midway_def)
  obtain b2 where b2: "update_mask ps b1 = Inr b2"
    "b2 = b1\<lparr>action_mask := action_mask b2, influenced_pieces := map (\<lambda>_. []) (influenced_pieces b1)\<rparr>"
    "length (action_mask b2) = length (action_mask b1)" "masks_ok b2"
    using update_mask_masks_ok[OF _ _ _ r(1)] g unfolding game_inv_def by blast
  have e: "piece2pos b2 = piece2pos b1" "pos2piece b2 = pos2piece b1" "dead_players b2 = dead_players b1"
    "pieces_count b2 = pieces_count b1" "step_count b2 = step_count b1" "flag_pos b2 = flag_pos b1"
    by (subst b2(2), simp)+
  have "frame b1 b2" unfolding frame_def by (subst b2(2), simp add: b2(3))+
  then have f: "frame b b2" using r(1) frame_trans by (auto simp: removal_def)
  have "placed b2" using placed_cong[OF e(1,2)] r(1) by (simp add: removal_def)
  moreover have "hands_ok b2 {}" using hands_ok_cong[OF e(1,3,4,5,6)] r(2) by simp
  moreover have "rows_ok b2" using frame_rows_ok[OF f] g by (simp add: game_inv_def)
  ultimately show ?thesis using b2(1,4) f a by (auto simp: ended_def game_inv_def after_def e)
qed

lemma finish_mark:
  assumes g: "game_inv b" and a: "after b b1 Q P {} []" and c: "local_change b b1 (set ps) (set ds)"
    and ps: "\<And>q. q \<in> set ps \<Longrightarrow> player_of q < 4"
  shows "\<exists>b2. update_influenced_pieces ps ds b1 = Inr b2 \<and> ended b b2 Q []"
proof -
  have r: "removal b b1 P" "hands_ok b1 {}" using a by (auto simp: after_def midway_def)
  obtain b2 where b2: "update_influenced_pieces ps ds b1 = Inr b2" "only_influence b1 b2" "masks_ok b2"
    using influenced_masks_ok[OF _ _ _ c ps] g unfolding game_inv_def by blast
  note O = only_influenceD[OF b2(2)]
  have "frame b1 b2" by (simp add: frame_def O)
  then have f: "frame b b2" using r(1) frame_trans by (auto simp: removal_def)
  have "placed b2" using placed_cong[OF O(3,2)] r(1) by (simp add: removal_def)
  moreover have "hands_ok b2 {}" using hands_ok_cong[OF O(3,8,10,9,11)] r(2) by simp
  moreover have "rows_ok b2" using frame_rows_ok[OF f] g by (simp add: game_inv_def)
  ultimately show ?thesis using b2(1,3) f a by (auto simp: ended_def game_inv_def after_def O)
qed

text \<open>After one of the four changes.\<close>

lemma step_to_fields:
  assumes "step_to b b1 Q M"
  shows "frame b b1" "growing b b1" "dead_players b1 = dead_players b" "pieces_count b1 = pieces_count b"
    "step_count b1 = step_count b" "flag_pos b1 = flag_pos b" "influenced_pieces b1 = influenced_pieces b"
    "placed b1" "map_of (piece2pos b1) = Q" "map_of (pos2piece b1) = M"
proof -
  obtain q m where e: "b1 = b\<lparr>piece2pos := q, pos2piece := m\<rparr>" using assms by (auto simp: step_to_def)
  show "frame b b1" "growing b b1" "dead_players b1 = dead_players b" "pieces_count b1 = pieces_count b"
    "step_count b1 = step_count b" "flag_pos b1 = flag_pos b" "influenced_pieces b1 = influenced_pieces b"
    by (simp_all add: frame_def growing_def e)
  show "placed b1" "map_of (piece2pos b1) = Q" "map_of (pos2piece b1) = M" using assms by (auto simp: step_to_def)
qed

lemma step_to_local:
  assumes "step_to b b1 Q M" "\<And>x. x \<notin> D \<Longrightarrow> M x = map_of (pos2piece b) x"
    "\<And>p. p \<notin> P \<Longrightarrow> Q p = map_of (piece2pos b) p" "\<And>d p. d \<in> D \<Longrightarrow> M d = Some p \<Longrightarrow> p \<in> P"
    "dom Q \<subseteq> dom (map_of (piece2pos b))"
  shows "local_change b b1 P D"
  using assms step_to_fields[OF assms(1)] by (auto simp: local_change_def)

lemma local_counts:
  "local_change b b1 P D \<Longrightarrow> b2 = b1\<lparr>pieces_count := pieces_count b2\<rparr> \<Longrightarrow>
     length (pieces_count b2) = length (pieces_count b1) \<Longrightarrow> local_change b b2 P D"
  unfolding local_change_def frame_def growing_def placed_def
  by (cases b1; cases b2) simp

lemma step_to_after:
  assumes g: "game_inv b" and s: "step_to b b1 Q M"
    and dom: "dom Q \<subseteq> dom (map_of (piece2pos b))" "\<And>p. p \<notin> P \<Longrightarrow> p \<in> dom (map_of (piece2pos b)) \<Longrightarrow> p \<in> dom Q"
    and mob: "\<And>pl. pl < 4 \<Longrightarrow> pl \<notin> S \<Longrightarrow> mobile Q pl = mobile (map_of (piece2pos b)) pl"
      "\<And>pl. pl \<in> S \<Longrightarrow> \<exists>q \<in> mobile (map_of (piece2pos b)) pl. mobile Q pl = mobile (map_of (piece2pos b)) pl - {q}"
  shows "after b b1 Q P S []"
proof -
  note F = step_to_fields[OF s]
  have rm: "removal b b1 P" unfolding removal_def F(9)
    using F(1,2,8) dom by (intro conjI allI impI) (assumption | blast)+
  have h: "lists_ok b" "\<And>i. i < 4 \<Longrightarrow> count_ok b {} i" "length (influenced_pieces b) = 4"
    using g by (auto simp: game_inv_def hands_ok_def rows_ok_def)
  have lo: "lists_ok b1" using h(1) F dom(1) by (auto simp: lists_ok_def)
  have "count_ok b1 S i" if "i < 4" for i
  proof (cases "i \<in> S")
    case True
    from mob(2)[OF True] obtain q where q: "q \<in> mobile (map_of (piece2pos b)) i"
      "mobile Q i = mobile (map_of (piece2pos b)) i - {q}" by blast
    have "card (mobile (map_of (piece2pos b)) i) = Suc (card (mobile Q i))"
      unfolding q(2) using q(1) finite_mobile by (metis card.remove)
    then show ?thesis using h(2)[OF that] True by (simp add: count_ok_def F)
  next
    case False
    then show ?thesis using h(2)[OF that] mob(1)[OF that] by (simp add: count_ok_def F)
  qed
  then show ?thesis using rm lo h(3) by (simp add: after_def midway_def hands_ok_def F)
qed

section \<open>The handlers of a move\<close>

lemma mobile_move: "p \<in> mobile Q (player_of p) \<Longrightarrow> c \<notin> set HQ_SQUARES \<Longrightarrow> mobile (Q(p \<mapsto> c)) pl = mobile Q pl"
  by (auto simp: mobile_def)

lemma mobile_enter: "c \<in> set HQ_SQUARES \<Longrightarrow> mobile (Q(p \<mapsto> c)) pl = mobile Q pl - {p}"
  by (auto simp: mobile_def)

lemma mobile_drop: "mobile (Q(p := None)) pl = mobile Q pl - {p}"
  by (auto simp: mobile_def)

lemma mobile_player: "q \<in> mobile Q pl \<Longrightarrow> player_of q = pl"
  by (simp add: mobile_def)

lemma mobile_diff: "player_of q \<noteq> pl \<or> q \<notin> mobile Q pl \<Longrightarrow> mobile Q pl - {q} = mobile Q pl"
  by (auto simp: mobile_def)

text \<open>A legal move of \<open>p\<close> from \<open>x\<close> to \<open>c\<close> by a living player.\<close>

definition legal_move :: "board \<Rightarrow> nat \<Rightarrow> piece \<Rightarrow> pos \<Rightarrow> pos \<Rightarrow> bool" where
  "legal_move b player p x c \<longleftrightarrow>
     game_inv b \<and> player < 4 \<and> player \<notin> set (dead_players b) \<and> player_of p = player \<and> role_of p \<noteq> 11 \<and>
     map_of (piece2pos b) p = Some x \<and> c \<in> legal_squares b p"

lemma legal_moveD:
  assumes "legal_move b player p x c"
  shows "game_inv b" "placed b" "player < 4" "player \<notin> set (dead_players b)" "player_of p = player"
    "role_of p \<noteq> 11" "role_of p \<noteq> 0" "role_of p \<le> 11" "map_of (piece2pos b) p = Some x"
    "map_of (pos2piece b) x = Some p" "c \<noteq> x" "x \<notin> set HQ_SQUARES" "on_board c"
    "p \<in> mobile (map_of (piece2pos b)) player"
proof -
  show g: "game_inv b" "player < 4" "player \<notin> set (dead_players b)" "player_of p = player"
    "role_of p \<noteq> 11" and x: "map_of (piece2pos b) p = Some x" using assms by (auto simp: legal_move_def)
  then show b: "placed b" by (simp add: game_inv_def)
  have c: "c \<in> legal_squares b p" using assms by (simp add: legal_move_def)
  show r: "role_of p \<noteq> 0" using c by (rule legal_squares_alive)
  show "map_of (pos2piece b) x = Some p" using placedD(1)[OF b] x by blast
  show "c \<noteq> x" and hq: "x \<notin> set HQ_SQUARES" and "on_board c" using legal_squares_facts[OF b c x] by auto
  show "role_of p \<le> 11" using placedD(3)[OF b x] by simp
  show "p \<in> mobile (map_of (piece2pos b)) player" using g x r hq by (simp add: mobile_def)
qed

lemma legal_move_target:
  assumes l: "legal_move b player p x c" and q: "map_of (pos2piece b) c = Some q"
  shows "player_of q \<noteq> player" "player_of q < 4" "player_of q \<notin> set (dead_players b)" "role_of q \<le> 11"
    "map_of (piece2pos b) q = Some c" "q \<noteq> p" "enemy p q"
proof -
  note L = legal_moveD[OF l]
  have c: "c \<in> legal_squares b p" using l by (simp add: legal_move_def)
  show e: "enemy p q" using legal_squares_facts(4)[OF L(2) c L(9) q] .
  then show "player_of q \<noteq> player" using L(5) by (auto simp: enemy_def)
  show m: "map_of (piece2pos b) q = Some c" using placedD(1)[OF L(2)] q by blast
  show "player_of q < 4" "role_of q \<le> 11" using placedD(3)[OF L(2) m] by auto
  show "q \<noteq> p" using e by auto
  show "player_of q \<notin> set (dead_players b)"
    using L(1) m by (auto simp: game_inv_def hands_ok_def lists_ok_def)
qed

lemma after_lengths: "after b b1 Q P S dead \<Longrightarrow> length (pieces_count b1) = 4 \<and> flag_pos b1 = flag_pos b"
  by (auto simp: after_def midway_def hands_ok_def lists_ok_def)

lemma after_dead: "after b b1 Q P S dead \<Longrightarrow> dead_players b1 = dead_players b @ dead"
  by (simp add: after_def)

lemma update_empty_spec:
  assumes l: "legal_move b player p x c" and e: "map_of (pos2piece b) c = None"
  defines "Q \<equiv> (map_of (piece2pos b))(p \<mapsto> c)"
  shows "\<exists>dead r b'. update_empty player p x c path b = Inr ((0, path, [], dead, r), b') \<and> ended b b' Q dead \<and>
    (if c \<in> set HQ_SQUARES \<and> mobile Q player = {} then dead = [player]
     else dead = [] \<and> r = (if c \<in> set HQ_SQUARES then - value_of (role_of p) else 0))"
proof -
  note L = legal_moveD[OF l]
  obtain b1 where b1: "move_piece p x c b = Inr b1" and s: "step_to b b1 Q ((map_of (pos2piece b))(x := None, c \<mapsto> p))"
    using move_piece_spec[OF L(2,9) e L(13)] unfolding Q_def by blast
  have loc: "local_change b b1 (set [p]) (set [x, c])"
    by (rule step_to_local[OF s]) (use L(9) in \<open>auto simp: Q_def split: if_splits\<close>)
  have dom: "dom Q \<subseteq> dom (map_of (piece2pos b))" "\<And>q. q \<in> dom (map_of (piece2pos b)) \<Longrightarrow> q \<in> dom Q"
    using L(9) by (auto simp: Q_def)
  have pl: "player_of q < 4" if "q \<in> set [p]" for q using that L(3,5) by simp
  show ?thesis
  proof (cases "c \<in> set HQ_SQUARES")
    case False
    have "after b b1 Q {} {} []"
      by (rule step_to_after[OF L(1) s dom]) (use L(5,14) False in \<open>auto simp: Q_def mobile_move\<close>)
    from finish_mark[OF L(1) this loc pl] obtain b2 where
      "update_influenced_pieces [p] [x, c] b1 = Inr b2" "ended b b2 Q []" by blast
    then show ?thesis using b1 False by (simp add: update_empty_def)
  next
    case True
    have mob: "mobile Q i = mobile (map_of (piece2pos b)) i - {p}" for i using True by (simp add: Q_def mobile_enter)
    have a: "after b b1 Q {} {player} []"
    proof (rule step_to_after[OF L(1) s dom])
      show "mobile Q i = mobile (map_of (piece2pos b)) i" if "i \<notin> {player}" for i
        using that mob L(5) by (auto simp: mobile_def)
      show "\<exists>q \<in> mobile (map_of (piece2pos b)) i. mobile Q i = mobile (map_of (piece2pos b)) i - {q}"
        if "i \<in> {player}" for i using that mob L(14) by auto
    qed
    have nd: "player \<notin> set (dead_players b1)" using after_dead[OF a] L(4) by simp
    obtain r' d b2 where lp: "lose_piece (- 1) player (- value_of (role_of p), [], b1) = Inr (r', [] @ d, b2)"
      "after b b2 Q {} ({player} - {player}) ([] @ d)"
      "if mobile Q player = {} then d = [player]
       else d = [] \<and> r' = - value_of (role_of p) \<and> b2 = b1\<lparr>pieces_count := pieces_count b2\<rparr>"
      using lose_piece_after[OF a L(3) nd, of "- 1" "- value_of (role_of p)"] by blast
    have lp': "lose_piece (- 1) player (- value_of (role_of p), [], b1) = Inr (r', d, b2)"
      "after b b2 Q {} {} d" using lp(1,2) by simp_all
    show ?thesis
    proof (cases "mobile Q player = {}")
      case empty: True
      then have d: "d = [player]" using lp(3) by simp
      from finish_refresh[OF L(1), of b2 Q "[]" d] lp'(2) obtain b3 where
        "update_mask [] b2 = Inr b3" "ended b b3 Q d" by auto
      then show ?thesis using b1 True lp' d L(8) empty by (simp add: update_empty_def)
    next
      case False
      then have d: "d = []" "r' = - value_of (role_of p)" "b2 = b1\<lparr>pieces_count := pieces_count b2\<rparr>"
        using lp(3) by auto
      have "local_change b b2 (set [p]) (set [x, c])"
        using local_counts[OF loc d(3)] after_lengths[OF a] after_lengths[OF lp'(2)] by simp
      from finish_mark[OF L(1) lp'(2)[unfolded d(1)] this pl] obtain b3 where
        "update_influenced_pieces [p] [x, c] b2 = Inr b3" "ended b b3 Q []" by blast
      then show ?thesis using b1 True lp' d(1,2) L(8) False by (simp add: update_empty_def)
    qed
  qed
qed

lemma update_loss_spec:
  assumes l: "legal_move b player p x c"
  defines "Q \<equiv> (map_of (piece2pos b))(p := None)"
  shows "\<exists>dead r b'. update_loss player p x path b =
      Inr ((2, path, if role_of p = 1 \<and> player \<notin> set dead then [flag_pos b ! player] else [], dead, r), b') \<and>
    ended b b' Q dead \<and>
    (if mobile Q player = {} then dead = [player] else dead = [] \<and> r = - value_of (role_of p))"
proof -
  note L = legal_moveD[OF l]
  obtain b1 where b1: "drop_piece p x b = Inr b1" and s: "step_to b b1 Q ((map_of (pos2piece b))(x := None))"
    using drop_piece_spec[OF L(2,9)] unfolding Q_def by blast
  have loc: "local_change b b1 (set [p]) (set [x])"
    by (rule step_to_local[OF s]) (auto simp: Q_def split: if_splits)
  have dom: "dom Q \<subseteq> dom (map_of (piece2pos b))" "\<And>q. q \<notin> {p} \<Longrightarrow> q \<in> dom (map_of (piece2pos b)) \<Longrightarrow> q \<in> dom Q"
    by (auto simp: Q_def)
  have pl: "player_of q < 4" if "q \<in> set [p]" for q using that L(3,5) by simp
  have mob: "mobile Q i = mobile (map_of (piece2pos b)) i - {p}" for i by (simp add: Q_def mobile_drop)
  have a: "after b b1 Q {p} {player} []"
  proof (rule step_to_after[OF L(1) s dom])
    show "mobile Q i = mobile (map_of (piece2pos b)) i" if "i \<notin> {player}" for i
      using that mob L(5) by (auto simp: mobile_def)
    show "\<exists>q \<in> mobile (map_of (piece2pos b)) i. mobile Q i = mobile (map_of (piece2pos b)) i - {q}"
      if "i \<in> {player}" for i using that mob L(14) by auto
  qed
  have nd: "player \<notin> set (dead_players b1)" using after_dead[OF a] L(4) by simp
  obtain r' d b2 where lp: "lose_piece (- 1) player (- value_of (role_of p), [], b1) = Inr (r', [] @ d, b2)"
    "after b b2 Q {p} ({player} - {player}) ([] @ d)"
    "if mobile Q player = {} then d = [player]
     else d = [] \<and> r' = - value_of (role_of p) \<and> b2 = b1\<lparr>pieces_count := pieces_count b2\<rparr>"
    using lose_piece_after[OF a L(3) nd, of "- 1" "- value_of (role_of p)"] by blast
  have lp': "lose_piece (- 1) player (- value_of (role_of p), [], b1) = Inr (r', d, b2)"
    "after b b2 Q {p} {} d" using lp(1,2) by simp_all
  show ?thesis
  proof (cases "mobile Q player = {}")
    case empty: True
    then have d: "d = [player]" using lp(3) by simp
    from finish_refresh[OF L(1), of b2 Q "[p]" d] lp'(2) obtain b3 where b3:
      "update_mask [p] b2 = Inr b3" "ended b b3 Q d" by auto
    then have "flag_pos b3 = flag_pos b" by (simp add: ended_def frame_def)
    then show ?thesis using b1 lp' d L(8) empty b3 by (simp add: update_loss_def)
  next
    case False
    then have d: "d = []" "r' = - value_of (role_of p)" "b2 = b1\<lparr>pieces_count := pieces_count b2\<rparr>"
      using lp(3) by auto
    have "local_change b b2 (set [p]) (set [x])"
      using local_counts[OF loc d(3)] after_lengths[OF a] after_lengths[OF lp'(2)] by simp
    from finish_mark[OF L(1) lp'(2)[unfolded d(1)] this pl] obtain b3 where b3:
      "update_influenced_pieces [p] [x] b2 = Inr b3" "ended b b3 Q []" by blast
    then have "flag_pos b3 = flag_pos b" by (simp add: ended_def frame_def)
    then show ?thesis using b1 lp' d(1,2) L(8) False b3 by (simp add: update_loss_def)
  qed
qed

text \<open>The second count, of the player attacked, is due unless his piece was not mobile.\<close>

definition due :: "piece \<Rightarrow> pos \<Rightarrow> bool" where
  "due q c \<longleftrightarrow> role_of q \<noteq> 0 \<and> c \<notin> set HQ_SQUARES"

lemma lose_both_after:
  assumes a: "after b b1 Q P S []" and S: "S = (if w then {i} else {}) \<union> (if v then {j} else {})"
    and ij: "i \<noteq> j" "i < 4" "j < 4" "i \<notin> set (dead_players b1)" "j \<notin> set (dead_players b1)"
  shows "\<exists>st r' d b2. (if w then lose_piece s1 i (r, [], b1) else Inr (r, [], b1)) = Inr st \<and>
    (if v then lose_piece s2 j st else Inr st) = Inr (r', d, b2) \<and> after b b2 Q P {} d \<and>
    set d = {k. (k = i \<and> w \<or> k = j \<and> v) \<and> mobile Q k = {}} \<and> distinct d \<and>
    (d = [] \<longrightarrow> r' = r \<and> b2 = b1\<lparr>pieces_count := pieces_count b2\<rparr>)"
proof -
  have "\<exists>r1 d1 b2. (if w then lose_piece s1 i (r, [], b1) else Inr (r, [], b1)) = Inr (r1, d1, b2) \<and>
    after b b2 Q P (S - {i}) d1 \<and> d1 = (if w \<and> mobile Q i = {} then [i] else []) \<and>
    (d1 = [] \<longrightarrow> r1 = r \<and> b2 = b1\<lparr>pieces_count := pieces_count b2\<rparr>)"
  proof (cases w)
    case True
    then have "i \<in> S" using S by simp
    from lose_piece_after[OF a ij(2,4) this, of s1 r] True show ?thesis by (auto split: if_splits)
  next
    case False
    then have "i \<notin> S" using S ij by auto
    then have "S - {i} = S" by simp
    then show ?thesis using a False by simp
  qed
  then obtain r1 d1 b2 where 1: "(if w then lose_piece s1 i (r, [], b1) else Inr (r, [], b1)) = Inr (r1, d1, b2)"
    "after b b2 Q P (S - {i}) d1" "d1 = (if w \<and> mobile Q i = {} then [i] else [])"
    "d1 = [] \<longrightarrow> r1 = r \<and> b2 = b1\<lparr>pieces_count := pieces_count b2\<rparr>" by blast
  have j: "j \<notin> set (dead_players b2)" using after_dead[OF 1(2)] after_dead[OF a] 1(3) ij by auto
  have Sj: "S - {i} - {j} = {}" using S by auto
  have "\<exists>r' d b3. (if v then lose_piece s2 j (r1, d1, b2) else Inr (r1, d1, b2)) = Inr (r', d1 @ d, b3) \<and>
    after b b3 Q P {} (d1 @ d) \<and> d = (if v \<and> mobile Q j = {} then [j] else []) \<and>
    (d = [] \<longrightarrow> r' = r1 \<and> b3 = b2\<lparr>pieces_count := pieces_count b3\<rparr>)"
  proof (cases v)
    case True
    then have "j \<in> S - {i}" using S ij by auto
    from lose_piece_after[OF 1(2) ij(3) j this, of s2 r1] True show ?thesis unfolding Sj by (auto split: if_splits)
  next
    case False
    then have "S - {i} = {}" using S by auto
    then have "after b b2 Q P {} d1" using 1(2) by metis
    then show ?thesis using False by simp
  qed
  then obtain r' d b3 where 2: "(if v then lose_piece s2 j (r1, d1, b2) else Inr (r1, d1, b2)) = Inr (r', d1 @ d, b3)"
    "after b b3 Q P {} (d1 @ d)" "d = (if v \<and> mobile Q j = {} then [j] else [])"
    "d = [] \<longrightarrow> r' = r1 \<and> b3 = b2\<lparr>pieces_count := pieces_count b3\<rparr>" by blast
  have "b3 = b1\<lparr>pieces_count := pieces_count b3\<rparr>" if "d1 @ d = []"
    using that 1(4) 2(4) by (cases b1; cases b2; cases b3) simp
  then have "d1 @ d = [] \<longrightarrow> r' = r \<and> b3 = b1\<lparr>pieces_count := pieces_count b3\<rparr>" using 1(4) 2(4) by simp
  moreover have "set (d1 @ d) = {k. (k = i \<and> w \<or> k = j \<and> v) \<and> mobile Q k = {}}" "distinct (d1 @ d)"
    using 1(3) 2(3) ij(1) by auto
  ultimately show ?thesis using 1(1) 2(1,2) by blast
qed

lemma update_win_spec:
  assumes l: "legal_move b player p x c" and q: "map_of (pos2piece b) c = Some q" and nf: "role_of q \<noteq> 11"
  defines "Q \<equiv> (map_of (piece2pos b))(p \<mapsto> c, q := None)"
  shows "\<exists>dead r b'. update_win player p x q c path b = Inr ((1, path, [], dead, r), b') \<and>
    ended b b' Q dead \<and> distinct dead \<and>
    set dead = {k. (k = player \<and> c \<in> set HQ_SQUARES \<or> k = player_of q \<and> due q c) \<and> mobile Q k = {}} \<and>
    (dead = [] \<longrightarrow> r = (if c \<in> set HQ_SQUARES then - value_of (role_of p) else value_of (role_of q)))"
proof -
  note L = legal_moveD[OF l] and T = legal_move_target[OF l q]
  obtain b1 where b1: "take_piece p x q c b = Inr b1" and s: "step_to b b1 Q ((map_of (pos2piece b))(x := None, c \<mapsto> p))"
    using take_piece_spec[OF L(2,9) q L(11)] unfolding Q_def by blast
  have loc: "local_change b b1 (set [p, q]) (set [x, c])"
    by (rule step_to_local[OF s]) (use L(9) in \<open>auto simp: Q_def split: if_splits\<close>)
  have dom: "dom Q \<subseteq> dom (map_of (piece2pos b))" "\<And>r. r \<notin> {q} \<Longrightarrow> r \<in> dom (map_of (piece2pos b)) \<Longrightarrow> r \<in> dom Q"
    using L(9) T(6) by (auto simp: Q_def)
  have pl: "r \<in> set [p, q] \<Longrightarrow> player_of r < 4" for r using L(3,5) T(2) by auto
  let ?hq = "c \<in> set HQ_SQUARES" and ?m = "map_of (piece2pos b)"
  have qm: "q \<in> mobile ?m (player_of q) \<longleftrightarrow> due q c" using T(5) nf by (auto simp: mobile_def due_def)
  have mob: "mobile Q i = (if ?hq then mobile ?m i - {p} else mobile ?m i) - {q}" for i
    unfolding Q_def mobile_drop using mobile_enter[of c ?m p i] mobile_move[of p ?m c i] L(5,14) by auto
  let ?S = "(if ?hq then {player} else {}) \<union> (if due q c then {player_of q} else {})"
  have a: "after b b1 Q {q} ?S []"
  proof (rule step_to_after[OF L(1) s dom])
    show "mobile Q i = mobile ?m i" if "i \<notin> ?S" for i
    proof -
      have "?hq \<Longrightarrow> mobile ?m i - {p} = mobile ?m i"
        using that L(5) by (intro mobile_diff) (auto split: if_splits)
      moreover have "mobile ?m i - {q} = mobile ?m i"
        using that qm by (intro mobile_diff) (auto split: if_splits)
      ultimately show ?thesis using mob[of i] by simp
    qed
    show "\<exists>r \<in> mobile ?m i. mobile Q i = mobile ?m i - {r}" if i: "i \<in> ?S" for i
    proof (cases "i = player")
      case True
      then have "?hq" using i T(1) by (auto split: if_splits)
      moreover have "mobile ?m i - {p} - {q} = mobile ?m i - {p}" using True T(1) by (auto simp: mobile_def)
      ultimately show ?thesis using mob[of i] True L(14) by auto
    next
      case False
      then have "i = player_of q" "due q c" using i by (auto split: if_splits)
      then show ?thesis using mob[of i] qm by (auto simp: due_def)
    qed
  qed
  have nd: "player \<notin> set (dead_players b1)" "player_of q \<notin> set (dead_players b1)"
    using after_dead[OF a] L(4) T(3) by auto
  let ?r1 = "if ?hq then 0 else value_of (role_of q)"
  let ?r0 = "if ?hq then ?r1 - value_of (role_of p) else ?r1"
  obtain st r' d b2 where lb: "(if ?hq then lose_piece (- 1) player (?r0, [], b1) else Inr (?r0, [], b1)) = Inr st"
    "(if due q c then lose_piece 1 (player_of q) st else Inr st) = Inr (r', d, b2)" "after b b2 Q {q} {} d"
    "set d = {k. (k = player \<and> ?hq \<or> k = player_of q \<and> due q c) \<and> mobile Q k = {}}" "distinct d"
    "d = [] \<longrightarrow> r' = ?r0 \<and> b2 = b1\<lparr>pieces_count := pieces_count b2\<rparr>"
    using lose_both_after[OF a refl T(1)[symmetric] L(3) T(2) nd, of "- 1" ?r0 1] by blast
  have "\<exists>b3. (if d \<noteq> [] then update_mask [q] b2 else update_influenced_pieces [p, q] [x, c] b2) = Inr b3 \<and> ended b b3 Q d"
  proof (cases "d = []")
    case True
    then have "local_change b b2 (set [p, q]) (set [x, c])"
      using local_counts[OF loc] lb(6) after_lengths[OF a] after_lengths[OF lb(3)] by simp
    from finish_mark[OF L(1) lb(3)[unfolded True] this pl] True show ?thesis by auto
  next
    case False
    from finish_refresh[OF L(1), of b2 Q "[q]" d] lb(3) False show ?thesis by auto
  qed
  then obtain b3 where b3: "(if d \<noteq> [] then update_mask [q] b2 else update_influenced_pieces [p, q] [x, c] b2) = Inr b3"
    "ended b b3 Q d" by blast
  have d1: "(if ?hq then Inr 0 else dget reward_map (role_of q)) = Inr ?r1" using T(4) by simp
  have d2: "(if ?hq then bindE (dget reward_map (role_of p)) (\<lambda>r. lose_piece (- 1) player (?r1 - r, [], b1))
     else Inr (?r1, [], b1)) = Inr st" using lb(1) L(8) by (simp split: if_splits)
  have "update_win player p x q c path b = Inr ((1, path, [], d, r'), b3)"
    unfolding update_win_def Let_def b1 bindE_simps d1 d2
    using lb(2) b3(1) by (simp add: due_def)
  then show ?thesis using b3(2) lb(4-6) by (intro exI[of _ d] exI[of _ r'] exI[of _ b3]) auto
qed

lemma update_trade_spec:
  assumes l: "legal_move b player p x c" and q: "map_of (pos2piece b) c = Some q" and nf: "role_of q \<noteq> 11"
  defines "Q \<equiv> (map_of (piece2pos b))(p := None, q := None)"
  shows "\<exists>dead r b'. update_trade player p x q c path b =
      Inr ((3, path, (if role_of p = 1 \<and> player \<notin> set dead then [flag_pos b ! player] else []) @
                     (if role_of q = 1 \<and> player_of q \<notin> set dead then [flag_pos b ! player_of q] else []), dead, r), b') \<and>
    ended b b' Q dead \<and> distinct dead \<and>
    set dead = {k. (k = player \<or> k = player_of q \<and> due q c) \<and> mobile Q k = {}} \<and>
    (dead = [] \<longrightarrow> r = - value_of (role_of p) + (if c \<in> set HQ_SQUARES then 0 else value_of (role_of q)))"
proof -
  note L = legal_moveD[OF l] and T = legal_move_target[OF l q]
  obtain b1 where b1: "drop_both p x q c b = Inr b1" and s: "step_to b b1 Q ((map_of (pos2piece b))(x := None, c := None))"
    using drop_both_spec[OF L(2,9) q L(11)] unfolding Q_def by blast
  have loc: "local_change b b1 (set [p, q]) (set [x, c])"
    by (rule step_to_local[OF s]) (auto simp: Q_def split: if_splits)
  have dom: "dom Q \<subseteq> dom (map_of (piece2pos b))" "\<And>r. r \<notin> {p, q} \<Longrightarrow> r \<in> dom (map_of (piece2pos b)) \<Longrightarrow> r \<in> dom Q"
    by (auto simp: Q_def)
  have pl: "r \<in> set [p, q] \<Longrightarrow> player_of r < 4" for r using L(3,5) T(2) by auto
  let ?hq = "c \<in> set HQ_SQUARES" and ?m = "map_of (piece2pos b)"
  have qm: "q \<in> mobile ?m (player_of q) \<longleftrightarrow> due q c" using T(5) nf by (auto simp: mobile_def due_def)
  have mob: "mobile Q i = mobile ?m i - {p} - {q}" for i unfolding Q_def mobile_drop ..
  let ?S = "(if True then {player} else {}) \<union> (if due q c then {player_of q} else {})"
  have a: "after b b1 Q {p, q} ?S []"
  proof (rule step_to_after[OF L(1) s dom])
    show "mobile Q i = mobile ?m i" if "i \<notin> ?S" for i
    proof -
      have "mobile ?m i - {p} = mobile ?m i"
        using that L(5) by (intro mobile_diff) (auto split: if_splits)
      moreover have "mobile ?m i - {q} = mobile ?m i"
        using that qm by (intro mobile_diff) (auto split: if_splits)
      ultimately show ?thesis using mob[of i] by simp
    qed
    show "\<exists>r \<in> mobile ?m i. mobile Q i = mobile ?m i - {r}" if i: "i \<in> ?S" for i
    proof (cases "i = player")
      case True
      have "mobile ?m i - {p} - {q} = mobile ?m i - {p}" using True T(1) by (auto simp: mobile_def)
      then show ?thesis using mob[of i] True L(14) by auto
    next
      case False
      then have i: "i = player_of q" "due q c" using i by (auto split: if_splits)
      have "mobile ?m i - {p} - {q} = mobile ?m i - {q}" using False L(5) by (auto simp: mobile_def)
      then show ?thesis using mob[of i] qm i by auto
    qed
  qed
  have nd: "player \<notin> set (dead_players b1)" "player_of q \<notin> set (dead_players b1)"
    using after_dead[OF a] L(4) T(3) by auto
  let ?r1 = "if ?hq then 0 else value_of (role_of q)"
  let ?r0 = "- value_of (role_of p) + ?r1"
  obtain st r' d b2 where lb: "(if True then lose_piece (- 1) player (?r0, [], b1) else Inr (?r0, [], b1)) = Inr st"
    "(if due q c then lose_piece 1 (player_of q) st else Inr st) = Inr (r', d, b2)" "after b b2 Q {p, q} {} d"
    "set d = {k. (k = player \<and> True \<or> k = player_of q \<and> due q c) \<and> mobile Q k = {}}" "distinct d"
    "d = [] \<longrightarrow> r' = ?r0 \<and> b2 = b1\<lparr>pieces_count := pieces_count b2\<rparr>"
    using lose_both_after[OF a refl T(1)[symmetric] L(3) T(2) nd, of "- 1" ?r0 1] by blast
  have "\<exists>b3. (if d \<noteq> [] then update_mask [p, q] b2 else update_influenced_pieces [p, q] [x, c] b2) = Inr b3 \<and> ended b b3 Q d"
  proof (cases "d = []")
    case True
    then have "local_change b b2 (set [p, q]) (set [x, c])"
      using local_counts[OF loc] lb(6) after_lengths[OF a] after_lengths[OF lb(3)] by simp
    from finish_mark[OF L(1) lb(3)[unfolded True] this pl] True show ?thesis by auto
  next
    case False
    from finish_refresh[OF L(1), of b2 Q "[p, q]" d] lb(3) False show ?thesis by auto
  qed
  then obtain b3 where b3: "(if d \<noteq> [] then update_mask [p, q] b2 else update_influenced_pieces [p, q] [x, c] b2) = Inr b3"
    "ended b b3 Q d" by blast
  then have fl: "flag_pos b3 = flag_pos b" by (simp add: ended_def frame_def)
  have d1: "(if ?hq then Inr 0 else dget reward_map (role_of q)) = Inr ?r1" using T(4) by simp
  have d0: "dget reward_map (role_of p) = Inr (value_of (role_of p))" using L(8) by simp
  have "update_trade player p x q c path b =
      Inr ((3, path, (if role_of p = 1 \<and> player \<notin> set d then [flag_pos b ! player] else []) @
                     (if role_of q = 1 \<and> player_of q \<notin> set d then [flag_pos b ! player_of q] else []), d, r'), b3)"
    unfolding update_trade_def Let_def b1 bindE_simps d0 d1
    using lb(1,2) b3(1) by (simp add: due_def fl)
  then show ?thesis using b3(2) lb(4-6) by (intro exI[of _ d] exI[of _ r'] exI[of _ b3]) auto
qed

lemma update_flag_spec:
  assumes l: "legal_move b player p x c" and q: "map_of (pos2piece b) c = Some q" and f: "role_of q = 11"
    and hq: "c \<in> set HQ_SQUARES"
  defines "Q \<equiv> (if role_of p = 10 then (map_of (piece2pos b))(p := None, q := None)
                else (map_of (piece2pos b))(p \<mapsto> c, q := None))"
  shows "\<exists>dead r b'. update_flag player p x q c path b =
      Inr ((if role_of p = 10 then 3 else 1, path, [], dead, r), b') \<and>
    ended b b' Q dead \<and> distinct dead \<and>
    dead = (if mobile Q player = {} then [player] else []) @ [player_of q]"
proof -
  note L = legal_moveD[OF l] and T = legal_move_target[OF l q]
  let ?m = "map_of (piece2pos b)"
  have qn: "q \<notin> mobile ?m i" for i using f by (simp add: mobile_def)
  have mob: "mobile Q i = mobile ?m i - {p}" for i
    using qn[of i] unfolding Q_def by (auto simp: mobile_drop mobile_enter[OF hq])
  obtain b1 M where b1: "(if role_of p = 10 then drop_both p x q c b else take_piece p x q c b) = Inr b1"
    "step_to b b1 Q M"
    using drop_both_spec[OF L(2,9) q L(11)] take_piece_spec[OF L(2,9) q L(11)] unfolding Q_def
    by (cases "role_of p = 10") auto
  have dom: "dom Q \<subseteq> dom (map_of (piece2pos b))" "\<And>r. r \<notin> {p, q} \<Longrightarrow> r \<in> dom (map_of (piece2pos b)) \<Longrightarrow> r \<in> dom Q"
    using L(9) by (auto simp: Q_def split: if_splits)
  have a: "after b b1 Q {p, q} {player} []"
  proof (rule step_to_after[OF L(1) b1(2) dom])
    show "mobile Q i = mobile ?m i" if "i \<notin> {player}" for i
      using that mob L(5) by (auto simp: mobile_def)
    show "\<exists>r \<in> mobile ?m i. mobile Q i = mobile ?m i - {r}" if "i \<in> {player}" for i
      using that mob L(14) by auto
  qed
  have nd: "player \<notin> set (dead_players b1)" using after_dead[OF a] L(4) by simp
  obtain r' d b2 where lp: "lose_piece (- 1) player (- value_of (role_of p), [], b1) = Inr (r', [] @ d, b2)"
    "after b b2 Q {p, q} ({player} - {player}) ([] @ d)"
    "if mobile Q player = {} then d = [player]
     else d = [] \<and> r' = - value_of (role_of p) \<and> b2 = b1\<lparr>pieces_count := pieces_count b2\<rparr>"
    using lose_piece_after[OF a L(3) nd, of "- 1" "- value_of (role_of p)"] by blast
  have lp': "lose_piece (- 1) player (- value_of (role_of p), [], b1) = Inr (r', d, b2)"
    "after b b2 Q {p, q} {} d" "d = (if mobile Q player = {} then [player] else [])"
    using lp by (simp_all split: if_splits)
  have nq: "player_of q \<notin> set (dead_players b2)"
    using after_dead[OF lp'(2)] T(1,3) lp'(3) by auto
  obtain b3 where b3: "update_dead_players (player_of q) b2 = Inr (hand_value b2 (player_of q), b3)"
    "after b b3 Q {p, q} ({} - {player_of q}) (d @ [player_of q])"
    using update_dead_after[OF lp'(2) T(2) nq] by blast
  from finish_refresh[OF L(1), of b3 Q "[p, q]" "d @ [player_of q]"] b3(2) obtain b4 where b4:
    "update_mask [p, q] b3 = Inr b4" "ended b b4 Q (d @ [player_of q])" by auto
  have d0: "dget reward_map (role_of p) = Inr (value_of (role_of p))" using L(8) by simp
  have "update_flag player p x q c path b =
    Inr ((if role_of p = 10 then 3 else 1, path, [], d @ [player_of q], r' + hand_value b2 (player_of q)), b4)"
    unfolding update_flag_def b1(1) bindE_simps d0 lp'(1) using b3(1) b4(1) by simp
  moreover have "distinct (d @ [player_of q])" using lp'(3) T(1) by auto
  ultimately show ?thesis using b4(2) lp'(3)
    by (intro exI[of _ "d @ [player_of q]"] exI[of _ b4] exI[of _ "r' + hand_value b2 (player_of q)"]) simp
qed

end
