(* ===== verification/Board_Turn.thy ===== *)
theory Board_Turn
  imports Board_Game
begin

text \<open>
  A whole turn against the rules of the game: a legal action is carried out, a battle is decided by
  rank, a player is out exactly when no mobile piece is left to him or his flag is taken, a skipped
  turn is counted, and the mask shown to a player is the set of his legal actions.
\<close>

section \<open>A whole turn\<close>

text \<open>
  The rule of the game, independent of the code: a mine stops all but engineers and bombs, a bomb
  takes its opponent with it, equal ranks fall together, else the lower number (the higher rank) wins.
\<close>

datatype duel_result = Win | Draw | Lose

definition duel :: "nat \<Rightarrow> nat \<Rightarrow> duel_result" where
  "duel role role1 =
     (if role1 = 11 then if role = 10 then Draw else Win
      else if role = 10 \<or> role1 = 10 \<or> role = role1 then Draw
      else if role1 = 0 then if role = 9 then Win else Lose
      else if role < role1 then Win else Lose)"

definition stand_after :: "(piece \<rightharpoonup> pos) \<Rightarrow> piece \<Rightarrow> pos \<Rightarrow> piece option \<Rightarrow> (piece \<rightharpoonup> pos)" where
  "stand_after m p c target =
     (case target of None \<Rightarrow> m(p \<mapsto> c)
      | Some q \<Rightarrow> (case duel (role_of p) (role_of q) of
                     Win \<Rightarrow> m(p \<mapsto> c, q := None) | Draw \<Rightarrow> m(p := None, q := None) | Lose \<Rightarrow> m(p := None)))"

definition event_code :: "piece \<Rightarrow> piece option \<Rightarrow> nat" where
  "event_code p target =
     (case target of None \<Rightarrow> 0
      | Some q \<Rightarrow> (case duel (role_of p) (role_of q) of Win \<Rightarrow> 1 | Lose \<Rightarrow> 2 | Draw \<Rightarrow> 3))"

text \<open>Who is out after the move, which flags are shown, and the reward of a move that ends no player.\<close>

definition fallen :: "board \<Rightarrow> (piece \<rightharpoonup> pos) \<Rightarrow> piece option \<Rightarrow> nat set" where
  "fallen b Q target =
     {k. k < 4 \<and> k \<notin> set (dead_players b) \<and>
        (mobile Q k = {} \<or> (\<exists>q. target = Some q \<and> role_of q = 11 \<and> player_of q = k))}"

definition reveal :: "board \<Rightarrow> nat list \<Rightarrow> piece \<Rightarrow> nat list" where
  "reveal b dead r = (if role_of r = 1 \<and> player_of r \<notin> set dead then [flag_pos b ! player_of r] else [])"

definition shown :: "board \<Rightarrow> piece \<Rightarrow> piece option \<Rightarrow> nat list \<Rightarrow> nat list" where
  "shown b p target dead =
     (case target of None \<Rightarrow> []
      | Some q \<Rightarrow> (case duel (role_of p) (role_of q) of
                     Win \<Rightarrow> [] | Lose \<Rightarrow> reveal b dead p
                   | Draw \<Rightarrow> if role_of q = 11 then [] else reveal b dead p @ reveal b dead q))"

definition gain :: "piece \<Rightarrow> pos \<Rightarrow> piece option \<Rightarrow> real" where
  "gain p c target =
     (let hq = c \<in> set HQ_SQUARES in
      case target of None \<Rightarrow> if hq then - value_of (role_of p) else 0
      | Some q \<Rightarrow> (case duel (role_of p) (role_of q) of
                     Win \<Rightarrow> if hq then - value_of (role_of p) else value_of (role_of q)
                   | Draw \<Rightarrow> - value_of (role_of p) + (if hq then 0 else value_of (role_of q))
                   | Lose \<Rightarrow> - value_of (role_of p)))"

definition turn_result ::
  "board \<Rightarrow> piece \<Rightarrow> pos \<Rightarrow> pos list \<Rightarrow> outcome \<Rightarrow> board \<Rightarrow> bool" where
  "turn_result b p c path out b' \<longleftrightarrow>
     (let t = map_of (pos2piece b) c; Q = stand_after (map_of (piece2pos b)) p c t in
      \<exists>dead r. out = (event_code p t, path, shown b p t dead, dead, r) \<and> ended b b' Q dead \<and>
        distinct dead \<and> set dead = fallen b Q t \<and> (dead = [] \<longrightarrow> r = gain p c t))"

text \<open>Flags never leave their headquarters, and a living player has skipped fewer than five turns.\<close>

definition flags_home :: "board \<Rightarrow> bool" where
  "flags_home b \<longleftrightarrow> (\<forall>p x. map_of (piece2pos b) p = Some x \<longrightarrow> role_of p = 11 \<longrightarrow> x \<in> set HQ_SQUARES)"

definition skips_ok :: "board \<Rightarrow> bool" where
  "skips_ok b \<longleftrightarrow> (\<forall>pl < 4. pl \<notin> set (dead_players b) \<longrightarrow> 0 \<le> step_count b ! pl \<and> step_count b ! pl < 5)"

definition board_inv :: "board \<Rightarrow> bool" where
  "board_inv b \<longleftrightarrow> game_inv b \<and> flags_home b \<and> skips_ok b"

lemma ended_board_inv:
  assumes b: "board_inv b" and e: "ended b b' Q dead"
    and fl: "\<And>p x. Q p = Some x \<Longrightarrow> role_of p = 11 \<Longrightarrow> map_of (piece2pos b) p = Some x"
  shows "board_inv b'"
proof -
  have "flags_home b'"
    unfolding flags_home_def
  proof (intro allI impI)
    fix p x assume "map_of (piece2pos b') p = Some x" "role_of p = 11"
    then have "Q p = Some x" using e by (auto simp: ended_def split: if_splits)
    then have "map_of (piece2pos b) p = Some x" using fl \<open>role_of p = 11\<close> by blast
    then show "x \<in> set HQ_SQUARES" using b \<open>role_of p = 11\<close> unfolding board_inv_def flags_home_def by blast
  qed
  moreover have "skips_ok b'" using b e by (auto simp: board_inv_def skips_ok_def ended_def frame_def)
  ultimately show ?thesis using e by (simp add: board_inv_def ended_def)
qed

lemma legal_action_move:
  assumes "board_inv b" "player < 4" "player \<notin> set (dead_players b)" "legal_action b player i"
  obtains p x c where "decode player i b = Inr (p, c)" "legal_move b player p x c" "i \<noteq> 5934"
proof -
  obtain p c where d: "decode player i b = Inr (p, c)" "player_of p = player" "c \<in> legal_squares b p"
    using assms(4) by (auto simp: legal_action_def)
  obtain x where x: "map_of (piece2pos b) p = Some x" using legal_squares_alive[OF d(3)] by blast
  have ok: "rows_ok b" using assms(1) by (simp add: board_inv_def game_inv_def)
  have g: "player mod 2 < 2" by simp
  have "map_of (piece2action b ! (player mod 2)) p = Some (i div 129)"
    using d(1) rows_okD(6)[OF ok g] by (simp add: decode_eq)
  note R = rows_okD(7)[OF ok g this]
  have "legal_move b player p x c" using assms d x R by (simp add: legal_move_def board_inv_def)
  moreover have "i \<noteq> 5934" using R by auto
  ultimately show thesis using that d(1) by blast
qed

lemma mobile_alive:
  assumes "game_inv b" "k < 4" "k \<notin> set (dead_players b)"
  shows "mobile (map_of (piece2pos b)) k \<noteq> {}"
  using assms finite_mobile by (auto simp: game_inv_def hands_ok_def count_ok_def card_gt_0_iff)

text \<open>A player who is neither of the two keeps his pieces.\<close>

lemma fallenI:
  assumes l: "legal_move b player p x c"
    and own: "\<And>k. k \<noteq> player \<Longrightarrow> \<forall>q. t = Some q \<longrightarrow> player_of q \<noteq> k \<Longrightarrow> mobile Q k = mobile (map_of (piece2pos b)) k"
    and d: "\<And>k. k = player \<or> (\<exists>q. t = Some q \<and> player_of q = k) \<Longrightarrow> k < 4 \<Longrightarrow> k \<notin> set (dead_players b) \<Longrightarrow>
      k \<in> set dead \<longleftrightarrow> mobile Q k = {} \<or> (\<exists>q. t = Some q \<and> role_of q = 11 \<and> player_of q = k)"
    and s: "set dead \<subseteq> {k. k = player \<or> (\<exists>q. t = Some q \<and> player_of q = k)}"
    and t: "\<And>q. t = Some q \<Longrightarrow> player_of q < 4 \<and> player_of q \<notin> set (dead_players b)"
  shows "set dead = fallen b Q t"
proof -
  note L = legal_moveD[OF l]
  have "k \<in> set dead \<longleftrightarrow> k \<in> fallen b Q t" for k
  proof (cases "k = player \<or> (\<exists>q. t = Some q \<and> player_of q = k)")
    case True
    then have "k < 4" "k \<notin> set (dead_players b)" using L(3,4) t by auto
    then show ?thesis using d[OF True] by (simp add: fallen_def)
  next
    case False
    then have "mobile Q k = mobile (map_of (piece2pos b)) k" using own by auto
    then show ?thesis using False s mobile_alive[OF L(1), of k] by (auto simp: fallen_def)
  qed
  then show ?thesis by blast
qed

lemma stand_after_own:
  assumes "legal_move b player p x c" "k \<noteq> player" "\<forall>q. t = Some q \<longrightarrow> player_of q \<noteq> k"
  shows "mobile (stand_after m p c t) k = mobile m k"
  using assms(2,3) legal_moveD(5)[OF assms(1)]
  by (intro mobile_other) (auto simp: stand_after_def split: option.splits duel_result.splits)

lemma turn_empty:
  assumes l: "legal_move b player p x c" and e: "map_of (pos2piece b) c = None"
  shows "\<exists>out b'. update_empty player p x c path b = Inr (out, b') \<and> turn_result b p c path out b'"
proof -
  note L = legal_moveD[OF l]
  let ?Q = "(map_of (piece2pos b))(p \<mapsto> c)"
  from update_empty_spec[OF l e, of path] obtain dead r b' where
    E: "update_empty player p x c path b = Inr ((0, path, [], dead, r), b')" "ended b b' ?Q dead"
    "if c \<in> set HQ_SQUARES \<and> mobile ?Q player = {} then dead = [player]
     else dead = [] \<and> r = (if c \<in> set HQ_SQUARES then - value_of (role_of p) else 0)" by blast
  have Q: "stand_after (map_of (piece2pos b)) p c None = ?Q" by (simp add: stand_after_def)
  have stay: "mobile ?Q player \<noteq> {}" if "c \<notin> set HQ_SQUARES"
    using L(5,14) that mobile_move[of p "map_of (piece2pos b)" c player] by auto
  have "set dead = fallen b ?Q None"
    using stand_after_own[OF l, of _ None "map_of (piece2pos b)", unfolded Q] stay E(3)
    by (intro fallenI[OF l]) (auto split: if_splits)
  moreover have "distinct dead" "dead = [] \<longrightarrow> r = gain p c None" using E(3) by (auto simp: gain_def split: if_splits)
  ultimately show ?thesis using E(1,2) e Q
    by (simp add: turn_result_def event_code_def shown_def Let_def)
qed

lemma turn_flag:
  assumes l: "legal_move b player p x c" and q: "map_of (pos2piece b) c = Some q" and f: "role_of q = 11"
    and hq: "c \<in> set HQ_SQUARES"
  shows "\<exists>out b'. update_flag player p x q c path b = Inr (out, b') \<and> turn_result b p c path out b'"
proof -
  note L = legal_moveD[OF l] and T = legal_move_target[OF l q]
  let ?Q = "if role_of p = 10 then (map_of (piece2pos b))(p := None, q := None)
                else (map_of (piece2pos b))(p \<mapsto> c, q := None)"
  from update_flag_spec[OF l q f hq, of path] obtain dead r b' where
    E: "update_flag player p x q c path b = Inr ((if role_of p = 10 then 3 else 1, path, [], dead, r), b')"
    "ended b b' ?Q dead" "distinct dead" "dead = (if mobile ?Q player = {} then [player] else []) @ [player_of q]" by blast
  have Q: "stand_after (map_of (piece2pos b)) p c (Some q) = ?Q" using f by (simp add: stand_after_def duel_def)
  have "set dead = fallen b ?Q (Some q)"
    using stand_after_own[OF l, of _ "Some q" "map_of (piece2pos b)", unfolded Q] T(1-3) E(4) f by (intro fallenI[OF l]) (auto split: if_splits)
  moreover have "dead \<noteq> []" using E(4) by simp
  ultimately show ?thesis using E(1-3) q Q f
    by (simp add: turn_result_def event_code_def shown_def Let_def duel_def)
qed

lemma turn_trade:
  assumes l: "legal_move b player p x c" and q: "map_of (pos2piece b) c = Some q" and nf: "role_of q \<noteq> 11"
    and d: "duel (role_of p) (role_of q) = Draw"
  shows "\<exists>out b'. update_trade player p x q c path b = Inr (out, b') \<and> turn_result b p c path out b'"
proof -
  note L = legal_moveD[OF l] and T = legal_move_target[OF l q]
  let ?Q = "(map_of (piece2pos b))(p := None, q := None)"
  from update_trade_spec[OF l q nf, of path] obtain dead r b' where
    E: "update_trade player p x q c path b = Inr ((3, path, reveal b dead p @ reveal b dead q, dead, r), b')"
    "ended b b' ?Q dead" "distinct dead"
    "set dead = {k. (k = player \<or> k = player_of q \<and> due q c) \<and> mobile ?Q k = {}}"
    "dead = [] \<longrightarrow> r = - value_of (role_of p) + (if c \<in> set HQ_SQUARES then 0 else value_of (role_of q))"
    unfolding reveal_def L(5) by blast
  have Q: "stand_after (map_of (piece2pos b)) p c (Some q) = ?Q" using d by (simp add: stand_after_def)
  have stay: "mobile ?Q (player_of q) \<noteq> {}" if "\<not> due q c"
  proof -
    have "q \<notin> mobile (map_of (piece2pos b)) (player_of q)" using that T(5) by (auto simp: due_def mobile_def)
    then have "mobile ?Q (player_of q) = mobile (map_of (piece2pos b)) (player_of q)"
      using T(1) L(5) by (auto simp: mobile_def)
    then show ?thesis using mobile_alive[OF L(1) T(2,3)] by simp
  qed
  have "set dead = fallen b ?Q (Some q)"
    using stand_after_own[OF l, of _ "Some q" "map_of (piece2pos b)", unfolded Q] T(1-3) E(4) stay nf by (intro fallenI[OF l]) auto
  then show ?thesis using E(1-3,5) q Q nf d
    by (simp add: turn_result_def event_code_def shown_def gain_def Let_def)
qed

lemma turn_win:
  assumes l: "legal_move b player p x c" and q: "map_of (pos2piece b) c = Some q" and nf: "role_of q \<noteq> 11"
    and d: "duel (role_of p) (role_of q) = Win"
  shows "\<exists>out b'. update_win player p x q c path b = Inr (out, b') \<and> turn_result b p c path out b'"
proof -
  note L = legal_moveD[OF l] and T = legal_move_target[OF l q]
  let ?Q = "(map_of (piece2pos b))(p \<mapsto> c, q := None)"
  from update_win_spec[OF l q nf, of path] obtain dead r b' where
    E: "update_win player p x q c path b = Inr ((1, path, [], dead, r), b')" "ended b b' ?Q dead" "distinct dead"
    "set dead = {k. (k = player \<and> c \<in> set HQ_SQUARES \<or> k = player_of q \<and> due q c) \<and> mobile ?Q k = {}}"
    "dead = [] \<longrightarrow> r = (if c \<in> set HQ_SQUARES then - value_of (role_of p) else value_of (role_of q))" by blast
  have Q: "stand_after (map_of (piece2pos b)) p c (Some q) = ?Q" using d by (simp add: stand_after_def)
  have stay: "mobile ?Q (player_of q) \<noteq> {}" if "\<not> due q c"
  proof -
    have "q \<notin> mobile (map_of (piece2pos b)) (player_of q)" using that T(5) by (auto simp: due_def mobile_def)
    then have "mobile ?Q (player_of q) = mobile (map_of (piece2pos b)) (player_of q)"
      using T(1) L(5) by (auto simp: mobile_def)
    then show ?thesis using mobile_alive[OF L(1) T(2,3)] by simp
  qed
  have stay': "mobile ?Q player \<noteq> {}" if "c \<notin> set HQ_SQUARES"
  proof -
    have "p \<in> mobile ?Q player" using that L(5-7) T(6) by (auto simp: mobile_def)
    then show ?thesis by blast
  qed
  have "set dead = fallen b ?Q (Some q)"
    using stand_after_own[OF l, of _ "Some q" "map_of (piece2pos b)", unfolded Q] T(1-3) E(4) stay stay' nf by (intro fallenI[OF l]) auto
  then show ?thesis using E(1-3,5) q Q nf d
    by (simp add: turn_result_def event_code_def shown_def gain_def Let_def)
qed

lemma turn_loss:
  assumes l: "legal_move b player p x c" and q: "map_of (pos2piece b) c = Some q" and nf: "role_of q \<noteq> 11"
    and d: "duel (role_of p) (role_of q) = Lose"
  shows "\<exists>out b'. update_loss player p x path b = Inr (out, b') \<and> turn_result b p c path out b'"
proof -
  note L = legal_moveD[OF l] and T = legal_move_target[OF l q]
  let ?Q = "(map_of (piece2pos b))(p := None)"
  from update_loss_spec[OF l, of path] obtain dead r b' where
    E: "update_loss player p x path b = Inr ((2, path, reveal b dead p, dead, r), b')" "ended b b' ?Q dead"
    "if mobile ?Q player = {} then dead = [player] else dead = [] \<and> r = - value_of (role_of p)"
    unfolding reveal_def L(5) by blast
  have Q: "stand_after (map_of (piece2pos b)) p c (Some q) = ?Q" using d by (simp add: stand_after_def)
  have stay: "mobile ?Q (player_of q) \<noteq> {}"
  proof -
    have "mobile ?Q (player_of q) = mobile (map_of (piece2pos b)) (player_of q)"
      using T(1) L(5) by (auto simp: mobile_def)
    then show ?thesis using mobile_alive[OF L(1) T(2,3)] by simp
  qed
  have "set dead = fallen b ?Q (Some q)"
    using stand_after_own[OF l, of _ "Some q" "map_of (piece2pos b)", unfolded Q] T(1-3) E(3) stay nf
    by (intro fallenI[OF l]) (auto split: if_splits)
  moreover have "distinct dead" "dead = [] \<longrightarrow> r = - value_of (role_of p)" using E(3) by (auto split: if_splits)
  ultimately show ?thesis using E(1,2) q Q nf d
    by (simp add: turn_result_def event_code_def shown_def gain_def Let_def)
qed

lemma update_move_spec:
  assumes b: "board_inv b" and l: "legal_move b player p x c" and d: "decode player i b = Inr (p, c)" "i \<noteq> 5934"
  shows "\<exists>path out b'. update player i b = Inr (out, b') \<and> turn_result b p c path out b' \<and>
    board_inv b' \<and> walk (pos2piece b) x c path"
proof -
  note L = legal_moveD[OF l]
  let ?t = "map_of (pos2piece b) c"
  have c: "c \<in> legal_squares b p" using l by (simp add: legal_move_def)
  obtain path where path: "get_path p c b = Inr path" "walk (pos2piece b) x c path"
    using get_path_legal[OF L(2) c L(9)] by blast
  have dp: "decode_path player i b = Inr (p, c, path)" using d(1) path(1) by (simp add: decode_path_def)
  have len: "length path \<noteq> 1" using path(2) by (simp add: walk_def)
  have u: "update player i b =
    (case ?t of None \<Rightarrow> update_empty player p x c path b | Some q \<Rightarrow> battle player p x q c path b)"
    using d(2) dp len L(9,11) by (simp add: update_def update_move_def)
  have fl: "map_of (piece2pos b) q = Some y"
    if "stand_after (map_of (piece2pos b)) p c ?t q = Some y" "role_of q = 11" for q y
    using that L(6) unfolding stand_after_def by (auto split: option.splits duel_result.splits if_splits)
  have "\<exists>out b'. update player i b = Inr (out, b') \<and> turn_result b p c path out b'"
  proof (cases ?t)
    case None
    then show ?thesis using turn_empty[OF l] by (simp add: u)
  next
    case (Some q)
    note T = legal_move_target[OF l Some]
    show ?thesis
    proof (cases "role_of q = 11")
      case True
      have hq: "c \<in> set HQ_SQUARES" using b T(5) True by (auto simp: board_inv_def flags_home_def)
      then show ?thesis using turn_flag[OF l Some True hq] True by (simp add: u Some battle_def Let_def)
    next
      case nf: False
      have "battle player p x q c path b = (case duel (role_of p) (role_of q) of
          Draw \<Rightarrow> update_trade player p x q c path b | Win \<Rightarrow> update_win player p x q c path b
        | Lose \<Rightarrow> update_loss player p x path b)"
        using nf L(7) by (auto simp: battle_def duel_def Let_def)
      then show ?thesis
        using turn_trade[OF l Some nf] turn_win[OF l Some nf] turn_loss[OF l Some nf]
        by (cases "duel (role_of p) (role_of q)") (simp_all add: u Some)
    qed
  qed
  then obtain out b' where o: "update player i b = Inr (out, b')" "turn_result b p c path out b'" by blast
  then obtain dead where "ended b b' (stand_after (map_of (piece2pos b)) p c ?t) dead"
    by (auto simp: turn_result_def Let_def)
  from ended_board_inv[OF b this fl] show ?thesis using o path(2) by blast
qed

text \<open>Skipping: four times it only costs, the fifth time the player is out.\<close>

lemma update_skip_spec:
  assumes b: "board_inv b" and pl: "player < 4" "player \<notin> set (dead_players b)"
  shows "\<exists>dead r b'. update player 5934 b = Inr ((4, [], [], dead, r), b') \<and> board_inv b' \<and>
    dead_players b' = dead_players b @ dead \<and>
    dead = (if step_count b ! player = 4 then [player] else []) \<and>
    (\<forall>p. map_of (piece2pos b') p = (if player_of p \<in> set dead then None else map_of (piece2pos b) p)) \<and>
    step_count b' = (step_count b)[player := step_count b ! player + 1] \<and> flag_pos b' = flag_pos b \<and>
    r = (if step_count b ! player = 4 then - hand_value b player else - 2)"
proof -
  let ?b = "b\<lparr>step_count := (step_count b)[player := step_count b ! player + 1]\<rparr>"
  have g: "game_inv b" "flags_home b" "skips_ok b" using b by (auto simp: board_inv_def)
  have len: "length (step_count b) = 4" using g by (simp add: game_inv_def hands_ok_def lists_ok_def)
  have re: "row_exact ?b p = row_exact b p" for p by (rule row_exact_cong) (simp_all add: legal_squares_def)
  have g': "game_inv ?b"
    using g(1) re by (simp add: game_inv_def placed_def rows_ok_def masks_ok_def hands_ok_def lists_ok_def count_ok_def)
  show ?thesis
  proof (cases "step_count b ! player = 4")
    case False
    have "skips_ok ?b"
      using g(3) len pl False by (auto simp: skips_ok_def nth_list_update)
    then have "board_inv ?b" using g' g(2) by (simp add: board_inv_def flags_home_def)
    moreover have "update player 5934 b = Inr ((4, [], [], [], - 2), ?b)"
      using False len pl by (simp add: update_def update_skip_def Let_def)
    ultimately show ?thesis using False by (intro exI[of _ "[]"] exI[of _ "- 2"] exI[of _ ?b]) simp
  next
    case True
    have a: "after ?b ?b (map_of (piece2pos ?b)) {} {} []"
      using g' by (auto simp: after_def midway_def removal_def game_inv_def rows_ok_def)
    have nd: "player \<notin> set (dead_players ?b)" using pl by simp
    obtain b2 where b2: "update_dead_players player ?b = Inr (hand_value ?b player, b2)"
      "after ?b b2 (map_of (piece2pos ?b)) {} ({} - {player}) ([] @ [player])"
      using update_dead_after[OF a pl(1) nd] by blast
    obtain b3 where b3: "update_mask [] b2 = Inr b3" "ended ?b b3 (map_of (piece2pos ?b)) [player]"
      using finish_refresh[OF g', of b2 _ "[]"] b2(2) by auto
    have s: "step_count b3 = step_count ?b" using b3(2) by (simp add: ended_def frame_def)
    have "flags_home b3" using b3(2) g(2) by (auto simp: ended_def flags_home_def split: if_splits)
    moreover have "skips_ok b3"
      using g(3) s b3(2) by (auto simp: skips_ok_def ended_def nth_list_update)
    ultimately have "board_inv b3" using b3(2) by (simp add: board_inv_def ended_def)
    moreover have "update player 5934 b = Inr ((4, [], [], [player], - hand_value ?b player), b3)"
      using True len pl b2(1) b3(1) by (simp add: update_def update_skip_def Let_def)
    ultimately show ?thesis using True b3(2) s
      by (intro exI[of _ "[player]"] exI[of _ "- hand_value ?b player"] exI[of _ b3])
        (auto simp: ended_def frame_def hand_value_def worth_def)
  qed
qed

text \<open>Asking for the mask changes no fact of the game.\<close>

lemma get_action_mask_inv:
  assumes b: "board_inv b" and pl: "player < 4" "player \<notin> set (dead_players b)"
  shows "\<exists>mk b'. get_action_mask player b = Inr (Some mk, b') \<and> board_inv b' \<and>
    pos2piece b' = pos2piece b \<and> piece2pos b' = piece2pos b \<and> dead_players b' = dead_players b \<and>
    (\<forall>i. 0 \<le> i \<longrightarrow> i < 5934 \<longrightarrow> mk i = legal_action b' player i) \<and> mk 5934"
proof -
  have g: "game_inv b" "flags_home b" "skips_ok b" using b by (auto simp: board_inv_def)
  then have p: "placed b" "rows_ok b" "masks_ok b" by (auto simp: game_inv_def)
  obtain mk b' where m: "get_action_mask player b = Inr (Some mk, b')"
    "b' = b\<lparr>action_mask := action_mask b', influenced_pieces := (influenced_pieces b)[player := []]\<rparr>"
    "length (action_mask b') = length (action_mask b)" "masks_ok b'"
    "\<And>i. 0 \<le> i \<Longrightarrow> i < 5934 \<Longrightarrow> mk i = legal_action b player i" "mk 5934"
    using get_action_mask_spec[OF p pl] by blast
  have e: "pos2piece b' = pos2piece b" "piece2pos b' = piece2pos b" "dead_players b' = dead_players b"
    "action2piece b' = action2piece b" "piece2action b' = piece2action b" "engineer_pieces b' = engineer_pieces b"
    "length (influenced_pieces b') = length (influenced_pieces b)" "pieces_count b' = pieces_count b"
    "step_count b' = step_count b" "flag_pos b' = flag_pos b"
    by (subst m(2), simp)+
  have "game_inv b'" using g(1) m(3,4) e placed_cong[OF e(2,1)] hands_ok_cong[OF e(2,3,8,9,10)]
    by (simp add: game_inv_def rows_ok_def)
  then have "board_inv b'" using g(2,3) e by (simp add: board_inv_def flags_home_def skips_ok_def)
  moreover have "legal_action b' player i = legal_action b player i" for i
    by (simp add: legal_action_def decode_def legal_squares_def e)
  ultimately show ?thesis using m(1,5,6) e by auto
qed

end
