(* ===== verification/Board_Init.thy ===== *)
theory Board_Init
  imports Board_Turn
begin

text \<open>
  The starting position: \<open>Board(layout)\<close> on four valid layouts satisfies the invariant of the game,
  in particular the precomputed \<open>ACTION_MASK\<close> is exact, whatever the layouts are.
\<close>

section \<open>Where the pieces of a layout go\<close>

definition ROLES :: "nat list" where
  "ROLES = [0, 0, 0, 1, 2, 3, 3, 4, 4, 5, 5, 6, 6, 7, 7, 7, 8, 8, 8, 9, 9, 9, 10, 10, 11]"

text \<open>
  A valid layout is an arrangement of the 25 pieces with the flag in a headquarters, the mines on
  the last two rows and no bomb on the first.
\<close>

definition valid_layout :: "nat list \<Rightarrow> bool" where
  "valid_layout rs \<longleftrightarrow>
     mset rs = mset ROLES \<and> (rs ! 21 = 11 \<or> rs ! 23 = 11) \<and>
     (\<forall>i < 15. rs ! i \<noteq> 0) \<and> (\<forall>i < 5. rs ! i \<noteq> 10)"

definition piece_at :: "nat list list \<Rightarrow> nat \<Rightarrow> nat \<Rightarrow> piece" where
  "piece_at layout pl i =
     (pl, layout ! pl ! i, count_list (take i (layout ! pl)) (layout ! pl ! i))"

definition pos_at :: "nat \<Rightarrow> nat \<Rightarrow> pos" where
  "pos_at pl i = 30 * int pl + POSITIONS ! i"

definition action_at :: "nat \<Rightarrow> nat \<Rightarrow> int" where
  "action_at pl i = 23 * int (pl div 2) + int i - (if 21 < i then 1 else 0) - (if 23 < i then 1 else 0)"

lemma length_POSITIONS [simp]: "length POSITIONS = 25"
  by (simp add: POSITIONS_def)

lemma length_ROLES [simp]: "length ROLES = 25"
  by (simp add: ROLES_def)

lemma length_valid: "valid_layout rs \<Longrightarrow> length rs = 25"
  unfolding valid_layout_def using mset_eq_length length_ROLES by metis

lemma positions_table: "\<forall>i < 25. 0 \<le> POSITIONS ! i \<and> POSITIONS ! i < 30 \<and> (POSITIONS ! i \<in> {26, 28} \<longleftrightarrow> i = 21 \<or> i = 23)"
  by (simp add: POSITIONS_def All_less_Suc numeral_eq_Suc nth_Cons')

lemma distinct_POSITIONS: "distinct POSITIONS"
  by (simp add: POSITIONS_def)

lemma pos_at_inj: "i < 25 \<Longrightarrow> j < 25 \<Longrightarrow> pos_at pl i = pos_at k j \<Longrightarrow> pl = k \<and> i = j"
proof -
  assume ij: "i < 25" "j < 25" and e: "pos_at pl i = pos_at k j"
  have b: "0 \<le> POSITIONS ! i" "POSITIONS ! i < 30" "0 \<le> POSITIONS ! j" "POSITIONS ! j < 30"
    using positions_table ij by auto
  then have "(POSITIONS ! i + int pl * 30) div 30 = int pl" "(POSITIONS ! j + int k * 30) div 30 = int k"
    by simp_all
  then have "int pl = int k" using e unfolding pos_at_def by (metis add.commute mult.commute)
  then have "pl = k" "POSITIONS ! i = POSITIONS ! j" using e by (auto simp: pos_at_def)
  then show ?thesis using distinct_POSITIONS ij by (auto simp: nth_eq_iff_index_eq)
qed

lemma count_list_take_less:
  assumes "i < j" "j < length rs" "rs ! i = r"
  shows "count_list (take i rs) r < count_list (take j rs) r"
proof -
  have "take j rs = take i (take j rs) @ drop i (take j rs)" by (rule append_take_drop_id[symmetric])
  moreover have "take i (take j rs) = take i rs" using assms(1) by (simp add: min_def)
  moreover have "drop i (take j rs) = rs ! i # drop (Suc i) (take j rs)"
    using assms(1,2) Cons_nth_drop_Suc[of i "take j rs"] by simp
  ultimately have "take j rs = take i rs @ rs ! i # drop (Suc i) (take j rs)" by simp
  then have "count_list (take j rs) r = count_list (take i rs @ rs ! i # drop (Suc i) (take j rs)) r"
    by (rule arg_cong)
  then show ?thesis by (simp add: assms(3) count_list_append)
qed

lemma piece_at_inj:
  assumes "i < length (layout ! pl)" "j < length (layout ! k)" "piece_at layout pl i = piece_at layout k j"
  shows "pl = k \<and> i = j"
proof -
  have pl: "pl = k" using assms(3) by (simp add: piece_at_def)
  have "\<not> i < j" using count_list_take_less[of i j "layout ! pl"] assms pl by (auto simp: piece_at_def)
  moreover have "\<not> j < i" using count_list_take_less[of j i "layout ! pl"] assms pl by (auto simp: piece_at_def)
  ultimately show ?thesis using pl by simp
qed

lemma half_cases: "\<exists>m. n = 2 * m \<or> n = 2 * m + (1 :: nat)"
  by (intro exI[of _ "n div 2"]) linarith

section \<open>Placing the pieces\<close>

text \<open>
  The state of the two nested loops when all pieces of the players below \<open>PL\<close> and the first \<open>N\<close>
  of \<open>PL\<close> have been placed.
\<close>

definition done_upto :: "nat \<Rightarrow> nat \<Rightarrow> nat \<Rightarrow> nat \<Rightarrow> bool" where
  "done_upto PL N pl i \<longleftrightarrow> i < 25 \<and> (pl < PL \<or> pl = PL \<and> i < N)"

definition rows_upto :: "nat \<Rightarrow> int" where
  "rows_upto N = int N - (if 21 < N then 1 else 0) - (if 23 < N then 1 else 0)"

definition placing :: "nat list list \<Rightarrow> nat \<Rightarrow> nat \<Rightarrow> init_state \<Rightarrow> bool" where
  "placing layout PL N = (\<lambda>(counter, ids, b).
     (\<forall>p x. map_of (piece2pos b) p = Some x \<longleftrightarrow>
        (\<exists>pl i. done_upto PL N pl i \<and> p = piece_at layout pl i \<and> x = pos_at pl i)) \<and>
     (\<forall>p x. map_of (pos2piece b) x = Some p \<longleftrightarrow>
        (\<exists>pl i. done_upto PL N pl i \<and> p = piece_at layout pl i \<and> x = pos_at pl i)) \<and>
     distinct (map fst (piece2pos b)) \<and>
     length (action2piece b) = 2 \<and> length (piece2action b) = 2 \<and> length ids = 2 \<and>
     (\<forall>g < 2. \<forall>p a. map_of (piece2action b ! g) p = Some a \<longleftrightarrow>
        (\<exists>pl i. done_upto PL N pl i \<and> i \<noteq> 21 \<and> i \<noteq> 23 \<and> pl mod 2 = g \<and> p = piece_at layout pl i \<and> a = action_at pl i)) \<and>
     (\<forall>g < 2. \<forall>p a. map_of (action2piece b ! g) a = Some p \<longleftrightarrow>
        (\<exists>pl i. done_upto PL N pl i \<and> i \<noteq> 21 \<and> i \<noteq> 23 \<and> pl mod 2 = g \<and> p = piece_at layout pl i \<and> a = action_at pl i)) \<and>
     (\<forall>pl role. dget_default counter (pl, role) 0 =
        (if pl < PL then count_list (take 25 (layout ! pl)) role
         else if pl = PL then count_list (take N (layout ! pl)) role else 0)) \<and>
     (\<forall>g < 2. ids ! g = 23 * int ((PL + 1 - g) div 2) + (if PL mod 2 = g then rows_upto N else 0)))"

lemma placing_next: "placing layout PL 25 st \<Longrightarrow> placing layout (Suc PL) 0 st"
proof -
  assume *: "placing layout PL 25 st"
  obtain counter ids b where st: "st = (counter, ids, b)" by (cases st)
  have d: "done_upto (Suc PL) 0 pl i = done_upto PL 25 pl i" for pl i by (auto simp: done_upto_def)
  have c: "(if pl < Suc PL then count_list (take 25 (layout ! pl)) role
         else if pl = Suc PL then count_list (take 0 (layout ! pl)) role else 0) =
        (if pl < PL then count_list (take 25 (layout ! pl)) role
         else if pl = PL then count_list (take 25 (layout ! pl)) role else 0)" for pl role by simp
  have i: "23 * int ((Suc PL + 1 - g) div 2) + (if Suc PL mod 2 = g then rows_upto 0 else 0) =
    23 * int ((PL + 1 - g) div 2) + (if PL mod 2 = g then rows_upto 25 else 0)" if "g < 2" for g
  proof -
    have "g = 0 \<or> g = 1" using that by auto
    moreover obtain m where "PL = 2 * m \<or> PL = 2 * m + 1" using half_cases by blast
    ultimately have "(Suc PL + 1 - g) div 2 = (PL + 1 - g) div 2 + (if PL mod 2 = g then 1 else 0)"
      by (elim disjE) simp_all
    then show ?thesis by (simp add: rows_upto_def)
  qed
  note P = *[unfolded placing_def st prod.case]
  have "\<forall>g < 2. ids ! g = 23 * int ((Suc PL + 1 - g) div 2) + (if Suc PL mod 2 = g then rows_upto 0 else 0)"
  proof (intro allI impI)
    fix g :: nat assume g: "g < 2"
    then have "ids ! g = 23 * int ((PL + 1 - g) div 2) + (if PL mod 2 = g then rows_upto 25 else 0)"
      using P by blast
    then show "ids ! g = 23 * int ((Suc PL + 1 - g) div 2) + (if Suc PL mod 2 = g then rows_upto 0 else 0)"
      using i[OF g] by argo
  qed
  then show ?thesis unfolding placing_def st prod.case d c using P
    by (elim conjE, intro conjI) assumption+
qed

lemma placingD:
  assumes "placing layout PL N (counter, ids, b)"
  shows "\<forall>p x. map_of (piece2pos b) p = Some x \<longleftrightarrow>
        (\<exists>pl i. done_upto PL N pl i \<and> p = piece_at layout pl i \<and> x = pos_at pl i)"
    "\<forall>p x. map_of (pos2piece b) x = Some p \<longleftrightarrow>
        (\<exists>pl i. done_upto PL N pl i \<and> p = piece_at layout pl i \<and> x = pos_at pl i)"
    "distinct (map fst (piece2pos b))" "length (action2piece b) = 2" "length (piece2action b) = 2" "length ids = 2"
    "\<forall>g < 2. \<forall>p a. map_of (piece2action b ! g) p = Some a \<longleftrightarrow>
        (\<exists>pl i. done_upto PL N pl i \<and> i \<noteq> 21 \<and> i \<noteq> 23 \<and> pl mod 2 = g \<and> p = piece_at layout pl i \<and> a = action_at pl i)"
    "\<forall>g < 2. \<forall>p a. map_of (action2piece b ! g) a = Some p \<longleftrightarrow>
        (\<exists>pl i. done_upto PL N pl i \<and> i \<noteq> 21 \<and> i \<noteq> 23 \<and> pl mod 2 = g \<and> p = piece_at layout pl i \<and> a = action_at pl i)"
    "\<forall>g < 2. ids ! g = 23 * int ((PL + 1 - g) div 2) + (if PL mod 2 = g then rows_upto N else 0)"
  using assms unfolding placing_def prod.case by - (elim conjE, assumption)+

lemma placingI:
  assumes "\<And>p x. map_of (piece2pos b) p = Some x \<longleftrightarrow>
        (\<exists>pl i. done_upto PL N pl i \<and> p = piece_at layout pl i \<and> x = pos_at pl i)"
    "\<And>p x. map_of (pos2piece b) x = Some p \<longleftrightarrow>
        (\<exists>pl i. done_upto PL N pl i \<and> p = piece_at layout pl i \<and> x = pos_at pl i)"
    "distinct (map fst (piece2pos b))" "length (action2piece b) = 2" "length (piece2action b) = 2" "length ids = 2"
    "\<And>g p a. g < 2 \<Longrightarrow> map_of (piece2action b ! g) p = Some a \<longleftrightarrow>
        (\<exists>pl i. done_upto PL N pl i \<and> i \<noteq> 21 \<and> i \<noteq> 23 \<and> pl mod 2 = g \<and> p = piece_at layout pl i \<and> a = action_at pl i)"
    "\<And>g p a. g < 2 \<Longrightarrow> map_of (action2piece b ! g) a = Some p \<longleftrightarrow>
        (\<exists>pl i. done_upto PL N pl i \<and> i \<noteq> 21 \<and> i \<noteq> 23 \<and> pl mod 2 = g \<and> p = piece_at layout pl i \<and> a = action_at pl i)"
    "\<And>pl role. dget_default counter (pl, role) 0 =
        (if pl < PL then count_list (take 25 (layout ! pl)) role
         else if pl = PL then count_list (take N (layout ! pl)) role else 0)"
    "\<And>g. g < 2 \<Longrightarrow> ids ! g = 23 * int ((PL + 1 - g) div 2) + (if PL mod 2 = g then rows_upto N else 0)"
  shows "placing layout PL N (counter, ids, b)"
  unfolding placing_def prod.case using assms by (intro conjI allI impI) blast+

lemma placing_step:
  assumes I: "placing layout PL N (counter, ids, b)" and N: "N < 25" "length (layout ! PL) = 25"
    and all: "\<And>pl. pl \<le> PL \<Longrightarrow> length (layout ! pl) = 25"
  shows "placing layout PL (Suc N) (init_piece PL (layout ! PL ! N, POSITIONS ! N) (counter, ids, b))"
proof -
  define p where "p = piece_at layout PL N"
  define x where "x = pos_at PL N"
  define g where "g = PL mod 2"
  have g: "g < 2" by (simp add: g_def)
  have dn: "done_upto PL (Suc N) pl i \<longleftrightarrow> done_upto PL N pl i \<or> pl = PL \<and> i = N" for pl i
    using N by (auto simp: done_upto_def)
  have le: "pl \<le> PL" "i < 25" if "done_upto PL N pl i" for pl i using that by (auto simp: done_upto_def)
  have fresh: "piece_at layout pl i \<noteq> p" "pos_at pl i \<noteq> x" if "done_upto PL N pl i" for pl i
    using piece_at_inj[of i layout pl N PL] pos_at_inj[of i N pl PL] le[OF that] all N that
    by (auto simp: p_def x_def done_upto_def)
  have cnt: "dget_default counter (PL, layout ! PL ! N) 0 = count_list (take N (layout ! PL)) (layout ! PL ! N)"
    using I unfolding placing_def by auto
  have idN: "ids ! g = 23 * int (PL div 2) + rows_upto N"
  proof -
    obtain m where "PL = 2 * m \<or> PL = 2 * m + 1" using half_cases by blast
    then have "(PL + 1 - g) div 2 = PL div 2" unfolding g_def by (elim disjE) simp_all
    then show ?thesis using I g unfolding placing_def by (simp add: g_def)
  qed
  have hq: "POSITIONS ! N \<in> {26, 28} \<longleftrightarrow> N = 21 \<or> N = 23" using positions_table N by blast
  let ?r = "layout ! PL ! N"
  let ?c = "dset (PL, ?r) (count_list (take N (layout ! PL)) ?r + 1) counter"
  let ?b = "b\<lparr>piece2pos := dset p x (piece2pos b), pos2piece := dset x p (pos2piece b)\<rparr>"
  let ?st = "if N \<noteq> 21 \<and> N \<noteq> 23
     then (?c, ids[g := ids ! g + 1],
            ?b\<lparr>action2piece := (action2piece b)[g := dset (ids ! g) p (action2piece b ! g)],
              piece2action := (piece2action b)[g := dset p (ids ! g) (piece2action b ! g)]\<rparr>)
     else (?c, ids, ?b)"
  have u: "init_piece PL (?r, POSITIONS ! N) (counter, ids, b) = ?st"
    unfolding init_piece_def Let_def prod.case cnt p_def x_def g_def piece_at_def pos_at_def hq
    by (rule if_cong) simp_all
  have counter': "dget_default ?c (pl, role) 0 =
        (if pl < PL then count_list (take 25 (layout ! pl)) role
         else if pl = PL then count_list (take (Suc N) (layout ! pl)) role else 0)" for pl role
  proof -
    have "dget_default counter (pl, role) 0 =
        (if pl < PL then count_list (take 25 (layout ! pl)) role
         else if pl = PL then count_list (take N (layout ! pl)) role else 0)"
      using I unfolding placing_def by auto
    moreover have "take (Suc N) (layout ! PL) = take N (layout ! PL) @ [?r]"
      using N by (simp add: take_Suc_conv_app_nth)
    ultimately show ?thesis by (auto simp: dget_default_def count_list_append)
  qed
  have act: "ids ! g = action_at PL N" if "N \<noteq> 21" "N \<noteq> 23"
    using idN by (simp add: action_at_def rows_upto_def)
  have I1: "map_of (piece2pos b) q = Some y \<longleftrightarrow>
        (\<exists>pl i. done_upto PL N pl i \<and> q = piece_at layout pl i \<and> y = pos_at pl i)"
    and I2: "map_of (pos2piece b) y = Some q \<longleftrightarrow>
        (\<exists>pl i. done_upto PL N pl i \<and> q = piece_at layout pl i \<and> y = pos_at pl i)" for q y
    using placingD(1,2)[OF I] by simp_all
  have J1: "map_of (dset p x (piece2pos b)) q = Some y \<longleftrightarrow>
        (\<exists>pl i. done_upto PL (Suc N) pl i \<and> q = piece_at layout pl i \<and> y = pos_at pl i)" for q y
    using I1[of q y] fresh(1) unfolding dn map_of_dset by (auto simp: p_def x_def)
  have J2: "map_of (dset x p (pos2piece b)) y = Some q \<longleftrightarrow>
        (\<exists>pl i. done_upto PL (Suc N) pl i \<and> q = piece_at layout pl i \<and> y = pos_at pl i)" for q y
    using I2[of y q] fresh(2) unfolding dn map_of_dset by (auto simp: p_def x_def)
  have I3: "map_of (piece2action b ! h) q = Some a \<longleftrightarrow>
        (\<exists>pl i. done_upto PL N pl i \<and> i \<noteq> 21 \<and> i \<noteq> 23 \<and> pl mod 2 = h \<and> q = piece_at layout pl i \<and> a = action_at pl i)"
    and I4: "map_of (action2piece b ! h) a = Some q \<longleftrightarrow>
        (\<exists>pl i. done_upto PL N pl i \<and> i \<noteq> 21 \<and> i \<noteq> 23 \<and> pl mod 2 = h \<and> q = piece_at layout pl i \<and> a = action_at pl i)"
    if "h < 2" for h q a
    using placingD(7,8)[OF I] that by simp_all
  note len = placingD(4-6,3)[OF I]
  have ids: "ids ! h = 23 * int ((PL + 1 - h) div 2) + (if PL mod 2 = h then rows_upto N else 0)" if "h < 2" for h
    using placingD(9)[OF I] that by blast
  show ?thesis
  proof (cases "N = 21 \<or> N = 23")
    case True
    have same: "(\<exists>pl i. done_upto PL (Suc N) pl i \<and> i \<noteq> 21 \<and> i \<noteq> 23 \<and> R pl i) \<longleftrightarrow>
      (\<exists>pl i. done_upto PL N pl i \<and> i \<noteq> 21 \<and> i \<noteq> 23 \<and> R pl i)" for R
      unfolding dn using True by auto
    have "rows_upto (Suc N) = rows_upto N" using True by (auto simp: rows_upto_def)
    moreover have st: "?st = (?c, ids, ?b)" using True by auto
    ultimately show ?thesis unfolding u st
    proof (intro placingI)
      show "map_of (piece2pos ?b) q = Some y \<longleftrightarrow>
        (\<exists>pl i. done_upto PL (Suc N) pl i \<and> q = piece_at layout pl i \<and> y = pos_at pl i)" for q y
        using J1 by simp
      show "map_of (pos2piece ?b) y = Some q \<longleftrightarrow>
        (\<exists>pl i. done_upto PL (Suc N) pl i \<and> q = piece_at layout pl i \<and> y = pos_at pl i)" for q y
        using J2 by simp
      show "map_of (piece2action ?b ! h) q = Some a \<longleftrightarrow>
        (\<exists>pl i. done_upto PL (Suc N) pl i \<and> i \<noteq> 21 \<and> i \<noteq> 23 \<and> pl mod 2 = h \<and> q = piece_at layout pl i \<and> a = action_at pl i)"
        if "h < 2" for h q a unfolding same using I3[OF that] by simp
      show "map_of (action2piece ?b ! h) a = Some q \<longleftrightarrow>
        (\<exists>pl i. done_upto PL (Suc N) pl i \<and> i \<noteq> 21 \<and> i \<noteq> 23 \<and> pl mod 2 = h \<and> q = piece_at layout pl i \<and> a = action_at pl i)"
        if "h < 2" for h q a unfolding same using I4[OF that] by simp
    qed (use len ids counter' \<open>rows_upto (Suc N) = rows_upto N\<close> in simp_all)
  next
    case False
    have freshA: "action_at pl i \<noteq> action_at PL N" if "done_upto PL N pl i" "i \<noteq> 21" "i \<noteq> 23" "pl mod 2 = g" for pl i
    proof -
      have "int i - (if 21 < i then 1 else 0) - (if 23 < i then 1 else 0) < 23"
        "0 \<le> int i - (if 21 < i then 1 else (0::int)) - (if 23 < i then 1 else 0)" using le(2)[OF that(1)] that by auto
      moreover have "int N - (if 21 < N then 1 else 0) - (if 23 < N then 1 else 0) < 23"
        "0 \<le> int N - (if 21 < N then 1 else (0::int)) - (if 23 < N then 1 else 0)" using N False by auto
      moreover have "pl = PL \<Longrightarrow> i \<noteq> N" using that(1) by (auto simp: done_upto_def)
      moreover have "pl \<noteq> PL \<Longrightarrow> pl div 2 \<noteq> PL div 2" using that(4) g_def by (metis div_mult_mod_eq)
      ultimately show ?thesis using False that(2,3) unfolding action_at_def
        by (cases "pl = PL") (auto split: if_splits)
    qed
    have K: "(\<exists>pl i. done_upto PL (Suc N) pl i \<and> i \<noteq> 21 \<and> i \<noteq> 23 \<and> R pl i) \<longleftrightarrow>
      (\<exists>pl i. done_upto PL N pl i \<and> i \<noteq> 21 \<and> i \<noteq> 23 \<and> R pl i) \<or> R PL N" for R
      unfolding dn using False by auto
    have J3: "map_of ((piece2action b)[g := dset p (ids ! g) (piece2action b ! g)] ! h) q = Some a \<longleftrightarrow>
        (\<exists>pl i. done_upto PL (Suc N) pl i \<and> i \<noteq> 21 \<and> i \<noteq> 23 \<and> pl mod 2 = h \<and> q = piece_at layout pl i \<and> a = action_at pl i)"
      if h: "h < 2" for h q a
      unfolding K using I3[OF h, of q a] fresh(1) act False len g h
      by (cases "h = g") (auto simp: p_def g_def)
    have J4: "map_of ((action2piece b)[g := dset (ids ! g) p (action2piece b ! g)] ! h) a = Some q \<longleftrightarrow>
        (\<exists>pl i. done_upto PL (Suc N) pl i \<and> i \<noteq> 21 \<and> i \<noteq> 23 \<and> pl mod 2 = h \<and> q = piece_at layout pl i \<and> a = action_at pl i)"
      if h: "h < 2" for h q a
      unfolding K using I4[OF h, of a q] freshA act False len g h
      by (cases "h = g") (auto simp: p_def g_def)
    have "rows_upto (Suc N) = rows_upto N + 1" using False by (auto simp: rows_upto_def)
    then have ids': "ids[g := ids ! g + 1] ! h = 23 * int ((PL + 1 - h) div 2) + (if PL mod 2 = h then rows_upto (Suc N) else 0)"
      if "h < 2" for h using ids[OF that] len(3) that g by (cases "h = g") (auto simp: g_def)
    let ?b' = "?b\<lparr>action2piece := (action2piece b)[g := dset (ids ! g) p (action2piece b ! g)],
              piece2action := (piece2action b)[g := dset p (ids ! g) (piece2action b ! g)]\<rparr>"
    have st: "?st = (?c, ids[g := ids ! g + 1], ?b')" using False by simp
    show ?thesis unfolding u st
    proof (intro placingI)
      show "map_of (piece2pos ?b') q = Some y \<longleftrightarrow>
        (\<exists>pl i. done_upto PL (Suc N) pl i \<and> q = piece_at layout pl i \<and> y = pos_at pl i)" for q y
        using J1 by simp
      show "map_of (pos2piece ?b') y = Some q \<longleftrightarrow>
        (\<exists>pl i. done_upto PL (Suc N) pl i \<and> q = piece_at layout pl i \<and> y = pos_at pl i)" for q y
        using J2 by simp
      show "map_of (piece2action ?b' ! h) q = Some a \<longleftrightarrow>
        (\<exists>pl i. done_upto PL (Suc N) pl i \<and> i \<noteq> 21 \<and> i \<noteq> 23 \<and> pl mod 2 = h \<and> q = piece_at layout pl i \<and> a = action_at pl i)"
        if "h < 2" for h q a using J3[OF that] by simp
      show "map_of (action2piece ?b' ! h) a = Some q \<longleftrightarrow>
        (\<exists>pl i. done_upto PL (Suc N) pl i \<and> i \<noteq> 21 \<and> i \<noteq> 23 \<and> pl mod 2 = h \<and> q = piece_at layout pl i \<and> a = action_at pl i)"
        if "h < 2" for h q a using J4[OF that] by simp
      show "ids[g := ids ! g + 1] ! h = 23 * int ((PL + 1 - h) div 2) + (if PL mod 2 = h then rows_upto (Suc N) else 0)"
        if "h < 2" for h using ids'[OF that] .
    qed (use len counter' in simp_all)
  qed
qed

lemma placing_player:
  assumes I: "placing layout PL 0 st" and all: "\<And>pl. pl \<le> PL \<Longrightarrow> length (layout ! pl) = 25"
  shows "placing layout PL 25 (fold (init_piece PL) (zip (layout ! PL) POSITIONS) st)"
proof -
  let ?z = "zip (layout ! PL) POSITIONS"
  have len: "length ?z = 25" using all[of PL] by simp
  have "placing layout PL n (fold (init_piece PL) (take n ?z) st)" if "n \<le> 25" for n
    using that
  proof (induction n)
    case 0
    then show ?case using I by simp
  next
    case (Suc n)
    obtain counter ids b where st: "fold (init_piece PL) (take n ?z) st = (counter, ids, b)"
      by (cases "fold (init_piece PL) (take n ?z) st")
    have "take (Suc n) ?z = take n ?z @ [(layout ! PL ! n, POSITIONS ! n)]"
      using Suc.prems len all[of PL] by (simp add: take_Suc_conv_app_nth)
    then have "fold (init_piece PL) (take (Suc n) ?z) st =
      init_piece PL (layout ! PL ! n, POSITIONS ! n) (counter, ids, b)" by (simp add: st)
    then show ?case using placing_step[of layout PL n counter ids b] Suc all st by simp
  qed
  from this[of 25] show ?thesis using len by simp
qed

lemma init_layout_placing:
  assumes "length layout = 4" "\<And>pl. pl < 4 \<Longrightarrow> length (layout ! pl) = 25"
    and b: "piece2pos b = []" "pos2piece b = []" "action2piece b = [[], []]" "piece2action b = [[], []]"
  shows "\<exists>counter ids. placing layout 4 0 (counter, ids, init_layout layout b)"
proof -
  let ?f = "\<lambda>(player_id, roles). fold (init_piece player_id) (zip roles POSITIONS)"
  have 0: "placing layout 0 0 ([], [0, 0], b)"
    by (rule placingI) (auto simp: b done_upto_def dget_default_def rows_upto_def less_2_cases_iff)
  have e: "enumerate_list layout = [(0, layout ! 0), (1, layout ! 1), (2, layout ! 2), (3, layout ! 3)]"
  proof -
    have "layout = [layout ! 0, layout ! 1, layout ! 2, layout ! 3]"
      using assms(1) by (intro nth_equalityI) (auto simp: less_Suc_eq numeral_eq_Suc)
    then show ?thesis by (metis (no_types, lifting) One_nat_def Suc_1 enumerate_list_def enumerate_simps
          numeral_3_eq_3)
  qed
  have s: "placing layout (Suc pl) 0 (fold (init_piece pl) (zip (layout ! pl) POSITIONS) st)"
    if "placing layout pl 0 st" "pl < 4" for pl st
    using placing_next[OF placing_player[OF that(1)]] assms(2) that(2) by simp
  have "placing layout 4 0 (fold ?f (enumerate_list layout) ([], [0, 0], b))"
    using s[OF s[OF s[OF s[OF 0]]]] by (simp add: e numeral_eq_Suc)
  then show ?thesis unfolding init_layout_def by (metis prod.collapse)
qed

section \<open>The precomputed mask\<close>

text \<open>
  Who stands where at the start depends on the square alone, and with that the squares a piece can
  reach; the rows of \<open>ACTION_MASK\<close> are compared with them one by one.
\<close>

definition home :: "pos \<Rightarrow> int option" where
  "home x = (if 0 \<le> x \<and> x < 120 \<and> x mod 30 \<in> set POSITIONS then Some (x div 30) else None)"

definition rival :: "int \<Rightarrow> int \<Rightarrow> bool" where
  "rival k j \<longleftrightarrow> \<bar>k - j\<bar> = 1 \<or> \<bar>k - j\<bar> = 3"

fun run :: "int \<Rightarrow> pos list \<Rightarrow> pos list" where
  "run k [] = []"
| "run k (x # xs) =
     (case home x of None \<Rightarrow> x # run k xs | Some j \<Rightarrow> if rival k j then [x] else [])"

definition open_to :: "int \<Rightarrow> pos \<Rightarrow> bool" where
  "open_to k x \<longleftrightarrow> (case home x of None \<Rightarrow> True | Some j \<Rightarrow> rival k j)"

definition reach_with :: "(pos \<times> pos) list \<Rightarrow> (pos \<times> pos) list \<Rightarrow> (pos \<times> pos) list \<Rightarrow> pos \<Rightarrow> pos list" where
  "reach_with pe ce fe a =
     (let k = a div 30 in
      concat (map (run k) (rays a)) @ filter (open_to k) (edges_at pe a) @
      filter (\<lambda>x. home x = None) (edges_at ce a) @ filter (open_to k) (edges_at fe a))"

definition start_reach :: "pos \<Rightarrow> pos list" where
  "start_reach = reach_with plain_edges camp_edges flag_edges"

definition row_starts :: "int \<Rightarrow> (int \<times> pos) list" where
  "row_starts k = map (\<lambda>(i, x). (23 * (k div 2) + i, 30 * k + x))
     (zip [0..22] (filter (\<lambda>x. x \<noteq> 26 \<and> x \<noteq> 28) POSITIONS))"

definition same_elems :: "int list \<Rightarrow> int list \<Rightarrow> bool" where
  "same_elems xs ys \<longleftrightarrow> list_all (\<lambda>x. List.member ys x) xs \<and> list_all (\<lambda>y. List.member xs y) ys"

definition rows_match ::
  "int \<Rightarrow> adj \<Rightarrow> (pos \<times> pos) list \<Rightarrow> (pos \<times> pos) list \<Rightarrow> (pos \<times> pos) list \<Rightarrow> bool" where
  "rows_match k pm pe ce fe \<longleftrightarrow>
     list_all (\<lambda>(a, x). same_elems (nbrs pm a)
       (let ys = reach_with pe ce fe x in if k mod 2 \<noteq> 0 then transform_pos ys else ys)) (row_starts k)"

definition of_block :: "int \<Rightarrow> (pos \<times> pos) list \<Rightarrow> (pos \<times> pos) list" where
  "of_block k es = filter (\<lambda>(a, c). a div 30 = k) es"

definition of_rows :: "int \<Rightarrow> adj \<Rightarrow> adj" where
  "of_rows k pm = filter (\<lambda>(a, ns). a div 23 = k div 2) pm"

lemma action_posmap_bounds:
  "list_all (\<lambda>(a, ns). list_all (\<lambda>n. 0 \<le> n \<and> n \<le> 128) ns) action_posmap \<and> distinct (map fst action_posmap)"
  by code_simp

lemma start_rows0: "rows_match 0 (of_rows 0 action_posmap) (of_block 0 plain_edges) (of_block 0 camp_edges) (of_block 0 flag_edges)"
  by code_simp

lemma start_rows1: "rows_match 1 (of_rows 1 action_posmap) (of_block 1 plain_edges) (of_block 1 camp_edges) (of_block 1 flag_edges)"
  by code_simp

lemma start_rows2: "rows_match 2 (of_rows 2 action_posmap) (of_block 2 plain_edges) (of_block 2 camp_edges) (of_block 2 flag_edges)"
  by code_simp

lemma start_rows3: "rows_match 3 (of_rows 3 action_posmap) (of_block 3 plain_edges) (of_block 3 camp_edges) (of_block 3 flag_edges)"
  by code_simp

lemma block_edges:
  assumes "a div 30 = k"
  shows "edges_at (of_block k es) a = edges_at es a"
proof -
  have "filter (\<lambda>e. fst e = a) (of_block k es) = filter (\<lambda>e. fst e = a) es"
    unfolding of_block_def filter_filter using assms by (intro filter_cong) auto
  then show ?thesis by (simp add: edges_at_def)
qed

lemma reach_block:
  "a div 30 = k \<Longrightarrow> reach_with (of_block k pe) (of_block k ce) (of_block k fe) a = reach_with pe ce fe a"
  by (simp add: reach_with_def block_edges)

lemma nbrs_rows: "a div 23 = k div 2 \<Longrightarrow> nbrs (of_rows k pm) a = nbrs pm a"
proof -
  assume "a div 23 = k div 2"
  then have "map_of (of_rows k pm) a = map_of pm a" by (induction pm) (auto simp: of_rows_def)
  then show ?thesis by (simp add: nbrs_def dget_default_def)
qed

lemma ACTION_MASK_row:
  assumes "on_board c"
  shows "ACTION_MASK (a * 129 + c) \<longleftrightarrow> c \<in> set (nbrs action_posmap a)"
proof -
  have b: "0 \<le> n \<and> n \<le> 128" if "(k, ns) \<in> set action_posmap" "n \<in> set ns" for k ns n
    using action_posmap_bounds that by (auto simp: list_all_iff)
  have k: "k = a \<and> n = c" if "(k, ns) \<in> set action_posmap" "n \<in> set ns" "a * 129 + c = k * 129 + n" for k ns n
  proof -
    have "0 \<le> n" "n \<le> 128" "0 \<le> c" "c \<le> 128" using b[OF that(1,2)] assms by auto
    then have "(c + a * 129) div 129 = a" "(n + k * 129) div 129 = k" by (simp_all add: div_add1_eq)
    then have "k = a" using that(3) by (metis add.commute)
    then show ?thesis using that(3) by simp
  qed
  have "ACTION_MASK (a * 129 + c) \<longleftrightarrow> (\<exists>ns. (a, ns) \<in> set action_posmap \<and> c \<in> set ns)"
    unfolding ACTION_MASK_def make_action_mask_def list_ex_iff using k by fastforce
  also have "\<dots> \<longleftrightarrow> (\<exists>ns. map_of action_posmap a = Some ns \<and> c \<in> set ns)"
    using action_posmap_bounds by simp
  finally show ?thesis by (auto simp: nbrs_def dget_default_def split: option.splits)
qed

lemma row_starts_mem:
  assumes "pl < 4" "i < 25" "i \<noteq> 21" "i \<noteq> 23"
  shows "(action_at pl i, pos_at pl i) \<in> set (row_starts (int pl))"
proof -
  have "\<forall>i < 25. i \<noteq> 21 \<longrightarrow> i \<noteq> 23 \<longrightarrow>
    (int i - (if 21 < i then 1 else 0) - (if 23 < i then 1 else 0), POSITIONS ! i) \<in>
      set (zip [0..22] (filter (\<lambda>x. x \<noteq> 26 \<and> x \<noteq> 28) POSITIONS))"
    by (simp add: POSITIONS_def All_less_Suc numeral_eq_Suc nth_Cons' upto_rec1)
  then have "(int i - (if 21 < i then 1 else 0) - (if 23 < i then 1 else 0), POSITIONS ! i) \<in>
      set (zip [0..22] (filter (\<lambda>x. x \<noteq> 26 \<and> x \<noteq> 28) POSITIONS))" using assms by blast
  then show ?thesis unfolding row_starts_def set_map action_at_def pos_at_def
    by (rule rev_image_eqI) (simp add: zdiv_int)
qed

lemma pos_at_block:
  assumes "i < 25"
  shows "pos_at pl i div 30 = int pl" "pl < 4 \<Longrightarrow> 0 \<le> pos_at pl i \<and> pos_at pl i < 120"
    "pos_at pl i mod 30 = POSITIONS ! i"
  using positions_table assms by (auto simp: pos_at_def)

lemma action_at_block: "i < 25 \<Longrightarrow> i \<noteq> 21 \<Longrightarrow> i \<noteq> 23 \<Longrightarrow> action_at pl i div 23 = int pl div 2"
proof -
  assume i: "i < 25" "i \<noteq> 21" "i \<noteq> 23"
  define r where "r = int i - (if 21 < i then 1 else 0) - (if 23 < i then 1 else 0)"
  have "0 \<le> r" "r < 23" "action_at pl i = r + int pl div 2 * 23"
    using i by (auto simp: r_def action_at_def zdiv_int)
  then show ?thesis by simp
qed

lemma start_row:
  assumes "pl < 4" "i < 25" "i \<noteq> 21" "i \<noteq> 23" "on_board c"
  shows "ACTION_MASK (action_at pl i * 129 + c) \<longleftrightarrow>
    c \<in> set (if pl mod 2 \<noteq> 0 then transform_pos (start_reach (pos_at pl i)) else start_reach (pos_at pl i))"
proof -
  let ?k = "int pl"
  have "?k = 0 \<or> ?k = 1 \<or> ?k = 2 \<or> ?k = 3" using assms(1) by auto
  then have "rows_match ?k (of_rows ?k action_posmap) (of_block ?k plain_edges) (of_block ?k camp_edges) (of_block ?k flag_edges)"
    using start_rows0 start_rows1 start_rows2 start_rows3 by (elim disjE) simp_all
  then have "same_elems (nbrs (of_rows ?k action_posmap) (action_at pl i))
    (let ys = reach_with (of_block ?k plain_edges) (of_block ?k camp_edges) (of_block ?k flag_edges) (pos_at pl i)
     in if ?k mod 2 \<noteq> 0 then transform_pos ys else ys)"
    unfolding rows_match_def list_all_iff using row_starts_mem[OF assms(1-4)] by fast
  moreover have "int pl mod 2 \<noteq> 0 \<longleftrightarrow> pl mod 2 \<noteq> 0"
    using of_nat_mod[of pl 2, where 'a = int] by (simp only: of_nat_numeral of_nat_eq_0_iff[symmetric, where 'a = int])
  ultimately have "same_elems (nbrs action_posmap (action_at pl i))
    (if pl mod 2 \<noteq> 0 then transform_pos (start_reach (pos_at pl i)) else start_reach (pos_at pl i))"
    unfolding nbrs_rows[OF action_at_block[OF assms(2-4), of pl]] Let_def
      reach_block[OF pos_at_block(1)[OF assms(2), of pl]] start_reach_def
    by (simp only:)
  then show ?thesis unfolding ACTION_MASK_row[OF assms(5)] same_elems_def
    by (auto simp: list_all_iff)
qed

section \<open>The rows at the start\<close>

definition at_home :: "p2p \<Rightarrow> bool" where
  "at_home m \<longleftrightarrow> (\<forall>x. map_option (\<lambda>q. int (player_of q)) (map_of m x) = home x)"

lemma at_homeD:
  assumes "at_home m"
  shows "map_of m x = None \<longleftrightarrow> home x = None" "map_of m x = Some q \<Longrightarrow> home x = Some (int (player_of q))"
    "home x = Some j \<Longrightarrow> \<exists>q. map_of m x = Some q \<and> int (player_of q) = j"
proof -
  have e: "map_option (\<lambda>q. int (player_of q)) (map_of m x) = home x" using assms by (simp only: at_home_def)
  show "map_of m x = None \<longleftrightarrow> home x = None" by (simp flip: e)
  show "map_of m x = Some q \<Longrightarrow> home x = Some (int (player_of q))" by (simp flip: e)
  show "home x = Some j \<Longrightarrow> \<exists>q. map_of m x = Some q \<and> int (player_of q) = j"
    unfolding e[symmetric] by (simp only: map_option_eq_Some)
qed

lemma enterable_home:
  assumes "at_home m" "map_of m a = Some p"
  shows "enterable (map_of m a) m x = open_to (int (player_of p)) x"
  using at_homeD[OF assms(1), of x] assms(2)
  by (auto simp: enterable_def open_to_def can_take_def enemy_def rival_def split: option.splits)

lemma run_spec:
  assumes "at_home m" "map_of m a = Some p"
  shows "set (run (int (player_of p)) r) =
    {last q | q. prefix q r \<and> q \<noteq> [] \<and> clear m (butlast q) \<and> enterable (map_of m a) m (last q)}"
proof (induction r)
  case Nil
  then show ?case by simp
next
  case (Cons x r)
  let ?R = "\<lambda>q. clear m (butlast q) \<and> enterable (map_of m a) m (last q)"
  let ?X = "{last q | q. prefix q r \<and> q \<noteq> [] \<and> ?R q}"
  have split: "{last q | q. prefix q (x # r) \<and> q \<noteq> [] \<and> ?R q} =
    (if enterable (map_of m a) m x then {x} else {}) \<union> (if map_of m x = None then ?X else {})" (is "?A = ?B \<union> ?C")
  proof
    show "?A \<subseteq> ?B \<union> ?C"
    proof
      fix y assume "y \<in> ?A"
      then obtain q where q: "prefix q (x # r)" "q \<noteq> []" "?R q" "y = last q" by blast
      then obtain q' where q': "q = x # q'" "prefix q' r" by (cases q) auto
      then show "y \<in> ?B \<union> ?C" using q by (cases "q' = []") (auto simp: clear_def)
    qed
    show "?B \<union> ?C \<subseteq> ?A"
    proof
      fix y assume "y \<in> ?B \<union> ?C"
      then consider (b) "y = x" "enterable (map_of m a) m x"
        | (c) q where "y = last q" "map_of m x = None" "prefix q r" "q \<noteq> []" "?R q"
        by (auto split: if_splits)
      then show "y \<in> ?A"
      proof cases
        case b
        then show ?thesis by (intro CollectI exI[of _ "[x]"]) (simp add: clear_def)
      next
        case c
        then show ?thesis by (intro CollectI exI[of _ "x # q"]) (simp add: clear_def)
      qed
    qed
  qed
  have "set (run (int (player_of p)) (x # r)) = ?B \<union> (if map_of m x = None then set (run (int (player_of p)) r) else {})"
  proof (cases "home x")
    case None
    then show ?thesis using at_homeD(1)[OF assms(1), of x] enterable_home[OF assms, of x]
      by (simp add: open_to_def)
  next
    case (Some j)
    then have "map_of m x \<noteq> None" using at_homeD(1)[OF assms(1), of x] by simp
    then show ?thesis using Some enterable_home[OF assms, of x] by (auto simp: open_to_def)
  qed
  then show ?case unfolding split Cons .
qed

lemma start_reach_targets:
  assumes "at_home m" "map_of m a = Some p"
  shows "set (start_reach a) = targets m a"
proof -
  have k: "a div 30 = int (player_of p)" using at_homeD(2)[OF assms] by (auto simp: home_def split: if_splits)
  have lines: "fst ` slide m a = (\<Union>r \<in> set (rays a). set (run (int (player_of p)) r))"
  proof -
    have f: "fst ` {(last q, h q) | q. P q} = {last q | q. P q}" for h :: "pos list \<Rightarrow> pos" and P
      by force
    show ?thesis unfolding slide_def sight_def run_spec[OF assms] straight_at_paths f
      by (simp only: insert_iff UN_iff in_set_prefixes) blast
  qed
  have st: "step_ok (map_of m a) m False x = open_to (int (player_of p)) x"
    "step_ok (map_of m a) m True x = (home x = None)" for x
    using enterable_home[OF assms, of x] at_homeD(1)[OF assms(1), of x]
    by (auto simp: step_ok_def enterable_def split: option.splits)
  have "fst ` hops m a = set (filter (open_to (int (player_of p))) (edges_at plain_edges a)) \<union>
    set (filter (\<lambda>x. home x = None) (edges_at camp_edges a)) \<union>
    set (filter (open_to (int (player_of p))) (edges_at flag_edges a))"
  proof -
    have f: "fst ` {(x, a) | x. P x} = {x. P x}" for P :: "pos \<Rightarrow> bool" by force
    show ?thesis unfolding hops_def steps_def st image_Un f by auto
  qed
  then show ?thesis unfolding targets_def image_Un lines start_reach_def reach_with_def Let_def k by auto
qed

section \<open>The other parts of the constructor\<close>

definition mask_hit :: "board \<Rightarrow> nat \<Rightarrow> nat \<Rightarrow> pos list \<Rightarrow> int list \<Rightarrow> int \<Rightarrow> bool" where
  "mask_hit b role g ps offs i \<longleftrightarrow>
     (\<exists>p \<in> set ps. \<exists>q a off. map_of (pos2piece b) p = Some q \<and> role_of q = role \<and>
        map_of (piece2action b ! g) q = Some a \<and> off \<in> set offs \<and> i = a * 129 + off)"

lemma init_masks_spec:
  assumes "\<And>p. p \<in> set ps \<Longrightarrow> \<exists>q. map_of (pos2piece b) p = Some q \<and>
      (role_of q = role \<longrightarrow> map_of (piece2action b ! g) q \<noteq> None)"
    and g: "g < length (action_mask b)"
  shows "foldE (init_mask_at role g offs v) ps b =
    Inr (b\<lparr>action_mask := (action_mask b)[g :=
      (\<lambda>i. if mask_hit b role g ps offs i then v else (action_mask b ! g) i)]\<rparr>)"
  using assms
proof (induction ps arbitrary: b)
  case Nil
  then show ?case by (simp add: mask_hit_def)
next
  case (Cons p ps)
  obtain q where q: "map_of (pos2piece b) p = Some q" "role_of q = role \<longrightarrow> map_of (piece2action b ! g) q \<noteq> None"
    using Cons.prems(1)[OF list.set_intros(1)] by blast
  define b1 where "b1 = b\<lparr>action_mask := (action_mask b)[g :=
      (\<lambda>i. if mask_hit b role g [p] offs i then v else (action_mask b ! g) i)]\<rparr>"
  have step: "init_mask_at role g offs v p b = Inr b1"
  proof (cases "role_of q = role")
    case True
    then obtain a where a: "map_of (piece2action b ! g) q = Some a" using q(2) by auto
    have "mask_hit b role g [p] offs i \<longleftrightarrow> i \<in> set (map (\<lambda>off. a * 129 + off) offs)" for i
      using q(1) True a by (auto simp: mask_hit_def)
    then show ?thesis using q(1) True a by (simp add: init_mask_at_def mask_set_def b1_def)
  next
    case False
    have "\<not> mask_hit b role g [p] offs i" for i using q(1) False by (auto simp: mask_hit_def)
    then show ?thesis using q(1) False by (simp add: init_mask_at_def b1_def)
  qed
  have h: "mask_hit b1 role g xs offs i = mask_hit b role g xs offs i" for xs i
    by (simp add: mask_hit_def b1_def)
  have hc: "mask_hit b role g (p # ps) offs i \<longleftrightarrow> mask_hit b role g [p] offs i \<or> mask_hit b role g ps offs i" for i
    by (auto simp: mask_hit_def)
  have "foldE (init_mask_at role g offs v) ps b1 = Inr (b1\<lparr>action_mask := (action_mask b1)[g :=
      (\<lambda>i. if mask_hit b1 role g ps offs i then v else (action_mask b1 ! g) i)]\<rparr>)"
    using Cons.prems by (intro Cons.IH) (auto simp: b1_def)
  moreover have "(\<lambda>i. if mask_hit b1 role g ps offs i then v else (action_mask b1 ! g) i) =
    (\<lambda>i. if mask_hit b role g (p # ps) offs i then v else (action_mask b ! g) i)"
    unfolding h hc using Cons.prems(2) by (auto simp: b1_def)
  ultimately show ?case using step by (simp add: b1_def)
qed

lemma init_engineer_spec:
  assumes "length (engineer_pieces b) = 4" "\<And>p. p \<in> dom (map_of (piece2pos b)) \<Longrightarrow> player_of p < 4"
  shows "\<exists>E. init_engineer_pieces b = b\<lparr>engineer_pieces := E\<rparr> \<and> length E = 4 \<and>
    (\<forall>p \<in> dom (map_of (piece2pos b)). role_of p = 9 \<longrightarrow> p \<in> set (E ! player_of p))"
proof -
  let ?f = "\<lambda>p b. if role_of p = 9 then b\<lparr>engineer_pieces := (engineer_pieces b)[player_of p :=
                        set_add p (engineer_pieces b ! player_of p)]\<rparr> else b"
  have "\<exists>E. fold ?f ps b = b\<lparr>engineer_pieces := E\<rparr> \<and> length E = 4 \<and>
    (\<forall>pl < 4. set (engineer_pieces b ! pl) \<subseteq> set (E ! pl)) \<and>
    (\<forall>p \<in> set ps. role_of p = 9 \<longrightarrow> p \<in> set (E ! player_of p))"
    if "length (engineer_pieces b) = 4" "\<forall>p \<in> set ps. player_of p < 4" for ps and b :: board
    using that
  proof (induction ps arbitrary: b)
    case Nil
    then show ?case by (intro exI[of _ "engineer_pieces b"]) simp
  next
    case (Cons p ps)
    have "length (engineer_pieces (?f p b)) = 4" using Cons.prems by simp
    then obtain E where E: "fold ?f ps (?f p b) = (?f p b)\<lparr>engineer_pieces := E\<rparr>" "length E = 4"
      "\<forall>pl < 4. set (engineer_pieces (?f p b) ! pl) \<subseteq> set (E ! pl)"
      "\<forall>p \<in> set ps. role_of p = 9 \<longrightarrow> p \<in> set (E ! player_of p)"
      using Cons.IH[of "?f p b"] Cons.prems(2) by auto
    have p: "player_of p < 4" using Cons.prems(2) by simp
    have "set (engineer_pieces b ! pl) \<subseteq> set (E ! pl)" if "pl < 4" for pl
    proof -
      have "set (engineer_pieces b ! pl) \<subseteq> set (engineer_pieces (?f p b) ! pl)"
        using Cons.prems(1) that by (cases "player_of p = pl") (simp_all add: subset_insertI)
      also have "\<dots> \<subseteq> set (E ! pl)" using E(3) that by blast
      finally show ?thesis .
    qed
    moreover have "p \<in> set (E ! player_of p)" if "role_of p = 9"
      using E(3) p that Cons.prems(1) by (auto split: if_splits)
    ultimately show ?case using E(1,2,4) by (intro exI[of _ E]) simp
  qed
  from this[of b "map fst (piece2pos b)"] assms show ?thesis
    unfolding init_engineer_pieces_def dom_map_of_conv_image_fst by (auto simp: dom_map_of_conv_image_fst)
qed

text \<open>\<open>init_pieces_count\<close> adds one for a mine in a headquarters, where it does not reduce the mobile pieces.\<close>

definition counted :: "board \<Rightarrow> board \<Rightarrow> bool" where
  "counted b b' \<longleftrightarrow>
     b' = b\<lparr>pieces_count := pieces_count b', flag_pos := flag_pos b'\<rparr> \<and>
     length (pieces_count b') = length (pieces_count b) \<and> length (flag_pos b') = length (flag_pos b)"

lemma init_count_at_spec:
  assumes "map_of (pos2piece b) p = Some q" "player < length (pieces_count b)"
  shows "\<exists>b'. init_count_at player (i, p) b = Inr b' \<and> counted b b' \<and>
    pieces_count b' = (pieces_count b)[player := pieces_count b ! player + (if role_of q = 0 then 1 else 0)]"
  using assms by (simp add: init_count_at_def counted_def Let_def)

lemma counted_trans: "counted a b \<Longrightarrow> counted b c \<Longrightarrow> counted a c"
  by (cases a; cases b; cases c) (simp add: counted_def)

lemma counted_pos2piece: "counted b b' \<Longrightarrow> pos2piece b' = pos2piece b"
  by (cases b; cases b') (simp add: counted_def)

lemma init_counts_player:
  assumes "map_of (pos2piece b) x = Some q" "map_of (pos2piece b) y = Some r" "player < length (pieces_count b)"
  shows "\<exists>b'. foldE (init_count_at player) (enumerate_list [x, y]) b = Inr b' \<and> counted b b' \<and>
    pieces_count b' = (pieces_count b)[player := pieces_count b ! player +
      (if role_of q = 0 then 1 else 0) + (if role_of r = 0 then 1 else 0)]"
proof -
  from init_count_at_spec[OF assms(1,3), of 0] obtain b1 where
    b1: "init_count_at player (0, x) b = Inr b1" "counted b b1"
    "pieces_count b1 = (pieces_count b)[player := pieces_count b ! player + (if role_of q = 0 then 1 else 0)]"
    by blast
  have "map_of (pos2piece b1) y = Some r" "player < length (pieces_count b1)"
    using assms counted_pos2piece[OF b1(2)] b1(3) by auto
  from init_count_at_spec[OF this, of 1] obtain b2 where
    b2: "init_count_at player (1, y) b1 = Inr b2" "counted b1 b2"
    "pieces_count b2 = (pieces_count b1)[player := pieces_count b1 ! player + (if role_of r = 0 then 1 else 0)]"
    by blast
  have "counted b b2" using counted_trans[OF b1(2) b2(2)] .
  moreover have "pieces_count b2 = (pieces_count b)[player := pieces_count b ! player +
      (if role_of q = 0 then 1 else 0) + (if role_of r = 0 then 1 else 0)]"
    using b1(3) b2(3) assms(3) by simp
  ultimately show ?thesis using b1(1) b2(1) by (simp add: enumerate_list_def)
qed

end
