(* ===== verification/Board_Start.thy ===== *)
theory Board_Start
  imports Board_Init
begin

text \<open>
  \<open>Board(layout)\<close> on four valid layouts returns a board that satisfies the invariant of the game.
\<close>

section \<open>Facts about valid layouts\<close>

lemma set_valid: "valid_layout rs \<Longrightarrow> i < 25 \<Longrightarrow> rs ! i \<le> 11"
proof -
  assume v: "valid_layout rs" and i: "i < 25"
  have "set rs = set ROLES" using v unfolding valid_layout_def by (metis mset_eq_setD)
  moreover have "rs ! i \<in> set rs" using i length_valid[OF v] by simp
  ultimately show ?thesis by (auto simp: ROLES_def)
qed

lemma count_role: "valid_layout rs \<Longrightarrow> card {i. i < 25 \<and> P (rs ! i)} = length (filter P ROLES)"
proof -
  assume v: "valid_layout rs"
  have "card {i. i < 25 \<and> P (rs ! i)} = length (filter P rs)"
    using length_valid[OF v] by (simp add: length_filter_conv_card)
  also have "\<dots> = size (filter_mset P (mset rs))" by (metis mset_filter size_mset)
  also have "\<dots> = length (filter P ROLES)"
    using v by (metis valid_layout_def mset_filter size_mset)
  finally show ?thesis .
qed

lemma flag_unique:
  assumes v: "valid_layout rs" and i: "i < 25" "rs ! i = 11"
  shows "i = 21 \<or> i = 23" "rs ! 21 = 11 \<Longrightarrow> rs ! 23 \<noteq> 11"
proof -
  have "card {i. i < 25 \<and> rs ! i = 11} = 1"
    unfolding count_role[OF v, of "\<lambda>r. r = 11"] by (simp add: ROLES_def)
  then obtain k where k: "{i. i < 25 \<and> rs ! i = 11} = {k}" using card_1_singletonE by blast
  have u: "j = i" if "j < 25" "rs ! j = 11" for j
  proof -
    have "j \<in> {k}" "i \<in> {k}" unfolding k[symmetric] using i that by simp_all
    then show ?thesis by simp
  qed
  show "i = 21 \<or> i = 23" using v u[of 21] u[of 23] by (auto simp: valid_layout_def)
  show "rs ! 21 = 11 \<Longrightarrow> rs ! 23 \<noteq> 11" using u[of 21] u[of 23] by auto
qed

definition field_squares :: "nat list \<Rightarrow> nat set" where
  "field_squares rs = {i. i < 25 \<and> i \<noteq> 21 \<and> i \<noteq> 23 \<and> rs ! i \<noteq> 0 \<and> rs ! i \<noteq> 11}"

lemma card_field:
  assumes v: "valid_layout rs"
  shows "card (field_squares rs) =
    20 + (if rs ! 21 = 0 then 1 else 0) + (if rs ! 23 = 0 then 1 else 0)"
proof -
  let ?A = "{i. i < 25 \<and> (rs ! i \<noteq> 0 \<and> rs ! i \<noteq> 11)}"
  have A: "card ?A = 21" unfolding count_role[OF v, of "\<lambda>r. r \<noteq> 0 \<and> r \<noteq> 11"] by (simp add: ROLES_def)
  have hq: "rs ! 21 = 11 \<and> rs ! 23 \<noteq> 11 \<or> rs ! 23 = 11 \<and> rs ! 21 \<noteq> 11"
    using v flag_unique[OF v, of 21] flag_unique[OF v, of 23] by (auto simp: valid_layout_def)
  have "field_squares rs = ?A - {21, 23}" by (auto simp: field_squares_def)
  then have "card (field_squares rs) = card ?A - card (?A \<inter> {21, 23})" by (simp add: card_Diff_subset_Int)
  moreover have "card (?A \<inter> {21, 23}) = (if rs ! 21 = 0 \<or> rs ! 23 = 0 then 0 else 1)"
  proof -
    have "?A \<inter> {21, 23} = (if rs ! 21 = 0 \<or> rs ! 23 = 0 then {} else if rs ! 21 = 11 then {23} else {21})"
      using hq by auto
    then show ?thesis by simp
  qed
  ultimately show ?thesis using A hq by auto
qed

section \<open>The pieces on the board\<close>

definition start_position :: "nat list list \<Rightarrow> board \<Rightarrow> bool" where
  "start_position layout b \<longleftrightarrow>
     (\<forall>pl < 4. valid_layout (layout ! pl)) \<and>
     (\<forall>p x. map_of (piece2pos b) p = Some x \<longleftrightarrow>
        (\<exists>pl i. pl < 4 \<and> i < 25 \<and> p = piece_at layout pl i \<and> x = pos_at pl i)) \<and>
     (\<forall>p x. map_of (pos2piece b) x = Some p \<longleftrightarrow>
        (\<exists>pl i. pl < 4 \<and> i < 25 \<and> p = piece_at layout pl i \<and> x = pos_at pl i)) \<and>
     distinct (map fst (piece2pos b)) \<and> length (action2piece b) = 2 \<and> length (piece2action b) = 2 \<and>
     (\<forall>g < 2. \<forall>p a. map_of (piece2action b ! g) p = Some a \<longleftrightarrow>
        (\<exists>pl i. pl < 4 \<and> i < 25 \<and> i \<noteq> 21 \<and> i \<noteq> 23 \<and> pl mod 2 = g \<and> p = piece_at layout pl i \<and> a = action_at pl i)) \<and>
     (\<forall>g < 2. \<forall>p a. map_of (action2piece b ! g) a = Some p \<longleftrightarrow>
        (\<exists>pl i. pl < 4 \<and> i < 25 \<and> i \<noteq> 21 \<and> i \<noteq> 23 \<and> pl mod 2 = g \<and> p = piece_at layout pl i \<and> a = action_at pl i))"

lemma startD:
  assumes "start_position layout b"
  shows "pl < 4 \<Longrightarrow> valid_layout (layout ! pl)"
    "map_of (piece2pos b) p = Some x \<longleftrightarrow>
        (\<exists>pl i. pl < 4 \<and> i < 25 \<and> p = piece_at layout pl i \<and> x = pos_at pl i)"
    "map_of (pos2piece b) x = Some p \<longleftrightarrow>
        (\<exists>pl i. pl < 4 \<and> i < 25 \<and> p = piece_at layout pl i \<and> x = pos_at pl i)"
    "distinct (map fst (piece2pos b))"
    "length (action2piece b) = 2" "length (piece2action b) = 2"
    "g < 2 \<Longrightarrow> map_of (piece2action b ! g) p = Some a \<longleftrightarrow>
        (\<exists>pl i. pl < 4 \<and> i < 25 \<and> i \<noteq> 21 \<and> i \<noteq> 23 \<and> pl mod 2 = g \<and> p = piece_at layout pl i \<and> a = action_at pl i)"
    "g < 2 \<Longrightarrow> map_of (action2piece b ! g) a = Some p \<longleftrightarrow>
        (\<exists>pl i. pl < 4 \<and> i < 25 \<and> i \<noteq> 21 \<and> i \<noteq> 23 \<and> pl mod 2 = g \<and> p = piece_at layout pl i \<and> a = action_at pl i)"
proof -
  have c: "\<forall>pl < 4. valid_layout (layout ! pl)"
    "\<forall>p x. map_of (piece2pos b) p = Some x \<longleftrightarrow>
        (\<exists>pl i. pl < 4 \<and> i < 25 \<and> p = piece_at layout pl i \<and> x = pos_at pl i)"
    "\<forall>p x. map_of (pos2piece b) x = Some p \<longleftrightarrow>
        (\<exists>pl i. pl < 4 \<and> i < 25 \<and> p = piece_at layout pl i \<and> x = pos_at pl i)"
    "distinct (map fst (piece2pos b))" "length (action2piece b) = 2" "length (piece2action b) = 2"
    "\<forall>g < 2. \<forall>p a. map_of (piece2action b ! g) p = Some a \<longleftrightarrow>
        (\<exists>pl i. pl < 4 \<and> i < 25 \<and> i \<noteq> 21 \<and> i \<noteq> 23 \<and> pl mod 2 = g \<and> p = piece_at layout pl i \<and> a = action_at pl i)"
    "\<forall>g < 2. \<forall>p a. map_of (action2piece b ! g) a = Some p \<longleftrightarrow>
        (\<exists>pl i. pl < 4 \<and> i < 25 \<and> i \<noteq> 21 \<and> i \<noteq> 23 \<and> pl mod 2 = g \<and> p = piece_at layout pl i \<and> a = action_at pl i)"
    using assms unfolding start_position_def by - (elim conjE, assumption)+
  show "pl < 4 \<Longrightarrow> valid_layout (layout ! pl)" using c(1) by blast
  show "map_of (piece2pos b) p = Some x \<longleftrightarrow>
        (\<exists>pl i. pl < 4 \<and> i < 25 \<and> p = piece_at layout pl i \<and> x = pos_at pl i)" by (rule c(2)[rule_format])
  show "map_of (pos2piece b) x = Some p \<longleftrightarrow>
        (\<exists>pl i. pl < 4 \<and> i < 25 \<and> p = piece_at layout pl i \<and> x = pos_at pl i)" by (rule c(3)[rule_format])
  show "distinct (map fst (piece2pos b))" "length (action2piece b) = 2" "length (piece2action b) = 2" by (rule c)+
  show "g < 2 \<Longrightarrow> map_of (piece2action b ! g) p = Some a \<longleftrightarrow>
        (\<exists>pl i. pl < 4 \<and> i < 25 \<and> i \<noteq> 21 \<and> i \<noteq> 23 \<and> pl mod 2 = g \<and> p = piece_at layout pl i \<and> a = action_at pl i)"
    by (rule c(7)[rule_format])
  show "g < 2 \<Longrightarrow> map_of (action2piece b ! g) a = Some p \<longleftrightarrow>
        (\<exists>pl i. pl < 4 \<and> i < 25 \<and> i \<noteq> 21 \<and> i \<noteq> 23 \<and> pl mod 2 = g \<and> p = piece_at layout pl i \<and> a = action_at pl i)"
    by (rule c(8)[rule_format])
qed

lemma piece_at_simps [simp]:
  "player_of (piece_at layout pl i) = pl" "role_of (piece_at layout pl i) = layout ! pl ! i"
  by (simp_all add: piece_at_def)

lemma role_le: "start_position layout b \<Longrightarrow> pl < 4 \<Longrightarrow> i < 25 \<Longrightarrow> layout ! pl ! i \<le> 11"
  using set_valid startD(1) by blast

lemma start_placed:
  assumes S: "start_position layout b"
  shows "placed b"
  unfolding placed_def
proof (intro conjI allI impI)
  show "map_of (piece2pos b) p = Some x \<longleftrightarrow> map_of (pos2piece b) x = Some p" for p x
    by (simp only: startD(2,3)[OF S])
  show "distinct (map fst (piece2pos b))" by (rule startD(4)[OF S])
  fix p x assume "map_of (piece2pos b) p = Some x"
  then obtain pl i where pi: "pl < 4" "i < 25" "p = piece_at layout pl i" "x = pos_at pl i" using startD(2)[OF S] by blast
  then show "player_of p < 4" "role_of p \<le> 11" using role_le[OF S] by simp_all
  show "0 \<le> x" "x \<le> 128" using pos_at_block(2)[OF pi(2,1)] pi(4) by simp_all
qed

lemma start_at_home:
  assumes S: "start_position layout b"
  shows "at_home (pos2piece b)"
  unfolding at_home_def
proof
  fix x
  show "map_option (\<lambda>q. int (player_of q)) (map_of (pos2piece b) x) = home x"
  proof (cases "map_of (pos2piece b) x")
    case (Some q)
    then obtain pl i where pi: "pl < 4" "i < 25" "q = piece_at layout pl i" "x = pos_at pl i" using startD(3)[OF S] by blast
    have "POSITIONS ! i \<in> set POSITIONS" using pi(2) by simp
    then have "home x = Some (int pl)"
      using pos_at_block[OF pi(2), of pl] pi(1,4) by (simp add: home_def)
    then show ?thesis using Some pi(3) by simp
  next
    case None
    have "\<not> (0 \<le> x \<and> x < 120 \<and> x mod 30 \<in> set POSITIONS)"
    proof
      assume x: "0 \<le> x \<and> x < 120 \<and> x mod 30 \<in> set POSITIONS"
      then obtain i where i: "i < 25" "POSITIONS ! i = x mod 30" by (auto simp: in_set_conv_nth)
      have "x = pos_at (nat (x div 30)) i" using x i(2) by (simp add: pos_at_def)
      moreover have "nat (x div 30) < 4" using x by auto
      ultimately have "map_of (pos2piece b) x = Some (piece_at layout (nat (x div 30)) i)"
        using startD(3)[OF S] i(1) by blast
      then show False using None by simp
    qed
    then show ?thesis using None by (simp add: home_def)
  qed
qed

lemma same_piece:
  "\<lbrakk>start_position layout b; pl < 4; i < 25; k < 4; j < 25; piece_at layout pl i = piece_at layout k j\<rbrakk> \<Longrightarrow> pl = k \<and> i = j"
  using piece_at_inj[of i layout pl j k] length_valid startD(1) by metis

lemma row_bounds:
  assumes S: "start_position layout b" and P: "pl < 4" "i < 25" "i \<noteq> 21" "i \<noteq> 23"
  shows "0 \<le> action_at pl i" "action_at pl i < 46" "action_at pl i < 23 \<longleftrightarrow> pl < 2" "layout ! pl ! i \<noteq> 11"
proof -
  show "layout ! pl ! i \<noteq> 11" using flag_unique(1)[OF startD(1)[OF S P(1)] P(2)] P(3,4) by blast
  have "pl = 0 \<or> pl = 1 \<or> pl = 2 \<or> pl = 3" using P(1) by auto
  then show "0 \<le> action_at pl i" "action_at pl i < 46" "action_at pl i < 23 \<longleftrightarrow> pl < 2"
    using P(2-4) by (elim disjE, auto simp: action_at_def)+
qed

lemma all_rows:
  assumes S: "start_position layout b" and A: "0 \<le> a" "a < 46" "g < 2"
  shows "map_of (action2piece b ! g) a \<noteq> None"
proof -
  define r where "r = nat (a mod 23)"
  define i where "i = (if r < 21 then r else if r = 21 then 22 else 24)"
  define pl where "pl = g + 2 * nat (a div 23)"
  have r: "r < 23" by (simp add: r_def)
  have i: "i < 25" "i \<noteq> 21" "i \<noteq> 23" using r by (auto simp: i_def)
  have ad: "a div 23 = 0 \<or> a div 23 = 1" using A(1,2) by auto
  then have pl: "pl < 4" "pl mod 2 = g" "int (pl div 2) = a div 23" using A(3) by (auto simp: pl_def)
  have "a = 23 * (a div 23) + int r" using A(1) by (simp add: r_def)
  moreover have "int i - (if 21 < i then 1 else 0) - (if 23 < i then 1 else 0) = int r" using r by (auto simp: i_def)
  ultimately have "a = action_at pl i" using pl(3) by (simp add: action_at_def)
  then show ?thesis using startD(8)[OF S A(3), of a "piece_at layout pl i"] i pl(1,2) by blast
qed

lemma mobile_at:
  assumes S: "start_position layout b" and pl: "pl < 4"
  shows "mobile (map_of (piece2pos b)) pl = piece_at layout pl ` field_squares (layout ! pl)"
proof -
  have hq: "pos_at pl i \<in> set HQ_SQUARES \<longleftrightarrow> i = 21 \<or> i = 23" if "i < 25" for i
  proof -
    have "pos_at pl i \<in> set HQ_SQUARES \<longleftrightarrow> POSITIONS ! i \<in> {26, 28}"
    proof -
      have "pl = 0 \<or> pl = 1 \<or> pl = 2 \<or> pl = 3" using pl by auto
      moreover have "0 \<le> POSITIONS ! i" "POSITIONS ! i < 30" using positions_table that by auto
      ultimately show ?thesis by (elim disjE) (auto simp: HQ_SQUARES_def pos_at_def)
    qed
    then show ?thesis using positions_table that by blast
  qed
  show ?thesis
    unfolding mobile_def field_squares_def startD(2)[OF S] using pl hq
    by (auto simp: image_def)
qed

lemma card_mobile:
  assumes S: "start_position layout b" and pl: "pl < 4"
  shows "card (mobile (map_of (piece2pos b)) pl) =
    20 + (if layout ! pl ! 21 = 0 then 1 else 0) + (if layout ! pl ! 23 = 0 then 1 else 0)"
proof -
  have "inj_on (piece_at layout pl) (field_squares (layout ! pl))"
    using same_piece[OF S] pl by (auto simp: inj_on_def field_squares_def)
  then show ?thesis unfolding mobile_at[OF S pl] by (simp add: card_image card_field[OF startD(1)[OF S pl]])
qed


section \<open>The masks\<close>

definition board_squares :: "nat \<Rightarrow> pos list" where
  "board_squares g = filter (\<lambda>p. (p div 30) mod 2 = int g \<and> p mod 30 \<in> set POSITIONS \<and> p mod 30 \<notin> {26, 28}) [0..119]"

lemma square_at:
  assumes "0 \<le> p" "p < 120" "p mod 30 \<in> set POSITIONS" "p mod 30 \<notin> {26, 28}" "(p div 30) mod 2 = int g"
  shows "\<exists>pl i. pl < 4 \<and> i < 25 \<and> i \<noteq> 21 \<and> i \<noteq> 23 \<and> pl mod 2 = g \<and> p = pos_at pl i"
proof -
  obtain i where i: "i < 25" "POSITIONS ! i = p mod 30" using assms(3) by (auto simp: in_set_conv_nth)
  let ?pl = "nat (p div 30)"
  have "?pl < 4" "p = pos_at ?pl i" using assms(1,2) i(2) by (auto simp: pos_at_def)
  moreover have "?pl mod 2 = g" using assms(1,5) by (simp add: nat_mod_as_int pos_imp_zdiv_nonneg_iff)
  moreover have "i \<noteq> 21" "i \<noteq> 23" using positions_table i assms(4) by auto
  ultimately show ?thesis using i(1) by blast
qed

lemma piece_on_square:
  assumes S: "start_position layout b" and g: "g < 2" and p: "p \<in> set ps"
    and ps: "list_all (\<lambda>p. 0 \<le> p \<and> p < 120 \<and> p mod 30 \<in> set POSITIONS \<and> p mod 30 \<notin> {26, 28} \<and> (p div 30) mod 2 = int g) ps"
  shows "\<exists>q. map_of (pos2piece b) p = Some q \<and> (role_of q = role \<longrightarrow> map_of (piece2action b ! g) q \<noteq> None)"
proof -
  obtain pl i where pi: "pl < 4" "i < 25" "i \<noteq> 21" "i \<noteq> 23" "pl mod 2 = g" "p = pos_at pl i"
    using square_at[of p g] p ps by (auto simp: list_all_iff)
  then have "map_of (pos2piece b) p = Some (piece_at layout pl i)" using startD(3)[OF S] by blast
  moreover have "map_of (piece2action b ! g) (piece_at layout pl i) = Some (action_at pl i)"
    using startD(7)[OF S g] pi by blast
  ultimately show ?thesis by simp
qed

abbreviation engineers_at :: "nat \<Rightarrow> pos list" where
  "engineers_at g \<equiv> (if g = 0 then [0, 2, 4, 60, 62, 64] else [30, 32, 34, 90, 92, 94])"

abbreviation mines_at :: "nat \<Rightarrow> pos list" where
  "mines_at g \<equiv> (if g = 0 then [20, 21, 22, 23, 24, 80, 81, 82, 83, 84] else [50, 51, 52, 53, 54, 110, 111, 112, 113, 114])"

definition first_mask :: "board \<Rightarrow> nat \<Rightarrow> bmask" where
  "first_mask b g = (\<lambda>i. if mask_hit b 0 g (mines_at g) [0..128] i then False
     else if mask_hit b 9 g (engineers_at g) [120..128] i then True else ACTION_MASK i)"

lemma init_action_mask_spec:
  assumes S: "start_position layout b" and m: "action_mask b = [ACTION_MASK, ACTION_MASK]"
  shows "init_action_mask b = Inr (b\<lparr>action_mask := [first_mask b 0, first_mask b 1]\<rparr>)"
proof -
  have sq: "\<exists>q. map_of (pos2piece b) p = Some q \<and> (role_of q = role \<longrightarrow> map_of (piece2action b ! g) q \<noteq> None)"
    if "g < 2" "p \<in> set ps" "ps = engineers_at g \<or> ps = mines_at g" for g p ps role
    using that(3,1) by (intro piece_on_square[OF S that(1,2)]) (auto simp: POSITIONS_def less_2_cases_iff)
  let ?E = "\<lambda>g i. if mask_hit b 9 g (engineers_at g) [120..128] i then True else ACTION_MASK i"
  define b1 where "b1 = b\<lparr>action_mask := [?E 0, ACTION_MASK]\<rparr>"
  define b2 where "b2 = b\<lparr>action_mask := [?E 0, ?E 1]\<rparr>"
  define b3 where "b3 = b\<lparr>action_mask := [first_mask b 0, ?E 1]\<rparr>"
  have h: "mask_hit (b\<lparr>action_mask := x\<rparr>) = mask_hit b" for x by (simp add: mask_hit_def fun_eq_iff)
  have 1: "foldE (init_mask_at 9 0 [120..128] True) (engineers_at 0) b = Inr b1"
    using init_masks_spec[of "engineers_at 0" b 9 0 "[120..128]" True] sq[of 0 _ "engineers_at 0" 9] m
    by (simp add: b1_def h)
  have 2: "foldE (init_mask_at 9 1 [120..128] True) (engineers_at 1) b1 = Inr b2"
    using init_masks_spec[of "engineers_at 1" b1 9 1 "[120..128]" True] sq[of 1 _ "engineers_at 1" 9]
    by (simp add: b1_def b2_def h)
  have 3: "foldE (init_mask_at 0 0 [0..128] False) (mines_at 0) b2 = Inr b3"
    using init_masks_spec[of "mines_at 0" b2 0 0 "[0..128]" False] sq[of 0 _ "mines_at 0" 0]
    by (simp add: b2_def b3_def h first_mask_def)
  have 4: "foldE (init_mask_at 0 1 [0..128] False) (mines_at 1) b3 =
    Inr (b\<lparr>action_mask := [first_mask b 0, first_mask b 1]\<rparr>)"
    using init_masks_spec[of "mines_at 1" b3 0 1 "[0..128]" False] sq[of 1 _ "mines_at 1" 0]
    by (simp add: b3_def h) (simp add: first_mask_def)
  show ?thesis
    unfolding init_action_mask_def engineer_positions_def mine_positions_def
    using 1 2 3 4 by (simp del: foldE.simps add: foldE.simps(2)[of "\<lambda>(x, y). _ x y"] foldE.simps(1)[of "\<lambda>(x, y). _ x y"])
qed

lemma late_rows_empty: "list_all (\<lambda>a. nbrs action_posmap a = []) [20, 21, 22, 43, 44, 45]"
  by code_simp

lemma row_unique:
  assumes S: "start_position layout b" and g: "g < 2" and "on_board c"
    and "map_of (piece2action b ! g) q = Some a" "map_of (piece2action b ! g) q' = Some a'"
    and "a * 129 + c = a' * 129 + off" "0 \<le> off" "off \<le> 128"
  shows "q' = q"
proof -
  have "a' = a" using assms(3,6-8) by auto
  then have "map_of (action2piece b ! g) a = Some q" "map_of (action2piece b ! g) a = Some q'"
    using assms(4,5) startD(7,8)[OF S g] by blast+
  then show ?thesis by simp
qed

lemma hit_role:
  assumes S: "start_position layout b" and g: "g < 2" and c: "on_board c"
    and a: "map_of (piece2action b ! g) q = Some a" and o: "set offs \<subseteq> {0..128}"
    and "mask_hit b role g ps offs (a * 129 + c)"
  shows "role_of q = role"
proof -
  obtain q' a' off where q': "role_of q' = role" "map_of (piece2action b ! g) q' = Some a'"
    "off \<in> set offs" "a * 129 + c = a' * 129 + off"
    using assms(6) unfolding mask_hit_def by blast
  have "0 \<le> off" "off \<le> 128" using o q'(3) by auto
  then show ?thesis using row_unique[OF S g c a q'(2,4)] q'(1) by simp
qed

text \<open>The row of a mine on the back ranks is cleared; the other squares of a mine have an empty row.\<close>

lemma mine_row:
  assumes S: "start_position layout b" and P: "pl < 4" "i < 25" "i \<noteq> 21" "i \<noteq> 23"
    and r: "layout ! pl ! i = 0" and c: "on_board c"
  shows "\<not> first_mask b (pl mod 2) (action_at pl i * 129 + c)"
proof -
  let ?g = "pl mod 2" and ?q = "piece_at layout pl i" and ?a = "action_at pl i"
  have g: "?g < 2" by simp
  have a: "map_of (piece2action b ! ?g) ?q = Some ?a" using startD(7)[OF S g] P by blast
  have i: "15 \<le> i" using startD(1)[OF S P(1)] r by (auto simp: valid_layout_def not_less[symmetric])
  have pls: "pl = 0 \<or> pl = 1 \<or> pl = 2 \<or> pl = 3" using P(1) by auto
  have ii: "i = 15 \<or> i = 16 \<or> i = 17 \<or> i = 18 \<or> i = 19 \<or> i = 20 \<or> i = 22 \<or> i = 24" 
  proof -
    have "i \<in> set [15..<25]" unfolding set_upt using i P(2) by simp
    then show ?thesis using P(3,4) by auto
  qed
  have no9: "\<not> mask_hit b 9 ?g ps [120..128] (?a * 129 + c)" for ps
    using hit_role[OF S g c a, of "[120..128]" 9 ps] r by auto
  show ?thesis
  proof (cases "i < 20")
    case True
    have "pos_at pl i \<in> set (mines_at ?g)"
      using pls ii True by (elim disjE) (simp_all add: pos_at_def POSITIONS_def)
    moreover have "map_of (pos2piece b) (pos_at pl i) = Some ?q" using startD(3)[OF S] P by blast
    ultimately have "mask_hit b 0 ?g (mines_at ?g) [0..128] (?a * 129 + c)"
      unfolding mask_hit_def using a r c by (intro bexI[of _ "pos_at pl i"] exI[of _ ?q] exI[of _ ?a] exI[of _ c]) auto
    then show ?thesis by (simp add: first_mask_def)
  next
    case False
    have "?a \<in> {20, 21, 22, 43, 44, 45}" using pls ii False by (elim disjE) (simp_all add: action_at_def)
    then have "nbrs action_posmap ?a = []" using late_rows_empty by auto
    then show ?thesis using no9 ACTION_MASK_row[OF c, of ?a] by (simp add: first_mask_def)
  qed
qed

lemma other_row:
  assumes S: "start_position layout b" and P: "pl < 4" "i < 25" "i \<noteq> 21" "i \<noteq> 23"
    and r: "layout ! pl ! i \<noteq> 0" "layout ! pl ! i \<noteq> 9" and c: "on_board c"
  shows "first_mask b (pl mod 2) (action_at pl i * 129 + c) \<longleftrightarrow>
    turned (pl mod 2) c \<in> targets (pos2piece b) (pos_at pl i)"
proof -
  let ?g = "pl mod 2" and ?q = "piece_at layout pl i" and ?a = "action_at pl i"
  have g: "?g < 2" by simp
  have a: "map_of (piece2action b ! ?g) ?q = Some ?a" using startD(7)[OF S g] P by blast
  have "\<not> mask_hit b 9 ?g ps [120..128] (?a * 129 + c)" "\<not> mask_hit b 0 ?g ps [0..128] (?a * 129 + c)" for ps
    using hit_role[OF S g c a, of "[120..128]" 9 ps] hit_role[OF S g c a, of "[0..128]" 0 ps] r by auto
  then have "first_mask b ?g (?a * 129 + c) \<longleftrightarrow> ACTION_MASK (?a * 129 + c)" by (simp add: first_mask_def)
  also have "\<dots> \<longleftrightarrow> c \<in> set (if ?g \<noteq> 0 then transform_pos (start_reach (pos_at pl i)) else start_reach (pos_at pl i))"
    by (rule start_row[OF P c])
  also have "set (start_reach (pos_at pl i)) = targets (pos2piece b) (pos_at pl i)"
    using start_reach_targets[OF start_at_home[OF S], of "pos_at pl i" ?q] startD(3)[OF S] P by blast
  then have "c \<in> set (if ?g \<noteq> 0 then transform_pos (start_reach (pos_at pl i)) else start_reach (pos_at pl i)) \<longleftrightarrow>
    (if ?g \<noteq> 0 then transform_pos_reverse_scalar c else c) \<in> targets (pos2piece b) (pos_at pl i)"
    using turned_mem[OF c, of "start_reach (pos_at pl i)" ?g] targets_bounds by auto
  also have "(if ?g \<noteq> 0 then transform_pos_reverse_scalar c else c) = turned ?g c" by (simp add: turned_def)
  finally show ?thesis .
qed

lemma start_masks_ok:
  assumes S: "start_position layout b" and m: "action_mask b = [first_mask b0 0, first_mask b0 1]"
    and S0: "start_position layout b0" and same: "pos2piece b0 = pos2piece b" "piece2pos b0 = piece2pos b"
      "action2piece b0 = action2piece b" "piece2action b0 = piece2action b"
  shows "masks_ok b"
proof -
  have f: "action_mask b ! g = first_mask b g" if "g < 2" for g
    using that m same by (auto simp: less_2_cases_iff first_mask_def mask_hit_def)
  have "row_exact b p" if "role_of p \<noteq> 9" "player_of p < 4" for p
    unfolding row_exact_def Let_def
  proof (intro allI impI)
    fix a assume a: "map_of (piece2action b ! (player_of p mod 2)) p = Some a"
    have g: "player_of p mod 2 < 2" by simp
    obtain pl i where P: "pl < 4" "i < 25" "i \<noteq> 21" "i \<noteq> 23" "pl mod 2 = player_of p mod 2"
      "p = piece_at layout pl i" "a = action_at pl i"
      using startD(7)[OF S g] a by blast
    have x: "map_of (piece2pos b) p = Some (pos_at pl i)" using startD(2)[OF S] P by blast
    show "row_is b (player_of p mod 2) a (legal_squares b p)"
      unfolding row_is_def P(5)[symmetric] f[OF g, folded P(5)] P(7)
      using mine_row[OF S P(1-4)] other_row[OF S P(1-4)] that(1) x P(6)
      by (auto simp: legal_squares_def squares_from_def)
  qed
  moreover have "map_of (action2piece b ! g) (i div 129) \<noteq> None" if "g < 2" "0 \<le> i" "i < 5934" for g i
    using all_rows[OF S, of "i div 129" g] that by (auto simp: pos_imp_zdiv_nonneg_iff)
  ultimately show ?thesis unfolding masks_ok_def by blast
qed

section \<open>The whole constructor\<close>

lemma start_of_placing:
  assumes v: "\<And>pl. pl < 4 \<Longrightarrow> valid_layout (layout ! pl)" and I: "placing layout 4 0 (counter, ids, b)"
  shows "start_position layout b"
proof -
  have d: "done_upto 4 0 pl i \<longleftrightarrow> pl < 4 \<and> i < 25" for pl i by (auto simp: done_upto_def)
  note D = placingD[OF I, unfolded d]
  show ?thesis unfolding start_position_def
    using v D(1-5,7,8) by (simp only: conj_assoc) blast
qed

lemma start_position_cong:
  assumes "pos2piece b' = pos2piece b" "piece2pos b' = piece2pos b"
    "action2piece b' = action2piece b" "piece2action b' = piece2action b"
  shows "start_position layout b' = start_position layout b"
  by (simp only: start_position_def assms)

lemma init_pieces_count_spec:
  assumes S: "start_position layout b" and c: "pieces_count b = [20, 20, 20, 20]"
  shows "\<exists>b'. init_pieces_count b = Inr b' \<and> counted b b' \<and>
    (\<forall>pl < 4. pieces_count b' ! pl =
      20 + (if layout ! pl ! 21 = 0 then 1 else 0) + (if layout ! pl ! 23 = 0 then 1 else 0))"
proof -
  have hq: "map_of (pos2piece b') (30 * int pl + 26) = Some (piece_at layout pl 21)"
    "map_of (pos2piece b') (30 * int pl + 28) = Some (piece_at layout pl 23)"
    if "counted b b'" "pl < 4" for b' pl
  proof -
    have e: "30 * int pl + 26 = pos_at pl 21" "30 * int pl + 28 = pos_at pl 23"
      by (simp_all add: pos_at_def POSITIONS_def)
    have "map_of (pos2piece b) (pos_at pl i) = Some (piece_at layout pl i)" if "i < 25" for i
      using startD(3)[OF S] that \<open>pl < 4\<close> by blast
    then show "map_of (pos2piece b') (30 * int pl + 26) = Some (piece_at layout pl 21)"
      "map_of (pos2piece b') (30 * int pl + 28) = Some (piece_at layout pl 23)"
      unfolding counted_pos2piece[OF that(1)] e by simp_all
  qed
  let ?n = "\<lambda>pl. (if layout ! pl ! 21 = 0 then 1 else 0) + (if layout ! pl ! 23 = 0 then 1 else (0::int))"
  have step: "\<exists>b''. foldE (init_count_at pl) (enumerate_list [30 * int pl + 26, 30 * int pl + 28]) b' = Inr b'' \<and>
      counted b b'' \<and> length (pieces_count b'') = 4 \<and>
      pieces_count b'' = (pieces_count b')[pl := pieces_count b' ! pl + ?n pl]"
    if "counted b b'" "pl < 4" "length (pieces_count b') = 4" for b' pl
    using init_counts_player[OF hq[OF that(1,2)], of pl] that counted_trans[OF that(1)]
    by (fastforce simp: add.assoc)
  have "counted b b" by (simp add: counted_def)
  from step[OF this, of 0] c obtain b0 where b0:
    "foldE (init_count_at 0) (enumerate_list [26, 28]) b = Inr b0" "counted b b0" "length (pieces_count b0) = 4"
    "pieces_count b0 = (pieces_count b)[0 := pieces_count b ! 0 + ?n 0]" by auto
  from step[OF b0(2), of 1] b0(3) obtain b1 where b1:
    "foldE (init_count_at 1) (enumerate_list [56, 58]) b0 = Inr b1" "counted b b1" "length (pieces_count b1) = 4"
    "pieces_count b1 = (pieces_count b0)[1 := pieces_count b0 ! 1 + ?n 1]" by auto
  from step[OF b1(2), of 2] b1(3) obtain b2 where b2:
    "foldE (init_count_at 2) (enumerate_list [86, 88]) b1 = Inr b2" "counted b b2" "length (pieces_count b2) = 4"
    "pieces_count b2 = (pieces_count b1)[2 := pieces_count b1 ! 2 + ?n 2]" by auto
  from step[OF b2(2), of 3] b2(3) obtain b3 where b3:
    "foldE (init_count_at 3) (enumerate_list [116, 118]) b2 = Inr b3" "counted b b3" "length (pieces_count b3) = 4"
    "pieces_count b3 = (pieces_count b2)[3 := pieces_count b2 ! 3 + ?n 3]" by auto
  have "init_pieces_count b = Inr b3"
    unfolding init_pieces_count_def flag_positions_def by (simp add: b0(1) b1(1)[unfolded One_nat_def] b2(1) b3(1))
  moreover have "pieces_count b3 ! pl = 20 + ?n pl" if "pl < 4" for pl
  proof -
    have "pl = 0 \<or> pl = 1 \<or> pl = 2 \<or> pl = 3" using that by auto
    then show ?thesis unfolding b3(4) b2(4) b1(4) b0(4) c by (elim disjE) simp_all
  qed
  ultimately show ?thesis using b3(2) by (auto simp: add.assoc)
qed

lemma start_rows_ok:
  assumes S: "start_position layout b" and len: "length (action_mask b) = 2" "length (influenced_pieces b) = 4"
      "length (engineer_pieces b) = 4"
    and E: "\<And>p. p \<in> dom (map_of (piece2pos b)) \<Longrightarrow> role_of p = 9 \<Longrightarrow> p \<in> set (engineer_pieces b ! player_of p)"
  shows "rows_ok b"
  unfolding rows_ok_def
proof (intro conjI allI impI)
  fix g p a assume g: "g < (2::nat)"
  show "map_of (piece2action b ! g) p = Some a \<longleftrightarrow> map_of (action2piece b ! g) a = Some p"
    by (simp only: startD(7,8)[OF S g])
next
  fix g p a assume g: "g < (2::nat)" and a: "map_of (piece2action b ! g) p = Some a"
  obtain pl i where P: "pl < 4" "i < 25" "i \<noteq> 21" "i \<noteq> 23" "pl mod 2 = g"
    "p = piece_at layout pl i" "a = action_at pl i"
    using startD(7)[OF S g] a by blast
  note B = row_bounds[OF S P(1-4)]
  have "map_of (piece2pos b) p = Some (pos_at pl i)" using startD(2)[OF S] P by blast
  then have "role_of p = 9 \<Longrightarrow> p \<in> set (engineer_pieces b ! player_of p)" using E by blast
  then show "player_of p < 4" "player_of p mod 2 = g" "role_of p \<le> 11" "role_of p \<noteq> 11" "0 \<le> a" "a < 46"
    "(a < 23) = (player_of p < 2)" "role_of p = 9 \<Longrightarrow> p \<in> set (engineer_pieces b ! player_of p)"
    using P B role_le[OF S P(1,2)] by simp_all
qed (use len startD(5,6)[OF S] in simp_all)

lemma new_board_spec:
  assumes l: "length layout = 4" and v: "\<And>pl. pl < 4 \<Longrightarrow> valid_layout (layout ! pl)"
  shows "\<exists>b. new_board layout = Inr b \<and> board_inv b \<and> start_position layout b \<and> dead_players b = [] \<and>
    step_count b = [0, 0, 0, 0]"
proof -
  define e where "e = \<lparr>b_layout = layout, pos2piece = [], piece2pos = [], action2piece = [[], []],
                 piece2action = [[], []], action_mask = [], influenced_pieces = [],
                 engineer_pieces = [], dead_players = [], step_count = [], pieces_count = [],
                 flag_pos = []\<rparr>"
  have "\<exists>counter ids. placing layout 4 0 (counter, ids, init_layout layout e)"
    using v length_valid by (intro init_layout_placing[OF l]) (simp_all add: e_def)
  then have S0: "start_position layout (init_layout layout e)" using start_of_placing v by blast
  define b1 where "b1 = (init_layout layout e)\<lparr>action_mask := [ACTION_MASK, ACTION_MASK]\<rparr>"
  have S1: "start_position layout b1" using S0 start_position_cong[of b1 "init_layout layout e"] by (simp add: b1_def)
  define b2 where "b2 = b1\<lparr>action_mask := [first_mask b1 0, first_mask b1 1]\<rparr>"
  have m: "init_action_mask b1 = Inr b2" using init_action_mask_spec[OF S1] by (simp add: b1_def b2_def)
  define b3 where "b3 = b2\<lparr>influenced_pieces := replicate 4 [], engineer_pieces := replicate 4 []\<rparr>"
  have S3: "start_position layout b3" using S1 start_position_cong[of b3 b1] by (simp add: b3_def b2_def)
  have "player_of p < 4" if "p \<in> dom (map_of (piece2pos b3))" for p
  proof -
    obtain x where "map_of (piece2pos b3) p = Some x" using \<open>p \<in> _\<close> by blast
    then show ?thesis using startD(2)[OF S3, of p x] by fastforce
  qed
  then obtain E where E: "init_engineer_pieces b3 = b3\<lparr>engineer_pieces := E\<rparr>" "length E = 4"
    "\<forall>p \<in> dom (map_of (piece2pos b3)). role_of p = 9 \<longrightarrow> p \<in> set (E ! player_of p)"
    using init_engineer_spec[of b3] by (auto simp: b3_def)
  define b4 where "b4 = b3\<lparr>engineer_pieces := E, dead_players := [], step_count := [0, 0, 0, 0],
    pieces_count := [20, 20, 20, 20], flag_pos := [0, 0, 0, 0]\<rparr>"
  have S4: "start_position layout b4" using S3 start_position_cong[of b4 b3] by (simp add: b4_def)
  have "pieces_count b4 = [20, 20, 20, 20]" by (simp add: b4_def)
  from init_pieces_count_spec[OF S4 this] obtain b5 where b5: "init_pieces_count b4 = Inr b5" "counted b4 b5"
    "\<forall>pl < 4. pieces_count b5 ! pl =
      20 + (if layout ! pl ! 21 = 0 then 1 else 0) + (if layout ! pl ! 23 = 0 then 1 else 0)" by blast
  have new: "new_board layout = Inr b5"
    unfolding new_board_def Let_def e_def[symmetric] b1_def[symmetric]
    using m E(1) b5(1) by (simp add: b3_def[symmetric] b4_def)
  have f: "pos2piece b5 = pos2piece b4" "piece2pos b5 = piece2pos b4" "action2piece b5 = action2piece b4"
    "piece2action b5 = piece2action b4" "action_mask b5 = action_mask b4" "influenced_pieces b5 = influenced_pieces b4"
    "engineer_pieces b5 = engineer_pieces b4" "dead_players b5 = dead_players b4" "step_count b5 = step_count b4"
    "length (pieces_count b5) = 4" "length (flag_pos b5) = 4"
    using b5(2) by (cases b4; cases b5; simp add: counted_def b4_def)+
  have S5: "start_position layout b5" using S4 start_position_cong f(1-4) by blast
  have "rows_ok b5"
    using E by (intro start_rows_ok[OF S5]) (auto simp: f b4_def b3_def b2_def)
  moreover have "masks_ok b5"
    using f by (intro start_masks_ok[OF S5 _ S1]) (simp_all add: b4_def b3_def b2_def)
  moreover have "hands_ok b5 {}"
    unfolding hands_ok_def lists_ok_def count_ok_def
    using b5(3) card_mobile[OF S5] by (auto simp: f b4_def)
  moreover have "flags_home b5"
    unfolding flags_home_def
  proof (intro allI impI)
    fix p x assume "map_of (piece2pos b5) p = Some x" "role_of p = 11"
    then obtain pl i where P: "pl < 4" "i < 25" "p = piece_at layout pl i" "x = pos_at pl i" "layout ! pl ! i = 11"
      using startD(2)[OF S5] by auto
    then have "i = 21 \<or> i = 23" using flag_unique(1)[OF v[OF P(1)] P(2,5)] by blast
    moreover have "pl = 0 \<or> pl = 1 \<or> pl = 2 \<or> pl = 3" using P(1) by auto
    ultimately show "x \<in> set HQ_SQUARES"
      unfolding P(4) by (elim disjE) (simp_all add: pos_at_def POSITIONS_def HQ_SQUARES_def)
  qed
  moreover have "skips_ok b5" unfolding skips_ok_def f
    by (auto simp: b4_def less_Suc_eq numeral_eq_Suc)
  ultimately show ?thesis
    using new S5 start_placed[OF S5] by (simp add: board_inv_def game_inv_def f) (simp add: b4_def)
qed

end
