(* ===== verification/Board_Layout.thy ===== *)
theory Board_Layout
  imports Board_Start
begin

text \<open>
  \<open>generate_layout\<close> of \<open>patch/board/board_util.py\<close>.  The random module is the parameter \<open>draw\<close>, the
  sequence of raw numbers drawn; \<open>random.choice(xs)\<close> is an element picked by the next number, and
  \<open>random.sample(xs, n)\<close> picks \<open>n\<close> times without replacement.  Whatever is drawn, no
  \<open>pop_with_range\<close> runs out of candidates and the layout is valid.
\<close>

section \<open>Random choices\<close>

type_synonym rng = "nat \<Rightarrow> nat"

definition choice :: "rng \<Rightarrow> nat \<Rightarrow> 'a list \<Rightarrow> 'a" where
  "choice draw k xs = xs ! (draw k mod length xs)"

definition pop_at :: "nat \<Rightarrow> 'a list \<Rightarrow> 'a list" where
  "pop_at i xs = take i xs @ drop (Suc i) xs"

fun random_sample :: "rng \<Rightarrow> nat \<Rightarrow> nat \<Rightarrow> 'a list \<Rightarrow> 'a list" where
  "random_sample draw k 0 xs = []"
| "random_sample draw k (Suc n) xs =
     (let i = draw k mod length xs in xs ! i # random_sample draw (Suc k) n (pop_at i xs))"

section \<open>The generator\<close>

type_synonym layout_state = "nat \<times> nat list \<times> nat option list"

definition pop_with_range :: "rng \<Rightarrow> nat \<Rightarrow> (nat \<Rightarrow> bool) \<Rightarrow> nat list \<Rightarrow> nat \<times> nat option \<times> nat list" where
  "pop_with_range draw k rule roles =
     (let candidates = map fst (filter (\<lambda>(i, v). rule v) (enumerate_list roles)) in
      if candidates = [] then (k, None, roles)
      else let idx = choice draw k candidates in (Suc k, Some (roles ! idx), pop_at idx roles))"

definition fill_square :: "rng \<Rightarrow> (nat \<Rightarrow> bool) \<Rightarrow> nat \<Rightarrow> layout_state \<Rightarrow> layout_state" where
  "fill_square draw rule p = (\<lambda>(k, roles, layout).
     let (k, r, roles) = pop_with_range draw k rule roles in (k, roles, layout[p := r]))"

definition free_squares :: "nat option list \<Rightarrow> nat list" where
  "free_squares layout = filter (\<lambda>i. layout ! i = None) [15..<25]"

definition generate_layout :: "rng \<Rightarrow> nat option list" where
  "generate_layout draw =
     (let roles = [0, 0, 0, 1, 2, 3, 3, 4, 4, 5, 5, 6, 6, 7, 7, 7, 8, 8, 8, 9, 9, 9, 10, 10];
          flag_pos = choice draw 0 [21, 23];
          layout = (replicate 25 None)[flag_pos := Some 11];
          other = (if flag_pos = 21 then 23 else 21);
          (k, role, roles) = pop_with_range draw 1 (\<lambda>i. i = 0 \<or> i = 7 \<or> i = 8) roles;
          layout = layout[other := role];
          num = count_list roles 0;
          roles = drop num roles;
          remove_num = random_sample draw k num (free_squares layout);
          k = k + num;
          layout = fold (\<lambda>i layout. layout[i := Some 0]) remove_num layout;
          st = fold (fill_square draw (\<lambda>i. i \<ge> 5)) (free_squares layout) (k, roles, layout);
          st = fold (fill_square draw (\<lambda>i. i \<noteq> 10)) [0..<5] st;
          (k, roles, layout) = fold (fill_square draw (\<lambda>i. True)) [5..<15] st
      in layout)"

section \<open>Picking\<close>

lemma mset_pop_at: "i < length xs \<Longrightarrow> mset xs = add_mset (xs ! i) (mset (pop_at i xs))"
proof -
  assume "i < length xs"
  then have "xs = take i xs @ xs ! i # drop (Suc i) xs" by (rule id_take_nth_drop)
  then have "mset xs = mset (take i xs @ xs ! i # drop (Suc i) xs)" by simp
  then show ?thesis by (simp add: pop_at_def)
qed

lemma sample_spec:
  assumes "distinct xs" "n \<le> length xs"
  shows "distinct (random_sample draw k n xs) \<and> set (random_sample draw k n xs) \<subseteq> set xs \<and> length (random_sample draw k n xs) = n"
  using assms
proof (induction n arbitrary: k xs)
  case (Suc n)
  let ?i = "draw k mod length xs"
  have i: "?i < length xs" using Suc.prems(2) by (auto intro: mod_less_divisor)
  note m = mset_pop_at[OF i]
  have "set xs = insert (xs ! ?i) (set (pop_at ?i xs))" using m by (metis set_mset_add_mset_insert set_mset_mset)
  moreover have "distinct (xs ! ?i # pop_at ?i xs)"
    using Suc.prems(1) m by (metis mset.simps(2) mset_eq_imp_distinct_iff)
  moreover have "length xs = Suc (length (pop_at ?i xs))" using i by (auto simp: pop_at_def)
  ultimately show ?case using Suc.IH[of "pop_at ?i xs" "Suc k"] Suc.prems(2) by (auto simp: Let_def)
qed simp

lemma pop_with_range_spec:
  assumes "\<exists>r \<in> set roles. rule r"
  shows "\<exists>i < length roles. pop_with_range draw k rule roles = (Suc k, Some (roles ! i), pop_at i roles) \<and>
    rule (roles ! i)"
proof -
  let ?c = "map fst (filter (\<lambda>(i, v). rule v) (enumerate_list roles))"
  have c: "set ?c = {i. i < length roles \<and> rule (roles ! i)}" by (force simp: set_enumerate_list image_iff)
  have "?c \<noteq> []" using assms c by (fastforce simp: in_set_conv_nth)
  then have "choice draw k ?c \<in> set ?c" unfolding choice_def by (intro nth_mem mod_less_divisor) simp
  then show ?thesis using c \<open>?c \<noteq> []\<close>
    by (auto simp: pop_with_range_def Let_def)
qed

lemma fill_squares_spec:
  assumes "distinct ps" "\<forall>p \<in> set ps. p < length layout" "size (filter_mset rule (mset roles)) \<ge> length ps"
  shows "\<exists>k' roles' vs. fold (fill_square draw rule) ps (k, roles, layout) =
      (k', roles', fold (\<lambda>(p, v) l. l[p := Some v]) (zip ps vs) layout) \<and>
    length vs = length ps \<and> mset roles = mset vs + mset roles' \<and> (\<forall>v \<in> set vs. rule v)"
  using assms
proof (induction ps arbitrary: k roles layout)
  case Nil
  then show ?case by simp
next
  case (Cons p ps)
  have "\<exists>r \<in> set roles. rule r"
  proof -
    have "filter rule roles \<noteq> []"
    proof
      assume "filter rule roles = []"
      then have sz: "size (filter_mset rule (mset roles)) = 0" unfolding mset_filter[symmetric] by simp
      show False using Cons.prems(3) unfolding sz by simp
    qed
    then show ?thesis by (auto simp: filter_empty_conv)
  qed
  from pop_with_range_spec[OF this, of draw k] obtain i where
    i: "i < length roles" "pop_with_range draw k rule roles = (Suc k, Some (roles ! i), pop_at i roles)" "rule (roles ! i)"
    by blast
  define r where "r = roles ! i"
  define roles1 where "roles1 = pop_at i roles"
  have r: "pop_with_range draw k rule roles = (Suc k, Some r, roles1)" "rule r" "mset roles = add_mset r (mset roles1)"
    using i mset_pop_at[OF i(1)] by (simp_all add: r_def roles1_def)
  have "size (filter_mset rule (mset roles1)) \<ge> length ps" using Cons.prems(3) r(2,3) by simp
  from Cons.IH[of "layout[p := Some r]" roles1 "Suc k"] this Cons.prems obtain k' roles' vs where
    "fold (fill_square draw rule) ps (Suc k, roles1, layout[p := Some r]) =
      (k', roles', fold (\<lambda>(p, v) l. l[p := Some v]) (zip ps vs) (layout[p := Some r]))"
    "length vs = length ps" "mset roles1 = mset vs + mset roles'" "\<forall>v \<in> set vs. rule v" by auto
  moreover have "fill_square draw rule p (k, roles, layout) = (Suc k, roles1, layout[p := Some r])"
    by (simp add: fill_square_def r(1))
  ultimately show ?case using r(2,3) by (intro exI[of _ k'] exI[of _ roles'] exI[of _ "r # vs"]) simp
qed

text \<open>Writing at distinct squares.\<close>

lemma nth_writes:
  assumes "distinct ps" "length vs = length ps" "\<forall>p \<in> set ps. p < length layout"
  shows "length (fold (\<lambda>(p, v) l. l[p := Some v]) (zip ps vs) layout) = length layout"
    "i \<notin> set ps \<Longrightarrow> fold (\<lambda>(p, v) l. l[p := Some v]) (zip ps vs) layout ! i = layout ! i"
    "j < length ps \<Longrightarrow> fold (\<lambda>(p, v) l. l[p := Some v]) (zip ps vs) layout ! (ps ! j) = Some (vs ! j)"
proof -
  have *: "length (fold (\<lambda>(p, v) l. l[p := Some v]) (zip ps vs) layout) = length layout \<and>
    (\<forall>i. i \<notin> set ps \<longrightarrow> fold (\<lambda>(p, v) l. l[p := Some v]) (zip ps vs) layout ! i = layout ! i) \<and>
    (\<forall>j < length ps. fold (\<lambda>(p, v) l. l[p := Some v]) (zip ps vs) layout ! (ps ! j) = Some (vs ! j))"
    using assms
  proof (induction ps arbitrary: vs layout)
    case (Cons p ps)
    obtain v vs' where vs: "vs = v # vs'" using Cons.prems(2) by (cases vs) auto
    show ?case using Cons.IH[of vs' "layout[p := Some v]"] Cons.prems
      by (auto simp: vs nth_Cons split: nat.splits)
  qed simp
  show "length (fold (\<lambda>(p, v) l. l[p := Some v]) (zip ps vs) layout) = length layout"
    "i \<notin> set ps \<Longrightarrow> fold (\<lambda>(p, v) l. l[p := Some v]) (zip ps vs) layout ! i = layout ! i"
    "j < length ps \<Longrightarrow> fold (\<lambda>(p, v) l. l[p := Some v]) (zip ps vs) layout ! (ps ! j) = Some (vs ! j)"
    using * by blast+
qed

section \<open>Validity\<close>

definition writes :: "nat list \<Rightarrow> nat list \<Rightarrow> nat option list \<Rightarrow> nat option list" where
  "writes ps vs layout = fold (\<lambda>(p, v) l. l[p := Some v]) (zip ps vs) layout"

text \<open>\<open>A\<close> is the set of squares filled so far; what stands there and the roles left are all the pieces.\<close>

definition partial_layout :: "nat set \<Rightarrow> nat list \<Rightarrow> nat option list \<Rightarrow> bool" where
  "partial_layout A roles layout \<longleftrightarrow>
     length layout = 25 \<and> A \<subseteq> {..<25} \<and> (\<forall>i < 25. layout ! i \<noteq> None \<longleftrightarrow> i \<in> A) \<and>
     image_mset (\<lambda>i. the (layout ! i)) (mset_set A) + mset roles = mset ROLES"

lemma partial_writes:
  assumes I: "partial_layout A roles layout" and ps: "distinct ps" "set ps \<subseteq> {..<25} - A"
    and vs: "length vs = length ps" "mset roles = mset vs + mset roles'"
  shows "partial_layout (A \<union> set ps) roles' (writes ps vs layout)"
    "i \<in> A \<Longrightarrow> writes ps vs layout ! i = layout ! i"
    "i \<in> set ps \<Longrightarrow> \<exists>v \<in> set vs. writes ps vs layout ! i = Some v"
proof -
  have J: "length layout = 25" "A \<subseteq> {..<25}" "\<And>i. i < 25 \<Longrightarrow> layout ! i \<noteq> None \<longleftrightarrow> i \<in> A"
    "image_mset (\<lambda>i. the (layout ! i)) (mset_set A) + mset roles = mset ROLES"
    using I unfolding partial_layout_def by blast+
  have fin: "finite A" using J(2) finite_subset by blast
  have W: "length (writes ps vs layout) = 25" "\<And>i. i \<notin> set ps \<Longrightarrow> writes ps vs layout ! i = layout ! i"
    "\<And>j. j < length ps \<Longrightarrow> writes ps vs layout ! (ps ! j) = Some (vs ! j)"
    using nth_writes[OF ps(1) vs(1), of layout] ps(2) J(1) unfolding writes_def by auto
  show old: "writes ps vs layout ! i = layout ! i" if "i \<in> A" for i using W(2) ps(2) that by blast
  show new: "\<exists>v \<in> set vs. writes ps vs layout ! i = Some v" if "i \<in> set ps" for i
    using W(3) that vs(1) by (fastforce simp: in_set_conv_nth)
  have "image_mset (\<lambda>i. the (writes ps vs layout ! i)) (mset ps) = mset vs"
  proof -
    have "map (\<lambda>i. the (writes ps vs layout ! i)) ps = vs"
      using W(3) vs(1) by (intro nth_equalityI) simp_all
    then show ?thesis by (metis mset_map)
  qed
  moreover have "image_mset (\<lambda>i. the (writes ps vs layout ! i)) (mset_set A) = image_mset (\<lambda>i. the (layout ! i)) (mset_set A)"
    using old fin by (intro image_mset_cong) simp
  moreover have "mset_set (A \<union> set ps) = mset_set A + mset ps"
    using fin ps by (subst mset_set_Union) (auto simp: mset_set_set)
  ultimately have "image_mset (\<lambda>i. the (writes ps vs layout ! i)) (mset_set (A \<union> set ps)) + mset roles' = mset ROLES"
    using J(4) vs(2) by (simp add: ac_simps)
  moreover have "writes ps vs layout ! i \<noteq> None \<longleftrightarrow> i \<in> A \<union> set ps" if "i < 25" for i
    using new[of i] W(2)[of i] J(3)[OF that] by (cases "i \<in> set ps") auto
  ultimately show "partial_layout (A \<union> set ps) roles' (writes ps vs layout)"
    unfolding partial_layout_def using W(1) J(2) ps(2) by auto
qed

lemma partial_fill:
  assumes I: "partial_layout A roles layout" and ps: "distinct ps" "set ps \<subseteq> {..<25} - A"
    and n: "length ps \<le> size (filter_mset rule (mset roles))"
  shows "\<exists>k' roles' layout'. fold (fill_square draw rule) ps (k, roles, layout) = (k', roles', layout') \<and>
    partial_layout (A \<union> set ps) roles' layout' \<and> (\<forall>i \<in> A. layout' ! i = layout ! i) \<and>
    (\<forall>i \<in> set ps. \<exists>v \<in> set roles. layout' ! i = Some v \<and> rule v) \<and>
    mset roles' \<subseteq># mset roles \<and> length roles' = length roles - length ps"
proof -
  have "\<forall>p \<in> set ps. p < length layout" using ps(2) I by (auto simp: partial_layout_def)
  from fill_squares_spec[OF ps(1) this n, of draw k] obtain k' roles' vs where
    F: "fold (fill_square draw rule) ps (k, roles, layout) = (k', roles', writes ps vs layout)"
    "length vs = length ps" "mset roles = mset vs + mset roles'" "\<forall>v \<in> set vs. rule v"
    unfolding writes_def by blast
  note P = partial_writes[OF I ps F(2,3)]
  have "set vs \<subseteq> set roles" using F(3) by (metis set_mset_mset set_mset_union sup_ge1)
  moreover have "length roles = length vs + length roles'" using F(3) by (metis size_mset size_union)
  moreover have "\<forall>i \<in> set ps. \<exists>v \<in> set roles. writes ps vs layout ! i = Some v \<and> rule v"
    using P(3) F(4) calculation(1) by blast
  ultimately show ?thesis using F P(1,2) by (intro exI[of _ k'] exI[of _ roles'] exI[of _ "writes ps vs layout"]) simp
qed

lemma zeros_first: "sorted (xs :: nat list) \<Longrightarrow> take (count_list xs 0) xs = replicate (count_list xs 0) 0"
proof (induction xs)
  case (Cons x xs)
  have "count_list xs 0 = 0" if "0 < x" using Cons.prems that by (auto simp: count_list_0_iff)
  then show ?case using Cons by (cases "x = 0") auto
qed simp

lemma sorted_pop_at: "sorted xs \<Longrightarrow> i < length xs \<Longrightarrow> sorted (pop_at i xs)"
proof -
  assume "sorted xs" "i < length xs"
  then have "sorted (take i xs @ xs ! i # drop (Suc i) xs)" using id_take_nth_drop by metis
  then show ?thesis by (auto simp: pop_at_def sorted_append)
qed

lemma fold_zeros: "fold (\<lambda>i layout. layout[i := Some 0]) ps layout = writes ps (replicate (length ps) 0) layout"
  by (induction ps arbitrary: layout) (simp_all add: writes_def)

lemma choice_mem: "xs \<noteq> [] \<Longrightarrow> choice draw k xs \<in> set xs"
  unfolding choice_def by (intro nth_mem mod_less_divisor) simp

abbreviation PIECES :: "nat list" where
  "PIECES \<equiv> [0, 0, 0, 1, 2, 3, 3, 4, 4, 5, 5, 6, 6, 7, 7, 7, 8, 8, 8, 9, 9, 9, 10, 10]"

lemma free_squares_facts:
  assumes "partial_layout A roles layout"
  shows "set (free_squares layout) = {15..<25} - A" "distinct (free_squares layout)"
    "length (free_squares layout) = card ({15..<25} - A)"
proof -
  have u: "i < 25 \<Longrightarrow> layout ! i = None \<longleftrightarrow> i \<notin> A" for i using assms unfolding partial_layout_def by blast
  show *: "set (free_squares layout) = {15..<25} - A"
    unfolding free_squares_def set_filter set_upt using u by fastforce
  show d: "distinct (free_squares layout)" by (simp add: free_squares_def)
  show "length (free_squares layout) = card ({15..<25} - A)" using distinct_card[OF d] unfolding * by simp
qed

lemma generate_layout_partial:
  "partial_layout {..<25} [] (generate_layout draw) \<and>
   (generate_layout draw ! 21 = Some 11 \<or> generate_layout draw ! 23 = Some 11) \<and>
   (\<forall>i < 15. generate_layout draw ! i \<noteq> Some 0) \<and> (\<forall>i < 5. generate_layout draw ! i \<noteq> Some 10)"
proof -
  define fp where "fp = choice draw 0 [21, 23 :: nat]"
  define ot where "ot = (if fp = 21 then 23 else 21 :: nat)"
  have "fp \<in> set [21, 23]" unfolding fp_def by (rule choice_mem) simp
  then have hq: "fp = 21 \<and> ot = 23 \<or> fp = 23 \<and> ot = 21" by (auto simp: ot_def)
  define l1 where "l1 = (replicate 25 None)[fp := Some (11 :: nat)]"
  have I1: "partial_layout {fp} PIECES l1"
    unfolding partial_layout_def l1_def using hq by (auto simp: nth_list_update ROLES_def split: if_splits)
  let ?rule = "\<lambda>i :: nat. i = 0 \<or> i = 7 \<or> i = 8"
  have "\<exists>r \<in> set PIECES. ?rule r" by simp
  from pop_with_range_spec[OF this, of draw 1] obtain j where
    j: "j < length PIECES" "pop_with_range draw 1 ?rule PIECES = (2, Some (PIECES ! j), pop_at j PIECES)" "?rule (PIECES ! j)"
    by (auto simp: numeral_2_eq_2)
  define r where "r = PIECES ! j"
  define R1 where "R1 = pop_at j PIECES"
  have mR1: "mset PIECES = add_mset r (mset R1)" unfolding r_def R1_def by (rule mset_pop_at[OF j(1)])
  have sR1: "sorted R1" unfolding R1_def by (rule sorted_pop_at[OF _ j(1)]) simp
  have r: "r = 0 \<or> r = 7 \<or> r = 8" using j(3) by (simp add: r_def)
  define l2 where "l2 = l1[ot := Some r]"
  have I2: "partial_layout {fp, ot} R1 l2" "l2 ! fp = Some 11"
    using partial_writes(1,2)[OF I1, of "[ot]" "[r]" R1] hq mR1 unfolding l2_def writes_def
    by (auto simp: insert_commute l1_def)
  define num where "num = count_list R1 0"
  define R2 where "R2 = drop num R1"
  have num: "num = (if r = 0 then 2 else 3)"
  proof -
    have "count (mset PIECES) 0 = count (add_mset r (mset R1)) 0" by (simp only: mR1)
    then show ?thesis by (auto simp: num_def count_mset)
  qed
  have mR2: "mset R1 = mset (replicate num 0) + mset R2"
    unfolding R2_def num_def zeros_first[OF sR1, symmetric] by (metis append_take_drop_id mset_append)
  have m2: "mset PIECES = add_mset r (replicate_mset num 0 + mset R2)" using mR1 mR2 by simp
  have no0: "0 \<notin> set R2"
  proof -
    have "count (mset PIECES) 0 = count (add_mset r (replicate_mset num 0 + mset R2)) 0" by (simp only: m2)
    then have "count_list R2 0 = 0" using num by (auto simp: count_mset split: if_splits)
    then show ?thesis by (simp add: count_list_0_iff)
  qed
  have len2: "length R2 = 23 - num"
  proof -
    have "size (mset PIECES) = size (add_mset r (replicate_mset num 0 + mset R2))" by (simp only: m2)
    then show ?thesis by simp
  qed
  have big: "14 \<le> size (filter_mset (\<lambda>i. 5 \<le> i) (mset R2))"
  proof -
    have "size (filter_mset (\<lambda>i. 5 \<le> i) (mset PIECES)) =
      size (filter_mset (\<lambda>i. 5 \<le> i) (add_mset r (replicate_mset num 0 + mset R2)))" by (simp only: m2)
    have z: "filter_mset (\<lambda>i. 5 \<le> i) (replicate_mset n (0::nat)) = {#}" for n by (induction n) auto
    have "size (filter_mset (\<lambda>i. 5 \<le> i) (mset PIECES)) = size (filter_mset (\<lambda>i. 5 \<le> i) (add_mset r (mset R2)))"
      unfolding m2 by (simp add: z)
    then show ?thesis using r by (auto split: if_splits)
  qed
  have tens: "count (mset R2) 10 \<le> 2"
  proof -
    have "count (mset PIECES) 10 = count (add_mset r (replicate_mset num 0 + mset R2)) 10" by (simp only: m2)
    then show ?thesis using r by (auto split: if_splits)
  qed
  have fs2: "length (free_squares l2) = 8"
  proof -
    have "{15..<25} - {fp, ot} = {15..<25} - {21, 23}" using hq by auto
    then show ?thesis unfolding free_squares_facts(3)[OF I2(1)] by (simp add: card_Diff_subset)
  qed
  define rm where "rm = random_sample draw 2 num (free_squares l2)"
  have rm: "distinct rm" "set rm \<subseteq> {15..<25} - {fp, ot}" "length rm = num"
    using sample_spec[OF free_squares_facts(2)[OF I2(1)], of num draw 2] fs2 num free_squares_facts(1)[OF I2(1)]
    unfolding rm_def by auto
  define l3 where "l3 = fold (\<lambda>i layout. layout[i := Some 0]) rm l2"
  have "set rm \<subseteq> {..<25} - {fp, ot}" using rm(2) by auto
  from partial_writes[OF I2(1) rm(1) this, of "replicate num 0" R2] rm(3) mR2
  have I3: "partial_layout ({fp, ot} \<union> set rm) R2 l3" "l3 ! fp = Some 11"
    unfolding l3_def fold_zeros using I2(2) by simp_all
  have fs3: "length (free_squares l3) = 8 - num"
  proof -
    have "{15..<25} - ({fp, ot} \<union> set rm) = ({15..<25} - {fp, ot}) - set rm" by auto
    then show ?thesis using rm fs2 free_squares_facts(3)[OF I2(1)] unfolding free_squares_facts(3)[OF I3(1)]
      by (simp add: card_Diff_subset distinct_card)
  qed
  have "set (free_squares l3) \<subseteq> {..<25} - ({fp, ot} \<union> set rm)"
    unfolding free_squares_facts(1)[OF I3(1)] by auto
  note fits = this
  have "length (free_squares l3) \<le> size (filter_mset (\<lambda>i. 5 \<le> i) (mset R2))" using fs3 big by linarith
  from partial_fill[OF I3(1) free_squares_facts(2)[OF I3(1)] fits this, of draw "2 + num"]
  obtain k4 R4 l4 where 4: "fold (fill_square draw (\<lambda>i. 5 \<le> i)) (free_squares l3) (2 + num, R2, l3) = (k4, R4, l4)"
    "partial_layout ({fp, ot} \<union> set rm \<union> set (free_squares l3)) R4 l4" "\<forall>i \<in> {fp, ot} \<union> set rm. l4 ! i = l3 ! i"
    "mset R4 \<subseteq># mset R2" "length R4 = length R2 - length (free_squares l3)"
    by blast
  have fp4: "l4 ! fp = Some 11" using 4(3) I3(2) by simp
  have len4: "length R4 = 15" using 4(5) len2 fs3 num by simp
  have A4: "{fp, ot} \<union> set rm \<union> set (free_squares l3) = {15..<25}"
    using hq rm(2) unfolding free_squares_facts(1)[OF I3(1)] by auto
  have "10 \<le> size (filter_mset (\<lambda>i. i \<noteq> 10) (mset R4))"
  proof -
    have "mset R4 = filter_mset (\<lambda>i. i = 10) (mset R4) + filter_mset (\<lambda>i. i \<noteq> 10) (mset R4)" by (rule multiset_partition)
    moreover have "size (filter_mset (\<lambda>i. i = 10) (mset R4)) = count (mset R4) 10" by (simp add: filter_eq_replicate_mset)
    moreover have "count (mset R4) 10 \<le> 2" using tens mset_subset_eq_count[OF 4(4), of 10] by linarith
    ultimately have "size (mset R4) \<le> 2 + size (filter_mset (\<lambda>i. i \<noteq> 10) (mset R4))"
      by (metis add_le_cancel_right size_union)
    then show ?thesis using len4 by simp
  qed
  then have "length [0..<5] \<le> size (filter_mset (\<lambda>i. i \<noteq> 10) (mset R4))" by simp
  moreover have "set [0..<5] \<subseteq> {..<25} - {15..<25::nat}" by auto
  ultimately obtain k5 R5 l5 where 5: "fold (fill_square draw (\<lambda>i. i \<noteq> 10)) [0..<5] (k4, R4, l4) = (k5, R5, l5)"
    "partial_layout ({15..<25} \<union> set [0..<5]) R5 l5" "\<forall>i \<in> {15..<25}. l5 ! i = l4 ! i"
    "\<forall>i \<in> set [0..<5]. \<exists>v \<in> set R4. l5 ! i = Some v \<and> v \<noteq> 10"
    "mset R5 \<subseteq># mset R4" "length R5 = 10"
    using partial_fill[OF 4(2)[unfolded A4], of "[0..<5]" "\<lambda>i. i \<noteq> 10" draw k4] len4 by auto
  have "length [5..<15] \<le> size (filter_mset (\<lambda>i. True) (mset R5))" using 5(6) by simp
  moreover have "set [5..<15] \<subseteq> {..<25} - ({15..<25} \<union> set [0..<5])" by auto
  ultimately obtain k6 R6 l6 where 6: "fold (fill_square draw (\<lambda>i. True)) [5..<15] (k5, R5, l5) = (k6, R6, l6)"
    "partial_layout ({15..<25} \<union> set [0..<5] \<union> set [5..<15]) R6 l6" "\<forall>i \<in> {15..<25} \<union> set [0..<5]. l6 ! i = l5 ! i"
    "\<forall>i \<in> set [5..<15]. \<exists>v \<in> set R5. l6 ! i = Some v" "length R6 = 0"
    using partial_fill[OF 5(2), of "[5..<15]" "\<lambda>i. True" draw k5] 5(6) by auto
  have gen: "generate_layout draw = l6"
    unfolding generate_layout_def Let_def fp_def[symmetric] ot_def[symmetric] l1_def[symmetric] j(2)[folded r_def R1_def] prod.case
      l2_def[symmetric] num_def[symmetric] R2_def[symmetric] rm_def[symmetric] l3_def[symmetric] 4(1) 5(1) 6(1) by simp
  have all: "{15..<25} \<union> set [0..<5] \<union> set [5..<15] = {..<25::nat}" unfolding set_upt by auto
  have "R6 = []" using 6(5) by simp
  then have full: "partial_layout {..<25} [] l6" using 6(2) unfolding all by simp
  have fp6: "l6 ! fp = Some 11" using hq fp4 5(3) 6(3) by auto
  have "set R4 \<subseteq> set R2" "set R5 \<subseteq> set R4" using 4(4) 5(5) by (metis set_mset_mono set_mset_mset)+
  then have no0': "0 \<notin> set R4" "0 \<notin> set R5" using no0 by auto
  have first: "\<exists>v. l6 ! i = Some v \<and> v \<noteq> 0 \<and> v \<noteq> 10" if "i < 5" for i
  proof -
    have i: "i \<in> set [0..<5]" using that by simp
    then obtain v where "v \<in> set R4" "l5 ! i = Some v" "v \<noteq> 10" using 5(4) by blast
    moreover have "l6 ! i = l5 ! i" using 6(3) i by blast
    ultimately show ?thesis using no0'(1) by metis
  qed
  have mid: "l6 ! i \<noteq> Some 0" if "5 \<le> i" "i < 15" for i
  proof -
    have "i \<in> set [5..<15]" unfolding set_upt using that by simp
    then obtain v where "v \<in> set R5" "l6 ! i = Some v" using 6(4) by blast
    then show ?thesis using no0'(2) by (metis option.inject)
  qed
  have no_mine: "l6 ! i \<noteq> Some 0" if "i < 15" for i
    using first[of i] mid[of i] that by (cases "i < 5") auto
  have no_bomb: "l6 ! i \<noteq> Some 10" if "i < 5" for i using first[OF that] by auto
  show ?thesis unfolding gen using full fp6 hq no_mine no_bomb by blast
qed

lemma generate_layout_valid:
  "\<exists>rs. generate_layout draw = map Some rs \<and> valid_layout rs"
proof -
  define layout where "layout = generate_layout draw"
  have L: "partial_layout {..<25} [] layout" "layout ! 21 = Some 11 \<or> layout ! 23 = Some 11"
    "\<And>i. i < 15 \<Longrightarrow> layout ! i \<noteq> Some 0" "\<And>i. i < 5 \<Longrightarrow> layout ! i \<noteq> Some 10"
    using generate_layout_partial[of draw] unfolding layout_def by blast+
  have len: "length layout = 25" and some: "\<And>i. i < 25 \<Longrightarrow> layout ! i \<noteq> None"
    and m: "image_mset (\<lambda>i. the (layout ! i)) (mset_set {..<25}) = mset ROLES"
    using L(1) unfolding partial_layout_def by auto
  define rs where "rs = map the layout"
  have nth: "i < 25 \<Longrightarrow> layout ! i = Some (rs ! i)" for i using some len by (auto simp: rs_def)
  have "layout = map Some rs" using len nth by (intro nth_equalityI) (auto simp: rs_def)
  moreover have "mset rs = mset ROLES"
  proof -
    have "rs = map (\<lambda>i. the (layout ! i)) [0..<25]"
      using len by (intro nth_equalityI) (simp_all add: rs_def del: upt_conv_Cons upt_rec_numeral)
    then have "mset rs = image_mset (\<lambda>i. the (layout ! i)) (mset [0..<25])" by (simp only: mset_map)
    also have "mset [0..<25] = mset_set {..<25::nat}" by (simp only: mset_upt atLeast0LessThan)
    finally show ?thesis using m by simp
  qed
  moreover have "rs ! 21 = 11 \<or> rs ! 23 = 11" using L(2) nth[of 21] nth[of 23] by auto
  moreover have "i < 15 \<Longrightarrow> rs ! i \<noteq> 0" "i < 5 \<Longrightarrow> rs ! i \<noteq> 10" for i
    using L(3)[of i] L(4)[of i] nth[of i] by auto
  ultimately show ?thesis unfolding valid_layout_def layout_def by blast
qed

text \<open>A game starts with four generated layouts, as the rollout does.\<close>

definition generated_board :: "rng \<Rightarrow> rng \<Rightarrow> rng \<Rightarrow> rng \<Rightarrow> board result" where
  "generated_board d0 d1 d2 d3 =
     new_board (map (map the) [generate_layout d0, generate_layout d1, generate_layout d2, generate_layout d3])"

lemma generated_board_inv: "\<exists>b. generated_board d0 d1 d2 d3 = Inr b \<and> board_inv b \<and> dead_players b = []"
proof -
  have g: "valid_layout (map the (generate_layout d))" for d
  proof -
    obtain rs where "generate_layout d = map Some rs" "valid_layout rs" using generate_layout_valid by blast
    then show ?thesis by (simp add: comp_def)
  qed
  have "valid_layout (map (map the) [generate_layout d0, generate_layout d1, generate_layout d2, generate_layout d3] ! pl)"
    if "pl < 4" for pl :: nat
  proof -
    have "pl = 0 \<or> pl = 1 \<or> pl = 2 \<or> pl = 3" using that by auto
    then show ?thesis using g by (elim disjE) simp_all
  qed
  then show ?thesis using new_board_spec[of "map (map the) [generate_layout d0, generate_layout d1, generate_layout d2, generate_layout d3]"]
    unfolding generated_board_def by auto
qed

end
