(* ===== verification/Board_Play.thy ===== *)
theory Board_Play
  imports Board_Layout
begin

text \<open>
  Playing: the contract between the board and whoever plays on it, stated as a locale and
  discharged by \<open>Board\<close>; the positions reachable from a valid start by looking at masks and carrying
  out actions they allow; and the properties of the board as a player sees them.
\<close>

section \<open>The contract of a board\<close>

text \<open>
  A client asks for the mask of a living player, picks an entry that is set (5934 is the skip) and
  plays it.  Event codes are below 5, 4 is the skip, and the ids of shown flags and of fallen
  players are in the range of the token tables.
\<close>

locale turn_game =
  fixes inv :: "'s \<Rightarrow> bool" and out :: "'s \<Rightarrow> nat list"
    and look :: "nat \<Rightarrow> 's \<Rightarrow> ((int \<Rightarrow> bool) option \<times> 's) result"
    and play :: "nat \<Rightarrow> int \<Rightarrow> 's \<Rightarrow> ((nat \<times> pos list \<times> nat list \<times> nat list \<times> real) \<times> 's) result"
  assumes look_ok: "\<lbrakk>inv s; k < 4; k \<notin> set (out s)\<rbrakk> \<Longrightarrow>
      \<exists>mk s'. look k s = Inr (Some mk, s') \<and> inv s' \<and> out s' = out s \<and> mk 5934"
    and look_out: "k \<in> set (out s) \<Longrightarrow> look k s = Inr (None, s)"
    and play_ok: "\<lbrakk>inv s; k < 4; k \<notin> set (out s); look k s = Inr (Some mk, s'); 0 \<le> i; i \<le> 5934; mk i\<rbrakk> \<Longrightarrow>
      \<exists>e path flags dead r s''. play k i s' = Inr ((e, path, flags, dead, r), s'') \<and> inv s'' \<and>
        out s'' = out s' @ dead \<and> (e = 4 \<longleftrightarrow> i = 5934) \<and> e \<le> 4 \<and> (\<forall>f \<in> set flags. f < 8)"
    and out_ok: "inv s \<Longrightarrow> distinct (out s) \<and> set (out s) \<subseteq> {..<4}"
begin

text \<open>A turn never raises, whatever allowed entry is picked.\<close>

lemma turn_total:
  assumes "inv s" "k < 4" "k \<notin> set (out s)"
  shows "\<exists>mk s'. look k s = Inr (Some mk, s') \<and> out s' = out s \<and> mk 5934 \<and>
    (\<forall>i. 0 \<le> i \<longrightarrow> i \<le> 5934 \<longrightarrow> mk i \<longrightarrow>
      (\<exists>e path flags dead r s''. play k i s' = Inr ((e, path, flags, dead, r), s'') \<and> inv s'' \<and>
        out s'' = out s @ dead \<and> distinct (out s @ dead) \<and> set (out s @ dead) \<subseteq> {..<4} \<and>
        (e = 4 \<longleftrightarrow> i = 5934) \<and> e \<le> 4 \<and> (\<forall>f \<in> set flags. f < 8)))"
proof -
  obtain mk s' where l: "look k s = Inr (Some mk, s')" "inv s'" "out s' = out s" "mk 5934"
    using look_ok[OF assms] by blast
  have "\<exists>e path flags dead r s''. play k i s' = Inr ((e, path, flags, dead, r), s'') \<and> inv s'' \<and>
        out s'' = out s @ dead \<and> distinct (out s @ dead) \<and> set (out s @ dead) \<subseteq> {..<4} \<and>
        (e = 4 \<longleftrightarrow> i = 5934) \<and> e \<le> 4 \<and> (\<forall>f \<in> set flags. f < 8)"
    if i: "0 \<le> i" "i \<le> 5934" "mk i" for i
  proof -
    obtain e path flags dead r s'' where p: "play k i s' = Inr ((e, path, flags, dead, r), s'')" "inv s''"
      "out s'' = out s' @ dead" "e = 4 \<longleftrightarrow> i = 5934" "e \<le> 4" "\<forall>f \<in> set flags. f < 8"
      using play_ok[OF assms l(1) i] by blast
    then show ?thesis using out_ok[OF p(2)] l(3) by auto
  qed
  then show ?thesis using l by blast
qed

end

text \<open>The extra invariant: the ids in \<open>flag_pos\<close> are those of the eight headquarters.\<close>

definition flags_numbered :: "board \<Rightarrow> bool" where
  "flags_numbered b \<longleftrightarrow> (\<forall>k < 4. flag_pos b ! k < 8)"

definition play_inv :: "board \<Rightarrow> bool" where
  "play_inv b \<longleftrightarrow> board_inv b \<and> flags_numbered b"

lemma shown_flags:
  assumes "f \<in> set (shown b p t dead)" "player_of p < 4" "\<And>q. t = Some q \<Longrightarrow> player_of q < 4" "flags_numbered b"
  shows "f < 8"
proof (cases t)
  case None
  then show ?thesis using assms(1) by (simp add: shown_def)
next
  case (Some q)
  then show ?thesis using assms
    by (cases "duel (role_of p) (role_of q)") (auto simp: shown_def reveal_def flags_numbered_def split: if_splits)
qed

lemma mask_same_game:
  assumes b: "board_inv b" and pl: "player < 4" "player \<notin> set (dead_players b)"
    and m: "get_action_mask player b = Inr (Some mk, b')"
  shows "board_inv b'" "pos2piece b' = pos2piece b" "piece2pos b' = piece2pos b" "dead_players b' = dead_players b"
    "step_count b' = step_count b" "flag_pos b' = flag_pos b" "decode player i b' = decode player i b"
    "legal_squares b' = legal_squares b"
    "0 \<le> i \<Longrightarrow> i < 5934 \<Longrightarrow> mk i = legal_action b player i" "mk 5934"
proof -
  have g: "placed b" "rows_ok b" "masks_ok b" using b by (auto simp: board_inv_def game_inv_def)
  obtain mk1 b1 where s: "get_action_mask player b = Inr (Some mk1, b1)"
    "b1 = b\<lparr>action_mask := action_mask b1, influenced_pieces := (influenced_pieces b)[player := []]\<rparr>"
    "\<And>i. 0 \<le> i \<Longrightarrow> i < 5934 \<Longrightarrow> mk1 i = legal_action b player i" "mk1 5934"
    using get_action_mask_spec[OF g pl] by blast
  then have e: "mk1 = mk" "b1 = b'" using m by simp_all
  show "pos2piece b' = pos2piece b" "piece2pos b' = piece2pos b" "dead_players b' = dead_players b"
    "step_count b' = step_count b" "flag_pos b' = flag_pos b"
    by (subst s(2)[unfolded e], simp)+
  then show "legal_squares b' = legal_squares b" by (simp add: legal_squares_def fun_eq_iff)
  show "decode player i b' = decode player i b" by (subst s(2)[unfolded e], simp add: decode_def)
  show "0 \<le> i \<Longrightarrow> i < 5934 \<Longrightarrow> mk i = legal_action b player i" "mk 5934" using s(3,4) e by auto
  show "board_inv b'" using get_action_mask_inv[OF b pl] m by auto
qed

lemma decode_skip: "rows_ok b \<Longrightarrow> player < 4 \<Longrightarrow> decode player 5934 b = Inr (p, c) \<Longrightarrow> False"
proof -
  assume ok: "rows_ok b" "player < 4" and d: "decode player 5934 b = Inr (p, c)"
  have g: "player mod 2 < 2" by simp
  have "map_of (piece2action b ! (player mod 2)) p = Some (5934 div 129)"
    using d rows_okD(6)[OF ok(1) g] by (simp add: decode_eq)
  from rows_okD(7)[OF ok(1) g this] show False by simp
qed

lemma play_allowed:
  assumes b: "play_inv b" and pl: "player < 4" "player \<notin> set (dead_players b)"
    and m: "get_action_mask player b = Inr (Some mk, b')" and i: "0 \<le> i" "i \<le> 5934" "mk i"
  shows "\<exists>e path flags dead r b''. update player i b' = Inr ((e, path, flags, dead, r), b'') \<and> play_inv b'' \<and>
    dead_players b'' = dead_players b' @ dead \<and> (e = 4 \<longleftrightarrow> i = 5934) \<and> e \<le> 4 \<and> (\<forall>f \<in> set flags. f < 8)"
proof -
  have bi: "board_inv b" and fl: "flags_numbered b" using b by (auto simp: play_inv_def)
  note S = mask_same_game[OF bi pl m]
  have pl': "player \<notin> set (dead_players b')" using S(4) pl(2) by simp
  have fl': "flags_numbered b'" using fl S(6) by (simp add: flags_numbered_def)
  show ?thesis
  proof (cases "i = 5934")
    case True
    from update_skip_spec[OF S(1) pl(1) pl'] obtain dead r b'' where
      u: "update player 5934 b' = Inr ((4, [], [], dead, r), b'')" "board_inv b''"
      "dead_players b'' = dead_players b' @ dead" "flag_pos b'' = flag_pos b'" by blast
    then show ?thesis using True fl' by (auto simp: play_inv_def flags_numbered_def)
  next
    case False
    then have "legal_action b' player i"
      using S(7-9) i by (auto simp: legal_action_def)
    from legal_action_move[OF S(1) pl(1) pl' this] obtain p x c where
      d: "decode player i b' = Inr (p, c)" "legal_move b' player p x c" "i \<noteq> 5934" by blast
    from update_move_spec[OF S(1) d(2,1,3)] obtain path out b'' where
      u: "update player i b' = Inr (out, b'')" "turn_result b' p c path out b''" "board_inv b''" by blast
    let ?t = "map_of (pos2piece b') c"
    obtain dead r where o: "out = (event_code p ?t, path, shown b' p ?t dead, dead, r)"
      "ended b' b'' (stand_after (map_of (piece2pos b')) p c ?t) dead"
      using u(2) unfolding turn_result_def Let_def by blast
    have "player_of p < 4" using legal_moveD(3,5)[OF d(2)] by simp
    then have "\<forall>f \<in> set (shown b' p ?t dead). f < 8"
      using shown_flags[OF _ _ _ fl'] legal_move_target(2)[OF d(2)] by blast
    moreover have "event_code p ?t < 4" by (auto simp: event_code_def split: option.splits duel_result.splits)
    moreover have "flags_numbered b''" using fl' o(2) by (simp add: flags_numbered_def ended_def frame_def)
    ultimately show ?thesis using u(1,3) o False by (auto simp: play_inv_def ended_def)
  qed
qed

interpretation junqi: turn_game play_inv dead_players get_action_mask update
proof unfold_locales
  fix s :: board and k assume s: "play_inv s" "k < 4" "k \<notin> set (dead_players s)"
  then have b: "board_inv s" "flags_numbered s" by (auto simp: play_inv_def)
  from get_action_mask_inv[OF b(1) s(2,3)] obtain mk s' where m: "get_action_mask k s = Inr (Some mk, s')" by blast
  note S = mask_same_game[OF b(1) s(2,3) m]
  show "\<exists>mk s'. get_action_mask k s = Inr (Some mk, s') \<and> play_inv s' \<and> dead_players s' = dead_players s \<and> mk 5934"
    using m S(1,4,6,10) b(2) by (auto simp: play_inv_def flags_numbered_def)
next
  fix k and s :: board assume "k \<in> set (dead_players s)"
  then show "get_action_mask k s = Inr (None, s)" by (simp add: get_action_mask_def)
next
  fix s :: board assume "play_inv s"
  then show "distinct (dead_players s) \<and> set (dead_players s) \<subseteq> {..<4}"
    by (auto simp: play_inv_def board_inv_def game_inv_def hands_ok_def lists_ok_def)
qed (use play_allowed in blast)

section \<open>Reachable positions\<close>

definition valid_layouts :: "nat list list \<Rightarrow> bool" where
  "valid_layouts layout \<longleftrightarrow> length layout = 4 \<and> (\<forall>rs \<in> set layout. valid_layout rs)"

inductive reachable :: "board \<Rightarrow> bool" where
  start: "valid_layouts layout \<Longrightarrow> new_board layout = Inr b \<Longrightarrow> reachable b"
| turn: "\<lbrakk>reachable b; player < 4; player \<notin> set (dead_players b);
     get_action_mask player b = Inr (Some mk, b1); 0 \<le> i; i \<le> 5934; mk i;
     update player i b1 = Inr (out, b2)\<rbrakk> \<Longrightarrow> reachable b2"

lemma init_pieces_count_flags:
  assumes "init_pieces_count b = Inr b'" "flags_numbered b"
  shows "flags_numbered b'"
  using assms(1) unfolding init_pieces_count_def
proof (rule foldE_invariant[where P = flags_numbered])
  show "flags_numbered b" by (rule assms(2))
next
  fix e s t assume e: "e \<in> set flag_positions" and s: "flags_numbered s"
    and t: "(case e of (player, positions) \<Rightarrow> foldE (init_count_at player) (enumerate_list positions)) s = Inr t"
  obtain player positions where pp: "e = (player, positions)" by (cases e)
  have b: "player < 4" "length positions = 2" using e unfolding pp flag_positions_def by auto
  from t[unfolded pp prod.case] show "flags_numbered t"
  proof (rule foldE_invariant[where P = flags_numbered, OF _ s])
    fix x u v assume x: "x \<in> set (enumerate_list positions)" and u: "flags_numbered u" and v: "init_count_at player x u = Inr v"
    obtain i p where ip: "x = (i, p)" "i < 2" using x b(2) by (auto simp: set_enumerate_list)
    obtain q where "map_of (pos2piece u) p = Some q" using v by (auto simp: ip(1) init_count_at_def bindE_eq_Inr)
    then have "flag_pos v = (if role_of q = 11 then (flag_pos u)[player := i + player * 2] else flag_pos u)"
      using v by (auto simp: ip(1) init_count_at_def Let_def)
    moreover have "(flag_pos u)[player := i + player * 2] ! k < 8" if "k < 4" for k
    proof (cases "k = player \<and> player < length (flag_pos u)")
      case True
      then show ?thesis using b(1) ip(2) by simp
    next
      case False
      then have "(flag_pos u)[player := i + player * 2] ! k = flag_pos u ! k" by (cases "k = player") (auto simp: list_update_beyond)
      then show ?thesis using u that by (simp add: flags_numbered_def)
    qed
    ultimately show "flags_numbered v" using u by (simp add: flags_numbered_def)
  qed
qed

lemma new_board_flags: "new_board layout = Inr b \<Longrightarrow> flags_numbered b"
proof -
  assume "new_board layout = Inr b"
  then obtain b1 where "init_pieces_count (b1\<lparr>dead_players := [], step_count := [0, 0, 0, 0], pieces_count := [20, 20, 20, 20],
             flag_pos := [0, 0, 0, 0]\<rparr>) = Inr b"
    unfolding new_board_def Let_def bindE_eq_Inr by blast
  then show ?thesis by (rule init_pieces_count_flags) (simp add: flags_numbered_def less_Suc_eq numeral_eq_Suc)
qed

lemma new_board_play:
  assumes "valid_layouts layout"
  shows "\<exists>b. new_board layout = Inr b \<and> play_inv b \<and> start_position layout b \<and> dead_players b = [] \<and> step_count b = [0, 0, 0, 0]"
  using new_board_spec[of layout] new_board_flags assms by (force simp: valid_layouts_def play_inv_def)

lemma reachable_play: "reachable b \<Longrightarrow> play_inv b"
proof (induction rule: reachable.induct)
  case (start layout b)
  then show ?case using new_board_play by fastforce
next
  case (turn b player mk b1 i out b2)
  from play_allowed[OF turn.IH turn.hyps(2-7)] turn.hyps(8) show ?case by auto
qed

end
