(* ===== verification/Board_Rules.thy ===== *)
theory Board_Rules
  imports Board_Play
begin

text \<open>
  The board as its players see it: the properties of the move tables, the masks and the turns, each
  with an instance on the starting position of one concrete layout.
\<close>

section \<open>A concrete start\<close>

definition demo_layout :: "nat list" where
  "demo_layout = [1, 2, 3, 3, 4, 4, 5, 5, 6, 6, 7, 7, 8, 8, 9, 0, 0, 0, 9, 9, 10, 11, 10, 7, 8]"

lemma demo_valid: "valid_layouts (replicate 4 demo_layout)"
proof -
  have "mset demo_layout = mset ROLES" by (simp add: demo_layout_def ROLES_def)
  then have "valid_layout demo_layout"
    by (simp add: valid_layout_def demo_layout_def All_less_Suc numeral_eq_Suc)
  then show ?thesis by (simp add: valid_layouts_def)
qed

lemma demo_start:
  obtains b where "new_board (replicate 4 demo_layout) = Inr b" "play_inv b"
    "start_position (replicate 4 demo_layout) b" "dead_players b = []" "step_count b = [0, 0, 0, 0]" "reachable b"
  using new_board_play[OF demo_valid] reachable.start[OF demo_valid] by blast

lemma demo_legal:
  assumes S: "start_position (replicate 4 demo_layout) b"
  shows "legal_action b 0 6"
proof -
  let ?l = "replicate 4 demo_layout"
  let ?p = "piece_at ?l 0 0"
  have p: "player_of ?p = 0" "role_of ?p = 1" by (simp_all add: piece_at_def demo_layout_def numeral_eq_Suc)
  have a: "action_at 0 0 = 0" "pos_at 0 0 = 0" by (simp_all add: action_at_def pos_at_def POSITIONS_def)
  have "map_of (action2piece b ! 0) 0 = Some ?p" using startD(8)[OF S, of 0 0 ?p] a by fastforce
  then have "decode 0 6 b = Inr (?p, 6)" by (simp add: decode_eq turned_def)
  moreover have x: "map_of (piece2pos b) ?p = Some 0" "map_of (pos2piece b) 0 = Some ?p"
    using startD(2)[OF S, of ?p 0] startD(3)[OF S, of 0 ?p] a by fastforce+
  moreover have "6 \<in> targets (pos2piece b) 0"
  proof -
    have "(0, 6) \<in> set camp_edges" by (simp add: mem_from_src_edges CAMP_SRC_def)
    moreover have "map_of (pos2piece b) 6 = None"
      using at_homeD(1)[OF start_at_home[OF S], of 6] by (simp add: home_def POSITIONS_def)
    ultimately show ?thesis unfolding mem_targets by (simp add: step_ok_def)
  qed
  ultimately show ?thesis using p by (simp add: legal_action_def legal_squares_def squares_from_def)
qed

section \<open>The tables\<close>

text \<open>C6. The prefix tree that \<open>make_pos2straight\<close> builds for a square holds exactly the ways along a
  railway line that start there: its paths are the prefixes of the rays, none lost by splitting a node.\<close>

theorem straight_lines:
  "trie_paths (trie_at POS2STRAIGHT a) = insert [] {p. p \<noteq> [] \<and> on_line (a # p)}"
proof -
  have "p \<in> trie_paths (straight_at a) \<longleftrightarrow> p = [] \<or> on_line (a # p)" for p
    using ray_path_iff[of p a] by (cases "p = []") auto
  then show ?thesis by (auto simp: trie_at_POS2STRAIGHT)
qed

text \<open>Turning the board by 90 degrees and back is the identity on the 129 squares, for the square of
  an action that a player of group 1 sends and for the array of squares written into a mask.\<close>

lemma transform_roundtrip:
  assumes "\<forall>p \<in> set ps. on_board p"
  shows "map transform_pos_reverse_scalar (transform_pos ps) = ps \<and>
    transform_pos (map transform_pos_reverse_scalar ps) = ps \<and> transform_pos_reverse (transform_pos ps) = ps"
proof -
  have "map transform_pos_reverse_scalar (transform_pos ps) = ps" "transform_pos (map transform_pos_reverse_scalar ps) = ps"
    using assms reverse_transform transform_reverse by (auto simp: transform_pos_def intro: map_idI)
  moreover have "transform_pos_reverse_elem p = transform_pos_reverse_scalar p" if "on_board p" for p
    using that by (simp add: transform_pos_reverse_elem_def transform_pos_reverse_scalar_def)
  ultimately show ?thesis using assms reverse_transform
    by (auto simp: transform_pos_reverse_def transform_pos_def transform_pos_reverse_elem_def
        transform_pos_reverse_scalar_def transform_pos_elem_def intro!: map_idI)
qed

text \<open>\<open>get_moves\<close> never trips over its duplicate-key assertion: it returns the squares reached by
  sliding along a free line or by one step, the pieces seen on the way, and a search tree in which
  every returned square leads back to the start by legal single steps.\<close>

lemma get_moves_total:
  "\<exists>ps qs par. get_moves a m = Inr (ps, qs, par) \<and> set ps = targets m a \<and> set qs = lookout m a \<and>
     good_parents a ps par \<and> (\<forall>x y. before par x = Some y \<longrightarrow> (x, y) \<in> slide m a \<union> hops m a)"
  by (rule get_moves_spec[of a m]) (auto simp: targets_def)

text \<open>C5. The same for engineers, who reach everything connected to them by free railway squares.\<close>

theorem get_engineer_moves_total:
  assumes "map_of m a = Some piece"
  shows "\<exists>ps qs par. get_engineer_moves a m = Inr (ps, qs, par) \<and> set ps = fst ` (ride m a \<union> hops m a) \<and>
     set qs = engineer_lookout m a \<and> good_parents a ps par"
  by (rule get_engineer_moves_spec[OF assms]) auto

theorem get_engineer_moves_total_witness:
  "\<exists>ps qs par. get_engineer_moves 0 [(0, (0, 9, 0))] = Inr (ps, qs, par) \<and> good_parents 0 ps par"
  using get_engineer_moves_total[of "[(0, (0, 9, 0))]" 0 "(0, 9, 0)"] by auto

text \<open>A piece that no changed square sees keeps its moves: if two boards differ on the squares \<open>D\<close> only and
  the piece is not in the lookout of any of them, its targets are the same.  This is what makes it
  enough to mark the pieces that \<open>update_influenced_pieces\<close> meets.\<close>

lemma targets_local:
  assumes "\<And>x. x \<notin> D \<Longrightarrow> map_of m x = map_of m' x" "a \<notin> D" "map_of m' a = Some q"
    "\<And>d. d \<in> D \<Longrightarrow> q \<notin> lookout m' d"
  shows "targets m a = targets m' a"
  using assms by (rule targets_frame)

section \<open>Starting a game\<close>

text \<open>C7. Whatever the random draws, \<open>generate_layout\<close> never runs out of candidates: it returns an arrangement of
  the 25 pieces with the flag in a headquarters, the mines on the last two rows and no bomb in front.\<close>

theorem layout_always_valid: "\<exists>rs. generate_layout draw = map Some rs \<and> valid_layout rs"
  by (rule generate_layout_valid)


section \<open>Turns\<close>

text \<open>C2. In every reachable position the mask shown to a living player has exactly the entries of his
  legal actions set, and the skip; nothing else of the game changes when it is computed.\<close>

theorem mask_exact:
  assumes "reachable b" "player < 4" "player \<notin> set (dead_players b)"
  shows "\<exists>mk b1. get_action_mask player b = Inr (Some mk, b1) \<and> mk 5934 \<and>
    (\<forall>i. 0 \<le> i \<longrightarrow> i < 5934 \<longrightarrow> mk i = legal_action b player i) \<and>
    board_inv b1 \<and> pos2piece b1 = pos2piece b \<and> piece2pos b1 = piece2pos b \<and> dead_players b1 = dead_players b"
proof -
  have b: "board_inv b" using reachable_play[OF assms(1)] by (simp add: play_inv_def)
  from get_action_mask_inv[OF b assms(2,3)] obtain mk b1 where m: "get_action_mask player b = Inr (Some mk, b1)" by blast
  show ?thesis using m mask_same_game[OF b assms(2,3) m] by blast
qed

theorem mask_exact_witness:
  "\<exists>b mk b1. new_board (replicate 4 demo_layout) = Inr b \<and> get_action_mask 0 b = Inr (Some mk, b1) \<and> mk 6"
proof -
  obtain b where b: "new_board (replicate 4 demo_layout) = Inr b" "start_position (replicate 4 demo_layout) b"
    "dead_players b = []" "reachable b" by (rule demo_start)
  have "(0::nat) \<notin> set (dead_players b)" using b(3) by simp
  then show ?thesis using mask_exact[OF b(4), of 0] demo_legal[OF b(2)] b(1) by auto
qed



text \<open>Skipping a turn always works; it costs 2 until the fifth skip, which ends the player, removes his
  pieces and costs what they are worth outside the headquarters.\<close>

lemma skip_rule:
  assumes "reachable b" "player < 4" "player \<notin> set (dead_players b)"
  shows "\<exists>dead r b'. update player 5934 b = Inr ((4, [], [], dead, r), b') \<and> board_inv b' \<and>
    dead_players b' = dead_players b @ dead \<and>
    dead = (if step_count b ! player = 4 then [player] else []) \<and>
    r = (if step_count b ! player = 4 then - hand_value b player else - 2) \<and>
    step_count b' = (step_count b)[player := step_count b ! player + 1] \<and>
    (\<forall>p. map_of (piece2pos b') p = (if player_of p \<in> set dead then None else map_of (piece2pos b) p))"
  using update_skip_spec[OF _ assms(2,3)] reachable_play[OF assms(1)] unfolding play_inv_def by blast

text \<open>C3. Every reachable position satisfies the whole invariant of the board, and in it every living player has a
  turn that cannot fail, whichever allowed action is chosen.\<close>

theorem game_never_stuck:
  assumes "reachable b" "player < 4" "player \<notin> set (dead_players b)"
  shows "play_inv b \<and> (\<exists>mk b1. get_action_mask player b = Inr (Some mk, b1) \<and>
    (\<forall>i. 0 \<le> i \<longrightarrow> i \<le> 5934 \<longrightarrow> mk i \<longrightarrow> (\<exists>out b2. update player i b1 = Inr (out, b2) \<and> play_inv b2)))"
proof -
  have p: "play_inv b" by (rule reachable_play[OF assms(1)])
  from junqi.turn_total[OF p assms(2,3)] show ?thesis using p by blast
qed

theorem game_never_stuck_witness:
  "\<exists>b mk b1 out b2. new_board (replicate 4 demo_layout) = Inr b \<and> get_action_mask 3 b = Inr (Some mk, b1) \<and>
     (mk 5934 \<longrightarrow> update 3 5934 b1 = Inr (out, b2) \<and> play_inv b2)"
proof -
  obtain b where b: "new_board (replicate 4 demo_layout) = Inr b" "dead_players b = []" "reachable b" by (rule demo_start)
  have "(3::nat) \<notin> set (dead_players b)" using b(2) by simp
  then show ?thesis using game_never_stuck[OF b(3), of 3] b(1) by fastforce
qed

end
