(* ===== verification/Sample_Types.thy ===== *)
theory Sample_Types
  imports Prelude
begin

text \<open>
  \<open>slime/utils/types.py\<close>: the sample that travels from the rollout to the trainer, with its statistics,
  its conversion to and from dictionaries and what it takes over from a response of the engine.
  A value of Python that crosses the boundary of a dictionary is a \<open>pyval\<close>; the record holds the
  declared type of each field, so \<open>from_dict\<close> reports a value of another type as \<open>TypeError\<close> (the
  dataclass itself would keep it unchecked).
\<close>

section \<open>Values\<close>

datatype pyval =
    PNone | PBool bool | PInt int | PFloat real | PStr string
  | PList "pyval list" | PDict "(string \<times> pyval) list"

definition of_option :: "('a \<Rightarrow> pyval) \<Rightarrow> 'a option \<Rightarrow> pyval" where
  "of_option f x = (case x of None \<Rightarrow> PNone | Some y \<Rightarrow> f y)"

definition of_list :: "('a \<Rightarrow> pyval) \<Rightarrow> 'a list \<Rightarrow> pyval" where
  "of_list f xs = PList (map f xs)"

fun to_bool :: "pyval \<Rightarrow> bool result" where
  "to_bool (PBool b) = Inr b"
| "to_bool _ = Inl TypeError"

fun to_int :: "pyval \<Rightarrow> int result" where
  "to_int (PInt i) = Inr i"
| "to_int _ = Inl TypeError"

fun to_float :: "pyval \<Rightarrow> real result" where
  "to_float (PFloat x) = Inr x"
| "to_float _ = Inl TypeError"

fun to_str :: "pyval \<Rightarrow> string result" where
  "to_str (PStr s) = Inr s"
| "to_str _ = Inl TypeError"

fun to_list :: "(pyval \<Rightarrow> 'a result) \<Rightarrow> pyval \<Rightarrow> 'a list result" where
  "to_list f (PList vs) = mapE f vs"
| "to_list f _ = Inl TypeError"

fun to_dict :: "pyval \<Rightarrow> (string, pyval) dict result" where
  "to_dict (PDict d) = Inr d"
| "to_dict _ = Inl TypeError"

definition to_option :: "(pyval \<Rightarrow> 'a result) \<Rightarrow> pyval \<Rightarrow> 'a option result" where
  "to_option f v = (if v = PNone then Inr None else bindE (f v) (\<lambda>x. Inr (Some x)))"

lemma to_list_of_list: "(\<And>x. f (g x) = Inr x) \<Longrightarrow> to_list f (of_list g xs) = Inr xs"
  by (induction xs) (auto simp: of_list_def)

lemma to_option_of_option:
  "(\<And>x. f (g x) = Inr x) \<Longrightarrow> (\<And>x. g x \<noteq> PNone) \<Longrightarrow> to_option f (of_option g x) = Inr x"
  by (cases x) (auto simp: to_option_def of_option_def)

lemma of_list_not_None [simp]: "of_list g xs \<noteq> PNone"
  by (simp add: of_list_def)

section \<open>Statistics\<close>

record spec_info =
  spec_accept_token_num :: int
  spec_draft_token_num :: int
  spec_verify_ct :: int
  completion_token_num :: int

definition spec_info_new :: spec_info where
  "spec_info_new = \<lparr>spec_accept_token_num = 0, spec_draft_token_num = 0, spec_verify_ct = 0, completion_token_num = 0\<rparr>"

definition spec_accept_rate :: "spec_info \<Rightarrow> real" where
  "spec_accept_rate s =
     (if spec_draft_token_num s > 0 then real_of_int (spec_accept_token_num s) / real_of_int (spec_draft_token_num s) else 0)"

definition spec_accept_length :: "spec_info \<Rightarrow> real" where
  "spec_accept_length s =
     (if spec_verify_ct s > 0 then real_of_int (completion_token_num s) / real_of_int (spec_verify_ct s) else 0)"

text \<open>\<open>meta_info.get(key, 0)\<close>, used in arithmetic.\<close>

definition get_count :: "(string, pyval) dict \<Rightarrow> string \<Rightarrow> int result" where
  "get_count d k = to_int (dget_default d k (PInt 0))"

definition spec_info_add :: "(string, pyval) dict \<Rightarrow> spec_info \<Rightarrow> spec_info result" where
  "spec_info_add meta s =
     bindE (get_count meta ''spec_accept_token_num'') (\<lambda>a.
     bindE (get_count meta ''spec_draft_token_num'') (\<lambda>d.
     bindE (get_count meta ''spec_verify_ct'') (\<lambda>v.
     bindE (get_count meta ''completion_tokens'') (\<lambda>c.
       Inr \<lparr>spec_accept_token_num = spec_accept_token_num s + a, spec_draft_token_num = spec_draft_token_num s + d,
            spec_verify_ct = spec_verify_ct s + v, completion_token_num = completion_token_num s + c\<rparr>))))"

definition spec_info_to_dict :: "spec_info \<Rightarrow> (string, pyval) dict" where
  "spec_info_to_dict s =
     [(''spec_accept_token_num'', PInt (spec_accept_token_num s)), (''spec_draft_token_num'', PInt (spec_draft_token_num s)),
      (''spec_verify_ct'', PInt (spec_verify_ct s)), (''completion_token_num'', PInt (completion_token_num s))]"

definition spec_info_from_dict :: "(string, pyval) dict \<Rightarrow> spec_info result" where
  "spec_info_from_dict d =
     bindE (get_count d ''spec_accept_token_num'') (\<lambda>a.
     bindE (get_count d ''spec_draft_token_num'') (\<lambda>dr.
     bindE (get_count d ''spec_verify_ct'') (\<lambda>v.
     bindE (get_count d ''completion_token_num'') (\<lambda>c.
       Inr \<lparr>spec_accept_token_num = a, spec_draft_token_num = dr, spec_verify_ct = v, completion_token_num = c\<rparr>))))"

record prefix_cache_info =
  cached_tokens :: int
  total_prompt_tokens :: int

definition prefix_cache_info_new :: prefix_cache_info where
  "prefix_cache_info_new = \<lparr>cached_tokens = 0, total_prompt_tokens = 0\<rparr>"

definition prefix_cache_hit_rate :: "prefix_cache_info \<Rightarrow> real" where
  "prefix_cache_hit_rate s =
     (if total_prompt_tokens s > 0 then real_of_int (cached_tokens s) / real_of_int (total_prompt_tokens s) else 0)"

definition prefix_cache_add :: "(string, pyval) dict \<Rightarrow> prefix_cache_info \<Rightarrow> prefix_cache_info result" where
  "prefix_cache_add meta s =
     bindE (get_count meta ''cached_tokens'') (\<lambda>c.
     bindE (get_count meta ''prompt_tokens'') (\<lambda>t.
       Inr \<lparr>cached_tokens = cached_tokens s + c, total_prompt_tokens = total_prompt_tokens s + t\<rparr>))"

definition prefix_cache_to_dict :: "prefix_cache_info \<Rightarrow> (string, pyval) dict" where
  "prefix_cache_to_dict s =
     [(''cached_tokens'', PInt (cached_tokens s)), (''total_prompt_tokens'', PInt (total_prompt_tokens s))]"

definition prefix_cache_from_dict :: "(string, pyval) dict \<Rightarrow> prefix_cache_info result" where
  "prefix_cache_from_dict d =
     bindE (get_count d ''cached_tokens'') (\<lambda>c.
     bindE (get_count d ''total_prompt_tokens'') (\<lambda>t.
       Inr \<lparr>cached_tokens = c, total_prompt_tokens = t\<rparr>))"

section \<open>The sample\<close>

datatype status = PENDING | COMPLETED | TRUNCATED | ABORTED | FAILED

definition status_value :: "status \<Rightarrow> string" where
  "status_value s = (case s of PENDING \<Rightarrow> ''pending'' | COMPLETED \<Rightarrow> ''completed'' | TRUNCATED \<Rightarrow> ''truncated''
     | ABORTED \<Rightarrow> ''aborted'' | FAILED \<Rightarrow> ''failed'')"

definition status_of :: "pyval \<Rightarrow> status result" where
  "status_of v =
     (case List.find (\<lambda>s. v = PStr (status_value s)) [PENDING, COMPLETED, TRUNCATED, ABORTED, FAILED] of
        None \<Rightarrow> Inl ValueError | Some s \<Rightarrow> Inr s)"

record sample =
  smp_group_index :: "int option"
  smp_index :: "int option"
  smp_prompt :: pyval
  smp_tokens :: "int list"
  smp_multimodal_inputs :: pyval
  smp_multimodal_train_inputs :: pyval
  smp_response :: string
  smp_response_length :: int
  smp_label :: "string option"
  smp_reward :: pyval
  smp_loss_mask :: "int list option"
  smp_weight_versions :: "string list"
  smp_rollout_log_probs :: "real list option"
  smp_rollout_routed_experts :: pyval
  smp_remove_sample :: bool
  smp_teacher_log_probs :: "real list option"
  smp_logits_masks :: "int list list option"
  smp_status :: status
  smp_metadata :: "(string, pyval) dict"
  smp_generate_function_path :: "string option"
  smp_train_metadata :: pyval
  smp_session_id :: "string option"
  smp_non_generation_time :: real
  smp_spec_info :: spec_info
  smp_prefix_cache_info :: prefix_cache_info
  smp_extra :: "(string, pyval) dict"

text \<open>\<open>Sample()\<close>: every field at its default.\<close>

definition sample_new :: sample where
  "sample_new = \<lparr>smp_group_index = None, smp_index = None, smp_prompt = PStr [], smp_tokens = [],
     smp_multimodal_inputs = PNone, smp_multimodal_train_inputs = PNone, smp_response = [], smp_response_length = 0,
     smp_label = None, smp_reward = PNone, smp_loss_mask = None, smp_weight_versions = [], smp_rollout_log_probs = None,
     smp_rollout_routed_experts = PNone, smp_remove_sample = False, smp_teacher_log_probs = None, smp_logits_masks = None,
     smp_status = PENDING, smp_metadata = [], smp_generate_function_path = None, smp_train_metadata = PNone,
     smp_session_id = None, smp_non_generation_time = 0, smp_spec_info = spec_info_new,
     smp_prefix_cache_info = prefix_cache_info_new, smp_extra = []\<rparr>"

definition field_names :: "string list" where
  "field_names =
     [''group_index'', ''index'', ''prompt'', ''tokens'', ''multimodal_inputs'', ''multimodal_train_inputs'', ''response'',
      ''response_length'', ''label'', ''reward'', ''loss_mask'', ''weight_versions'', ''rollout_log_probs'',
      ''rollout_routed_experts'', ''remove_sample'', ''teacher_log_probs'', ''logits_masks'', ''status'', ''metadata'',
      ''generate_function_path'', ''train_metadata'', ''session_id'', ''non_generation_time'', ''spec_info'',
      ''prefix_cache_info'']"

text \<open>\<open>__dict__\<close> in the order of the fields, then the attributes that were set besides them.\<close>

definition sample_to_dict :: "sample \<Rightarrow> (string, pyval) dict" where
  "sample_to_dict s =
     zip field_names
       [of_option PInt (smp_group_index s), of_option PInt (smp_index s), smp_prompt s, of_list PInt (smp_tokens s),
        smp_multimodal_inputs s, smp_multimodal_train_inputs s, PStr (smp_response s), PInt (smp_response_length s),
        of_option PStr (smp_label s), smp_reward s, of_option (of_list PInt) (smp_loss_mask s),
        of_list PStr (smp_weight_versions s), of_option (of_list PFloat) (smp_rollout_log_probs s),
        smp_rollout_routed_experts s, PBool (smp_remove_sample s), of_option (of_list PFloat) (smp_teacher_log_probs s),
        of_option (of_list (of_list PInt)) (smp_logits_masks s), PStr (status_value (smp_status s)), PDict (smp_metadata s),
        of_option PStr (smp_generate_function_path s), smp_train_metadata s, of_option PStr (smp_session_id s),
        PFloat (smp_non_generation_time s), PDict (spec_info_to_dict (smp_spec_info s)),
        PDict (prefix_cache_to_dict (smp_prefix_cache_info s))]
     @ smp_extra s"

definition field :: "(string, pyval) dict \<Rightarrow> string \<Rightarrow> 'a \<Rightarrow> (pyval \<Rightarrow> 'a result) \<Rightarrow> 'a result" where
  "field d k dflt f = (case map_of d k of None \<Rightarrow> Inr dflt | Some v \<Rightarrow> f v)"

definition sample_from_dict :: "(string, pyval) dict \<Rightarrow> sample result" where
  "sample_from_dict d =
     bindE (dget d ''status'') (\<lambda>v. bindE (status_of v) (\<lambda>st.
     bindE (bindE (to_dict (dget_default d ''spec_info'' (PDict []))) spec_info_from_dict) (\<lambda>si.
     bindE (bindE (to_dict (dget_default d ''prefix_cache_info'' (PDict []))) prefix_cache_from_dict) (\<lambda>ci.
     bindE (field d ''group_index'' None (to_option to_int)) (\<lambda>group_index.
     bindE (field d ''index'' None (to_option to_int)) (\<lambda>index.
     bindE (field d ''prompt'' (PStr []) Inr) (\<lambda>prompt.
     bindE (field d ''tokens'' [] (to_list to_int)) (\<lambda>tokens.
     bindE (field d ''multimodal_inputs'' PNone Inr) (\<lambda>multimodal_inputs.
     bindE (field d ''multimodal_train_inputs'' PNone Inr) (\<lambda>multimodal_train_inputs.
     bindE (field d ''response'' [] to_str) (\<lambda>response.
     bindE (field d ''response_length'' 0 to_int) (\<lambda>response_length.
     bindE (field d ''label'' None (to_option to_str)) (\<lambda>label.
     bindE (field d ''reward'' PNone Inr) (\<lambda>reward.
     bindE (field d ''loss_mask'' None (to_option (to_list to_int))) (\<lambda>loss_mask.
     bindE (field d ''weight_versions'' [] (to_list to_str)) (\<lambda>weight_versions.
     bindE (field d ''rollout_log_probs'' None (to_option (to_list to_float))) (\<lambda>rollout_log_probs.
     bindE (field d ''rollout_routed_experts'' PNone Inr) (\<lambda>experts.
     bindE (field d ''remove_sample'' False to_bool) (\<lambda>remove_sample.
     bindE (field d ''teacher_log_probs'' None (to_option (to_list to_float))) (\<lambda>teacher_log_probs.
     bindE (field d ''logits_masks'' None (to_option (to_list (to_list to_int)))) (\<lambda>logits_masks.
     bindE (field d ''metadata'' [] to_dict) (\<lambda>metadata.
     bindE (field d ''generate_function_path'' None (to_option to_str)) (\<lambda>path.
     bindE (field d ''train_metadata'' PNone Inr) (\<lambda>train_metadata.
     bindE (field d ''session_id'' None (to_option to_str)) (\<lambda>session_id.
     bindE (field d ''non_generation_time'' 0 to_float) (\<lambda>time.
       Inr \<lparr>smp_group_index = group_index, smp_index = index, smp_prompt = prompt, smp_tokens = tokens,
            smp_multimodal_inputs = multimodal_inputs, smp_multimodal_train_inputs = multimodal_train_inputs,
            smp_response = response, smp_response_length = response_length, smp_label = label, smp_reward = reward,
            smp_loss_mask = loss_mask, smp_weight_versions = weight_versions, smp_rollout_log_probs = rollout_log_probs,
            smp_rollout_routed_experts = experts, smp_remove_sample = remove_sample,
            smp_teacher_log_probs = teacher_log_probs, smp_logits_masks = logits_masks, smp_status = st,
            smp_metadata = metadata, smp_generate_function_path = path, smp_train_metadata = train_metadata,
            smp_session_id = session_id, smp_non_generation_time = time, smp_spec_info = si, smp_prefix_cache_info = ci,
            smp_extra = filter (\<lambda>(k, v). k \<notin> set field_names) d\<rparr>))))))))))))))))))))))))))"

text \<open>\<open>get_reward_value\<close>: an empty \<open>reward_key\<close> counts as none.\<close>

definition get_reward_value :: "string option \<Rightarrow> sample \<Rightarrow> pyval result" where
  "get_reward_value reward_key s =
     (case reward_key of None \<Rightarrow> Inr (smp_reward s)
      | Some k \<Rightarrow> if k = [] then Inr (smp_reward s) else bindE (to_dict (smp_reward s)) (\<lambda>d. dget d k))"

definition effective_response_length :: "sample \<Rightarrow> int" where
  "effective_response_length s =
     (case smp_loss_mask s of Some m \<Rightarrow> sum_list m | None \<Rightarrow> smp_response_length s)"

definition update_from_meta_info :: "bool \<Rightarrow> (string, pyval) dict \<Rightarrow> sample \<Rightarrow> sample result" where
  "update_from_meta_info speculative meta s =
     bindE (if speculative then spec_info_add meta (smp_spec_info s) else Inr (smp_spec_info s)) (\<lambda>si.
     bindE (prefix_cache_add meta (smp_prefix_cache_info s)) (\<lambda>ci.
     bindE (case map_of meta ''weight_version'' of None \<Rightarrow> Inr (smp_weight_versions s)
            | Some v \<Rightarrow> bindE (to_str v) (\<lambda>w. Inr (smp_weight_versions s @ [w]))) (\<lambda>versions.
     bindE (dget meta ''finish_reason'') (\<lambda>fr. bindE (to_dict fr) (\<lambda>fr. bindE (dget fr ''type'') (\<lambda>ty.
       let st = (if ty = PStr ''length'' then TRUNCATED else if ty = PStr ''abort'' then ABORTED
                 else if ty = PStr ''stop'' then COMPLETED else smp_status s) in
       Inr (s\<lparr>smp_spec_info := si, smp_prefix_cache_info := ci, smp_weight_versions := versions, smp_status := st\<rparr>)))))))"

section \<open>Multimodal types\<close>

record multimodal_type =
  mm_name :: string
  mm_placeholder :: string

definition multimodal_all :: "multimodal_type list" where
  "multimodal_all =
     [\<lparr>mm_name = ''image'', mm_placeholder = ''<image>''\<rparr>, \<lparr>mm_name = ''video'', mm_placeholder = ''<video>''\<rparr>,
      \<lparr>mm_name = ''audio'', mm_placeholder = ''<audio>''\<rparr>]"

definition multimodal_get :: "string \<Rightarrow> multimodal_type option" where
  "multimodal_get name = List.find (\<lambda>m. mm_name m = name) multimodal_all"

section \<open>Round trip\<close>

lemma get_count_simps [simp]: "map_of d k = Some (PInt i) \<Longrightarrow> get_count d k = Inr i"
  by (simp add: get_count_def dget_default_def)

lemma spec_info_roundtrip [simp]: "spec_info_from_dict (spec_info_to_dict s) = Inr s"
  by (cases s) (simp add: spec_info_from_dict_def spec_info_to_dict_def)

lemma prefix_cache_roundtrip [simp]: "prefix_cache_from_dict (prefix_cache_to_dict s) = Inr s"
  by (cases s) (simp add: prefix_cache_from_dict_def prefix_cache_to_dict_def)

lemma status_roundtrip [simp]: "status_of (PStr (status_value s)) = Inr s"
  by (cases s) (simp_all add: status_of_def status_value_def)

lemma distinct_field_names: "distinct field_names"
  by (simp add: field_names_def)

lemma field_names_length: "length field_names = 25"
  by (simp add: field_names_def)

lemma sample_fields:
  "map_of (sample_to_dict s) ''group_index'' = Some (of_option PInt (smp_group_index s))"
  "map_of (sample_to_dict s) ''index'' = Some (of_option PInt (smp_index s))"
  "map_of (sample_to_dict s) ''prompt'' = Some (smp_prompt s)"
  "map_of (sample_to_dict s) ''tokens'' = Some (of_list PInt (smp_tokens s))"
  "map_of (sample_to_dict s) ''multimodal_inputs'' = Some (smp_multimodal_inputs s)"
  "map_of (sample_to_dict s) ''multimodal_train_inputs'' = Some (smp_multimodal_train_inputs s)"
  "map_of (sample_to_dict s) ''response'' = Some (PStr (smp_response s))"
  "map_of (sample_to_dict s) ''response_length'' = Some (PInt (smp_response_length s))"
  "map_of (sample_to_dict s) ''label'' = Some (of_option PStr (smp_label s))"
  "map_of (sample_to_dict s) ''reward'' = Some (smp_reward s)"
  "map_of (sample_to_dict s) ''loss_mask'' = Some (of_option (of_list PInt) (smp_loss_mask s))"
  "map_of (sample_to_dict s) ''weight_versions'' = Some (of_list PStr (smp_weight_versions s))"
  "map_of (sample_to_dict s) ''rollout_log_probs'' = Some (of_option (of_list PFloat) (smp_rollout_log_probs s))"
  "map_of (sample_to_dict s) ''rollout_routed_experts'' = Some (smp_rollout_routed_experts s)"
  "map_of (sample_to_dict s) ''remove_sample'' = Some (PBool (smp_remove_sample s))"
  "map_of (sample_to_dict s) ''teacher_log_probs'' = Some (of_option (of_list PFloat) (smp_teacher_log_probs s))"
  "map_of (sample_to_dict s) ''logits_masks'' = Some (of_option (of_list (of_list PInt)) (smp_logits_masks s))"
  "map_of (sample_to_dict s) ''status'' = Some (PStr (status_value (smp_status s)))"
  "map_of (sample_to_dict s) ''metadata'' = Some (PDict (smp_metadata s))"
  "map_of (sample_to_dict s) ''generate_function_path'' = Some (of_option PStr (smp_generate_function_path s))"
  "map_of (sample_to_dict s) ''train_metadata'' = Some (smp_train_metadata s)"
  "map_of (sample_to_dict s) ''session_id'' = Some (of_option PStr (smp_session_id s))"
  "map_of (sample_to_dict s) ''non_generation_time'' = Some (PFloat (smp_non_generation_time s))"
  "map_of (sample_to_dict s) ''spec_info'' = Some (PDict (spec_info_to_dict (smp_spec_info s)))"
  "map_of (sample_to_dict s) ''prefix_cache_info'' = Some (PDict (prefix_cache_to_dict (smp_prefix_cache_info s)))"
  by (simp_all add: sample_to_dict_def field_names_def)

lemma sample_extras:
  assumes "set (map fst (smp_extra s)) \<inter> set field_names = {}"
  shows "filter (\<lambda>(k, v). k \<notin> set field_names) (sample_to_dict s) = smp_extra s"
proof -
  have "filter (\<lambda>(k, v). k \<notin> set field_names) (zip field_names vs) = []" for vs :: "pyval list"
    by (auto simp: filter_empty_conv dest: set_zip_leftD)
  moreover have "filter (\<lambda>(k, v). k \<notin> set field_names) (smp_extra s) = smp_extra s"
    using assms by (auto simp: filter_id_conv)
  ultimately show ?thesis by (simp only: sample_to_dict_def filter_append append_Nil)
qed

lemma decoders [simp]:
  "to_list to_int (of_list PInt xs) = Inr xs"
  "to_list to_str (of_list PStr ws) = Inr ws"
  "to_list to_float (of_list PFloat rs) = Inr rs"
  "to_option to_int (of_option PInt io) = Inr io"
  "to_option to_str (of_option PStr so) = Inr so"
  "to_option (to_list to_int) (of_option (of_list PInt) ilo) = Inr ilo"
  "to_option (to_list to_float) (of_option (of_list PFloat) rlo) = Inr rlo"
  "to_option (to_list (to_list to_int)) (of_option (of_list (of_list PInt)) illo) = Inr illo"
  by (intro to_list_of_list to_option_of_option; simp)+

text \<open>C10. A sample survives the round trip through its dictionary, with every field, its statistics and
  the attributes set besides the fields, as long as those do not take the name of a field.\<close>

theorem sample_roundtrip:
  assumes "set (map fst (smp_extra s)) \<inter> set field_names = {}"
  shows "sample_from_dict (sample_to_dict s) = Inr s"
  unfolding sample_from_dict_def
  by (simp add: sample_fields sample_extras[OF assms] field_def dget_default_def)

theorem sample_roundtrip_witness:
  "sample_from_dict (sample_to_dict (sample_new\<lparr>smp_tokens := [5, 7], smp_status := ABORTED, smp_loss_mask := Some [0, 1],
     smp_extra := [(''start_rollout_id'', PInt 3)]\<rparr>)) =
   Inr (sample_new\<lparr>smp_tokens := [5, 7], smp_status := ABORTED, smp_loss_mask := Some [0, 1],
     smp_extra := [(''start_rollout_id'', PInt 3)]\<rparr>)"
  by (rule sample_roundtrip) (simp add: field_names_def)

text \<open>Taking over a response adds its counts to the statistics of the sample and sets its status by
  the reason the engine gives for finishing; an unknown reason keeps the status.\<close>

lemma meta_info_update:
  assumes "get_count meta ''cached_tokens'' = Inr c" "get_count meta ''prompt_tokens'' = Inr t"
    and "map_of meta ''weight_version'' = Some (PStr w)" "map_of meta ''finish_reason'' = Some (PDict fr)"
    and "map_of fr ''type'' = Some ty"
  shows "\<exists>s'. update_from_meta_info False meta s = Inr s' \<and>
    cached_tokens (smp_prefix_cache_info s') = cached_tokens (smp_prefix_cache_info s) + c \<and>
    total_prompt_tokens (smp_prefix_cache_info s') = total_prompt_tokens (smp_prefix_cache_info s) + t \<and>
    smp_weight_versions s' = smp_weight_versions s @ [w] \<and> smp_tokens s' = smp_tokens s \<and>
    smp_status s' = (if ty = PStr ''stop'' then COMPLETED else if ty = PStr ''length'' then TRUNCATED
                     else if ty = PStr ''abort'' then ABORTED else smp_status s)"
  using assms by (simp add: update_from_meta_info_def prefix_cache_add_def Let_def)

end
