(* ===== verification/Junqi_Rollout.thy ===== *)
theory Junqi_Rollout
  imports Board_Play Sample_Types
begin

text \<open>
  \<open>patch/ppo_rollout.py\<close>: one game of self-play.  The engine that serves \<open>generate\<close> is a parameter, a
  function from a request and its own state to a response and the new state (the state also covers
  the other games it serves); the tokenizer and the session ids are parameters as well.
  The same loop is written twice in the source, for one engine and for one engine per group.
\<close>

section \<open>Prompts and requests\<close>

record request =
  req_input :: "int list"
  req_session :: string
  req_rid :: "string option"
  req_mask :: "int list"

record reply =
  rep_id :: string
  rep_token :: int
  rep_logprob :: real

type_synonym 'e engine = "request \<Rightarrow> 'e \<Rightarrow> reply \<times> 'e"

definition flags_ids :: "int list" where
  "flags_ids = [157600, 157601, 157602, 157603, 157604, 157605, 157606, 157607]"

definition dead_ids :: "int list" where
  "dead_ids = [157608, 157609, 157610, 157611]"

definition result_ids :: "int list" where
  "result_ids = [157612, 157613, 157614, 157615]"

definition role_map :: "string list" where
  "role_map = [''Mine'', ''Commander'', ''General'', ''Division Commander'', ''Brigade Commander'', ''Regiment Commander'',
     ''Battalion Commander'', ''Company Commander'', ''Platoon Leader'', ''Engineer'', ''Bomb'', ''Flag'']"

fun join :: "string \<Rightarrow> string list \<Rightarrow> string" where
  "join sep [] = []"
| "join sep [x] = x"
| "join sep (x # y # xs) = x @ sep @ join sep (y # xs)"

text \<open>\<open>tok\<close> is the chat template followed by the tokenizer.\<close>

definition generate_prompt :: "(string \<Rightarrow> int list) \<Rightarrow> nat list \<Rightarrow> int list result" where
  "generate_prompt tok layout =
     bindE (mapE (\<lambda>idx. py_nth role_map (int idx)) layout) (\<lambda>role.
       let lower = take 25 role; upper = drop 25 role in
       Inr (tok (''You are playing Chinese Military Chess. '' @
                 ''Your layout is divided into two parts: '' @
                 ''The lower half consists of '' @ join '', '' lower @ ''. '' @
                 ''The upper half consists of '' @ join '', '' upper @ ''.'')))"

section \<open>The state of a game\<close>

record rollout =
  r_board :: board
  r_buffer :: "int list"
  r_idx :: "nat list"
  r_req_id :: "string option list"
  r_loss_mask :: "int list list"
  r_logits_masks :: "int list list list"
  r_reward_list :: "real list list list"
  r_log_probs :: "real list list"
  r_dead :: "nat list"

definition rollout_new :: "board \<Rightarrow> rollout" where
  "rollout_new b = \<lparr>r_board = b, r_buffer = [], r_idx = [0, 0], r_req_id = [None, None], r_loss_mask = [[], []],
     r_logits_masks = [[], []], r_reward_list = [[], []], r_log_probs = [[], []], r_dead = []\<rparr>"

text \<open>Tokens go to the buffer, their masks and log probabilities to the group, zeros to the other group.\<close>

definition emit :: "nat \<Rightarrow> int list \<Rightarrow> int list \<Rightarrow> real list \<Rightarrow> rollout \<Rightarrow> rollout" where
  "emit grp toks own lps st = st\<lparr>
     r_buffer := r_buffer st @ toks,
     r_loss_mask := (r_loss_mask st)[grp := r_loss_mask st ! grp @ own,
                                     1 - grp := r_loss_mask st ! (1 - grp) @ replicate (length own) 0],
     r_log_probs := (r_log_probs st)[grp := r_log_probs st ! grp @ lps,
                                     1 - grp := r_log_probs st ! (1 - grp) @ replicate (length lps) 0]\<rparr>"

definition add_reward :: "nat \<Rightarrow> real \<Rightarrow> real list list list \<Rightarrow> real list list list" where
  "add_reward grp r rl =
     (let other = rl ! (1 - grp) in
      (rl[grp := rl ! grp @ [[r]]])
        [1 - grp := if other \<noteq> [] then butlast other @ [last other @ [- r]] else other])"

definition logits_mask_of :: "(int \<Rightarrow> bool) \<Rightarrow> int list" where
  "logits_mask_of mk = map (\<lambda>i. i + 151665) (filter mk [0..5934])"

text \<open>The game is over when three players are out, or two that play together.\<close>

definition game_over :: "nat list \<Rightarrow> bool" where
  "game_over ds \<longleftrightarrow> length ds = 3 \<or> (length ds = 2 \<and> \<bar>int (ds ! 0) - int (ds ! 1)\<bar> = 2)"

section \<open>One turn\<close>

definition emit_zeros :: "nat \<Rightarrow> int list \<Rightarrow> rollout \<Rightarrow> rollout" where
  "emit_zeros grp ids = emit grp ids (replicate (length ids) 0) (replicate (length ids) 0)"

definition note_result :: "nat \<Rightarrow> reply \<Rightarrow> nat \<Rightarrow> rollout \<Rightarrow> rollout result" where
  "note_result grp rep result_id st =
     (if result_id = 4
      then bindE (assertE (rep_token rep = 157599)) (\<lambda>_. Inr (emit grp [157599] [1] [rep_logprob rep] st))
      else bindE (py_nth result_ids (int result_id)) (\<lambda>r.
             Inr (emit grp [rep_token rep, r] [1, 0] [rep_logprob rep, 0] st)))"

definition note_flags :: "nat \<Rightarrow> nat list \<Rightarrow> rollout \<Rightarrow> rollout result" where
  "note_flags grp flags st =
     (if flags = [] then Inr st
      else bindE (mapE (\<lambda>f. py_nth flags_ids (int f)) flags) (\<lambda>ids. Inr (emit_zeros grp ids st)))"

definition note_dead :: "nat \<Rightarrow> nat list \<Rightarrow> rollout \<Rightarrow> (bool \<times> rollout) result" where
  "note_dead grp dead st =
     (if dead = [] then Inr (False, st)
      else bindE (mapE (\<lambda>d. py_nth dead_ids (int d)) dead) (\<lambda>ids.
             let ds = set_update (r_dead st) dead in
             Inr (game_over ds, (emit_zeros grp ids st)\<lparr>r_dead := ds\<rparr>)))"

definition play_turn ::
  "(nat \<Rightarrow> 'e engine) \<Rightarrow> string list \<Rightarrow> int list list \<Rightarrow> nat \<Rightarrow> rollout \<times> 'e \<Rightarrow> (bool \<times> rollout \<times> 'e) result" where
  "play_turn gens session_ids prompt i = (\<lambda>(st, e).
     let player = i mod 4; grp = i mod 2 in
     if player \<in> set (r_dead st) then Inr (False, emit_zeros grp [157599] st, e)
     else bindE (get_action_mask player (r_board st)) (\<lambda>(mask, b).
       case mask of None \<Rightarrow> Inl AssertionError
       | Some mk \<Rightarrow>
         let logits_mask = logits_mask_of mk;
             buf_slice = drop (r_idx st ! grp) (r_buffer st);
             input_ids = (if r_req_id st ! grp = None then prompt ! grp @ buf_slice else buf_slice);
             (rep, e) = gens grp \<lparr>req_input = input_ids, req_session = session_ids ! grp,
                                  req_rid = r_req_id st ! grp, req_mask = logits_mask\<rparr> e in
         bindE (update player (rep_token rep - 151665) b) (\<lambda>((result_id, _, flags, dead, reward), b).
         bindE (note_result grp rep result_id
                  (st\<lparr>r_board := b, r_idx := (r_idx st)[grp := length (r_buffer st)],
                      r_req_id := (r_req_id st)[grp := Some (rep_id rep)]\<rparr>)) (\<lambda>st.
         bindE (note_flags grp flags
                  (st\<lparr>r_reward_list := add_reward grp reward (r_reward_list st),
                      r_logits_masks := (r_logits_masks st)[grp := r_logits_masks st ! grp @ [logits_mask]]\<rparr>)) (\<lambda>st.
         bindE (note_dead grp dead st) (\<lambda>(over, st).
           Inr (over, st, e)))))))"

fun turns ::
  "(nat \<Rightarrow> 'e engine) \<Rightarrow> string list \<Rightarrow> int list list \<Rightarrow> nat list \<Rightarrow> rollout \<times> 'e \<Rightarrow> (bool \<times> rollout \<times> 'e) result" where
  "turns gens session_ids prompt [] s = Inr (False, s)"
| "turns gens session_ids prompt (i # is) s =
     bindE (play_turn gens session_ids prompt i s) (\<lambda>(over, s).
       if over then Inr (True, s) else turns gens session_ids prompt is s)"

section \<open>A game\<close>

type_synonym rngs = "rng \<times> rng \<times> rng \<times> rng"

definition junqi_game ::
  "(nat \<Rightarrow> 'e engine) \<Rightarrow> (string \<Rightarrow> int list) \<Rightarrow> string list \<Rightarrow> rngs \<Rightarrow> 'e \<Rightarrow> (int list list \<times> bool \<times> rollout \<times> 'e) result" where
  "junqi_game gens tok session_ids = (\<lambda>(d0, d1, d2, d3) e.
     bindE (generated_board d0 d1 d2 d3) (\<lambda>b.
     bindE (generate_prompt tok (get_layout 0 b)) (\<lambda>p0.
     bindE (generate_prompt tok (get_layout 1 b)) (\<lambda>p1.
     bindE (turns gens session_ids [p0, p1] [0..<400] (rollout_new b, e)) (\<lambda>(over, st, e).
       Inr ([p0, p1], over, st, e))))))"

definition make_sample :: "int list list \<Rightarrow> bool \<Rightarrow> rollout \<Rightarrow> nat \<Rightarrow> sample" where
  "make_sample prompt over st i = sample_new\<lparr>
     smp_tokens := prompt ! i @ r_buffer st,
     smp_response_length := int (length (r_buffer st)),
     smp_reward := of_list (of_list PFloat) (r_reward_list st ! i),
     smp_status := (if over then COMPLETED else TRUNCATED),
     smp_loss_mask := Some (r_loss_mask st ! i),
     smp_rollout_log_probs := Some (r_log_probs st ! i),
     smp_logits_masks := Some (r_logits_masks st ! i)\<rparr>"

definition generate_junqi ::
  "'e engine \<Rightarrow> (string \<Rightarrow> int list) \<Rightarrow> string list \<Rightarrow> rngs \<Rightarrow> 'e \<Rightarrow> sample list result" where
  "generate_junqi generate tok session_ids draws e =
     bindE (junqi_game (\<lambda>_. generate) tok session_ids draws e) (\<lambda>(prompt, over, st, e).
       Inr (map (make_sample prompt over st) [0..<2]))"

text \<open>The second version plays one engine against another and returns whether group 0 collected more.\<close>

definition generate_junqi1 ::
  "'e engine \<Rightarrow> 'e engine \<Rightarrow> (string \<Rightarrow> int list) \<Rightarrow> string list \<Rightarrow> rngs \<Rightarrow> 'e \<Rightarrow> bool result" where
  "generate_junqi1 generate generate1 tok session_ids draws e =
     bindE (junqi_game (\<lambda>grp. if grp = 0 then generate else generate1) tok session_ids draws e)
       (\<lambda>(prompt, over, st, e).
         Inr (sum_list (concat (r_reward_list st ! 0)) > sum_list (concat (r_reward_list st ! 1))))"

text \<open>The games of a batch are gathered; each has its own draws and meets the engine in its own state.\<close>

definition generate_rollout_async ::
  "'e engine \<Rightarrow> (string \<Rightarrow> int list) \<Rightarrow> (nat \<Rightarrow> string list \<times> rngs \<times> 'e) \<Rightarrow> nat \<Rightarrow> sample list list result" where
  "generate_rollout_async generate tok task rollout_batch_size =
     mapE (\<lambda>i. case task i of (session_ids, draws, e) \<Rightarrow> generate_junqi generate tok session_ids draws e)
       [0..<rollout_batch_size]"

section \<open>The layouts of a new board\<close>

lemma init_piece_layout: "b_layout (snd (snd (init_piece k x s))) = b_layout (snd (snd s))"
  by (cases x; cases s) (simp add: init_piece_def Let_def)

lemma init_layout_layout: "b_layout (init_layout layout b) = b_layout b"
proof -
  have 1: "b_layout (snd (snd (fold (init_piece k) xs s))) = b_layout (snd (snd s))" for k xs and s :: init_state
    by (induction xs arbitrary: s) (simp_all add: init_piece_layout)
  have "b_layout (snd (snd (fold (\<lambda>(k, roles). fold (init_piece k) (zip roles POSITIONS)) ys s))) = b_layout (snd (snd s))" for ys and s :: init_state
    by (induction ys arbitrary: s) (auto simp: 1)
  then show ?thesis by (simp add: init_layout_def)
qed

lemma init_mask_layout: "init_action_mask b = Inr b' \<Longrightarrow> b_layout b' = b_layout b"
proof -
  assume h: "init_action_mask b = Inr b'"
  have at: "b_layout t = b_layout s" if "init_mask_at r g offs v p s = Inr t" for r g offs v p s t
    using that by (auto simp: init_mask_at_def bindE_eq_Inr split: if_splits)
  have row: "b_layout t = b_layout s" if "foldE (init_mask_at r g offs v) ps s = Inr t" for r g offs v ps s t
    by (rule foldE_invariant[OF that, where P = "\<lambda>x. b_layout x = b_layout s"]) (auto dest: at)
  have tab: "b_layout t = b_layout s"
    if "foldE (\<lambda>(g, ps). foldE (init_mask_at r g offs v) ps) xs s = Inr t" for r offs v xs s t
    by (rule foldE_invariant[OF that, where P = "\<lambda>x. b_layout x = b_layout s"]) (auto dest: row)
  show ?thesis using h tab by (auto simp: init_action_mask_def bindE_eq_Inr)
qed

lemma init_count_layout: "init_pieces_count b = Inr b' \<Longrightarrow> b_layout b' = b_layout b"
proof -
  assume h: "init_pieces_count b = Inr b'"
  have at: "b_layout t = b_layout s" if "init_count_at k x s = Inr t" for k x s t
    using that by (cases x) (auto simp: init_count_at_def bindE_eq_Inr Let_def split: if_splits)
  have row: "b_layout t = b_layout s" if "foldE (init_count_at k) ps s = Inr t" for k ps s t
    by (rule foldE_invariant[OF that, where P = "\<lambda>x. b_layout x = b_layout s"]) (auto dest: at)
  show ?thesis
    by (rule foldE_invariant[OF h[unfolded init_pieces_count_def], where P = "\<lambda>x. b_layout x = b_layout b"]) (auto dest: row)
qed

lemma init_engineer_layout: "b_layout (init_engineer_pieces b) = b_layout b"
proof -
  have "b_layout (fold (\<lambda>p b. if role_of p = 9
                 then b\<lparr>engineer_pieces := (engineer_pieces b)[player_of p :=
                        set_add p (engineer_pieces b ! player_of p)]\<rparr> else b) ps b) = b_layout b" for ps
    by (induction ps arbitrary: b) auto
  then show ?thesis by (simp add: init_engineer_pieces_def)
qed

lemma new_board_layout: "new_board layout = Inr b \<Longrightarrow> b_layout b = layout"
  by (auto simp: new_board_def Let_def bindE_eq_Inr init_layout_layout init_engineer_layout
      dest!: init_mask_layout init_count_layout)

lemma new_game:
  "\<exists>b. generated_board d0 d1 d2 d3 = Inr b \<and> play_inv b \<and> dead_players b = [] \<and> valid_layouts (b_layout b)"
proof -
  have g: "valid_layout (map the (generate_layout d))" for d
    using generate_layout_valid[of d] by (auto simp: comp_def)
  let ?l = "map (map the) [generate_layout d0, generate_layout d1, generate_layout d2, generate_layout d3]"
  have v: "valid_layouts ?l" by (simp add: valid_layouts_def g)
  from new_board_play[OF this] obtain b where b: "new_board ?l = Inr b" "play_inv b" "dead_players b = []" by blast
  have "b_layout b = ?l" by (rule new_board_layout[OF b(1)])
  then show ?thesis using b v unfolding generated_board_def by (intro exI[of _ b]) simp
qed

lemma prompt_ok:
  assumes "valid_layouts (b_layout b)"
  shows "\<exists>p. generate_prompt tok (get_layout g b) = Inr p"
proof -
  have "b_layout b ! k \<in> set (b_layout b)" if "k < 4" for k using assms that by (simp add: valid_layouts_def)
  then have v: "valid_layout (b_layout b ! k)" if "k < 4" for k using assms that by (auto simp: valid_layouts_def)
  have "r < 12" if "r \<in> set (b_layout b ! k)" "k < 4" for r k
  proof -
    have "r \<in> set ROLES" using v[OF that(2)] that(1) unfolding valid_layout_def by (metis set_mset_mset)
    then show ?thesis by (auto simp: ROLES_def)
  qed
  then have "\<forall>r \<in> set (get_layout g b). r < 12" by (auto simp: get_layout_def)
  then have "\<exists>ys. mapE (\<lambda>idx. py_nth role_map (int idx)) (get_layout g b) = Inr ys"
    by (intro mapE_total) (auto simp: role_map_def)
  then show ?thesis by (auto simp: generate_prompt_def Let_def)
qed

section \<open>The books of a game\<close>

definition marked :: "int list \<Rightarrow> int list \<Rightarrow> int list" where
  "marked toks msk = map fst (filter (\<lambda>(t, m). m = 1) (zip toks msk))"

text \<open>
  For each group: a mask and a log probability for every token of the buffer, and one logits mask for
  every token the engine sampled, which that token satisfies.
\<close>

definition ledger :: "int list \<Rightarrow> int list \<Rightarrow> real list \<Rightarrow> int list list \<Rightarrow> bool" where
  "ledger buf lm lp ms \<longleftrightarrow> length lm = length buf \<and> length lp = length buf \<and> set lm \<subseteq> {0, 1} \<and>
     list_all2 (\<lambda>t mk. t \<in> set mk) (marked buf lm) ms"

definition books :: "rollout \<Rightarrow> int list list list \<Rightarrow> bool" where
  "books st ms \<longleftrightarrow> length (r_loss_mask st) = 2 \<and> length (r_log_probs st) = 2 \<and> length ms = 2 \<and>
     (\<forall>g < 2. ledger (r_buffer st) (r_loss_mask st ! g) (r_log_probs st ! g) (ms ! g)) \<and>
     (\<forall>i < length (r_buffer st). r_loss_mask st ! 0 ! i = 0 \<or> r_loss_mask st ! 1 ! i = 0) \<and>
     set (r_buffer st) \<subseteq> {151665..157615}"

lemma marked_append:
  "length toks = length msk \<Longrightarrow> marked (toks @ toks') (msk @ msk') = marked toks msk @ marked toks' msk'"
  by (simp add: marked_def)

lemma marked_zeros [simp]: "marked toks (replicate n 0) = []"
  by (auto simp: marked_def filter_empty_conv dest: set_zip_rightD)

lemma ledger_append:
  assumes "ledger buf lm lp ms" "length own = length toks" "length lps = length toks" "set own \<subseteq> {0, 1}"
    and "list_all2 (\<lambda>t mk. t \<in> set mk) (marked toks own) new"
  shows "ledger (buf @ toks) (lm @ own) (lp @ lps) (ms @ new)"
  using assms by (auto simp: ledger_def marked_append intro: list_all2_appendI)

lemma emit_books:
  assumes b: "books st ms" and g: "grp < 2"
    and l: "length own = length toks" "length lps = length toks" "set own \<subseteq> {0, 1}" "set toks \<subseteq> {151665..157615}"
    and new: "list_all2 (\<lambda>t mk. t \<in> set mk) (marked toks own) new"
  shows "books (emit grp toks own lps st) (ms[grp := ms ! grp @ new])"
proof -
  let ?st = "emit grp toks own lps st" and ?ms = "ms[grp := ms ! grp @ new]"
  have len: "length (r_loss_mask st) = 2" "length (r_log_probs st) = 2" "length ms = 2"
    and led: "\<And>g. g < 2 \<Longrightarrow> ledger (r_buffer st) (r_loss_mask st ! g) (r_log_probs st ! g) (ms ! g)"
    and dis: "\<And>i. i < length (r_buffer st) \<Longrightarrow> r_loss_mask st ! 0 ! i = 0 \<or> r_loss_mask st ! 1 ! i = 0"
    using b by (auto simp: books_def)
  have oth: "1 - grp \<noteq> grp" "1 - grp < 2" using g by (auto simp: less_2_cases_iff)
  have lm: "r_loss_mask ?st ! grp = r_loss_mask st ! grp @ own"
    "r_loss_mask ?st ! (1 - grp) = r_loss_mask st ! (1 - grp) @ replicate (length toks) 0"
    and lp: "r_log_probs ?st ! grp = r_log_probs st ! grp @ lps"
    "r_log_probs ?st ! (1 - grp) = r_log_probs st ! (1 - grp) @ replicate (length toks) 0"
    and ms: "?ms ! grp = ms ! grp @ new" "?ms ! (1 - grp) = ms ! (1 - grp)"
    and buf: "r_buffer ?st = r_buffer st @ toks"
    using len g oth l by (simp_all add: emit_def nth_list_update)
  have A: "ledger (r_buffer ?st) (r_loss_mask ?st ! grp) (r_log_probs ?st ! grp) (?ms ! grp)"
    unfolding lm lp ms buf by (rule ledger_append[OF led[OF g] l(1-3) new])
  have B: "ledger (r_buffer ?st) (r_loss_mask ?st ! (1 - grp)) (r_log_probs ?st ! (1 - grp)) (?ms ! (1 - grp))"
    unfolding lm lp ms buf
    using ledger_append[OF led[OF oth(2)], of "replicate (length toks) 0" toks "replicate (length toks) 0" "[]"]
      set_replicate_conv_if[of "length toks" "0 :: int"] by simp
  have C: "r_loss_mask ?st ! grp ! i = 0 \<or> r_loss_mask ?st ! (1 - grp) ! i = 0" if "i < length (r_buffer ?st)" for i
  proof (cases "i < length (r_buffer st)")
    case True
    have "length (r_loss_mask st ! g) = length (r_buffer st)" if "g < 2" for g using led[OF that] by (simp add: ledger_def)
    then show ?thesis using dis[OF True] True g unfolding lm by (auto simp: nth_append less_2_cases_iff)
  next
    case False
    have "length (r_loss_mask st ! (1 - grp)) = length (r_buffer st)" using led[OF oth(2)] by (simp add: ledger_def)
    then show ?thesis using False that unfolding lm buf by (simp add: nth_append)
  qed
  have two: "P 0 \<and> P 1" if "P grp" "P (1 - grp)" for P :: "nat \<Rightarrow> bool" using g that by (auto simp: less_2_cases_iff)
  have "\<forall>g < 2. ledger (r_buffer ?st) (r_loss_mask ?st ! g) (r_log_probs ?st ! g) (?ms ! g)"
    using two[of "\<lambda>g. ledger (r_buffer ?st) (r_loss_mask ?st ! g) (r_log_probs ?st ! g) (?ms ! g)", OF A B]
    by (auto simp: less_2_cases_iff)
  moreover have "\<forall>i < length (r_buffer ?st). r_loss_mask ?st ! 0 ! i = 0 \<or> r_loss_mask ?st ! 1 ! i = 0"
  proof (intro allI impI)
    fix i assume "i < length (r_buffer ?st)"
    from C[OF this] g show "r_loss_mask ?st ! 0 ! i = 0 \<or> r_loss_mask ?st ! 1 ! i = 0"
      unfolding less_2_cases_iff by (elim disjE) simp_all
  qed
  ultimately show ?thesis unfolding books_def using len b l(4) by (auto simp: emit_def books_def)
qed

lemma emit_zeros_books:
  assumes "books st ms" "grp < 2" "set ids \<subseteq> {151665..157615}"
  shows "books (emit_zeros grp ids st) ms"
  using emit_books[OF assms(1,2), of "replicate (length ids) 0" ids "replicate (length ids) 0" "[]"] assms(3)
    set_replicate_conv_if[of "length ids" "0 :: int"]
  by (simp add: emit_zeros_def)

section \<open>The accounts\<close>

text \<open>
  What a move brings is credited to its group and debited to the other, once that one has moved: the
  two accounts add up to the rewards of the first \<open>k\<close> moves of group 0, those it made before group 1
  made its first.
\<close>

definition accounts :: "nat \<Rightarrow> nat \<Rightarrow> real list list list \<Rightarrow> bool" where
  "accounts i k rl \<longleftrightarrow> length rl = 2 \<and> [] \<notin> set (rl ! 0) \<and> [] \<notin> set (rl ! 1) \<and>
     (rl ! 0 = [] \<longrightarrow> rl ! 1 = []) \<and> (0 < i \<longrightarrow> rl ! 0 \<noteq> []) \<and>
     k \<le> length (rl ! 0) \<and> (rl ! 1 = [] \<longrightarrow> k = length (rl ! 0)) \<and>
     sum_list (concat (rl ! 0)) + sum_list (concat (rl ! 1)) = sum_list (map hd (take k (rl ! 0)))"

lemma sum_last: "xs \<noteq> [] \<Longrightarrow> sum_list (concat (butlast xs @ [last xs @ [r]])) = sum_list (concat xs) + (r :: real)"
  by (induction xs) auto

lemma heads_last: "[] \<notin> set xs \<Longrightarrow> xs \<noteq> [] \<Longrightarrow> map hd (butlast xs @ [last xs @ [r]]) = map hd xs"
  by (induction xs) auto

lemma nonempty_last: "[] \<notin> set xs \<Longrightarrow> [] \<notin> set (butlast xs @ [last xs @ [r]])"
  by (auto dest: in_set_butlastD)

lemma add_reward_accounts:
  assumes a: "accounts i k rl" and g: "grp < 2" "grp = i mod 2"
  shows "accounts (Suc i) (if grp = 0 \<and> rl ! 1 = [] then Suc k else k) (add_reward grp r rl)"
    and "g < 2 \<Longrightarrow> length (add_reward grp r rl ! g) = length (rl ! g) + (if g = grp then 1 else 0)"
proof -
  obtain x y where rl: "rl = [x, y]" using a by (auto simp: accounts_def length_Suc_conv numeral_2_eq_2)
  have ok: "[] \<notin> set x" "[] \<notin> set y" "x = [] \<longrightarrow> y = []" "0 < i \<longrightarrow> x \<noteq> []" "k \<le> length x" "y = [] \<longrightarrow> k = length x"
    "sum_list (concat x) + sum_list (concat y) = sum_list (map hd (take k x))"
    using a unfolding accounts_def rl by simp_all
  have "accounts (Suc i) (if grp = 0 \<and> rl ! 1 = [] then Suc k else k) (add_reward grp r rl) \<and>
    (g < 2 \<longrightarrow> length (add_reward grp r rl ! g) = length (rl ! g) + (if g = grp then 1 else 0))"
  proof (cases "grp = 0")
    case True
    then show ?thesis using ok sum_last[of y "- r"] nonempty_last[of y "- r"] unfolding rl add_reward_def accounts_def
      by (cases "y = []") (auto simp: less_2_cases_iff)
  next
    case False
    then have one: "grp = 1" "0 < i" using g by (auto simp: less_2_cases_iff intro: Nat.gr0I)
    then have x: "x \<noteq> []" using ok(4) by simp
    have "map hd (take k (butlast x @ [last x @ [- r]])) = map hd (take k x)"
      using arg_cong[OF heads_last[OF ok(1) x, of "- r"], of "take k"] by (simp only: take_map)
    then show ?thesis using one ok x sum_last[of x "- r"] nonempty_last[of x "- r"] unfolding rl add_reward_def accounts_def
      by (auto simp: less_2_cases_iff)
  qed
  then show "accounts (Suc i) (if grp = 0 \<and> rl ! 1 = [] then Suc k else k) (add_reward grp r rl)"
    and "g < 2 \<Longrightarrow> length (add_reward grp r rl ! g) = length (rl ! g) + (if g = grp then 1 else 0)" by blast+
qed

text \<open>The moves of group 0 before the first of group 1, read off the masks.\<close>

definition moves_in :: "int list \<Rightarrow> nat" where
  "moves_in msk = length (filter (\<lambda>m. m = 1) msk)"

definition opening_moves :: "int list \<Rightarrow> int list \<Rightarrow> nat" where
  "opening_moves m0 m1 = moves_in (take (length (takeWhile (\<lambda>m. m \<noteq> 1) m1)) m0)"

lemma takeWhile_take: "length (takeWhile P xs) \<le> length xs"
  by (rule length_takeWhile_le)

lemma opening_late: "1 \<in> set m1 \<Longrightarrow> length m0 = length m1 \<Longrightarrow> opening_moves (m0 @ a) (m1 @ b) = opening_moves m0 m1"
proof -
  assume h: "1 \<in> set m1" "length m0 = length m1"
  have "takeWhile (\<lambda>m. m \<noteq> 1) (m1 @ b) = takeWhile (\<lambda>m. m \<noteq> 1) m1" using h(1) by (simp add: takeWhile_append1)
  then show ?thesis using h(2) length_takeWhile_le[of "\<lambda>m. m \<noteq> 1" m1] by (simp add: opening_moves_def)
qed

lemma opening_early: "1 \<notin> set m1 \<Longrightarrow> length m0 = length m1 \<Longrightarrow> opening_moves (m0 @ a) (m1 @ b) = moves_in m0 + opening_moves a b"
proof -
  assume h: "1 \<notin> set m1" "length m0 = length m1"
  have "takeWhile (\<lambda>m. m \<noteq> 1) (m1 @ b) = m1 @ takeWhile (\<lambda>m. m \<noteq> 1) b" using h(1) by (intro takeWhile_append2) auto
  then show ?thesis using h(2) by (simp add: opening_moves_def moves_in_def)
qed

lemma moves_in_append [simp]: "moves_in (xs @ ys) = moves_in xs + moves_in ys"
  by (simp add: moves_in_def)

lemma moves_in_simps [simp]:
  "moves_in [] = 0" "moves_in (x # xs) = (if x = 1 then Suc (moves_in xs) else moves_in xs)" "moves_in (replicate n 0) = 0"
  by (simp_all add: moves_in_def)

lemma moves_in_0: "moves_in xs = 0 \<longleftrightarrow> 1 \<notin> set xs"
  by (auto simp: moves_in_def filter_empty_conv)

lemma length_marked: "length toks = length msk \<Longrightarrow> length (marked toks msk) = moves_in msk"
proof (induction toks msk rule: list_induct2)
qed (auto simp: marked_def)

section \<open>A turn\<close>

definition obeys :: "(nat \<Rightarrow> 'e engine) \<Rightarrow> bool" where
  "obeys gens \<longleftrightarrow> (\<forall>g q e. req_mask q \<noteq> [] \<longrightarrow> rep_token (fst (gens g q e)) \<in> set (req_mask q))"

lemma set_logits_mask: "set (logits_mask_of mk) = {i + 151665 | i. 0 \<le> i \<and> i \<le> 5934 \<and> mk i}"
  by (auto simp: logits_mask_of_def)

definition game_ok :: "rollout \<Rightarrow> bool" where
  "game_ok st \<longleftrightarrow> play_inv (r_board st) \<and> set (r_dead st) = set (dead_players (r_board st)) \<and>
     distinct (r_dead st) \<and> \<not> game_over (r_dead st)"

definition ledgers :: "nat \<Rightarrow> rollout \<Rightarrow> bool" where
  "ledgers i st \<longleftrightarrow> books st (r_logits_masks st) \<and>
     (\<forall>g < 2. length (r_reward_list st ! g) = length (r_logits_masks st ! g)) \<and>
     accounts i (opening_moves (r_loss_mask st ! 0) (r_loss_mask st ! 1)) (r_reward_list st)"

lemma booksD:
  assumes "books st ms"
  shows "g < 2 \<Longrightarrow> length (r_loss_mask st ! g) = length (r_buffer st)" "g < 2 \<Longrightarrow> moves_in (r_loss_mask st ! g) = length (ms ! g)"
    "length (r_loss_mask st) = 2" "length (r_log_probs st) = 2"
proof -
  have "ledger (r_buffer st) (r_loss_mask st ! g) (r_log_probs st ! g) (ms ! g)" if "g < 2"
    using assms that by (simp add: books_def)
  then show "g < 2 \<Longrightarrow> length (r_loss_mask st ! g) = length (r_buffer st)" "g < 2 \<Longrightarrow> moves_in (r_loss_mask st ! g) = length (ms ! g)"
    unfolding ledger_def using length_marked by (metis list_all2_lengthD)+
  show "length (r_loss_mask st) = 2" "length (r_log_probs st) = 2" using assms by (simp_all add: books_def)
qed

text \<open>Zeros change neither the number of moves nor who opened.\<close>

lemma emit_zeros_masks:
  assumes "length (r_loss_mask st) = 2" "grp < 2" "g < 2"
  shows "r_loss_mask (emit_zeros grp ids st) ! g = r_loss_mask st ! g @ replicate (length ids) 0"
  using assms by (auto simp: emit_zeros_def emit_def less_2_cases_iff)

lemma opening_zeros:
  assumes "length m0 = length m1"
  shows "opening_moves (m0 @ replicate n 0) (m1 @ replicate n 0) = opening_moves m0 m1"
proof (cases "1 \<in> set m1")
  case True
  then show ?thesis using opening_late assms by blast
next
  case False
  have "opening_moves (replicate n 0) (replicate n 0) = 0" for n
    by (simp add: opening_moves_def takeWhile_replicate)
  then show ?thesis using opening_early[OF False assms, of "[]" "[]"] opening_early[OF False assms, of "replicate n 0" "replicate n 0"]
    by (simp add: opening_moves_def)
qed

lemma emit_zeros_ledgers:
  assumes l: "ledgers i st" and g: "grp < 2" and ids: "set ids \<subseteq> {151665..157615}"
  shows "ledgers i (emit_zeros grp ids st)"
proof -
  have b: "books st (r_logits_masks st)" using l by (simp add: ledgers_def)
  have "length (r_loss_mask st ! 0) = length (r_loss_mask st ! 1)" using booksD(1)[OF b] by simp
  then have "opening_moves (r_loss_mask (emit_zeros grp ids st) ! 0) (r_loss_mask (emit_zeros grp ids st) ! 1) =
    opening_moves (r_loss_mask st ! 0) (r_loss_mask st ! 1)"
    using emit_zeros_masks[OF booksD(3)[OF b] g] opening_zeros by simp
  moreover have "r_logits_masks (emit_zeros grp ids st) = r_logits_masks st" "r_reward_list (emit_zeros grp ids st) = r_reward_list st"
    by (simp_all add: emit_zeros_def emit_def)
  ultimately show ?thesis using l emit_zeros_books[OF b g ids] by (simp add: ledgers_def)
qed

lemma emit_zeros_frame [simp]:
  "r_board (emit_zeros grp ids st) = r_board st" "r_dead (emit_zeros grp ids st) = r_dead st"
  by (simp_all add: emit_zeros_def emit_def)

lemma ledgers_frame:
  "ledgers i (st\<lparr>r_board := b, r_idx := x, r_req_id := r\<rparr>) = ledgers i st" "ledgers i (st\<lparr>r_dead := d\<rparr>) = ledgers i st"
  by (simp_all add: ledgers_def books_def)

text \<open>The token of a move, what came of it, its reward and its mask.\<close>

lemma move_ledgers:
  assumes l: "ledgers i st" and g: "grp < 2" "grp = i mod 2"
    and t: "t \<in> set mk" and toks: "set (t # toks) \<subseteq> {151665..157615}"
  shows "ledgers (Suc i) ((emit grp (t # toks) (1 # replicate (length toks) 0) (lp # replicate (length toks) 0) st)
     \<lparr>r_reward_list := add_reward grp r (r_reward_list st),
      r_logits_masks := (r_logits_masks st)[grp := r_logits_masks st ! grp @ [mk]]\<rparr>)"
proof -
  let ?own = "1 # replicate (length toks) 0 :: int list"
  let ?e = "emit grp (t # toks) ?own (lp # replicate (length toks) 0) st"
  let ?ms = "(r_logits_masks st)[grp := r_logits_masks st ! grp @ [mk]]"
  have b: "books st (r_logits_masks st)" using l by (simp add: ledgers_def)
  have m: "marked (t # toks) ?own = [t]" using marked_zeros[of toks "length toks"] by (simp add: marked_def)
  have e: "books ?e ?ms"
    by (rule emit_books[OF b g(1)]) (use t toks m in \<open>auto simp: list_all2_Cons1\<close>)
  note ac = add_reward_accounts[OF _ g, of "opening_moves (r_loss_mask st ! 0) (r_loss_mask st ! 1)" "r_reward_list st"]
  have a: "accounts i (opening_moves (r_loss_mask st ! 0) (r_loss_mask st ! 1)) (r_reward_list st)"
    and rl: "\<And>g. g < 2 \<Longrightarrow> length (r_reward_list st ! g) = length (r_logits_masks st ! g)"
    using l by (auto simp: ledgers_def)
  have len: "length (r_loss_mask st ! 0) = length (r_loss_mask st ! 1)" using booksD(1)[OF b] by simp
  have one: "r_reward_list st ! 1 = [] \<longleftrightarrow> 1 \<notin> set (r_loss_mask st ! 1)"
    using booksD(2)[OF b, of 1] rl[of 1] moves_in_0[of "r_loss_mask st ! 1"] by (metis length_0_conv one_less_numeral_iff semiring_norm(76))
  have k: "opening_moves (r_loss_mask ?e ! 0) (r_loss_mask ?e ! 1) =
      (if grp = 0 \<and> r_reward_list st ! 1 = [] then Suc (opening_moves (r_loss_mask st ! 0) (r_loss_mask st ! 1))
       else opening_moves (r_loss_mask st ! 0) (r_loss_mask st ! 1))"
  proof -
    let ?z = "replicate (Suc (length toks)) 0 :: int list"
    have lm: "r_loss_mask ?e ! 0 = r_loss_mask st ! 0 @ (if grp = 0 then ?own else ?z)"
      "r_loss_mask ?e ! 1 = r_loss_mask st ! 1 @ (if grp = 0 then ?z else ?own)"
      using booksD(3)[OF b] g(1) by (auto simp: emit_def less_2_cases_iff)
    show ?thesis
    proof (cases "r_reward_list st ! 1 = []")
      case True
      have n: "1 \<notin> set (r_loss_mask st ! 1)" using True one by simp
      have k0: "opening_moves (r_loss_mask st ! 0) (r_loss_mask st ! 1) = moves_in (r_loss_mask st ! 0)"
        using opening_early[OF n len, of "[]" "[]"] by (simp add: opening_moves_def)
      have "takeWhile (\<lambda>m. m \<noteq> (1::int)) ?z = ?z" by (intro takeWhile_eq_all_conv[THEN iffD2]) auto
      then have "opening_moves ?own ?z = 1" "opening_moves ?z ?own = 0" by (simp_all add: opening_moves_def)
      then show ?thesis using True k0 unfolding lm opening_early[OF n len] by simp
    next
      case False
      then show ?thesis using one opening_late[OF _ len] unfolding lm by simp
    qed
  qed
  have "accounts (Suc i) (opening_moves (r_loss_mask ?e ! 0) (r_loss_mask ?e ! 1)) (add_reward grp r (r_reward_list st))"
    unfolding k by (rule ac(1)[OF a])
  moreover have "length (add_reward grp r (r_reward_list st) ! h) = length (?ms ! h)" if "h < 2" for h
    using ac(2)[OF a that] rl[OF that] b g that by (simp add: nth_list_update books_def)
  ultimately show ?thesis using e by (simp add: ledgers_def books_def)
qed

lemma ids_ok:
  assumes "\<forall>x \<in> set xs. x < length table" "set table \<subseteq> {151665..157615}"
  shows "\<exists>ids. mapE (\<lambda>x. py_nth table (int x)) xs = Inr ids \<and> set ids \<subseteq> {151665..157615}"
proof -
  have "mapE (\<lambda>x. py_nth table (int x)) xs = Inr (map ((!) table) xs)" using assms(1) by (intro mapE_Inr) simp
  then show ?thesis using assms by force
qed

lemma token_tables:
  "length flags_ids = 8" "length dead_ids = 4" "length result_ids = 4"
  "set flags_ids \<subseteq> {151665..157615}" "set dead_ids \<subseteq> {151665..157615}" "set result_ids \<subseteq> {151665..157615}"
  by (simp_all add: flags_ids_def dead_ids_def result_ids_def)

lemma note_flags_ok:
  assumes "ledgers i st" "grp < 2" "\<forall>f \<in> set flags. f < 8"
  shows "\<exists>st'. note_flags grp flags st = Inr st' \<and> ledgers i st' \<and> r_board st' = r_board st \<and> r_dead st' = r_dead st"
  using ids_ok[of flags flags_ids] token_tables assms emit_zeros_ledgers[OF assms(1,2)]
  by (auto simp: note_flags_def)

lemma note_dead_ok:
  assumes "ledgers i st" "grp < 2" "\<forall>d \<in> set dead. d < 4"
  shows "\<exists>over st'. note_dead grp dead st = Inr (over, st') \<and> ledgers i st' \<and> r_board st' = r_board st \<and>
    set (r_dead st') = set (r_dead st) \<union> set dead \<and> distinct (r_dead st') = distinct (r_dead st) \<and>
    (if dead = [] then \<not> over \<and> r_dead st' = r_dead st else over = game_over (r_dead st'))"
proof (cases "dead = []")
  case True
  then show ?thesis using assms by (auto simp: note_dead_def)
next
  case False
  obtain ids where ids: "mapE (\<lambda>x. py_nth dead_ids (int x)) dead = Inr ids" "set ids \<subseteq> {151665..157615}"
    using ids_ok[of dead dead_ids] token_tables assms(3) by auto
  then show ?thesis using False emit_zeros_ledgers[OF assms(1,2) ids(2)]
    by (auto simp: note_dead_def Let_def ledgers_frame)
qed

lemma note_result_ok:
  assumes l: "ledgers i st" and g: "grp < 2" "grp = i mod 2" and t: "rep_token rep \<in> set mk"
    and v: "result_id \<le> 4" "result_id = 4 \<longleftrightarrow> rep_token rep = 157599" "rep_token rep \<in> {151665..157599}"
  shows "\<exists>st'. note_result grp rep result_id st = Inr st' \<and> r_board st' = r_board st \<and> r_dead st' = r_dead st \<and>
    r_logits_masks st' = r_logits_masks st \<and> r_reward_list st' = r_reward_list st \<and>
    ledgers (Suc i) (st'\<lparr>r_reward_list := add_reward grp r (r_reward_list st'),
      r_logits_masks := (r_logits_masks st')[grp := r_logits_masks st' ! grp @ [mk]]\<rparr>)"
proof (cases "result_id = 4")
  case True
  then show ?thesis using move_ledgers[OF l g t, of "[]" r "rep_logprob rep"] v
    by (auto simp: note_result_def emit_def)
next
  case False
  then have r: "result_id < length result_ids" using v(1) token_tables by simp
  then have "result_ids ! result_id \<in> {151665..157615}" using nth_mem[OF r] token_tables(6) by blast
  then show ?thesis using False r move_ledgers[OF l g t, of "[result_ids ! result_id]" r "rep_logprob rep"] v
    by (auto simp: note_result_def emit_def)
qed

lemma turn_ok:
  assumes o: "obeys gens" and st: "game_ok st" "ledgers i st" and z: "i = 0 \<longrightarrow> r_dead st = []"
  shows "\<exists>over st' e'. play_turn gens session_ids prompt i (st, e) = Inr (over, st', e') \<and> ledgers (Suc i) st' \<and>
    (if over then game_over (r_dead st') else game_ok st')"
proof -
  define player where "player = i mod 4"
  define grp where "grp = i mod 2"
  have g: "grp < 2" "grp = i mod 2" and p4: "player < 4" by (simp_all add: grp_def player_def)
  have inv: "play_inv (r_board st)" and d: "set (r_dead st) = set (dead_players (r_board st))" "distinct (r_dead st)"
    "\<not> game_over (r_dead st)"
    using st(1) by (auto simp: game_ok_def)
  show ?thesis
  proof (cases "player \<in> set (r_dead st)")
    case True
    then have "0 < i" using z by (cases i) auto
    then have "ledgers (Suc i) st" using st(2) by (auto simp: ledgers_def accounts_def)
    then have "ledgers (Suc i) (emit_zeros grp [157599] st)" using emit_zeros_ledgers g(1) by simp
    moreover have "game_ok (emit_zeros grp [157599] st)" using st(1) by (simp add: game_ok_def)
    ultimately show ?thesis using True by (auto simp: play_turn_def player_def grp_def)
  next
    case False
    obtain mk b1 where m: "get_action_mask player (r_board st) = Inr (Some mk, b1)" "mk 5934"
      "dead_players b1 = dead_players (r_board st)"
      and play: "\<And>a. 0 \<le> a \<Longrightarrow> a \<le> 5934 \<Longrightarrow> mk a \<Longrightarrow>
        \<exists>e path flags dead r b2. update player a b1 = Inr ((e, path, flags, dead, r), b2) \<and> play_inv b2 \<and>
          dead_players b2 = dead_players (r_board st) @ dead \<and> set (dead_players (r_board st) @ dead) \<subseteq> {..<4} \<and>
          (e = 4 \<longleftrightarrow> a = 5934) \<and> e \<le> 4 \<and> (\<forall>f \<in> set flags. f < 8)"
      using junqi.turn_total[OF inv p4] False d(1) by metis
    define req where "req = \<lparr>req_input = (if r_req_id st ! grp = None then prompt ! grp @ drop (r_idx st ! grp) (r_buffer st)
        else drop (r_idx st ! grp) (r_buffer st)), req_session = session_ids ! grp, req_rid = r_req_id st ! grp,
        req_mask = logits_mask_of mk\<rparr>"
    obtain rep e1 where rep: "gens grp req e = (rep, e1)" by (cases "gens grp req e")
    have "157599 \<in> set (logits_mask_of mk)" using m(2) by (auto simp: set_logits_mask intro!: exI[of _ 5934])
    then have "req_mask req \<noteq> []" by (auto simp: req_def)
    then have t: "rep_token rep \<in> set (logits_mask_of mk)"
      using o rep unfolding obeys_def by (metis fst_conv req_def request.select_convs(4))
    then obtain a where a: "rep_token rep = a + 151665" "0 \<le> a" "a \<le> 5934" "mk a" by (auto simp: set_logits_mask)
    obtain ev path flags dead r b2 where u: "update player a b1 = Inr ((ev, path, flags, dead, r), b2)" "play_inv b2"
      "dead_players b2 = dead_players (r_board st) @ dead" "set (dead_players (r_board st) @ dead) \<subseteq> {..<4}"
      "ev = 4 \<longleftrightarrow> a = 5934" "ev \<le> 4" "\<forall>f \<in> set flags. f < 8"
      using play[OF a(2-4)] by blast
    let ?st = "st\<lparr>r_board := b2, r_idx := (r_idx st)[grp := length (r_buffer st)],
                      r_req_id := (r_req_id st)[grp := Some (rep_id rep)]\<rparr>"
    have l: "ledgers i ?st" using st(2) by (simp add: ledgers_frame)
    obtain s1 where s1: "note_result grp rep ev ?st = Inr s1" "r_board s1 = b2" "r_dead s1 = r_dead st"
      "ledgers (Suc i) (s1\<lparr>r_reward_list := add_reward grp r (r_reward_list s1),
        r_logits_masks := (r_logits_masks s1)[grp := r_logits_masks s1 ! grp @ [logits_mask_of mk]]\<rparr>)"
      using note_result_ok[OF l g t, of ev r] a u(5,6) by auto
    obtain s2 where s2: "note_flags grp flags (s1\<lparr>r_reward_list := add_reward grp r (r_reward_list s1),
        r_logits_masks := (r_logits_masks s1)[grp := r_logits_masks s1 ! grp @ [logits_mask_of mk]]\<rparr>) = Inr s2"
      "ledgers (Suc i) s2" "r_board s2 = b2" "r_dead s2 = r_dead st"
      using note_flags_ok[OF s1(4) g(1) u(7)] s1(2,3) by auto
    have "\<forall>x \<in> set dead. x < 4" using u(4) by auto
    from note_dead_ok[OF s2(2) g(1) this] obtain over s3 where s3: "note_dead grp dead s2 = Inr (over, s3)" "ledgers (Suc i) s3"
      "r_board s3 = b2" "set (r_dead s3) = set (r_dead st) \<union> set dead" "distinct (r_dead s3)"
      "if dead = [] then \<not> over \<and> r_dead s3 = r_dead st else over = game_over (r_dead s3)"
      using s2(3,4) d(2) by auto
    have "play_turn gens session_ids prompt i (st, e) = Inr (over, s3, e1)"
      using False m(1) rep u(1) s1(1) s2(1) s3(1) a(1)
      unfolding play_turn_def prod.case Let_def player_def[symmetric] grp_def[symmetric] req_def[symmetric]
      by (simp add: req_def[symmetric])
    moreover have "if over then game_over (r_dead s3) else game_ok s3"
      using s3 u(2,3) d by (auto simp: game_ok_def split: if_splits)
    ultimately show ?thesis using s3(2) by blast
  qed
qed

section \<open>The whole game\<close>

lemma turns_ok:
  assumes o: "obeys gens" and st: "game_ok st" "ledgers i st" and z: "i = 0 \<longrightarrow> r_dead st = []" and n: "i \<le> n"
  shows "\<exists>over st' e'. turns gens session_ids prompt [i..<n] (st, e) = Inr (over, st', e') \<and>
    (\<exists>j \<ge> i. ledgers j st' \<and> j \<le> n) \<and> (if over then game_over (r_dead st') else game_ok st')"
  using st z n
proof (induction "n - i" arbitrary: i st e)
  case 0
  then show ?case by auto
next
  case (Suc m)
  then have up: "[i..<n] = i # [Suc i..<n]" by (simp add: upt_conv_Cons)
  obtain over st' e' where t: "play_turn gens session_ids prompt i (st, e) = Inr (over, st', e')" "ledgers (Suc i) st'"
    "if over then game_over (r_dead st') else game_ok st'"
    using turn_ok[OF o Suc.prems(1-3)] by blast
  show ?case
  proof (cases over)
    case True
    have "\<exists>j \<ge> i. ledgers j st' \<and> j \<le> n" using t(2) Suc.hyps(2) by (intro exI[of _ "Suc i"]) simp
    then show ?thesis using t(1,3) True unfolding up by auto
  next
    case False
    then have "game_ok st'" using t(3) by simp
    have m: "m = n - Suc i" and le: "Suc i \<le> n" using Suc.hyps(2) by simp_all
    obtain over2 st2 e2 j where r: "turns gens session_ids prompt [Suc i..<n] (st', e') = Inr (over2, st2, e2)"
      "Suc i \<le> j" "ledgers j st2" "j \<le> n" "if over2 then game_over (r_dead st2) else game_ok st2"
      using Suc.hyps(1)[OF m \<open>game_ok st'\<close> t(2) _ le] by blast
    have "turns gens session_ids prompt [i..<n] (st, e) = Inr (over2, st2, e2)"
      unfolding up using t(1) r(1) False by simp
    moreover have "\<exists>j \<ge> i. ledgers j st2 \<and> j \<le> n" using r(2-4) by (intro exI[of _ j]) simp
    ultimately show ?thesis using r(5) by blast
  qed
qed

lemma new_ledgers: "ledgers 0 (rollout_new b)"
proof -
  have "ledger [] [] [] []" by (simp add: ledger_def marked_def)
  then show ?thesis
    by (auto simp: ledgers_def books_def rollout_new_def accounts_def opening_moves_def less_2_cases_iff)
qed

lemma game_spec:
  assumes "obeys gens"
  shows "\<exists>p0 p1 over st e' n. junqi_game gens tok session_ids draws e = Inr ([p0, p1], over, st, e') \<and>
    ledgers n st \<and> over = game_over (r_dead st) \<and> (\<not> over \<longrightarrow> game_ok st)"
proof -
  obtain d0 d1 d2 d3 where d: "draws = (d0, d1, d2, d3)" by (cases draws)
  obtain b where b: "generated_board d0 d1 d2 d3 = Inr b" "play_inv b" "dead_players b = []" "valid_layouts (b_layout b)"
    using new_game by blast
  obtain p0 p1 where p: "generate_prompt tok (get_layout 0 b) = Inr p0" "generate_prompt tok (get_layout 1 b) = Inr p1"
    using prompt_ok[OF b(4)] by blast
  have go: "game_ok (rollout_new b)" using b by (simp add: game_ok_def rollout_new_def game_over_def)
  have z: "0 = 0 \<longrightarrow> r_dead (rollout_new b) = []" by (simp add: rollout_new_def)
  from turns_ok[OF assms go new_ledgers z le0[of 400], of session_ids "[p0, p1]" e] obtain over st e' j where t: "turns gens session_ids [p0, p1] [0..<400] (rollout_new b, e) = Inr (over, st, e')"
    "ledgers j st" "if over then game_over (r_dead st) else game_ok st"
    by blast
  have "over = game_over (r_dead st)" using t(3) by (auto simp: game_ok_def split: if_splits)
  moreover have "junqi_game gens tok session_ids draws e = Inr ([p0, p1], over, st, e')"
    unfolding junqi_game_def d prod.case using b(1) p t(1) by simp
  ultimately show ?thesis using t(2,3) by auto
qed

section \<open>What the trainer gets\<close>

text \<open>A sample whose response is \<open>resp\<close>: masks, log probabilities, logits masks and rewards fit together.\<close>

definition sample_fits :: "int list \<Rightarrow> sample \<Rightarrow> bool" where
  "sample_fits resp s \<longleftrightarrow>
     (\<exists>lm lp ms rl. smp_loss_mask s = Some lm \<and> smp_rollout_log_probs s = Some lp \<and> smp_logits_masks s = Some ms \<and>
        smp_reward s = of_list (of_list PFloat) rl \<and> smp_response_length s = int (length resp) \<and>
        length lm = length resp \<and> length lp = length resp \<and> set lm \<subseteq> {0, 1} \<and>
        list_all2 (\<lambda>t mk. t \<in> set mk) (marked resp lm) ms \<and> length rl = length ms \<and> [] \<notin> set rl)"

lemma make_sample_fits:
  assumes "ledgers n st" "g < 2"
  shows "sample_fits (r_buffer st) (make_sample prompt over st g)"
proof -
  have "ledger (r_buffer st) (r_loss_mask st ! g) (r_log_probs st ! g) (r_logits_masks st ! g)"
    "length (r_reward_list st ! g) = length (r_logits_masks st ! g)" "[] \<notin> set (r_reward_list st ! g)"
    using assms by (auto simp: ledgers_def books_def accounts_def less_2_cases_iff)
  then show ?thesis by (auto simp: sample_fits_def make_sample_def ledger_def)
qed

text \<open>An engine that returns the first token it is allowed.\<close>

definition first_allowed :: "'e engine" where
  "first_allowed q e = (\<lparr>rep_id = ''r'', rep_token = hd (req_mask q), rep_logprob = 0\<rparr>, e)"

lemma first_allowed_obeys: "obeys (\<lambda>_. first_allowed)"
  by (simp add: obeys_def first_allowed_def)

text \<open>C8. Whatever layouts are drawn and whatever the engine samples within the mask it is given, a game
  of 400 turns never raises and returns two samples that share one response: each token has a loss
  mask and a log probability, the tokens marked for training are exactly those the engine sampled for
  that group, each within its logits mask, with one nonempty list of rewards apiece, and no token is
  trained for both groups.\<close>

theorem junqi_samples:
  assumes "obeys (\<lambda>_. generate)"
  shows "\<exists>s0 s1 p0 p1 resp lm0 lm1. generate_junqi generate tok session_ids draws e = Inr [s0, s1] \<and>
    smp_tokens s0 = p0 @ resp \<and> smp_tokens s1 = p1 @ resp \<and> sample_fits resp s0 \<and> sample_fits resp s1 \<and>
    smp_loss_mask s0 = Some lm0 \<and> smp_loss_mask s1 = Some lm1 \<and>
    (\<forall>i < length resp. lm0 ! i = 0 \<or> lm1 ! i = 0) \<and> set resp \<subseteq> {151665..157615} \<and>
    smp_status s0 = smp_status s1 \<and> smp_status s0 \<in> {COMPLETED, TRUNCATED}"
proof -
  obtain p0 p1 over st e' n where g: "junqi_game (\<lambda>_. generate) tok session_ids draws e = Inr ([p0, p1], over, st, e')"
    "ledgers n st" using game_spec[OF assms] by blast
  let ?s = "make_sample [p0, p1] over st"
  have "generate_junqi generate tok session_ids draws e = Inr [?s 0, ?s 1]"
    using g(1) by (simp add: generate_junqi_def upt_rec)
  moreover have "smp_tokens (?s 0) = p0 @ r_buffer st" "smp_tokens (?s 1) = p1 @ r_buffer st"
    "smp_loss_mask (?s 0) = Some (r_loss_mask st ! 0)" "smp_loss_mask (?s 1) = Some (r_loss_mask st ! 1)"
    "smp_status (?s 0) = smp_status (?s 1)" "smp_status (?s 0) \<in> {COMPLETED, TRUNCATED}"
    by (simp_all add: make_sample_def)
  moreover have "\<forall>i < length (r_buffer st). r_loss_mask st ! 0 ! i = 0 \<or> r_loss_mask st ! 1 ! i = 0"
    "set (r_buffer st) \<subseteq> {151665..157615}"
    using g(2) by (auto simp: ledgers_def books_def)
  ultimately show ?thesis using make_sample_fits[OF g(2)] by (metis one_less_numeral_iff semiring_norm(76) zero_less_numeral)
qed

theorem junqi_samples_witness:
  "\<exists>s0 s1. generate_junqi first_allowed (\<lambda>_. [1]) [''a'', ''b''] (\<lambda>_. 0, \<lambda>_. 0, \<lambda>_. 0, \<lambda>_. 0) () = Inr [s0, s1] \<and>
    smp_status s0 = smp_status s1"
  using junqi_samples[OF first_allowed_obeys, of "\<lambda>_. [1]" "[''a'', ''b'']" "(\<lambda>_. 0, \<lambda>_. 0, \<lambda>_. 0, \<lambda>_. 0)" "()"]
  by fast



text \<open>The rewards of the two groups cancel except for the moves group 0 made before group 1 made
  its first: those are credited to group 0 and debited to nobody.  The evaluation of one engine
  against the other returns whether group 0 collected more.\<close>

lemma junqi_accounts:
  assumes "obeys (\<lambda>grp. if grp = 0 then generate else generate1)"
  shows "\<exists>prompt over st e'.
    junqi_game (\<lambda>grp. if grp = 0 then generate else generate1) tok session_ids draws e = Inr (prompt, over, st, e') \<and>
    sum_list (concat (r_reward_list st ! 0)) + sum_list (concat (r_reward_list st ! 1)) =
      sum_list (map hd (take (opening_moves (r_loss_mask st ! 0) (r_loss_mask st ! 1)) (r_reward_list st ! 0))) \<and>
    generate_junqi1 generate generate1 tok session_ids draws e =
      Inr (sum_list (concat (r_reward_list st ! 0)) > sum_list (concat (r_reward_list st ! 1)))"
proof -
  obtain p0 p1 over st e' n where g:
    "junqi_game (\<lambda>grp. if grp = 0 then generate else generate1) tok session_ids draws e = Inr ([p0, p1], over, st, e')"
    "ledgers n st" using game_spec[OF assms] by blast
  then show ?thesis by (auto simp: generate_junqi1_def ledgers_def accounts_def)
qed

end
