(* ===== verification/Seqlen_Balancing.thy ===== *)
theory Seqlen_Balancing
  imports Prelude "HOL-Library.List_Lexorder" "HOL-Library.Product_Lexorder"
begin

text \<open>
  \<open>slime/utils/seqlen_balancing.py\<close>: the largest differencing method of Karmarkar and Karp, the
  greedy partition, and the checked partition that the data pipeline uses to spread samples over
  ranks and micro-batches.  A sequence length is a natural number, an item a pair of the index of a
  sample and its length.
\<close>

section \<open>Sets and states\<close>

datatype kset = KSet (ks_sum: nat) (ks_items: "(nat \<times> nat) list")

definition set_new :: kset where
  "set_new = KSet 0 []"

definition kset_add :: "nat \<Rightarrow> nat \<Rightarrow> kset \<Rightarrow> kset" where
  "kset_add idx val s = KSet (ks_sum s + val) (ks_items s @ [(idx, val)])"

definition kset_merge :: "kset \<Rightarrow> kset \<Rightarrow> kset" where
  "kset_merge s other = fold (\<lambda>(idx, val) s. kset_add idx val s) (ks_items other) s"

text \<open>\<open>Set.__lt__\<close> is a linear order: the sum, then the number of items, then the items.\<close>

instantiation kset :: linorder
begin

definition less_kset :: "kset \<Rightarrow> kset \<Rightarrow> bool" where
  "less_kset s t =
     (if ks_sum s \<noteq> ks_sum t then ks_sum s < ks_sum t
      else if length (ks_items s) \<noteq> length (ks_items t) then length (ks_items s) < length (ks_items t)
      else ks_items s < ks_items t)"

definition less_eq_kset :: "kset \<Rightarrow> kset \<Rightarrow> bool" where
  "less_eq_kset s t \<longleftrightarrow> s < t \<or> s = t"

instance
proof
  fix x y z :: kset
  show "x < y \<longleftrightarrow> x \<le> y \<and> \<not> y \<le> x" unfolding less_eq_kset_def less_kset_def by auto
  show "x \<le> x" unfolding less_eq_kset_def by simp
  show "x \<le> y \<Longrightarrow> y \<le> z \<Longrightarrow> x \<le> z" unfolding less_eq_kset_def less_kset_def by (auto split: if_splits)
  show "x \<le> y \<Longrightarrow> y \<le> x \<Longrightarrow> x = y" unfolding less_eq_kset_def less_kset_def by (auto split: if_splits)
  show "x \<le> y \<or> y \<le> x" unfolding less_eq_kset_def less_kset_def by (cases x; cases y) auto
qed

end

text \<open>\<open>sorted(sets, reverse=True)\<close>; sets that compare equal are equal, so stability is no matter.\<close>

definition sort_desc :: "kset list \<Rightarrow> kset list" where
  "sort_desc sets = rev (sort sets)"

type_synonym kstate = "kset list"

definition state_new :: "(nat \<times> nat) list \<Rightarrow> nat \<Rightarrow> kstate result" where
  "state_new items k =
     bindE (assertE (length items = 1 \<or> length items = k)) (\<lambda>_.
     bindE (foldE (\<lambda>(i, (idx, seqlen)) sets.
              if i < length sets then Inr (sets[i := kset_add idx seqlen (sets ! i)]) else Inl IndexError)
            (enumerate_list items) (replicate k set_new)) (\<lambda>sets.
       Inr (sort_desc sets)))"

definition state_merge :: "kstate \<Rightarrow> kstate \<Rightarrow> kstate" where
  "state_merge sets other =
     sort_desc (map (\<lambda>i. kset_merge (sets ! i) (other ! (length sets - 1 - i))) [0..<length sets])"

definition spread :: "kstate \<Rightarrow> int" where
  "spread sets = int (ks_sum (hd sets)) - int (ks_sum (last sets))"

definition state_less :: "kstate \<Rightarrow> kstate \<Rightarrow> bool" where
  "state_less s t = (if spread s \<noteq> spread t then spread s > spread t else hd s > hd t)"

definition get_partitions :: "kstate \<Rightarrow> nat list list" where
  "get_partitions sets = map (\<lambda>s. map fst (ks_items s)) sets"

section \<open>The priority queue\<close>

text \<open>
  What the algorithm uses of \<open>heapq\<close>: pushing adds an element, popping removes one than which no
  other is smaller.  (States of one run differ in their largest set, so the order is total on them
  and the heap's layout cannot show.)
\<close>

locale min_queue =
  fixes less :: "'a \<Rightarrow> 'a \<Rightarrow> bool" and push :: "'a \<Rightarrow> 'q \<Rightarrow> 'q" and pop :: "'q \<Rightarrow> ('a \<times> 'q) option"
    and contents :: "'q \<Rightarrow> 'a multiset"
  assumes contents_push: "contents (push x q) = add_mset x (contents q)"
    and pop_None: "pop q = None \<longleftrightarrow> contents q = {#}"
    and pop_Some: "pop q = Some (x, q') \<Longrightarrow> contents q = add_mset x (contents q')"
    and less_asym: "less x y \<Longrightarrow> \<not> less y x"
    and less_negtrans: "\<lbrakk>\<not> less x y; \<not> less y z\<rbrakk> \<Longrightarrow> \<not> less x z"
    and pop_least: "\<lbrakk>pop q = Some (x, q'); y \<in># contents q'\<rbrakk> \<Longrightarrow> \<not> less y x"
begin

lemma pop_two:
  assumes "1 < size (contents q)"
  shows "\<exists>x y q1 q2. pop q = Some (x, q1) \<and> pop q1 = Some (y, q2) \<and>
    contents q = add_mset x (add_mset y (contents q2))"
proof -
  have "contents q \<noteq> {#}" using assms by auto
  then obtain x q1 where p: "pop q = Some (x, q1)" using pop_None by fastforce
  then have c: "contents q = add_mset x (contents q1)" by (rule pop_Some)
  then have "contents q1 \<noteq> {#}" using assms by auto
  then obtain y q2 where y: "pop q1 = Some (y, q2)" using pop_None by fastforce
  then have "contents q1 = add_mset y (contents q2)" by (rule pop_Some)
  then show ?thesis using p y c by auto
qed

lemma size_pop_two:
  assumes "pop q = Some (x, q1)" "pop q1 = Some (y, q2)"
  shows "size (contents (push z q2)) < size (contents q)"
  using pop_Some[OF assms(1)] pop_Some[OF assms(2)] contents_push by simp

end

fun pop_min :: "('a \<Rightarrow> 'a \<Rightarrow> bool) \<Rightarrow> 'a list \<Rightarrow> ('a \<times> 'a list) option" where
  "pop_min lt [] = None"
| "pop_min lt (x # xs) =
     (case pop_min lt xs of
        None \<Rightarrow> Some (x, [])
      | Some (y, ys) \<Rightarrow> if lt y x then Some (y, x # ys) else Some (x, xs))"

definition heappush :: "kstate \<Rightarrow> kstate list \<Rightarrow> kstate list" where
  "heappush s q = q @ [s]"

definition heappop :: "kstate list \<Rightarrow> (kstate \<times> kstate list) option" where
  "heappop q = pop_min state_less q"

lemma pop_min_None: "pop_min lt q = None \<longleftrightarrow> q = []"
  by (cases q) (auto split: option.splits prod.splits)

lemma pop_min_mset: "pop_min lt q = Some (x, q') \<Longrightarrow> mset q = add_mset x (mset q')"
  by (induction q arbitrary: x q') (auto simp: pop_min_None split: option.splits prod.splits if_splits)

lemma pop_min_least:
  assumes asym: "\<And>x y. lt x y \<Longrightarrow> \<not> lt y x" and negtrans: "\<And>x y z. \<not> lt x y \<Longrightarrow> \<not> lt y z \<Longrightarrow> \<not> lt x z"
  shows "\<lbrakk>pop_min lt q = Some (x, q'); y \<in> set q'\<rbrakk> \<Longrightarrow> \<not> lt y x"
proof (induction q arbitrary: x q' y)
  case (Cons a q)
  show ?case
  proof (cases "pop_min lt q")
    case None
    then show ?thesis using Cons.prems by simp
  next
    case (Some r)
    obtain b q1 where r: "r = (b, q1)" by (cases r)
    have IH: "\<not> lt z b" if "z \<in> set q1" for z
      using Cons.IH[OF Some[unfolded r] that] .
    have q: "set q = insert b (set q1)" using pop_min_mset[OF Some[unfolded r]] by (metis set_mset_add_mset_insert set_mset_mset)
    show ?thesis
    proof (cases "lt b a")
      case True
      then have x: "x = b" "q' = a # q1" using Cons.prems(1) Some r by auto
      then show ?thesis using Cons.prems(2) IH True asym by auto
    next
      case False
      then have x: "x = a" "q' = q" using Cons.prems(1) Some r by auto
      have "y = b \<or> y \<in> set q1" using Cons.prems(2) x q by auto
      then show ?thesis using IH False x negtrans by metis
    qed
  qed
qed simp

lemma state_less_asym: "state_less x y \<Longrightarrow> \<not> state_less y x"
  by (auto simp: state_less_def split: if_splits)

lemma state_less_negtrans: "\<not> state_less x y \<Longrightarrow> \<not> state_less y z \<Longrightarrow> \<not> state_less x z"
  by (auto simp: state_less_def split: if_splits)

interpretation heapq: min_queue state_less heappush heappop mset
proof unfold_locales
  show "heappop q = Some (x, q') \<Longrightarrow> y \<in># mset q' \<Longrightarrow> \<not> state_less y x" for q x q' y
    unfolding heappop_def by (rule pop_min_least[OF state_less_asym state_less_negtrans]) simp_all
qed (auto simp: heappush_def heappop_def pop_min_None dest: pop_min_mset state_less_asym state_less_negtrans)

section \<open>The largest differencing method\<close>

function kk_loop :: "kstate list \<Rightarrow> kstate list" where
  "kk_loop q =
     (if 1 < length q
      then (case heappop q of None \<Rightarrow> q
            | Some (state0, q1) \<Rightarrow> (case heappop q1 of None \<Rightarrow> q
            | Some (state1, q2) \<Rightarrow> kk_loop (heappush (state_merge state0 state1) q2)))
      else q)"
  by pat_completeness auto
termination
  by (relation "measure length") (use heapq.size_pop_two in auto)

declare kk_loop.simps [simp del]

fun chunks :: "nat \<Rightarrow> nat \<Rightarrow> 'a list \<Rightarrow> 'a list list" where
  "chunks 0 k xs = []"
| "chunks (Suc n) k xs = take k xs # chunks n k (drop k xs)"

definition karmarkar_karp :: "nat list \<Rightarrow> nat \<Rightarrow> bool \<Rightarrow> nat list list result" where
  "karmarkar_karp seqlen_list k equal_size =
     (let sorted_list = sort (map (\<lambda>(i, seqlen). (seqlen, i)) (enumerate_list seqlen_list)) in
      bindE (if equal_size
             then bindE (raise_unless ZeroDivisionError (k \<noteq> 0)) (\<lambda>_.
                  bindE (assertE (length seqlen_list mod k = 0)) (\<lambda>_.
                    foldE (\<lambda>items q. bindE (state_new items k) (\<lambda>s. Inr (heappush s q)))
                      (map (map (\<lambda>(seqlen, idx). (idx, seqlen))) (chunks (length sorted_list div k) k sorted_list)) []))
             else foldE (\<lambda>(seqlen, idx) q. bindE (state_new [(idx, seqlen)] k) (\<lambda>s. Inr (heappush s q)))
                    sorted_list []) (\<lambda>states.
      bindE (raise_unless IndexError (kk_loop states \<noteq> [])) (\<lambda>_.
        let partitions = get_partitions (hd (kk_loop states)) in
        bindE (assertE (equal_size \<longrightarrow> (\<forall>p \<in> set partitions. length p * k = length seqlen_list))) (\<lambda>_.
          Inr partitions))))"

section \<open>What a state is\<close>

lemma kset_merge_eq:
  "kset_merge s other = KSet (ks_sum s + sum_list (map snd (ks_items other))) (ks_items s @ ks_items other)"
proof -
  have "fold (\<lambda>(idx, val) s. kset_add idx val s) xs s = KSet (ks_sum s + sum_list (map snd xs)) (ks_items s @ xs)" for xs
    by (induction xs arbitrary: s) (auto simp: kset_add_def)
  then show ?thesis by (simp add: kset_merge_def)
qed

lemma state_merge_map2:
  "length other = length sets \<Longrightarrow> state_merge sets other = sort_desc (map2 kset_merge sets (rev other))"
  unfolding state_merge_def by (intro arg_cong[of _ _ sort_desc] nth_equalityI) (auto simp: rev_nth)

lemma sort_desc_facts [simp]:
  "set (sort_desc xs) = set xs" "length (sort_desc xs) = length xs" "mset (sort_desc xs) = mset xs"
  "sorted_wrt (\<ge>) (sort_desc xs)"
  by (simp_all add: sort_desc_def sorted_wrt_rev)

abbreviation filled :: "kset \<Rightarrow> bool" where
  "filled s \<equiv> ks_items s \<noteq> []"

definition consistent :: "nat list \<Rightarrow> kset \<Rightarrow> bool" where
  "consistent L s \<longleftrightarrow> ks_sum s = sum_list (map snd (ks_items s)) \<and> (\<forall>(i, v) \<in> set (ks_items s). v = L ! i)"

definition items_of :: "kstate \<Rightarrow> (nat \<times> nat) list" where
  "items_of st = concat (map ks_items st)"

text \<open>
  Sums of one state differ by at most \<open>M\<close>, filled sets come first and there are as many as the
  items allow; with equal sizes every set has the same number of items.
\<close>

definition good_state :: "nat list \<Rightarrow> nat \<Rightarrow> nat \<Rightarrow> bool \<Rightarrow> kstate \<Rightarrow> bool" where
  "good_state L k M eq st \<longleftrightarrow>
     length st = k \<and> sorted_wrt (\<ge>) st \<and> (\<forall>s \<in> set st. consistent L s) \<and>
     (\<forall>s \<in> set st. \<forall>t \<in> set st. ks_sum s \<le> ks_sum t + M) \<and>
     length (filter filled st) = min k (length (items_of st)) \<and>
     (eq \<longrightarrow> (\<exists>m. \<forall>s \<in> set st. length (ks_items s) = m))"

lemma mset_items: "mset (items_of xs) = sum_mset (image_mset (\<lambda>s. mset (ks_items s)) (mset xs))"
  by (induction xs) (auto simp: items_of_def)

lemma mset_items_sort [simp]: "mset (items_of (sort_desc xs)) = mset (items_of xs)"
  by (simp only: mset_items sort_desc_facts(3))

lemma good_sort:
  assumes "length c = k" "\<And>s. s \<in> set c \<Longrightarrow> consistent L s"
    and "\<And>s t. s \<in> set c \<Longrightarrow> t \<in> set c \<Longrightarrow> ks_sum s \<le> ks_sum t + M"
    and "length (filter filled c) = min k (length (items_of c))"
    and "eq \<Longrightarrow> \<exists>m. \<forall>s \<in> set c. length (ks_items s) = m"
  shows "good_state L k M eq (sort_desc c)"
proof -
  have "length (filter filled (sort_desc c)) = length (filter filled c)"
    by (metis mset_filter size_mset sort_desc_facts(3))
  moreover have "length (items_of (sort_desc c)) = length (items_of c)" by (metis mset_items_sort size_mset)
  ultimately show ?thesis using assms unfolding good_state_def by simp
qed

lemma filled_mono: "consistent L s \<Longrightarrow> consistent L t \<Longrightarrow> t \<le> s \<Longrightarrow> filled t \<Longrightarrow> filled s"
  by (auto simp: consistent_def less_eq_kset_def less_kset_def split: if_splits)

lemma filter_prefix:
  assumes "sorted_wrt (\<ge>) xs" "\<And>x y. x \<in> set xs \<Longrightarrow> y \<in> set xs \<Longrightarrow> y \<le> x \<Longrightarrow> P y \<Longrightarrow> P x" "i < length xs"
  shows "P (xs ! i) \<longleftrightarrow> i < length (filter P xs)"
  using assms
proof (induction xs arbitrary: i)
  case (Cons x xs)
  have IH: "P (xs ! j) \<longleftrightarrow> j < length (filter P xs)" if "j < length xs" for j
    using Cons.prems(1,2) that by (intro Cons.IH) auto
  show ?case
  proof (cases i)
    case 0
    have "filter P xs = []" if "\<not> P x" using Cons.prems(1,2) that by (auto simp: filter_empty_conv)
    then show ?thesis using 0 by auto
  next
    case (Suc j)
    have "xs ! j \<in> set xs" using Cons.prems(3) Suc by simp
    then have "xs ! j \<le> x" using Cons.prems(1) by simp
    then have "P x" if "P (xs ! j)" using Cons.prems(2)[of x "xs ! j"] \<open>xs ! j \<in> set xs\<close> that by simp
    then show ?thesis using IH[of j] Suc Cons.prems(3) by auto
  qed
qed simp

lemma filled_prefix:
  assumes "good_state L k M eq a" "i < k"
  shows "filled (a ! i) \<longleftrightarrow> i < length (filter filled a)"
proof (rule filter_prefix)
  show "filled x" if "x \<in> set a" "y \<in> set a" "y \<le> x" "filled y" for x y
    using that assms(1) by (intro filled_mono[of L x y]) (auto simp: good_state_def)
qed (use assms in \<open>auto simp: good_state_def\<close>)

lemma card_overlap:
  assumes "na \<le> k" "nb \<le> k"
  shows "card {i. i < k \<and> (i < na \<or> k - 1 - i < nb)} = min k (na + nb)"
proof (cases "na + nb \<le> k")
  case True
  have "{i. i < k \<and> (i < na \<or> k - 1 - i < nb)} = {..<na} \<union> {k - nb..<k}" using True assms by auto
  moreover have "{..<na} \<inter> {k - nb..<k} = {}" using True by auto
  ultimately show ?thesis using True assms by (simp add: card_Un_disjoint)
next
  case False
  then have "{i. i < k \<and> (i < na \<or> k - 1 - i < nb)} = {..<k}" using assms by auto
  then show ?thesis using False by simp
qed

lemma merge_spread:
  fixes a0 a1 b0 b1 M :: nat
  assumes "a1 \<le> a0" "a0 \<le> a1 + M" "b0 \<le> b1" "b1 \<le> b0 + M"
  shows "a0 + b0 \<le> a1 + b1 + M" "a1 + b1 \<le> a0 + b0 + M"
  using assms by auto

lemma ge_sum: "t \<le> s \<Longrightarrow> ks_sum t \<le> ks_sum s"
  by (auto simp: less_eq_kset_def less_kset_def split: if_splits)

lemma good_merge:
  assumes a: "good_state L k M eq a" and b: "good_state L k M eq b"
  shows "good_state L k M eq (state_merge a b)" "mset (items_of (state_merge a b)) = mset (items_of a) + mset (items_of b)"
proof -
  have la: "length a = k" and lb: "length b = k" using a b by (simp_all add: good_state_def)
  let ?c = "map2 kset_merge a (rev b)"
  have m: "state_merge a b = sort_desc ?c" using la lb by (intro state_merge_map2) simp
  have nth: "?c ! i = kset_merge (a ! i) (b ! (k - 1 - i))" if "i < k" for i
    using that la lb by (simp add: rev_nth)
  have cons: "consistent L s" if "s \<in> set a \<union> set b" for s using a b that by (auto simp: good_state_def)
  have items: "mset (items_of ?c) = mset (items_of a) + mset (items_of b)"
  proof -
    have "mset (concat (map ks_items (map2 kset_merge xs ys))) = mset (concat (map ks_items xs)) + mset (concat (map ks_items ys))"
      if "length xs = length ys" for xs ys
      using that by (induction xs ys rule: list_induct2) (auto simp: kset_merge_eq)
    from this[of a "rev b"] have "mset (items_of ?c) = mset (items_of a) + mset (concat (rev (map ks_items b)))"
      using la lb unfolding items_of_def by (simp add: rev_map)
    moreover have "mset (concat (rev xss)) = mset (concat xss)" for xss :: "(nat \<times> nat) list list"
      by (induction xss) auto
    ultimately show ?thesis by (simp add: items_of_def)
  qed
  show "mset (items_of (state_merge a b)) = mset (items_of a) + mset (items_of b)" unfolding m mset_items_sort by (rule items)
  have conc: "consistent L s" if "s \<in> set ?c" for s
  proof -
    obtain i where i: "i < k" "s = kset_merge (a ! i) (b ! (k - 1 - i))"
      using \<open>s \<in> set ?c\<close> nth la lb by (auto simp: in_set_conv_nth)
    have "consistent L (a ! i)" "consistent L (b ! (k - 1 - i))" using i(1) la lb cons by auto
    then show ?thesis unfolding i(2) by (auto simp: consistent_def kset_merge_eq)
  qed
  have fill: "length (filter filled ?c) = min k (length (items_of ?c))"
  proof -
    have "length (filter filled ?c) = card {i. i < k \<and> filled (?c ! i)}"
      using la lb by (simp add: length_filter_conv_card)
    also have "{i. i < k \<and> filled (?c ! i)} =
      {i. i < k \<and> (i < length (filter filled a) \<or> k - 1 - i < length (filter filled b))}"
    proof -
      have "filled (?c ! i) \<longleftrightarrow> i < length (filter filled a) \<or> k - 1 - i < length (filter filled b)" if "i < k" for i
        using filled_prefix[OF a that] filled_prefix[OF b, of "k - 1 - i"] nth[OF that] that by (auto simp: kset_merge_eq)
      then show ?thesis by blast
    qed
    also have "card \<dots> = min k (length (filter filled a) + length (filter filled b))"
      using length_filter_le[of filled a] length_filter_le[of filled b] la lb by (intro card_overlap) simp_all
    also have "\<dots> = min k (length (items_of a) + length (items_of b))"
      using a b by (auto simp: good_state_def)
    also have "length (items_of a) + length (items_of b) = length (items_of ?c)"
      using items by (metis size_mset size_union)
    finally show ?thesis .
  qed
  have spr: "ks_sum (?c ! i) \<le> ks_sum (?c ! j) + M" if "i < k" "j < k" for i j
  proof -
    let ?b = "\<lambda>i. b ! (k - 1 - i)"
    have s: "ks_sum (?c ! i) = ks_sum (a ! i) + ks_sum (?b i)" if "i < k" for i
      unfolding nth[OF that] using cons[of "?b i"] lb that by (simp add: kset_merge_eq consistent_def)
    have A: "ks_sum (a ! j) \<le> ks_sum (a ! i)" if "i \<le> j" "j < k" for i j
      using a that la by (cases "i = j") (auto simp: good_state_def sorted_wrt_iff_nth_less intro: ge_sum)
    have B: "ks_sum (?b i) \<le> ks_sum (?b j)" if "i \<le> j" "j < k" for i j
      using b that lb by (cases "i = j") (auto simp: good_state_def sorted_wrt_iff_nth_less intro!: ge_sum)
    have AM: "ks_sum (a ! i) \<le> ks_sum (a ! j) + M" "ks_sum (?b i) \<le> ks_sum (?b j) + M" if "i < k" "j < k" for i j
      using a b that la lb by (auto simp: good_state_def)
    show ?thesis
    proof (cases "i \<le> j")
      case True
      then show ?thesis using merge_spread(1)[OF A[OF True that(2)] AM(1)[OF that] B[OF True that(2)] AM(2)[OF that(2,1)]] s that by simp
    next
      case False
      then have "j \<le> i" by simp
      then show ?thesis using merge_spread(2)[OF A[OF _ that(1)] AM(1)[OF that(2,1)] B[OF _ that(1)] AM(2)[OF that]] s that by simp
    qed
  qed
  have size: "\<exists>m. \<forall>s \<in> set ?c. length (ks_items s) = m" if eq
  proof -
    obtain ma mb where "\<forall>s \<in> set a. length (ks_items s) = ma" "\<forall>s \<in> set b. length (ks_items s) = mb"
      using a b \<open>eq\<close> unfolding good_state_def by blast
    then have "\<forall>i < k. length (ks_items (?c ! i)) = ma + mb" using nth la lb by (auto simp: kset_merge_eq)
    then show ?thesis using la lb by (intro exI[of _ "ma + mb"]) (auto simp: in_set_conv_nth)
  qed
  show "good_state L k M eq (state_merge a b)" unfolding m
  proof (rule good_sort)
    show "ks_sum s \<le> ks_sum t + M" if st: "s \<in> set ?c" "t \<in> set ?c" for s t
    proof -
      obtain i j where "i < k" "s = ?c ! i" "j < k" "t = ?c ! j"
        using st la lb unfolding in_set_conv_nth by auto
      then show ?thesis using spr by blast
    qed
  qed (use conc fill size la lb in \<open>simp_all del: set_map\<close>)
qed

section \<open>The run of the algorithm\<close>

definition queue_items :: "kstate list \<Rightarrow> (nat \<times> nat) multiset" where
  "queue_items q = sum_mset (image_mset (\<lambda>s. mset (items_of s)) (mset q))"

lemma kk_loop_result:
  assumes "q \<noteq> []" "\<forall>s \<in> set q. good_state L k M eq s"
  shows "\<exists>s. kk_loop q = [s] \<and> good_state L k M eq s \<and> mset (items_of s) = queue_items q"
  using assms
proof (induction q rule: kk_loop.induct)
  case (1 q)
  show ?case
  proof (cases "1 < length q")
    case True
    then obtain x y q1 q2 where p: "heappop q = Some (x, q1)" "heappop q1 = Some (y, q2)"
      and c: "mset q = add_mset x (add_mset y (mset q2))"
      using heapq.pop_two[of q] by auto
    let ?r = "heappush (state_merge x y) q2"
    have "set q = {x, y} \<union> set q2" using c by (metis insert_is_Un set_mset_add_mset_insert set_mset_mset Un_insert_left)
    then have g: "good_state L k M eq x" "good_state L k M eq y" "\<forall>s \<in> set q2. good_state L k M eq s"
      using "1.prems"(2) by auto
    have "\<exists>s. kk_loop ?r = [s] \<and> good_state L k M eq s \<and> mset (items_of s) = queue_items ?r"
      using "1.IH"[OF True p(1) refl p(2) refl] good_merge(1)[OF g(1,2)] g(3) by (auto simp: heappush_def)
    moreover have "queue_items ?r = queue_items q"
      unfolding queue_items_def c by (simp add: heappush_def good_merge(2)[OF g(1,2)])
    ultimately show ?thesis using True p by (subst kk_loop.simps) simp
  next
    case False
    then obtain s where "q = [s]" using "1.prems"(1) by (cases q) auto
    then show ?thesis using "1.prems"(2) by (simp add: kk_loop.simps queue_items_def)
  qed
qed

definition single :: "nat \<times> nat \<Rightarrow> kset" where
  "single it = KSet (snd it) [it]"

lemma state_new_fold:
  "length items \<le> m \<Longrightarrow>
   foldE (\<lambda>(i, (idx, seqlen)) sets.
       if i < length sets then Inr (sets[i := kset_add idx seqlen (sets ! i)]) else Inl IndexError)
     (List.enumerate (length pre) items) (pre @ replicate m set_new)
   = Inr (pre @ map single items @ replicate (m - length items) set_new)"
proof (induction items arbitrary: pre m)
  case (Cons it items)
  then obtain m' where "m = Suc m'" by (cases m) auto
  then show ?case using Cons.IH[of m' "pre @ [single it]"] Cons.prems
    by (cases it) (simp add: list_update_append nth_append single_def kset_add_def set_new_def)
qed simp

lemma state_new_good:
  assumes len: "length items = 1 \<or> length items = k" "0 < k" "eq \<longrightarrow> length items = k"
    and it: "\<forall>(i, v) \<in> set items. v = L ! i \<and> v \<le> M"
  shows "\<exists>s. state_new items k = Inr s \<and> good_state L k M eq s \<and> mset (items_of s) = mset items"
proof -
  let ?c = "map single items @ replicate (k - length items) set_new"
  have lk: "length items \<le> k" using len by auto
  have "state_new items k = Inr (sort_desc ?c)"
    using len lk state_new_fold[of items k "[]"] by (simp add: state_new_def enumerate_list_def assertE_def)
  moreover have i: "items_of ?c = items"
  proof -
    have "concat (map ks_items (map single xs)) = xs" for xs by (induction xs) (auto simp: single_def)
    then show ?thesis by (simp add: items_of_def set_new_def map_replicate_const)
  qed
  moreover have "good_state L k M eq (sort_desc ?c)"
  proof (rule good_sort)
    have c: "(s = set_new \<and> length items < k) \<or> (\<exists>i v. s = KSet v [(i, v)] \<and> v = L ! i \<and> v \<le> M)" if "s \<in> set ?c" for s
      using that it by (force simp: single_def)
    show "consistent L s" if "s \<in> set ?c" for s using c[OF that] by (auto simp: consistent_def set_new_def)
    have M: "ks_sum s \<le> M" if "s \<in> set ?c" for s using c[OF that] by (auto simp: set_new_def)
    show "ks_sum s \<le> ks_sum t + M" if "s \<in> set ?c" for s t using M[OF that] by simp
    show "length (filter filled ?c) = min k (length (items_of ?c))"
      unfolding i using lk by (simp add: single_def set_new_def comp_def)
    show "\<exists>m. \<forall>s \<in> set ?c. length (ks_items s) = m" if eq
      using len(3) \<open>eq\<close> by (intro exI[of _ 1]) (auto simp: single_def)
  qed (use lk in simp)
  ultimately show ?thesis by simp
qed

lemma chunks_facts:
  assumes "n * k \<le> length xs"
  shows "concat (chunks n k xs) = take (n * k) xs" "c \<in> set (chunks n k xs) \<Longrightarrow> length c = k"
    and "length (chunks n k xs) = n"
  using assms by (induction n k xs rule: chunks.induct) (auto simp: take_add add.commute)

lemma push_states:
  assumes "\<And>x. x \<in> set xs \<Longrightarrow> \<exists>s. f x = Inr s \<and> good_state L k M eq s \<and> mset (items_of s) = mset (g x)"
  shows "\<exists>q'. foldE (\<lambda>x q. bindE (f x) (\<lambda>s. Inr (heappush s q))) xs q = Inr q' \<and>
    length q' = length q + length xs \<and>
    ((\<forall>s \<in> set q. good_state L k M eq s) \<longrightarrow> (\<forall>s \<in> set q'. good_state L k M eq s)) \<and>
    queue_items q' = queue_items q + mset (concat (map g xs))"
  using assms
proof (induction xs arbitrary: q)
  case (Cons x xs)
  obtain s where s: "f x = Inr s" "good_state L k M eq s" "mset (items_of s) = mset (g x)"
    using Cons.prems[of x] by auto
  have tl: "\<exists>s. f y = Inr s \<and> good_state L k M eq s \<and> mset (items_of s) = mset (g y)" if "y \<in> set xs" for y
    using Cons.prems that by simp
  obtain q' where "foldE (\<lambda>x q. bindE (f x) (\<lambda>s. Inr (heappush s q))) xs (heappush s q) = Inr q'"
    "length q' = length (heappush s q) + length xs"
    "(\<forall>s \<in> set (heappush s q). good_state L k M eq s) \<longrightarrow> (\<forall>s \<in> set q'. good_state L k M eq s)"
    "queue_items q' = queue_items (heappush s q) + mset (concat (map g xs))"
    using Cons.IH[OF tl] by blast
  then show ?case using s by (auto simp: heappush_def queue_items_def)
qed simp

definition indexed :: "nat list \<Rightarrow> (nat \<times> nat) list" where
  "indexed L = map (\<lambda>(seqlen, i). (i, seqlen)) (sort (map (\<lambda>(i, seqlen). (seqlen, i)) (enumerate_list L)))"

lemma set_indexed: "set (indexed L) = {(i, L ! i) | i. i < length L}"
  by (force simp: indexed_def set_enumerate_list image_iff)

lemma indexed_facts: "length (indexed L) = length L" "mset (map fst (indexed L)) = mset [0..<length L]"
proof -
  let ?sw = "\<lambda>(a :: nat, b :: nat). (b, a)"
  have "mset (map fst (indexed L)) = image_mset (fst \<circ> ?sw) (mset (sort (map ?sw (enumerate_list L))))"
    by (simp add: indexed_def image_mset.compositionality)
  also have "\<dots> = image_mset (fst \<circ> ?sw \<circ> ?sw) (mset (enumerate_list L))"
    by (simp only: mset_sort mset_map image_mset.compositionality)
  also have "fst \<circ> ?sw \<circ> ?sw = fst" by auto
  finally show "mset (map fst (indexed L)) = mset [0..<length L]" by (simp add: mset_map[symmetric] del: mset_map mset_upt)
qed (simp add: indexed_def)

text \<open>What both algorithms promise of the parts: every index once, sums close to each other.\<close>

definition part_sum :: "nat list \<Rightarrow> nat list \<Rightarrow> nat" where
  "part_sum L p = sum_list (map ((!) L) p)"

definition is_partition :: "nat list \<Rightarrow> nat \<Rightarrow> nat list list \<Rightarrow> bool" where
  "is_partition L k ps \<longleftrightarrow> length ps = k \<and> mset (concat ps) = mset [0..<length L]"

definition balanced :: "nat list \<Rightarrow> nat list list \<Rightarrow> bool" where
  "balanced L ps \<longleftrightarrow> (\<forall>p \<in> set ps. \<forall>r \<in> set ps. part_sum L p \<le> part_sum L r + Max (set L))"

lemma mset_eq_map_fst:
  assumes "mset xs = mset ys"
  shows "mset (map fst xs) = mset (map fst ys)"
  using assms by simp

lemma good_parts:
  assumes g: "good_state L k (Max (set L)) eq s" and i: "mset (items_of s) = mset (indexed L)"
  shows "is_partition L k (get_partitions s)" "balanced L (get_partitions s)"
    and "k \<le> length L \<Longrightarrow> [] \<notin> set (get_partitions s)"
    and "eq \<Longrightarrow> p \<in> set (get_partitions s) \<Longrightarrow> length p * k = length L"
proof -
  have c: "concat (get_partitions s) = map fst (items_of s)"
    by (simp add: get_partitions_def items_of_def map_concat comp_def)
  have "mset (map fst (items_of s)) = mset [0..<length L]"
    using mset_eq_map_fst[OF i] indexed_facts(2) by simp
  then show P: "is_partition L k (get_partitions s)"
    unfolding is_partition_def c using g by (simp add: good_state_def get_partitions_def[of s])
  have "part_sum L (map fst (ks_items t)) = ks_sum t" if "t \<in> set s" for t
  proof -
    have "consistent L t" using g that by (simp add: good_state_def)
    then have "map ((!) L \<circ> fst) (ks_items t) = map snd (ks_items t)" "ks_sum t = sum_list (map snd (ks_items t))"
      by (auto simp: consistent_def)
    then show ?thesis by (simp only: part_sum_def map_map)
  qed
  then show "balanced L (get_partitions s)" using g by (auto simp: balanced_def get_partitions_def good_state_def)
  have n: "length (items_of s) = length L" using i indexed_facts(1) by (metis size_mset)
  show "[] \<notin> set (get_partitions s)" if "k \<le> length L"
  proof -
    have "length (filter filled s) = length s" using g n that by (simp add: good_state_def)
    then have "filled t" if "t \<in> set s" for t
      using length_filter_less[of t s filled] \<open>t \<in> set s\<close> by auto
    then show ?thesis by (auto simp: get_partitions_def)
  qed
  show "length p * k = length L" if eq "p \<in> set (get_partitions s)"
  proof -
    obtain m where m: "\<forall>t \<in> set s. length (ks_items t) = m" using g \<open>eq\<close> by (auto simp: good_state_def)
    then have "length (items_of s) = m * length s" unfolding items_of_def by (induction s) auto
    moreover have "length p = m" using m that(2) by (auto simp: get_partitions_def)
    ultimately show ?thesis using n g by (simp add: good_state_def)
  qed
qed

lemma karmarkar_karp_spec:
  assumes k: "0 < k" and L: "L \<noteq> []" and eq: "eq \<longrightarrow> k dvd length L"
  shows "\<exists>ps. karmarkar_karp L k eq = Inr ps \<and> is_partition L k ps \<and> balanced L ps \<and>
    (k \<le> length L \<longrightarrow> [] \<notin> set ps) \<and> (eq \<longrightarrow> (\<forall>p \<in> set ps. length p * k = length L))"
proof -
  let ?M = "Max (set L)" and ?sl = "sort (map (\<lambda>(i, seqlen). (seqlen, i)) (enumerate_list L))"
  let ?sw = "\<lambda>(seqlen, idx). (idx, seqlen)" and ?n = "length L div k"
  have it: "v = L ! i \<and> v \<le> ?M" if "(i, v) \<in> set (indexed L)" for i v
    using that by (auto simp: set_indexed)
  have sl: "map ?sw ?sl = indexed L" by (simp add: indexed_def)
  have one: "\<exists>s. state_new items k = Inr s \<and> good_state L k ?M eq s \<and> mset (items_of s) = mset items"
    if "length items = 1 \<or> length items = k" "eq \<longrightarrow> length items = k" "set items \<subseteq> set (indexed L)" for items
    using that k it by (intro state_new_good) auto
  let ?q = "if eq
             then bindE (raise_unless ZeroDivisionError (k \<noteq> 0)) (\<lambda>_.
                  bindE (assertE (length L mod k = 0)) (\<lambda>_.
                    foldE (\<lambda>items q. bindE (state_new items k) (\<lambda>s. Inr (heappush s q)))
                      (map (map ?sw) (chunks (length ?sl div k) k ?sl)) []))
             else foldE (\<lambda>(seqlen, idx) q. bindE (state_new [(idx, seqlen)] k) (\<lambda>s. Inr (heappush s q))) ?sl []"
  have "\<exists>q. ?q = Inr q \<and> q \<noteq> [] \<and> (\<forall>s \<in> set q. good_state L k ?M eq s) \<and> queue_items q = mset (indexed L)"
  proof (cases eq)
    case True
    let ?ch = "map (map ?sw) (chunks ?n k ?sl)"
    have n: "?n * k = length L" using eq True by simp
    have le: "?n * k \<le> length ?sl" using n by simp
    have cc: "concat ?ch = indexed L"
      using chunks_facts(1)[OF le] n sl by (simp add: map_concat[symmetric])
    have "\<exists>s. state_new c k = Inr s \<and> good_state L k ?M eq s \<and> mset (items_of s) = mset (id c)" if "c \<in> set ?ch" for c
    proof -
      have "set c \<subseteq> set (concat ?ch)" using that by auto
      moreover have "length c = k" using that chunks_facts(2)[OF le] by auto
      ultimately show ?thesis using one[of c] cc by simp
    qed
    from push_states[of ?ch "\<lambda>c. state_new c k" L k ?M eq id "[]", OF this]
    obtain q where q: "foldE (\<lambda>items q. bindE (state_new items k) (\<lambda>s. Inr (heappush s q))) ?ch [] = Inr q"
      "length q = length ?ch" "\<forall>s \<in> set q. good_state L k ?M eq s" "queue_items q = mset (concat ?ch)"
      by (auto simp: queue_items_def simp del: length_map)
    have "length ?ch = ?n" using chunks_facts(3)[OF le] by simp
    moreover have "0 < ?n" using n L by (metis length_greater_0_conv mult_is_0 neq0_conv)
    ultimately have "q \<noteq> []" using q(2) by auto
    then show ?thesis using True eq k q cc by (simp add: enumerate_list_def)
  next
    case False
    have "\<exists>s. (\<lambda>(seqlen, idx). state_new [(idx, seqlen)] k) x = Inr s \<and> good_state L k ?M eq s \<and> mset (items_of s) = mset [?sw x]"
      if "x \<in> set ?sl" for x
      using one[of "[?sw x]"] False that sl by (cases x) (metis (no_types, lifting) One_nat_def case_prod_conv empty_set image_eqI insert_subset length_Cons list.size(3) list.set(2) list.set_map empty_subsetI)
    from push_states[of ?sl "\<lambda>(seqlen, idx). state_new [(idx, seqlen)] k" L k ?M eq "\<lambda>x. [?sw x]" "[]", OF this]
    obtain q where q: "foldE (\<lambda>x q. bindE (case x of (seqlen, idx) \<Rightarrow> state_new [(idx, seqlen)] k) (\<lambda>s. Inr (heappush s q))) ?sl [] = Inr q"
      "length q = length ?sl" "\<forall>s \<in> set q. good_state L k ?M eq s" "queue_items q = mset (concat (map (\<lambda>x. [?sw x]) ?sl))"
      by (auto simp: queue_items_def)
    have "(\<lambda>x q. bindE (case x of (seqlen, idx) \<Rightarrow> state_new [(idx, seqlen)] k) (\<lambda>s. Inr (heappush s q)))
       = (\<lambda>(seqlen, idx) q. bindE (state_new [(idx, seqlen)] k) (\<lambda>s. Inr (heappush s q)))" by (intro ext) (auto split: prod.splits)
    moreover have "q \<noteq> []" using q(2) L by auto
    moreover have "concat (map (\<lambda>x. [?sw x]) ?sl) = indexed L" using sl by simp
    ultimately show ?thesis using False q by simp
  qed
  then obtain q where q: "?q = Inr q" "q \<noteq> []" "\<forall>s \<in> set q. good_state L k ?M eq s" "queue_items q = mset (indexed L)"
    by blast
  obtain s where s: "kk_loop q = [s]" "good_state L k ?M eq s" "mset (items_of s) = mset (indexed L)"
    using kk_loop_result[OF q(2,3)] q(4) by auto
  note gp = good_parts[OF s(2,3)]
  have "karmarkar_karp L k eq = Inr (get_partitions s)"
    unfolding karmarkar_karp_def Let_def q(1) using s(1) gp(4) by (auto simp: assertE_def)
  then show ?thesis using gp by blast
qed

section \<open>The greedy partition\<close>

definition min_index :: "nat list \<Rightarrow> nat \<Rightarrow> nat option" where
  "min_index totals k = fold (\<lambda>j m. case m of None \<Rightarrow> Some j | Some i \<Rightarrow> if totals ! j < totals ! i then Some j else m) [0..<k] None"

definition greedy_add :: "nat \<Rightarrow> nat \<times> nat \<Rightarrow> nat list list \<times> nat list \<Rightarrow> (nat list list \<times> nat list) result" where
  "greedy_add k = (\<lambda>(seqlen, i) (parts, totals).
     case min_index totals k of
       None \<Rightarrow> Inl TypeError
     | Some m \<Rightarrow> Inr (parts[m := parts ! m @ [i]], totals[m := totals ! m + seqlen]))"

definition greedy_partition :: "nat list \<Rightarrow> nat \<Rightarrow> bool \<Rightarrow> nat list list result" where
  "greedy_partition seqlen_list k equal_size =
     (let bias = if equal_size then sum_list seqlen_list + 1 else 0;
          sorted_seqlen = map (\<lambda>(i, seqlen). (seqlen + bias, i)) (enumerate_list seqlen_list) in
      bindE (foldE (greedy_add k) sorted_seqlen (replicate k [], replicate k 0)) (\<lambda>(partitions, totals).
      bindE (assertE (equal_size \<longrightarrow> (\<forall>p \<in> set partitions. length p * k = length seqlen_list))) (\<lambda>_.
        Inr partitions)))"

lemma min_index_spec:
  "0 < k \<Longrightarrow> \<exists>m. min_index totals k = Some m \<and> m < k \<and> (\<forall>j < k. totals ! m \<le> totals ! j)"
proof (induction k)
  case (Suc k)
  show ?case
  proof (cases "k = 0")
    case True
    then show ?thesis by (simp add: min_index_def)
  next
    case False
    then obtain m where "min_index totals k = Some m" "m < k" "\<forall>j < k. totals ! m \<le> totals ! j" using Suc.IH by auto
    then show ?thesis by (auto simp: min_index_def less_Suc_eq)
  qed
qed simp

definition greedy_ok :: "nat list \<Rightarrow> nat \<Rightarrow> nat \<Rightarrow> nat \<Rightarrow> nat list list \<times> nat list \<Rightarrow> bool" where
  "greedy_ok L k bias n = (\<lambda>(parts, totals).
     length parts = k \<and> length totals = k \<and> mset (concat parts) = mset [0..<n] \<and>
     (\<forall>j < k. totals ! j = part_sum L (parts ! j) + length (parts ! j) * bias) \<and>
     (\<forall>i < k. \<forall>j < k. totals ! i \<le> totals ! j + (Max (set L) + bias)))"

lemma mset_concat_update:
  "m < length parts \<Longrightarrow> mset (concat (parts[m := parts ! m @ [i]])) = add_mset i (mset (concat parts))"
proof (induction parts arbitrary: m)
  case (Cons p parts)
  then show ?case by (cases m) simp_all
qed simp

lemma greedy_add_ok:
  assumes "greedy_ok L k bias n st" "n < length L" "0 < k"
  shows "\<exists>st' m. greedy_add k (L ! n + bias, n) st = Inr st' \<and> greedy_ok L k bias (Suc n) st' \<and>
    m < k \<and> (\<forall>j < k. snd st ! m \<le> snd st ! j) \<and> fst st' = (fst st)[m := fst st ! m @ [n]]"
proof -
  obtain parts totals where st: "st = (parts, totals)" by (cases st)
  obtain m where m: "min_index totals k = Some m" "m < k" "\<forall>j < k. totals ! m \<le> totals ! j"
    using min_index_spec[OF assms(3)] by blast
  let ?v = "L ! n + bias" and ?V = "Max (set L) + bias"
  let ?st = "(parts[m := parts ! m @ [n]], totals[m := totals ! m + ?v])"
  have v: "?v \<le> ?V" using assms(2) by simp
  have l: "length parts = k" "length totals = k" "mset (concat parts) = mset [0..<n]"
    and sums: "\<forall>j < k. totals ! j = part_sum L (parts ! j) + length (parts ! j) * bias"
    and close: "\<forall>i < k. \<forall>j < k. totals ! i \<le> totals ! j + ?V"
    using assms(1) unfolding greedy_ok_def st prod.case by blast+
  have "snd ?st ! i \<le> snd ?st ! j + ?V" if "i < k" "j < k" for i j
  proof -
    have "totals ! i \<le> totals ! j + ?V" "totals ! m \<le> totals ! j" using close m(3) that by blast+
    then show ?thesis using v l(2) m(2) that by (cases "i = m"; cases "j = m") simp_all
  qed
  moreover have "snd ?st ! j = part_sum L (fst ?st ! j) + length (fst ?st ! j) * bias" if "j < k" for j
    using sums that l m(2) by (cases "j = m") (simp_all add: part_sum_def)
  moreover have "mset (concat (fst ?st)) = mset [0..<Suc n]"
    using l m(2) by (simp add: mset_concat_update)
  ultimately have "greedy_ok L k bias (Suc n) ?st"
    unfolding greedy_ok_def prod.case using l by simp
  then show ?thesis using m st by (intro exI[of _ ?st] exI[of _ m]) (simp add: greedy_add_def)
qed

definition even_parts :: "nat \<Rightarrow> nat list list \<Rightarrow> bool" where
  "even_parts k parts \<longleftrightarrow> (\<forall>i < k. \<forall>j < k. length (parts ! i) \<le> length (parts ! j) + 1)"

lemma part_sum_le:
  assumes "mset (concat parts) = mset [0..<n]" "n \<le> length L" "p \<in> set parts"
  shows "part_sum L p \<le> sum_list L"
proof -
  have "part_sum L p \<le> part_sum L (concat parts)"
    using assms(3) by (induction parts) (auto simp: part_sum_def)
  also have "\<dots> = sum_mset (image_mset ((!) L) (mset (concat parts)))"
    unfolding part_sum_def by (simp only: sum_mset_sum_list[symmetric] mset_map)
  also have "\<dots> = sum_list (map ((!) L) [0..<n])"
    unfolding assms(1) by (simp only: sum_mset_sum_list[symmetric] mset_map)
  also have "map ((!) L) [0..<n] = take n L" using assms(2) by (intro nth_equalityI) auto
  also have "sum_list (take n L) \<le> sum_list (take n L) + sum_list (drop n L)" by simp
  also have "\<dots> = sum_list L" by (metis append_take_drop_id sum_list_append)
  finally show ?thesis .
qed

lemma even_step:
  assumes ok: "greedy_ok L k (sum_list L + 1) n (parts, totals)" and n: "n \<le> length L"
    and ev: "even_parts k parts" and m: "m < k" "\<forall>j < k. totals ! m \<le> totals ! j"
  shows "even_parts k (parts[m := parts ! m @ [x]])"
proof -
  let ?B = "sum_list L + 1"
  have l: "length parts = k" "mset (concat parts) = mset [0..<n]"
    and S: "\<forall>j < k. totals ! j = part_sum L (parts ! j) + length (parts ! j) * ?B"
    using ok unfolding greedy_ok_def prod.case by blast+
  have least: "length (parts ! m) \<le> length (parts ! j)" if "j < k" for j
  proof (rule ccontr)
    assume "\<not> length (parts ! m) \<le> length (parts ! j)"
    then have "Suc (length (parts ! j)) * ?B \<le> length (parts ! m) * ?B" by (intro mult_le_mono1) simp
    moreover have "part_sum L (parts ! j) < ?B" using part_sum_le[OF l(2) n, of "parts ! j"] l(1) that by simp
    ultimately have "totals ! j < totals ! m" using S m(1) that by simp
    then show False using m(2) that by (simp add: leD)
  qed
  show ?thesis
    unfolding even_parts_def
  proof (intro allI impI)
    fix i j assume ij: "i < k" "j < k"
    have "length (parts ! i) \<le> length (parts ! j) + 1" using ev ij by (simp add: even_parts_def)
    then show "length (parts[m := parts ! m @ [x]] ! i) \<le> length (parts[m := parts ! m @ [x]] ! j) + 1"
      using least[OF ij(2)] l(1) m(1) by (cases "i = m"; cases "j = m") simp_all
  qed
qed

lemma greedy_run:
  assumes "0 < k" "n \<le> length L" and eq: "eq \<longrightarrow> bias = sum_list L + 1"
  shows "\<exists>st. foldE (greedy_add k) (map (\<lambda>i. (L ! i + bias, i)) [0..<n]) (replicate k [], replicate k 0) = Inr st \<and>
    greedy_ok L k bias n st \<and> (eq \<longrightarrow> even_parts k (fst st))"
  using assms(2)
proof (induction n)
  case 0
  have "concat (replicate k []) = ([] :: nat list)" by (induction k) auto
  then show ?case by (simp add: greedy_ok_def part_sum_def even_parts_def)
next
  case (Suc n)
  then obtain st where st: "foldE (greedy_add k) (map (\<lambda>i. (L ! i + bias, i)) [0..<n]) (replicate k [], replicate k 0) = Inr st"
    "greedy_ok L k bias n st" "eq \<longrightarrow> even_parts k (fst st)" by auto
  obtain st' m where s: "greedy_add k (L ! n + bias, n) st = Inr st'" "greedy_ok L k bias (Suc n) st'" "m < k"
    "\<forall>j < k. snd st ! m \<le> snd st ! j" "fst st' = (fst st)[m := fst st ! m @ [n]]"
    using greedy_add_ok[OF st(2) _ assms(1)] Suc.prems by auto
  have "even_parts k (fst st')" if eq
    unfolding s(5) using st(2,3) eq \<open>eq\<close> s(3,4) Suc.prems
    by (intro even_step[of L k n "fst st" "snd st"]) simp_all
  then show ?case using st s by (simp add: foldE_append)
qed

lemma sum_list_even:
  assumes "\<forall>x \<in> set xs. \<forall>y \<in> set xs. x \<le> y + (1 :: nat)" "length xs dvd sum_list xs" "x \<in> set xs"
  shows "x * length xs = sum_list xs"
proof -
  let ?m = "Min (set xs)" and ?ys = "map (\<lambda>y. y - Min (set xs)) xs"
  have ne: "set xs \<noteq> {}" using assms(3) by auto
  have min: "?m \<le> y" "y \<le> ?m + 1" if "y \<in> set xs" for y using ne that assms(1) Min_in[of "set xs"] by auto
  have S: "sum_list xs = ?m * length xs + sum_list ?ys"
  proof -
    have "sum_list ys = m * length ys + sum_list (map (\<lambda>y. y - m) ys)" if "\<forall>y \<in> set ys. m \<le> y" for ys and m :: nat
      using that by (induction ys) auto
    then show ?thesis using min(1) by blast
  qed
  have lt: "sum_list ?ys < length xs"
  proof -
    have "sum_list ys < length ys" if "\<forall>y \<in> set ys. y \<le> 1" "0 \<in> set ys" for ys :: "nat list"
      using that
    proof (induction ys)
      case (Cons y ys)
      have "sum_list zs \<le> length zs" if "\<forall>z \<in> set zs. z \<le> 1" for zs :: "nat list"
        using that by (induction zs) auto
      then show ?case using Cons by (cases "y = 0") (auto simp: le_Suc_eq less_Suc_eq_le)
    qed simp
    moreover have "0 \<in> set ?ys"
      using Min_in[of "set xs"] ne imageI[of "Min (set xs)" "set xs" "\<lambda>y. y - Min (set xs)"] by simp
    moreover have "\<forall>y \<in> set ?ys. y \<le> 1" using min by force
    ultimately show ?thesis by (metis length_map)
  qed
  have "length xs dvd sum_list ?ys" using assms(2) unfolding S by (simp add: dvd_add_right_iff)
  then have "sum_list ?ys = 0" using lt by (metis dvd_imp_le not_gr_zero not_le)
  then have "x - ?m = 0" using assms(3) by (simp add: sum_list_eq_0_iff)
  then show ?thesis using S \<open>sum_list ?ys = 0\<close> min(1)[OF assms(3)] by simp
qed

lemma greedy_partition_spec:
  assumes k: "0 < k" and eq: "eq \<longrightarrow> k dvd length L"
  shows "\<exists>ps. greedy_partition L k eq = Inr ps \<and> is_partition L k ps \<and>
    (\<not> eq \<longrightarrow> balanced L ps) \<and> (eq \<longrightarrow> (\<forall>p \<in> set ps. length p * k = length L))"
proof -
  define bias where "bias = (if eq then sum_list L + 1 else 0)"
  have "map (\<lambda>(i, seqlen). (seqlen + bias, i)) (enumerate_list L) = map (\<lambda>i. (L ! i + bias, i)) [0..<length L]"
    by (simp add: enumerate_list_def enumerate_eq_zip map_nth[symmetric]) (intro nth_equalityI; simp)
  moreover obtain parts totals where st: "foldE (greedy_add k) (map (\<lambda>i. (L ! i + bias, i)) [0..<length L])
      (replicate k [], replicate k 0) = Inr (parts, totals)"
    "greedy_ok L k bias (length L) (parts, totals)" "eq \<longrightarrow> even_parts k parts"
    using greedy_run[OF k order_refl, of eq bias L] by (auto simp: bias_def)
  moreover have size: "length p * k = length L" if eq "p \<in> set parts" for p
  proof -
    have l: "length parts = k" "mset (concat parts) = mset [0..<length L]"
      using st(2) by (auto simp: greedy_ok_def)
    then have n: "sum_list (map length parts) = length L"
      by (metis length_concat size_mset length_upt minus_nat.diff_0)
    have "length p * length (map length parts) = sum_list (map length parts)"
    proof (rule sum_list_even)
      show "\<forall>x \<in> set (map length parts). \<forall>y \<in> set (map length parts). x \<le> y + 1"
        using st(3) \<open>eq\<close> l(1) unfolding even_parts_def by (auto simp: in_set_conv_nth)
    qed (use n l eq \<open>eq\<close> that(2) in auto)
    then show ?thesis using n l by simp
  qed
  ultimately have "greedy_partition L k eq = Inr parts"
    by (simp add: greedy_partition_def Let_def bias_def assertE_def)
  moreover have "is_partition L k parts" using st(2) by (simp add: greedy_ok_def is_partition_def)
  moreover have "balanced L parts" if "\<not> eq"
    using st(2) that unfolding greedy_ok_def balanced_def bias_def by (auto simp: in_set_conv_nth)
  ultimately show ?thesis using size by blast
qed

section \<open>The checked partition and its inverse\<close>

definition check_and_sort_partitions :: "nat list \<Rightarrow> nat \<Rightarrow> nat list list \<Rightarrow> nat list list result" where
  "check_and_sort_partitions seqlen_list k partitions =
     bindE (assertE (length partitions = k)) (\<lambda>_.
     bindE (foldE (\<lambda>(i, partition) (seen, sorted).
              bindE (assertE (partition \<noteq> [])) (\<lambda>_.
                Inr (set_update seen partition, sorted[i := sort partition])))
            (enumerate_list partitions) ([], replicate k [])) (\<lambda>(seen, sorted).
     bindE (assertE (set seen = set [0..<length seqlen_list])) (\<lambda>_.
       Inr sorted)))"

definition get_seqlen_balanced_partitions :: "nat list \<Rightarrow> nat \<Rightarrow> bool \<Rightarrow> nat list list result" where
  "get_seqlen_balanced_partitions seqlen_list k equal_size =
     bindE (assertE (length seqlen_list \<ge> k)) (\<lambda>_.
     bindE (karmarkar_karp seqlen_list k equal_size) (check_and_sort_partitions seqlen_list k))"

definition get_reverse_idx :: "nat list \<Rightarrow> nat list result" where
  "get_reverse_idx idx_map =
     foldE (\<lambda>(i, idx) r. if idx < length r then Inr (r[idx := i]) else Inl IndexError) (enumerate_list idx_map) idx_map"

lemma check_fold:
  assumes "[] \<notin> set ps"
  shows "\<exists>seen'. foldE (\<lambda>(i, partition) (seen, sorted).
              bindE (assertE (partition \<noteq> [])) (\<lambda>_.
                Inr (set_update seen partition, sorted[i := sort partition])))
            (List.enumerate (length pre) ps) (seen, pre @ replicate (length ps) []) = Inr (seen', pre @ map sort ps) \<and>
     set seen' = set seen \<union> \<Union> (set (map set ps))"
  using assms
proof (induction ps arbitrary: pre seen)
  case (Cons p ps)
  have "p \<noteq> []" using Cons.prems by auto
  then show ?case
    using Cons.prems Cons.IH[of "pre @ [sort p]" "set_update seen p"]
    by (simp add: list_update_append Un_assoc)
qed simp

lemma check_and_sort_ok:
  assumes "is_partition L k ps" "[] \<notin> set ps"
  shows "check_and_sort_partitions L k ps = Inr (map sort ps)"
proof -
  obtain seen where f: "foldE (\<lambda>(i, partition) (seen, sorted).
              bindE (assertE (partition \<noteq> [])) (\<lambda>_.
                Inr (set_update seen partition, sorted[i := sort partition])))
            (enumerate_list ps) ([], replicate (length ps) []) = Inr (seen, map sort ps)"
    "set seen = \<Union> (set (map set ps))"
    using check_fold[OF assms(2), of "[]" "[]"] by (auto simp: enumerate_list_def)
  have "set seen = set (concat ps)" using f(2) by simp
  also have "\<dots> = set [0..<length L]" using assms(1) by (metis is_partition_def set_mset_mset)
  finally show ?thesis using f(1) assms(1) by (simp add: check_and_sort_partitions_def is_partition_def assertE_def)
qed

lemma sort_parts:
  assumes "is_partition L k ps" "balanced L ps"
  shows "is_partition L k (map sort ps)" "balanced L (map sort ps)"
proof -
  have "mset (concat (map sort ps)) = mset (concat ps)" by (induction ps) auto
  then show "is_partition L k (map sort ps)" using assms(1) by (simp add: is_partition_def)
  have "part_sum L (sort p) = part_sum L p" for p
    by (simp add: part_sum_def sum_mset_sum_list[symmetric])
  then show "balanced L (map sort ps)" using assms(2) by (simp add: balanced_def)
qed

lemma partitions_spec:
  assumes "0 < k" "k \<le> length L" "eq \<longrightarrow> k dvd length L"
  shows "\<exists>ps. get_seqlen_balanced_partitions L k eq = Inr ps \<and> is_partition L k ps \<and> balanced L ps \<and>
    (\<forall>p \<in> set ps. p \<noteq> [] \<and> sorted p \<and> (eq \<longrightarrow> length p * k = length L))"
proof -
  have "L \<noteq> []" using assms by auto
  then obtain ps where ps: "karmarkar_karp L k eq = Inr ps" "is_partition L k ps" "balanced L ps" "[] \<notin> set ps"
    "eq \<longrightarrow> (\<forall>p \<in> set ps. length p * k = length L)"
    using karmarkar_karp_spec[OF assms(1) _ assms(3)] assms(2) by blast
  have r1: "get_seqlen_balanced_partitions L k eq = Inr (map sort ps)"
    using assms(2) ps(1) check_and_sort_ok[OF ps(2,4)] by (simp add: get_seqlen_balanced_partitions_def assertE_def)
  have r2: "\<forall>p \<in> set (map sort ps). p \<noteq> [] \<and> sorted p \<and> (eq \<longrightarrow> length p * k = length L)"
  proof
    fix p assume "p \<in> set (map sort ps)"
    then obtain q where q: "q \<in> set ps" "p = sort q" by auto
    have "set p = set q" unfolding q(2) by (rule set_sort)
    moreover have "q \<noteq> []" using q(1) ps(4) by auto
    ultimately have "p \<noteq> []" by auto
    moreover have "eq \<longrightarrow> length p * k = length L" using ps(5) q(1) unfolding q(2) length_sort by blast
    moreover have "sorted p" unfolding q(2) by (rule sorted_sort)
    ultimately show "p \<noteq> [] \<and> sorted p \<and> (eq \<longrightarrow> length p * k = length L)" by blast
  qed
  show ?thesis by (intro exI[of _ "map sort ps"] conjI r1 r2 sort_parts[OF ps(2,3)])
qed

lemma reverse_fold:
  assumes "distinct (take n xs)" "n \<le> length xs" "\<forall>x \<in> set xs. x < length r"
  shows "\<exists>r'. foldE (\<lambda>(i, idx) r. if idx < length r then Inr (r[idx := i]) else Inl IndexError)
      (take n (enumerate_list xs)) r = Inr r' \<and> length r' = length r \<and> (\<forall>i < n. r' ! (xs ! i) = i)"
  using assms
proof (induction n)
  case (Suc n)
  have "distinct (take n xs)" using Suc.prems(1) by (metis distinct_take take_take min.cobounded1 min_def Suc_n_not_le_n nat_le_linear)
  then obtain r' where r: "foldE (\<lambda>(i, idx) r. if idx < length r then Inr (r[idx := i]) else Inl IndexError)
      (take n (enumerate_list xs)) r = Inr r'" "length r' = length r" "\<forall>i < n. r' ! (xs ! i) = i"
    using Suc by auto
  have tk: "take (Suc n) (enumerate_list xs) = take n (enumerate_list xs) @ [(n, xs ! n)]"
    using Suc.prems(2) by (simp add: take_Suc_conv_app_nth enumerate_list_def nth_enumerate_eq)
  have d: "xs ! n \<noteq> xs ! i" if "i < n" for i
    using Suc.prems(1,2) that nth_eq_iff_index_eq[OF Suc.prems(1), of n i] by simp
  show ?case unfolding tk foldE_append
    using r Suc.prems(2,3) d by (auto simp: nth_list_update less_Suc_eq)
qed simp

text \<open>C11. The partition used to spread samples over ranks and micro-batches never raises when
  there are at least as many samples as parts (and their number is a multiple of the parts when
  parts of equal size are asked for): every index lands in exactly one part, every part is
  nonempty and sorted, equal sizes are kept when asked for, and the total lengths of any two parts
  differ by at most the longest sample.\<close>

theorem partitions_balanced:
  assumes "0 < k" "k \<le> length L" "eq \<longrightarrow> k dvd length L"
  shows "\<exists>ps. get_seqlen_balanced_partitions L k eq = Inr ps \<and>
    length ps = k \<and> mset (concat ps) = mset [0..<length L] \<and>
    (\<forall>p \<in> set ps. p \<noteq> [] \<and> sorted p \<and> (eq \<longrightarrow> length p * k = length L)) \<and>
    (\<forall>p \<in> set ps. \<forall>r \<in> set ps. sum_list (map ((!) L) p) \<le> sum_list (map ((!) L) r) + Max (set L))"
  using partitions_spec[OF assms] unfolding is_partition_def balanced_def part_sum_def by blast

theorem partitions_balanced_witness:
  "\<exists>ps. get_seqlen_balanced_partitions [5, 3, 8, 2, 7, 1] 3 True = Inr ps \<and> length ps = 3 \<and>
    (\<forall>p \<in> set ps. length p * 3 = length [5, 3, 8, 2, 7, 1 :: nat])"
proof -
  have "(3 :: nat) dvd length [5, 3, 8, 2, 7, 1 :: nat]" by (rule dvdI[of _ _ 2]) simp
  then show ?thesis using partitions_balanced[of 3 "[5, 3, 8, 2, 7, 1]" True] by (simp del: One_nat_def) blast
qed

text \<open>The greedy partition never raises with at least one part: it is a partition of the
  indices; without equal sizes the totals of any two parts differ by at most the longest
  sample, and with the bias added to each length all parts get the same number of samples whenever
  that is possible.\<close>

lemma greedy_balanced:
  assumes "0 < k" "eq \<longrightarrow> k dvd length L"
  shows "\<exists>ps. greedy_partition L k eq = Inr ps \<and> length ps = k \<and> mset (concat ps) = mset [0..<length L] \<and>
    (eq \<longrightarrow> (\<forall>p \<in> set ps. length p * k = length L)) \<and>
    (\<not> eq \<longrightarrow> (\<forall>p \<in> set ps. \<forall>r \<in> set ps. sum_list (map ((!) L) p) \<le> sum_list (map ((!) L) r) + Max (set L)))"
  using greedy_partition_spec[OF assms] unfolding is_partition_def balanced_def part_sum_def by blast

text \<open>Reversing a permutation of the indices gives its inverse, so reordered results are put
  back where they came from.\<close>

lemma reverse_idx_inverse:
  assumes "mset idx = mset [0..<length idx]"
  shows "\<exists>r. get_reverse_idx idx = Inr r \<and> length r = length idx \<and>
    (\<forall>i < length idx. r ! (idx ! i) = i \<and> idx ! (r ! i) = i)"
proof -
  have d: "distinct idx" using assms by (metis distinct_upt mset_eq_imp_distinct_iff)
  have s: "set idx = {..<length idx}" using assms by (metis set_mset_mset set_upt atLeast0LessThan)
  obtain r where r: "get_reverse_idx idx = Inr r" "length r = length idx" "\<forall>i < length idx. r ! (idx ! i) = i"
    using reverse_fold[of "length idx" idx idx] d s by (auto simp: get_reverse_idx_def)
  have "idx ! (r ! i) = i" if "i < length idx" for i
  proof -
    have "i \<in> set idx" using s that by simp
    then obtain j where j: "j < length idx" "idx ! j = i" unfolding in_set_conv_nth by blast
    have "r ! (idx ! j) = j" using r(3) j(1) by blast
    then show ?thesis unfolding j(2) using j(2) by simp
  qed
  then show ?thesis using r by blast
qed

end
