(* ===== verification/Tensors.thy ===== *)
theory Tensors
  imports Prelude
begin

text \<open>
  The operations of one-dimensional tensors that the training code uses, on lists of reals
  (rounding is not modelled): elementwise operations with broadcasting of tensors of one element,
  splitting, zeros and slices.  A shape mismatch raises \<open>RuntimeError\<close>.
\<close>

definition broadcast2 :: "('a \<Rightarrow> 'b \<Rightarrow> 'c) \<Rightarrow> 'a list \<Rightarrow> 'b list \<Rightarrow> 'c list result" where
  "broadcast2 f xs ys =
     (if length xs = length ys then Inr (map2 f xs ys)
      else if length xs = 1 then Inr (map (f (hd xs)) ys)
      else if length ys = 1 then Inr (map (\<lambda>x. f x (hd ys)) xs)
      else Inl RuntimeError)"

definition tmul :: "real list \<Rightarrow> real list \<Rightarrow> real list result" where
  "tmul = broadcast2 (*)"

definition tadd :: "real list \<Rightarrow> real list \<Rightarrow> real list result" where
  "tadd = broadcast2 (+)"

definition tsub :: "real list \<Rightarrow> real list \<Rightarrow> real list result" where
  "tsub = broadcast2 (-)"

definition zeros :: "int \<Rightarrow> real list result" where
  "zeros n = (if n < 0 then Inl RuntimeError else Inr (replicate (nat n) 0))"

text \<open>\<open>x.split(sizes)\<close>: the sizes must add up to the length.\<close>

fun pieces :: "nat list \<Rightarrow> 'a list \<Rightarrow> 'a list list" where
  "pieces [] xs = []"
| "pieces (n # ns) xs = take n xs # pieces ns (drop n xs)"

definition split_sizes :: "nat list \<Rightarrow> 'a list \<Rightarrow> 'a list list result" where
  "split_sizes ns xs = (if sum_list ns = length xs then Inr (pieces ns xs) else Inl RuntimeError)"

text \<open>The elementwise sum over a group of ranks.\<close>

definition all_reduce_sum :: "real list list \<Rightarrow> real list" where
  "all_reduce_sum rows = map (\<lambda>i. sum_list (map (\<lambda>row. row ! i) rows)) [0..<length (hd rows)]"

text \<open>\<open>torch.cat\<close> of an empty list raises.\<close>

definition torch_cat :: "'a list list \<Rightarrow> 'a list result" where
  "torch_cat xss = bindE (raise_unless RuntimeError (xss \<noteq> [])) (\<lambda>_. Inr (concat xss))"

lemma broadcast2_same [simp]: "length xs = length ys \<Longrightarrow> broadcast2 f xs ys = Inr (map2 f xs ys)"
  by (simp add: broadcast2_def)

lemma tensor_ops_same [simp]:
  "length xs = length ys \<Longrightarrow> tmul xs ys = Inr (map2 (*) xs ys)"
  "length xs = length ys \<Longrightarrow> tadd xs ys = Inr (map2 (+) xs ys)"
  "length xs = length ys \<Longrightarrow> tsub xs ys = Inr (map2 (-) xs ys)"
  by (simp_all add: tmul_def tadd_def tsub_def)

lemma zeros_nat [simp]: "zeros (int n) = Inr (replicate n 0)"
  by (simp add: zeros_def)

lemma zeros_nonneg: "0 \<le> n \<Longrightarrow> zeros n = Inr (replicate (nat n) 0)"
  by (simp add: zeros_def)

lemma pieces_concat: "pieces (map length xss) (concat xss) = xss"
  by (induction xss) auto

lemma length_pieces [simp]: "length (pieces ns xs) = length ns"
  by (induction ns arbitrary: xs) auto

lemma split_sizes_concat [simp]: "ns = map length xss \<Longrightarrow> split_sizes ns (concat xss) = Inr xss"
  by (simp add: split_sizes_def pieces_concat length_concat)

lemma concat_pieces: "sum_list ns = length xs \<Longrightarrow> concat (pieces ns xs) = xs \<and> map length (pieces ns xs) = ns"
  by (induction ns arbitrary: xs) auto

end
