(* ===== verification/Cp_Utils.thy ===== *)
theory Cp_Utils
  imports Tensors
begin

text \<open>
  \<open>backends/megatron_utils/cp_utils.py\<close>: context parallelism.  A sequence is padded and cut into
  \<open>2 * cp_size\<close> chunks, of which rank \<open>r\<close> holds numbers \<open>r\<close> and \<open>2 * cp_size - 1 - r\<close>.  The rank and the
  size of the group are arguments here (the code asks Megatron for them), and a collective is a
  function of what every rank brings to it.
\<close>

section \<open>Offsets\<close>

type_synonym range = "int \<times> int"

definition chunk_size_of :: "int \<Rightarrow> int \<Rightarrow> int" where
  "chunk_size_of cp_size len = (len + 2 * cp_size - 1) div (2 * cp_size)"

text \<open>The logits of a chunk that predict response tokens, or an empty slice, and the tokens they predict.\<close>

definition logits_range :: "int \<Rightarrow> int \<Rightarrow> range \<Rightarrow> range" where
  "logits_range prompt_length total_length chunk =
     (let l = (max (fst chunk) (prompt_length - 1), min (snd chunk) (total_length - 1)) in
      if fst l < snd l then l else (0, 0))"

definition token_range :: "range \<Rightarrow> range" where
  "token_range l = (if fst l < snd l then (fst l + 1, snd l + 1) else (0, 0))"

definition get_logits_and_tokens_offset_with_cp ::
  "int \<Rightarrow> int \<Rightarrow> int \<Rightarrow> int \<Rightarrow> string \<Rightarrow> int option \<Rightarrow> (int \<times> (range \<times> range) \<times> (range \<times> range) \<times> (range \<times> range)) result"
where
  "get_logits_and_tokens_offset_with_cp cp_size cp_rank total_length response_length qkv_format max_seq_len =
     bindE (assertE (cp_size > 1)) (\<lambda>_.
     let prompt_length = total_length - response_length in
     bindE (if qkv_format = ''thd'' then Inr (chunk_size_of cp_size total_length)
            else case max_seq_len of None \<Rightarrow> Inl AssertionError | Some m \<Rightarrow> Inr (chunk_size_of cp_size m)) (\<lambda>chunk_size.
     let chunk_0 = (cp_rank * chunk_size, (cp_rank + 1) * chunk_size);
         chunk_1 = ((2 * cp_size - cp_rank - 1) * chunk_size, (2 * cp_size - cp_rank) * chunk_size);
         logits_0 = logits_range prompt_length total_length chunk_0;
         logits_1 = logits_range prompt_length total_length chunk_1
     in Inr (chunk_size, (chunk_0, chunk_1), (logits_0, logits_1), (token_range logits_0, token_range logits_1))))"

section \<open>Slices and gathering\<close>

definition slice_log_prob_with_cp ::
  "int \<Rightarrow> int \<Rightarrow> 'a list \<Rightarrow> int \<Rightarrow> int \<Rightarrow> string \<Rightarrow> int option \<Rightarrow> 'a list result" where
  "slice_log_prob_with_cp cp_size cp_rank log_prob total_length response_length qkv_format max_token_len =
     bindE (assertE (int (length log_prob) = response_length)) (\<lambda>_.
     if cp_size = 1 then Inr log_prob
     else let off = total_length - response_length - 1 in
       bindE (get_logits_and_tokens_offset_with_cp cp_size cp_rank total_length response_length qkv_format max_token_len)
         (\<lambda>(_, _, (l0, l1), _).
           Inr (py_slice log_prob (fst l0 - off) (snd l0 - off) @ py_slice log_prob (fst l1 - off) (snd l1 - off))))"

text \<open>What one rank contributes to the gather: its two pieces at their places, zeros elsewhere.\<close>

definition place_chunks :: "real list \<Rightarrow> int \<Rightarrow> int \<Rightarrow> range \<Rightarrow> range \<Rightarrow> real list result" where
  "place_chunks tensor total_length response_length l0 l1 =
     (let prompt_length = total_length - response_length;
          chunk_0 = py_slice tensor 0 (snd l0 - fst l0);
          chunk_1 = py_slice tensor (snd l0 - fst l0) (int (length tensor)) in
      bindE (assertE (int (length chunk_1) = snd l1 - fst l1)) (\<lambda>_.
      bindE
        (if chunk_0 = [] \<and> chunk_1 = [] then zeros response_length
         else if chunk_0 \<noteq> [] \<and> chunk_1 = [] then
           bindE (zeros (fst l0 - (prompt_length - 1))) (\<lambda>left.
           bindE (zeros (total_length - 1 - snd l0)) (\<lambda>right. Inr (left @ chunk_0 @ right)))
         else if chunk_0 = [] \<and> chunk_1 \<noteq> [] then
           bindE (zeros (fst l1 - (prompt_length - 1))) (\<lambda>left.
           bindE (zeros (total_length - 1 - snd l1)) (\<lambda>right. Inr (left @ chunk_1 @ right)))
         else
           bindE (zeros (fst l0 - (prompt_length - 1))) (\<lambda>left.
           bindE (zeros (fst l1 - snd l0)) (\<lambda>mid.
           bindE (zeros (total_length - 1 - snd l1)) (\<lambda>right. Inr (left @ chunk_0 @ mid @ chunk_1 @ right)))))
        (\<lambda>full. bindE (assertE (int (length full) = response_length)) (\<lambda>_. Inr full))))"

text \<open>\<open>tensors r\<close> is the tensor of rank \<open>r\<close>; the result is the same on every rank.\<close>

definition all_gather_with_cp :: "nat \<Rightarrow> nat \<Rightarrow> (nat \<Rightarrow> real list) \<Rightarrow> int \<Rightarrow> int \<Rightarrow> real list result" where
  "all_gather_with_cp cp_size cp_rank tensors total_length response_length =
     (if cp_size = 1 then Inr (tensors cp_rank)
      else bindE (mapE (\<lambda>r.
             bindE (get_logits_and_tokens_offset_with_cp (int cp_size) (int r) total_length response_length ''thd'' None)
               (\<lambda>(_, _, (l0, l1), _). place_chunks (tensors r) total_length response_length l0 l1)) [0..<cp_size])
             (\<lambda>fulls. Inr (all_reduce_sum fulls)))"

definition slice_with_cp :: "int \<Rightarrow> int \<Rightarrow> 'a list \<Rightarrow> 'a \<Rightarrow> string \<Rightarrow> int option \<Rightarrow> 'a list result" where
  "slice_with_cp cp_size cp_rank tokens pad_value qkv_format max_seq_len =
     bindE (if qkv_format = ''bshd'' then assertE (max_seq_len \<noteq> None) else Inr ()) (\<lambda>_.
     let token_len = int (length tokens);
         pad_tokens = (\<lambda>pad. if pad < 0 then take (nat (token_len + pad)) tokens else tokens @ replicate (nat pad) pad_value) in
     if cp_size = 1
     then Inr (if qkv_format = ''bshd'' then pad_tokens (the max_seq_len - token_len) else tokens)
     else
       bindE (if qkv_format = ''thd'' then Inr (chunk_size_of cp_size token_len)
              else case max_seq_len of None \<Rightarrow> Inl TypeError | Some m \<Rightarrow> Inr (chunk_size_of cp_size m)) (\<lambda>chunk_size.
       let padded = pad_tokens (2 * cp_size * chunk_size - token_len) in
       Inr (py_slice padded (chunk_size * cp_rank) (chunk_size * (cp_rank + 1)) @
            py_slice padded (chunk_size * (2 * cp_size - cp_rank - 1)) (chunk_size * (2 * cp_size - cp_rank)))))"

section \<open>The mean over samples\<close>

definition masked_sum :: "real list \<Rightarrow> real list \<Rightarrow> real result" where
  "masked_sum x m = bindE (tmul x m) (\<lambda>p. Inr (sum_list p))"

text \<open>The lengths of a rank's pieces and its slices of the loss masks.\<close>

definition chunked_loss_mask ::
  "int \<Rightarrow> int \<Rightarrow> string \<Rightarrow> int \<times> int \<times> real list \<times> int option \<Rightarrow> real list result" where
  "chunked_loss_mask cp_size cp_rank qkv_format = (\<lambda>(total_length, response_length, loss_mask, max_seq_len).
     let prompt_length = total_length - response_length in
     bindE (get_logits_and_tokens_offset_with_cp cp_size cp_rank total_length response_length qkv_format max_seq_len)
       (\<lambda>(_, _, _, (t0, t1)).
         Inr (py_slice loss_mask (fst t0 - prompt_length) (snd t0 - prompt_length) @
              py_slice loss_mask (fst t1 - prompt_length) (snd t1 - prompt_length))))"

definition sample_mean_term :: "real list \<times> real list \<times> real list \<Rightarrow> real result" where
  "sample_mean_term = (\<lambda>(x, chunked, loss_mask).
     bindE (masked_sum x chunked) (\<lambda>s. Inr (s / max (sum_list loss_mask) 1)))"

definition token_term :: "real list \<times> real list \<times> real list \<Rightarrow> real result" where
  "token_term = (\<lambda>(x, chunked, loss_mask). masked_sum x chunked)"

definition get_sum_of_sample_mean ::
  "int \<Rightarrow> int \<Rightarrow> int list \<Rightarrow> nat list \<Rightarrow> real list list \<Rightarrow> bool \<Rightarrow> string \<Rightarrow> int list option \<Rightarrow> real list \<Rightarrow> real result"
where
  "get_sum_of_sample_mean cp_size cp_rank total_lengths response_lengths loss_masks calculate_per_token_loss qkv_format
     max_seq_lens x =
     (let f = (if calculate_per_token_loss then token_term else sample_mean_term) in
      if cp_size = 1
      then bindE (split_sizes response_lengths x) (\<lambda>xs.
             bindE (mapE f (zip xs (zip loss_masks loss_masks))) (\<lambda>ts. Inr (sum_list ts)))
      else
        bindE (mapE (\<lambda>(i, total_length, response_length, loss_mask).
                 bindE (case max_seq_lens of None \<Rightarrow> Inr None
                        | Some ms \<Rightarrow> bindE (py_nth ms (int i)) (\<lambda>m. Inr (Some m))) (\<lambda>max_seq_len.
                   chunked_loss_mask cp_size cp_rank qkv_format (total_length, int response_length, loss_mask, max_seq_len)))
               (enumerate_list (zip total_lengths (zip response_lengths loss_masks)))) (\<lambda>chunked.
        bindE (split_sizes (map length chunked) x) (\<lambda>xs.
        bindE (mapE f (zip xs (zip chunked loss_masks))) (\<lambda>ts. Inr (sum_list ts)))))"

section \<open>Who owns a position\<close>

definition chunk_range :: "int \<Rightarrow> int \<Rightarrow> range" where
  "chunk_range c k = (k * c, (k + 1) * c)"

lemma chunk_size_bounds:
  assumes "0 < cp" "0 < n"
  shows "0 < chunk_size_of cp n" "n \<le> 2 * cp * chunk_size_of cp n"
proof -
  let ?k = "2 * cp" and ?c = "chunk_size_of cp n"
  have eq: "?k * ?c + (n + ?k - 1) mod ?k = n + ?k - 1" by (simp add: chunk_size_of_def)
  have "(n + ?k - 1) mod ?k < ?k" using assms(1) by simp
  then have "n - 1 < ?k * ?c" using eq by linarith
  then show "n \<le> ?k * ?c" by simp
  have "0 < ?k * ?c" using \<open>n - 1 < ?k * ?c\<close> assms(2) by linarith
  then show "0 < ?c" using assms(1) by (simp add: zero_less_mult_iff)
qed

lemma mem_chunk: "0 < c \<Longrightarrow> k * c \<le> p \<and> p < (k + 1) * c \<longleftrightarrow> p div c = k" for p :: int
proof -
  assume c: "0 < c"
  have "p = c * (p div c) + p mod c" "0 \<le> p mod c" "p mod c < c" using c by simp_all
  then show ?thesis
  proof (intro iffI conjI)
    assume "k * c \<le> p \<and> p < (k + 1) * c"
    then show "p div c = k" using c by (intro int_div_pos_eq[of _ _ _ "p - k * c"]) (auto simp: algebra_simps)
  qed (auto simp: algebra_simps)
qed

lemma mem_logits_range:
  assumes "0 < c"
  shows "fst (logits_range P T (chunk_range c k)) \<le> p \<and> p < snd (logits_range P T (chunk_range c k)) \<longleftrightarrow>
    P - 1 \<le> p \<and> p < T - 1 \<and> p div c = k"
  using mem_chunk[OF assms, of k p] by (auto simp: logits_range_def chunk_range_def Let_def)

definition range_in :: "int \<Rightarrow> int \<Rightarrow> range \<Rightarrow> bool" where
  "range_in P T l \<longleftrightarrow> l = (0, 0) \<or> (P - 1 \<le> fst l \<and> fst l < snd l \<and> snd l \<le> T - 1)"

lemma range_in_logits: "range_in P T (logits_range P T chunk)"
  by (auto simp: range_in_def logits_range_def Let_def)

lemma ranges_ordered:
  assumes "0 < c" "j < k" "fst (logits_range P T (chunk_range c k)) < snd (logits_range P T (chunk_range c k))"
  shows "snd (logits_range P T (chunk_range c j)) \<le> fst (logits_range P T (chunk_range c k)) \<or>
    logits_range P T (chunk_range c j) = (0, 0)"
proof -
  have "(j + 1) * c \<le> k * c" using assms(1,2) by (intro mult_right_mono) auto
  then show ?thesis using assms(3) by (auto simp: logits_range_def chunk_range_def Let_def split: if_splits)
qed

text \<open>The pieces of a response that a range selects, at natural positions.\<close>

lemma range_nat:
  assumes "range_in P T l" "1 \<le> P" "P + int R = T"
  shows "\<exists>a b. a \<le> b \<and> b \<le> R \<and> (fst l < snd l \<longleftrightarrow> a < b) \<and> snd l - fst l = int (b - a) \<and>
    (a < b \<longrightarrow> fst l = int a + (P - 1) \<and> snd l = int b + (P - 1)) \<and>
    py_slice xs (fst l - (P - 1)) (snd l - (P - 1)) = take (b - a) (drop a (xs :: 'a list)) \<and>
    (\<forall>i < R. (fst l \<le> int i + (P - 1) \<and> int i + (P - 1) < snd l) = (a \<le> i \<and> i < b))"
proof (cases "l = (0, 0)")
  case True
  then show ?thesis using assms by (intro exI[of _ 0]) (simp add: py_slice_def)
next
  case False
  then have l: "P - 1 \<le> fst l" "fst l < snd l" "snd l \<le> T - 1" using assms(1) by (auto simp: range_in_def)
  let ?a = "nat (fst l - (P - 1))" and ?b = "nat (snd l - (P - 1))"
  have e: "fst l = int ?a + (P - 1)" "snd l = int ?b + (P - 1)" using l by auto
  have "?a < ?b" "?b \<le> R" using l assms(3) by auto
  moreover have "py_slice xs (fst l - (P - 1)) (snd l - (P - 1)) = take (?b - ?a) (drop ?a xs)"
    using l by (simp add: py_slice_nat)
  ultimately show ?thesis using e l by (intro exI[of _ ?a] exI[of _ ?b]) auto
qed

lemma place_slice:
  assumes P: "1 \<le> P" "P + int (length xs) = T" and r: "range_in P T l0" "range_in P T l1"
    and o: "fst l1 < snd l1 \<Longrightarrow> snd l0 \<le> fst l1 \<or> l0 = (0, 0)"
  shows "place_chunks (py_slice xs (fst l0 - (P - 1)) (snd l0 - (P - 1)) @ py_slice xs (fst l1 - (P - 1)) (snd l1 - (P - 1)))
      T (int (length xs)) l0 l1 =
    Inr (map (\<lambda>i. if (fst l0 \<le> int i + (P - 1) \<and> int i + (P - 1) < snd l0) \<or> (fst l1 \<le> int i + (P - 1) \<and> int i + (P - 1) < snd l1)
                  then xs ! i else 0) [0..<length xs])"
proof -
  let ?R = "length xs"
  have T: "T - int ?R = P" using P by simp
  obtain a b where l0: "a \<le> b" "b \<le> ?R" "snd l0 - fst l0 = int (b - a)"
    "a < b \<longrightarrow> fst l0 = int a + (P - 1) \<and> snd l0 = int b + (P - 1)"
    "py_slice xs (fst l0 - (P - 1)) (snd l0 - (P - 1)) = take (b - a) (drop a xs)"
    "\<forall>i < ?R. (fst l0 \<le> int i + (P - 1) \<and> int i + (P - 1) < snd l0) = (a \<le> i \<and> i < b)"
    using range_nat[OF r(1) P] by blast
  obtain a' b' where l1: "a' \<le> b'" "b' \<le> ?R" "snd l1 - fst l1 = int (b' - a')" "fst l1 < snd l1 \<longleftrightarrow> a' < b'"
    "a' < b' \<longrightarrow> fst l1 = int a' + (P - 1) \<and> snd l1 = int b' + (P - 1)"
    "py_slice xs (fst l1 - (P - 1)) (snd l1 - (P - 1)) = take (b' - a') (drop a' xs)"
    "\<forall>i < ?R. (fst l1 \<le> int i + (P - 1) \<and> int i + (P - 1) < snd l1) = (a' \<le> i \<and> i < b')"
    using range_nat[OF r(2) P] by blast
  have ord: "b \<le> a'" if "a < b" "a' < b'" using o l0(4) l1(4,5) that by auto
  let ?t = "take (b - a) (drop a xs) @ take (b' - a') (drop a' xs)"
  have c0: "py_slice ?t 0 (int (b - a)) = take (b - a) (drop a xs)"
    "py_slice ?t (int (b - a)) (int (length ?t)) = take (b' - a') (drop a' xs)"
    using l0(1,2) l1(1,2) by (simp_all add: py_slice_def clip_index_def)
  have e0: "take (b - a) (drop a xs) = [] \<longleftrightarrow> \<not> a < b" "take (b' - a') (drop a' xs) = [] \<longleftrightarrow> \<not> a' < b'"
    using l0(1,2) l1(1,2) by auto
  let ?f = "map (\<lambda>i. if (a \<le> i \<and> i < b) \<or> (a' \<le> i \<and> i < b') then xs ! i else 0) [0..<?R]"
  have z0: "zeros (fst l0 - (P - 1)) = Inr (replicate a 0)" "zeros (T - 1 - snd l0) = Inr (replicate (?R - b) 0)" if "a < b"
  proof -
    have "fst l0 - (P - 1) = int a" "T - 1 - snd l0 = int (?R - b)" using l0(2,4) that P by auto
    then show "zeros (fst l0 - (P - 1)) = Inr (replicate a 0)" "zeros (T - 1 - snd l0) = Inr (replicate (?R - b) 0)"
      by (simp_all only: zeros_nat)
  qed
  have z1: "zeros (fst l1 - (P - 1)) = Inr (replicate a' 0)" "zeros (T - 1 - snd l1) = Inr (replicate (?R - b') 0)" if "a' < b'"
  proof -
    have "fst l1 - (P - 1) = int a'" "T - 1 - snd l1 = int (?R - b')" using l1(2,5) that P by auto
    then show "zeros (fst l1 - (P - 1)) = Inr (replicate a' 0)" "zeros (T - 1 - snd l1) = Inr (replicate (?R - b') 0)"
      by (simp_all only: zeros_nat)
  qed
  have zm: "zeros (fst l1 - snd l0) = Inr (replicate (a' - b) 0)" if "a < b" "a' < b'"
  proof -
    have "fst l1 - snd l0 = int (a' - b)" using l0(4) l1(5) ord that by auto
    then show ?thesis by (simp only: zeros_nat)
  qed
  have res: "place_chunks ?t T (int ?R) l0 l1 = Inr ?f"
  proof -
    consider "\<not> a < b" "\<not> a' < b'" | "a < b" "\<not> a' < b'" | "\<not> a < b" "a' < b'" | "a < b" "a' < b'" by blast
    then show ?thesis
    proof cases
      case 1
      have "replicate ?R 0 = ?f" using 1 by (intro nth_equalityI) auto
      then show ?thesis using 1 l1(3) l0(3) c0 e0 unfolding place_chunks_def Let_def T by simp
    next
      case 2
      have "replicate a 0 @ take (b - a) (drop a xs) @ replicate (?R - b) 0 = ?f"
        using 2 l0(1,2) by (intro nth_equalityI) (auto simp: nth_append)
      then show ?thesis using 2 l0 l1(3) c0 e0 P z0 unfolding place_chunks_def Let_def T
        by (simp del: of_nat_diff)
    next
      case 3
      have "replicate a' 0 @ take (b' - a') (drop a' xs) @ replicate (?R - b') 0 = ?f"
        using 3 l1(1,2) by (intro nth_equalityI) (auto simp: nth_append)
      then show ?thesis using 3 l1 l0(3) c0 e0 P z1 unfolding place_chunks_def Let_def T
        by (simp del: of_nat_diff)
    next
      case 4
      have "replicate a 0 @ take (b - a) (drop a xs) @ replicate (a' - b) 0 @ take (b' - a') (drop a' xs) @ replicate (?R - b') 0 = ?f"
        using 4 l0(1,2) l1(1,2) ord by (intro nth_equalityI) (auto simp: nth_append)
      then show ?thesis using 4 l0 l1 ord c0 e0 P z0 z1 zm unfolding place_chunks_def Let_def T
        by (simp del: of_nat_diff)
    qed
  qed
  have "?f = map (\<lambda>i. if (fst l0 \<le> int i + (P - 1) \<and> int i + (P - 1) < snd l0) \<or> (fst l1 \<le> int i + (P - 1) \<and> int i + (P - 1) < snd l1)
                  then xs ! i else 0) [0..<?R]"
    using l0(6) l1(7) by (intro map_cong) auto
  then show ?thesis unfolding l0(5) l1(6) using res by simp
qed

section \<open>Gathering undoes slicing\<close>

definition rank_range :: "nat \<Rightarrow> nat \<Rightarrow> int \<Rightarrow> int \<Rightarrow> int \<Rightarrow> range" where
  "rank_range cp r P T k = logits_range P T (chunk_range (chunk_size_of (int cp) T) k)"

abbreviation first_range :: "nat \<Rightarrow> nat \<Rightarrow> int \<Rightarrow> int \<Rightarrow> range" where
  "first_range cp r P T \<equiv> rank_range cp r P T (int r)"

abbreviation second_range :: "nat \<Rightarrow> nat \<Rightarrow> int \<Rightarrow> int \<Rightarrow> range" where
  "second_range cp r P T \<equiv> rank_range cp r P T (2 * int cp - int r - 1)"

definition piece :: "nat \<Rightarrow> nat \<Rightarrow> int \<Rightarrow> 'a list \<Rightarrow> 'a list" where
  "piece cp r P xs =
     (if cp = 1 then xs
      else let T = P + int (length xs) in
        py_slice xs (fst (first_range cp r P T) - (P - 1)) (snd (first_range cp r P T) - (P - 1)) @
        py_slice xs (fst (second_range cp r P T) - (P - 1)) (snd (second_range cp r P T) - (P - 1)))"

lemma offsets_eq:
  assumes "1 < cp"
  shows "get_logits_and_tokens_offset_with_cp (int cp) (int r) (P + int R) (int R) ''thd'' m =
    (let c = chunk_size_of (int cp) (P + int R); l0 = first_range cp r P (P + int R); l1 = second_range cp r P (P + int R) in
     Inr (c, (chunk_range c (int r), chunk_range c (2 * int cp - int r - 1)), (l0, l1), (token_range l0, token_range l1)))"
proof -
  have "2 * int cp - int r = 2 * int cp - int r - 1 + 1" by simp
  then show ?thesis using assms
    by (simp add: get_logits_and_tokens_offset_with_cp_def rank_range_def chunk_range_def Let_def assertE_def)
qed

lemma slice_log_prob_piece:
  assumes "0 < cp"
  shows "slice_log_prob_with_cp (int cp) (int r) xs (P + int (length xs)) (int (length xs)) ''thd'' m = Inr (piece cp r P xs)"
  using assms offsets_eq[of cp r P "length xs" m]
  by (simp add: slice_log_prob_with_cp_def piece_def Let_def assertE_def algebra_simps)

definition owns :: "nat \<Rightarrow> int \<Rightarrow> int \<Rightarrow> nat \<Rightarrow> nat \<Rightarrow> bool" where
  "owns cp P T r i \<longleftrightarrow> (let q = (int i + (P - 1)) div chunk_size_of (int cp) T in q = int r \<or> q = 2 * int cp - int r - 1)"

lemma owner_unique:
  assumes "0 < cp" "1 \<le> P" "P + int R = T" "i < R"
  shows "\<exists>!r. r < cp \<and> owns cp P T r i"
proof -
  let ?c = "chunk_size_of (int cp) T" and ?q = "(int i + (P - 1)) div chunk_size_of (int cp) T"
  have c: "0 < ?c" "T \<le> 2 * int cp * ?c" using chunk_size_bounds[of "int cp" T] assms by auto
  have q: "0 \<le> ?q" using c assms by (simp add: pos_imp_zdiv_nonneg_iff)
  have "int i + (P - 1) < 2 * int cp * ?c" using c(2) assms by linarith
  moreover have "?q * ?c \<le> int i + (P - 1)" using mem_chunk[OF c(1), of ?q "int i + (P - 1)"] by simp
  ultimately have "?q * ?c < 2 * int cp * ?c" by linarith
  then have "?q < 2 * int cp" using c(1) by (simp add: mult_less_cancel_right)
  then show ?thesis using q unfolding owns_def Let_def
    by (intro ex1I[of _ "if ?q < int cp then nat ?q else nat (2 * int cp - 1 - ?q)"]) (auto split: if_splits)
qed

lemma place_piece:
  assumes cp: "1 < cp" and r: "r < cp" and P: "1 \<le> P" "P + int (length xs) = T"
  shows "place_chunks (piece cp r P xs) T (int (length xs)) (first_range cp r P T) (second_range cp r P T) =
    Inr (map (\<lambda>i. if owns cp P T r i then xs ! i else 0) [0..<length xs])"
proof (cases "xs = []")
  case True
  have "py_slice xs i j = []" for i j using True by (simp add: py_slice_def)
  have e: "first_range cp r P T = (0, 0)" "second_range cp r P T = (0, 0)"
    using True P by (auto simp: rank_range_def logits_range_def Let_def)
  show ?thesis using True P e cp by (simp add: place_chunks_def piece_def py_slice_def zeros_def Let_def)
next
  case False
  let ?c = "chunk_size_of (int cp) T"
  have c: "0 < ?c" using chunk_size_bounds(1)[of "int cp" T] cp P by simp
  let ?l0 = "first_range cp r P T" and ?l1 = "second_range cp r P T"
  have T: "P + int (length xs) = T" by (rule P(2))
  have ord: "snd ?l0 \<le> fst ?l1 \<or> ?l0 = (0, 0)" if "fst ?l1 < snd ?l1"
    using ranges_ordered[OF c, of "int r" "2 * int cp - int r - 1" P T] r that unfolding rank_range_def by simp
  have own: "(fst ?l0 \<le> int i + (P - 1) \<and> int i + (P - 1) < snd ?l0 \<or> fst ?l1 \<le> int i + (P - 1) \<and> int i + (P - 1) < snd ?l1) =
    owns cp P T r i" if "i < length xs" for i
    using that P unfolding rank_range_def mem_logits_range[OF c] owns_def Let_def by auto
  have "place_chunks (piece cp r P xs) T (int (length xs)) ?l0 ?l1 =
    Inr (map (\<lambda>i. if (fst ?l0 \<le> int i + (P - 1) \<and> int i + (P - 1) < snd ?l0) \<or> (fst ?l1 \<le> int i + (P - 1) \<and> int i + (P - 1) < snd ?l1)
                  then xs ! i else 0) [0..<length xs])"
    using place_slice[OF P, of ?l0 ?l1] ord cp unfolding piece_def Let_def T
    by (simp add: rank_range_def range_in_logits)
  also have "\<dots> = Inr (map (\<lambda>i. if owns cp P T r i then xs ! i else 0) [0..<length xs])"
    using own by (intro arg_cong[of _ _ Inr] map_cong) auto
  finally show ?thesis .
qed

lemma sum_owner:
  assumes "\<exists>!r. r < n \<and> Q r"
  shows "sum_list (map (\<lambda>r. if Q r then x else 0) [0..<n]) = (x :: real)"
proof -
  obtain r where r: "r < n" "Q r" "\<And>s. s < n \<Longrightarrow> Q s \<Longrightarrow> s = r" using assms by blast
  have "sum_list (map (\<lambda>s. if Q s then x else 0) [0..<n]) = (\<Sum>s < n. if Q s then x else 0)"
    by (simp add: interv_sum_list_conv_sum_set_nat atLeast0LessThan)
  also have "\<dots> = (\<Sum>s < n. if s = r then x else 0)" 
  proof (intro sum.cong refl)
    fix s assume "s \<in> {..<n}"
    then have "Q s \<longleftrightarrow> s = r" using r(2,3) by blast
    then show "(if Q s then x else 0) = (if s = r then x else 0)" by simp
  qed
  also have "\<dots> = x" using r(1) by simp
  finally show ?thesis .
qed

lemma gather_pieces:
  assumes "0 < cp" "rank < cp" "1 \<le> P"
  shows "all_gather_with_cp cp rank (\<lambda>r. piece cp r P xs) (P + int (length xs)) (int (length xs)) = Inr xs"
proof (cases "cp = 1")
  case True
  then show ?thesis by (simp add: all_gather_with_cp_def piece_def)
next
  case False
  let ?T = "P + int (length xs)" and ?R = "length xs"
  let ?row = "\<lambda>r. map (\<lambda>i. if owns cp P ?T r i then xs ! i else 0) [0..<?R]"
  have cp: "1 < cp" using False assms(1) by simp
  have "mapE (\<lambda>r. bindE (get_logits_and_tokens_offset_with_cp (int cp) (int r) ?T (int ?R) ''thd'' None)
               (\<lambda>(_, _, (l0, l1), _). place_chunks (piece cp r P xs) ?T (int ?R) l0 l1)) [0..<cp] = Inr (map ?row [0..<cp])"
    by (intro mapE_Inr) (use cp assms(3) in \<open>simp add: offsets_eq Let_def place_piece\<close>)
  moreover have "all_reduce_sum (map ?row [0..<cp]) = xs"
  proof (intro nth_equalityI)
    have h: "hd (map ?row [0..<cp]) = ?row 0" using cp by (simp add: hd_map)
    show l: "length (all_reduce_sum (map ?row [0..<cp])) = length xs" unfolding all_reduce_sum_def h by simp
    fix i assume "i < length (all_reduce_sum (map ?row [0..<cp]))"
    then have i: "i < ?R" using l by simp
    have "all_reduce_sum (map ?row [0..<cp]) ! i = sum_list (map (\<lambda>r. if owns cp P ?T r i then xs ! i else 0) [0..<cp])"
      unfolding all_reduce_sum_def h using i by (simp add: comp_def cong: if_cong)
    also have "\<dots> = xs ! i" using owner_unique[OF assms(1,3) refl i] by (rule sum_owner)
    finally show "all_reduce_sum (map ?row [0..<cp]) ! i = xs ! i" .
  qed
  ultimately show ?thesis using False by (simp add: all_gather_with_cp_def)
qed

section \<open>Sums over the group\<close>

lemma sum_place:
  assumes "place_chunks t T R l0 l1 = Inr full" "fst l0 \<le> snd l0"
  shows "sum_list full = sum_list t"
proof -
  have "t = py_slice t 0 (snd l0 - fst l0) @ py_slice t (snd l0 - fst l0) (int (length t))"
    using assms(2) by (simp add: py_slice_def clip_index_def)
  then have "sum_list t = sum_list (py_slice t 0 (snd l0 - fst l0)) + sum_list (py_slice t (snd l0 - fst l0) (int (length t)))"
    by (metis sum_list_append)
  then show ?thesis using assms(1)
    by (auto simp: place_chunks_def Let_def bindE_eq_Inr zeros_def sum_list_replicate split: if_splits)
qed

lemma sum_pieces:
  fixes xs :: "real list"
  assumes "0 < cp" "1 \<le> P"
  shows "sum_list (map (\<lambda>r. sum_list (piece cp r P xs)) [0..<cp]) = sum_list xs"
proof (cases "cp = 1")
  case True
  then show ?thesis by (simp add: piece_def)
next
  case False
  let ?T = "P + int (length xs)"
  let ?v = "\<lambda>r i. if owns cp P ?T r i then xs ! i else 0"
  have row: "sum_list (piece cp r P xs) = (\<Sum>i < length xs. ?v r i)" if "r < cp" for r
  proof -
    have "fst (first_range cp r P ?T) \<le> snd (first_range cp r P ?T)"
      using range_in_logits[of P ?T "chunk_range (chunk_size_of (int cp) ?T) (int r)"]
      unfolding rank_range_def range_in_def by (elim disjE) simp_all
    from sum_place[OF place_piece this] have "sum_list (piece cp r P xs) = sum_list (map (?v r) [0..<length xs])"
      using False assms that by simp
    then show ?thesis by (simp add: interv_sum_list_conv_sum_set_nat atLeast0LessThan)
  qed
  have "sum_list (map (\<lambda>r. sum_list (piece cp r P xs)) [0..<cp]) = (\<Sum>r < cp. sum_list (piece cp r P xs))"
    by (simp add: interv_sum_list_conv_sum_set_nat atLeast0LessThan)
  also have "\<dots> = (\<Sum>r < cp. \<Sum>i < length xs. ?v r i)" using row by (intro sum.cong) auto
  also have "\<dots> = (\<Sum>i < length xs. \<Sum>r < cp. ?v r i)" by (rule sum.swap)
  also have "\<dots> = (\<Sum>i < length xs. xs ! i)"
  proof (intro sum.cong refl)
    fix i assume "i \<in> {..<length xs}"
    then have "\<exists>!r. r < cp \<and> owns cp P ?T r i" using owner_unique[OF assms refl, of i "length xs"] by simp
    from sum_owner[OF this, of "xs ! i"] show "(\<Sum>r < cp. ?v r i) = xs ! i"
      by (simp add: interv_sum_list_conv_sum_set_nat atLeast0LessThan)
  qed
  also have "\<dots> = sum_list xs" by (simp add: sum_list_sum_nth atLeast0LessThan)
  finally show ?thesis .
qed

lemma py_slice_map2:
  "length xs = length ys \<Longrightarrow> py_slice (map2 f xs ys) i j = map2 f (py_slice xs i j) (py_slice ys i j)"
  by (simp add: py_slice_def Let_def take_map drop_map take_zip drop_zip)

lemma length_py_slice_cong: "length xs = length ys \<Longrightarrow> length (py_slice xs i j) = length (py_slice ys i j)"
  by (simp add: py_slice_def Let_def)

lemma piece_map2:
  assumes "length xs = length ys"
  shows "piece cp r P (map2 f xs ys) = map2 f (piece cp r P xs) (piece cp r P ys)" "length (piece cp r P xs) = length (piece cp r P ys)"
proof -
  have l: "length (py_slice xs i j) = length (py_slice ys i j)" for i j by (rule length_py_slice_cong[OF assms])
  show "piece cp r P (map2 f xs ys) = map2 f (piece cp r P xs) (piece cp r P ys)" "length (piece cp r P xs) = length (piece cp r P ys)"
    using assms by (simp_all add: piece_def Let_def py_slice_map2 l)
qed

lemma token_slice:
  "py_slice xs (fst (token_range l) - P) (snd (token_range l) - P) = py_slice xs (fst l - (P - 1)) (snd l - (P - 1))"
  if "l = (0, 0) \<or> fst l < snd l"
  using that by (auto simp: token_range_def py_slice_def Let_def algebra_simps)

lemma chunked_loss_mask_piece:
  assumes "1 < cp"
  shows "chunked_loss_mask (int cp) (int r) ''thd'' (P + int (length m), int (length m), m, x) = Inr (piece cp r P m)"
proof -
  have "l = (0, 0) \<or> fst l < snd l" if "l = rank_range cp r P (P + int (length m)) k" for l k
    using range_in_logits[of P "P + int (length m)" "chunk_range (chunk_size_of (int cp) (P + int (length m))) k"]
    unfolding that rank_range_def range_in_def by blast
  then show ?thesis using assms
    by (simp add: chunked_loss_mask_def Let_def offsets_eq token_slice piece_def)
qed

text \<open>The part of a batch that rank \<open>r\<close> holds, and what it reports.\<close>

type_synonym cp_sample = "int \<times> real list \<times> real list"

definition local_mean :: "nat \<Rightarrow> nat \<Rightarrow> bool \<Rightarrow> cp_sample list \<Rightarrow> real result" where
  "local_mean cp r per_token ss =
     bindE (mapE (\<lambda>(P, x, m). slice_log_prob_with_cp (int cp) (int r) x (P + int (length x)) (int (length x)) ''thd'' None) ss) (\<lambda>xs.
       get_sum_of_sample_mean (int cp) (int r) (map (\<lambda>(P, x, m). P + int (length x)) ss) (map (\<lambda>(P, x, m). length x) ss)
         (map (\<lambda>(P, x, m). m) ss) per_token ''thd'' None (concat xs))"

definition mean_term :: "bool \<Rightarrow> real list \<Rightarrow> real list \<Rightarrow> real list \<Rightarrow> real" where
  "mean_term per_token x m full = sum_list (map2 (*) x m) / (if per_token then 1 else max (sum_list full) 1)"

lemma enumerate_mapE: "mapE (\<lambda>(i, x). f x) (List.enumerate n xs) = mapE f xs"
  by (induction xs arbitrary: n) auto

lemma local_mean_eq:
  assumes cp: "0 < cp" and ss: "\<forall>(P, x, m) \<in> set ss. length x = length m"
  shows "local_mean cp r per_token ss =
    Inr (sum_list (map (\<lambda>(P, x, m). mean_term per_token (piece cp r P x) (piece cp r P m) m) ss))"
proof -
  let ?xs = "map (\<lambda>(P, x, m). piece cp r P x) ss" and ?ms = "map (\<lambda>(P, x, m). piece cp r P m) ss"
  let ?full = "map (\<lambda>(P, x, m). m) ss" and ?f = "if per_token then token_term else sample_mean_term"
  have sl: "mapE (\<lambda>(P, x, m). slice_log_prob_with_cp (int cp) (int r) x (P + int (length x)) (int (length x)) ''thd'' None) ss = Inr ?xs"
    by (intro mapE_Inr) (auto simp: slice_log_prob_piece[OF cp])
  have tm: "mapE ?f (zip ?xs (zip ?ms ?full)) =
    Inr (map (\<lambda>(P, x, m). mean_term per_token (piece cp r P x) (piece cp r P m) m) ss)"
    using ss
  proof (induction ss)
    case (Cons a ss)
    obtain P x m where a: "a = (P, x, m)" by (cases a)
    have "length (piece cp r P x) = length (piece cp r P m)" using Cons.prems a piece_map2(2) by auto
    then show ?case using Cons a
      by (simp add: token_term_def sample_mean_term_def masked_sum_def mean_term_def)
  qed simp
  have len: "map length ?xs = map length ?ms" using ss by (auto intro!: piece_map2(2))
  show ?thesis
  proof (cases "cp = 1")
    case True
    have e: "map (\<lambda>(P, x, m). length x) ss = map length ?xs" "?ms = ?full" using True by (auto simp: piece_def)
    have sp: "split_sizes (map (\<lambda>(P, x, m). length x) ss) (concat ?xs) = Inr ?xs" by (rule split_sizes_concat[OF e(1)])
    have tm': "mapE ?f (zip ?xs (zip ?full ?full)) =
      Inr (map (\<lambda>(P, x, m). mean_term per_token (piece cp r P x) (piece cp r P m) m) ss)"
      using tm unfolding e(2) .
    show ?thesis using True unfolding local_mean_def sl get_sum_of_sample_mean_def Let_def bindE_simps sp tm' by simp
  next
    case False
    have z: "zip (map (\<lambda>(P, x, m). P + int (length x)) ss) (zip (map (\<lambda>(P, x, m). length x) ss) ?full) =
      map (\<lambda>(P, x, m). (P + int (length x), length x, m)) ss" by (induction ss) auto
    have ch: "mapE (\<lambda>(T, R, m). chunked_loss_mask (int cp) (int r) ''thd'' (T, int R, m, None))
      (map (\<lambda>(P, x, m). (P + int (length x), length x, m)) ss) = Inr ?ms"
      using ss
    proof (induction ss)
      case (Cons a ss)
      then show ?case using False cp chunked_loss_mask_piece[of cp r "fst a" "snd (snd a)" None]
        by (cases a) simp
    qed simp
    have ch': "mapE (\<lambda>(i, total_length, response_length, loss_mask).
                 bindE (case None of None \<Rightarrow> Inr None
                        | Some ms \<Rightarrow> bindE (py_nth ms (int i)) (\<lambda>m. Inr (Some m))) (\<lambda>max_seq_len.
                   chunked_loss_mask (int cp) (int r) ''thd'' (total_length, int response_length, loss_mask, max_seq_len)))
         (enumerate_list (map (\<lambda>(P, x, m). (P + int (length x), length x, m)) ss)) = Inr ?ms"
      using ch enumerate_mapE[of "\<lambda>(T, R, m). chunked_loss_mask (int cp) (int r) ''thd'' (T, int R, m, None)" 0]
      by (simp add: enumerate_list_def)
    have "split_sizes (map length ?ms) (concat ?xs) = Inr ?xs" by (rule split_sizes_concat[OF len[symmetric]])
    then show ?thesis using False tm unfolding local_mean_def sl get_sum_of_sample_mean_def Let_def z bindE_simps ch'
      by simp
  qed
qed

lemma mean_term_pieces:
  assumes "0 < cp" "1 \<le> P" "length x = length m"
  shows "sum_list (map (\<lambda>r. mean_term per_token (piece cp r P x) (piece cp r P m) m) [0..<cp]) = mean_term per_token x m m"
proof -
  let ?d = "if per_token then 1 else max (sum_list m) 1"
  have "sum_list (map (\<lambda>r. mean_term per_token (piece cp r P x) (piece cp r P m) m) [0..<cp]) =
    sum_list (map (\<lambda>r. sum_list (piece cp r P (map2 (*) x m)) / ?d) [0..<cp])"
    by (simp add: mean_term_def piece_map2(1)[OF assms(3)])
  also have "\<dots> = sum_list (map (\<lambda>r. sum_list (piece cp r P (map2 (*) x m))) [0..<cp]) / ?d"
    by (simp add: divide_inverse sum_list_mult_const)
  also have "\<dots> = mean_term per_token x m m" using sum_pieces[OF assms(1,2)] by (simp add: mean_term_def)
  finally show ?thesis .
qed

lemma local_means_sum:
  assumes cp: "0 < cp" and ss: "\<forall>(P, x, m) \<in> set ss. 1 \<le> P \<and> length x = length m"
  shows "sum_list (map (\<lambda>r. sum_list (map (\<lambda>(P, x, m). mean_term per_token (piece cp r P x) (piece cp r P m) m) ss)) [0..<cp]) =
    sum_list (map (\<lambda>(P, x, m). mean_term per_token x m m) ss)"
  using ss
proof (induction ss)
  case (Cons a ss)
  obtain P x m where a: "a = (P, x, m)" by (cases a)
  then have "1 \<le> P" "length x = length m" using Cons.prems by auto
  then show ?case using Cons mean_term_pieces[OF cp, of P x m per_token] unfolding a
    by (simp add: sum_list_addf)
qed simp

section \<open>Slices of tokens\<close>

definition padded_length :: "nat \<Rightarrow> nat \<Rightarrow> nat" where
  "padded_length cp n = nat (2 * int cp * chunk_size_of (int cp) (int n))"

lemma slice_with_cp_spec:
  assumes "1 < cp" "r < cp" "0 < length tokens"
  shows "\<exists>s c. slice_with_cp (int cp) (int r) tokens pad ''thd'' None = Inr s \<and> int c = chunk_size_of (int cp) (int (length tokens)) \<and>
    length s = 2 * c \<and>
    (\<forall>j < c. s ! j = (if r * c + j < length tokens then tokens ! (r * c + j) else pad)) \<and>
    (\<forall>j < c. s ! (c + j) = (let p = (2 * cp - r - 1) * c + j in if p < length tokens then tokens ! p else pad))"
proof -
  let ?n = "length tokens"
  define c where "c = nat (chunk_size_of (int cp) (int ?n))"
  have cb: "0 < chunk_size_of (int cp) (int ?n)" "int ?n \<le> 2 * int cp * chunk_size_of (int cp) (int ?n)"
    using chunk_size_bounds[of "int cp" "int ?n"] assms by auto
  have c: "int c = chunk_size_of (int cp) (int ?n)" using cb(1) by (simp add: c_def)
  have nb: "?n \<le> 2 * cp * c" using cb(2) unfolding c[symmetric] by (metis of_nat_le_iff of_nat_mult of_nat_numeral)
  define padded where "padded = tokens @ replicate (2 * cp * c - ?n) pad"
  have lp: "length padded = 2 * cp * c" using nb by (simp add: padded_def)
  have nth: "padded ! p = (if p < ?n then tokens ! p else pad)" if "p < 2 * cp * c" for p
    using that by (simp add: padded_def nth_append)
  have b1: "r * c + c \<le> 2 * cp * c"
  proof -
    have "(r + 1) * c \<le> (2 * cp) * c" using assms(2) by (intro mult_le_mono1) simp
    then show ?thesis by simp
  qed
  have b2: "(2 * cp - r - 1) * c + c \<le> 2 * cp * c"
  proof -
    have "(2 * cp - r - 1 + 1) * c \<le> (2 * cp) * c" using assms(1,2) by (intro mult_le_mono1) simp
    then show ?thesis by (simp add: algebra_simps)
  qed
  let ?s = "take c (drop (r * c) padded) @ take c (drop ((2 * cp - r - 1) * c) padded)"
  have i1: "int c * int r = int (r * c)" "int c * (int r + 1) = int (r * c + c)" by (simp_all add: algebra_simps)
  have i2: "int c * (2 * int cp - int r - 1) = int ((2 * cp - r - 1) * c)"
    "int c * (2 * int cp - int r) = int ((2 * cp - r - 1) * c + c)"
  proof -
    have "2 * int cp - int r - 1 = int (2 * cp - r - 1)" using assms by simp
    then show "int c * (2 * int cp - int r - 1) = int ((2 * cp - r - 1) * c)" by simp
    then show "int c * (2 * int cp - int r) = int ((2 * cp - r - 1) * c + c)" by (simp add: algebra_simps)
  qed
  have pd: "2 * int cp * int c - int ?n = int (2 * cp * c - ?n)" using nb by (simp add: of_nat_diff)
  have sl: "py_slice padded (int a) (int (a + c)) = take c (drop a padded)" for a
    by (simp add: py_slice_of_nat del: of_nat_add)
  have lt: "\<not> 2 * int cp * int c < int ?n" using cb(2) unfolding c[symmetric] by simp
  have nt: "nat (2 * int cp * int c - int ?n) = 2 * cp * c - ?n" unfolding pd by (rule nat_int)
  have s1: "py_slice padded (int c * int r) (int c * (int r + 1)) = take c (drop (r * c) padded)"
    and s2: "py_slice padded (int c * (2 * int cp - int r - 1)) (int c * (2 * int cp - int r)) = take c (drop ((2 * cp - r - 1) * c) padded)"
    unfolding i1 i2 by (rule sl)+
  have "slice_with_cp (int cp) (int r) tokens pad ''thd'' None = Inr ?s"
    using assms(1) lt s1 s2 unfolding slice_with_cp_def Let_def c[symmetric]
    by (simp add: nt padded_def[symmetric])
  moreover have "length ?s = 2 * c" using lp b1 b2 by simp
  moreover have "r * c \<le> length padded" "(2 * cp - r - 1) * c \<le> length padded" unfolding lp using b1 b2 by linarith+
  note nd = nth_drop[OF this(1)] nth_drop[OF this(2)]
  moreover have "?s ! j = (if r * c + j < ?n then tokens ! (r * c + j) else pad)" if "j < c" for j
    using that lp b1 nth[of "r * c + j"] by (simp add: nth_append nd)
  moreover have "?s ! (c + j) = (let p = (2 * cp - r - 1) * c + j in if p < ?n then tokens ! p else pad)" if "j < c" for j
    using that lp b1 b2 nth[of "(2 * cp - r - 1) * c + j"] by (simp add: nth_append Let_def nd)
  ultimately show ?thesis using c by blast
qed

section \<open>The contract of context parallelism\<close>

text \<open>C12. With at least one prompt token, every rank's slice of a response can be taken, and gathering the
  slices of all ranks gives the response back on each of them: no position is lost, duplicated or
  moved by the padding to \<open>2 * cp_size\<close> chunks.\<close>

theorem gather_undoes_slice:
  assumes "0 < cp" "rank < cp" "1 \<le> P"
  shows "\<exists>parts. (\<forall>r < cp. slice_log_prob_with_cp (int cp) (int r) xs (P + int (length xs)) (int (length xs)) ''thd'' None = Inr (parts r)) \<and>
    all_gather_with_cp cp rank parts (P + int (length xs)) (int (length xs)) = Inr xs"
  using gather_pieces[OF assms, of xs] slice_log_prob_piece[OF assms(1)]
  by (intro exI[of _ "\<lambda>r. piece cp r P xs"]) blast

theorem gather_undoes_slice_witness:
  "\<exists>parts. all_gather_with_cp 4 2 parts 12 9 = Inr [1, 2, 3, 4, 5, 6, 7, 8, 9]"
  using gather_undoes_slice[of 4 2 3 "[1, 2, 3, 4, 5, 6, 7, 8, 9]"] by auto

text \<open>C13. Each rank computes its sum of sample means (or of tokens) from its slices alone, dividing by the
  number of trained tokens of the whole sample; the sum over the ranks is the value without context
  parallelism.\<close>

theorem sample_means_add_up:
  assumes "0 < cp" "\<forall>(P, x, m) \<in> set ss. 1 \<le> P \<and> length x = length m"
  shows "\<exists>f. (\<forall>r < cp. local_mean cp r per_token ss = Inr (f r)) \<and>
    local_mean 1 0 per_token ss = Inr (sum_list (map f [0..<cp]))"
proof -
  let ?f = "\<lambda>r. sum_list (map (\<lambda>(P, x, m). mean_term per_token (piece cp r P x) (piece cp r P m) m) ss)"
  have ok: "\<forall>(P, x, m) \<in> set ss. length x = length m" using assms(2) by auto
  have "local_mean 1 0 per_token ss = Inr (sum_list (map (\<lambda>(P, x, m). mean_term per_token x m m) ss))"
    using local_mean_eq[OF _ ok, of 1 0 per_token] by (simp add: piece_def)
  then show ?thesis using local_mean_eq[OF assms(1) ok] local_means_sum[OF assms, of per_token]
    by (intro exI[of _ ?f]) simp
qed

theorem sample_means_add_up_witness:
  "\<exists>f. local_mean 2 0 False [(2, [1, 2, 3], [1, 0, 1])] = Inr (f (0 :: nat)) \<and>
    local_mean 1 0 False [(2, [1, 2, 3], [1, 0, 1])] = Inr (sum_list (map f [0..<2]))"
  using sample_means_add_up[of 2 "[(2, [1, 2, 3], [1, 0, 1])]" False] by auto

text \<open>\<open>slice_with_cp\<close> gives rank \<open>r\<close> the chunks \<open>r\<close> and \<open>2 * cp_size - 1 - r\<close> of the padded tokens, each of
  the same size, with the padding only behind the last token.\<close>

lemma slice_tokens:
  assumes "1 < cp" "r < cp" "0 < length tokens"
  shows "\<exists>s c. slice_with_cp (int cp) (int r) tokens pad ''thd'' None = Inr s \<and> length s = 2 * c \<and>
    length tokens \<le> 2 * cp * c \<and> 2 * cp * c < length tokens + 2 * cp \<and>
    (\<forall>j < c. s ! j = (if r * c + j < length tokens then tokens ! (r * c + j) else pad)) \<and>
    (\<forall>j < c. s ! (c + j) = (let p = (2 * cp - r - 1) * c + j in if p < length tokens then tokens ! p else pad))"
proof -
  obtain s c where s: "slice_with_cp (int cp) (int r) tokens pad ''thd'' None = Inr s"
    "int c = chunk_size_of (int cp) (int (length tokens))" "length s = 2 * c"
    "\<forall>j < c. s ! j = (if r * c + j < length tokens then tokens ! (r * c + j) else pad)"
    "\<forall>j < c. s ! (c + j) = (let p = (2 * cp - r - 1) * c + j in if p < length tokens then tokens ! p else pad)"
    using slice_with_cp_spec[OF assms, of pad] by blast
  have "int (length tokens) \<le> 2 * int cp * int c" using chunk_size_bounds(2)[of "int cp" "int (length tokens)"] assms s(2) by simp
  then have "length tokens \<le> 2 * cp * c" by (metis of_nat_le_iff of_nat_mult of_nat_numeral)
  moreover have "2 * int cp * int c \<le> int (length tokens) + 2 * int cp - 1"
  proof -
    let ?x = "int (length tokens) + 2 * int cp - 1"
    have "2 * int cp * (?x div (2 * int cp)) + ?x mod (2 * int cp) = ?x" by (rule mult_div_mod_eq)
    moreover have "0 \<le> ?x mod (2 * int cp)" using assms(1) by simp
    ultimately show ?thesis unfolding s(2) chunk_size_of_def by linarith
  qed
  then have "int (2 * cp * c) < int (length tokens + 2 * cp)" by simp
  then have "2 * cp * c < length tokens + 2 * cp" by (simp only: of_nat_less_iff)
  ultimately show ?thesis using s by blast
qed

end
