(* ===== verification/Ppo_Utils.thy ===== *)
theory Ppo_Utils
  imports Cp_Utils
begin

text \<open>
  \<open>slime/utils/ppo_utils.py\<close>: divergences, policy losses, the entropy of a vocabulary split over
  ranks, returns and generalized advantage estimation.  Tensors are lists of reals, so rounding is
  not modelled; with context parallelism a tensor of the local rank is a function from ranks, as the
  gather needs what every rank holds.
\<close>

section \<open>Divergences and losses\<close>

definition clamp :: "real \<Rightarrow> real \<Rightarrow> real \<Rightarrow> real" where
  "clamp lo hi x = min (max x lo) hi"

definition compute_approx_kl ::
  "real list \<Rightarrow> real list \<Rightarrow> string \<Rightarrow> real list option \<Rightarrow> real list result" where
  "compute_approx_kl log_probs log_probs_base kl_loss_type importance_ratio =
     bindE (tsub log_probs log_probs_base) (\<lambda>log_ratio.
     bindE (if kl_loss_type = ''k1'' then Inr log_ratio
            else if kl_loss_type = ''k2'' then Inr (map (\<lambda>x. x ^ 2 / 2) log_ratio)
            else if kl_loss_type \<in> {''k3'', ''low_var_kl''} then Inr (map (\<lambda>x. exp (- x) - 1 - (- x)) log_ratio)
            else Inl ValueError) (\<lambda>kl.
     bindE (case importance_ratio of None \<Rightarrow> Inr kl | Some w \<Rightarrow> tmul w kl) (\<lambda>kl.
       Inr (if kl_loss_type = ''low_var_kl'' then map (clamp (-10) 10) kl else kl))))"

text \<open>The divergence of a whole sequence under its mask.\<close>

definition seq_kl :: "real list \<Rightarrow> real list \<Rightarrow> real list \<Rightarrow> real result" where
  "seq_kl old_log_prob log_prob loss_mask =
     bindE (tsub old_log_prob log_prob) (\<lambda>d. bindE (tmul d loss_mask) (\<lambda>m.
       Inr (sum_list m / max (sum_list loss_mask) 1)))"

definition opsm_sample ::
  "real \<Rightarrow> real list \<times> real list \<times> real list \<times> real list \<Rightarrow> (real list \<times> real) result" where
  "opsm_sample delta = (\<lambda>(full_log_prob, full_old_log_prob, advantage, loss_mask).
     bindE (seq_kl full_old_log_prob full_log_prob loss_mask) (\<lambda>kl.
       let msk = map (\<lambda>a. if a < 0 \<and> kl > delta then 1 else 0) advantage in
       Inr (map (\<lambda>m. 1 - m) msk, sum_list msk / max (sum_list loss_mask) 1)))"

definition compute_opsm_mask ::
  "real \<Rightarrow> real list list \<Rightarrow> real list list \<Rightarrow> real list list \<Rightarrow> real list list \<Rightarrow> (real list \<times> real) result" where
  "compute_opsm_mask opsm_delta full_log_probs full_old_log_probs advantages loss_masks =
     bindE (raise_unless IndexError (advantages \<noteq> [])) (\<lambda>_.
     bindE (mapE (opsm_sample opsm_delta)
              (zip full_log_probs (zip full_old_log_probs (zip advantages loss_masks)))) (\<lambda>rs.
     bindE (raise_unless RuntimeError (rs \<noteq> [])) (\<lambda>_.
       Inr (concat (map fst rs), sum_list (map snd rs)))))"

definition compute_gspo_kl ::
  "real list list \<Rightarrow> real list list \<Rightarrow> real list list \<Rightarrow> real list list \<Rightarrow> real list result" where
  "compute_gspo_kl full_log_probs full_old_log_probs local_log_probs loss_masks =
     bindE (mapE (\<lambda>(log_prob, old_logprob, loss_mask). seq_kl old_logprob log_prob loss_mask)
              (zip full_log_probs (zip full_old_log_probs loss_masks))) (\<lambda>kls.
     let rows = map2 (\<lambda>kl log_prob. replicate (length log_prob) kl) kls local_log_probs in
     bindE (raise_unless RuntimeError (rows \<noteq> [])) (\<lambda>_. Inr (concat rows)))"

definition token_loss :: "real \<Rightarrow> real \<Rightarrow> real option \<Rightarrow> real \<Rightarrow> real \<Rightarrow> real" where
  "token_loss eps_clip eps_clip_high eps_clip_c kl adv =
     (let ratio = exp (- kl);
          l1 = - ratio * adv;
          l2 = - clamp (1 - eps_clip) (1 + eps_clip_high) ratio * adv;
          c1 = max l1 l2 in
      case eps_clip_c of None \<Rightarrow> c1 | Some c \<Rightarrow> if adv < 0 then min (- c * adv) c1 else c1)"

definition token_clipped :: "real \<Rightarrow> real \<Rightarrow> real \<Rightarrow> real \<Rightarrow> real" where
  "token_clipped eps_clip eps_clip_high kl adv =
     (let ratio = exp (- kl) in
      if - clamp (1 - eps_clip) (1 + eps_clip_high) ratio * adv > - ratio * adv then 1 else 0)"

definition compute_policy_loss ::
  "real list \<Rightarrow> real list \<Rightarrow> real \<Rightarrow> real \<Rightarrow> real option \<Rightarrow> (real list \<times> real list) result" where
  "compute_policy_loss ppo_kl advantages eps_clip eps_clip_high eps_clip_c =
     bindE (broadcast2 (token_clipped eps_clip eps_clip_high) ppo_kl advantages) (\<lambda>clipfrac.
     bindE (assertE (case eps_clip_c of None \<Rightarrow> True | Some c \<Rightarrow> c > 1)) (\<lambda>_.
     bindE (broadcast2 (token_loss eps_clip eps_clip_high eps_clip_c) ppo_kl advantages) (\<lambda>pg_losses.
       Inr (pg_losses, clipfrac))))"

section \<open>Entropy over a split vocabulary\<close>

text \<open>One row of logits; \<open>shards ! r\<close> is the part of tensor-parallel rank \<open>r\<close>.\<close>

definition all_max :: "real list list \<Rightarrow> real" where
  "all_max shards = Max (set (map (\<lambda>xs. Max (set xs)) shards))"

definition shard_softmax :: "real list list \<Rightarrow> real list \<Rightarrow> real list" where
  "shard_softmax shards xs =
     (let logits_max = all_max shards;
          total = sum_list (map (\<lambda>ys. sum_list (map (\<lambda>y. exp (y - logits_max)) ys)) shards) in
      map (\<lambda>x. exp (x - logits_max) / total) xs)"

definition sum_softmax_times_logits :: "real list list \<Rightarrow> real" where
  "sum_softmax_times_logits shards = sum_list (map (\<lambda>xs. sum_list (map2 (*) (shard_softmax shards xs) xs)) shards)"

definition entropy_forward :: "real list list \<Rightarrow> real" where
  "entropy_forward shards =
     (let logits_max = all_max shards;
          total = sum_list (map (\<lambda>ys. sum_list (map (\<lambda>y. exp (y - logits_max)) ys)) shards) in
      logits_max + ln total - sum_softmax_times_logits shards)"

text \<open>The gradient for the shard of rank \<open>r\<close>.\<close>

definition entropy_backward :: "real list list \<Rightarrow> nat \<Rightarrow> real \<Rightarrow> real list" where
  "entropy_backward shards r grad_output =
     map2 (\<lambda>p x. p * (x - sum_softmax_times_logits shards) * grad_output * (- 1)) (shard_softmax shards (shards ! r)) (shards ! r)"

section \<open>Returns\<close>

definition get_grpo_returns :: "real list \<Rightarrow> real list list \<Rightarrow> real list list result" where
  "get_grpo_returns rewards kl =
     mapE (\<lambda>i. bindE (py_nth kl (int i)) (\<lambda>k. Inr (replicate (length k) (rewards ! i)))) [0..<length rewards]"

text \<open>\<open>running_return\<close> from the last token to the first.\<close>

definition discounted :: "real \<Rightarrow> real list \<Rightarrow> real list" where
  "discounted gamma rewards =
     snd (fold (\<lambda>t (running, returns). let running = rewards ! t + gamma * running in (running, returns[t := running]))
            (rev [0..<length rewards]) (0, replicate (length rewards) 0))"

definition last_trained :: "real list \<Rightarrow> nat option" where
  "last_trained msk = (case filter (\<lambda>i. msk ! i \<noteq> 0) [0..<length msk] of [] \<Rightarrow> None | is \<Rightarrow> Some (last is))"

definition rpp_sample ::
  "nat \<Rightarrow> nat \<Rightarrow> real \<Rightarrow> real \<Rightarrow> real \<Rightarrow> (nat \<Rightarrow> real list) \<Rightarrow> real list \<Rightarrow> int \<Rightarrow> int \<Rightarrow> real list result" where
  "rpp_sample cp_size cp_rank kl_coef gamma reward local_kl full_mask response_len total_len =
     bindE (all_gather_with_cp cp_size cp_rank local_kl total_len response_len) (\<lambda>full_kl.
     bindE (assertE (sum_list full_mask > 0)) (\<lambda>_.
     bindE (tmul full_kl full_mask) (\<lambda>masked_kl.
     let token_level_rewards = map (\<lambda>x. - kl_coef * x) masked_kl in
     case last_trained full_mask of None \<Rightarrow> Inl IndexError
     | Some last_idx \<Rightarrow>
       bindE (raise_unless IndexError (last_idx < length token_level_rewards)) (\<lambda>_.
       let returns_for_seq = discounted gamma (token_level_rewards[last_idx := token_level_rewards ! last_idx + reward]) in
       if cp_size > 1
       then slice_log_prob_with_cp (int cp_size) (int cp_rank) returns_for_seq total_len response_len ''thd'' None
       else Inr returns_for_seq))))"

definition get_reinforce_plus_plus_returns ::
  "nat \<Rightarrow> nat \<Rightarrow> real list \<Rightarrow> (nat \<Rightarrow> real list) list \<Rightarrow> real list list \<Rightarrow> int list \<Rightarrow> int list \<Rightarrow> real \<Rightarrow> real \<Rightarrow> real list list result"
where
  "get_reinforce_plus_plus_returns cp_size cp_rank rewards kl loss_masks response_lengths total_lengths kl_coef gamma =
     mapE (\<lambda>i. bindE (py_nth kl (int i)) (\<lambda>k. bindE (py_nth total_lengths (int i)) (\<lambda>t.
                bindE (py_nth response_lengths (int i)) (\<lambda>r. bindE (py_nth loss_masks (int i)) (\<lambda>m.
                  rpp_sample cp_size cp_rank kl_coef gamma (rewards ! i) k m r t)))))
       [0..<length rewards]"

definition get_reinforce_plus_plus_baseline_advantages ::
  "real list \<Rightarrow> real list list \<Rightarrow> real \<Rightarrow> real list list" where
  "get_reinforce_plus_plus_baseline_advantages rewards kl kl_coef =
     map2 (\<lambda>kl_tensor reward_val. map (\<lambda>k. reward_val - kl_coef * k) kl_tensor) kl rewards"

section \<open>Generalized advantage estimation\<close>

text \<open>
  The loop over the tokens of one row from the last to the first; \<open>gam\<close> and \<open>w\<close> are the discount of the
  next value and of the next advantage at each token.
\<close>

definition gae_delta :: "(nat \<Rightarrow> real) \<Rightarrow> real list \<Rightarrow> real list \<Rightarrow> nat \<Rightarrow> nat \<Rightarrow> real" where
  "gae_delta gam rewards values T t =
     (let nextvalues = (if t + 1 < T then values ! (t + 1) else 0) in rewards ! t + gam t * nextvalues - values ! t)"

definition gae_loop ::
  "(nat \<Rightarrow> real) \<Rightarrow> (nat \<Rightarrow> real) \<Rightarrow> real list \<Rightarrow> real list \<Rightarrow> nat \<Rightarrow> real list" where
  "gae_loop gam w rewards values T =
     rev (snd (fold (\<lambda>t (lastgaelam, adv). let lastgaelam = gae_delta gam rewards values T t + w t * lastgaelam in
                       (lastgaelam, adv @ [lastgaelam])) (rev [0..<T]) (0, [])))"

definition get_advantages_and_returns ::
  "nat \<Rightarrow> nat \<Rightarrow> int \<Rightarrow> nat \<Rightarrow> (nat \<Rightarrow> real list) \<Rightarrow> (nat \<Rightarrow> real list) \<Rightarrow> real \<Rightarrow> real \<Rightarrow> (real list \<times> real list) result"
where
  "get_advantages_and_returns cp_size cp_rank total_len response_len values rewards gamma lambd =
     bindE (all_gather_with_cp cp_size cp_rank rewards total_len (int response_len)) (\<lambda>full_rewards.
     bindE (all_gather_with_cp cp_size cp_rank values total_len (int response_len)) (\<lambda>full_values.
     bindE (raise_unless IndexError (response_len \<le> length full_rewards \<and> response_len \<le> length full_values)) (\<lambda>_.
     let full_advantages = gae_loop (\<lambda>_. gamma) (\<lambda>_. gamma * lambd) full_rewards full_values response_len in
     bindE (tadd full_advantages full_values) (\<lambda>full_returns.
     if cp_size > 1 then
       bindE (slice_log_prob_with_cp (int cp_size) (int cp_rank) full_advantages total_len (int response_len) ''thd'' None) (\<lambda>a.
       bindE (slice_log_prob_with_cp (int cp_size) (int cp_rank) full_returns total_len (int response_len) ''thd'' None) (\<lambda>r.
         Inr (a, r)))
     else Inr (full_advantages, full_returns)))))"

text \<open>The batched versions work on rows of one width; every operation acts on the rows separately.\<close>

definition vanilla_gae ::
  "real list list \<Rightarrow> real list list \<Rightarrow> nat \<Rightarrow> real \<Rightarrow> real \<Rightarrow> (real list list \<times> real list list) result" where
  "vanilla_gae rewards values T gamma lambd =
     bindE (raise_unless RuntimeError (T \<noteq> 0)) (\<lambda>_.
       let adv = map2 (\<lambda>r v. gae_loop (\<lambda>_. gamma) (\<lambda>_. gamma * lambd) r v T) rewards values in
       Inr (adv, map2 (map2 (+)) adv values))"

text \<open>The prefix scan: local sums by a triangular matrix, then the state of the chunk before.\<close>

definition scan_kernel :: "real \<Rightarrow> nat \<Rightarrow> nat \<Rightarrow> real" where
  "scan_kernel w i j = (if i \<le> j then (if w = 0 then (if i = j then 1 else 0) else w ^ (j - i)) else 0)"

definition scan_power :: "real \<Rightarrow> nat \<Rightarrow> real" where
  "scan_power w t = (if w = 0 then 0 else w ^ (t + 1))"

definition scan_chunk :: "real \<Rightarrow> nat \<Rightarrow> nat \<Rightarrow> real list \<Rightarrow> real \<times> real list \<Rightarrow> real \<times> real list" where
  "scan_chunk w chunk_size len chunk = (\<lambda>(s_prev, out).
     let s_local = map (\<lambda>t. sum_list (map (\<lambda>k. chunk ! k * scan_kernel w k t) [0..<chunk_size])) [0..<chunk_size];
         s_global = map (\<lambda>t. s_local ! t + s_prev * scan_power w t) [0..<len]
     in (last s_global, out @ s_global))"

definition chunked_gae_row :: "real list \<Rightarrow> real list \<Rightarrow> nat \<Rightarrow> real \<Rightarrow> real \<Rightarrow> nat \<Rightarrow> real list" where
  "chunked_gae_row rewards values T gamma lambd chunk_size =
     (let deltas = map (gae_delta (\<lambda>_. gamma) rewards values T) [0..<T];
          w = gamma * lambd;
          pad = (if T mod chunk_size \<noteq> 0 then chunk_size - T mod chunk_size else 0);
          deltas_rev = rev deltas @ replicate pad 0;
          n_chunks = (T + pad) div chunk_size;
          lengths = (\<lambda>c. if 0 < pad \<and> c = n_chunks - 1 then chunk_size - pad else chunk_size);
          s_rev = snd (fold (\<lambda>c. scan_chunk w chunk_size (lengths c) (take chunk_size (drop (c * chunk_size) deltas_rev)))
                         [0..<n_chunks] (0, []))
      in rev (take T s_rev))"

definition chunked_gae ::
  "real list list \<Rightarrow> real list list \<Rightarrow> nat \<Rightarrow> real \<Rightarrow> real \<Rightarrow> nat \<Rightarrow> (real list list \<times> real list list) result" where
  "chunked_gae rewards values T gamma lambd chunk_size =
     bindE (assertE (length values = length rewards \<and> (\<forall>v \<in> set values. length v = T))) (\<lambda>_.
     bindE (raise_unless ZeroDivisionError (chunk_size \<noteq> 0)) (\<lambda>_.
       let adv = map2 (\<lambda>r v. chunked_gae_row r v T gamma lambd chunk_size) rewards values in
       Inr (adv, map2 (map2 (+)) adv values)))"

text \<open>\<open>full[i, :L] = x[:L]\<close> on a row of zeros, where a single value is broadcast.\<close>

definition assign_prefix :: "nat \<Rightarrow> nat \<Rightarrow> real list \<Rightarrow> real list result" where
  "assign_prefix width L x =
     (if length x = L then Inr (x @ replicate (width - L) 0)
      else if length x = 1 then Inr (replicate L (hd x) @ replicate (width - L) 0)
      else Inl RuntimeError)"

type_synonym local_rows = "(nat \<Rightarrow> real list) list"

definition gather_rows :: "nat \<Rightarrow> nat \<Rightarrow> int list \<Rightarrow> nat list \<Rightarrow> local_rows \<Rightarrow> real list list result" where
  "gather_rows cp_size cp_rank total_lengths response_lengths rows =
     (if cp_size > 1
      then mapE (\<lambda>(t, r, v). all_gather_with_cp cp_size cp_rank v t (int r)) (zip total_lengths (zip response_lengths rows))
      else Inr (map (\<lambda>v. v cp_rank) rows))"

definition slice_rows ::
  "nat \<Rightarrow> nat \<Rightarrow> int list \<Rightarrow> nat list \<Rightarrow> real list list \<Rightarrow> real list list result" where
  "slice_rows cp_size cp_rank total_lengths response_lengths rows =
     mapE (\<lambda>(t, r, row). slice_log_prob_with_cp (int cp_size) (int cp_rank) row t (int r) ''thd'' None)
       (zip total_lengths (zip response_lengths rows))"

definition get_advantages_and_returns_batch ::
  "nat \<Rightarrow> nat \<Rightarrow> int list \<Rightarrow> nat list \<Rightarrow> local_rows \<Rightarrow> local_rows \<Rightarrow> real \<Rightarrow> real \<Rightarrow> bool \<Rightarrow>
   (real list list \<times> real list list) result"
where
  "get_advantages_and_returns_batch cp_size cp_rank total_lengths response_lengths values_list rewards_list gamma lambd chunked =
     (let B = length response_lengths in
      bindE (assertE (B = length values_list)) (\<lambda>_.
      bindE (assertE (B = length rewards_list)) (\<lambda>_.
      bindE (raise_unless IndexError (B \<noteq> 0)) (\<lambda>_.
      bindE (gather_rows cp_size cp_rank total_lengths response_lengths values_list) (\<lambda>full_values_list.
      bindE (gather_rows cp_size cp_rank total_lengths response_lengths rewards_list) (\<lambda>full_rewards_list.
      let max_len = Max (set response_lengths);
          fill = (\<lambda>rows. mapE (\<lambda>i. bindE (py_nth rows (int i)) (\<lambda>x.
                    let L = response_lengths ! i in assign_prefix max_len L (take L x))) [0..<B]) in
      bindE (fill full_values_list) (\<lambda>full_values.
      bindE (fill full_rewards_list) (\<lambda>full_rewards.
      bindE (if \<not> chunked then vanilla_gae full_rewards full_values max_len gamma lambd
             else chunked_gae full_rewards full_values max_len gamma lambd 128) (\<lambda>(full_advantages, full_returns).
      let cut = (\<lambda>rows. map2 (\<lambda>L row. take L row) response_lengths rows) in
      if cp_size > 1 then
        bindE (slice_rows cp_size cp_rank total_lengths response_lengths (cut full_advantages)) (\<lambda>a.
        bindE (slice_rows cp_size cp_rank total_lengths response_lengths (cut full_returns)) (\<lambda>r. Inr (a, r)))
      else Inr (cut full_advantages, cut full_returns))))))))))"

text \<open>The version for several turns: values at the trained tokens only, one discount per such token.\<close>

definition compress :: "real list \<Rightarrow> 'a list \<Rightarrow> 'a list" where
  "compress msk xs = map snd (filter (\<lambda>(m, x). m = 1) (zip msk xs))"

fun scatter :: "real list \<Rightarrow> real list \<Rightarrow> real list" where
  "scatter [] ys = []"
| "scatter (m # ms) ys = (if m = 1 then hd ys # scatter ms (tl ys) else 0 # scatter ms ys)"

definition turn_row ::
  "nat \<Rightarrow> real list \<Rightarrow> real list \<Rightarrow> real list \<Rightarrow> real list \<Rightarrow> real list \<Rightarrow> (real list \<times> real list \<times> real list \<times> real list) result"
where
  "turn_row max_len msk values rewards gammas lambds =
     (let L = length (filter (\<lambda>m. m = 1) msk) in
      bindE (raise_unless IndexError (length msk = length values)) (\<lambda>_.
      bindE (assign_prefix max_len L (compress msk values)) (\<lambda>v.
      bindE (assign_prefix max_len L rewards) (\<lambda>r.
      bindE (assign_prefix max_len L gammas) (\<lambda>g.
      bindE (assign_prefix max_len L lambds) (\<lambda>l. Inr (v, r, g, l)))))))"

definition get_advantages_and_returns_batch1 ::
  "nat \<Rightarrow> nat \<Rightarrow> int list \<Rightarrow> nat list \<Rightarrow> local_rows \<Rightarrow> real list list \<Rightarrow> real list list \<Rightarrow> real list list \<Rightarrow> real list list \<Rightarrow>
   (real list list \<times> real list list) result"
where
  "get_advantages_and_returns_batch1 cp_size cp_rank total_lengths response_lengths values_list rewards_list gamma_list
     lambd_list loss_masks =
     (let B = length response_lengths in
      bindE (assertE (B = length values_list)) (\<lambda>_.
      bindE (assertE (B = length rewards_list)) (\<lambda>_.
      bindE (raise_unless IndexError (B \<noteq> 0)) (\<lambda>_.
      bindE (gather_rows cp_size cp_rank total_lengths response_lengths values_list) (\<lambda>full_values_list.
      bindE (raise_unless ValueError (loss_masks \<noteq> [])) (\<lambda>_.
      let max_len = Max (set (map (\<lambda>m. length (filter (\<lambda>x. x = 1) m)) loss_masks)) in
      bindE (mapE (\<lambda>i. bindE (py_nth loss_masks (int i)) (\<lambda>m. bindE (py_nth full_values_list (int i)) (\<lambda>v.
               bindE (py_nth gamma_list (int i)) (\<lambda>g. bindE (py_nth lambd_list (int i)) (\<lambda>l.
                 turn_row max_len m v (rewards_list ! i) g l))))) [0..<B]) (\<lambda>rows.
      bindE (raise_unless RuntimeError (max_len \<noteq> 0)) (\<lambda>_.
      let adv = map (\<lambda>(v, r, g, l). gae_loop ((!) g) ((!) l) r v max_len) rows;
          ret = map2 (\<lambda>a (v, _). map2 (+) a v) adv rows;
          put = (\<lambda>temp. mapE (\<lambda>i. let m = loss_masks ! i in
                   bindE (raise_unless IndexError (length m = response_lengths ! i)) (\<lambda>_. Inr (scatter m (temp ! i)))) [0..<B]) in
      bindE (put adv) (\<lambda>advantages_list.
      bindE (put ret) (\<lambda>returns_list.
      if cp_size > 1 then
        bindE (slice_rows cp_size cp_rank total_lengths response_lengths advantages_list) (\<lambda>a.
        bindE (slice_rows cp_size cp_rank total_lengths response_lengths returns_list) (\<lambda>r. Inr (a, r)))
      else Inr (advantages_list, returns_list)))))))))))"

section \<open>Log probabilities in chunks\<close>

fun groups :: "nat \<Rightarrow> nat \<Rightarrow> 'a list \<Rightarrow> 'a list list" where
  "groups 0 c xs = []"
| "groups (Suc n) c xs = take c xs # groups n c (drop c xs)"

text \<open>\<open>x.chunk(n)\<close>: chunks of the rounded-up size, possibly fewer than asked for.\<close>

definition torch_chunk :: "nat \<Rightarrow> 'a list \<Rightarrow> 'a list list" where
  "torch_chunk n xs =
     (if xs = [] then [[]]
      else let c = (length xs + n - 1) div n in groups ((length xs + c - 1) div c) c xs)"

text \<open>The fused kernels that compute log probabilities and entropies of rows are parameters.\<close>

definition calculate_log_probs_and_entropy ::
  "('row list \<Rightarrow> 'tok list \<Rightarrow> real list) \<Rightarrow> ('row list \<Rightarrow> real list) \<Rightarrow> 'row list \<Rightarrow> 'tok list \<Rightarrow> bool \<Rightarrow> int \<Rightarrow>
   (real list \<times> real list option) result"
where
  "calculate_log_probs_and_entropy compute_log_probs compute_entropy logits tokens with_entropy chunk_size =
     (if logits \<noteq> [] then
        if chunk_size > 0 then
          let num_chunks = (length logits - 1) div nat chunk_size + 1;
              tokens_chunks = torch_chunk num_chunks tokens;
              logits_chunks = torch_chunk num_chunks logits in
          bindE (raise_unless ValueError (length tokens_chunks = length logits_chunks)) (\<lambda>_.
            Inr (concat (map2 (\<lambda>t l. compute_log_probs l t) tokens_chunks logits_chunks),
                 if with_entropy then Some (concat (map2 (\<lambda>_ l. compute_entropy l) tokens_chunks logits_chunks)) else None))
        else Inr (compute_log_probs logits tokens, if with_entropy then Some (compute_entropy logits) else None)
      else Inr ([], if with_entropy then Some [] else None))"

end
