(* ===== verification/Responses.thy ===== *)
theory Responses
  imports Ppo_Utils
begin

text \<open>
  \<open>backends/megatron_utils/loss.py\<close>, the part that finds in the output of the model the rows that
  predict the tokens of each response, and from them log probabilities, entropies, values and the
  probability of actions that the game does not allow.  A rank of the context-parallel group holds a
  part of the rows; \<open>logits q\<close> are those of rank \<open>q\<close>.  The vocabulary is whole here (its split over
  ranks is the subject of \<open>Ppo_Utils\<close>), the kernels for log probabilities and entropies of rows
  are parameters, and an entry \<open>None\<close> of a row stands for minus infinity.
\<close>

section \<open>Arguments\<close>

record loss_args =
  la_qkv_format :: string
  la_rollout_temperature :: real
  la_allgather_cp :: bool
  la_log_probs_chunk_size :: int

type_synonym 'a rows = "'a list list"

section \<open>The rows of the responses\<close>

text \<open>\<open>logits\<close> has one batch of rows per sequence of the batch dimension.\<close>

definition flat_logits :: "'x loss_args_scheme \<Rightarrow> int list option \<Rightarrow> real rows list \<Rightarrow> real rows result" where
  "flat_logits args max_seq_lens logits =
     bindE (if la_qkv_format args = ''thd'' then bindE (assertE (length logits = 1)) (\<lambda>_. Inr (hd logits))
            else bindE (assertE (max_seq_lens \<noteq> None)) (\<lambda>_. Inr (concat logits))) (\<lambda>rows.
       Inr (if la_rollout_temperature args \<noteq> 1 then map (map (\<lambda>x. x / la_rollout_temperature args)) rows else rows))"

text \<open>Without context parallelism: the rows before the response tokens of the packed sequence.\<close>

definition response_whole ::
  "string \<Rightarrow> real rows \<Rightarrow> int option \<Rightarrow> nat \<Rightarrow> int list \<Rightarrow> int \<Rightarrow> int \<Rightarrow> int \<Rightarrow> (int \<times> real rows \<times> int list) result" where
  "response_whole qkv_format logits max_seq_len i tokens total_length response_length end_pos =
     bindE (if qkv_format = ''bshd''
            then case max_seq_len of None \<Rightarrow> Inl TypeError | Some m \<Rightarrow> Inr (m * int i + total_length)
            else Inr (end_pos + total_length)) (\<lambda>end_pos.
     let start = end_pos - response_length in
       Inr (end_pos, py_slice logits (start - 1) (end_pos - 1), py_slice tokens (- response_length) (int (length tokens))))"

text \<open>Contiguous parts of the packed sequence: what of the response falls into the part of the rank.\<close>

definition response_contiguous ::
  "nat \<Rightarrow> real rows \<Rightarrow> int list \<Rightarrow> int \<Rightarrow> int \<Rightarrow> int \<Rightarrow> (real rows \<times> int list) result" where
  "response_contiguous cp_rank logits tokens total_length response_length seq_start =
     (let local_len = int (length logits);
          chunk_start = int cp_rank * local_len;
          chunk_end = chunk_start + local_len;
          prompt_length = total_length - response_length;
          s = max (seq_start + prompt_length - 1) chunk_start;
          e = min (seq_start + total_length - 1) chunk_end;
          logits_chunk = (if e \<le> s then [] else py_slice logits (s - chunk_start) (e - chunk_start));
          tokens_chunk = (if e \<le> s then [] else py_slice tokens (s + 1 - seq_start) (e + 1 - seq_start)) in
      bindE (assertE (length logits_chunk = length tokens_chunk)) (\<lambda>_. Inr (logits_chunk, tokens_chunk)))"

text \<open>The two chunks of the rank, one behind the other in its rows.\<close>

definition response_zigzag ::
  "nat \<Rightarrow> nat \<Rightarrow> string \<Rightarrow> real rows \<Rightarrow> int option \<Rightarrow> int list \<Rightarrow> int \<Rightarrow> int \<Rightarrow> int \<Rightarrow> (int \<times> real rows \<times> int list) result" where
  "response_zigzag cp_size cp_rank qkv_format logits max_seq_len tokens total_length response_length end_pos =
     bindE (get_logits_and_tokens_offset_with_cp (int cp_size) (int cp_rank) total_length response_length qkv_format max_seq_len)
       (\<lambda>(chunk_size, (c0, c1), (l0, l1), (t0, t1)).
       let logits_0 = py_slice logits end_pos (end_pos + chunk_size);
           logits_1 = py_slice logits (end_pos + chunk_size) (end_pos + 2 * chunk_size);
           logits_0 = py_slice logits_0 (fst l0 - fst c0) (snd l0 - fst c0);
           tokens_0 = py_slice tokens (fst t0) (snd t0);
           logits_1 = py_slice logits_1 (fst l1 - fst c1) (snd l1 - fst c1);
           tokens_1 = py_slice tokens (fst t1) (snd t1) in
       bindE (assertE (length logits_0 = length tokens_0)) (\<lambda>_.
       bindE (assertE (length logits_1 = length tokens_1)) (\<lambda>_.
         Inr (end_pos + 2 * chunk_size, logits_0 @ logits_1, tokens_0 @ tokens_1))))"

definition get_responses ::
  "nat \<Rightarrow> nat \<Rightarrow> 'x loss_args_scheme \<Rightarrow> real rows list \<Rightarrow> int list list \<Rightarrow> int list \<Rightarrow> int list \<Rightarrow> int list option \<Rightarrow>
   (real rows \<times> int list) list result"
where
  "get_responses cp_size cp_rank args logits unconcat_tokens total_lengths response_lengths max_seq_lens =
     bindE (flat_logits args max_seq_lens logits) (\<lambda>rows.
     bindE (foldE (\<lambda>(i, tokens, total_length, response_length) (end_pos, seq_start, out).
         bindE (case max_seq_lens of None \<Rightarrow> Inr None
                | Some ms \<Rightarrow> bindE (py_nth ms (int i)) (\<lambda>m. Inr (Some m))) (\<lambda>max_seq_len.
         bindE (if cp_size = 1
                then response_whole (la_qkv_format args) rows max_seq_len i tokens total_length response_length end_pos
                else if la_allgather_cp args
                then bindE (response_contiguous cp_rank rows tokens total_length response_length seq_start) (\<lambda>(l, t). Inr (end_pos, l, t))
                else response_zigzag cp_size cp_rank (la_qkv_format args) rows max_seq_len tokens total_length response_length end_pos)
           (\<lambda>(end_pos, logits_chunk, tokens_chunk).
             Inr (end_pos, seq_start + total_length, out @ [(logits_chunk, tokens_chunk)]))))
       (enumerate_list (zip unconcat_tokens (zip total_lengths response_lengths))) (0, 0, [])) (\<lambda>(_, _, out). Inr out))"

section \<open>From contiguous parts to zigzag chunks\<close>

text \<open>What a rank brings to the sum: its part of each response at its place.\<close>

definition placed_response :: "nat \<Rightarrow> int \<Rightarrow> real list \<Rightarrow> int \<Rightarrow> int \<Rightarrow> int \<Rightarrow> real list result" where
  "placed_response cp_rank local_len val total_length response_length seq_start =
     (let chunk_start = int cp_rank * local_len;
          chunk_end = chunk_start + local_len;
          prompt_length = total_length - response_length;
          logit_global_start = seq_start + prompt_length - 1;
          s = max logit_global_start chunk_start;
          e = min (seq_start + total_length - 1) chunk_end in
      bindE (if e \<le> s then zeros response_length
             else Inr (replicate (nat (s - logit_global_start)) 0 @ val @
                       replicate (nat (response_length - (e - logit_global_start))) 0)) (\<lambda>full_resp.
      bindE (assertE (int (length full_resp) = response_length)) (\<lambda>_. Inr full_resp)))"

definition placed_responses :: "nat \<Rightarrow> int \<Rightarrow> real list list \<Rightarrow> int list \<Rightarrow> int list \<Rightarrow> real list list result" where
  "placed_responses cp_rank local_len vals total_lengths response_lengths =
     bindE (foldE (\<lambda>(val, total_length, response_length) (seq_start, out).
         bindE (placed_response cp_rank local_len val total_length response_length seq_start) (\<lambda>full_resp.
           Inr (seq_start + total_length, out @ [full_resp])))
       (zip vals (zip total_lengths response_lengths)) (0, [])) (\<lambda>(_, out). Inr out)"

definition allgather_cp_redistribute ::
  "nat \<Rightarrow> nat \<Rightarrow> string \<Rightarrow> int \<Rightarrow> (nat \<Rightarrow> real list list) \<Rightarrow> int list \<Rightarrow> int list \<Rightarrow> int list option \<Rightarrow> real list list result" where
  "allgather_cp_redistribute cp_size cp_rank qkv_format local_len vals total_lengths response_lengths max_seq_lens =
     bindE (mapE (\<lambda>q. placed_responses q local_len (vals q) total_lengths response_lengths) [0..<cp_size]) (\<lambda>parts.
     let all_cat = all_reduce_sum (map concat parts) in
     bindE (split_sizes (map nat response_lengths) all_cat) (\<lambda>fulls.
       mapE (\<lambda>(idx, full_resp, total_length, response_length).
           bindE (case max_seq_lens of None \<Rightarrow> Inr None
                  | Some ms \<Rightarrow> bindE (py_nth ms (int idx)) (\<lambda>m. Inr (Some m))) (\<lambda>max_seq_len.
             slice_log_prob_with_cp (int cp_size) (int cp_rank) full_resp total_length response_length qkv_format max_seq_len))
         (enumerate_list (zip fulls (zip total_lengths response_lengths)))))"

section \<open>Log probabilities and entropies\<close>

text \<open>\<open>t[i, idx] = v\<close> for a list of columns: negative columns count from the end.\<close>

definition columns :: "nat \<Rightarrow> int list \<Rightarrow> nat set result" where
  "columns width idx =
     bindE (raise_unless IndexError (\<forall>i \<in> set idx. - int width \<le> i \<and> i < int width)) (\<lambda>_.
       Inr (set (map (\<lambda>i. nat (if i < 0 then int width + i else i)) idx)))"

definition mask_row :: "real list \<Rightarrow> int list \<Rightarrow> real option list result" where
  "mask_row row idx =
     bindE (columns (length row) idx) (\<lambda>allowed.
       Inr (map (\<lambda>(v, x). if v \<in> allowed then Some x else None) (enumerate_list row)))"

text \<open>\<open>t[mask == 1]\<close> and \<open>full[mask == 1] = ys\<close>.\<close>

definition select_rows :: "real list \<Rightarrow> 'a list \<Rightarrow> 'a list result" where
  "select_rows msk xs = bindE (raise_unless IndexError (length msk = length xs)) (\<lambda>_. Inr (compress msk xs))"

definition put_rows :: "int \<Rightarrow> real list \<Rightarrow> real list \<Rightarrow> real list result" where
  "put_rows L msk ys =
     bindE (zeros L) (\<lambda>z. bindE (raise_unless IndexError (length msk = length z)) (\<lambda>_.
       let n = length (filter (\<lambda>m. m = 1) msk) in
       if length ys = n then Inr (scatter msk ys)
       else if length ys = 1 then Inr (scatter msk (replicate n (hd ys)))
       else Inl RuntimeError))"

type_synonym log_prob_kernel = "real option rows \<Rightarrow> int list \<Rightarrow> real list"
type_synonym entropy_kernel = "real option rows \<Rightarrow> real list"

text \<open>One sample: its rows and tokens, those of the trained tokens when there are masks.\<close>

definition sample_log_probs ::
  "log_prob_kernel \<Rightarrow> entropy_kernel \<Rightarrow> 'x loss_args_scheme \<Rightarrow> bool \<Rightarrow> int list \<Rightarrow> real list list option \<Rightarrow> int list list list option \<Rightarrow>
   nat \<times> real rows \<times> int list \<Rightarrow> (real list \<times> real list option) result"
where
  "sample_log_probs clp cent args with_entropy response_lengths loss_masks logits_masks = (\<lambda>(i, logits_chunk, tokens_chunk).
     bindE (case loss_masks of None \<Rightarrow> Inr (logits_chunk, tokens_chunk)
            | Some ms \<Rightarrow> bindE (py_nth ms (int i)) (\<lambda>m. bindE (select_rows m logits_chunk) (\<lambda>l.
                bindE (select_rows m tokens_chunk) (\<lambda>t. Inr (l, t))))) (\<lambda>(logits_chunk, tokens_chunk).
     bindE (case logits_masks of None \<Rightarrow> Inr (map (map Some) logits_chunk)
            | Some ls \<Rightarrow> bindE (py_nth ls (int i)) (\<lambda>lm.
                bindE (assertE (length logits_chunk = length lm)) (\<lambda>_.
                  mapE (\<lambda>(row, idx). mask_row row idx) (zip logits_chunk lm)))) (\<lambda>rows.
     bindE (calculate_log_probs_and_entropy clp cent rows tokens_chunk with_entropy (la_log_probs_chunk_size args)) (\<lambda>(log_prob, entropy).
     case loss_masks of None \<Rightarrow> Inr (log_prob, entropy)
     | Some ms \<Rightarrow> bindE (py_nth ms (int i)) (\<lambda>m. bindE (py_nth response_lengths (int i)) (\<lambda>L.
         bindE (put_rows L m log_prob) (\<lambda>full_log_prob.
           case entropy of None \<Rightarrow> Inr (full_log_prob, None)
           | Some es \<Rightarrow> bindE (put_rows L m es) (\<lambda>full_entropy. Inr (full_log_prob, Some full_entropy)))))))))"

text \<open>The two lists of one rank, before the parts of the ranks are redistributed.\<close>

definition local_log_probs ::
  "log_prob_kernel \<Rightarrow> entropy_kernel \<Rightarrow> nat \<Rightarrow> nat \<Rightarrow> 'x loss_args_scheme \<Rightarrow> real rows list \<Rightarrow> int list list \<Rightarrow> int list \<Rightarrow> int list \<Rightarrow>
   bool \<Rightarrow> int list option \<Rightarrow> real list list option \<Rightarrow> int list list list option \<Rightarrow> (real list list \<times> real list list) result"
where
  "local_log_probs clp cent cp_size cp_rank args logits unconcat_tokens total_lengths response_lengths with_entropy
     max_seq_lens loss_masks logits_masks =
     bindE (get_responses cp_size cp_rank args logits unconcat_tokens total_lengths response_lengths max_seq_lens) (\<lambda>chunks.
     bindE (mapE (sample_log_probs clp cent args with_entropy response_lengths loss_masks logits_masks) (enumerate_list chunks)) (\<lambda>rs.
       Inr (map fst rs, map (\<lambda>(_, e). case e of None \<Rightarrow> [] | Some es \<Rightarrow> es) rs)))"

definition get_log_probs_and_entropy ::
  "log_prob_kernel \<Rightarrow> entropy_kernel \<Rightarrow> nat \<Rightarrow> nat \<Rightarrow> 'x loss_args_scheme \<Rightarrow> (nat \<Rightarrow> real rows list) \<Rightarrow> int list list \<Rightarrow> int list \<Rightarrow>
   int list \<Rightarrow> bool \<Rightarrow> int list option \<Rightarrow> real list list option \<Rightarrow> int list list list option \<Rightarrow>
   (real list list \<times> real list list option) result"
where
  "get_log_probs_and_entropy clp cent cp_size cp_rank args logits unconcat_tokens total_lengths response_lengths with_entropy
     max_seq_lens loss_masks logits_masks =
     (let on_rank = (\<lambda>q. local_log_probs clp cent cp_size q args (logits q) unconcat_tokens total_lengths response_lengths with_entropy
                      max_seq_lens loss_masks logits_masks) in
      bindE (on_rank cp_rank) (\<lambda>(log_probs, entropies).
      if la_allgather_cp args then
        bindE (mapE on_rank [0..<cp_size]) (\<lambda>all_ranks.
        let local_len = int (length (hd (logits cp_rank)));
            redistribute = (\<lambda>f. allgather_cp_redistribute cp_size cp_rank (la_qkv_format args) local_len (\<lambda>q. f (all_ranks ! q))
                              total_lengths response_lengths max_seq_lens) in
        bindE (redistribute fst) (\<lambda>l.
        if with_entropy then bindE (redistribute snd) (\<lambda>e. Inr (l, Some e)) else Inr (l, None)))
      else Inr (log_probs, if with_entropy then Some entropies else None)))"

section \<open>The probability of actions that are not allowed\<close>

definition softmax :: "real list \<Rightarrow> real list" where
  "softmax xs = (let total = sum_list (map exp xs) in map (\<lambda>x. exp x / total) xs)"

text \<open>The tokens of actions are numbers 151665 to 157599.\<close>

definition ACTION_FIRST :: int where "ACTION_FIRST = 151665"

definition ACTION_LAST :: int where "ACTION_LAST = 157600"

definition row_invalid :: "real list \<Rightarrow> nat set \<Rightarrow> real" where
  "row_invalid probs allowed = sum_list (map (\<lambda>(v, p). p * (1 - (if v \<in> allowed then 1 else 0))) (enumerate_list probs))"

definition sample_invalid ::
  "int list \<Rightarrow> real list list \<Rightarrow> int list list list \<Rightarrow> nat \<times> real rows \<times> int list \<Rightarrow> real list result" where
  "sample_invalid response_lengths loss_masks logits_masks = (\<lambda>(i, logits_chunk, _).
     bindE (py_nth loss_masks (int i)) (\<lambda>m.
     bindE (select_rows m logits_chunk) (\<lambda>rows.
     let probs = map (\<lambda>row. softmax (py_slice row ACTION_FIRST ACTION_LAST)) rows in
     bindE (py_nth logits_masks (int i)) (\<lambda>lm.
     bindE (raise_unless IndexError (length lm \<le> length probs)) (\<lambda>_.
     bindE (mapE (\<lambda>(j, p). bindE (columns (length p) (if j < length lm then map (\<lambda>x. x - ACTION_FIRST) (lm ! j) else [])) (\<lambda>allowed.
              Inr (row_invalid p allowed))) (enumerate_list probs)) (\<lambda>loss_invalid.
     bindE (py_nth response_lengths (int i)) (\<lambda>L. put_rows L m loss_invalid)))))))"

definition get_invalid_probs_loss ::
  "nat \<Rightarrow> nat \<Rightarrow> 'x loss_args_scheme \<Rightarrow> real rows list \<Rightarrow> int list list \<Rightarrow> int list \<Rightarrow> int list \<Rightarrow> int list option \<Rightarrow>
   real list list option \<Rightarrow> int list list list option \<Rightarrow> real list list result"
where
  "get_invalid_probs_loss cp_size cp_rank args logits unconcat_tokens total_lengths response_lengths max_seq_lens loss_masks logits_masks =
     bindE (get_responses cp_size cp_rank args logits unconcat_tokens total_lengths response_lengths max_seq_lens) (\<lambda>chunks.
       mapE (\<lambda>c. case (loss_masks, logits_masks) of (Some ms, Some ls) \<Rightarrow> sample_invalid response_lengths ms ls c | _ \<Rightarrow> Inl TypeError)
         (enumerate_list chunks))"

section \<open>Values\<close>

definition local_values ::
  "nat \<Rightarrow> nat \<Rightarrow> 'x loss_args_scheme \<Rightarrow> real rows list \<Rightarrow> int list list \<Rightarrow> int list \<Rightarrow> int list \<Rightarrow> int list option \<Rightarrow> real list list result" where
  "local_values cp_size cp_rank args logits unconcat_tokens total_lengths response_lengths max_seq_lens =
     bindE (get_responses cp_size cp_rank args logits unconcat_tokens total_lengths response_lengths max_seq_lens) (\<lambda>chunks.
       mapE (\<lambda>(rows, _). bindE (assertE (\<forall>row \<in> set rows. length row = 1)) (\<lambda>_. Inr (map hd rows))) chunks)"

definition get_values ::
  "nat \<Rightarrow> nat \<Rightarrow> 'x loss_args_scheme \<Rightarrow> (nat \<Rightarrow> real rows list) \<Rightarrow> int list list \<Rightarrow> int list \<Rightarrow> int list \<Rightarrow> int list option \<Rightarrow>
   real list list result"
where
  "get_values cp_size cp_rank args logits unconcat_tokens total_lengths response_lengths max_seq_lens =
     (let on_rank = (\<lambda>q. local_values cp_size q args (logits q) unconcat_tokens total_lengths response_lengths max_seq_lens) in
      bindE (on_rank cp_rank) (\<lambda>vals.
      if la_allgather_cp args then
        bindE (mapE on_rank [0..<cp_size]) (\<lambda>all_ranks.
          allgather_cp_redistribute cp_size cp_rank (la_qkv_format args) (int (length (hd (logits cp_rank)))) (\<lambda>q. all_ranks ! q)
            total_lengths response_lengths max_seq_lens)
      else Inr vals))"

end
