(* ===== verification/Advantages.thy ===== *)
theory Advantages
  imports Responses
begin

text \<open>
  \<open>compute_advantages_and_returns\<close> of \<open>backends/megatron_utils/loss.py\<close> and
  \<open>distributed_masked_whiten\<close> of \<open>utils/distributed_utils.py\<close>.  The world is a list of
  data-parallel ranks, each with the batch that its context-parallel group shares and a function
  from context-parallel ranks to the tensors they hold.  The function is computed on the last
  pipeline stage (the others return at once).
\<close>

section \<open>Whitening over a group\<close>

text \<open>\<open>ranks\<close> holds the values and masks of all ranks; the result is that of the rank with \<open>vals\<close>.\<close>

definition whiten_stats :: "(real list \<times> real list) list \<Rightarrow> (real \<times> real \<times> real) result" where
  "whiten_stats ranks =
     bindE (mapE (\<lambda>(vals, msk). bindE (tmul vals msk) (\<lambda>vm. bindE (tmul (map (\<lambda>x. x ^ 2) vals) msk) (\<lambda>vm2.
              Inr (sum_list vm, sum_list vm2, sum_list msk)))) ranks) (\<lambda>stats.
       Inr (sum_list (map fst stats), sum_list (map (\<lambda>s. fst (snd s)) stats), sum_list (map (\<lambda>s. snd (snd s)) stats)))"

definition distributed_masked_whiten ::
  "(real list \<times> real list) list \<Rightarrow> real list \<Rightarrow> bool \<Rightarrow> real \<Rightarrow> real list result" where
  "distributed_masked_whiten ranks vals shift_mean epsilon =
     bindE (whiten_stats ranks) (\<lambda>(global_sum, global_sum_sq, global_mask_sum).
     bindE (raise_unless ValueError (global_mask_sum \<noteq> 0)) (\<lambda>_.
     let global_mean = global_sum / global_mask_sum;
         global_mean_sq = global_sum_sq / global_mask_sum;
         global_var = global_mean_sq - global_mean ^ 2;
         global_var = (if global_mask_sum \<ge> 2 then global_var * (global_mask_sum / (global_mask_sum - 1)) else global_var);
         whitened = map (\<lambda>x. (x - global_mean) * (1 / sqrt (global_var + epsilon))) vals in
     Inr (if \<not> shift_mean then map (\<lambda>x. x + global_mean) whitened else whitened)))"

section \<open>Batches\<close>

record adv_args = loss_args +
  la_kl_coef :: real
  la_kl_loss_type :: string
  la_use_rollout_logprobs :: bool
  la_advantage_estimator :: string
  la_gamma :: real
  la_lambd :: real
  la_use_opd :: bool
  la_opd_kl_coef :: real
  la_normalize_advantages :: bool

text \<open>A reward per response, or for each trained token the rewards up to the next one.\<close>

datatype rewards = Scores "real list" | TurnRewards "real list list list"

record shared_batch =
  sb_rewards :: rewards
  sb_response_lengths :: "nat list"
  sb_total_lengths :: "int list"
  sb_loss_masks :: "real list list"
  sb_max_seq_lens :: "int list option"

record rank_batch =
  rb_log_probs :: "real list list option"
  rb_rollout_log_probs :: "real list list option"
  rb_ref_log_probs :: "real list list option"
  rb_values :: "real list list option"
  rb_teacher_log_probs :: "real list list option"

definition policy_log_probs :: "'x adv_args_scheme \<Rightarrow> rank_batch \<Rightarrow> real list list option" where
  "policy_log_probs args rb = (if la_use_rollout_logprobs args then rb_rollout_log_probs rb else rb_log_probs rb)"

section \<open>Divergences and rewards of tokens\<close>

definition rank_kl :: "'x adv_args_scheme \<Rightarrow> rank_batch \<Rightarrow> real list list result" where
  "rank_kl args rb =
     (let log_probs = policy_log_probs args rb in
      if la_kl_coef args = 0 \<or> log_probs = None \<or> log_probs = Some []
      then case (if log_probs \<noteq> None then log_probs else rb_values rb) of
             None \<Rightarrow> Inl TypeError
           | Some xs \<Rightarrow> Inr (map (\<lambda>x. replicate (length x) 0) xs)
      else case rb_ref_log_probs rb of None \<Rightarrow> Inl TypeError
           | Some ref \<Rightarrow> mapE (\<lambda>i. bindE (py_nth ref (int i)) (\<lambda>r.
               compute_approx_kl (the log_probs ! i) r (la_kl_loss_type args) None)) [0..<length (the log_probs)])"

text \<open>What the ranks of the group hold, response by response; the group fails with any of its ranks.\<close>

definition group_rows :: "nat \<Rightarrow> (nat \<Rightarrow> real list list result) \<Rightarrow> nat \<Rightarrow> local_rows result" where
  "group_rows cp_size rows cp_rank =
     bindE (rows cp_rank) (\<lambda>mine.
     bindE (mapE rows [0..<cp_size]) (\<lambda>_.
       Inr (map (\<lambda>i q. case rows q of Inl _ \<Rightarrow> [] | Inr r \<Rightarrow> if i < length r then r ! i else []) [0..<length mine])))"

text \<open>The rewards that follow one trained token: their number is the distance to the next.\<close>

definition turn_terms :: "real \<Rightarrow> real \<Rightarrow> real list \<Rightarrow> real \<times> real \<times> real" where
  "turn_terms gamma lambd item =
     (gamma ^ length item, (lambd * gamma) ^ length item, sum_list (map (\<lambda>(i, r). gamma ^ i * r) (enumerate_list item)))"

text \<open>\<open>k *= -kl_coef\<close>, and on rank 0 the reward is added to the last entry.\<close>

definition token_rewards :: "real \<Rightarrow> nat \<Rightarrow> real list \<Rightarrow> real list list \<Rightarrow> real list list result" where
  "token_rewards kl_coef cp_rank scores kl =
     mapE (\<lambda>(reward, k). let k = map (\<lambda>x. x * (- kl_coef)) k in
       if cp_rank = 0
       then bindE (raise_unless IndexError (k \<noteq> [])) (\<lambda>_. Inr (k[length k - 1 := last k + reward]))
       else Inr k) (zip scores kl)"

section \<open>The estimators\<close>

definition scores_tensor :: "rewards \<Rightarrow> real list list \<Rightarrow> real list result" where
  "scores_tensor rs kl =
     bindE (raise_unless IndexError (kl \<noteq> [])) (\<lambda>_.
       case rs of Scores xs \<Rightarrow> Inr xs | TurnRewards _ \<Rightarrow> Inl ValueError)"

definition value_rows :: "nat \<Rightarrow> (nat \<Rightarrow> rank_batch) \<Rightarrow> nat \<Rightarrow> local_rows result" where
  "value_rows cp_size ranks cp_rank =
     group_rows cp_size (\<lambda>q. case rb_values (ranks q) of None \<Rightarrow> Inl TypeError | Some v \<Rightarrow> Inr v) cp_rank"

definition ppo_advantages ::
  "nat \<Rightarrow> nat \<Rightarrow> 'x adv_args_scheme \<Rightarrow> shared_batch \<Rightarrow> (nat \<Rightarrow> rank_batch) \<Rightarrow> (real list list \<times> real list list) result" where
  "ppo_advantages cp_size cp_rank args sb ranks =
     (case sb_rewards sb of
        TurnRewards rs \<Rightarrow>
          bindE (raise_unless IndexError (rs \<noteq> [])) (\<lambda>_.
          let terms = map (map (turn_terms (la_gamma args) (la_lambd args))) rs in
          bindE (value_rows cp_size ranks cp_rank) (\<lambda>vals.
            get_advantages_and_returns_batch1 cp_size cp_rank (sb_total_lengths sb) (sb_response_lengths sb) vals
              (map (map (\<lambda>t. snd (snd t))) terms) (map (map fst) terms) (map (map (\<lambda>t. fst (snd t))) terms) (sb_loss_masks sb)))
      | Scores scores \<Rightarrow>
          bindE (raise_unless IndexError (scores \<noteq> [])) (\<lambda>_.
          bindE (group_rows cp_size (\<lambda>q. bindE (rank_kl args (ranks q)) (token_rewards (la_kl_coef args) q scores)) cp_rank) (\<lambda>rs.
          bindE (value_rows cp_size ranks cp_rank) (\<lambda>vals.
            get_advantages_and_returns_batch cp_size cp_rank (sb_total_lengths sb) (sb_response_lengths sb) vals rs
              (la_gamma args) (la_lambd args) True))))"

text \<open>Advantages, returns, and whether the two are one list object, as for the baseline estimator.\<close>

definition estimate ::
  "nat \<Rightarrow> nat \<Rightarrow> 'x adv_args_scheme \<Rightarrow> shared_batch \<Rightarrow> (nat \<Rightarrow> rank_batch) \<Rightarrow> (real list list \<times> real list list \<times> bool) result" where
  "estimate cp_size cp_rank args sb ranks =
     bindE (rank_kl args (ranks cp_rank)) (\<lambda>kl.
     let est = la_advantage_estimator args in
     if est = ''grpo'' \<or> est = ''gspo'' then
       bindE (scores_tensor (sb_rewards sb) kl) (\<lambda>r. bindE (get_grpo_returns r kl) (\<lambda>ret. Inr (ret, ret, False)))
     else if est = ''ppo'' then
       bindE (ppo_advantages cp_size cp_rank args sb ranks) (\<lambda>(adv, ret). Inr (adv, ret, False))
     else if est = ''reinforce_plus_plus'' then
       bindE (scores_tensor (sb_rewards sb) kl) (\<lambda>r.
       bindE (group_rows cp_size (\<lambda>q. rank_kl args (ranks q)) cp_rank) (\<lambda>kls.
       bindE (get_reinforce_plus_plus_returns cp_size cp_rank r kls (sb_loss_masks sb) (map int (sb_response_lengths sb))
                (sb_total_lengths sb) (la_kl_coef args) (la_gamma args)) (\<lambda>ret. Inr (ret, ret, False))))
     else if est = ''reinforce_plus_plus_baseline'' then
       bindE (scores_tensor (sb_rewards sb) kl) (\<lambda>r.
       let adv = get_reinforce_plus_plus_baseline_advantages r kl (la_kl_coef args) in Inr (adv, adv, True))
     else Inl NotImplementedError)"

section \<open>Distillation and normalization\<close>

definition apply_opd_kl_to_advantages ::
  "'x adv_args_scheme \<Rightarrow> real list list option \<Rightarrow> real list list option \<Rightarrow> real list list \<Rightarrow>
   (real list list \<times> real list list option) result"
where
  "apply_opd_kl_to_advantages args student_log_probs teacher_log_probs advantages =
     (case student_log_probs of None \<Rightarrow> Inr (advantages, None)
      | Some student \<Rightarrow>
          (case teacher_log_probs of None \<Rightarrow> Inl ValueError
           | Some teacher \<Rightarrow>
               bindE (raise_unless IndexError (student \<noteq> [])) (\<lambda>_.
               bindE (mapE (\<lambda>(i, adv). bindE (py_nth student (int i)) (\<lambda>s. bindE (py_nth teacher (int i)) (\<lambda>t.
                        bindE (tsub s t) (\<lambda>reverse_kl.
                        bindE (tsub adv (map (\<lambda>x. la_opd_kl_coef args * x) reverse_kl)) (\<lambda>a. Inr (a, reverse_kl))))))
                      (enumerate_list advantages)) (\<lambda>rs. Inr (map fst rs, Some (map snd rs))))))"

text \<open>The part of a loss mask that belongs to the tokens of the rank.\<close>

definition local_mask ::
  "nat \<Rightarrow> nat \<Rightarrow> 'x adv_args_scheme \<Rightarrow> shared_batch \<Rightarrow> nat \<Rightarrow> real list result" where
  "local_mask cp_size cp_rank args sb i =
     bindE (py_nth (sb_total_lengths sb) (int i)) (\<lambda>total_len.
     bindE (py_nth (sb_response_lengths sb) (int i)) (\<lambda>response_len.
     let prompt_len = total_len - int response_len in
     bindE (case sb_max_seq_lens sb of None \<Rightarrow> Inr None | Some ms \<Rightarrow> bindE (py_nth ms (int i)) (\<lambda>m. Inr (Some m))) (\<lambda>max_seq_len.
     bindE (get_logits_and_tokens_offset_with_cp (int cp_size) (int cp_rank) total_len (int response_len) (la_qkv_format args) max_seq_len)
       (\<lambda>(_, _, _, (t0, t1)).
     bindE (py_nth (sb_loss_masks sb) (int i)) (\<lambda>full_mask.
     let part = (\<lambda>t. let s = max 0 (fst t - prompt_len); e = max 0 (snd t - prompt_len) in
                   if e > s then py_slice full_mask s e else []) in
     Inr (part t0 @ part t1))))))"

definition whiten_masks ::
  "nat \<Rightarrow> nat \<Rightarrow> 'x adv_args_scheme \<Rightarrow> shared_batch \<Rightarrow> real list list \<Rightarrow> real list result" where
  "whiten_masks cp_size cp_rank args sb advantages =
     (if cp_size = 1 then bindE (raise_unless RuntimeError (sb_loss_masks sb \<noteq> [])) (\<lambda>_. Inr (concat (sb_loss_masks sb)))
      else bindE (mapE (local_mask cp_size cp_rank args sb) [0..<length advantages]) (\<lambda>chunks. Inr (concat chunks)))"

text \<open>
  The advantages of one data-parallel rank before whitening, with their masks.  A rank whose masks
  are empty does not enter the reduction; the ranks that do then wait for it for ever.
\<close>

type_synonym world = "(shared_batch \<times> (nat \<Rightarrow> rank_batch)) list"

record estimates =
  es_advantages :: "real list list"
  es_returns :: "real list list"
  es_reverse_kl :: "real list list option"

definition local_estimates ::
  "nat \<Rightarrow> nat \<Rightarrow> 'x adv_args_scheme \<Rightarrow> shared_batch \<Rightarrow> (nat \<Rightarrow> rank_batch) \<Rightarrow> estimates result" where
  "local_estimates cp_size cp_rank args sb ranks =
     bindE (estimate cp_size cp_rank args sb ranks) (\<lambda>(adv, ret, aliased).
     if la_use_opd args then
       bindE (apply_opd_kl_to_advantages args (policy_log_probs args (ranks cp_rank)) (rb_teacher_log_probs (ranks cp_rank)) adv)
         (\<lambda>(adv', kls). Inr \<lparr>es_advantages = adv', es_returns = (if aliased then adv' else ret), es_reverse_kl = kls\<rparr>)
     else Inr \<lparr>es_advantages = adv, es_returns = ret, es_reverse_kl = None\<rparr>)"

definition whiten_input ::
  "nat \<Rightarrow> nat \<Rightarrow> 'x adv_args_scheme \<Rightarrow> shared_batch \<Rightarrow> (nat \<Rightarrow> rank_batch) \<Rightarrow> (real list \<times> real list) result" where
  "whiten_input cp_size cp_rank args sb ranks =
     bindE (local_estimates cp_size cp_rank args sb ranks) (\<lambda>es.
     bindE (raise_unless RuntimeError (es_advantages es \<noteq> [])) (\<lambda>_.
     bindE (whiten_masks cp_size cp_rank args sb (es_advantages es)) (\<lambda>msk.
     bindE (assertE (msk = [] \<or> length (concat (es_advantages es)) = length msk)) (\<lambda>_.
       Inr (concat (es_advantages es), msk)))))"

definition compute_advantages_and_returns ::
  "nat \<Rightarrow> nat \<Rightarrow> nat \<Rightarrow> 'x adv_args_scheme \<Rightarrow> world \<Rightarrow> estimates result" where
  "compute_advantages_and_returns cp_size cp_rank dp_rank args world =
     bindE (py_nth world (int dp_rank)) (\<lambda>(sb, ranks).
     bindE (local_estimates cp_size cp_rank args sb ranks) (\<lambda>es.
     if la_normalize_advantages args then
       bindE (whiten_input cp_size cp_rank args sb ranks) (\<lambda>(all_advs, all_masks).
       if all_masks = [] then Inr es
       else
         bindE (mapE (\<lambda>(sb, ranks). whiten_input cp_size cp_rank args sb ranks) world) (\<lambda>inputs.
         bindE (raise_unless Diverges (\<forall>(_, msk) \<in> set inputs. msk \<noteq> [])) (\<lambda>_.
         bindE (distributed_masked_whiten inputs all_advs True (1 / 10 ^ 8)) (\<lambda>whitened.
         bindE (split_sizes (map length (es_advantages es)) whitened) (\<lambda>advantages.
           Inr (es\<lparr>es_advantages := advantages\<rparr>))))))
     else Inr es))"

end
