(* ===== verification/Losses.thy ===== *)
theory Losses
  imports Advantages
begin

text \<open>
  The loss functions of \<open>backends/megatron_utils/loss.py\<close>: corrections by importance sampling, the
  policy, value and fine-tuning losses with the numbers they report, and the scaling that undoes the
  averaging of Megatron.  Functions loaded from a path are parameters.  Terms that only keep the
  gradient connected (\<open>0 * logits.sum()\<close>) have the value zero and are left out, and so are the
  gradients.
\<close>

section \<open>Arguments and batches\<close>

record policy_args = adv_args +
  la_eps_clip :: real
  la_eps_clip_high :: real
  la_use_opsm :: bool
  la_opsm_delta :: real
  la_get_mismatch_metrics :: bool
  la_use_tis :: bool
  la_tis_clip_low :: real
  la_tis_clip :: real
  la_calculate_per_token_loss :: bool
  la_entropy_coef :: real
  la_use_kl_loss :: bool
  la_use_unbiased_kl :: bool
  la_kl_loss_coef :: real
  la_value_clip :: real
  la_loss_type :: string
  la_global_batch_size :: int

text \<open>What a micro-batch shares in the group, and what each rank holds of it.\<close>

record micro_batch =
  mb_unconcat_tokens :: "int list list"
  mb_total_lengths :: "int list"
  mb_response_lengths :: "nat list"
  mb_loss_masks :: "real list list"
  mb_max_seq_lens :: "int list option"
  mb_logits_masks :: "int list list list option"
  mb_dynamic_global_batch_size :: "int option"

record rank_micro =
  rm_advantages :: "real list list"
  rm_returns :: "real list list"
  rm_log_probs :: "real list list"
  rm_rollout_log_probs :: "real list list option"
  rm_ref_log_probs :: "real list list option"
  rm_values :: "real list list"
  rm_opd_reverse_kl :: "real list list option"

type_synonym metrics = "(string \<times> real) list"
type_synonym reducer = "real list \<Rightarrow> real result"

section \<open>Importance sampling\<close>

type_synonym tis_function =
  "real list \<Rightarrow> real list list \<Rightarrow> real list list \<Rightarrow> real list list \<Rightarrow> (real list \<times> real list list \<times> (string \<times> real list) list) result"

definition tis_with :: "(real \<Rightarrow> real) \<Rightarrow> tis_function" where
  "tis_with weight pg_loss train_log_probs rollout_log_probs loss_masks =
     bindE (torch_cat rollout_log_probs) (\<lambda>rollout.
     bindE (torch_cat train_log_probs) (\<lambda>old.
     bindE (tsub old rollout) (\<lambda>d.
     let ratio = map exp d;
         tis_abs = map (\<lambda>r. \<bar>r - 1\<bar>) ratio;
         weights = map weight ratio;
         clipfrac = map2 (\<lambda>w r. if w \<noteq> r then 1 else 0) weights ratio in
     bindE (tmul pg_loss weights) (\<lambda>loss.
       Inr (loss, loss_masks, [(''tis'', ratio), (''tis_clipfrac'', clipfrac), (''tis_abs'', tis_abs)])))))"

definition vanilla_tis_function :: "'x policy_args_scheme \<Rightarrow> tis_function" where
  "vanilla_tis_function args = tis_with (clamp (la_tis_clip_low args) (la_tis_clip args))"

definition icepop_function :: "'x policy_args_scheme \<Rightarrow> tis_function" where
  "icepop_function args = tis_with (\<lambda>r. if la_tis_clip_low args \<le> r \<and> r \<le> la_tis_clip args then r else 0)"

section \<open>The policy loss\<close>

definition mean_reducer ::
  "nat \<Rightarrow> nat \<Rightarrow> 'x policy_args_scheme \<Rightarrow> micro_batch \<Rightarrow> real list list \<Rightarrow> reducer" where
  "mean_reducer cp_size cp_rank args mb loss_masks =
     get_sum_of_sample_mean (int cp_size) (int cp_rank) (mb_total_lengths mb) (mb_response_lengths mb) loss_masks
       (la_calculate_per_token_loss args) (la_qkv_format args) (mb_max_seq_lens mb)"

definition old_log_probs_of :: "'x policy_args_scheme \<Rightarrow> rank_micro \<Rightarrow> real list list result" where
  "old_log_probs_of args rm =
     (if la_use_rollout_logprobs args
      then case rm_rollout_log_probs rm of None \<Rightarrow> Inl KeyError | Some r \<Rightarrow> Inr r
      else Inr (rm_log_probs rm))"

definition batch_log_probs ::
  "log_prob_kernel \<Rightarrow> entropy_kernel \<Rightarrow> nat \<Rightarrow> 'x policy_args_scheme \<Rightarrow> micro_batch \<Rightarrow> (nat \<Rightarrow> real rows list) \<Rightarrow> nat \<Rightarrow>
   (real list list \<times> real list list option) result"
where
  "batch_log_probs clp cent cp_size args mb logits q =
     get_log_probs_and_entropy clp cent cp_size q args logits (mb_unconcat_tokens mb) (mb_total_lengths mb)
       (map int (mb_response_lengths mb)) True (mb_max_seq_lens mb) (Some (mb_loss_masks mb)) (mb_logits_masks mb)"

text \<open>The log probabilities of whole responses, for the losses that need them.\<close>

definition full_rows ::
  "nat \<Rightarrow> nat \<Rightarrow> micro_batch \<Rightarrow> (nat \<Rightarrow> real list list result) \<Rightarrow> real list list result" where
  "full_rows cp_size cp_rank mb rows =
     bindE (group_rows cp_size rows cp_rank) (\<lambda>local_rows.
       mapE (\<lambda>(log_prob, total_length, response_length). all_gather_with_cp cp_size cp_rank log_prob total_length (int response_length))
         (zip local_rows (zip (mb_total_lengths mb) (mb_response_lengths mb))))"

definition policy_kl ::
  "string \<Rightarrow> (real list list \<times> real list list) option \<Rightarrow> real list list \<Rightarrow> real list list \<Rightarrow> real list list \<Rightarrow> real list result" where
  "policy_kl estimator full old_log_probs log_probs loss_masks =
     (if estimator = ''gspo''
      then case full of None \<Rightarrow> Inl TypeError
           | Some (full_log_probs, full_old) \<Rightarrow>
               bindE (compute_gspo_kl full_log_probs full_old log_probs loss_masks) (\<lambda>kl.
               bindE (torch_cat old_log_probs) (\<lambda>_. bindE (torch_cat log_probs) (\<lambda>_. Inr kl)))
      else bindE (torch_cat old_log_probs) (\<lambda>old. bindE (torch_cat log_probs) (\<lambda>new. tsub old new)))"

text \<open>The correction: the loss, the masks for the mean of the loss, and the metrics.\<close>

definition apply_tis ::
  "'x policy_args_scheme \<Rightarrow> tis_function option \<Rightarrow> micro_batch \<Rightarrow> rank_micro \<Rightarrow> real list \<Rightarrow>
   (real list \<times> real list list \<times> (string \<times> real list) list) result"
where
  "apply_tis args custom_tis mb rm pg_loss =
     (if la_get_mismatch_metrics args \<or> la_use_tis args
      then case rm_rollout_log_probs rm of None \<Rightarrow> Inl AssertionError
           | Some rollout \<Rightarrow>
               (case custom_tis of None \<Rightarrow> vanilla_tis_function args | Some f \<Rightarrow> f) pg_loss (rm_log_probs rm) rollout (mb_loss_masks mb)
      else Inr (pg_loss, mb_loss_masks mb, []))"

definition kl_loss_term ::
  "'x policy_args_scheme \<Rightarrow> rank_micro \<Rightarrow> reducer \<Rightarrow> real list \<Rightarrow> real list \<Rightarrow> real option result" where
  "kl_loss_term args rm reduce old_log_probs log_probs =
     (if la_use_kl_loss args then
        case rm_ref_log_probs rm of None \<Rightarrow> Inl KeyError
        | Some ref \<Rightarrow>
            bindE (torch_cat ref) (\<lambda>ref.
            bindE (if la_use_unbiased_kl args then bindE (tsub log_probs old_log_probs) (\<lambda>d. Inr (Some (map exp d))) else Inr None) (\<lambda>ratio.
            bindE (compute_approx_kl log_probs ref (la_kl_loss_type args) ratio) (\<lambda>kl.
            bindE (reduce kl) (\<lambda>k. Inr (Some k)))))
      else Inr None)"

definition option_metric :: "string \<Rightarrow> real option \<Rightarrow> metrics" where
  "option_metric name x = (case x of None \<Rightarrow> [] | Some v \<Rightarrow> [(name, v)])"

text \<open>A dictionary of metrics from assignments in their order.\<close>

definition metrics_of :: "metrics \<Rightarrow> metrics" where
  "metrics_of kvs = fold (\<lambda>(k, v). dset k v) kvs []"

definition policy_loss_function ::
  "log_prob_kernel \<Rightarrow> entropy_kernel \<Rightarrow> tis_function option \<Rightarrow> (real list list \<Rightarrow> reducer) option \<Rightarrow> nat \<Rightarrow> nat \<Rightarrow>
   'x policy_args_scheme \<Rightarrow> micro_batch \<Rightarrow> (nat \<Rightarrow> rank_micro) \<Rightarrow> (nat \<Rightarrow> real rows list) \<Rightarrow> (real \<times> metrics) result"
where
  "policy_loss_function clp cent custom_tis custom_reducer cp_size cp_rank args mb ranks logits =
     (let rm = ranks cp_rank; sum_of_sample_mean = mean_reducer cp_size cp_rank args mb (mb_loss_masks mb) in
      bindE (torch_cat (rm_advantages rm)) (\<lambda>advantages.
      bindE (old_log_probs_of args rm) (\<lambda>old_rows.
      bindE (batch_log_probs clp cent cp_size args mb logits cp_rank) (\<lambda>(rows, entropy).
      bindE (if la_use_opsm args \<or> la_advantage_estimator args = ''gspo''
             then bindE (full_rows cp_size cp_rank mb (\<lambda>q. bindE (batch_log_probs clp cent cp_size args mb logits q) (\<lambda>r. Inr (fst r)))) (\<lambda>new.
                  bindE (full_rows cp_size cp_rank mb (\<lambda>q. old_log_probs_of args (ranks q))) (\<lambda>old. Inr (Some (new, old))))
             else Inr None) (\<lambda>full.
      bindE (if la_use_opsm args
             then case full of None \<Rightarrow> Inl TypeError
                  | Some (new, old) \<Rightarrow> bindE (compute_opsm_mask (la_opsm_delta args) new old (rm_advantages rm) (mb_loss_masks mb)) (\<lambda>m. Inr (Some m))
             else Inr None) (\<lambda>opsm.
      bindE (policy_kl (la_advantage_estimator args) full old_rows rows (mb_loss_masks mb)) (\<lambda>ppo_kl.
      let old_log_probs = concat old_rows; log_probs = concat rows in
      bindE (compute_policy_loss ppo_kl advantages (la_eps_clip args) (la_eps_clip_high args) None) (\<lambda>(pg_loss, pg_clipfrac).
      bindE (case opsm of None \<Rightarrow> Inr pg_loss | Some (m, _) \<Rightarrow> tmul pg_loss m) (\<lambda>pg_loss.
      bindE (apply_tis args custom_tis mb rm pg_loss) (\<lambda>(pg_loss, masks, tis_metrics).
      let reduce = mean_reducer cp_size cp_rank args mb masks;
          pg_reduce = (case custom_reducer of None \<Rightarrow> reduce | Some f \<Rightarrow> f masks) in
      bindE (pg_reduce pg_loss) (\<lambda>pg.
      bindE (if mb_logits_masks mb = None then Inr pg
             else bindE (get_invalid_probs_loss cp_size cp_rank args (logits cp_rank) (mb_unconcat_tokens mb) (mb_total_lengths mb)
                           (map int (mb_response_lengths mb)) (mb_max_seq_lens mb) (Some (mb_loss_masks mb)) (mb_logits_masks mb)) (\<lambda>inv.
                  bindE (torch_cat inv) (\<lambda>inv. bindE (pg_reduce inv) (\<lambda>i. Inr (pg + i))))) (\<lambda>pg.
      bindE (reduce pg_clipfrac) (\<lambda>clipfrac.
      bindE (reduce ppo_kl) (\<lambda>kl_mean.
      bindE (if la_entropy_coef args > 0
             then bindE (torch_cat (case entropy of None \<Rightarrow> [] | Some e \<Rightarrow> e)) (\<lambda>e. bindE (reduce e) (\<lambda>el. Inr (pg - la_entropy_coef args * el)))
             else Inr pg) (\<lambda>loss.
      bindE (kl_loss_term args rm reduce old_log_probs log_probs) (\<lambda>kl_loss.
      let loss = (case kl_loss of None \<Rightarrow> loss | Some k \<Rightarrow> loss + la_kl_loss_coef args * k) in
      bindE (case rm_rollout_log_probs rm of None \<Rightarrow> Inr None
             | Some r \<Rightarrow> if r = [] then Inr None
                 else bindE (tsub old_log_probs (concat r)) (\<lambda>d. bindE (reduce (map abs d)) (\<lambda>x. Inr (Some x)))) (\<lambda>abs_diff.
      bindE (if la_get_mismatch_metrics args \<or> la_use_tis args
             then bindE (sum_of_sample_mean (map (\<lambda>x. exp (- x)) ppo_kl)) (\<lambda>ois.
                  bindE (mapE (\<lambda>(name, m). bindE (sum_of_sample_mean m) (\<lambda>v. Inr (name, v))) tis_metrics) (\<lambda>ms. Inr ((''ois'', ois) # ms)))
             else Inr []) (\<lambda>tis.
      bindE (case rm_opd_reverse_kl rm of None \<Rightarrow> Inr None
             | Some k \<Rightarrow> bindE (torch_cat k) (\<lambda>k. bindE (reduce k) (\<lambda>x. Inr (Some x)))) (\<lambda>opd.
        Inr (loss,
             metrics_of ([(''loss'', loss), (''pg_loss'', pg), (''pg_clipfrac'', clipfrac), (''ppo_kl'', kl_mean)] @
             option_metric ''train_rollout_logprob_abs_diff'' abs_diff @ option_metric ''kl_loss'' kl_loss @ tis @
             option_metric ''opsm_clipfrac'' (map_option snd opsm) @ option_metric ''opd_reverse_kl'' opd)))))))))))))))))))))"

section \<open>The value loss and the loss of fine-tuning\<close>

definition value_token_loss :: "real \<Rightarrow> real \<Rightarrow> real \<Rightarrow> real \<Rightarrow> real" where
  "value_token_loss clip v old ret =
     (let clipped = old + clamp (- clip) clip (v - old) in max ((clipped - ret) ^ 2) ((v - ret) ^ 2))"

definition value_loss_function ::
  "nat \<Rightarrow> nat \<Rightarrow> 'x policy_args_scheme \<Rightarrow> micro_batch \<Rightarrow> (nat \<Rightarrow> rank_micro) \<Rightarrow> (nat \<Rightarrow> real rows list) \<Rightarrow> (real \<times> metrics) result" where
  "value_loss_function cp_size cp_rank args mb ranks logits =
     (let rm = ranks cp_rank; reduce = mean_reducer cp_size cp_rank args mb (mb_loss_masks mb) in
      bindE (torch_cat (rm_values rm)) (\<lambda>old_values.
      bindE (get_values cp_size cp_rank args logits (mb_unconcat_tokens mb) (mb_total_lengths mb) (map int (mb_response_lengths mb))
               (mb_max_seq_lens mb)) (\<lambda>rows.
      bindE (torch_cat rows) (\<lambda>vals.
      bindE (torch_cat (rm_returns rm)) (\<lambda>returns.
      bindE (tsub vals old_values) (\<lambda>diff.
      let clipfrac = map (\<lambda>d. if \<bar>d\<bar> > la_value_clip args then 1 else 0) diff in
      bindE (broadcast2 (\<lambda>v old. (v, old)) vals old_values) (\<lambda>pairs.
      bindE (broadcast2 (\<lambda>(v, old) ret. value_token_loss (la_value_clip args) v old ret) pairs returns) (\<lambda>token_losses.
      bindE (reduce token_losses) (\<lambda>loss.
      bindE (reduce clipfrac) (\<lambda>c.
        Inr (loss, [(''value_loss'', loss), (''value_clipfrac'', c)])))))))))))"

definition sft_loss_function ::
  "log_prob_kernel \<Rightarrow> entropy_kernel \<Rightarrow> nat \<Rightarrow> nat \<Rightarrow> 'x policy_args_scheme \<Rightarrow> micro_batch \<Rightarrow> (nat \<Rightarrow> real rows list) \<Rightarrow> (real \<times> metrics) result" where
  "sft_loss_function clp cent cp_size cp_rank args mb logits =
     bindE (get_log_probs_and_entropy clp cent cp_size cp_rank args logits (mb_unconcat_tokens mb) (mb_total_lengths mb)
              (map int (mb_response_lengths mb)) False (mb_max_seq_lens mb) None None) (\<lambda>(rows, _).
     bindE (torch_cat rows) (\<lambda>log_probs.
     bindE (mean_reducer cp_size cp_rank args mb (mb_loss_masks mb) log_probs) (\<lambda>m.
       Inr (- m, [(''loss'', - m)]))))"

section \<open>Scaling\<close>

definition num_tokens :: "real list list \<Rightarrow> real" where
  "num_tokens loss_masks = sum_list (map (\<lambda>m. max (sum_list m) 1) loss_masks)"

record loss_parts =
  lp_loss :: real
  lp_normalizer :: real
  lp_keys :: "string list"
  lp_values :: "real list"

definition loss_function ::
  "log_prob_kernel \<Rightarrow> entropy_kernel \<Rightarrow> tis_function option \<Rightarrow> (real list list \<Rightarrow> reducer) option \<Rightarrow>
   (reducer \<Rightarrow> (real \<times> metrics) result) \<Rightarrow> nat \<Rightarrow> nat \<Rightarrow> nat \<Rightarrow>
   'x policy_args_scheme \<Rightarrow> micro_batch \<Rightarrow> (nat \<Rightarrow> rank_micro) \<Rightarrow> (nat \<Rightarrow> real rows list) \<Rightarrow> nat \<Rightarrow> loss_parts result"
where
  "loss_function clp cent custom_tis custom_reducer custom_loss cp_size cp_rank dp_size args mb ranks logits num_microbatches =
     (let tokens = num_tokens (mb_loss_masks mb);
          num_samples = real (length (mb_response_lengths mb)) in
      bindE (if la_loss_type args = ''policy_loss''
             then policy_loss_function clp cent custom_tis custom_reducer cp_size cp_rank args mb ranks logits
             else if la_loss_type args = ''value_loss'' then value_loss_function cp_size cp_rank args mb ranks logits
             else if la_loss_type args = ''sft_loss'' then sft_loss_function clp cent cp_size cp_rank args mb logits
             else if la_loss_type args = ''custom_loss'' then custom_loss (mean_reducer cp_size cp_rank args mb (mb_loss_masks mb))
             else Inl ValueError) (\<lambda>(loss, log).
      let global_batch_size = (case mb_dynamic_global_batch_size mb of None \<Rightarrow> la_global_batch_size args | Some g \<Rightarrow> g);
          per_token = la_calculate_per_token_loss args;
          loss = (if \<not> per_token
                  then loss * real num_microbatches / real_of_int global_batch_size * real (dp_size * cp_size)
                  else loss * real cp_size) in
      Inr \<lparr>lp_loss = loss, lp_normalizer = (if per_token then tokens else 1), lp_keys = map fst log,
           lp_values = (if \<not> per_token then num_samples else tokens) # map snd log\<rparr>))"

end
