(* ===== verification/Ppo_Facts.thy ===== *)
theory Ppo_Facts
  imports Ppo_Utils
begin

text \<open>
  What the estimators of \<open>ppo_utils.py\<close> compute: the loop over tokens against the closed form of the
  estimator, the chunked scan and the padded batches against the loop, context parallelism against
  one rank, and bounds on the divergences and losses.
\<close>

section \<open>The closed form of the estimator\<close>

text \<open>The sum of later errors, each discounted by the weights between.\<close>

definition gae_sum :: "(nat \<Rightarrow> real) \<Rightarrow> (nat \<Rightarrow> real) \<Rightarrow> real list \<Rightarrow> real list \<Rightarrow> nat \<Rightarrow> nat \<Rightarrow> real" where
  "gae_sum gam w rewards values T t = (\<Sum>k \<in> {t..<T}. (\<Prod>j \<in> {t..<k}. w j) * gae_delta gam rewards values T k)"

lemma gae_sum_end: "T \<le> t \<Longrightarrow> gae_sum gam w r v T t = 0"
  by (simp add: gae_sum_def)

lemma gae_sum_step:
  assumes "t < T"
  shows "gae_sum gam w r v T t = gae_delta gam r v T t + w t * gae_sum gam w r v T (Suc t)"
proof -
  have "{t..<T} = insert t {Suc t..<T}" using assms by auto
  then have "gae_sum gam w r v T t = gae_delta gam r v T t + (\<Sum>k \<in> {Suc t..<T}. (\<Prod>j \<in> {t..<k}. w j) * gae_delta gam r v T k)"
    by (simp add: gae_sum_def)
  also have "(\<Sum>k \<in> {Suc t..<T}. (\<Prod>j \<in> {t..<k}. w j) * gae_delta gam r v T k) =
    (\<Sum>k \<in> {Suc t..<T}. w t * ((\<Prod>j \<in> {Suc t..<k}. w j) * gae_delta gam r v T k))"
  proof (intro sum.cong refl)
    fix k assume "k \<in> {Suc t..<T}"
    then have "{t..<k} = insert t {Suc t..<k}" by auto
    then show "(\<Prod>j \<in> {t..<k}. w j) * gae_delta gam r v T k = w t * ((\<Prod>j \<in> {Suc t..<k}. w j) * gae_delta gam r v T k)" by simp
  qed
  finally show ?thesis by (simp add: gae_sum_def sum_distrib_left)
qed

lemma gae_fold:
  assumes "s \<le> T"
  shows "fold (\<lambda>t (lastgaelam, adv). let lastgaelam = gae_delta gam r v T t + w t * lastgaelam in
                       (lastgaelam, adv @ [lastgaelam])) (rev [s..<T]) (0, []) =
    (gae_sum gam w r v T s, map (gae_sum gam w r v T) (rev [s..<T]))"
  using assms
proof (induction "T - s" arbitrary: s)
  case 0
  then show ?case by (simp add: gae_sum_end)
next
  case (Suc n)
  then have "rev [s..<T] = rev [Suc s..<T] @ [s]" by (simp add: upt_conv_Cons)
  then show ?case using Suc gae_sum_step[of s T gam w r v] by (simp add: Let_def)
qed

lemma gae_loop_eq: "gae_loop gam w r v T = map (gae_sum gam w r v T) [0..<T]"
  by (simp add: gae_loop_def gae_fold[of 0 T, simplified] rev_map[symmetric])

lemma gae_loop_nth: "t < T \<Longrightarrow> gae_loop gam w r v T ! t = gae_sum gam w r v T t"
  and gae_loop_length [simp]: "length (gae_loop gam w r v T) = T"
  by (simp_all add: gae_loop_eq)

lemma gae_sum_cong:
  assumes "\<And>k. t \<le> k \<Longrightarrow> k < T \<Longrightarrow> gae_delta gam r v T k = gae_delta gam' r' v' T k" "\<And>k. t \<le> k \<Longrightarrow> k < T \<Longrightarrow> w k = w' k"
  shows "gae_sum gam w r v T t = gae_sum gam' w' r' v' T t"
  unfolding gae_sum_def using assms by (intro sum.cong arg_cong2[of _ _ _ _ "(*)"] prod.cong) auto

section \<open>The chunked scan\<close>

definition scan :: "real \<Rightarrow> (nat \<Rightarrow> real) \<Rightarrow> nat \<Rightarrow> real" where
  "scan w d i = (\<Sum>k \<in> {..i}. w ^ (i - k) * d k)"

lemma scan_Suc: "scan w d (Suc i) = d (Suc i) + w * scan w d i"
proof -
  have "scan w d (Suc i) = (\<Sum>k \<in> {..i}. w ^ (Suc i - k) * d k) + d (Suc i)" by (simp add: scan_def)
  also have "(\<Sum>k \<in> {..i}. w ^ (Suc i - k) * d k) = (\<Sum>k \<in> {..i}. w * (w ^ (i - k) * d k))"
    by (intro sum.cong refl) (simp add: Suc_diff_le)
  finally show ?thesis by (simp add: scan_def sum_distrib_left)
qed

text \<open>The state of the chunk before enters with the power of its distance.\<close>

lemma scan_split:
  "scan w d (n + t) = (\<Sum>k \<in> {..t}. w ^ (t - k) * d (n + k)) + (if n = 0 then 0 else w ^ (t + 1) * scan w d (n - 1))"
proof (induction t)
  case 0
  then show ?case by (cases n) (simp_all add: scan_Suc, simp add: scan_def)
next
  case (Suc t)
  have "(\<Sum>k \<in> {..Suc t}. w ^ (Suc t - k) * d (n + k)) = d (n + Suc t) + w * (\<Sum>k \<in> {..t}. w ^ (t - k) * d (n + k))"
  proof -
    have "(\<Sum>k \<in> {..t}. w ^ (Suc t - k) * d (n + k)) = (\<Sum>k \<in> {..t}. w * (w ^ (t - k) * d (n + k)))"
      by (intro sum.cong refl) (simp add: Suc_diff_le)
    then show ?thesis by (simp add: sum_distrib_left)
  qed
  then show ?case using Suc scan_Suc[of w d "n + t"] by (simp add: algebra_simps)
qed

lemma scan_kernel_power: "k \<le> t \<Longrightarrow> scan_kernel w k t = w ^ (t - k)" "t < k \<Longrightarrow> scan_kernel w k t = 0"
  by (auto simp: scan_kernel_def)

lemma scan_power_eq: "scan_power w t = w ^ (t + 1)"
  by (simp add: scan_power_def)

lemma scan_chunk_eq:
  assumes "length chunk = C" "\<And>k. k < C \<Longrightarrow> chunk ! k = d (n + k)" "0 < len" "len \<le> C"
    and "s_prev = (if n = 0 then 0 else scan w d (n - 1))"
  shows "scan_chunk w C len chunk (s_prev, out) = (scan w d (n + len - 1), out @ map (\<lambda>t. scan w d (n + t)) [0..<len])"
proof -
  have loc: "sum_list (map (\<lambda>k. chunk ! k * scan_kernel w k t) [0..<C]) = (\<Sum>k \<in> {..t}. w ^ (t - k) * d (n + k))" if "t < C" for t
  proof -
    have "sum_list (map (\<lambda>k. chunk ! k * scan_kernel w k t) [0..<C]) = (\<Sum>k < C. chunk ! k * scan_kernel w k t)"
      by (simp add: interv_sum_list_conv_sum_set_nat atLeast0LessThan)
    also have "\<dots> = (\<Sum>k \<in> {..t}. chunk ! k * scan_kernel w k t)"
      using that by (intro sum.mono_neutral_right) (auto simp: scan_kernel_power)
    also have "\<dots> = (\<Sum>k \<in> {..t}. w ^ (t - k) * d (n + k))"
      using that assms(2) by (intro sum.cong refl) (simp add: scan_kernel_power)
    finally show ?thesis .
  qed
  let ?g = "map (\<lambda>t. map (\<lambda>t. sum_list (map (\<lambda>k. chunk ! k * scan_kernel w k t) [0..<C])) [0..<C] ! t + s_prev * scan_power w t) [0..<len]"
  have g: "?g = map (\<lambda>t. scan w d (n + t)) [0..<len]"
  proof (intro map_cong refl)
    fix t assume "t \<in> set [0..<len]"
    then have t: "t < C" using assms(4) by simp
    then show "map (\<lambda>t. sum_list (map (\<lambda>k. chunk ! k * scan_kernel w k t) [0..<C])) [0..<C] ! t + s_prev * scan_power w t = scan w d (n + t)"
      using loc[OF t] scan_split[of w d n t] assms(5) by (simp add: scan_power_eq)
  qed
  have "last (map (\<lambda>t. scan w d (n + t)) [0..<len]) = scan w d (n + len - 1)"
    using assms(3) by (simp add: last_map)
  then show ?thesis unfolding scan_chunk_def Let_def prod.case g by simp
qed

lemma scan_chunks:
  assumes "0 < C" "length d = C * n" "pad < C" "m \<le> n"
  shows "fold (\<lambda>c. scan_chunk w C (if 0 < pad \<and> c = n - 1 then C - pad else C) (take C (drop (c * C) d))) [0..<m] (0, []) =
    (let len = (if m = n then C * n - pad else C * m) in
     if m = 0 then (0, []) else (scan w ((!) d) (len - 1), map (scan w ((!) d)) [0..<len]))"
  using assms(4)
proof (induction m)
  case (Suc m)
  let ?f = "\<lambda>c. scan_chunk w C (if 0 < pad \<and> c = n - 1 then C - pad else C) (take C (drop (c * C) d))"
  let ?len = "if 0 < pad \<and> m = n - 1 then C - pad else C"
  have mn: "m < n" using Suc.prems by simp
  have IH: "fold ?f [0..<m] (0, []) = (if m = 0 then 0 else scan w ((!) d) (C * m - 1), map (scan w ((!) d)) [0..<C * m])"
    using Suc.IH mn by (auto simp: Let_def)
  have mC: "m * C + C \<le> length d"
  proof -
    have "(m + 1) * C \<le> n * C" using mn by (intro mult_le_mono1) simp
    then show ?thesis using assms(2) by (simp add: algebra_simps)
  qed
  then have len: "length (take C (drop (m * C) d)) = C" by simp
  have st: "?f m (if m = 0 then 0 else scan w ((!) d) (C * m - 1), map (scan w ((!) d)) [0..<C * m]) =
    (scan w ((!) d) (m * C + ?len - 1), map (scan w ((!) d)) [0..<C * m] @ map (\<lambda>t. scan w ((!) d) (m * C + t)) [0..<?len])"
  proof (rule scan_chunk_eq[OF len])
    show "take C (drop (m * C) d) ! k = d ! (m * C + k)" if "k < C" for k
      using that nth_drop[of "m * C" d k] mC by simp
  qed (use assms(1,3) in \<open>auto simp: mult.commute\<close>)
  have cat: "map (scan w ((!) d)) [0..<C * m] @ map (\<lambda>t. scan w ((!) d) (m * C + t)) [0..<?len] = map (scan w ((!) d)) [0..<C * m + ?len]"
    by (intro nth_equalityI) (auto simp: nth_append mult.commute)
  have L: "C * m + ?len = (if Suc m = n then C * n - pad else C * Suc m)"
    using mn assms(3) by (auto simp: algebra_simps)
  have "fold ?f [0..<Suc m] (0, []) = ?f m (fold ?f [0..<m] (0, []))" by simp
  also have "\<dots> = (scan w ((!) d) (C * m + ?len - 1), map (scan w ((!) d)) [0..<C * m + ?len])"
    unfolding IH st cat by (simp only: mult.commute)
  finally show ?case unfolding L by (simp add: Let_def)
qed (simp add: Let_def)

lemma scan_reversed:
  assumes "i < T"
  shows "scan w (\<lambda>k. gae_delta gam r v T (T - 1 - k)) i = gae_sum gam (\<lambda>_. w) r v T (T - 1 - i)"
  using assms
proof (induction i)
  case 0
  then show ?case using gae_sum_step[of "T - 1" T gam "\<lambda>_. w" r v] by (simp add: scan_def gae_sum_end)
next
  case (Suc i)
  have "Suc (T - 1 - Suc i) = T - 1 - i" using Suc.prems by simp
  then show ?case using Suc gae_sum_step[of "T - 1 - Suc i" T gam "\<lambda>_. w" r v] by (simp add: scan_Suc)
qed

lemma scan_cong: "(\<And>k. k \<le> i \<Longrightarrow> d k = d' k) \<Longrightarrow> scan w d i = scan w d' i"
  unfolding scan_def by (intro sum.cong) auto

lemma chunked_row_eq:
  assumes C: "0 < C"
  shows "chunked_gae_row r v T gamma lambd C = gae_loop (\<lambda>_. gamma) (\<lambda>_. gamma * lambd) r v T"
proof -
  let ?w = "gamma * lambd" and ?D = "gae_delta (\<lambda>_. gamma) r v T"
  define pad where "pad = (if T mod C \<noteq> 0 then C - T mod C else 0)"
  define d where "d = rev (map ?D [0..<T]) @ replicate pad 0"
  have pad: "pad < C" "C dvd T + pad"
  proof -
    show "pad < C" using C by (auto simp: pad_def)
    have "T + (C - T mod C) = C * (T div C) + C" using C by (metis add.assoc le_add_diff_inverse mod_less_divisor mult_div_mod_eq order_less_imp_le)
    then have "C dvd T + (C - T mod C)" by simp
    then show "C dvd T + pad" by (auto simp: pad_def mod_eq_0_iff_dvd)
  qed
  define n where "n = (T + pad) div C"
  have n: "C * n = T + pad" using pad(2) by (simp add: n_def)
  have ld: "length d = C * n" by (simp add: d_def n)
  have run: "snd (fold (\<lambda>c. scan_chunk ?w C (if 0 < pad \<and> c = n - 1 then C - pad else C) (take C (drop (c * C) d))) [0..<n] (0, []))
    = map (scan ?w ((!) d)) [0..<T]"
    using scan_chunks[OF C ld pad(1) order_refl, of ?w] n by (cases "n = 0") (auto simp: Let_def)
  have m: "map (scan ?w ((!) d)) [0..<T] = map (\<lambda>i. gae_sum (\<lambda>_. gamma) (\<lambda>_. ?w) r v T (T - 1 - i)) [0..<T]"
  proof (intro map_cong refl)
    fix i assume "i \<in> set [0..<T]"
    then have i: "i < T" by simp
    have "scan ?w ((!) d) i = scan ?w (\<lambda>k. ?D (T - 1 - k)) i"
      using i by (intro scan_cong) (simp add: d_def nth_append rev_nth)
    then show "scan ?w ((!) d) i = gae_sum (\<lambda>_. gamma) (\<lambda>_. ?w) r v T (T - 1 - i)" using scan_reversed[OF i] by simp
  qed
  have rv: "rev (map (\<lambda>i. f (T - 1 - i)) [0..<T]) = map f [0..<T]" for f :: "nat \<Rightarrow> real"
    by (intro nth_equalityI) (auto simp: rev_nth)
  have "take T (map (scan ?w ((!) d)) [0..<T]) = map (scan ?w ((!) d)) [0..<T]" by simp
  then show ?thesis
    unfolding chunked_gae_row_def Let_def pad_def[symmetric] d_def[symmetric] n_def[symmetric] run gae_loop_eq
    using m rv by metis
qed

section \<open>Padding\<close>

lemma gae_sum_pad:
  assumes "L \<le> T" "t < L" "length r = L" "length v = L"
    and g: "\<And>k. k < L \<Longrightarrow> gam' k = gam k" "\<And>k. k < L \<Longrightarrow> w' k = w k"
  shows "gae_sum gam' w' (r @ replicate (T - L) 0) (v @ replicate (T - L) 0) T t = gae_sum gam w r v L t"
proof -
  let ?r = "r @ replicate (T - L) 0" and ?v = "v @ replicate (T - L) 0"
  have late: "gae_delta gam' ?r ?v T k = 0" if "L \<le> k" "k < T" for k
    using that assms(3,4) by (simp add: gae_delta_def nth_append Let_def)
  have early: "gae_delta gam' ?r ?v T k = gae_delta gam r v L k" if "k < L" for k
    using that assms(1,3,4) g(1) by (auto simp: gae_delta_def nth_append Let_def)
  have "gae_sum gam' w' ?r ?v T t = (\<Sum>k \<in> {t..<L}. (\<Prod>j \<in> {t..<k}. w' j) * gae_delta gam' ?r ?v T k)"
    unfolding gae_sum_def using late assms(1) by (intro sum.mono_neutral_right) auto
  also have "\<dots> = gae_sum gam w r v L t"
    unfolding gae_sum_def using early g(2) by (intro sum.cong arg_cong2[of _ _ _ _ "(*)"] prod.cong) auto
  finally show ?thesis .
qed

lemma gae_loop_pad:
  assumes "L \<le> T" "length r = L" "length v = L"
    and g: "\<And>k. k < L \<Longrightarrow> gam' k = gam k" "\<And>k. k < L \<Longrightarrow> w' k = w k"
  shows "take L (gae_loop gam' w' (r @ replicate (T - L) 0) (v @ replicate (T - L) 0) T) = gae_loop gam w r v L"
  using assms gae_sum_pad[of L T _ r v gam' gam w' w] by (intro nth_equalityI) (auto simp: gae_loop_nth)

section \<open>One sample under context parallelism\<close>

abbreviation gae :: "real \<Rightarrow> real \<Rightarrow> real list \<Rightarrow> real list \<Rightarrow> real list" where
  "gae gamma lambd r v \<equiv> gae_loop (\<lambda>_. gamma) (\<lambda>_. gamma * lambd) r v (length v)"

lemma piece_one [simp]: "piece (Suc 0) r P xs = xs"
  by (simp add: piece_def)

lemma slice_piece:
  assumes "0 < cp" "length xs = R"
  shows "slice_log_prob_with_cp (int cp) (int r) xs (P + int R) (int R) ''thd'' m = Inr (piece cp r P xs)"
  using slice_log_prob_piece[OF assms(1), of r xs P m] assms(2) by simp

lemma gather_piece:
  assumes "0 < cp" "rank < cp" "1 \<le> P" "length xs = R"
  shows "all_gather_with_cp cp rank (\<lambda>r. piece cp r P xs) (P + int R) (int R) = Inr xs"
  using gather_pieces[OF assms(1-3), of xs] assms(4) by simp

lemma single_gae:
  assumes "0 < cp" "rank < cp" "1 \<le> P" "length r = length v"
  shows "get_advantages_and_returns cp rank (P + int (length v)) (length v) (\<lambda>q. piece cp q P v) (\<lambda>q. piece cp q P r) gamma lambd =
    Inr (piece cp rank P (gae gamma lambd r v), piece cp rank P (map2 (+) (gae gamma lambd r v) v))"
proof -
  let ?a = "gae gamma lambd r v"
  have g: "all_gather_with_cp cp rank (\<lambda>q. piece cp q P r) (P + int (length v)) (int (length v)) = Inr r"
    "all_gather_with_cp cp rank (\<lambda>q. piece cp q P v) (P + int (length v)) (int (length v)) = Inr v"
    using gather_piece[OF assms(1-3), of r "length v"] gather_piece[OF assms(1-3), of v "length v"] assms(4) by simp_all
  have sl: "slice_log_prob_with_cp (int cp) (int rank) xs (P + int (length v)) (int (length v)) ''thd'' None = Inr (piece cp rank P xs)"
    if "length xs = length v" for xs :: "real list"
    using slice_piece[OF assms(1) that] by simp
  show ?thesis
  proof (cases "1 < cp")
    case True
    then show ?thesis unfolding get_advantages_and_returns_def g bindE_simps using sl assms(4) by (simp add: Let_def)
  next
    case False
    then have "cp = Suc 0" using assms(1) by simp
    then show ?thesis unfolding get_advantages_and_returns_def g bindE_simps using assms(4) by (simp add: Let_def)
  qed
qed

section \<open>Batches\<close>

text \<open>A sample of a batch: the tokens of its prompt, its values and its rewards.\<close>

record gae_sample =
  gs_prompt :: int
  gs_values :: "real list"
  gs_rewards :: "real list"

abbreviation gs_length :: "gae_sample \<Rightarrow> nat" where
  "gs_length x \<equiv> length (gs_values x)"

abbreviation gs_total :: "gae_sample \<Rightarrow> int" where
  "gs_total x \<equiv> gs_prompt x + int (gs_length x)"

abbreviation gs_adv :: "real \<Rightarrow> real \<Rightarrow> gae_sample \<Rightarrow> real list" where
  "gs_adv gamma lambd x \<equiv> gae gamma lambd (gs_rewards x) (gs_values x)"

definition gae_ok :: "gae_sample list \<Rightarrow> bool" where
  "gae_ok ss \<longleftrightarrow> ss \<noteq> [] \<and> (\<forall>x \<in> set ss. 1 \<le> gs_prompt x \<and> 0 < gs_length x \<and> length (gs_rewards x) = gs_length x)"

lemma gather_rows_pieces:
  assumes "0 < cp" "rank < cp" "\<And>x. x \<in> set ss \<Longrightarrow> 1 \<le> P x \<and> length (f x) = n x"
  shows "gather_rows cp rank (map (\<lambda>x. P x + int (n x)) ss) (map n ss) (map (\<lambda>x q. piece cp q (P x) (f x)) ss) = Inr (map f ss)"
proof (cases "1 < cp")
  case True
  have "mapE (\<lambda>(t, r, v). all_gather_with_cp cp rank v t (int r))
      (zip (map (\<lambda>x. P x + int (n x)) ss) (zip (map n ss) (map (\<lambda>x q. piece cp q (P x) (f x)) ss))) = Inr (map f ss)"
    using assms(3)
  proof (induction ss)
    case (Cons a ss)
    then show ?case using gather_piece[OF assms(1,2), of "P a" "f a" "n a"] by simp
  qed simp
  then show ?thesis using True by (simp add: gather_rows_def)
next
  case False
  then have "cp = Suc 0" using assms(1) by simp
  then show ?thesis by (simp add: gather_rows_def)
qed

lemma slice_rows_pieces:
  assumes "0 < cp" "\<And>x. x \<in> set ss \<Longrightarrow> length (f x) = n x"
  shows "slice_rows cp rank (map (\<lambda>x. P x + int (n x)) ss) (map n ss) (map f ss) = Inr (map (\<lambda>x. piece cp rank (P x) (f x)) ss)"
  using assms(2) unfolding slice_rows_def
proof (induction ss)
  case (Cons a ss)
  then show ?case using slice_piece[OF assms(1), of "f a" "n a" rank "P a" None] by simp
qed simp

lemma fill_rows:
  assumes "\<And>x. x \<in> set ss \<Longrightarrow> length (f x) = g x"
  shows "mapE (\<lambda>i. bindE (py_nth (map f ss) (int i)) (\<lambda>x. let L = map g ss ! i in assign_prefix width L (take L x))) [0..<length ss] =
    Inr (map (\<lambda>x. f x @ replicate (width - g x) 0) ss)"
proof -
  have "mapE (\<lambda>i. bindE (py_nth (map f ss) (int i)) (\<lambda>x. let L = map g ss ! i in assign_prefix width L (take L x))) [0..<length ss] =
    Inr (map (\<lambda>i. f (ss ! i) @ replicate (width - g (ss ! i)) 0) [0..<length ss])"
    using assms by (intro mapE_Inr) (simp add: Let_def assign_prefix_def)
  also have "map (\<lambda>i. f (ss ! i) @ replicate (width - g (ss ! i)) 0) [0..<length ss] = map (\<lambda>x. f x @ replicate (width - g x) 0) ss"
    by (intro nth_equalityI) auto
  finally show ?thesis .
qed

lemma map2_same: "map2 f (map g xs) (map h xs) = map (\<lambda>x. f (g x) (h x)) xs"
  by (induction xs) auto

lemma padded_length:
  assumes "\<And>x. x \<in> set ss \<Longrightarrow> length (f x) \<le> n"
  shows "\<forall>y \<in> set (map (\<lambda>x. f x @ replicate (n - length (f x)) z) ss). length y = n"
  using assms by simp

lemma batch_gae:
  assumes cp: "0 < cp" "rank < cp" and ss: "gae_ok ss"
  shows "get_advantages_and_returns_batch cp rank (map gs_total ss) (map gs_length ss)
      (map (\<lambda>x q. piece cp q (gs_prompt x) (gs_values x)) ss) (map (\<lambda>x q. piece cp q (gs_prompt x) (gs_rewards x)) ss) gamma lambd chunked =
    Inr (map (\<lambda>x. piece cp rank (gs_prompt x) (gs_adv gamma lambd x)) ss,
         map (\<lambda>x. piece cp rank (gs_prompt x) (map2 (+) (gs_adv gamma lambd x) (gs_values x))) ss)"
proof -
  let ?tot = "map gs_total ss" and ?resp = "map gs_length ss"
  let ?T = "Max (set ?resp)"
  have ok: "1 \<le> gs_prompt x" "0 < gs_length x" "length (gs_rewards x) = gs_length x" if "x \<in> set ss" for x
    using ss that by (auto simp: gae_ok_def)
  have ne: "ss \<noteq> []" using ss by (simp add: gae_ok_def)
  have gv: "gather_rows cp rank ?tot ?resp (map (\<lambda>x q. piece cp q (gs_prompt x) (gs_values x)) ss) = Inr (map gs_values ss)"
    and gr: "gather_rows cp rank ?tot ?resp (map (\<lambda>x q. piece cp q (gs_prompt x) (gs_rewards x)) ss) = Inr (map gs_rewards ss)"
    using ok by (simp_all add: gather_rows_pieces[OF cp])
  let ?pv = "map (\<lambda>x. gs_values x @ replicate (?T - gs_length x) 0) ss" and ?pr = "map (\<lambda>x. gs_rewards x @ replicate (?T - gs_length x) 0) ss"
  have fv: "mapE (\<lambda>i. bindE (py_nth (map gs_values ss) (int i)) (\<lambda>x. let L = ?resp ! i in assign_prefix ?T L (take L x))) [0..<length ss] = Inr ?pv"
    by (rule fill_rows) simp
  have fr: "mapE (\<lambda>i. bindE (py_nth (map gs_rewards ss) (int i)) (\<lambda>x. let L = ?resp ! i in assign_prefix ?T L (take L x))) [0..<length ss] = Inr ?pr"
    by (rule fill_rows) (use ok in simp)
  have LT: "gs_length x \<le> ?T" if "x \<in> set ss" for x
    using that by (intro Max_ge) simp_all
  have T0: "?T \<noteq> 0"
  proof -
    obtain x where x: "x \<in> set ss" using ne by (cases ss) auto
    show ?thesis using LT[OF x] ok(2)[OF x] by linarith
  qed
  have lv: "\<forall>y \<in> set ?pv. length y = ?T" by (rule padded_length[OF LT])
  let ?g = "\<lambda>x. gae_loop (\<lambda>_. gamma) (\<lambda>_. gamma * lambd) (gs_rewards x @ replicate (?T - gs_length x) 0) (gs_values x @ replicate (?T - gs_length x) 0) ?T"
  let ?ret = "\<lambda>x. map2 (+) (?g x) (gs_values x @ replicate (?T - gs_length x) 0)"
  have V: "vanilla_gae ?pr ?pv ?T gamma lambd = Inr (map ?g ss, map ?ret ss)"
    using T0 unfolding vanilla_gae_def Let_def map2_same by simp
  have K: "chunked_gae ?pr ?pv ?T gamma lambd 128 = Inr (map ?g ss, map ?ret ss)"
    unfolding chunked_gae_def Let_def chunked_row_eq[of 128, simplified] map2_same using lv by simp
  have tg: "take (gs_length x) (?g x) = gs_adv gamma lambd x" if "x \<in> set ss" for x
    using gae_loop_pad[OF LT[OF that]] ok(3)[OF that] by blast
  have tr: "take (gs_length x) (?ret x) = map2 (+) (gs_adv gamma lambd x) (gs_values x)" if "x \<in> set ss" for x
    using tg[OF that] by (simp add: take_map take_zip)
  have cut: "map2 (\<lambda>L row. take L row) ?resp (map f ss) = map (\<lambda>x. take (gs_length x) (f x)) ss" for f :: "gae_sample \<Rightarrow> real list"
    by (rule map2_same)
  have ca: "map (\<lambda>x. take (gs_length x) (?g x)) ss = map (gs_adv gamma lambd) ss" using tg by (intro map_cong refl)
  have cr: "map (\<lambda>x. take (gs_length x) (?ret x)) ss = map (\<lambda>x. map2 (+) (gs_adv gamma lambd x) (gs_values x)) ss" using tr by (intro map_cong refl)
  have sa: "slice_rows cp rank ?tot ?resp (map (gs_adv gamma lambd) ss) = Inr (map (\<lambda>x. piece cp rank (gs_prompt x) (gs_adv gamma lambd x)) ss)"
    and sr: "slice_rows cp rank ?tot ?resp (map (\<lambda>x. map2 (+) (gs_adv gamma lambd x) (gs_values x)) ss) =
      Inr (map (\<lambda>x. piece cp rank (gs_prompt x) (map2 (+) (gs_adv gamma lambd x) (gs_values x))) ss)"
    by (rule slice_rows_pieces[OF cp(1)], simp)+
  have G: "(if \<not> chunked then vanilla_gae ?pr ?pv ?T gamma lambd else chunked_gae ?pr ?pv ?T gamma lambd 128) = Inr (map ?g ss, map ?ret ss)"
    using V K by simp
  show ?thesis
  proof (cases "1 < cp")
    case True
    then show ?thesis
      using ne unfolding get_advantages_and_returns_batch_def Let_def gv gr bindE_simps length_map
        fv[unfolded Let_def] fr[unfolded Let_def] G prod.case cut ca cr sa sr by simp
  next
    case False
    then have "cp = Suc 0" using cp by simp
    then show ?thesis
      using ne gv gr unfolding get_advantages_and_returns_batch_def Let_def gv gr bindE_simps length_map
        fv[unfolded Let_def] fr[unfolded Let_def] G prod.case cut ca cr by simp
  qed
qed

section \<open>Several turns in one response\<close>

text \<open>A sample of the version for several turns: rewards and discounts at its trained tokens.\<close>

record turn_sample =
  ts_prompt :: int
  ts_mask :: "real list"
  ts_values :: "real list"
  ts_rewards :: "real list"
  ts_gammas :: "real list"
  ts_lambdas :: "real list"

abbreviation ts_length :: "turn_sample \<Rightarrow> nat" where
  "ts_length x \<equiv> length (ts_values x)"

abbreviation ts_total :: "turn_sample \<Rightarrow> int" where
  "ts_total x \<equiv> ts_prompt x + int (ts_length x)"

definition trained :: "real list \<Rightarrow> nat" where
  "trained m = length (filter (\<lambda>x. x = 1) m)"

definition turn_ok :: "turn_sample \<Rightarrow> bool" where
  "turn_ok x \<longleftrightarrow> 1 \<le> ts_prompt x \<and> length (ts_mask x) = ts_length x \<and> length (ts_rewards x) = trained (ts_mask x) \<and>
     length (ts_gammas x) = trained (ts_mask x) \<and> length (ts_lambdas x) = trained (ts_mask x)"

text \<open>The estimator on the trained tokens alone, put back where they stand.\<close>

definition turn_adv :: "turn_sample \<Rightarrow> real list" where
  "turn_adv x = gae_loop ((!) (ts_gammas x)) ((!) (ts_lambdas x)) (ts_rewards x) (compress (ts_mask x) (ts_values x)) (trained (ts_mask x))"

lemma compress_length: "length m = length xs \<Longrightarrow> length (compress m xs) = trained m"
  unfolding compress_def trained_def
  by (induction m xs rule: list_induct2) auto

lemma scatter_length [simp]: "length (scatter m ys) = length m"
  by (induction m ys rule: scatter.induct) auto

lemma scatter_take: "trained m \<le> length ys \<Longrightarrow> scatter m (take (trained m) ys) = scatter m ys"
proof (induction m ys rule: scatter.induct)
  case (2 m ms ys)
  then show ?case by (cases ys) (auto simp: trained_def)
qed simp

lemma compress_scatter: "length ys = trained m \<Longrightarrow> compress m (scatter m ys) = ys"
proof (induction m ys rule: scatter.induct)
  case (2 m ms ys)
  then show ?case by (cases ys) (auto simp: trained_def compress_def)
qed (simp add: trained_def compress_def)

lemma scatter_off: "j < length m \<Longrightarrow> m ! j \<noteq> 1 \<Longrightarrow> scatter m ys ! j = 0"
proof (induction m ys arbitrary: j rule: scatter.induct)
  case (2 m ms ys)
  then show ?case by (cases j) auto
qed simp

lemma assign_prefix_same: "length x = L \<Longrightarrow> assign_prefix width L x = Inr (x @ replicate (width - L) 0)"
  by (simp add: assign_prefix_def)

lemma turn_row_eq:
  assumes "turn_ok x"
  shows "turn_row width (ts_mask x) (ts_values x) (ts_rewards x) (ts_gammas x) (ts_lambdas x) =
    (let pad = (\<lambda>y. y @ replicate (width - trained (ts_mask x)) 0) in
     Inr (pad (compress (ts_mask x) (ts_values x)), pad (ts_rewards x), pad (ts_gammas x), pad (ts_lambdas x)))"
  using assms compress_length[of "ts_mask x" "ts_values x"]
  unfolding turn_row_def trained_def[symmetric] Let_def turn_ok_def by (simp add: assign_prefix_same)

lemma turn_loop_pad:
  assumes "turn_ok x" "trained (ts_mask x) \<le> T"
  shows "take (trained (ts_mask x)) (gae_loop ((!) (ts_gammas x @ replicate (T - trained (ts_mask x)) 0))
      ((!) (ts_lambdas x @ replicate (T - trained (ts_mask x)) 0)) (ts_rewards x @ replicate (T - trained (ts_mask x)) 0)
      (compress (ts_mask x) (ts_values x) @ replicate (T - trained (ts_mask x)) 0) T) = turn_adv x"
  unfolding turn_adv_def using assms(1)
  by (intro gae_loop_pad[OF assms(2)]) (auto simp: turn_ok_def compress_length nth_append)

lemma batch1_turns:
  assumes cp: "0 < cp" "rank < cp" and ss: "ss \<noteq> []" "\<And>x. x \<in> set ss \<Longrightarrow> turn_ok x" "\<exists>x \<in> set ss. 0 < trained (ts_mask x)"
  shows "get_advantages_and_returns_batch1 cp rank (map ts_total ss) (map ts_length ss)
      (map (\<lambda>x q. piece cp q (ts_prompt x) (ts_values x)) ss) (map ts_rewards ss) (map ts_gammas ss) (map ts_lambdas ss) (map ts_mask ss) =
    Inr (map (\<lambda>x. piece cp rank (ts_prompt x) (scatter (ts_mask x) (turn_adv x))) ss,
         map (\<lambda>x. piece cp rank (ts_prompt x)
                     (scatter (ts_mask x) (map2 (+) (turn_adv x) (compress (ts_mask x) (ts_values x))))) ss)"
proof -
  let ?n = "\<lambda>x. trained (ts_mask x)"
  define T where "T = Max (set (map trained (map ts_mask ss)))"
  have LT: "?n x \<le> T" if "x \<in> set ss" for x
    unfolding T_def using that by (intro Max_ge) simp_all
  have T0: "T \<noteq> 0" using ss(3) LT by fastforce
  let ?pad = "\<lambda>x y. y @ replicate (T - ?n x) (0 :: real)"
  let ?row = "\<lambda>x. (?pad x (compress (ts_mask x) (ts_values x)), ?pad x (ts_rewards x), ?pad x (ts_gammas x), ?pad x (ts_lambdas x))"
  have gv: "gather_rows cp rank (map ts_total ss) (map ts_length ss) (map (\<lambda>x q. piece cp q (ts_prompt x) (ts_values x)) ss) = Inr (map ts_values ss)"
    using ss(2) by (intro gather_rows_pieces[OF cp]) (simp add: turn_ok_def)
  have rows: "mapE (\<lambda>i. bindE (py_nth (map ts_mask ss) (int i)) (\<lambda>m. bindE (py_nth (map ts_values ss) (int i)) (\<lambda>v.
      bindE (py_nth (map ts_gammas ss) (int i)) (\<lambda>g. bindE (py_nth (map ts_lambdas ss) (int i)) (\<lambda>l.
        turn_row T m v (map ts_rewards ss ! i) g l))))) [0..<length ss] = Inr (map ?row ss)"
  proof -
    have "mapE (\<lambda>i. bindE (py_nth (map ts_mask ss) (int i)) (\<lambda>m. bindE (py_nth (map ts_values ss) (int i)) (\<lambda>v.
        bindE (py_nth (map ts_gammas ss) (int i)) (\<lambda>g. bindE (py_nth (map ts_lambdas ss) (int i)) (\<lambda>l.
          turn_row T m v (map ts_rewards ss ! i) g l))))) [0..<length ss] = Inr (map (\<lambda>i. ?row (ss ! i)) [0..<length ss])"
      using ss(2) by (intro mapE_Inr) (simp add: turn_row_eq Let_def)
    also have "map (\<lambda>i. ?row (ss ! i)) [0..<length ss] = map ?row ss" by (intro nth_equalityI) auto
    finally show ?thesis .
  qed
  let ?A = "\<lambda>x. gae_loop ((!) (?pad x (ts_gammas x))) ((!) (?pad x (ts_lambdas x))) (?pad x (ts_rewards x)) (?pad x (compress (ts_mask x) (ts_values x))) T"
  have adv: "map (\<lambda>(v, r, g, l). gae_loop ((!) g) ((!) l) r v T) (map ?row ss) = map ?A ss" by simp
  have ret: "map2 (\<lambda>a (v, _). map2 (+) a v) (map ?A ss) (map ?row ss) = map (\<lambda>x. map2 (+) (?A x) (?pad x (compress (ts_mask x) (ts_values x)))) ss"
    by (simp add: map2_same)
  have put: "mapE (\<lambda>i. let m = map ts_mask ss ! i in
      bindE (raise_unless IndexError (length m = map ts_length ss ! i)) (\<lambda>_. Inr (scatter m (map f ss ! i)))) [0..<length ss] =
    Inr (map (\<lambda>x. scatter (ts_mask x) (f x)) ss)" for f
  proof -
    have "mapE (\<lambda>i. let m = map ts_mask ss ! i in
      bindE (raise_unless IndexError (length m = map ts_length ss ! i)) (\<lambda>_. Inr (scatter m (map f ss ! i)))) [0..<length ss] =
      Inr (map (\<lambda>i. scatter (ts_mask (ss ! i)) (f (ss ! i))) [0..<length ss])"
      using ss(2) by (intro mapE_Inr) (simp add: Let_def turn_ok_def)
    also have "map (\<lambda>i. scatter (ts_mask (ss ! i)) (f (ss ! i))) [0..<length ss] = map (\<lambda>x. scatter (ts_mask x) (f x)) ss"
      by (intro nth_equalityI) auto
    finally show ?thesis .
  qed
  have tk: "scatter (ts_mask x) (?A x) = scatter (ts_mask x) (turn_adv x)" if "x \<in> set ss" for x
    using scatter_take[of "ts_mask x" "?A x"] turn_loop_pad[OF ss(2)[OF that] LT[OF that]] LT[OF that] by simp
  have tr: "scatter (ts_mask x) (map2 (+) (?A x) (?pad x (compress (ts_mask x) (ts_values x)))) =
      scatter (ts_mask x) (map2 (+) (turn_adv x) (compress (ts_mask x) (ts_values x)))" if x: "x \<in> set ss" for x
  proof -
    have len: "length (compress (ts_mask x) (ts_values x)) = ?n x" using ss(2)[OF x] by (intro compress_length) (simp add: turn_ok_def)
    have "take (?n x) (map2 (+) (?A x) (?pad x (compress (ts_mask x) (ts_values x)))) =
      map2 (+) (turn_adv x) (compress (ts_mask x) (ts_values x))"
      using turn_loop_pad[OF ss(2)[OF x] LT[OF x]] len by (simp add: take_map take_zip)
    then show ?thesis
      using scatter_take[of "ts_mask x" "map2 (+) (?A x) (?pad x (compress (ts_mask x) (ts_values x)))"] LT[OF x] len by simp
  qed
  have ca: "map (\<lambda>x. scatter (ts_mask x) (?A x)) ss = map (\<lambda>x. scatter (ts_mask x) (turn_adv x)) ss" using tk by (intro map_cong refl)
  have cr: "map (\<lambda>x. scatter (ts_mask x) (map2 (+) (?A x) (?pad x (compress (ts_mask x) (ts_values x))))) ss =
      map (\<lambda>x. scatter (ts_mask x) (map2 (+) (turn_adv x) (compress (ts_mask x) (ts_values x)))) ss" using tr by (intro map_cong refl)
  have sl: "slice_rows cp rank (map ts_total ss) (map ts_length ss) (map (\<lambda>x. scatter (ts_mask x) (f x)) ss) =
      Inr (map (\<lambda>x. piece cp rank (ts_prompt x) (scatter (ts_mask x) (f x))) ss)" for f
    using ss(2) by (intro slice_rows_pieces[OF cp(1)]) (simp add: turn_ok_def)
  have ne: "map ts_mask ss \<noteq> []" "(length ss \<noteq> 0) = True" using ss(1) by simp_all
  show ?thesis
  proof (cases "1 < cp")
    case True
    then show ?thesis
      using ne T0 unfolding get_advantages_and_returns_batch1_def trained_def[symmetric] Let_def gv bindE_simps length_map
        T_def[symmetric] rows adv ret put[unfolded Let_def] ca cr sl by simp
  next
    case False
    then have "cp = Suc 0" using cp by simp
    then show ?thesis
      using ne T0 unfolding get_advantages_and_returns_batch1_def trained_def[symmetric] Let_def gv bindE_simps length_map
        T_def[symmetric] rows adv ret put[unfolded Let_def] ca cr sl by simp
  qed
qed

end
