(* ===== verification/Ppo_Rules.thy ===== *)
theory Ppo_Rules
  imports Ppo_Facts
begin

text \<open>
  The properties of \<open>ppo_utils.py\<close>: the chunked scan is the loop, context parallelism and padding do
  not change an advantage, the bounds of divergences and losses, the entropy of a split vocabulary
  and its gradient, and chunked log probabilities.
\<close>

section \<open>Advantages\<close>

text \<open>C14. The chunked scan over reversed errors returns what the loop over the tokens returns, for every
  chunk size, a partial last chunk included.\<close>

theorem chunked_is_vanilla:
  assumes "0 < C" "T \<noteq> 0" "length values = length rewards" "\<forall>v \<in> set values. length v = T"
  shows "chunked_gae rewards values T gamma lambd C = vanilla_gae rewards values T gamma lambd"
  using assms by (simp add: chunked_gae_def vanilla_gae_def chunked_row_eq Let_def)

theorem chunked_is_vanilla_witness:
  "chunked_gae [[0, 0, 1]] [[1, 2, 3]] 3 1 (1/2) 2 = vanilla_gae [[0, 0, 1]] [[1, 2, 3]] 3 1 (1/2)"
  by (rule chunked_is_vanilla) simp_all

text \<open>C15. With the tensors of a response split over the ranks of a context-parallel group, every rank gets its
  piece of the discounted sums of the temporal-difference errors of the whole response, and its piece
  of these plus the values.\<close>

theorem advantages_of_whole_response:
  assumes "0 < cp" "rank < cp" "1 \<le> P" "length r = length v"
    and A: "A = map (\<lambda>t. \<Sum>k \<in> {t..<length v}. (gamma * lambd) ^ (k - t) *
                 (r ! k + gamma * (if k + 1 < length v then v ! (k + 1) else 0) - v ! k)) [0..<length v]"
  shows "get_advantages_and_returns cp rank (P + int (length v)) (length v) (\<lambda>q. piece cp q P v) (\<lambda>q. piece cp q P r) gamma lambd =
    Inr (piece cp rank P A, piece cp rank P (map2 (+) A v))"
proof -
  have "gae gamma lambd r v = A"
    unfolding A gae_loop_eq gae_sum_def by (simp add: gae_delta_def Let_def)
  then show ?thesis using single_gae[OF assms(1-4), of gamma lambd] by simp
qed

theorem advantages_of_whole_response_witness:
  "get_advantages_and_returns 2 1 (3 + int (length [1, 2 :: real])) (length [1, 2 :: real]) (\<lambda>q. piece 2 q 3 [1, 2]) (\<lambda>q. piece 2 q 3 [0, 1]) 1 1 =
    Inr (piece 2 1 3 [0, -1], piece 2 1 3 [1, 1])"
  using advantages_of_whole_response[of 2 1 3 "[0, 1]" "[1, 2]" "[0, -1]" 1 1] by (simp add: upt_rec numeral_2_eq_2)

text \<open>C16. A batch, padded to its longest response and computed by the loop or by the chunked scan, gives each
  sample the advantages and returns that it gets alone.\<close>

theorem batch_is_single:
  assumes "0 < cp" "rank < cp" "gae_ok ss"
  shows "get_advantages_and_returns_batch cp rank (map gs_total ss) (map gs_length ss)
      (map (\<lambda>x q. piece cp q (gs_prompt x) (gs_values x)) ss) (map (\<lambda>x q. piece cp q (gs_prompt x) (gs_rewards x)) ss) gamma lambd chunked =
    bindE (mapE (\<lambda>x. get_advantages_and_returns cp rank (gs_total x) (gs_length x)
        (\<lambda>q. piece cp q (gs_prompt x) (gs_values x)) (\<lambda>q. piece cp q (gs_prompt x) (gs_rewards x)) gamma lambd) ss)
      (\<lambda>rs. Inr (map fst rs, map snd rs))"
proof -
  have "mapE (\<lambda>x. get_advantages_and_returns cp rank (gs_total x) (gs_length x)
        (\<lambda>q. piece cp q (gs_prompt x) (gs_values x)) (\<lambda>q. piece cp q (gs_prompt x) (gs_rewards x)) gamma lambd) ss =
    Inr (map (\<lambda>x. (piece cp rank (gs_prompt x) (gs_adv gamma lambd x),
                   piece cp rank (gs_prompt x) (map2 (+) (gs_adv gamma lambd x) (gs_values x)))) ss)"
    using assms by (intro mapE_Inr) (simp add: single_gae gae_ok_def)
  then show ?thesis using batch_gae[OF assms, of gamma lambd chunked] by (simp add: comp_def)
qed

definition two_samples :: "gae_sample list" where
  "two_samples = [\<lparr>gs_prompt = 2, gs_values = [1, 2], gs_rewards = [0, 1]\<rparr>, \<lparr>gs_prompt = 1, gs_values = [1], gs_rewards = [1]\<rparr>]"

theorem batch_is_single_witness:
  "get_advantages_and_returns_batch 2 0 (map gs_total two_samples) (map gs_length two_samples)
      (map (\<lambda>x q. piece 2 q (gs_prompt x) (gs_values x)) two_samples) (map (\<lambda>x q. piece 2 q (gs_prompt x) (gs_rewards x)) two_samples) 1 1 True =
    bindE (mapE (\<lambda>x. get_advantages_and_returns 2 0 (gs_total x) (gs_length x)
        (\<lambda>q. piece 2 q (gs_prompt x) (gs_values x)) (\<lambda>q. piece 2 q (gs_prompt x) (gs_rewards x)) 1 1) two_samples)
      (\<lambda>rs. Inr (map fst rs, map snd rs))"
  by (rule batch_is_single) (simp_all add: gae_ok_def two_samples_def)

text \<open>C17. For a response of several turns, the advantages and returns of the trained tokens are those of these
  tokens alone, one behind the other, each with its own discounts, and every other token has zero.\<close>

theorem turns_trained_alone:
  assumes "0 < cp" "rank < cp" "\<forall>x \<in> set ss. turn_ok x" "\<exists>x \<in> set ss. 0 < trained (ts_mask x)"
  shows "\<exists>A R. get_advantages_and_returns_batch1 cp rank (map ts_total ss) (map ts_length ss)
      (map (\<lambda>x q. piece cp q (ts_prompt x) (ts_values x)) ss) (map ts_rewards ss) (map ts_gammas ss) (map ts_lambdas ss) (map ts_mask ss) =
      Inr (map (\<lambda>x. piece cp rank (ts_prompt x) (A x)) ss, map (\<lambda>x. piece cp rank (ts_prompt x) (R x)) ss) \<and>
    (\<forall>x \<in> set ss. length (A x) = ts_length x \<and> length (R x) = ts_length x \<and>
       compress (ts_mask x) (A x) = turn_adv x \<and>
       compress (ts_mask x) (R x) = map2 (+) (turn_adv x) (compress (ts_mask x) (ts_values x)) \<and>
       (\<forall>j < ts_length x. ts_mask x ! j \<noteq> 1 \<longrightarrow> A x ! j = 0 \<and> R x ! j = 0))"
proof (intro exI conjI)
  let ?A = "\<lambda>x. scatter (ts_mask x) (turn_adv x)"
  let ?R = "\<lambda>x. scatter (ts_mask x) (map2 (+) (turn_adv x) (compress (ts_mask x) (ts_values x)))"
  show "get_advantages_and_returns_batch1 cp rank (map ts_total ss) (map ts_length ss)
      (map (\<lambda>x q. piece cp q (ts_prompt x) (ts_values x)) ss) (map ts_rewards ss) (map ts_gammas ss) (map ts_lambdas ss) (map ts_mask ss) =
      Inr (map (\<lambda>x. piece cp rank (ts_prompt x) (?A x)) ss, map (\<lambda>x. piece cp rank (ts_prompt x) (?R x)) ss)"
    using assms by (intro batch1_turns) auto
  have len: "length (turn_adv x) = trained (ts_mask x)" for x by (simp add: turn_adv_def)
  have cl: "length (compress (ts_mask x) (ts_values x)) = trained (ts_mask x)" if "x \<in> set ss" for x
    using assms(3) that by (intro compress_length) (simp add: turn_ok_def)
  show "\<forall>x \<in> set ss. length (?A x) = ts_length x \<and> length (?R x) = ts_length x \<and> compress (ts_mask x) (?A x) = turn_adv x \<and>
       compress (ts_mask x) (?R x) = map2 (+) (turn_adv x) (compress (ts_mask x) (ts_values x)) \<and>
       (\<forall>j < ts_length x. ts_mask x ! j \<noteq> 1 \<longrightarrow> ?A x ! j = 0 \<and> ?R x ! j = 0)"
    using assms(3) len cl by (auto simp: turn_ok_def compress_scatter scatter_off)
qed

definition two_turns :: turn_sample where
  "two_turns = \<lparr>ts_prompt = 2, ts_mask = [1, 0, 1], ts_values = [1, 7, 2], ts_rewards = [0, 1], ts_gammas = [1, 1], ts_lambdas = [1, 1]\<rparr>"

theorem turns_trained_alone_witness:
  "\<exists>A R. get_advantages_and_returns_batch1 1 0 (map ts_total [two_turns]) (map ts_length [two_turns])
      (map (\<lambda>x q. piece 1 q (ts_prompt x) (ts_values x)) [two_turns]) (map ts_rewards [two_turns]) (map ts_gammas [two_turns])
      (map ts_lambdas [two_turns]) (map ts_mask [two_turns]) =
    Inr (map (\<lambda>x. piece 1 0 (ts_prompt x) (A x)) [two_turns], map (\<lambda>x. piece 1 0 (ts_prompt x) (R x)) [two_turns]) \<and>
    compress [1, 0, 1] (A two_turns) = [0, -1] \<and> A two_turns ! 1 = 0"
proof -
  have ok: "turn_ok two_turns" "trained (ts_mask two_turns) = 2" by (simp_all add: turn_ok_def trained_def two_turns_def)
  have t: "turn_adv two_turns = [0, -1]"
    by (simp add: turn_adv_def two_turns_def trained_def compress_def gae_loop_def gae_delta_def upt_rec Let_def)
  have "1 < ts_length two_turns" "ts_mask two_turns ! 1 \<noteq> 1" "ts_mask two_turns = [1, 0, 1]" by (simp_all add: two_turns_def)
  then show ?thesis
    using turns_trained_alone[of 1 0 "[two_turns]"] ok t by fastforce
qed

section \<open>Returns of REINFORCE++\<close>

lemma discounted_fold:
  fixes gamma :: real
  assumes "s \<le> length rs"
  shows "fold (\<lambda>t (running, returns). let running = rs ! t + gamma * running in (running, returns[t := running]))
      (rev [s..<length rs]) (0, replicate (length rs) 0) =
    ((\<Sum>k \<in> {s..<length rs}. gamma ^ (k - s) * rs ! k),
     replicate s 0 @ map (\<lambda>t. \<Sum>k \<in> {t..<length rs}. gamma ^ (k - t) * rs ! k) [s..<length rs])"
  using assms
proof (induction "length rs - s" arbitrary: s)
  case 0
  then show ?case by simp
next
  case (Suc n)
  then have s: "s < length rs" and u: "rev [s..<length rs] = rev [Suc s..<length rs] @ [s]" by (simp_all add: upt_conv_Cons)
  have step: "rs ! s + gamma * (\<Sum>k \<in> {Suc s..<length rs}. gamma ^ (k - Suc s) * rs ! k) = (\<Sum>k \<in> {s..<length rs}. gamma ^ (k - s) * rs ! k)"
  proof -
    have "(\<Sum>k \<in> {Suc s..<length rs}. gamma ^ (k - s) * rs ! k) = (\<Sum>k \<in> {Suc s..<length rs}. gamma * (gamma ^ (k - Suc s) * rs ! k))"
    proof (intro sum.cong refl)
      fix k assume "k \<in> {Suc s..<length rs}"
      then have e: "k - s = Suc (k - Suc s)" by auto
      show "gamma ^ (k - s) * rs ! k = gamma * (gamma ^ (k - Suc s) * rs ! k)" unfolding e by simp
    qed
    then show ?thesis using s by (simp add: sum.atLeast_Suc_lessThan sum_distrib_left)
  qed
  have "fold (\<lambda>t (running, returns). let running = rs ! t + gamma * running in (running, returns[t := running]))
      (rev [Suc s..<length rs]) (0, replicate (length rs) 0) =
    ((\<Sum>k \<in> {Suc s..<length rs}. gamma ^ (k - Suc s) * rs ! k),
     replicate s 0 @ 0 # map (\<lambda>t. \<Sum>k \<in> {t..<length rs}. gamma ^ (k - t) * rs ! k) [Suc s..<length rs])"
    using Suc(1)[of "Suc s"] Suc(2) s by (simp add: replicate_app_Cons_same)
  then show ?case
    using s step unfolding u by (simp add: Let_def list_update_append upt_conv_Cons)
qed

lemma discounted_eq: "discounted gamma rs = map (\<lambda>t. \<Sum>k \<in> {t..<length rs}. gamma ^ (k - t) * rs ! k) [0..<length rs]"
  by (simp add: discounted_def discounted_fold[of 0, simplified])

lemma last_trained_eq:
  assumes "j < length m" "m ! j \<noteq> 0" "\<forall>k. j < k \<and> k < length m \<longrightarrow> m ! k = 0"
  shows "last_trained m = Some j"
proof -
  have "[0..<length m] = [0..<j] @ j # [Suc j..<length m]" using assms(1) by (metis upt_add_eq_append upt_conv_Cons le_add_diff_inverse less_imp_le zero_le)
  moreover have "filter (\<lambda>i. m ! i \<noteq> 0) [Suc j..<length m] = []" using assms(3) by (auto simp: filter_empty_conv)
  ultimately have "filter (\<lambda>i. m ! i \<noteq> 0) [0..<length m] = filter (\<lambda>i. m ! i \<noteq> 0) [0..<j] @ [j]" using assms(2) by simp
  then show ?thesis by (cases "filter (\<lambda>i. m ! i \<noteq> 0) [0..<j]") (simp_all add: last_trained_def)
qed

text \<open>A response: its divergences, its mask, its reward, and its last trained token.\<close>

record rpp_case =
  rc_prompt :: int
  rc_kl :: "real list"
  rc_mask :: "real list"
  rc_reward :: real
  rc_last :: nat

definition rpp_ok :: "rpp_case \<Rightarrow> bool" where
  "rpp_ok x \<longleftrightarrow> 1 \<le> rc_prompt x \<and> length (rc_mask x) = length (rc_kl x) \<and> 0 < sum_list (rc_mask x) \<and>
     rc_last x < length (rc_mask x) \<and> rc_mask x ! rc_last x \<noteq> 0 \<and> (\<forall>k < length (rc_mask x). rc_last x < k \<longrightarrow> rc_mask x ! k = 0)"

definition rpp_return :: "real \<Rightarrow> real \<Rightarrow> rpp_case \<Rightarrow> nat \<Rightarrow> real" where
  "rpp_return kl_coef gamma x t = (\<Sum>k \<in> {t..<length (rc_kl x)}. gamma ^ (k - t) *
     ((if k = rc_last x then rc_reward x else 0) - kl_coef * (rc_kl x ! k * rc_mask x ! k)))"

lemma rpp_sample_eq:
  assumes "0 < cp" "rank < cp" "rpp_ok x"
  shows "rpp_sample cp rank kl_coef gamma (rc_reward x) (\<lambda>q. piece cp q (rc_prompt x) (rc_kl x)) (rc_mask x) (int (length (rc_kl x)))
      (rc_prompt x + int (length (rc_kl x))) =
    Inr (piece cp rank (rc_prompt x) (map (rpp_return kl_coef gamma x) [0..<length (rc_kl x)]))"
proof -
  let ?n = "length (rc_kl x)"
  define R where "R = map (\<lambda>x. - kl_coef * x) (map2 (*) (rc_kl x) (rc_mask x))"
  have ok: "1 \<le> rc_prompt x" "length (rc_mask x) = ?n" "0 < sum_list (rc_mask x)" "rc_last x < ?n"
    using assms(3) by (auto simp: rpp_ok_def)
  have lt: "last_trained (rc_mask x) = Some (rc_last x)"
    using assms(3) by (intro last_trained_eq) (auto simp: rpp_ok_def)
  have g: "all_gather_with_cp cp rank (\<lambda>q. piece cp q (rc_prompt x) (rc_kl x)) (rc_prompt x + int ?n) (int ?n) = Inr (rc_kl x)"
    by (rule gather_piece[OF assms(1,2) ok(1) refl])
  have t: "tmul (rc_kl x) (rc_mask x) = Inr (map2 (*) (rc_kl x) (rc_mask x))" and a: "assertE (0 < sum_list (rc_mask x)) = Inr ()"
    using ok by simp_all
  have R: "length R = ?n" using ok(2) by (simp add: R_def)
  have d: "discounted gamma (R[rc_last x := R ! rc_last x + rc_reward x]) = map (rpp_return kl_coef gamma x) [0..<?n]"
    unfolding discounted_eq rpp_return_def using ok(2,4) R
    by (intro map_cong sum.cong) (auto simp: nth_list_update R_def)
  have sl: "slice_log_prob_with_cp (int cp) (int rank) (map (rpp_return kl_coef gamma x) [0..<?n]) (rc_prompt x + int ?n) (int ?n) ''thd'' None =
    Inr (piece cp rank (rc_prompt x) (map (rpp_return kl_coef gamma x) [0..<?n]))"
    by (rule slice_piece[OF assms(1)]) simp
  have "rc_last x < length R" using R ok(4) by simp
  then have i: "raise_unless IndexError (rc_last x < length R) = Inr ()" by simp
  show ?thesis
    unfolding rpp_sample_def g t a bindE_simps Let_def lt option.case R_def[symmetric] i d sl
    using assms(1) by (cases "cp = Suc 0") simp_all
qed

text \<open>The return of a token is the sum of the later token rewards, discounted by their distance: minus the
  weighted divergence at each trained token, plus the reward of the response at the last trained one.
  Every rank gets its piece.\<close>

lemma returns_of_whole_response:
  assumes "0 < cp" "rank < cp" "\<forall>x \<in> set ss. rpp_ok x"
  shows "get_reinforce_plus_plus_returns cp rank (map rc_reward ss) (map (\<lambda>x q. piece cp q (rc_prompt x) (rc_kl x)) ss) (map rc_mask ss)
      (map (\<lambda>x. int (length (rc_kl x))) ss) (map (\<lambda>x. rc_prompt x + int (length (rc_kl x))) ss) kl_coef gamma =
    Inr (map (\<lambda>x. piece cp rank (rc_prompt x) (map (rpp_return kl_coef gamma x) [0..<length (rc_kl x)])) ss)"
proof -
  have "get_reinforce_plus_plus_returns cp rank (map rc_reward ss) (map (\<lambda>x q. piece cp q (rc_prompt x) (rc_kl x)) ss) (map rc_mask ss)
      (map (\<lambda>x. int (length (rc_kl x))) ss) (map (\<lambda>x. rc_prompt x + int (length (rc_kl x))) ss) kl_coef gamma =
    Inr (map (\<lambda>i. piece cp rank (rc_prompt (ss ! i)) (map (rpp_return kl_coef gamma (ss ! i)) [0..<length (rc_kl (ss ! i))])) [0..<length ss])"
    unfolding get_reinforce_plus_plus_returns_def length_map using assms(3)
    by (intro mapE_Inr) (simp add: rpp_sample_eq[OF assms(1,2)])
  also have "map (\<lambda>i. piece cp rank (rc_prompt (ss ! i)) (map (rpp_return kl_coef gamma (ss ! i)) [0..<length (rc_kl (ss ! i))])) [0..<length ss]
    = map (\<lambda>x. piece cp rank (rc_prompt x) (map (rpp_return kl_coef gamma x) [0..<length (rc_kl x)])) ss"
    by (intro nth_equalityI) auto
  finally show ?thesis .
qed

section \<open>Divergences and losses\<close>

lemma k3_nonneg: "0 \<le> exp (- x) - 1 - (- x)" for x :: real
  using exp_ge_add_one_self[of "- x"] by simp

lemma k3_zero: "exp (- x) - 1 - (- x) = 0 \<longleftrightarrow> x = 0" for x :: real
proof
  assume "exp (- x) - 1 - (- x) = 0"
  then have "ln (exp (- x)) = exp (- x) - 1" unfolding ln_exp by simp
  then have "exp (- x) = 1" by (intro ln_eq_minus_one) simp_all
  then show "x = 0" by simp
qed simp

text \<open>The estimates k2, k3 and low_var_kl of the divergence are never negative, vanish at a token exactly
  where the two models agree on it, and low_var_kl is at most 10.\<close>

lemma kl_estimates:
  assumes "length lp = length base" "ty \<in> {''k2'', ''k3'', ''low_var_kl''}"
  shows "\<exists>kl. compute_approx_kl lp base ty None = Inr kl \<and> length kl = length lp \<and>
    (\<forall>i < length lp. 0 \<le> kl ! i \<and> (kl ! i = 0 \<longleftrightarrow> lp ! i = base ! i) \<and> (ty = ''low_var_kl'' \<longrightarrow> kl ! i \<le> 10))"
proof -
  have low: "0 \<le> clamp (-10) 10 (exp (- x) - 1 - (- x))" "clamp (-10) 10 (exp (- x) - 1 - (- x)) = 0 \<longleftrightarrow> x = 0"
    "clamp (-10) 10 (exp (- x) - 1 - (- x)) \<le> 10" for x :: real
    using k3_nonneg[of x] k3_zero[of x] unfolding clamp_def by linarith+
  consider "ty = ''k2''" | "ty = ''k3''" | "ty = ''low_var_kl''" using assms(2) by auto
  then show ?thesis
  proof cases
    case 1
    then show ?thesis using assms(1) by (intro exI[of _ "map (\<lambda>x. x ^ 2 / 2) (map2 (-) lp base)"]) (simp add: compute_approx_kl_def)
  next
    case 2
    then show ?thesis using assms(1) k3_nonneg k3_zero
      by (intro exI[of _ "map (\<lambda>x. exp (- x) - 1 - (- x)) (map2 (-) lp base)"])
        (simp add: compute_approx_kl_def del: minus_diff_eq diff_minus_eq_add)
  next
    case 3
    then show ?thesis using assms(1) low
      by (intro exI[of _ "map (clamp (-10) 10) (map (\<lambda>x. exp (- x) - 1 - (- x)) (map2 (-) lp base))"])
        (simp add: compute_approx_kl_def del: minus_diff_eq diff_minus_eq_add)
  qed
qed

text \<open>An unknown kind of estimate is a ValueError, and tensors whose lengths cannot be broadcast a
  RuntimeError, whatever the rest.\<close>

lemma kl_errors:
  assumes "length lp = length base \<and> ty \<notin> {''k1'', ''k2'', ''k3'', ''low_var_kl''} \<and> e = ValueError \<or>
    length lp \<noteq> length base \<and> length lp \<noteq> 1 \<and> length base \<noteq> 1 \<and> e = RuntimeError"
  shows "compute_approx_kl lp base ty w = Inl e"
  using assms by (auto simp: compute_approx_kl_def tsub_def broadcast2_def)

text \<open>The clipped loss of a token is at least what the edge of the clipping interval gives, with the dual
  clip it is at most that many times the size of a negative advantage, and a token counts as clipped
  exactly when its ratio has left the interval on the side that its advantage pushes to.\<close>

lemma policy_loss_bounds:
  assumes "length kl = length adv" "0 \<le> lo" "0 \<le> hi" "1 < c"
  shows "\<exists>loss clipped. compute_policy_loss kl adv lo hi (Some c) = Inr (loss, clipped) \<and>
    length loss = length adv \<and> length clipped = length adv \<and>
    (\<forall>i < length adv.
       (if 0 \<le> adv ! i then - (1 + hi) * adv ! i \<le> loss ! i
        else (1 - lo) * \<bar>adv ! i\<bar> \<le> loss ! i \<and> loss ! i \<le> c * \<bar>adv ! i\<bar>) \<and>
       clipped ! i = (if (0 < adv ! i \<and> 1 + hi < exp (- kl ! i)) \<or> (adv ! i < 0 \<and> exp (- kl ! i) < 1 - lo) then 1 else 0))"
proof -
  have loss: "(if 0 \<le> a then - (1 + hi) * a \<le> token_loss lo hi (Some c) k a
        else (1 - lo) * \<bar>a\<bar> \<le> token_loss lo hi (Some c) k a \<and> token_loss lo hi (Some c) k a \<le> c * \<bar>a\<bar>)" for k a
  proof (cases "0 \<le> a")
    case True
    have "clamp (1 - lo) (1 + hi) (exp (- k)) \<le> 1 + hi" by (simp add: clamp_def)
    then have "- (1 + hi) * a \<le> - clamp (1 - lo) (1 + hi) (exp (- k)) * a" using True by (intro mult_right_mono) auto
    then show ?thesis using True by (simp add: token_loss_def Let_def le_max_iff_disj)
  next
    case False
    have "1 - lo \<le> clamp (1 - lo) (1 + hi) (exp (- k))" using assms(2,3) by (simp add: clamp_def)
    then have "(1 - lo) * \<bar>a\<bar> \<le> clamp (1 - lo) (1 + hi) (exp (- k)) * \<bar>a\<bar>" by (intro mult_right_mono) auto
    moreover have "(1 - lo) * \<bar>a\<bar> \<le> c * \<bar>a\<bar>" using assms(2,4) by (intro mult_right_mono) auto
    ultimately show ?thesis using False by (simp add: token_loss_def Let_def le_max_iff_disj min_le_iff_disj)
  qed
  have clip: "token_clipped lo hi k a = (if (0 < a \<and> 1 + hi < exp (- k)) \<or> (a < 0 \<and> exp (- k) < 1 - lo) then 1 else 0)" for k a
  proof -
    let ?c = "clamp (1 - lo) (1 + hi) (exp (- k))"
    have "- ?c * a > - exp (- k) * a \<longleftrightarrow> (0 < a \<and> ?c < exp (- k)) \<or> (a < 0 \<and> exp (- k) < ?c)"
      by (cases a "0 :: real" rule: linorder_cases) (simp_all add: mult_less_cancel_right)
    moreover have "?c < exp (- k) \<longleftrightarrow> 1 + hi < exp (- k)" "exp (- k) < ?c \<longleftrightarrow> exp (- k) < 1 - lo"
      using assms(2,3) by (auto simp: clamp_def)
    ultimately show ?thesis by (simp add: token_clipped_def Let_def)
  qed
  have "compute_policy_loss kl adv lo hi (Some c) = Inr (map2 (token_loss lo hi (Some c)) kl adv, map2 (token_clipped lo hi) kl adv)"
    using assms(1,4) by (simp add: compute_policy_loss_def)
  moreover have "\<forall>i < length adv.
       (if 0 \<le> adv ! i then - (1 + hi) * adv ! i \<le> map2 (token_loss lo hi (Some c)) kl adv ! i
        else (1 - lo) * \<bar>adv ! i\<bar> \<le> map2 (token_loss lo hi (Some c)) kl adv ! i \<and> map2 (token_loss lo hi (Some c)) kl adv ! i \<le> c * \<bar>adv ! i\<bar>) \<and>
       map2 (token_clipped lo hi) kl adv ! i =
         (if (0 < adv ! i \<and> 1 + hi < exp (- kl ! i)) \<or> (adv ! i < 0 \<and> exp (- kl ! i) < 1 - lo) then 1 else 0)"
  proof (intro allI impI)
    fix i assume "i < length adv"
    then have e: "map2 (token_loss lo hi (Some c)) kl adv ! i = token_loss lo hi (Some c) (kl ! i) (adv ! i)"
      "map2 (token_clipped lo hi) kl adv ! i = token_clipped lo hi (kl ! i) (adv ! i)" using assms(1) by simp_all
    show "(if 0 \<le> adv ! i then - (1 + hi) * adv ! i \<le> map2 (token_loss lo hi (Some c)) kl adv ! i
        else (1 - lo) * \<bar>adv ! i\<bar> \<le> map2 (token_loss lo hi (Some c)) kl adv ! i \<and> map2 (token_loss lo hi (Some c)) kl adv ! i \<le> c * \<bar>adv ! i\<bar>) \<and>
       map2 (token_clipped lo hi) kl adv ! i =
         (if (0 < adv ! i \<and> 1 + hi < exp (- kl ! i)) \<or> (adv ! i < 0 \<and> exp (- kl ! i) < 1 - lo) then 1 else 0)"
      unfolding e by (rule conjI[OF loss clip])
  qed
  moreover have "length (map2 (token_loss lo hi (Some c)) kl adv) = length adv" "length (map2 (token_clipped lo hi) kl adv) = length adv"
    using assms(1) by simp_all
  ultimately show ?thesis by blast
qed

section \<open>Log probabilities in chunks\<close>

lemma concat_groups: "concat (groups n c xs) = take (n * c) xs"
  by (induction n arbitrary: xs) (simp_all add: take_add)

lemma length_groups [simp]: "length (groups n c xs) = n"
  by (induction n arbitrary: xs) auto

lemma torch_chunk_length: "length xs = length ys \<Longrightarrow> length (torch_chunk n xs) = length (torch_chunk n ys)"
  by (auto simp: torch_chunk_def Let_def)

lemma groups_map2: "length xs = length ys \<Longrightarrow> map2 (map2 f) (groups n c xs) (groups n c ys) = groups n c (map2 f xs ys)"
  by (induction n arbitrary: xs ys) (simp_all add: take_map take_zip drop_map drop_zip)

lemma concat_torch_chunk:
  assumes "0 < n"
  shows "concat (torch_chunk n xs) = xs"
proof (cases "xs = []")
  case False
  define c where "c = (length xs + n - 1) div n"
  have "0 < c" using False assms unfolding c_def by (cases xs) (simp_all add: div_greater_zero_iff)
  have "length xs \<le> (length xs + c - 1) div c * c"
  proof -
    have "length xs + c - 1 = (length xs + c - 1) div c * c + (length xs + c - 1) mod c" by simp
    moreover have "(length xs + c - 1) mod c < c" using \<open>0 < c\<close> by simp
    ultimately show ?thesis using \<open>0 < c\<close> by linarith
  qed
  then show ?thesis using False unfolding torch_chunk_def Let_def c_def[symmetric] by (simp add: concat_groups)
qed (simp add: torch_chunk_def)

lemma torch_chunk_map2:
  assumes "length xs = length ys"
  shows "map2 (map2 f) (torch_chunk n xs) (torch_chunk n ys) = torch_chunk n (map2 f xs ys)"
  using assms groups_map2[OF assms] by (auto simp: torch_chunk_def Let_def)

lemma torch_chunk_map:
  "map (map f) (torch_chunk n xs) = torch_chunk n (map f xs)"
proof -
  have "map (map f) (groups m c xs) = groups m c (map f xs)" for m c
    by (induction m arbitrary: xs) (simp_all add: take_map drop_map)
  then show ?thesis by (simp add: torch_chunk_def Let_def)
qed

lemma log_probs_chunks:
  assumes "length tokens = length logits"
  shows "calculate_log_probs_and_entropy (map2 lp) (map ent) logits tokens with_entropy chunk_size =
    Inr (map2 lp logits tokens, if with_entropy then Some (map ent logits) else None)"
proof (cases "logits \<noteq> [] \<and> 0 < chunk_size")
  case True
  define n where "n = (length logits - 1) div nat chunk_size + 1"
  have n: "0 < n" by (simp add: n_def)
  have "map2 (\<lambda>t l. map2 lp l t) (torch_chunk n tokens) (torch_chunk n logits) = map2 (map2 lp) (torch_chunk n logits) (torch_chunk n tokens)"
    by (subst zip_commute) (simp add: case_prod_beta)
  then have a: "concat (map2 (\<lambda>t l. map2 lp l t) (torch_chunk n tokens) (torch_chunk n logits)) = map2 lp logits tokens"
    using assms by (simp add: torch_chunk_map2 concat_torch_chunk[OF n])
  have "map2 (\<lambda>_ l. map ent l) (torch_chunk n tokens) (torch_chunk n logits) = map (map ent) (torch_chunk n logits)"
    using torch_chunk_length[OF assms, of n] by (intro nth_equalityI) auto
  then have b: "concat (map2 (\<lambda>_ l. map ent l) (torch_chunk n tokens) (torch_chunk n logits)) = map ent logits"
    by (simp only: torch_chunk_map concat_torch_chunk[OF n])
  show ?thesis
    using True torch_chunk_length[OF assms, of n]
    unfolding calculate_log_probs_and_entropy_def Let_def n_def[symmetric] a b by simp
next
  case False
  then show ?thesis using assms by (auto simp: calculate_log_probs_and_entropy_def)
qed

text \<open>Kernels that treat every row by itself give the same log probabilities and entropies in chunks of any
  size as on the whole.\<close>

lemma chunked_log_probs:
  assumes "length tokens = length logits"
  shows "calculate_log_probs_and_entropy (map2 lp) (map ent) logits tokens with_entropy chunk_size =
    Inr (map2 lp logits tokens, if with_entropy then Some (map ent logits) else None)"
  by (rule log_probs_chunks[OF assms])

section \<open>The entropy of a split vocabulary\<close>

definition Zsum :: "real list \<Rightarrow> real" where
  "Zsum xs = sum_list (map exp xs)"

definition Xsum :: "real list \<Rightarrow> real" where
  "Xsum xs = sum_list (map (\<lambda>x. exp x * x) xs)"

lemma sum_shards: "sum_list (map (\<lambda>ys. sum_list (map f ys)) shards) = sum_list (map f (concat shards))" for f :: "'a \<Rightarrow> real"
  by (induction shards) simp_all

lemma Zsum_pos: "xs \<noteq> [] \<Longrightarrow> 0 < Zsum xs"
  by (induction xs rule: list_nonempty_induct) (simp_all add: Zsum_def add_pos_pos)

lemma Zsum_shift: "sum_list (map (\<lambda>y. exp (y - m)) xs) = exp (- m) * Zsum xs"
  unfolding Zsum_def sum_list_const_mult[symmetric] by (simp add: exp_diff exp_minus divide_inverse mult.commute)

lemma total_eq: "sum_list (map (\<lambda>ys. sum_list (map (\<lambda>y. exp (y - m)) ys)) shards) = exp (- m) * Zsum (concat shards)"
  using Zsum_shift[of m "concat shards"] by (simp only: sum_shards)

lemma shard_softmax_eq:
  shows "shard_softmax shards xs = map (\<lambda>x. exp x / Zsum (concat shards)) xs"
  unfolding shard_softmax_def Let_def total_eq by (simp add: exp_diff exp_minus divide_inverse)

lemma softmax_times_logits_eq:
  assumes "concat shards \<noteq> []"
  shows "sum_softmax_times_logits shards = Xsum (concat shards) / Zsum (concat shards)"
proof -
  have "map2 (*) (map (\<lambda>x. exp x / Z) xs) xs = map (\<lambda>x. exp x * x / Z) xs" for xs :: "real list" and Z
    by (induction xs) simp_all
  then have "sum_softmax_times_logits shards = sum_list (map (\<lambda>x. exp x * x / Zsum (concat shards)) (concat shards))"
    by (simp only: sum_softmax_times_logits_def shard_softmax_eq sum_shards)
  also have "\<dots> = Xsum (concat shards) / Zsum (concat shards)"
    unfolding Xsum_def divide_inverse sum_list_mult_const ..
  finally show ?thesis .
qed

lemma entropy_forward_eq:
  assumes "concat shards \<noteq> []"
  shows "entropy_forward shards = ln (Zsum (concat shards)) - Xsum (concat shards) / Zsum (concat shards)"
  using Zsum_pos[OF assms] unfolding entropy_forward_def Let_def total_eq softmax_times_logits_eq[OF assms]
  by (simp add: ln_mult)

lemma concat_nonempty: "shards \<noteq> [] \<Longrightarrow> \<forall>s \<in> set shards. s \<noteq> [] \<Longrightarrow> concat shards \<noteq> []"
  by (cases shards) auto

text \<open>However a vocabulary is split over the ranks, the forward pass returns the entropy of the softmax of the
  whole row, which is not negative.\<close>

lemma entropy_of_split:
  assumes "shards \<noteq> []" "\<forall>s \<in> set shards. s \<noteq> []"
  shows "let p = (\<lambda>x. exp x / sum_list (map exp (concat shards))) in
    entropy_forward shards = - sum_list (map (\<lambda>x. p x * ln (p x)) (concat shards)) \<and> 0 \<le> entropy_forward shards"
proof -
  let ?xs = "concat shards"
  have ne: "?xs \<noteq> []" by (rule concat_nonempty[OF assms])
  have Z: "0 < Zsum ?xs" by (rule Zsum_pos[OF ne])
  have "sum_list (map (\<lambda>x. exp x / Zsum ?xs * ln (exp x / Zsum ?xs)) ?xs) =
    sum_list (map (\<lambda>x. exp x * x * inverse (Zsum ?xs) - exp x * (ln (Zsum ?xs) / Zsum ?xs)) ?xs)"
  proof (intro arg_cong[of _ _ sum_list] map_cong refl)
    fix x
    have l: "ln (exp x / Zsum ?xs) = x - ln (Zsum ?xs)" using Z by (simp add: ln_div)
    show "exp x / Zsum ?xs * ln (exp x / Zsum ?xs) = exp x * x * inverse (Zsum ?xs) - exp x * (ln (Zsum ?xs) / Zsum ?xs)"
      unfolding l by (simp add: divide_inverse algebra_simps)
  qed
  also have "\<dots> = Xsum ?xs * inverse (Zsum ?xs) - Zsum ?xs * (ln (Zsum ?xs) / Zsum ?xs)"
    unfolding sum_list_subtractf sum_list_mult_const Xsum_def Zsum_def ..
  also have "\<dots> = - entropy_forward shards" using Z unfolding entropy_forward_eq[OF ne] by (simp add: divide_inverse)
  finally have e: "entropy_forward shards = - sum_list (map (\<lambda>x. exp x / Zsum ?xs * ln (exp x / Zsum ?xs)) ?xs)" by simp
  have "sum_list (map (\<lambda>x. exp x / Zsum ?xs * ln (exp x / Zsum ?xs)) ?xs) \<le> 0"
  proof (rule sum_list_nonpos)
    fix y assume "y \<in> set (map (\<lambda>x. exp x / Zsum ?xs * ln (exp x / Zsum ?xs)) ?xs)"
    then obtain x where x: "x \<in> set ?xs" "y = exp x / Zsum ?xs * ln (exp x / Zsum ?xs)" by auto
    have "exp x \<le> Zsum ?xs" unfolding Zsum_def using x(1) by (intro member_le_sum_list) auto
    then have "exp x / Zsum ?xs \<le> 1" using Z by simp
    then have "ln (exp x / Zsum ?xs) \<le> 0" using Z by simp
    then show "y \<le> 0" unfolding x(2) using Z by (intro mult_nonneg_nonpos) auto
  qed
  then show ?thesis using e unfolding Let_def Zsum_def by simp
qed

lemma sum_list_upd: "i < length xs \<Longrightarrow> sum_list (xs[i := t]) = t + (sum_list xs - xs ! i)" for xs :: "real list"
  by (induction xs arbitrary: i) (auto split: nat.split)

lemma Zsum_update: "i < length xs \<Longrightarrow> Zsum (xs[i := t]) = exp t + (Zsum xs - exp (xs ! i))"
  by (simp add: Zsum_def map_update sum_list_upd)

lemma Xsum_update: "i < length xs \<Longrightarrow> Xsum (xs[i := t]) = exp t * t + (Xsum xs - exp (xs ! i) * xs ! i)"
  by (simp add: Xsum_def map_update sum_list_upd)

lemma concat_update:
  assumes "r < length shards" "i < length (shards ! r)"
  shows "concat (shards[r := (shards ! r)[i := t]]) = (concat shards)[length (concat (take r shards)) + i := t]"
    "length (concat (take r shards)) + i < length (concat shards)"
    "concat shards ! (length (concat (take r shards)) + i) = shards ! r ! i"
proof -
  have c: "concat shards = concat (take r shards) @ (shards ! r) @ concat (drop (Suc r) shards)"
    using assms(1) by (metis concat.simps(2) concat_append id_take_nth_drop)
  show "concat (shards[r := (shards ! r)[i := t]]) = (concat shards)[length (concat (take r shards)) + i := t]"
    using assms unfolding c upd_conv_take_nth_drop[OF assms(1)] by (simp add: list_update_append)
  show "length (concat (take r shards)) + i < length (concat shards)" "concat shards ! (length (concat (take r shards)) + i) = shards ! r ! i"
    using assms(2) unfolding c by (simp_all add: nth_append)
qed

text \<open>The backward pass returns the derivative of the forward pass by every logit of every rank.\<close>

lemma entropy_gradient:
  assumes "shards \<noteq> []" "\<forall>s \<in> set shards. s \<noteq> []" "r < length shards" "i < length (shards ! r)"
  shows "((\<lambda>t. entropy_forward (shards[r := (shards ! r)[i := t]])) has_real_derivative entropy_backward shards r 1 ! i) (at (shards ! r ! i))"
proof -
  let ?xs = "concat shards" and ?x = "shards ! r ! i"
  let ?j = "length (concat (take r shards)) + i"
  note u = concat_update[OF assms(3,4)]
  have ne: "?xs \<noteq> []" by (rule concat_nonempty[OF assms(1,2)])
  have Z: "0 < Zsum ?xs" by (rule Zsum_pos[OF ne])
  have f: "(\<lambda>t. entropy_forward (shards[r := (shards ! r)[i := t]])) =
    (\<lambda>t. ln (exp t + (Zsum ?xs - exp ?x)) - (exp t * t + (Xsum ?xs - exp ?x * ?x)) / (exp t + (Zsum ?xs - exp ?x)))"
  proof
    fix t
    have "?xs[?j := t] \<noteq> []" using ne by simp
    then show "entropy_forward (shards[r := (shards ! r)[i := t]]) =
      ln (exp t + (Zsum ?xs - exp ?x)) - (exp t * t + (Xsum ?xs - exp ?x * ?x)) / (exp t + (Zsum ?xs - exp ?x))"
      using u by (simp add: entropy_forward_eq Zsum_update Xsum_update)
  qed
  have g: "entropy_backward shards r 1 ! i = - (exp ?x / Zsum ?xs * (?x - Xsum ?xs / Zsum ?xs))"
    using assms(4) by (simp add: entropy_backward_def shard_softmax_eq softmax_times_logits_eq[OF ne])
  have "((\<lambda>t. ln (exp t + (Zsum ?xs - exp ?x)) - (exp t * t + (Xsum ?xs - exp ?x * ?x)) / (exp t + (Zsum ?xs - exp ?x))) has_real_derivative
     exp ?x / Zsum ?xs - ((exp ?x * ?x + exp ?x) * Zsum ?xs - Xsum ?xs * exp ?x) / (Zsum ?xs * Zsum ?xs)) (at ?x)"
    using Z by (auto intro!: derivative_eq_intros simp: algebra_simps)
  moreover have "exp ?x / Zsum ?xs - ((exp ?x * ?x + exp ?x) * Zsum ?xs - Xsum ?xs * exp ?x) / (Zsum ?xs * Zsum ?xs) =
    - (exp ?x / Zsum ?xs * (?x - Xsum ?xs / Zsum ?xs))"
    using Z by (simp add: field_simps)
  ultimately show ?thesis unfolding f g by simp
qed

end
