(* ===== verification/Loss_Rules.thy ===== *)
theory Loss_Rules
  imports Losses Ppo_Rules
begin

text \<open>
  The properties of \<open>backends/megatron_utils/loss.py\<close>: every rank reads the rows that predict its
  tokens of each response, log probabilities do not depend on the number of ranks, the discounts
  between turns, whitening, and where masks and context parallelism do not go together.
\<close>

section \<open>The rows of a response\<close>

text \<open>The rows and tokens of a whole sequence; the row before a token predicts it.\<close>

record packed =
  pk_rows :: "real rows"
  pk_tokens :: "int list"
  pk_prompt :: nat

abbreviation pk_response :: "packed \<Rightarrow> nat" where
  "pk_response x \<equiv> length (pk_tokens x) - pk_prompt x"

definition pk_ok :: "packed \<Rightarrow> bool" where
  "pk_ok x \<longleftrightarrow> 1 \<le> pk_prompt x \<and> pk_prompt x < length (pk_tokens x) \<and> length (pk_rows x) = length (pk_tokens x)"

definition response_rows :: "packed \<Rightarrow> real rows" where
  "response_rows x = take (pk_response x) (drop (pk_prompt x - 1) (pk_rows x))"

definition response_tokens :: "packed \<Rightarrow> int list" where
  "response_tokens x = drop (pk_prompt x) (pk_tokens x)"

lemma response_lengths: "pk_ok x \<Longrightarrow> length (response_rows x) = pk_response x" "length (response_tokens x) = pk_response x"
  by (auto simp: response_rows_def response_tokens_def pk_ok_def)

text \<open>What a rank holds of a sequence.\<close>

definition rank_part :: "nat \<Rightarrow> nat \<Rightarrow> 'a \<Rightarrow> 'a list \<Rightarrow> 'a list" where
  "rank_part cp r pad xs = (case slice_with_cp (int cp) (int r) xs pad ''thd'' None of Inl _ \<Rightarrow> [] | Inr s \<Rightarrow> s)"

lemma rank_part_one [simp]: "rank_part (Suc 0) r pad xs = xs"
  by (simp add: rank_part_def slice_with_cp_def Let_def)

lemma take_drop_nth:
  assumes "length xs = n" "length ys = n" "\<And>i. i < n \<Longrightarrow> xs ! i = ys ! i"
  shows "xs = ys"
  using assms by (intro nth_equalityI) auto

text \<open>A range of positions inside chunk \<open>k\<close> of the padded rows.\<close>

lemma chunk_rows:
  assumes X: "length X = c" "\<And>j. j < c \<Longrightarrow> X ! j = (if k * c + j < length xs then xs ! (k * c + j) else pad)"
    and P: "1 \<le> P" "P \<le> length xs"
    and l: "l = logits_range (int P) (int (length xs)) (chunk_range (int c) (int k))"
  shows "py_slice X (fst l - int k * int c) (snd l - int k * int c) =
    py_slice (take (length xs - P) (drop (P - 1) xs)) (fst l - (int P - 1)) (snd l - (int P - 1))"
proof (cases "l = (0, 0)")
  case True
  then show ?thesis by (simp add: py_slice_def Let_def)
next
  case False
  have b: "int k * int c \<le> fst l" "snd l \<le> (int k + 1) * int c" "int P - 1 \<le> fst l" "snd l \<le> int (length xs) - 1" "fst l < snd l"
    using False unfolding l logits_range_def chunk_range_def Let_def by (auto split: if_splits)
  define a where "a = nat (fst l)"
  define e where "e = nat (snd l)"
  have "0 \<le> fst l" using b(3) P(1) by linarith
  then have ae: "fst l = int a" "snd l = int e" using b(5) by (auto simp: a_def e_def)
  have kc: "k * c \<le> a" "e \<le> k * c + c" "P - 1 \<le> a" "e \<le> length xs - 1" "a < e"
  proof -
    show "k * c \<le> a" using b(1) unfolding ae(1) by (simp flip: of_nat_mult)
    have "int e \<le> int (k * c + c)" using b(2) unfolding ae(2) by (simp add: algebra_simps)
    then show "e \<le> k * c + c" by (simp only: of_nat_le_iff)
    show "P - 1 \<le> a" "e \<le> length xs - 1" "a < e" using b(3-5) P unfolding ae by auto
  qed
  have i: "fst l - int k * int c = int (a - k * c)" "snd l - int k * int c = int (e - k * c)"
    "fst l - (int P - 1) = int (a - (P - 1))" "snd l - (int P - 1) = int (e - (P - 1))"
    using kc P(1) unfolding ae by (simp_all add: of_nat_diff)
  have d: "e - k * c - (a - k * c) = e - a" "e - (P - 1) - (a - (P - 1)) = e - a" using kc by auto
  show ?thesis unfolding i py_slice_of_nat d
  proof (rule take_drop_nth[of _ "e - a"])
    show "length (take (e - a) (drop (a - k * c) X)) = e - a" using kc X(1) by auto
    show "length (take (e - a) (drop (a - (P - 1)) (take (length xs - P) (drop (P - 1) xs)))) = e - a" using kc P by auto
    fix i assume i: "i < e - a"
    then have "take (e - a) (drop (a - k * c) X) ! i = X ! (a - k * c + i)" using kc X(1) by simp
    also have "\<dots> = xs ! (a + i)" using X(2)[of "a - k * c + i"] kc i P by auto
    also have "\<dots> = take (e - a) (drop (a - (P - 1)) (take (length xs - P) (drop (P - 1) xs))) ! i"
      using kc i P by (simp add: nth_take)
    finally show "take (e - a) (drop (a - k * c) X) ! i = take (e - a) (drop (a - (P - 1)) (take (length xs - P) (drop (P - 1) xs))) ! i" .
  qed
qed

lemma token_rows:
  assumes "1 \<le> P" "P \<le> length xs" "range_in (int P) (int (length xs)) l"
  shows "py_slice xs (fst (token_range l)) (snd (token_range l)) = py_slice (drop P xs) (fst l - (int P - 1)) (snd l - (int P - 1))"
proof (cases "l = (0, 0)")
  case True
  then show ?thesis by (simp add: token_range_def py_slice_def Let_def)
next
  case False
  then have b: "int P - 1 \<le> fst l" "fst l < snd l" using assms(3) by (auto simp: range_in_def)
  have i: "nat (snd l - (int P - 1)) - nat (fst l - (int P - 1)) = nat (snd l + 1) - nat (fst l + 1)"
    "nat (fst l - (int P - 1)) + P = nat (fst l + 1)" using b assms(1) by linarith+
  show ?thesis using b assms(1) i by (simp add: token_range_def py_slice_nat)
qed

lemma range_in_rank: "range_in P T (rank_range cp r P T k)"
  unfolding rank_range_def by (rule range_in_logits)

lemma zigzag_piece:
  assumes cp: "1 < cp" "r < cp" and x: "pk_ok x"
  shows "response_zigzag cp r ''thd'' (pre @ rank_part cp r pad (pk_rows x) @ post) m (pk_tokens x) (int (length (pk_tokens x)))
      (int (pk_response x)) (int (length pre)) =
    Inr (int (length pre + length (rank_part cp r pad (pk_rows x))), piece cp r (int (pk_prompt x)) (response_rows x),
         piece cp r (int (pk_prompt x)) (response_tokens x))"
proof -
  let ?P = "pk_prompt x" and ?R = "pk_response x" and ?T = "length (pk_tokens x)"
  have P: "1 \<le> ?P" "?P < ?T" "length (pk_rows x) = ?T" using x by (auto simp: pk_ok_def)
  have T: "int ?T = int ?P + int ?R" using P by simp
  have "0 < length (pk_rows x)" using P by linarith
  then obtain s c where s: "slice_with_cp (int cp) (int r) (pk_rows x) pad ''thd'' None = Inr s"
    "int c = chunk_size_of (int cp) (int ?T)" "length s = 2 * c"
    "\<forall>j < c. s ! j = (if r * c + j < ?T then pk_rows x ! (r * c + j) else pad)"
    "\<forall>j < c. s ! (c + j) = (let p = (2 * cp - r - 1) * c + j in if p < ?T then pk_rows x ! p else pad)"
    using slice_with_cp_spec[OF cp, of "pk_rows x" pad] unfolding P(3) by blast
  have part: "rank_part cp r pad (pk_rows x) = s" using s(1) by (simp add: rank_part_def)
  let ?k = "2 * cp - r - 1"
  have k: "2 * int cp - int r - 1 = int ?k" using cp by simp
  let ?l0 = "first_range cp r (int ?P) (int ?T)" and ?l1 = "second_range cp r (int ?P) (int ?T)"
  let ?rows = "response_rows x" and ?toks = "response_tokens x"
  have rr: "?rows = take (length (pk_rows x) - ?P) (drop (?P - 1) (pk_rows x))" using P by (simp add: response_rows_def)
  have lo: "py_slice (pre @ s @ post) (int (length pre)) (int (length pre) + int c) = take c s"
    "py_slice (pre @ s @ post) (int (length pre) + int c) (int (length pre + length s)) = drop c s"
    using s(3) py_slice_of_nat[of "pre @ s @ post" "length pre" "length pre + c"]
      py_slice_of_nat[of "pre @ s @ post" "length pre + c" "length pre + length s"] by simp_all
  have fc: "fst (chunk_range (int c) j) = j * int c" for j by (simp add: chunk_range_def)
  have r0: "py_slice (take c s) (fst ?l0 - fst (chunk_range (int c) (int r))) (snd ?l0 - fst (chunk_range (int c) (int r))) =
      py_slice ?rows (fst ?l0 - (int ?P - 1)) (snd ?l0 - (int ?P - 1))"
  proof -
    have "?l0 = logits_range (int ?P) (int (length (pk_rows x))) (chunk_range (int c) (int r))" by (simp only: rank_range_def P(3) s(2))
    moreover have "length (take c s) = c" "\<And>j. j < c \<Longrightarrow> take c s ! j = (if r * c + j < length (pk_rows x) then pk_rows x ! (r * c + j) else pad)"
      using s(3,4) P(3) by simp_all
    moreover have "?P \<le> length (pk_rows x)" using P by simp
    ultimately show ?thesis unfolding rr fc using P(1) by (intro chunk_rows)
  qed
  have r1: "py_slice (drop c s) (fst ?l1 - fst (chunk_range (int c) (int ?k))) (snd ?l1 - fst (chunk_range (int c) (int ?k))) =
      py_slice ?rows (fst ?l1 - (int ?P - 1)) (snd ?l1 - (int ?P - 1))"
  proof -
    have "?l1 = logits_range (int ?P) (int (length (pk_rows x))) (chunk_range (int c) (int ?k))" by (simp only: rank_range_def P(3) s(2) k)
    moreover have "length (drop c s) = c" "\<And>j. j < c \<Longrightarrow> drop c s ! j = (if ?k * c + j < length (pk_rows x) then pk_rows x ! (?k * c + j) else pad)"
      using s(3,5) P(3) by (simp_all add: Let_def)
    moreover have "?P \<le> length (pk_rows x)" using P by simp
    ultimately show ?thesis unfolding rr fc using P(1) by (intro chunk_rows)
  qed
  have t: "py_slice (pk_tokens x) (fst (token_range l)) (snd (token_range l)) = py_slice ?toks (fst l - (int ?P - 1)) (snd l - (int ?P - 1))"
    if "range_in (int ?P) (int ?T) l" for l
    unfolding response_tokens_def using P that by (intro token_rows) auto
  have len: "length (py_slice ?rows i j) = length (py_slice ?toks i j)" for i j
    by (rule length_py_slice_cong) (simp add: response_lengths(1)[OF x] response_lengths(2))
  have pc: "piece cp r (int ?P) zs = py_slice zs (fst ?l0 - (int ?P - 1)) (snd ?l0 - (int ?P - 1)) @ py_slice zs (fst ?l1 - (int ?P - 1)) (snd ?l1 - (int ?P - 1))"
    if "length zs = ?R" for zs :: "'z list"
    using cp unfolding piece_def Let_def that T[symmetric] by simp
  have off: "get_logits_and_tokens_offset_with_cp (int cp) (int r) (int ?T) (int ?R) ''thd'' m =
    Inr (int c, (chunk_range (int c) (int r), chunk_range (int c) (int ?k)), (?l0, ?l1), (token_range ?l0, token_range ?l1))"
    using offsets_eq[OF cp(1), of r "int ?P" ?R m] unfolding T[symmetric] s(2)[symmetric] k[symmetric] by (simp add: Let_def)
  have p: "piece cp r (int ?P) ?rows = py_slice ?rows (fst ?l0 - (int ?P - 1)) (snd ?l0 - (int ?P - 1)) @ py_slice ?rows (fst ?l1 - (int ?P - 1)) (snd ?l1 - (int ?P - 1))"
    "piece cp r (int ?P) ?toks = py_slice ?toks (fst ?l0 - (int ?P - 1)) (snd ?l0 - (int ?P - 1)) @ py_slice ?toks (fst ?l1 - (int ?P - 1)) (snd ?l1 - (int ?P - 1))"
    by (rule pc[OF response_lengths(1)[OF x]], rule pc[OF response_lengths(2)])
  have e: "int (length pre) + 2 * int c = int (length pre + length s)" using s(3) by simp
  show ?thesis
    unfolding response_zigzag_def off bindE_simps prod.case Let_def part lo r0 r1 t[OF range_in_rank] len p e
    by (simp only: assertE_simps bindE_simps simp_thms)
qed

lemma whole_piece:
  assumes x: "pk_ok x"
  shows "response_whole ''thd'' (pre @ pk_rows x @ post) m i (pk_tokens x) (int (length (pk_tokens x))) (int (pk_response x)) (int (length pre)) =
    Inr (int (length pre + length (pk_rows x)), response_rows x, response_tokens x)"
proof -
  let ?P = "pk_prompt x" and ?R = "pk_response x" and ?T = "length (pk_tokens x)" and ?n = "length pre"
  have P: "1 \<le> ?P" "?P < ?T" "length (pk_rows x) = ?T" using x by (auto simp: pk_ok_def)
  have i: "int ?n + int ?T - int ?R - 1 = int (?n + ?P - 1)" "int ?n + int ?T - 1 = int (?n + ?T - 1)" using P by auto
  have "take (?n + ?T - 1 - (?n + ?P - 1)) (drop (?n + ?P - 1) (pre @ pk_rows x @ post)) = response_rows x"
    using P by (simp add: response_rows_def)
  then have l: "py_slice (pre @ pk_rows x @ post) (int (?n + ?P - 1)) (int (?n + ?T - 1)) = response_rows x"
    unfolding py_slice_of_nat .
  have t: "py_slice (pk_tokens x) (- int ?R) (int ?T) = response_tokens x"
  proof -
    have "int ?T + - int ?R = int ?P" "- int ?R < 0" using P by auto
    then have "clip_index ?T (- int ?R) = ?P" by (simp only: clip_index_def if_True)
    moreover have "clip_index ?T (int ?T) = ?T" by (simp add: clip_index_def)
    ultimately show ?thesis by (simp add: py_slice_def Let_def response_tokens_def)
  qed
  have b: "(''thd'' = ''bshd'') = False" by simp
  have e: "int ?n + int ?T = int (?n + length (pk_rows x))" using P(3) by simp
  show ?thesis unfolding response_whole_def b if_False bindE_simps Let_def i l t by (simp only: e)
qed

definition rank_rows :: "nat \<Rightarrow> nat \<Rightarrow> real list \<Rightarrow> packed list \<Rightarrow> real rows" where
  "rank_rows cp r pad ss = concat (map (\<lambda>x. rank_part cp r pad (pk_rows x)) ss)"

abbreviation rank_pieces :: "nat \<Rightarrow> nat \<Rightarrow> packed \<Rightarrow> real rows \<times> int list" where
  "rank_pieces cp r x \<equiv> (piece cp r (int (pk_prompt x)) (response_rows x), piece cp r (int (pk_prompt x)) (response_tokens x))"

lemma responses_loop:
  assumes cp: "0 < cp" "r < cp" and ss: "\<forall>x \<in> set ss. pk_ok x" and args: "\<not> la_allgather_cp args" "la_qkv_format args = ''thd''"
  shows "\<exists>e s. foldE (\<lambda>(i, tokens, total_length, response_length) (end_pos, seq_start, out).
         bindE (case None of None \<Rightarrow> Inr None
                | Some ms \<Rightarrow> bindE (py_nth ms (int i)) (\<lambda>m. Inr (Some m))) (\<lambda>max_seq_len.
         bindE (if cp = 1
                then response_whole (la_qkv_format args) (pre @ rank_rows cp r pad ss) max_seq_len i tokens total_length response_length end_pos
                else if la_allgather_cp args
                then bindE (response_contiguous r (pre @ rank_rows cp r pad ss) tokens total_length response_length seq_start) (\<lambda>(l, t). Inr (end_pos, l, t))
                else response_zigzag cp r (la_qkv_format args) (pre @ rank_rows cp r pad ss) max_seq_len tokens total_length response_length end_pos)
           (\<lambda>(end_pos, logits_chunk, tokens_chunk).
             Inr (end_pos, seq_start + total_length, out @ [(logits_chunk, tokens_chunk)]))))
       (List.enumerate i (zip (map pk_tokens ss) (zip (map (\<lambda>x. int (length (pk_tokens x))) ss) (map (\<lambda>x. int (pk_response x)) ss))))
       (int (length pre), sq, out) = Inr (e, s, out @ map (rank_pieces cp r) ss)"
  using ss
proof (induction ss arbitrary: pre i sq out)
  case (Cons x ss)
  have x: "pk_ok x" using Cons.prems by simp
  let ?rows = "pre @ rank_rows cp r pad (x # ss)"
  have rows: "?rows = pre @ rank_part cp r pad (pk_rows x) @ rank_rows cp r pad ss"
    "?rows = (pre @ rank_part cp r pad (pk_rows x)) @ rank_rows cp r pad ss" by (simp_all add: rank_rows_def)
  have step: "(if cp = 1
      then response_whole (la_qkv_format args) ?rows None i (pk_tokens x) (int (length (pk_tokens x))) (int (pk_response x)) (int (length pre))
      else if la_allgather_cp args
      then bindE (response_contiguous r ?rows (pk_tokens x) (int (length (pk_tokens x))) (int (pk_response x)) sq) (\<lambda>(l, t). Inr (int (length pre), l, t))
      else response_zigzag cp r (la_qkv_format args) ?rows None (pk_tokens x) (int (length (pk_tokens x))) (int (pk_response x)) (int (length pre))) =
    Inr (int (length (pre @ rank_part cp r pad (pk_rows x))), rank_pieces cp r x)"
  proof (cases "cp = 1")
    case True
    then show ?thesis using whole_piece[OF x, of pre "rank_rows cp r pad ss" None i] unfolding rows(1) args(2) by simp
  next
    case False
    then show ?thesis using zigzag_piece[OF _ cp(2) x, of pre pad "rank_rows cp r pad ss" None] cp(1) args(1)
      unfolding rows(1) args(2) by simp
  qed
  show ?case
    using Cons.IH[of "pre @ rank_part cp r pad (pk_rows x)" "Suc i" "sq + int (length (pk_tokens x))" "out @ [rank_pieces cp r x]"] Cons.prems
    unfolding rows(2)[symmetric] by (simp add: step del: One_nat_def)
qed simp

lemma responses_pieces:
  assumes cp: "0 < cp" "r < cp" and ss: "\<forall>x \<in> set ss. pk_ok x"
    and args: "\<not> la_allgather_cp args" "la_qkv_format args = ''thd''" "la_rollout_temperature args = 1"
  shows "get_responses cp r args [rank_rows cp r pad ss] (map pk_tokens ss) (map (\<lambda>x. int (length (pk_tokens x))) ss)
      (map (\<lambda>x. int (pk_response x)) ss) None = Inr (map (rank_pieces cp r) ss)"
proof -
  have f: "flat_logits args None [rank_rows cp r pad ss] = Inr (rank_rows cp r pad ss)"
    using args by (simp add: flat_logits_def)
  show ?thesis
    using responses_loop[OF cp ss args(1,2), of "[]" pad 0 0 "[]", unfolded append_Nil list.size of_nat_0]
    unfolding get_responses_def f bindE_simps enumerate_list_def by (elim exE) simp
qed

text \<open>C18. With the rows of a packed batch cut into two chunks per rank, each rank finds, for every sample,
  the rows and tokens of its piece of the response: row by row the row before each of its response
  tokens, and these tokens.\<close>

theorem responses_are_pieces:
  assumes "0 < cp" "r < cp" "\<forall>x \<in> set ss. pk_ok x"
    and "\<not> la_allgather_cp args" "la_qkv_format args = ''thd''" "la_rollout_temperature args = 1"
  shows "get_responses cp r args [rank_rows cp r pad ss] (map pk_tokens ss) (map (\<lambda>x. int (length (pk_tokens x))) ss)
      (map (\<lambda>x. int (pk_response x)) ss) None =
    Inr (map (\<lambda>x. (piece cp r (int (pk_prompt x)) (response_rows x), piece cp r (int (pk_prompt x)) (response_tokens x))) ss)"
  by (rule responses_pieces[OF assms])

definition demo_args :: loss_args where
  "demo_args = \<lparr>la_qkv_format = ''thd'', la_rollout_temperature = 1, la_allgather_cp = False, la_log_probs_chunk_size = 2\<rparr>"

definition demo_packed :: packed where
  "demo_packed = \<lparr>pk_rows = [[0, 1], [1, 0], [2, 5], [3, 3]], pk_tokens = [7, 8, 9, 6], pk_prompt = 2\<rparr>"

theorem responses_are_pieces_witness:
  "get_responses 1 0 demo_args [rank_rows 1 0 [] [demo_packed]] [[7, 8, 9, 6]] [4] [2] None = Inr [([[1, 0], [2, 5]], [9, 6])]"
proof -
  have "pk_ok demo_packed" by (simp add: pk_ok_def demo_packed_def)
  then show ?thesis
    using responses_are_pieces[of 1 0 "[demo_packed]" demo_args "[]"]
    by (simp add: demo_args_def demo_packed_def response_rows_def response_tokens_def)
qed

section \<open>Log probabilities on any number of ranks\<close>

lemma piece_map: "piece cp r P (map f xs) = map f (piece cp r P xs)"
  by (simp add: piece_def Let_def py_slice_def take_map drop_map)

definition whole_log_probs :: "(real option list \<Rightarrow> int \<Rightarrow> real) \<Rightarrow> packed \<Rightarrow> real list" where
  "whole_log_probs lp x = map2 lp (map (map Some) (response_rows x)) (response_tokens x)"

definition whole_entropies :: "(real option list \<Rightarrow> real) \<Rightarrow> packed \<Rightarrow> real list" where
  "whole_entropies ent x = map ent (map (map Some) (response_rows x))"

lemma whole_lengths: "pk_ok x \<Longrightarrow> length (whole_log_probs lp x) = pk_response x" "pk_ok x \<Longrightarrow> length (whole_entropies ent x) = pk_response x"
  using response_lengths(1)[of x] response_lengths(2)[of x] by (simp_all add: whole_log_probs_def whole_entropies_def)

lemma piece_whole:
  "pk_ok x \<Longrightarrow> piece cp r P (whole_log_probs lp x) = map2 lp (map (map Some) (piece cp r P (response_rows x))) (piece cp r P (response_tokens x))"
  "piece cp r P (whole_entropies ent x) = map ent (map (map Some) (piece cp r P (response_rows x)))"
proof -
  assume "pk_ok x"
  then have "length (map (map Some) (response_rows x)) = length (response_tokens x)" by (simp add: response_lengths)
  then show "piece cp r P (whole_log_probs lp x) = map2 lp (map (map Some) (piece cp r P (response_rows x))) (piece cp r P (response_tokens x))"
    unfolding whole_log_probs_def by (simp only: piece_map2(1) piece_map[of cp r P "map Some"])
qed (simp only: whole_entropies_def piece_map)

lemma mapE_map: "mapE f (map g ys) = mapE (\<lambda>y. f (g y)) ys"
  by (induction ys) simp_all

lemma real_sum_list: "real (sum_list ns) = sum_list (map real ns)"
  by (induction ns) simp_all

lemma enumerate_of_map: "List.enumerate n (map f xs) = map (\<lambda>(i, x). (i, f x)) (List.enumerate n xs)"
  by (induction xs arbitrary: n) auto

lemma enumerate_mapE_Inr:
  "(\<And>i x. x \<in> set xs \<Longrightarrow> f (i, x) = Inr (g x)) \<Longrightarrow> mapE f (enumerate_list xs) = Inr (map g xs)"
proof -
  assume f: "\<And>i x. x \<in> set xs \<Longrightarrow> f (i, x) = Inr (g x)"
  have "mapE f (enumerate_list xs) = Inr (map (\<lambda>p. g (snd p)) (enumerate_list xs))"
    using f by (intro mapE_Inr) (auto simp: set_enumerate_list)
  also have "map (\<lambda>p. g (snd p)) (enumerate_list xs) = map g xs"
    using map_map[of g snd "enumerate_list xs"] by (simp add: comp_def)
  finally show ?thesis .
qed

lemma rank_log_probs:
  assumes cp: "0 < cp" "r < cp" and ss: "\<forall>x \<in> set ss. pk_ok x"
    and args: "\<not> la_allgather_cp args" "la_qkv_format args = ''thd''" "la_rollout_temperature args = 1"
  shows "get_log_probs_and_entropy (map2 lp) (map ent) cp r args (\<lambda>q. [rank_rows cp q pad ss]) (map pk_tokens ss)
      (map (\<lambda>x. int (length (pk_tokens x))) ss) (map (\<lambda>x. int (pk_response x)) ss) True None None None =
    Inr (map (\<lambda>x. piece cp r (int (pk_prompt x)) (whole_log_probs lp x)) ss,
         Some (map (\<lambda>x. piece cp r (int (pk_prompt x)) (whole_entropies ent x)) ss))"
proof -
  have len: "length (piece cp r (int (pk_prompt x)) (response_rows x)) = length (piece cp r (int (pk_prompt x)) (response_tokens x))"
    if "x \<in> set ss" for x
    using ss that by (intro piece_map2(2)) (simp add: response_lengths)
  have one: "sample_log_probs (map2 lp) (map ent) args True rl None None (i, rank_pieces cp r x) =
      Inr (piece cp r (int (pk_prompt x)) (whole_log_probs lp x), Some (piece cp r (int (pk_prompt x)) (whole_entropies ent x)))"
    if "x \<in> set ss" for i x rl
    using log_probs_chunks[of "piece cp r (int (pk_prompt x)) (response_tokens x)"
        "map (map Some) (piece cp r (int (pk_prompt x)) (response_rows x))" lp ent True "la_log_probs_chunk_size args"] len[OF that] ss that
    by (simp add: sample_log_probs_def piece_whole del: map_map)
  have "mapE (sample_log_probs (map2 lp) (map ent) args True rl None None) (enumerate_list (map (rank_pieces cp r) ss)) =
    Inr (map (\<lambda>x. (piece cp r (int (pk_prompt x)) (whole_log_probs lp x), Some (piece cp r (int (pk_prompt x)) (whole_entropies ent x)))) ss)" for rl
  proof -
    have "enumerate_list (map (rank_pieces cp r) ss) = map (\<lambda>(i, x). (i, rank_pieces cp r x)) (enumerate_list ss)"
      unfolding enumerate_list_def by (rule enumerate_of_map)
    moreover have "mapE (\<lambda>p. sample_log_probs (map2 lp) (map ent) args True rl None None (fst p, rank_pieces cp r (snd p))) (enumerate_list ss) =
      Inr (map (\<lambda>x. (piece cp r (int (pk_prompt x)) (whole_log_probs lp x), Some (piece cp r (int (pk_prompt x)) (whole_entropies ent x)))) ss)"
      using one by (intro enumerate_mapE_Inr) simp
    ultimately show ?thesis by (simp add: case_prod_beta mapE_map)
  qed
  then show ?thesis
    using args(1) unfolding get_log_probs_and_entropy_def local_log_probs_def responses_pieces[OF cp ss args] Let_def
    by (simp add: comp_def)
qed



section \<open>Loss masks and context parallelism\<close>

lemma pieces_cover:
  assumes "0 < cp" "1 \<le> P"
  shows "sum_list (map (\<lambda>r. length (piece cp r P xs)) [0..<cp]) = length xs"
proof -
  have "real (length (piece cp r P xs)) = sum_list (piece cp r P (map (\<lambda>_. 1 :: real) xs))" for r
    unfolding piece_map by (simp add: sum_list_triv)
  then have "real (sum_list (map (\<lambda>r. length (piece cp r P xs)) [0..<cp])) = real (length xs)"
    using sum_pieces[OF assms, of "map (\<lambda>_. 1 :: real) xs"]
    by (simp add: real_sum_list comp_def sum_list_triv)
  then show ?thesis by (simp only: of_nat_eq_iff)
qed

text \<open>C20. The loss masks of a micro-batch cover whole responses, but a rank of several has only its part of the
  rows: on some rank the policy's log probabilities always fail with an IndexError.\<close>

theorem masks_need_one_rank:
  assumes "1 < cp" "\<forall>x \<in> set (x # ss). pk_ok x" "length m = pk_response x"
    and "\<not> la_allgather_cp args" "la_qkv_format args = ''thd''" "la_rollout_temperature args = 1"
    and mb: "mb_unconcat_tokens mb = map pk_tokens (x # ss)" "mb_total_lengths mb = map (\<lambda>x. int (length (pk_tokens x))) (x # ss)"
      "mb_response_lengths mb = map (\<lambda>x. pk_response x) (x # ss)" "mb_max_seq_lens mb = None" "mb_loss_masks mb = m # ms"
  shows "\<exists>r < cp. \<forall>clp cent. batch_log_probs clp cent cp args mb (\<lambda>q. [rank_rows cp q pad (x # ss)]) r = Inl IndexError"
proof -
  let ?n = "\<lambda>r. length (piece cp r (int (pk_prompt x)) (response_rows x))"
  have x: "pk_ok x" using assms(2) by simp
  have R: "0 < pk_response x" "length (response_rows x) = pk_response x" using x response_lengths(1)[OF x] by (auto simp: pk_ok_def)
  have "\<exists>r < cp. ?n r \<noteq> pk_response x"
  proof (rule ccontr)
    assume "\<not> ?thesis"
    then have "map ?n [0..<cp] = map (\<lambda>_. pk_response x) [0..<cp]" by (intro map_cong) auto
    then have "cp * pk_response x = pk_response x"
      using pieces_cover[of cp "int (pk_prompt x)" "response_rows x"] assms(1) x R(2) by (simp add: sum_list_triv pk_ok_def del: map_eq_conv)
    then show False using assms(1) R(1) by simp
  qed
  then obtain r where r: "r < cp" "?n r \<noteq> pk_response x" by blast
  have cp: "0 < cp" using assms(1) by simp
  have e: "map int (map (\<lambda>x. pk_response x) (x # ss)) = map (\<lambda>x. int (pk_response x)) (x # ss)" by simp
  have "batch_log_probs clp cent cp args mb (\<lambda>q. [rank_rows cp q pad (x # ss)]) r = Inl IndexError" for clp cent
    unfolding batch_log_probs_def get_log_probs_and_entropy_def local_log_probs_def Let_def mb e
      responses_pieces[OF cp r(1) assms(2) assms(4-6)]
    using r(2) assms(3) by (simp add: enumerate_list_def sample_log_probs_def select_rows_def py_nth_def raise_unless_def)
  then show ?thesis using r(1) by blast
qed

theorem masks_need_one_rank_witness:
  "\<exists>r < 2. \<forall>clp cent. batch_log_probs clp cent 2
      \<lparr>la_qkv_format = ''thd'', la_rollout_temperature = 1, la_allgather_cp = False, la_log_probs_chunk_size = 2, la_kl_coef = 0,
       la_kl_loss_type = ''k1'', la_use_rollout_logprobs = False, la_advantage_estimator = ''ppo'', la_gamma = 1, la_lambd = 1,
       la_use_opd = False, la_opd_kl_coef = 0, la_normalize_advantages = False, la_eps_clip = 1 / 5, la_eps_clip_high = 1 / 5,
       la_use_opsm = False, la_opsm_delta = 0, la_get_mismatch_metrics = False, la_use_tis = False, la_tis_clip_low = 0, la_tis_clip = 2,
       la_calculate_per_token_loss = False, la_entropy_coef = 0, la_use_kl_loss = False, la_use_unbiased_kl = False, la_kl_loss_coef = 0,
       la_value_clip = 1, la_loss_type = ''policy_loss'', la_global_batch_size = 1\<rparr>
      \<lparr>mb_unconcat_tokens = [[7, 8, 9, 6]], mb_total_lengths = [4], mb_response_lengths = [2], mb_loss_masks = [[1, 1]], mb_max_seq_lens = None,
       mb_logits_masks = None, mb_dynamic_global_batch_size = None\<rparr> (\<lambda>q. [rank_rows 2 q [] [demo_packed]]) r = Inl IndexError"
  by (rule masks_need_one_rank[where m = "[1, 1]" and ms = "[]"]) (simp_all add: pk_ok_def demo_packed_def)

end
