(* ===== verification/Advantage_Rules.thy ===== *)
theory Advantage_Rules
  imports Advantages Ppo_Facts
begin

text \<open>
  The properties of \<open>compute_advantages_and_returns\<close>: what the discounts between the turns of a game
  amount to, and what whitening over a group of ranks gives.
\<close>

section \<open>Rewards between turns\<close>

definition disc :: "real \<Rightarrow> real list \<Rightarrow> real" where
  "disc g xs = sum_list (map (\<lambda>(i, r). g ^ i * r) (enumerate_list xs))"

lemma disc_shift: "sum_list (map (\<lambda>(i, r). g ^ i * r) (List.enumerate n xs)) = g ^ n * disc g xs"
proof -
  have "sum_list (map (\<lambda>(i, r). g ^ i * r) (List.enumerate (m + n) xs)) = g ^ n * sum_list (map (\<lambda>(i, r). g ^ i * r) (List.enumerate m xs))" for m
  proof (induction xs arbitrary: m)
    case (Cons x xs)
    then show ?case using Cons.IH[of "Suc m"] by (simp add: power_add algebra_simps)
  qed simp
  from this[of 0] show ?thesis by (simp add: disc_def enumerate_list_def)
qed

lemma disc_append: "disc g (xs @ ys) = disc g xs + g ^ length xs * disc g ys"
proof -
  have "List.enumerate 0 (xs @ ys) = List.enumerate 0 xs @ List.enumerate (length xs) ys" by (simp add: enumerate_append_eq)
  then have "disc g (xs @ ys) = disc g xs + sum_list (map (\<lambda>(i, r). g ^ i * r) (List.enumerate (length xs) ys))"
    by (simp add: disc_def enumerate_list_def)
  then show ?thesis by (simp add: disc_shift)
qed

lemma disc_Nil [simp]: "disc g [] = 0"
  by (simp add: disc_def enumerate_list_def)

lemma turn_sum:
  assumes "length v = length items" "t \<le> length items"
    and "g = (!) (map (\<lambda>it. gamma ^ length it) items)" "r = map (disc gamma) items"
  shows "gae_sum g g r v (length items) t + (if t < length items then v ! t else 0) = disc gamma (concat (drop t items))"
  using assms(2)
proof (induction "length items - t" arbitrary: t)
  case 0
  then show ?case by (simp add: gae_sum_end)
next
  case (Suc n)
  then have t: "t < length items" by simp
  have "drop t items = items ! t # drop (Suc t) items" using t by (simp add: Cons_nth_drop_Suc)
  then have d: "disc gamma (concat (drop t items)) = disc gamma (items ! t) + gamma ^ length (items ! t) * disc gamma (concat (drop (Suc t) items))"
    by (simp add: disc_append)
  have IH: "gae_sum g g r v (length items) (Suc t) + (if Suc t < length items then v ! Suc t else 0) = disc gamma (concat (drop (Suc t) items))"
    using Suc t by (intro Suc.hyps(1)) auto
  show ?case
    using t unfolding gae_sum_step[OF t] gae_delta_def d IH[symmetric] by (simp add: assms(3,4) Let_def algebra_simps)
qed

text \<open>A response of several turns: for each trained token the rewards up to the next one.\<close>

record turn_case =
  tc_prompt :: int
  tc_mask :: "real list"
  tc_values :: "real list"
  tc_items :: "real list list"

abbreviation tc_length :: "turn_case \<Rightarrow> nat" where
  "tc_length c \<equiv> length (tc_values c)"

definition tc_ok :: "turn_case \<Rightarrow> bool" where
  "tc_ok c \<longleftrightarrow> 1 \<le> tc_prompt c \<and> length (tc_mask c) = tc_length c \<and> length (tc_items c) = trained (tc_mask c)"

definition to_turn :: "real \<Rightarrow> real \<Rightarrow> turn_case \<Rightarrow> turn_sample" where
  "to_turn gamma lambd c = \<lparr>ts_prompt = tc_prompt c, ts_mask = tc_mask c, ts_values = tc_values c,
     ts_rewards = map (disc gamma) (tc_items c), ts_gammas = map (\<lambda>it. gamma ^ length it) (tc_items c),
     ts_lambdas = map (\<lambda>it. (lambd * gamma) ^ length it) (tc_items c)\<rparr>"

lemma group_rows_map:
  assumes "\<And>q. rows q = Inr (map (\<lambda>c. f c q) cs)"
  shows "group_rows cp rows rank = Inr (map f cs)"
proof -
  have "mapE rows [0..<cp] = Inr (map (\<lambda>q. map (\<lambda>c. f c q) cs) [0..<cp])" by (intro mapE_Inr) (simp add: assms)
  moreover have "map (\<lambda>i q. if i < length cs then f (cs ! i) q else []) [0..<length cs] = map f cs"
    by (intro nth_equalityI) auto
  ultimately show ?thesis by (simp add: group_rows_def assms cong: if_cong)
qed

lemma turn_terms_eq: "turn_terms gamma lambd it = (gamma ^ length it, (lambd * gamma) ^ length it, disc gamma it)"
  by (simp add: turn_terms_def disc_def)

lemma ppo_turns:
  assumes cp: "0 < cp" "rank < cp" and cs: "\<forall>c \<in> set cs. tc_ok c" "\<exists>c \<in> set cs. 0 < trained (tc_mask c)"
    and sb: "sb_rewards sb = TurnRewards (map tc_items cs)" "sb_total_lengths sb = map (\<lambda>c. tc_prompt c + int (tc_length c)) cs"
      "sb_response_lengths sb = map (\<lambda>c. tc_length c) cs" "sb_loss_masks sb = map tc_mask cs"
    and vals: "\<And>q. rb_values (ranks q) = Some (map (\<lambda>c. piece cp q (tc_prompt c) (tc_values c)) cs)"
  shows "ppo_advantages cp rank args sb ranks =
    (let x = to_turn (la_gamma args) (la_lambd args) in
     Inr (map (\<lambda>c. piece cp rank (tc_prompt c) (scatter (tc_mask c) (turn_adv (x c)))) cs,
          map (\<lambda>c. piece cp rank (tc_prompt c) (scatter (tc_mask c) (map2 (+) (turn_adv (x c)) (compress (tc_mask c) (tc_values c))))) cs))"
proof -
  let ?x = "to_turn (la_gamma args) (la_lambd args)"
  have vr: "value_rows cp ranks rank = Inr (map (\<lambda>c q. piece cp q (tc_prompt c) (tc_values c)) cs)"
    unfolding value_rows_def by (rule group_rows_map) (simp add: vals)
  have ok: "turn_ok y" if "y \<in> set (map ?x cs)" for y
    using cs(1) that by (auto simp: turn_ok_def to_turn_def tc_ok_def)
  have ne: "map ?x cs \<noteq> []" "\<exists>y \<in> set (map ?x cs). 0 < trained (ts_mask y)" using cs(2) by (auto simp: to_turn_def)
  have "(map tc_items cs \<noteq> []) = True" using ne(1) by simp
  then show ?thesis
    using batch1_turns[OF cp ne(1) ok ne(2)] vr
    by (simp add: ppo_advantages_def sb Let_def turn_terms_eq to_turn_def comp_def del: map_is_Nil_conv)
qed

lemma turn_adv_one:
  assumes "tc_ok c"
  shows "map2 (+) (turn_adv (to_turn gamma 1 c)) (compress (tc_mask c) (tc_values c)) =
    map (\<lambda>t. disc gamma (concat (drop t (tc_items c)))) [0..<length (tc_items c)]"
proof -
  let ?v = "compress (tc_mask c) (tc_values c)" and ?g = "(!) (map (\<lambda>it. gamma ^ length it) (tc_items c))"
  let ?n = "length (tc_items c)"
  have n: "trained (tc_mask c) = ?n" "length ?v = ?n"
    using assms compress_length[of "tc_mask c" "tc_values c"] by (auto simp: tc_ok_def)
  have a: "turn_adv (to_turn gamma 1 c) = map (gae_sum ?g ?g (map (disc gamma) (tc_items c)) ?v ?n) [0..<?n]"
    by (simp add: turn_adv_def to_turn_def gae_loop_eq n(1))
  show ?thesis unfolding a
  proof (intro nth_equalityI)
    fix i assume "i < length (map2 (+) (map (gae_sum ?g ?g (map (disc gamma) (tc_items c)) ?v ?n) [0..<?n]) ?v)"
    then have i: "i < ?n" using n(2) by simp
    then show "map2 (+) (map (gae_sum ?g ?g (map (disc gamma) (tc_items c)) ?v ?n) [0..<?n]) ?v ! i =
        map (\<lambda>t. disc gamma (concat (drop t (tc_items c)))) [0..<?n] ! i"
      using n(2) turn_sum[OF n(2) less_imp_le[OF i] refl refl, of gamma] by simp
  qed (use n(2) in simp)
qed

text \<open>C21. With \<open>lambd\<close> one, the return at a trained token of a response of several turns is the sum of all rewards
  from this token on, each discounted by its distance in rewards, whatever the values are: the
  discounts by powers between the turns lose nothing.  Other tokens have return zero.\<close>

theorem turn_returns:
  assumes "0 < cp" "rank < cp" "\<forall>c \<in> set cs. tc_ok c" "\<exists>c \<in> set cs. 0 < trained (tc_mask c)" "la_lambd args = 1"
    and "sb_rewards sb = TurnRewards (map tc_items cs)" "sb_total_lengths sb = map (\<lambda>c. tc_prompt c + int (tc_length c)) cs"
      "sb_response_lengths sb = map (\<lambda>c. tc_length c) cs" "sb_loss_masks sb = map tc_mask cs"
    and "\<forall>q. rb_values (ranks q) = Some (map (\<lambda>c. piece cp q (tc_prompt c) (tc_values c)) cs)"
  shows "\<exists>A R. ppo_advantages cp rank args sb ranks =
      Inr (map (\<lambda>c. piece cp rank (tc_prompt c) (A c)) cs, map (\<lambda>c. piece cp rank (tc_prompt c) (R c)) cs) \<and>
    (\<forall>c \<in> set cs. compress (tc_mask c) (R c) = map (\<lambda>t. disc (la_gamma args) (concat (drop t (tc_items c)))) [0..<length (tc_items c)] \<and>
       (\<forall>j < tc_length c. tc_mask c ! j \<noteq> 1 \<longrightarrow> R c ! j = 0 \<and> A c ! j = 0))"
proof -
  let ?x = "to_turn (la_gamma args) 1"
  let ?A = "\<lambda>c. scatter (tc_mask c) (turn_adv (?x c))"
  let ?R = "\<lambda>c. scatter (tc_mask c) (map2 (+) (turn_adv (?x c)) (compress (tc_mask c) (tc_values c)))"
  have run: "ppo_advantages cp rank args sb ranks =
      Inr (map (\<lambda>c. piece cp rank (tc_prompt c) (?A c)) cs, map (\<lambda>c. piece cp rank (tc_prompt c) (?R c)) cs)"
    using ppo_turns[OF assms(1-4,6-9), of ranks args] assms(5,10) by (simp add: Let_def)
  have "compress (tc_mask c) (?R c) = map (\<lambda>t. disc (la_gamma args) (concat (drop t (tc_items c)))) [0..<length (tc_items c)]"
    "\<forall>j < tc_length c. tc_mask c ! j \<noteq> 1 \<longrightarrow> ?R c ! j = 0 \<and> ?A c ! j = 0" if c: "c \<in> set cs" for c
  proof -
    have ok: "tc_ok c" using assms(3) c by blast
    show "compress (tc_mask c) (?R c) = map (\<lambda>t. disc (la_gamma args) (concat (drop t (tc_items c)))) [0..<length (tc_items c)]"
      unfolding turn_adv_one[OF ok] using ok by (intro compress_scatter) (simp add: tc_ok_def)
    show "\<forall>j < tc_length c. tc_mask c ! j \<noteq> 1 \<longrightarrow> ?R c ! j = 0 \<and> ?A c ! j = 0"
      using ok by (auto simp: tc_ok_def scatter_off)
  qed
  then show ?thesis using run by (intro exI[of _ ?A] exI[of _ ?R]) simp
qed

definition demo_turns :: turn_case where
  "demo_turns = \<lparr>tc_prompt = 3, tc_mask = [1, 0, 1], tc_values = [5, 6, 7], tc_items = [[0, 2], [4]]\<rparr>"

definition demo_shared :: shared_batch where
  "demo_shared = \<lparr>sb_rewards = TurnRewards [[[0, 2], [4]]], sb_response_lengths = [3], sb_total_lengths = [6],
     sb_loss_masks = [[1, 0, 1]], sb_max_seq_lens = None\<rparr>"

definition demo_adv_args :: adv_args where
  "demo_adv_args = \<lparr>la_qkv_format = ''thd'', la_rollout_temperature = 1, la_allgather_cp = False, la_log_probs_chunk_size = 2,
     la_kl_coef = 0, la_kl_loss_type = ''k1'', la_use_rollout_logprobs = False, la_advantage_estimator = ''ppo'', la_gamma = 1 / 2,
     la_lambd = 1, la_use_opd = False, la_opd_kl_coef = 0, la_normalize_advantages = False\<rparr>"

theorem turn_returns_witness:
  "\<exists>A R. ppo_advantages 1 0 demo_adv_args demo_shared
      (\<lambda>_. \<lparr>rb_log_probs = None, rb_rollout_log_probs = None, rb_ref_log_probs = None, rb_values = Some [[5, 6, 7]], rb_teacher_log_probs = None\<rparr>) =
      Inr ([A], [R]) \<and> compress [1, 0, 1] R = [2, 4] \<and> R ! 1 = 0"
proof -
  have ok: "tc_ok demo_turns" "0 < trained (tc_mask demo_turns)" by (simp_all add: tc_ok_def trained_def demo_turns_def)
  have d: "map (\<lambda>t. disc (1 / 2) (concat (drop t [[0, 2], [4]]))) [0..<2] = [2, 4]"
    by (simp add: disc_def enumerate_list_def upt_rec numeral_2_eq_2 power2_eq_square)
  let ?ranks = "\<lambda>_ :: nat. \<lparr>rb_log_probs = None, rb_rollout_log_probs = None, rb_ref_log_probs = None, rb_values = Some [[5, 6, 7 :: real]],
    rb_teacher_log_probs = None\<rparr>"
  have "\<exists>A R. ppo_advantages 1 0 demo_adv_args demo_shared ?ranks =
      Inr (map (\<lambda>c. piece 1 0 (tc_prompt c) (A c)) [demo_turns], map (\<lambda>c. piece 1 0 (tc_prompt c) (R c)) [demo_turns]) \<and>
    (\<forall>c \<in> set [demo_turns]. compress (tc_mask c) (R c) = map (\<lambda>t. disc (la_gamma demo_adv_args) (concat (drop t (tc_items c)))) [0..<length (tc_items c)] \<and>
       (\<forall>j < tc_length c. tc_mask c ! j \<noteq> 1 \<longrightarrow> R c ! j = 0 \<and> A c ! j = 0))"
    by (rule turn_returns) (simp_all add: ok, simp_all add: demo_adv_args_def demo_shared_def demo_turns_def)
  then obtain A R where AR: "ppo_advantages 1 0 demo_adv_args demo_shared ?ranks = Inr ([A demo_turns], [R demo_turns])"
    "compress (tc_mask demo_turns) (R demo_turns) = map (\<lambda>t. disc (la_gamma demo_adv_args) (concat (drop t (tc_items demo_turns)))) [0..<length (tc_items demo_turns)]"
    "\<forall>j < tc_length demo_turns. tc_mask demo_turns ! j \<noteq> 1 \<longrightarrow> R demo_turns ! j = 0 \<and> A demo_turns ! j = 0"
    by auto
  have "compress [1, 0, 1] (R demo_turns) = [2, 4]"
    using AR(2) d by (simp add: demo_turns_def demo_adv_args_def numeral_2_eq_2)
  moreover have "R demo_turns ! 1 = 0" using AR(3) by (simp add: demo_turns_def)
  ultimately show ?thesis using AR(1) by blast
qed

section \<open>Whitening\<close>

definition pairs_of :: "(real list \<times> real list) list \<Rightarrow> (real \<times> real) list" where
  "pairs_of ranks = concat (map (\<lambda>(v, m). zip v m) ranks)"

definition masked_total :: "(real \<Rightarrow> real) \<Rightarrow> (real list \<times> real list) list \<Rightarrow> real" where
  "masked_total f ranks = sum_list (map (\<lambda>(x, m). m * f x) (pairs_of ranks))"

definition mask_count :: "(real list \<times> real list) list \<Rightarrow> real" where
  "mask_count ranks = sum_list (map snd (pairs_of ranks))"

definition whiten_ok :: "(real list \<times> real list) list \<Rightarrow> bool" where
  "whiten_ok ranks \<longleftrightarrow> (\<forall>(v, m) \<in> set ranks. length v = length m \<and> set m \<subseteq> {0, 1})"

lemma whiten_stats_eq:
  assumes "whiten_ok ranks"
  shows "whiten_stats ranks = Inr (masked_total (\<lambda>x. x) ranks, masked_total (\<lambda>x. x ^ 2) ranks, mask_count ranks)"
proof -
  have "mapE (\<lambda>(vals, msk). bindE (tmul vals msk) (\<lambda>vm. bindE (tmul (map (\<lambda>x. x ^ 2) vals) msk) (\<lambda>vm2.
      Inr (sum_list vm, sum_list vm2, sum_list msk)))) ranks =
    Inr (map (\<lambda>(v, m). (sum_list (map2 (*) v m), sum_list (map2 (*) (map (\<lambda>x. x ^ 2) v) m), sum_list m)) ranks)"
    using assms by (intro mapE_Inr) (auto simp: whiten_ok_def)
  moreover have "sum_list (map fst (map (\<lambda>(v, m). (sum_list (map2 (*) v m), sum_list (map2 (*) (map (\<lambda>x. x ^ 2) v) m), sum_list m)) ranks)) =
      masked_total (\<lambda>x. x) ranks"
    unfolding masked_total_def pairs_of_def by (induction ranks) (auto simp: mult.commute)
  moreover have "sum_list (map (\<lambda>s. fst (snd s)) (map (\<lambda>(v, m). (sum_list (map2 (*) v m), sum_list (map2 (*) (map (\<lambda>x. x ^ 2) v) m), sum_list m)) ranks)) =
      masked_total (\<lambda>x. x ^ 2) ranks"
    unfolding masked_total_def pairs_of_def
    by (induction ranks) (auto simp: mult.commute zip_map1 comp_def case_prod_beta)
  moreover have "sum_list (map (\<lambda>s. snd (snd s)) (map (\<lambda>(v, m). (sum_list (map2 (*) v m), sum_list (map2 (*) (map (\<lambda>x. x ^ 2) v) m), sum_list m)) ranks)) =
      mask_count ranks"
    using assms unfolding mask_count_def pairs_of_def whiten_ok_def by (induction ranks) auto
  ultimately show ?thesis by (simp add: whiten_stats_def)
qed

lemma masked_total_linear:
  "masked_total (\<lambda>x. a * f x + b * g x + c) ranks = a * masked_total f ranks + b * masked_total g ranks + c * mask_count ranks"
proof -
  have "sum_list (map (\<lambda>(x, m). m * (a * f x + b * g x + c)) ps) =
    a * sum_list (map (\<lambda>(x, m). m * f x) ps) + b * sum_list (map (\<lambda>(x, m). m * g x) ps) + c * sum_list (map snd ps)" for ps
    by (induction ps) (auto simp: algebra_simps)
  then show ?thesis by (simp add: masked_total_def mask_count_def)
qed

lemma masked_total_nonneg:
  assumes "whiten_ok ranks" "\<And>x. 0 \<le> f x"
  shows "0 \<le> masked_total f ranks"
proof -
  have "0 \<le> m" if "(x, m) \<in> set (pairs_of ranks)" for x m
    using assms(1) that by (fastforce simp: pairs_of_def whiten_ok_def dest: set_zip_rightD)
  then show ?thesis unfolding masked_total_def using assms(2) by (intro sum_list_nonneg) auto
qed

text \<open>Whitening with the statistics of all ranks of a group maps the values of every rank by one increasing
  function, after which the trained entries of all ranks add up to zero and their squares to at most
  their number less one; without trained entries on any rank it raises ValueError.\<close>

lemma whiten_normalizes:
  assumes "whiten_ok ranks" "0 < eps"
  shows "if mask_count ranks = 0 then \<forall>vals. distributed_masked_whiten ranks vals True eps = Inl ValueError
    else \<exists>W. (\<forall>vals. distributed_masked_whiten ranks vals True eps = Inr (map W vals)) \<and> strict_mono W \<and>
      masked_total W ranks = 0 \<and> (2 \<le> mask_count ranks \<longrightarrow> masked_total (\<lambda>x. W x ^ 2) ranks \<le> mask_count ranks - 1)"
proof (cases "mask_count ranks = 0")
  case True
  then show ?thesis by (simp add: distributed_masked_whiten_def whiten_stats_eq[OF assms(1)])
next
  case False
  define N where "N = mask_count ranks"
  define S where "S = masked_total (\<lambda>x. x) ranks"
  define Q where "Q = masked_total (\<lambda>x. x ^ 2) ranks"
  define V where "V = Q / N - (S / N) ^ 2"
  define var where "var = (if N \<ge> 2 then V * (N / (N - 1)) else V)"
  define c where "c = 1 / sqrt (var + eps)"
  have "masked_total (\<lambda>_. 1) ranks = N" 
    by (simp add: N_def masked_total_def mask_count_def case_prod_unfold)
  moreover have "0 \<le> masked_total (\<lambda>_. 1) ranks" by (rule masked_total_nonneg[OF assms(1)]) simp
  ultimately have N: "0 < N" using False N_def by linarith
  have sq: "masked_total (\<lambda>x. (x - S / N) ^ 2) ranks = N * V"
  proof -
    have "(\<lambda>x. (x - S / N) ^ 2) = (\<lambda>x. 1 * x ^ 2 + (- 2 * (S / N)) * x + (S / N) ^ 2)" by (simp add: power2_eq_square algebra_simps fun_eq_iff)
    then have "masked_total (\<lambda>x. (x - S / N) ^ 2) ranks = 1 * Q + (- 2 * (S / N)) * S + (S / N) ^ 2 * N"
      by (simp only: masked_total_linear Q_def[symmetric] S_def[symmetric] N_def[symmetric])
    also have "\<dots> = N * V" using N by (simp add: V_def field_simps power2_eq_square)
    finally show ?thesis .
  qed
  moreover have "0 \<le> masked_total (\<lambda>x. (x - S / N) ^ 2) ranks" by (rule masked_total_nonneg[OF assms(1)]) simp
  ultimately have V: "0 \<le> V" using N by (simp add: zero_le_mult_iff)
  then have var: "0 \<le> var" using N by (simp add: var_def)
  have c: "0 < c" "c ^ 2 = 1 / (var + eps)" using var assms(2) by (simp_all add: c_def power_divide)
  let ?W = "\<lambda>x. (x - S / N) * c"
  have run: "distributed_masked_whiten ranks vals True eps = Inr (map ?W vals)" for vals
    using False unfolding distributed_masked_whiten_def whiten_stats_eq[OF assms(1)] bindE_simps prod.case Let_def
      N_def[symmetric] S_def[symmetric] Q_def[symmetric] V_def[symmetric] var_def[symmetric] c_def[symmetric] by simp
  have "?W = (\<lambda>x. c * x + 0 * x + (- c * (S / N)))" by (simp add: algebra_simps fun_eq_iff)
  then have "masked_total ?W ranks = c * S + 0 * S + (- c * (S / N)) * N"
    by (simp only: masked_total_linear S_def[symmetric] N_def[symmetric])
  then have zero: "masked_total ?W ranks = 0" using N by simp
  have "(\<lambda>x. ?W x ^ 2) = (\<lambda>x. c ^ 2 * (x - S / N) ^ 2 + 0 * x + 0)" by (simp add: power_mult_distrib mult.commute fun_eq_iff)
  then have "masked_total (\<lambda>x. ?W x ^ 2) ranks = c ^ 2 * (N * V) + 0 * S + 0 * N"
    by (simp only: masked_total_linear S_def[symmetric] N_def[symmetric] sq)
  then have tot: "masked_total (\<lambda>x. ?W x ^ 2) ranks = N * V / (var + eps)" by (simp add: c(2))
  have "masked_total (\<lambda>x. ?W x ^ 2) ranks \<le> N - 1" if "2 \<le> N"
  proof -
    have "N * V = (N - 1) * var" using that by (simp add: var_def)
    moreover have "(N - 1) * var \<le> (N - 1) * (var + eps)" using that assms(2) by (intro mult_left_mono) auto
    ultimately show ?thesis unfolding tot using var assms(2) by (simp add: divide_le_eq)
  qed
  moreover have "strict_mono ?W" using c(1) by (intro strict_monoI mult_strict_right_mono) auto
  ultimately have "\<exists>W. (\<forall>vals. distributed_masked_whiten ranks vals True eps = Inr (map W vals)) \<and> strict_mono W \<and>
      masked_total W ranks = 0 \<and> (2 \<le> N \<longrightarrow> masked_total (\<lambda>x. W x ^ 2) ranks \<le> N - 1)"
    using run zero by blast
  then show ?thesis unfolding if_not_P[OF False] N_def .
qed

end
