(* ===== verification/Data_Source.thy ===== *)
theory Data_Source
  imports Sample_Types
begin

text \<open>
  \<open>rollout/data_source.py\<close> with \<open>Dataset.shuffle\<close> of \<open>utils/data.py\<close>: prompts are handed out in the
  order of the epoch, each copied into a group of samples, with a buffer of groups that were put back.
  The order of an epoch is drawn by Python's generator from a seed: \<open>perm seed n\<close> is a parameter.
  Checkpoints are a map from rollout numbers to saved states.
\<close>

section \<open>The data set\<close>

type_synonym shuffler = "int \<Rightarrow> nat \<Rightarrow> nat list"

definition shuffles :: "shuffler \<Rightarrow> bool" where
  "shuffles perm \<longleftrightarrow> (\<forall>s n. mset (perm s n) = mset [0..<n])"

record dataset =
  dt_origin_samples :: "sample list"
  dt_samples :: "sample list"
  dt_epoch_id :: int
  dt_seed :: int

definition new_dataset :: "sample list \<Rightarrow> int \<Rightarrow> dataset" where
  "new_dataset origin_samples seed =
     \<lparr>dt_origin_samples = origin_samples, dt_samples = origin_samples, dt_epoch_id = -1, dt_seed = seed\<rparr>"

definition shuffle :: "shuffler \<Rightarrow> int \<Rightarrow> dataset \<Rightarrow> dataset" where
  "shuffle perm new_epoch_id d =
     (if dt_epoch_id d = new_epoch_id then d
      else d\<lparr>dt_samples := map ((!) (dt_origin_samples d)) (perm (dt_seed d + new_epoch_id) (length (dt_samples d))),
             dt_epoch_id := new_epoch_id\<rparr>)"

section \<open>The source\<close>

record ds_args =
  da_rollout_global_dataset :: bool
  da_rollout_shuffle :: bool
  da_n_samples_per_prompt :: nat

record data_source =
  src_epoch_id :: int
  src_sample_group_index :: int
  src_sample_index :: int
  src_sample_offset :: int
  src_metadata :: "(string, pyval) dict"
  src_dataset :: "dataset option"

definition maybe_shuffle :: "shuffler \<Rightarrow> ds_args \<Rightarrow> int \<Rightarrow> dataset option \<Rightarrow> dataset option" where
  "maybe_shuffle perm args epoch_id d = (if da_rollout_shuffle args then map_option (shuffle perm epoch_id) d else d)"

text \<open>\<open>loaded\<close> is the data set read from the prompt data, if there is any.\<close>

definition new_source :: "shuffler \<Rightarrow> ds_args \<Rightarrow> dataset option \<Rightarrow> data_source" where
  "new_source perm args loaded =
     \<lparr>src_epoch_id = 0, src_sample_group_index = 0, src_sample_index = 0, src_sample_offset = 0, src_metadata = [],
      src_dataset = (if da_rollout_global_dataset args then maybe_shuffle perm args 0 loaded else None)\<rparr>"

text \<open>The prompts of one call, over the end of the epoch into the next.\<close>

definition take_prompts :: "shuffler \<Rightarrow> ds_args \<Rightarrow> int \<Rightarrow> data_source \<Rightarrow> sample list \<times> data_source" where
  "take_prompts perm args num_samples s =
     (case src_dataset s of
        None \<Rightarrow> (replicate (nat num_samples) sample_new, s)
      | Some d \<Rightarrow>
          if src_sample_offset s + num_samples \<le> int (length (dt_samples d))
          then (py_slice (dt_samples d) (src_sample_offset s) (src_sample_offset s + num_samples),
                s\<lparr>src_sample_offset := src_sample_offset s + num_samples\<rparr>)
          else
            let prompt_samples = py_slice (dt_samples d) (src_sample_offset s) (int (length (dt_samples d)));
                num_samples = num_samples - int (length prompt_samples);
                epoch_id = src_epoch_id s + 1;
                d' = (if da_rollout_shuffle args then shuffle perm epoch_id d else d) in
            (prompt_samples @ py_slice (dt_samples d') 0 num_samples,
             s\<lparr>src_epoch_id := epoch_id, src_dataset := Some d', src_sample_offset := num_samples\<rparr>))"

text \<open>One group of copies of a prompt, numbered.\<close>

definition sample_group :: "nat \<Rightarrow> int \<Rightarrow> int \<Rightarrow> sample \<Rightarrow> sample list" where
  "sample_group n group_index first_index prompt_sample =
     map (\<lambda>i. prompt_sample\<lparr>smp_group_index := Some group_index, smp_index := Some (first_index + int i)\<rparr>) [0..<n]"

fun sample_groups :: "nat \<Rightarrow> int \<Rightarrow> int \<Rightarrow> sample list \<Rightarrow> sample list list" where
  "sample_groups n group_index first_index [] = []"
| "sample_groups n group_index first_index (p # ps) =
     sample_group n group_index first_index p # sample_groups n (group_index + 1) (first_index + int n) ps"

definition get_samples :: "shuffler \<Rightarrow> ds_args \<Rightarrow> int \<Rightarrow> data_source \<Rightarrow> sample list list \<times> data_source" where
  "get_samples perm args num_samples s =
     (let (prompts, s) = take_prompts perm args num_samples s;
          n = da_n_samples_per_prompt args in
      (sample_groups n (src_sample_group_index s) (src_sample_index s) prompts,
       s\<lparr>src_sample_group_index := src_sample_group_index s + int (length prompts),
         src_sample_index := src_sample_index s + int (length prompts * n)\<rparr>))"

section \<open>Checkpoints\<close>

record ds_state =
  st_sample_offset :: int
  st_epoch_id :: int
  st_sample_group_index :: int
  st_sample_index :: int
  st_metadata :: "(string, pyval) dict"

type_synonym checkpoints = "int \<rightharpoonup> ds_state"

definition save :: "ds_args \<Rightarrow> int \<Rightarrow> data_source \<Rightarrow> checkpoints \<Rightarrow> checkpoints" where
  "save args rollout_id s store =
     (if \<not> da_rollout_global_dataset args then store
      else store(rollout_id \<mapsto> \<lparr>st_sample_offset = src_sample_offset s, st_epoch_id = src_epoch_id s,
             st_sample_group_index = src_sample_group_index s, st_sample_index = src_sample_index s, st_metadata = src_metadata s\<rparr>))"

text \<open>\<open>store\<close> is the directory \<open>args.load\<close>, when it is set.\<close>

definition load :: "shuffler \<Rightarrow> ds_args \<Rightarrow> int \<Rightarrow> checkpoints option \<Rightarrow> data_source \<Rightarrow> data_source" where
  "load perm args rollout_id store s =
     (if \<not> da_rollout_global_dataset args then s
      else case store of None \<Rightarrow> s
      | Some files \<Rightarrow>
          (case files rollout_id of None \<Rightarrow> s
           | Some st \<Rightarrow>
               \<lparr>src_epoch_id = st_epoch_id st, src_sample_group_index = st_sample_group_index st, src_sample_index = st_sample_index st,
                src_sample_offset = st_sample_offset st, src_metadata = st_metadata st,
                src_dataset = maybe_shuffle perm args (st_epoch_id st) (src_dataset s)\<rparr>))"

definition source_length :: "data_source \<Rightarrow> nat" where
  "source_length s = (case src_dataset s of None \<Rightarrow> 0 | Some d \<Rightarrow> length (dt_samples d))"

text \<open>\<open>RolloutDataSource.add_samples\<close>: a source without a buffer takes nothing back.\<close>

definition source_add_samples :: "sample list list \<Rightarrow> data_source \<Rightarrow> data_source result" where
  "source_add_samples samples s = Inl RuntimeError"

section \<open>The source with a buffer\<close>

record buffered = data_source +
  src_buffer :: "sample list list"

type_synonym buffer_filter = "sample list list \<Rightarrow> int \<Rightarrow> sample list list \<times> sample list list"

definition pop_first :: buffer_filter where
  "pop_first buffer num_samples =
     (let num_to_pop = min (int (length buffer)) num_samples in
      (py_slice buffer 0 num_to_pop,
       drop (length (py_slice buffer 0 num_to_pop)) buffer))"

definition get_samples_from_buffer :: "buffer_filter \<Rightarrow> int \<Rightarrow> buffered \<Rightarrow> sample list list \<times> buffered" where
  "get_samples_from_buffer flt num_samples b =
     (if src_buffer b = [] \<or> num_samples = 0 then ([], b)
      else let (samples, rest) = flt (src_buffer b) num_samples in (samples, b\<lparr>src_buffer := rest\<rparr>))"

definition with_source :: "data_source \<Rightarrow> buffered \<Rightarrow> buffered" where
  "with_source s b = data_source.extend s (buffered.fields (src_buffer b))"

definition buffered_get_samples ::
  "shuffler \<Rightarrow> buffer_filter \<Rightarrow> ds_args \<Rightarrow> int \<Rightarrow> buffered \<Rightarrow> sample list list \<times> buffered" where
  "buffered_get_samples perm flt args num_samples b =
     (let (samples, b) = get_samples_from_buffer flt num_samples b;
          num_samples = num_samples - int (length samples) in
      if num_samples = 0 then (samples, b)
      else let (more, s) = get_samples perm args num_samples (data_source.truncate b) in (samples @ more, with_source s b))"

text \<open>Groups are appended one by one, so those before one of a wrong size stay in the buffer.\<close>

definition add_samples :: "ds_args \<Rightarrow> sample list list \<Rightarrow> buffered \<Rightarrow> buffered \<times> unit result" where
  "add_samples args samples b =
     (let ok = (\<lambda>g. length g = da_n_samples_per_prompt args) in
      (b\<lparr>src_buffer := src_buffer b @ takeWhile ok samples\<rparr>, assertE (list_all ok samples)))"

definition update_metadata :: "(string, pyval) dict \<Rightarrow> data_source \<Rightarrow> data_source" where
  "update_metadata m s = s\<lparr>src_metadata := fold (\<lambda>(k, v). dset k v) m (src_metadata s)\<rparr>"

section \<open>Reading rollout data\<close>

text \<open>\<open>get_minimum_num_micro_batch_size\<close>: first fit.\<close>

fun first_fit :: "int \<Rightarrow> int \<Rightarrow> int list \<Rightarrow> int list" where
  "first_fit bound len [] = [len]"
| "first_fit bound len (b # bs) = (if b + len \<le> bound then (b + len) # bs else b # first_fit bound len bs)"

definition micro_batches :: "int list \<Rightarrow> int \<Rightarrow> int list" where
  "micro_batches total_lengths max_tokens_per_gpu = fold (\<lambda>len bs. first_fit max_tokens_per_gpu len bs) total_lengths []"

definition get_minimum_num_micro_batch_size :: "int list \<Rightarrow> int \<Rightarrow> nat" where
  "get_minimum_num_micro_batch_size total_lengths max_tokens_per_gpu = length (micro_batches total_lengths max_tokens_per_gpu)"

end
