(* ===== verification/Data_Rules.thy ===== *)
theory Data_Rules
  imports Data_Source
begin

text \<open>
  The properties of the data source: the stream of prompts runs through the epochs in order, whatever
  the sizes of the requests, and a source restored from a checkpoint goes on as the one that was saved.
\<close>

section \<open>The order of an epoch\<close>

definition epoch_order :: "shuffler \<Rightarrow> ds_args \<Rightarrow> sample list \<Rightarrow> int \<Rightarrow> int \<Rightarrow> sample list" where
  "epoch_order perm args origin seed e =
     (if da_rollout_shuffle args then map ((!) origin) (perm (seed + e) (length origin)) else origin)"

lemma shuffles_length: "shuffles perm \<Longrightarrow> length (perm s n) = n"
  unfolding shuffles_def by (metis diff_zero length_upt size_mset)

lemma epoch_order_length: "shuffles perm \<Longrightarrow> length (epoch_order perm args origin seed e) = length origin"
  by (simp add: epoch_order_def shuffles_length)

lemma epoch_order_mset:
  assumes "shuffles perm"
  shows "mset (epoch_order perm args origin seed e) = mset origin"
proof -
  have "mset (map ((!) origin) (perm (seed + e) (length origin))) = image_mset ((!) origin) (mset [0..<length origin])"
    using assms by (simp add: shuffles_def)
  also have "\<dots> = mset (map ((!) origin) [0..<length origin])" by (simp only: mset_map)
  also have "\<dots> = mset origin" by (simp only: map_nth)
  finally show ?thesis by (simp add: epoch_order_def)
qed

text \<open>The prompt at place \<open>j\<close> of the whole stream.\<close>

definition stream_prompt :: "shuffler \<Rightarrow> ds_args \<Rightarrow> sample list \<Rightarrow> int \<Rightarrow> nat \<Rightarrow> sample" where
  "stream_prompt perm args origin seed j = epoch_order perm args origin seed (int (j div length origin)) ! (j mod length origin)"

section \<open>The state of the source\<close>

definition source_at :: "shuffler \<Rightarrow> ds_args \<Rightarrow> sample list \<Rightarrow> int \<Rightarrow> nat \<Rightarrow> nat \<Rightarrow> data_source \<Rightarrow> bool" where
  "source_at perm args origin seed e off s \<longleftrightarrow>
     off \<le> length origin \<and> src_epoch_id s = int e \<and> src_sample_offset s = int off \<and>
     src_dataset s = Some \<lparr>dt_origin_samples = origin, dt_samples = epoch_order perm args origin seed (int e),
       dt_epoch_id = (if da_rollout_shuffle args then int e else -1), dt_seed = seed\<rparr>"

lemma source_at_start:
  assumes "da_rollout_global_dataset args"
  shows "source_at perm args origin seed 0 0 (new_source perm args (Some (new_dataset origin seed)))"
  using assms by (simp add: source_at_def new_source_def new_dataset_def maybe_shuffle_def shuffle_def epoch_order_def)

lemma stream_prompt_at:
  assumes "i < length origin"
  shows "stream_prompt perm args origin seed (e * length origin + i) = epoch_order perm args origin seed (int e) ! i"
proof -
  have "length origin \<noteq> 0" using assms by linarith
  then have "(e * length origin + i) div length origin = e" using assms by (simp add: div_mult_self3)
  then show ?thesis using assms by (simp add: stream_prompt_def)
qed

lemma take_prompts_at:
  assumes perm: "shuffles perm" and s: "source_at perm args origin seed e off s" and k: "k \<le> length origin"
  shows "\<exists>e' off' s'. take_prompts perm args (int k) s =
      (map (\<lambda>i. stream_prompt perm args origin seed (e * length origin + off + i)) [0..<k], s') \<and>
    source_at perm args origin seed e' off' s' \<and> e' * length origin + off' = e * length origin + off + k \<and>
    src_sample_group_index s' = src_sample_group_index s \<and> src_sample_index s' = src_sample_index s \<and> src_metadata s' = src_metadata s"
proof (cases "off + k \<le> length origin")
  case True
  let ?o = "epoch_order perm args origin seed (int e)" and ?n = "length origin"
  have lo: "length ?o = ?n" by (rule epoch_order_length[OF perm])
  have "py_slice ?o (int off) (int off + int k) = take k (drop off ?o)"
    using py_slice_of_nat[of ?o off "off + k"] by simp
  also have "\<dots> = map (\<lambda>i. stream_prompt perm args origin seed (e * ?n + off + i)) [0..<k]"
    using True lo stream_prompt_at[of _ origin perm args seed e] by (intro nth_equalityI) (auto simp: add.assoc)
  finally have p: "py_slice ?o (int off) (int off + int k) = map (\<lambda>i. stream_prompt perm args origin seed (e * ?n + off + i)) [0..<k]" .
  have le: "int off + int k \<le> int ?n" using True by linarith
  show ?thesis
    using s True lo p le by (intro exI[of _ e] exI[of _ "off + k"]) (simp add: take_prompts_def source_at_def)
next
  case False
  let ?o = "epoch_order perm args origin seed (int e)" and ?o' = "epoch_order perm args origin seed (int (Suc e))" and ?n = "length origin"
  let ?k' = "k - (?n - off)"
  have lo: "length ?o = ?n" "length ?o' = ?n" by (rule epoch_order_length[OF perm])+
  have off: "off \<le> ?n" using s by (simp add: source_at_def)
  have k': "?k' \<le> ?n" "?k' + (?n - off) = k" using False k by linarith+
  have r: "py_slice ?o (int off) (int ?n) = drop off ?o" using py_slice_of_nat[of ?o off ?n] lo by simp
  have i: "int k - int (length (drop off ?o)) = int ?k'" using lo k' by (simp add: of_nat_diff)
  have t: "py_slice ?o' 0 (int ?k') = take ?k' ?o'" using py_slice_of_nat[of ?o' 0 ?k'] by simp
  have p: "drop off ?o @ take ?k' ?o' = map (\<lambda>i. stream_prompt perm args origin seed (e * ?n + off + i)) [0..<k]"
  proof (intro nth_equalityI)
    fix j assume "j < length (drop off ?o @ take ?k' ?o')"
    then have j: "j < k" using lo k' off by simp
    show "(drop off ?o @ take ?k' ?o') ! j = map (\<lambda>i. stream_prompt perm args origin seed (e * ?n + off + i)) [0..<k] ! j"
    proof (cases "j < ?n - off")
      case True
      then show ?thesis using j lo off stream_prompt_at[of "off + j" origin perm args seed e] by (simp add: nth_append add.assoc)
    next
      case f: False
      then have e: "e * ?n + off + j = Suc e * ?n + (j - (?n - off))" using off by simp
      have b: "j - (?n - off) < ?k'" "j - (?n - off) < ?n" using j f k' by linarith+
      show ?thesis using j f lo off b stream_prompt_at[OF b(2), of perm args seed "Suc e"] unfolding e[symmetric] by (simp add: nth_append)
    qed
  qed (use lo k' off in simp)
  let ?d = "\<lparr>dt_origin_samples = origin, dt_samples = ?o, dt_epoch_id = (if da_rollout_shuffle args then int e else -1), dt_seed = seed\<rparr>"
  let ?d' = "\<lparr>dt_origin_samples = origin, dt_samples = ?o', dt_epoch_id = (if da_rollout_shuffle args then int (Suc e) else -1), dt_seed = seed\<rparr>"
  have d': "(if da_rollout_shuffle args then shuffle perm (int e + 1) ?d else ?d) = ?d'"
    using lo by (simp add: shuffle_def epoch_order_def add.commute shuffles_length[OF perm])
  have fields: "src_dataset s = Some ?d" "src_sample_offset s = int off" "src_epoch_id s = int e"
    using s by (simp_all add: source_at_def)
  have sel: "dt_samples ?d = ?o" "dt_samples ?d' = ?o'" by simp_all
  have nle: "\<not> int off + int k \<le> int ?n" using False by linarith
  have "take_prompts perm args (int k) s =
      (drop off ?o @ take ?k' ?o', s\<lparr>src_epoch_id := int e + 1, src_dataset := Some ?d', src_sample_offset := int ?k'\<rparr>)"
    unfolding take_prompts_def fields option.case sel lo(1) if_not_P[OF nle] Let_def r i d' sel t ..
  moreover have "source_at perm args origin seed (Suc e) ?k' (s\<lparr>src_epoch_id := int e + 1, src_dataset := Some ?d', src_sample_offset := int ?k'\<rparr>)"
    using k' by (simp add: source_at_def)
  moreover have "Suc e * ?n + ?k' = e * ?n + off + k" using k' off by simp
  ultimately show ?thesis unfolding p by (intro exI[of _ "Suc e"] exI[of _ ?k']) auto
qed

section \<open>A run of the source\<close>

fun requests :: "shuffler \<Rightarrow> ds_args \<Rightarrow> nat list \<Rightarrow> data_source \<Rightarrow> sample list list \<times> data_source" where
  "requests perm args [] s = ([], s)"
| "requests perm args (k # ks) s =
     (let (groups, s) = get_samples perm args (int k) s; (more, s) = requests perm args ks s in (groups @ more, s))"

lemma sample_groups_map:
  "sample_groups n g i ps = map (\<lambda>j. sample_group n (g + int j) (i + int (j * n)) (ps ! j)) [0..<length ps]"
proof (induction ps arbitrary: g i)
  case (Cons p ps)
  have "[0..<length (p # ps)] = 0 # map Suc [0..<length ps]" by (simp add: upt_conv_Cons map_Suc_upt del: upt_Suc)
  then show ?case using Cons by (simp add: comp_def algebra_simps del: upt_Suc)
qed simp

text \<open>The group at place \<open>j\<close> of the stream, with the numbers that it gets.\<close>

definition stream_group :: "shuffler \<Rightarrow> ds_args \<Rightarrow> sample list \<Rightarrow> int \<Rightarrow> nat \<Rightarrow> sample list" where
  "stream_group perm args origin seed j =
     sample_group (da_n_samples_per_prompt args) (int j) (int (j * da_n_samples_per_prompt args)) (stream_prompt perm args origin seed j)"

definition numbered :: "ds_args \<Rightarrow> nat \<Rightarrow> data_source \<Rightarrow> bool" where
  "numbered args j s \<longleftrightarrow> src_sample_group_index s = int j \<and> src_sample_index s = int (j * da_n_samples_per_prompt args)"

lemma requests_at:
  assumes "shuffles perm" "source_at perm args origin seed e off s" "numbered args (e * length origin + off) s" "\<forall>k \<in> set ks. k \<le> length origin"
  shows "\<exists>e' off' s'. requests perm args ks s =
      (map (\<lambda>i. stream_group perm args origin seed (e * length origin + off + i)) [0..<sum_list ks], s') \<and>
    source_at perm args origin seed e' off' s' \<and> e' * length origin + off' = e * length origin + off + sum_list ks \<and>
    numbered args (e' * length origin + off') s' \<and> src_metadata s' = src_metadata s"
  using assms(2-4)
proof (induction ks arbitrary: e off s)
  case Nil
  then show ?case by (intro exI[of _ e] exI[of _ off]) simp
next
  case (Cons k ks)
  let ?n = "da_n_samples_per_prompt args" and ?N = "length origin" and ?T = "e * length origin + off"
  obtain e' off' s' where t: "take_prompts perm args (int k) s = (map (\<lambda>i. stream_prompt perm args origin seed (?T + i)) [0..<k], s')"
    "source_at perm args origin seed e' off' s'" "e' * ?N + off' = ?T + k"
    "src_sample_group_index s' = src_sample_group_index s" "src_sample_index s' = src_sample_index s" "src_metadata s' = src_metadata s"
    using take_prompts_at[OF assms(1) Cons.prems(1), of k] Cons.prems(3) by auto
  let ?s = "s'\<lparr>src_sample_group_index := int (e' * ?N + off'), src_sample_index := int ((e' * ?N + off') * ?n)\<rparr>"
  have gs: "sample_groups ?n (int ?T) (int (?T * ?n)) (map (\<lambda>i. stream_prompt perm args origin seed (?T + i)) [0..<k]) =
      map (\<lambda>i. stream_group perm args origin seed (?T + i)) [0..<k]"
    by (simp add: sample_groups_map stream_group_def algebra_simps)
  have get: "get_samples perm args (int k) s = (map (\<lambda>i. stream_group perm args origin seed (?T + i)) [0..<k], ?s)"
  proof -
    have i: "src_sample_group_index s' = int ?T" "src_sample_index s' = int (?T * ?n)" using Cons.prems(2) t(4,5) by (simp_all add: numbered_def)
    have u: "int ?T + int k = int (e' * ?N + off')" "int (?T * ?n) + int (k * ?n) = int ((e' * ?N + off') * ?n)"
      unfolding t(3) by (simp_all add: distrib_right)
    have l: "length (map (\<lambda>i. stream_prompt perm args origin seed (?T + i)) [0..<k]) = k" by simp
    show ?thesis unfolding get_samples_def t(1) Let_def prod.case i l u gs ..
  qed
  have at: "source_at perm args origin seed e' off' ?s" using t(2) by (simp add: source_at_def)
  have nb: "numbered args (e' * ?N + off') ?s" by (simp add: numbered_def)
  have ks: "\<forall>k \<in> set ks. k \<le> ?N" using Cons.prems(3) by simp
  obtain e'' off'' s'' where r: "requests perm args ks ?s = (map (\<lambda>i. stream_group perm args origin seed (e' * ?N + off' + i)) [0..<sum_list ks], s'')"
    "source_at perm args origin seed e'' off'' s''" "e'' * ?N + off'' = e' * ?N + off' + sum_list ks" "numbered args (e'' * ?N + off'') s''"
    "src_metadata s'' = src_metadata ?s"
    using Cons.IH[OF at nb ks] by blast
  have "map (\<lambda>i. stream_group perm args origin seed (?T + i)) [0..<k] @ map (\<lambda>i. stream_group perm args origin seed (?T + k + i)) [0..<sum_list ks] =
      map (\<lambda>i. stream_group perm args origin seed (?T + i)) [0..<k + sum_list ks]"
    by (intro nth_equalityI) (auto simp: nth_append add.assoc)
  then show ?case using get r t(3,6) by (intro exI[of _ e''] exI[of _ off''] exI[of _ s'']) simp
qed

section \<open>The contract of the source\<close>

text \<open>C22. Requests of any sizes up to the size of the data set run through the epochs without a gap: the groups
  handed out are those of the stream, one after the other, numbered consecutively like their samples,
  and in every epoch of the stream each prompt comes exactly once.\<close>

theorem source_streams:
  assumes "shuffles perm" "da_rollout_global_dataset args" "\<forall>k \<in> set ks. k \<le> length origin"
  shows "fst (requests perm args ks (new_source perm args (Some (new_dataset origin seed)))) =
      map (\<lambda>j. sample_group (da_n_samples_per_prompt args) (int j) (int (j * da_n_samples_per_prompt args)) (stream_prompt perm args origin seed j))
        [0..<sum_list ks] \<and>
    (\<forall>e. mset (map (\<lambda>i. stream_prompt perm args origin seed (e * length origin + i)) [0..<length origin]) = mset origin)"
proof
  let ?s = "new_source perm args (Some (new_dataset origin seed))"
  have "numbered args (0 * length origin + 0) ?s" by (simp add: numbered_def new_source_def)
  then show "fst (requests perm args ks ?s) =
      map (\<lambda>j. sample_group (da_n_samples_per_prompt args) (int j) (int (j * da_n_samples_per_prompt args)) (stream_prompt perm args origin seed j))
        [0..<sum_list ks]"
    using requests_at[OF assms(1) source_at_start[OF assms(2)] _ assms(3), of seed] by (auto simp: stream_group_def)
  show "\<forall>e. mset (map (\<lambda>i. stream_prompt perm args origin seed (e * length origin + i)) [0..<length origin]) = mset origin"
  proof
    fix e
    have "map (\<lambda>i. stream_prompt perm args origin seed (e * length origin + i)) [0..<length origin] = epoch_order perm args origin seed (int e)"
      using stream_prompt_at[of _ origin perm args seed e] epoch_order_length[OF assms(1), of args origin seed "int e"]
      by (intro nth_equalityI) auto
    then show "mset (map (\<lambda>i. stream_prompt perm args origin seed (e * length origin + i)) [0..<length origin]) = mset origin"
      using epoch_order_mset[OF assms(1)] by simp
  qed
qed

definition demo_ds_args :: ds_args where
  "demo_ds_args = \<lparr>da_rollout_global_dataset = True, da_rollout_shuffle = True, da_n_samples_per_prompt = 2\<rparr>"

definition demo_origin :: "sample list" where
  "demo_origin = [sample_new\<lparr>smp_response_length := 1\<rparr>, sample_new\<lparr>smp_response_length := 2\<rparr>, sample_new\<lparr>smp_response_length := 3\<rparr>]"

definition demo_perm :: shuffler where
  "demo_perm seed n = (if even seed then [0..<n] else rev [0..<n])"

lemma demo_shuffles: "shuffles demo_perm"
  by (simp add: shuffles_def demo_perm_def)

theorem source_streams_witness:
  "map (map smp_response_length) (fst (requests demo_perm demo_ds_args [2, 2] (new_source demo_perm demo_ds_args (Some (new_dataset demo_origin 0))))) =
     [[1, 1], [2, 2], [3, 3], [3, 3]]"
  using source_streams[OF demo_shuffles, of demo_ds_args "[2, 2]" demo_origin 0]
  by (simp add: demo_ds_args_def demo_origin_def sample_group_def stream_prompt_def epoch_order_def demo_perm_def upt_rec numeral_2_eq_2)

text \<open>C23. A new source that loads the checkpoint of a source after any requests is that source: epoch, place,
  order of the prompts and numbers are the same, so it goes on with the same samples.\<close>

theorem checkpoint_restores:
  assumes "shuffles perm" "da_rollout_global_dataset args" "\<forall>k \<in> set ks. k \<le> length origin"
  shows "let s = snd (requests perm args ks (new_source perm args (Some (new_dataset origin seed)))) in
    load perm args rollout_id (Some (save args rollout_id s store)) (new_source perm args (Some (new_dataset origin seed))) = s"
proof -
  let ?s0 = "new_source perm args (Some (new_dataset origin seed))"
  have "numbered args (0 * length origin + 0) ?s0" by (simp add: numbered_def new_source_def)
  then obtain e off s where s: "snd (requests perm args ks ?s0) = s" "source_at perm args origin seed e off s"
    using requests_at[OF assms(1) source_at_start[OF assms(2)] _ assms(3), of seed] by fastforce
  have d0: "src_dataset ?s0 = Some \<lparr>dt_origin_samples = origin, dt_samples = epoch_order perm args origin seed 0,
      dt_epoch_id = (if da_rollout_shuffle args then 0 else -1), dt_seed = seed\<rparr>"
    using source_at_start[OF assms(2), of perm origin seed] by (simp add: source_at_def)
  have "maybe_shuffle perm args (src_epoch_id s) (src_dataset ?s0) = src_dataset s"
    using s(2) by (simp add: d0 maybe_shuffle_def shuffle_def source_at_def epoch_order_def shuffles_length[OF assms(1)])
  then show ?thesis
    using assms(2) unfolding Let_def s(1) by (simp add: load_def save_def)
qed

theorem checkpoint_restores_witness:
  "let s = snd (requests demo_perm demo_ds_args [2, 2] (new_source demo_perm demo_ds_args (Some (new_dataset demo_origin 0)))) in
    load demo_perm demo_ds_args 7 (Some (save demo_ds_args 7 s Map.empty)) (new_source demo_perm demo_ds_args (Some (new_dataset demo_origin 0))) = s"
  by (rule checkpoint_restores[OF demo_shuffles]) (simp_all add: demo_ds_args_def demo_origin_def)

end
