(* ===== verification/Rollout_Data.thy ===== *)
theory Rollout_Data
  imports Sample_Types Seqlen_Balancing
begin

text \<open>
  \<open>ray/rollout.py\<close>, the way of the samples of a rollout to the trainer: flattening and trimming, rewards
  normalized in groups, the columns of the training data, their split over the data-parallel ranks,
  and \<open>process_rollout_data\<close> of \<open>utils/data.py\<close> at the other end.  The rollout function and the
  functions of the user are parameters.  A reward that is not a number any more (the standard
  deviation of a single reward) is \<open>None\<close>.
\<close>

section \<open>Samples of a rollout\<close>

text \<open>What a rollout function returns: samples in lists of lists of any depth.\<close>

datatype 'a nest = Item 'a | Group "'a nest list"

definition is_group :: "'a nest \<Rightarrow> bool" where
  "is_group x = (case x of Item _ \<Rightarrow> False | Group _ \<Rightarrow> True)"

definition children :: "'a nest \<Rightarrow> 'a nest list result" where
  "children x = (case x of Item _ \<Rightarrow> Inl TypeError | Group xs \<Rightarrow> Inr xs)"

definition item :: "'a nest \<Rightarrow> 'a result" where
  "item x = (case x of Item a \<Rightarrow> Inr a | Group _ \<Rightarrow> Inl TypeError)"

lemma children_simps [simp]: "children (Item a) = Inl TypeError" "children (Group xs) = Inr xs"
  by (simp_all add: children_def)

lemma nest_sizes:
  "mapE children xs = Inr yss \<Longrightarrow> sum_list (map size (concat yss)) + length xs \<le> sum_list (map size xs)" for xs :: "'a nest list"
proof (induction xs arbitrary: yss)
  case (Cons x xs)
  then obtain ys rest where y: "x = Group ys" "mapE children xs = Inr rest" "yss = ys # rest"
    by (cases x) (auto simp: bindE_eq_Inr)
  have "sum_list (map size ys) \<le> size_list size ys" by (induction ys) auto
  then show ?case using Cons.IH[OF y(2)] y by simp
qed simp

text \<open>\<open>while isinstance(data[0], list): data = list(chain.from_iterable(data))\<close>\<close>

function flatten :: "'a nest list \<Rightarrow> 'a nest list result" where
  "flatten xs =
     (if xs = [] then Inl IndexError
      else if is_group (hd xs) then case mapE children xs of Inl e \<Rightarrow> Inl e | Inr yss \<Rightarrow> flatten (concat yss)
      else Inr xs)"
  by pat_completeness auto
termination
proof (relation "measure (\<lambda>xs. sum_list (map size xs))")
  fix xs :: "'a nest list" and yss
  assume "xs \<noteq> []" "mapE children xs = Inr yss"
  then show "(concat yss, xs) \<in> measure (\<lambda>xs. sum_list (map size xs))"
    using nest_sizes[of xs yss] by (cases xs) auto
qed simp

declare flatten.simps [simp del]

record rollout_args =
  ra_disable_rollout_trim_samples :: bool
  ra_debug_rollout_only :: bool
  ra_global_batch_size :: int
  ra_use_dynamic_global_batch_size :: bool
  ra_advantage_estimator :: string
  ra_rewards_normalization :: bool
  ra_grpo_std_normalization :: bool
  ra_n_samples_per_prompt :: nat
  ra_rollout_batch_size :: nat
  ra_reward_key :: "string option"
  ra_balance_data :: bool

definition compute_dynamic_global_batch_size :: "int \<Rightarrow> int \<Rightarrow> int result" where
  "compute_dynamic_global_batch_size dp_size num_samples =
     bindE (raise_unless ZeroDivisionError (dp_size \<noteq> 0)) (\<lambda>_.
       let dynamic_gbs = (num_samples div dp_size) * dp_size in
       Inr (if dynamic_gbs = 0 then dp_size else dynamic_gbs))"

text \<open>The data of a rollout and the batch size it is trimmed for, if it is dynamic.\<close>

definition trim_samples :: "rollout_args \<Rightarrow> int \<Rightarrow> 'a list \<Rightarrow> ('a list \<times> int option) result" where
  "trim_samples args dp_size xs =
     (if ra_disable_rollout_trim_samples args \<or> ra_debug_rollout_only args then Inr (xs, None)
      else
        bindE (if ra_use_dynamic_global_batch_size args
               then bindE (compute_dynamic_global_batch_size dp_size (int (length xs))) (\<lambda>g. Inr (g, Some g))
               else Inr (ra_global_batch_size args, None)) (\<lambda>(global_batch_size, dynamic).
        bindE (raise_unless ZeroDivisionError (global_batch_size \<noteq> 0)) (\<lambda>_.
        if int (length xs) mod global_batch_size \<noteq> 0 then
          let trim_len = (int (length xs) div global_batch_size) * global_batch_size in
          if trim_len = 0 then Inl ValueError else Inr (py_slice xs 0 trim_len, dynamic)
        else Inr (xs, dynamic))))"

definition get_rollout_data :: "rollout_args \<Rightarrow> int \<Rightarrow> sample nest list \<Rightarrow> (sample list \<times> int option) result" where
  "get_rollout_data args dp_size generated =
     bindE (flatten generated) (\<lambda>xs. bindE (mapE item xs) (trim_samples args dp_size))"

text \<open>Saved data of an earlier run; a ratio keeps the first and the last of the samples.\<close>

definition subsample :: "real \<Rightarrow> 'a list \<Rightarrow> 'a list" where
  "subsample ratio xs =
     (let rough = (if ratio \<ge> 0 then \<lfloor>real (length xs) * ratio\<rfloor> else \<lceil>real (length xs) * ratio\<rceil>) in
      py_slice xs 0 (rough div 2) @ py_slice xs ((- rough) div 2) (int (length xs)))"

definition load_debug_data :: "real option \<Rightarrow> (string, pyval) dict list \<Rightarrow> sample list result" where
  "load_debug_data ratio saved =
     bindE (mapE sample_from_dict saved) (\<lambda>xs. Inr (case ratio of None \<Rightarrow> xs | Some r \<Rightarrow> subsample r xs))"

section \<open>Rewards\<close>

datatype train_reward = Raw pyval | Normed "real option"

fun to_number :: "pyval \<Rightarrow> real result" where
  "to_number (PFloat x) = Inr x"
| "to_number (PInt i) = Inr (real_of_int i)"
| "to_number (PBool b) = Inr (if b then 1 else 0)"
| "to_number _ = Inl TypeError"

definition mean :: "real list \<Rightarrow> real" where
  "mean xs = sum_list xs / real (length xs)"

text \<open>\<open>torch.std\<close> divides by the number less one.\<close>

definition std :: "real list \<Rightarrow> real option" where
  "std xs = (if length xs \<le> 1 then None
             else Some (sqrt (sum_list (map (\<lambda>x. (x - mean xs) ^ 2) xs) / real (length xs - 1))))"

definition normalize_group :: "bool \<Rightarrow> real list \<Rightarrow> real option list" where
  "normalize_group use_std xs =
     (let centered = map (\<lambda>x. x - mean xs) xs in
      map (\<lambda>x. if use_std then map_option (\<lambda>s. x / (s + 1 / 10 ^ 6)) (std centered) else Some x) centered)"

fun rows_of :: "nat \<Rightarrow> nat \<Rightarrow> 'a list \<Rightarrow> 'a list list" where
  "rows_of 0 n xs = []"
| "rows_of (Suc m) n xs = take n xs # rows_of m n (drop n xs)"

text \<open>\<open>reshape(-1, n)\<close> when all groups are full, one row otherwise.\<close>

definition reward_rows :: "rollout_args \<Rightarrow> real list \<Rightarrow> real list list result" where
  "reward_rows args xs =
     (let n = ra_n_samples_per_prompt args in
      if length xs = n * ra_rollout_batch_size args
      then bindE (raise_unless RuntimeError (n \<noteq> 0)) (\<lambda>_. Inr (rows_of (length xs div n) n xs))
      else bindE (raise_unless RuntimeError (xs \<noteq> [])) (\<lambda>_. Inr [xs]))"

definition post_process_rewards ::
  "(sample list \<Rightarrow> (pyval list \<times> train_reward list) result) option \<Rightarrow> rollout_args \<Rightarrow> sample list \<Rightarrow>
   (pyval list \<times> train_reward list) result"
where
  "post_process_rewards custom args samples =
     (case custom of Some f \<Rightarrow> f samples
      | None \<Rightarrow>
          bindE (mapE (get_reward_value (ra_reward_key args)) samples) (\<lambda>raw_rewards.
          let est = ra_advantage_estimator args in
          if est \<in> {''grpo'', ''gspo'', ''reinforce_plus_plus_baseline''} \<and> ra_rewards_normalization args then
            bindE (mapE to_number raw_rewards) (\<lambda>xs.
            bindE (reward_rows args xs) (\<lambda>rows.
              let use_std = (est \<in> {''grpo'', ''gspo''} \<and> ra_grpo_std_normalization args) in
              Inr (raw_rewards, map Normed (concat (map (normalize_group use_std) rows)))))
          else Inr (raw_rewards, map Raw raw_rewards)))"

section \<open>The columns of the training data\<close>

datatype cell = Cell pyval | Reward train_reward

type_synonym columns = "(string, cell list) dict"

text \<open>The loss mask of a sample: all ones when there is none, all zeros when the sample is to be removed.\<close>

definition train_loss_mask :: "sample \<Rightarrow> int list result" where
  "train_loss_mask s =
     (let m = (case smp_loss_mask s of None \<Rightarrow> replicate (nat (smp_response_length s)) 1 | Some m \<Rightarrow> m) in
      bindE (assertE (int (length m) = smp_response_length s)) (\<lambda>_.
        Inr (if smp_remove_sample s then replicate (nat (smp_response_length s)) 0 else m)))"

definition column :: "string \<Rightarrow> bool \<Rightarrow> (sample \<Rightarrow> pyval result) \<Rightarrow> sample list \<Rightarrow> columns \<Rightarrow> columns result" where
  "column key present f samples d =
     (if present then bindE (mapE f samples) (\<lambda>vs. Inr (dset key (map Cell vs) d)) else Inr d)"

definition convert_samples_to_train_data ::
  "(sample list \<Rightarrow> columns result) option \<Rightarrow> (sample list \<Rightarrow> (pyval list \<times> train_reward list) result) option \<Rightarrow>
   rollout_args \<Rightarrow> sample list \<Rightarrow> columns result"
where
  "convert_samples_to_train_data custom_convert custom_rewards args samples =
     (case custom_convert of Some f \<Rightarrow> f samples
      | None \<Rightarrow>
          bindE (post_process_rewards custom_rewards args samples) (\<lambda>(raw_rewards, rewards).
          bindE (assertE (length raw_rewards = length samples)) (\<lambda>_.
          bindE (assertE (length rewards = length samples)) (\<lambda>_.
          let base = [(''tokens'', map (\<lambda>s. Cell (of_list PInt (smp_tokens s))) samples),
                      (''response_lengths'', map (\<lambda>s. Cell (PInt (smp_response_length s))) samples),
                      (''rewards'', map Reward rewards), (''raw_reward'', map Cell raw_rewards),
                      (''truncated'', map (\<lambda>s. Cell (PInt (if smp_status s = TRUNCATED then 1 else 0))) samples),
                      (''sample_indices'', map (\<lambda>s. Cell (of_option PInt (smp_index s))) samples)] in
          bindE (mapE train_loss_mask samples) (\<lambda>masks.
          let d = dset ''loss_masks'' (map (\<lambda>m. Cell (of_list PInt m)) masks) base in
          bindE (raise_unless IndexError (samples \<noteq> [])) (\<lambda>_.
          let first = hd samples; has = (\<lambda>k. map_of (smp_metadata first) k \<noteq> None) in
          bindE (column ''raw_reward'' (has ''raw_reward'') (\<lambda>s. dget (smp_metadata s) ''raw_reward'') samples d) (\<lambda>d.
          bindE (column ''round_number'' (has ''round_number'') (\<lambda>s. dget (smp_metadata s) ''round_number'') samples d) (\<lambda>d.
          bindE (column ''rollout_log_probs'' (smp_rollout_log_probs first \<noteq> None)
                   (\<lambda>s. Inr (of_option (of_list PFloat) (smp_rollout_log_probs s))) samples d) (\<lambda>d.
          bindE (column ''logits_masks'' (smp_logits_masks first \<noteq> None)
                   (\<lambda>s. Inr (of_option (of_list (of_list PInt)) (smp_logits_masks s))) samples d) (\<lambda>d.
          bindE (column ''rollout_routed_experts'' (smp_rollout_routed_experts first \<noteq> PNone)
                   (\<lambda>s. Inr (smp_rollout_routed_experts s)) samples d) (\<lambda>d.
          bindE (column ''metadata'' (smp_train_metadata first \<noteq> PNone) (\<lambda>s. Inr (smp_train_metadata s)) samples d) (\<lambda>d.
          bindE (column ''multimodal_train_inputs'' (\<exists>s \<in> set samples. smp_multimodal_train_inputs s \<noteq> PNone)
                   (\<lambda>s. Inr (smp_multimodal_train_inputs s)) samples d) (\<lambda>d.
            column ''teacher_log_probs'' (smp_teacher_log_probs first \<noteq> None)
              (\<lambda>s. Inr (of_option (of_list PFloat) (smp_teacher_log_probs s))) samples d)))))))))))))"

section \<open>The split over data-parallel ranks\<close>

definition split_keys :: "string list" where
  "split_keys = [''tokens'', ''multimodal_train_inputs'', ''response_lengths'', ''rewards'', ''truncated'', ''loss_masks'',
     ''round_number'', ''sample_indices'', ''rollout_log_probs'', ''rollout_routed_experts'', ''prompt'', ''teacher_log_probs'']"

definition whole_keys :: "string list" where
  "whole_keys = [''raw_reward'', ''total_lengths'', ''logits_masks'']"

definition cell_length :: "cell \<Rightarrow> nat result" where
  "cell_length c = (case c of Cell (PList xs) \<Rightarrow> Inr (length xs) | Cell (PStr s) \<Rightarrow> Inr (length s) | Cell (PDict d) \<Rightarrow> Inr (length d)
     | _ \<Rightarrow> Inl TypeError)"

record rank_data =
  rd_partition :: "nat list"
  rd_columns :: columns
  rd_dynamic_global_batch_size :: "int option"

definition strided :: "nat \<Rightarrow> nat \<Rightarrow> nat list list" where
  "strided n dp_size = map (\<lambda>i. filter (\<lambda>j. j mod dp_size = i) [0..<n]) [0..<dp_size]"

definition rank_columns :: "columns \<Rightarrow> nat list \<Rightarrow> columns result" where
  "rank_columns data part =
     bindE (foldE (\<lambda>key d. case map_of data key of None \<Rightarrow> Inr d
              | Some col \<Rightarrow> bindE (mapE (\<lambda>j. py_nth col (int j)) part) (\<lambda>vs. Inr (dset key vs d))) split_keys []) (\<lambda>d.
       Inr (fold (\<lambda>key d. case map_of data key of None \<Rightarrow> d | Some col \<Rightarrow> dset key col d) whole_keys d))"

definition split_train_data_by_dp :: "rollout_args \<Rightarrow> int option \<Rightarrow> columns \<Rightarrow> nat \<Rightarrow> rank_data list result" where
  "split_train_data_by_dp args dynamic data dp_size =
     bindE (dget data ''tokens'') (\<lambda>tokens.
     bindE (mapE cell_length tokens) (\<lambda>total_lengths.
     let data = dset ''total_lengths'' (map (\<lambda>n. Cell (PInt (int n))) total_lengths) data in
     bindE (if ra_balance_data args then get_seqlen_balanced_partitions total_lengths dp_size True
            else bindE (raise_unless ValueError (dp_size \<noteq> 0)) (\<lambda>_. Inr (strided (length total_lengths) dp_size))) (\<lambda>partitions.
       mapE (\<lambda>i. bindE (py_nth partitions (int i)) (\<lambda>part. bindE (rank_columns data part) (\<lambda>cols.
         Inr \<lparr>rd_partition = part, rd_columns = cols, rd_dynamic_global_batch_size = dynamic\<rparr>))) [0..<dp_size])))"

definition process_rollout_data :: "rank_data list \<Rightarrow> nat \<Rightarrow> nat \<Rightarrow> columns result" where
  "process_rollout_data refs dp_rank dp_size =
     bindE (assertE (length refs = dp_size)) (\<lambda>_.
     bindE (py_nth refs (int dp_rank)) (\<lambda>rd.
     bindE (dget (rd_columns rd) ''total_lengths'') (\<lambda>total_lengths.
     bindE (mapE (\<lambda>i. py_nth total_lengths (int i)) (rd_partition rd)) (\<lambda>mine.
       Inr (dset ''total_lengths'' mine (rd_columns rd))))))"

end
