(* ===== verification/Rollout_Rules.thy ===== *)
theory Rollout_Rules
  imports Rollout_Data
begin

text \<open>
  What the trainer can rely on: a rollout is cut to whole batches, the rewards of a group have mean
  zero, and each sample goes to one rank with all its columns.
\<close>

section \<open>Trimming\<close>

lemma slice_prefix: "0 \<le> m \<Longrightarrow> m \<le> int (length xs) \<Longrightarrow> py_slice xs 0 m = take (nat m) xs"
  by (simp add: py_slice_def clip_index_def min_def)

definition batch_size :: "rollout_args \<Rightarrow> int \<Rightarrow> nat \<Rightarrow> int" where
  "batch_size args dp_size n =
     (if ra_use_dynamic_global_batch_size args then max dp_size (int n div dp_size * dp_size) else ra_global_batch_size args)"

lemma dynamic_size:
  assumes "0 < d"
  shows "compute_dynamic_global_batch_size d (int n) = Inr (max d (int n div d * d))"
proof (cases "int n div d = 0")
  case False
  moreover have "0 \<le> int n div d" using assms by (simp add: pos_imp_zdiv_nonneg_iff)
  ultimately have "1 \<le> int n div d" by linarith
  then have "1 * d \<le> int n div d * d" using assms by (intro mult_right_mono) auto
  then have "max d (int n div d * d) = int n div d * d" by simp
  then show ?thesis using assms False by (simp add: compute_dynamic_global_batch_size_def)
qed (use assms in \<open>simp add: compute_dynamic_global_batch_size_def\<close>)

lemma trim_whole_batches:
  assumes "\<not> ra_disable_rollout_trim_samples args" "\<not> ra_debug_rollout_only args" "0 < dp_size"
    "g = batch_size args dp_size (length xs)" "0 < g"
  shows "trim_samples args dp_size xs =
    (if length xs \<noteq> 0 \<and> int (length xs) < g then Inl ValueError
     else Inr (take (nat (int (length xs) div g * g)) xs, if ra_use_dynamic_global_batch_size args then Some g else None))"
proof -
  let ?n = "int (length xs)" and ?dyn = "if ra_use_dynamic_global_batch_size args then Some g else None"
  have start: "trim_samples args dp_size xs =
      (if ?n mod g \<noteq> 0 then if ?n div g * g = 0 then Inl ValueError else Inr (py_slice xs 0 (?n div g * g), ?dyn)
       else Inr (xs, ?dyn))"
    using assms(1,2,3,5) unfolding assms(4) trim_samples_def batch_size_def
    by (cases "ra_use_dynamic_global_batch_size args") (simp_all add: dynamic_size Let_def)
  have le: "?n div g * g \<le> ?n" "0 \<le> ?n div g * g"
    using assms(5) by (simp_all add: minus_mod_eq_div_mult[symmetric] zmod_le_nonneg_dividend)
  show ?thesis
  proof (cases "?n mod g = 0")
    case True
    then have "?n div g * g = ?n" using div_mult_mod_eq[of ?n g] by simp
    moreover from True have "\<not> (length xs \<noteq> 0 \<and> ?n < g)" by (auto dest: zdvd_imp_le)
    ultimately show ?thesis using True by (simp add: start)
  next
    case False
    then have "xs \<noteq> []" by auto
    moreover have "?n div g * g = 0 \<longleftrightarrow> ?n < g" using assms(5) by (auto simp: zdiv_eq_0_iff)
    ultimately show ?thesis using False by (simp add: start slice_prefix[OF le(2,1)])
  qed
qed

section \<open>Normalized rewards\<close>

lemma centered_sum: "xs \<noteq> [] \<Longrightarrow> sum_list (map (\<lambda>x. x - mean xs) xs) = 0"
  by (simp add: mean_def sum_list_subtractf sum_list_triv)

lemma sum_list_divide: "sum_list (map (\<lambda>x. f x / (c :: real)) xs) = sum_list (map f xs) / c"
  by (induction xs) (auto simp: add_divide_distrib)

lemma normalize_sum:
  assumes "xs \<noteq> []" "use_std \<longrightarrow> 2 \<le> length xs"
  shows "\<exists>ys. normalize_group use_std xs = map Some ys \<and> sum_list ys = 0 \<and> length ys = length xs"
proof (cases use_std)
  case True
  let ?c = "map (\<lambda>x. x - mean xs) xs"
  obtain s where s: "std ?c = Some s" using True assms(2) by (auto simp: std_def)
  have "normalize_group use_std xs = map Some (map (\<lambda>x. (x - mean xs) / (s + 1 / 10 ^ 6)) xs)"
    using True by (simp add: normalize_group_def s Let_def)
  then show ?thesis using centered_sum[OF assms(1)]
    by (intro exI[of _ "map (\<lambda>x. (x - mean xs) / (s + 1 / 10 ^ 6)) xs"]) (simp add: sum_list_divide)
next
  case False
  then show ?thesis using centered_sum[OF assms(1)]
    by (intro exI[of _ "map (\<lambda>x. x - mean xs) xs"]) (simp add: normalize_group_def Let_def)
qed

section \<open>Columns\<close>

definition aligned :: "nat \<Rightarrow> columns \<Rightarrow> bool" where
  "aligned n d = (\<forall>(k, col) \<in> set d. length col = n)"

lemma aligned_lookup: "aligned n d \<Longrightarrow> map_of d k = Some col \<Longrightarrow> length col = n"
  by (auto simp: aligned_def dest!: map_of_SomeD)

lemma aligned_dset [intro]: "aligned n d \<Longrightarrow> length col = n \<Longrightarrow> aligned n (dset k col d)"
  by (induction d) (auto simp: aligned_def)

lemma column_keeps:
  assumes "column key p f samples d = Inr d'" "aligned (length samples) d" "key \<noteq> ''tokens''"
  shows "aligned (length samples) d'" "map_of d' ''tokens'' = map_of d ''tokens''"
  using assms by (auto simp: column_def bindE_eq_Inr intro!: aligned_dset dest: mapE_eq_Inr_length split: if_splits)

definition token_cells :: "sample list \<Rightarrow> cell list" where
  "token_cells samples = map (\<lambda>s. Cell (of_list PInt (smp_tokens s))) samples"

definition with_tokens :: "sample list \<Rightarrow> columns \<Rightarrow> bool" where
  "with_tokens samples d = (aligned (length samples) d \<and> map_of d ''tokens'' = Some (token_cells samples))"

lemma column_with_tokens:
  "column key p f samples d = Inr d' \<Longrightarrow> key \<noteq> ''tokens'' \<Longrightarrow> with_tokens samples d \<Longrightarrow> with_tokens samples d'"
  unfolding with_tokens_def using column_keeps by metis

lemma train_data_columns:
  assumes "convert_samples_to_train_data None custom_rewards args samples = Inr d"
  shows "samples \<noteq> [] \<and> with_tokens samples d"
proof -
  show ?thesis using assms unfolding convert_samples_to_train_data_def option.case Let_def bindE_eq_Inr
    by (clarsimp simp: bindE_eq_Inr)
      ((rule column_with_tokens, assumption, simp)+,
       simp add: with_tokens_def aligned_def token_cells_def mapE_eq_Inr_length)
qed

section \<open>One rank\<close>

lemma rank_split:
  assumes "distinct keys" "\<forall>k col. map_of data k = Some col \<longrightarrow> (\<forall>j \<in> set part. j < length col)"
  shows "\<exists>d'. foldE (\<lambda>key d. case map_of data key of None \<Rightarrow> Inr d
              | Some col \<Rightarrow> bindE (mapE (\<lambda>j. py_nth col (int j)) part) (\<lambda>vs. Inr (dset key vs d))) keys d = Inr d' \<and>
    (\<forall>k. map_of d' k = (if k \<in> set keys \<and> map_of data k \<noteq> None then Some (map ((!) (the (map_of data k))) part) else map_of d k))"
  using assms(1)
proof (induction keys arbitrary: d)
  case (Cons key keys)
  show ?case
  proof (cases "map_of data key")
    case None
    obtain d' where d': "foldE (\<lambda>key d. case map_of data key of None \<Rightarrow> Inr d
        | Some col \<Rightarrow> bindE (mapE (\<lambda>j. py_nth col (int j)) part) (\<lambda>vs. Inr (dset key vs d))) keys d = Inr d'"
      "\<forall>k. map_of d' k = (if k \<in> set keys \<and> map_of data k \<noteq> None then Some (map ((!) (the (map_of data k))) part) else map_of d k)"
      using Cons by auto
    then show ?thesis using None by (intro exI[of _ d']) auto
  next
    case (Some col)
    have "mapE (\<lambda>j. py_nth col (int j)) part = Inr (map ((!) col) part)"
      using assms(2) Some by (intro mapE_Inr) (simp add: py_nth_def)
    then show ?thesis using Cons.IH[of "dset key (map ((!) col) part) d"] Cons.prems Some by auto
  qed
qed simp

lemma rank_whole:
  "map_of (fold (\<lambda>key d. case map_of data key of None \<Rightarrow> d | Some col \<Rightarrow> dset key col d) keys d) k =
    (if k \<in> set keys \<and> map_of data k \<noteq> None then map_of data k else map_of d k)"
  by (induction keys arbitrary: d) (auto split: option.splits)

lemma distinct_split_keys: "distinct split_keys"
  by (simp add: split_keys_def)

lemma disjoint_keys: "k \<in> set split_keys \<Longrightarrow> k \<notin> set whole_keys"
  by (auto simp: split_keys_def whole_keys_def)

text \<open>The columns of a rank before and after \<open>process_rollout_data\<close>.\<close>

lemma rank_columns_lookup:
  assumes "aligned n data" "\<forall>j \<in> set part. j < n"
  shows "\<exists>d. rank_columns data part = Inr d \<and>
    (\<forall>k \<in> set split_keys. \<forall>col. map_of data k = Some col \<longrightarrow> map_of d k = Some (map ((!) col) part)) \<and>
    (\<forall>k \<in> set whole_keys. map_of data k \<noteq> None \<longrightarrow> map_of d k = map_of data k)"
proof -
  have "\<forall>k col. map_of data k = Some col \<longrightarrow> (\<forall>j \<in> set part. j < length col)"
    using assms aligned_lookup by metis
  from rank_split[OF distinct_split_keys this, where d = "[]"] obtain d where d:
    "foldE (\<lambda>key d. case map_of data key of None \<Rightarrow> Inr d
       | Some col \<Rightarrow> bindE (mapE (\<lambda>j. py_nth col (int j)) part) (\<lambda>vs. Inr (dset key vs d))) split_keys [] = Inr d"
    "\<And>k. map_of d k = (if k \<in> set split_keys \<and> map_of data k \<noteq> None then Some (map ((!) (the (map_of data k))) part) else map_of [] k)"
    by blast
  show ?thesis unfolding rank_columns_def d(1) bindE_simps
    by (intro exI[of _ "fold _ whole_keys d"] conjI refl ballI allI impI) (auto simp: rank_whole d(2) disjoint_keys)
qed

definition rank_view :: "columns \<Rightarrow> nat list \<Rightarrow> nat list \<Rightarrow> columns \<Rightarrow> bool" where
  "rank_view data lens part cols =
     (map_of cols ''total_lengths'' = Some (map (\<lambda>j. Cell (PInt (int (lens ! j)))) part) \<and>
      (\<forall>k \<in> set split_keys. \<forall>col. map_of data k = Some col \<longrightarrow> map_of cols k = Some (map ((!) col) part)))"

lemma process_rank:
  assumes "length refs = k" "r < k" "rd_partition (refs ! r) = part" "aligned (length lens) data"
    "\<forall>j \<in> set part. j < length lens"
    "rank_columns (dset ''total_lengths'' (map (\<lambda>n. Cell (PInt (int n))) lens) data) part = Inr (rd_columns (refs ! r))"
  shows "\<exists>cols. process_rollout_data refs r k = Inr cols \<and> rank_view data lens part cols"
proof -
  let ?tl = "map (\<lambda>n. Cell (PInt (int n))) lens" and ?d = "rd_columns (refs ! r)"
  have "aligned (length lens) (dset ''total_lengths'' ?tl data)" using assms(4) by auto
  from rank_columns_lookup[OF this assms(5)] assms(6)
  have d: "\<And>k col. k \<in> set split_keys \<Longrightarrow> map_of (dset ''total_lengths'' ?tl data) k = Some col \<Longrightarrow> map_of ?d k = Some (map ((!) col) part)"
    "map_of ?d ''total_lengths'' = Some ?tl" by (auto simp: whole_keys_def)
  have "mapE (\<lambda>i. py_nth ?tl (int i)) part = Inr (map (\<lambda>j. Cell (PInt (int (lens ! j)))) part)"
    using assms(5) by (intro mapE_Inr) (simp add: py_nth_def)
  then have "process_rollout_data refs r k = Inr (dset ''total_lengths'' (map (\<lambda>j. Cell (PInt (int (lens ! j)))) part) ?d)"
    using assms(1,2,3) d(2) by (simp add: process_rollout_data_def py_nth_def)
  moreover have "''total_lengths'' \<notin> set split_keys" by (simp add: split_keys_def)
  ultimately show ?thesis using d(1) by (auto simp: rank_view_def)
qed

section \<open>All ranks\<close>

lemma classes: "mset (concat (map (\<lambda>i. filter (\<lambda>j. f j = i) xs) [0..<k])) = mset (filter (\<lambda>j. f j < (k :: nat)) xs)"
proof (induction k)
  case (Suc k)
  have "mset (filter (\<lambda>j. f j < k) xs) + mset (filter (\<lambda>j. f j = k) xs) = mset (filter (\<lambda>j. f j < Suc k) xs)"
    by (induction xs) (auto simp: less_Suc_eq)
  then show ?case using Suc by simp
qed simp

lemma strided_partition:
  assumes "0 < k"
  shows "length (strided n k) = k" "mset (concat (strided n k)) = mset [0..<n]"
  using assms by (simp_all add: strided_def classes[where f = "\<lambda>j. j mod k"])

lemma split_partition:
  assumes "0 < k" "lens \<noteq> []" "balance \<longrightarrow> k dvd length lens"
  shows "\<exists>parts. (if balance then get_seqlen_balanced_partitions lens k True
            else bindE (raise_unless ValueError (k \<noteq> 0)) (\<lambda>_. Inr (strided (length lens) k))) = Inr parts \<and>
    is_partition lens k parts \<and> (balance \<longrightarrow> (\<forall>p \<in> set parts. length p * k = length lens))"
proof (cases balance)
  case True
  then have "k \<le> length lens" using assms by (intro dvd_imp_le) auto
  with partitions_spec[of k lens True] assms True show ?thesis by auto
next
  case False
  then show ?thesis using assms(1) strided_partition[OF assms(1), of "length lens"] by (auto simp: is_partition_def)
qed

lemma part_indices: "is_partition L k parts \<Longrightarrow> p \<in> set parts \<Longrightarrow> j \<in> set p \<Longrightarrow> j < length L"
proof -
  assume a: "is_partition L k parts" "p \<in> set parts" "j \<in> set p"
  have "set (concat parts) = set [0..<length L]" using a(1) by (metis is_partition_def set_mset_mset)
  then show "j < length L" using a(2,3) by auto
qed

lemma split_all:
  assumes "map_of data ''tokens'' = Some tokens" "mapE cell_length tokens = Inr lens" "aligned (length lens) data"
    "0 < k" "lens \<noteq> []" "ra_balance_data args \<longrightarrow> k dvd length lens"
  shows "\<exists>refs parts. split_train_data_by_dp args dyn data k = Inr refs \<and> is_partition lens k parts \<and>
    (ra_balance_data args \<longrightarrow> (\<forall>p \<in> set parts. length p * k = length lens)) \<and>
    (\<forall>r < k. \<exists>cols. process_rollout_data refs r k = Inr cols \<and> rank_view data lens (parts ! r) cols)"
proof -
  let ?data = "dset ''total_lengths'' (map (\<lambda>n. Cell (PInt (int n))) lens) data"
  let ?ref = "\<lambda>part cols. \<lparr>rd_partition = part, rd_columns = cols, rd_dynamic_global_batch_size = dyn\<rparr>"
  obtain parts where parts: "(if ra_balance_data args then get_seqlen_balanced_partitions lens k True
      else bindE (raise_unless ValueError (k \<noteq> 0)) (\<lambda>_. Inr (strided (length lens) k))) = Inr parts"
    "is_partition lens k parts" "ra_balance_data args \<longrightarrow> (\<forall>p \<in> set parts. length p * k = length lens)"
    using split_partition[OF assms(4-6)] by blast
  have len: "length parts = k" using parts(2) by (simp add: is_partition_def)
  have al: "aligned (length lens) ?data" using assms(3) by auto
  have idx: "\<forall>j \<in> set (parts ! r). j < length lens" if "r < k" for r
    using part_indices[OF parts(2) nth_mem] that len by simp
  have "\<exists>cols. \<forall>r < k. rank_columns ?data (parts ! r) = Inr (cols r)"
    using rank_columns_lookup[OF al idx] by metis
  then obtain cols where cols: "\<And>r. r < k \<Longrightarrow> rank_columns ?data (parts ! r) = Inr (cols r)" by blast
  let ?refs = "map (\<lambda>r. ?ref (parts ! r) (cols r)) [0..<k]"
  have "mapE (\<lambda>i. bindE (py_nth parts (int i)) (\<lambda>part. bindE (rank_columns ?data part) (\<lambda>cols. Inr (?ref part cols)))) [0..<k] = Inr ?refs"
    by (intro mapE_Inr) (auto simp: py_nth_def len cols)
  then have "split_train_data_by_dp args dyn data k = Inr ?refs"
    by (simp only: split_train_data_by_dp_def dget_Some[OF assms(1)] assms(2) parts(1) bindE_simps Let_def)
  moreover have "\<exists>c. process_rollout_data ?refs r k = Inr c \<and> rank_view data lens (parts ! r) c" if "r < k" for r
    using that assms(3) idx[OF that] cols[OF that] by (intro process_rank) simp_all
  ultimately show ?thesis using parts(2,3) by blast
qed

definition demo_args :: rollout_args where
  "demo_args = \<lparr>ra_disable_rollout_trim_samples = False, ra_debug_rollout_only = False, ra_global_batch_size = 2,
     ra_use_dynamic_global_batch_size = False, ra_advantage_estimator = ''grpo'', ra_rewards_normalization = True,
     ra_grpo_std_normalization = True, ra_n_samples_per_prompt = 2, ra_rollout_batch_size = 1, ra_reward_key = None,
     ra_balance_data = True\<rparr>"

definition demo_samples :: "sample list" where
  "demo_samples = [sample_new\<lparr>smp_tokens := [1, 2, 3], smp_reward := PFloat 1\<rparr>, sample_new\<lparr>smp_tokens := [4], smp_reward := PFloat 0\<rparr>]"


lemma demo_rewards: "mapE (get_reward_value (ra_reward_key demo_args)) demo_samples = Inr [PFloat 1, PFloat 0]"
  by (simp add: demo_args_def demo_samples_def get_reward_value_def)


lemma dynamic_one_batch:
  assumes "0 < d" "d \<le> (n :: int)" "g = max d (n div d * d)"
  shows "d dvd n div g * g \<and> n div g * g = g"
proof -
  have "1 \<le> n div d" using zdiv_mono1[OF assms(2,1)] assms(1) by simp
  then have "1 * d \<le> n div d * d" using assms(1) by (intro mult_right_mono) auto
  then have g: "g = n div d * d" "d \<le> g" using assms(3) by auto
  have "n div d * d \<le> n" "n < n div d * d + d" using assms(1) by (simp_all add: minus_mod_eq_div_mult[symmetric])
  then have "0 \<le> n - g" "n - g < g" using g by linarith+
  then have "n div g = 1" by (intro int_div_pos_eq[of n g 1 "n - g"]) auto
  then show ?thesis using g(1) by simp
qed

text \<open>A rollout is trained in whole batches: unless trimming is off, it is cut to the longest prefix
  that is a multiple of the batch size, and too few samples for one batch raise \<open>ValueError\<close>; the
  dynamic batch size makes the whole prefix one batch that the data-parallel ranks divide evenly.\<close>

lemma rollout_is_whole_batches:
  assumes "\<not> ra_disable_rollout_trim_samples args" "\<not> ra_debug_rollout_only args" "0 < dp_size"
    "flatten generated = Inr items" "mapE item items = Inr xs" "0 < ra_global_batch_size args"
    "g = (if ra_use_dynamic_global_batch_size args then max dp_size (int (length xs) div dp_size * dp_size) else ra_global_batch_size args)"
  shows "if xs \<noteq> [] \<and> int (length xs) < g then get_rollout_data args dp_size generated = Inl ValueError
    else \<exists>m. get_rollout_data args dp_size generated = Inr (take m xs, if ra_use_dynamic_global_batch_size args then Some g else None) \<and>
      m \<le> length xs \<and> int (length xs) < int m + g \<and> g dvd int m \<and>
      (ra_use_dynamic_global_batch_size args \<longrightarrow> dp_size dvd int m \<and> (xs \<noteq> [] \<longrightarrow> int m = g))"
proof -
  let ?n = "int (length xs)"
  have g: "g = batch_size args dp_size (length xs)" "0 < g" using assms(3,6,7) by (auto simp: batch_size_def)
  have get: "get_rollout_data args dp_size generated = trim_samples args dp_size xs"
    using assms(4,5) by (simp add: get_rollout_data_def)
  let ?m = "nat (?n div g * g)"
  have m: "int ?m = ?n div g * g" using g(2) by (simp add: pos_imp_zdiv_nonneg_iff)
  have bounds: "?n div g * g \<le> ?n" "?n < ?n div g * g + g"
    using g(2) by (simp_all add: minus_mod_eq_div_mult[symmetric])
  have dyn: "dp_size dvd ?n div g * g \<and> (xs \<noteq> [] \<longrightarrow> ?n div g * g = g)"
    if d: "ra_use_dynamic_global_batch_size args" "\<not> (xs \<noteq> [] \<and> ?n < g)"
  proof (cases "xs = []")
    case False
    then have "dp_size \<le> ?n" using d assms(7) by simp
    from dynamic_one_batch[OF assms(3) this] show ?thesis using assms(7) d(1) by simp
  qed simp
  show ?thesis
    using dyn m bounds unfolding get trim_whole_batches[OF assms(1-3) g] by (auto intro!: exI[of _ ?m])
qed

lemma normalize_rows:
  assumes "0 < n" "use_std \<longrightarrow> 2 \<le> n" "length xs = n * m"
  shows "\<exists>ys. concat (map (normalize_group use_std) (rows_of m n xs)) = map Some ys \<and> length ys = length xs \<and>
    (\<forall>i < m. sum_list (take n (drop (i * n) ys)) = 0)"
  using assms(3)
proof (induction m arbitrary: xs)
  case (Suc m)
  have "take n xs \<noteq> []" "use_std \<longrightarrow> 2 \<le> length (take n xs)" using Suc.prems assms(1,2) by auto
  then obtain y where y: "normalize_group use_std (take n xs) = map Some y" "sum_list y = 0" "length y = n"
    using normalize_sum[of "take n xs" use_std] Suc.prems by auto
  obtain ys where ys: "concat (map (normalize_group use_std) (rows_of m n (drop n xs))) = map Some ys" "length ys = length (drop n xs)"
    "\<forall>i < m. sum_list (take n (drop (i * n) ys)) = 0" using Suc.IH[of "drop n xs"] Suc.prems by auto
  have "sum_list (take n (drop (i * n) (y @ ys))) = 0" if "i < Suc m" for i
    using that y(2,3) ys(3) by (cases i) auto
  then show ?case using y(1,3) ys(1,2) Suc.prems by (intro exI[of _ "y @ ys"]) auto
qed simp

text \<open>Rewards normalized in groups have mean zero in every group of samples of one prompt, in the
  order of the samples; the raw rewards are returned unchanged.  With the division by the standard
  deviation this needs two samples per group.\<close>

lemma group_rewards_centered:
  assumes "ra_advantage_estimator args \<in> {''grpo'', ''gspo'', ''reinforce_plus_plus_baseline''}"
    "ra_rewards_normalization args" "mapE (get_reward_value (ra_reward_key args)) samples = Inr raw"
    "mapE to_number raw = Inr xs" "0 < ra_n_samples_per_prompt args"
    "length xs = ra_n_samples_per_prompt args * ra_rollout_batch_size args"
    "ra_grpo_std_normalization args \<longrightarrow> 2 \<le> ra_n_samples_per_prompt args"
  shows "\<exists>ys. post_process_rewards None args samples = Inr (raw, map (\<lambda>y. Normed (Some y)) ys) \<and> length ys = length samples \<and>
    (\<forall>i < ra_rollout_batch_size args.
      sum_list (take (ra_n_samples_per_prompt args) (drop (i * ra_n_samples_per_prompt args) ys)) = 0)"
proof -
  let ?n = "ra_n_samples_per_prompt args"
  define use_std where "use_std = (ra_advantage_estimator args \<in> {''grpo'', ''gspo''} \<and> ra_grpo_std_normalization args)"
  have rows: "reward_rows args xs = Inr (rows_of (ra_rollout_batch_size args) ?n xs)"
    using assms(5,6) by (simp add: reward_rows_def)
  have "use_std \<longrightarrow> 2 \<le> ?n" using assms(7) by (simp add: use_std_def)
  from normalize_rows[OF assms(5) this assms(6)] obtain ys where
    ys: "concat (map (normalize_group use_std) (rows_of (ra_rollout_batch_size args) ?n xs)) = map Some ys" "length ys = length xs"
      "\<forall>i < ra_rollout_batch_size args. sum_list (take ?n (drop (i * ?n) ys)) = 0" by blast
  have "post_process_rewards None args samples = Inr (raw, map Normed (map Some ys))"
    using assms(1-4) rows ys(1) by (simp add: post_process_rewards_def Let_def use_std_def)
  moreover have "length xs = length samples" using mapE_eq_Inr_length[OF assms(3)] mapE_eq_Inr_length[OF assms(4)] by simp
  ultimately show ?thesis using ys(2,3) by (intro exI[of _ ys]) (simp add: comp_def)
qed

end
