(* ===== verification/Train_Data.thy ===== *)
theory Train_Data
  imports Data_Source Seqlen_Balancing Ppo_Utils
begin

text \<open>
  \<open>backends/megatron_utils/data.py\<close>: the iterator over the samples of a rank, the schedule of its
  micro-batches, and a micro-batch ready for context parallelism.  A tensor of tokens or of a mask is
  a list of integers inside a \<open>pyval\<close>; the data-parallel group is a list of ranks.
\<close>

section \<open>The iterator\<close>

record rollout_batch =
  rb_columns :: "(string, pyval list) dict"
  rb_dynamic_global_batch_size :: "int option"

record data_iterator =
  it_rollout_data :: rollout_batch
  it_micro_batch_size :: "int option"
  it_micro_batch_indices :: "nat list list option"
  it_offset :: int

definition new_iterator :: "rollout_batch \<Rightarrow> int option \<Rightarrow> nat list list option \<Rightarrow> data_iterator result" where
  "new_iterator rollout_data micro_batch_size micro_batch_indices =
     bindE (assertE (micro_batch_size = None \<or> micro_batch_indices = None)) (\<lambda>_.
       Inr \<lparr>it_rollout_data = rollout_data, it_micro_batch_size = micro_batch_size,
             it_micro_batch_indices = micro_batch_indices, it_offset = 0\<rparr>)"

definition next_rows :: "data_iterator \<Rightarrow> pyval list \<Rightarrow> pyval list result" where
  "next_rows it vals =
     (case it_micro_batch_indices it of
        Some indices \<Rightarrow> bindE (py_nth indices (it_offset it)) (\<lambda>idx. mapE (\<lambda>i. py_nth vals (int i)) idx)
      | None \<Rightarrow> (case it_micro_batch_size it of None \<Rightarrow> Inl TypeError
        | Some m \<Rightarrow> bindE (assertE (it_offset it + m \<le> int (length vals))) (\<lambda>_.
                     Inr (py_slice vals (it_offset it) (it_offset it + m)))))"

type_synonym rows = "(string, pyval list option) dict"

definition get_next :: "string list \<Rightarrow> data_iterator \<Rightarrow> (rows \<times> data_iterator) result" where
  "get_next keys it =
     bindE (foldE (\<lambda>key batch. case map_of (rb_columns (it_rollout_data it)) key of
                None \<Rightarrow> Inr (dset key None batch)
              | Some vals \<Rightarrow> bindE (next_rows it vals) (\<lambda>vs. Inr (dset key (Some vs) batch))) keys []) (\<lambda>batch.
     bindE (case it_micro_batch_indices it of Some _ \<Rightarrow> Inr 1
            | None \<Rightarrow> (case it_micro_batch_size it of None \<Rightarrow> Inl TypeError | Some m \<Rightarrow> Inr m)) (\<lambda>step.
       Inr (batch, it\<lparr>it_offset := it_offset it + step\<rparr>)))"

definition reset :: "data_iterator \<Rightarrow> data_iterator" where
  "reset it = it\<lparr>it_offset := 0\<rparr>"

section \<open>The schedule\<close>

record schedule_args =
  sa_global_batch_size :: int
  sa_use_dynamic_batch_size :: bool
  sa_micro_batch_size :: int
  sa_max_tokens_per_gpu :: "int option"
  sa_vpp_size :: "nat option"
  sa_microbatch_group_size_per_vp_stage :: int
  sa_cp_size :: nat

definition total_lengths_of :: "rollout_batch \<Rightarrow> int list result" where
  "total_lengths_of rd = bindE (dget (rb_columns rd) ''total_lengths'') (\<lambda>vs. mapE to_int vs)"

text \<open>The local batch size and the number of steps.\<close>

definition local_steps :: "schedule_args \<Rightarrow> nat \<Rightarrow> rollout_batch \<Rightarrow> (int \<times> int) result" where
  "local_steps args dp_size rd =
     bindE (dget (rb_columns rd) ''total_lengths'') (\<lambda>lens.
     let global_batch_size = (case rb_dynamic_global_batch_size rd of None \<Rightarrow> sa_global_batch_size args | Some g \<Rightarrow> g) in
     bindE (raise_unless ZeroDivisionError (dp_size \<noteq> 0)) (\<lambda>_.
     let num_local_gbs = global_batch_size div int dp_size in
     bindE (raise_unless ZeroDivisionError (num_local_gbs \<noteq> 0)) (\<lambda>_.
       Inr (num_local_gbs, int (length lens) div num_local_gbs))))"

definition step_lengths :: "int \<Rightarrow> int list \<Rightarrow> nat \<Rightarrow> int list" where
  "step_lengths num_local_gbs lens i = py_slice lens (int i * num_local_gbs) (int (i + 1) * num_local_gbs)"

text \<open>What one rank brings to the reduction: a number of micro-batches per step.\<close>

definition local_counts :: "schedule_args \<Rightarrow> nat \<Rightarrow> rollout_batch \<Rightarrow> int list result" where
  "local_counts args dp_size rd =
     bindE (local_steps args dp_size rd) (\<lambda>(num_local_gbs, steps).
     bindE (case sa_max_tokens_per_gpu args of None \<Rightarrow> Inl AssertionError | Some m \<Rightarrow> Inr m) (\<lambda>max_tokens.
     bindE (total_lengths_of rd) (\<lambda>lens.
       Inr (map (\<lambda>i. int (get_minimum_num_micro_batch_size (step_lengths num_local_gbs lens i) (max_tokens * int (sa_cp_size args))))
             [0..<nat steps]))))"

text \<open>The elementwise maximum over the group; the ranks of a collective must bring tensors of one shape.\<close>

definition all_reduce_max :: "int list list \<Rightarrow> int list result" where
  "all_reduce_max rows =
     bindE (raise_unless RuntimeError (rows \<noteq> [] \<and> (\<forall>row \<in> set rows. length row = length (hd rows)))) (\<lambda>_.
       Inr (map (\<lambda>i. Max ((\<lambda>row. row ! i) ` set rows)) [0..<length (hd rows)]))"

definition vpp_of :: "schedule_args \<Rightarrow> nat" where
  "vpp_of args = (case sa_vpp_size args of None \<Rightarrow> 1 | Some n \<Rightarrow> n)"

definition round_for_vpp :: "schedule_args \<Rightarrow> int list \<Rightarrow> int list result" where
  "round_for_vpp args counts =
     (let g = sa_microbatch_group_size_per_vp_stage args in
      if vpp_of args > 1
      then bindE (raise_unless RuntimeError (g \<noteq> 0)) (\<lambda>_. Inr (map (\<lambda>n. max 1 (n div g * g)) counts))
      else Inr counts)"

definition step_partitions :: "int \<Rightarrow> int list \<Rightarrow> nat \<times> int \<Rightarrow> nat list list result" where
  "step_partitions num_local_gbs lens = (\<lambda>(i, num_mbs).
     bindE (get_seqlen_balanced_partitions (map nat (step_lengths num_local_gbs lens i)) (nat num_mbs) False) (\<lambda>parts.
       Inr (map (map (\<lambda>k. k + i * nat num_local_gbs)) parts)))"

text \<open>What a rank does once it knows the counts of the group.\<close>

definition local_schedule :: "schedule_args \<Rightarrow> nat \<Rightarrow> rollout_batch \<Rightarrow> int list \<Rightarrow> (data_iterator list \<times> int list) result" where
  "local_schedule args dp_size rd counts =
     bindE (local_steps args dp_size rd) (\<lambda>(num_local_gbs, _).
     bindE (total_lengths_of rd) (\<lambda>lens.
     bindE (mapE (step_partitions num_local_gbs lens) (enumerate_list counts)) (\<lambda>parts.
     let micro_batch_indices = concat parts in
     bindE (assertE (card (set (concat micro_batch_indices)) = length lens)) (\<lambda>_.
     bindE (new_iterator rd None (Some micro_batch_indices)) (\<lambda>it.
       Inr (replicate (vpp_of args) it, counts))))))"

definition fixed_schedule :: "schedule_args \<Rightarrow> nat \<Rightarrow> rollout_batch \<Rightarrow> (data_iterator list \<times> int list) result" where
  "fixed_schedule args dp_size rd =
     bindE (local_steps args dp_size rd) (\<lambda>(num_local_gbs, steps).
     bindE (if steps \<le> 0 then Inr 0
            else bindE (raise_unless ZeroDivisionError (sa_micro_batch_size args \<noteq> 0)) (\<lambda>_.
                   Inr (num_local_gbs div sa_micro_batch_size args))) (\<lambda>n.
     bindE (new_iterator rd (Some (sa_micro_batch_size args)) None) (\<lambda>it.
       Inr (replicate (vpp_of args) it, replicate (nat steps) n))))"

definition get_data_iterator ::
  "schedule_args \<Rightarrow> rollout_batch list \<Rightarrow> (data_iterator list \<times> int list) list result" where
  "get_data_iterator args ranks =
     (let dp_size = length ranks in
      if \<not> sa_use_dynamic_batch_size args then mapE (fixed_schedule args dp_size) ranks
      else
        bindE (mapE (local_counts args dp_size) ranks) (\<lambda>counts.
        bindE (all_reduce_max counts) (\<lambda>counts.
        bindE (round_for_vpp args counts) (\<lambda>counts.
          mapE (\<lambda>rd. local_schedule args dp_size rd counts) ranks))))"

section \<open>A micro-batch\<close>

text \<open>\<open>F.pad\<close> with one value on both sides; a negative number crops.\<close>

definition f_pad :: "int \<Rightarrow> int \<Rightarrow> 'a \<Rightarrow> 'a list \<Rightarrow> 'a list result" where
  "f_pad l r v xs =
     bindE (raise_unless RuntimeError (0 \<le> l + r + int (length xs) \<and> - l \<le> int (length xs) \<and> - r \<le> int (length xs))) (\<lambda>_.
       let ys = replicate (nat l) v @ drop (nat (- l)) xs in
       Inr (take (length ys - nat (- r)) ys @ replicate (nat r) v))"

text \<open>Running totals, \<open>cu.append(cu[-1] + n)\<close>.\<close>

definition cumulative :: "int list \<Rightarrow> int list" where
  "cumulative ns = foldl (\<lambda>cu n. cu @ [last cu + n]) [0] ns"

definition differences :: "int list \<Rightarrow> int list" where
  "differences xs = map2 (-) (tl xs) xs"

record packed_seq_params =
  cu_seqlens :: "int list"
  max_seqlen :: int

record train_batch =
  tb_tokens :: "int list list"
  tb_unconcat_tokens :: "int list list"
  tb_packed_seq_params :: "packed_seq_params option"
  tb_full_loss_masks :: "int list list"
  tb_rows :: rows
  tb_dynamic_global_batch_size :: "int option"
  tb_multimodal :: "((string, pyval list) dict \<times> (string, int list) dict) option"

definition column_of :: "rows \<Rightarrow> string \<Rightarrow> (pyval \<Rightarrow> 'a result) \<Rightarrow> 'a list result" where
  "column_of rows key dec =
     bindE (dget rows key) (\<lambda>c. case c of None \<Rightarrow> Inl TypeError | Some vs \<Rightarrow> mapE dec vs)"

text \<open>\<open>torch.stack\<close> needs tensors of one length.\<close>

definition torch_stack :: "'a list list \<Rightarrow> 'a list list result" where
  "torch_stack xss =
     bindE (raise_unless RuntimeError (xss \<noteq> [] \<and> (\<forall>xs \<in> set xss. length xs = length (hd xss)))) (\<lambda>_. Inr xss)"

record cp_layout =
  cl_cp_size :: nat
  cl_cp_rank :: nat
  cl_pad_size :: int
  cl_allgather_cp :: bool

definition missing :: "int \<Rightarrow> int \<Rightarrow> int" where
  "missing m n = (m - n mod m) mod m"

text \<open>The packed tokens of a rank, the running lengths and the padding.\<close>

definition packed_tokens :: "cp_layout \<Rightarrow> int list list \<Rightarrow> (int list \<times> int list \<times> int) result" where
  "packed_tokens cl tokens =
     (if cl_allgather_cp cl then
        bindE (torch_cat tokens) (\<lambda>stream.
        bindE (raise_unless ZeroDivisionError (int (cl_cp_size cl) * cl_pad_size cl \<noteq> 0)) (\<lambda>_.
        let pad = missing (int (cl_cp_size cl) * cl_pad_size cl) (int (length stream)) in
        bindE (f_pad 0 pad 0 stream) (\<lambda>padded.
        bindE (py_nth (torch_chunk (cl_cp_size cl) padded) (int (cl_cp_rank cl))) (\<lambda>mine.
          Inr (mine, cumulative (map (\<lambda>t. int (length t)) tokens @ (if pad \<noteq> 0 then [pad] else [])), pad)))))
      else
        bindE (mapE (\<lambda>t. slice_with_cp (int (cl_cp_size cl)) (int (cl_cp_rank cl)) t 0 ''thd'' None) tokens) (\<lambda>sliced.
        bindE (torch_cat sliced) (\<lambda>stream.
        bindE (raise_unless ZeroDivisionError (cl_pad_size cl \<noteq> 0)) (\<lambda>_.
        let pad = missing (cl_pad_size cl) (int (length stream)) in
        bindE (f_pad 0 pad 0 stream) (\<lambda>mine.
          Inr (mine, map (\<lambda>n. n * int (cl_cp_size cl))
                 (cumulative (map (\<lambda>t. int (length t)) sliced @ (if pad \<noteq> 0 then [pad] else []))), pad))))))"

text \<open>The masks, shifted to the rows that predict the tokens.\<close>

definition aligned_masks :: "int list list \<Rightarrow> int list \<Rightarrow> int list \<Rightarrow> int list list result" where
  "aligned_masks masks total_lengths response_lengths =
     bindE (raise_unless ValueError (length masks = length total_lengths \<and> length masks = length response_lengths)) (\<lambda>_.
       mapE (\<lambda>(m, t, r). f_pad (t - r - 1) 1 0 m) (zip masks (zip total_lengths response_lengths)))"

definition packed_masks :: "cp_layout \<Rightarrow> int \<Rightarrow> int list list \<Rightarrow> int list list result" where
  "packed_masks cl pad masks =
     (if cl_allgather_cp cl then
        bindE (torch_cat masks) (\<lambda>stream.
        bindE (f_pad 0 pad 0 stream) (\<lambda>padded.
        bindE (py_nth (torch_chunk (cl_cp_size cl) padded) (int (cl_cp_rank cl))) (\<lambda>mine. Inr [mine])))
      else
        bindE (mapE (\<lambda>m. slice_with_cp (int (cl_cp_size cl)) (int (cl_cp_rank cl)) m 0 ''thd'' None) masks) (\<lambda>sliced.
        bindE (torch_cat sliced) (\<lambda>stream. bindE (f_pad 0 pad 0 stream) (\<lambda>mine. Inr [mine]))))"

text \<open>The rows of the multimodal tensors of the samples, concatenated per key, and how many each sample brought.\<close>

definition add_multimodal ::
  "pyval \<Rightarrow> (string, pyval list) dict \<times> (string, int list) dict \<Rightarrow> ((string, pyval list) dict \<times> (string, int list) dict) result"
where
  "add_multimodal mm st =
     (case mm of PNone \<Rightarrow> Inr st
      | PDict d \<Rightarrow> foldE (\<lambda>(key, v) (dat, nums).
          bindE (to_list Inr v) (\<lambda>t.
            case map_of dat key of
              None \<Rightarrow> Inr (dset key t dat, dset key [int (length t)] nums)
            | Some old \<Rightarrow> bindE (dget nums key) (\<lambda>ns. Inr (dset key (old @ t) dat, dset key (ns @ [int (length t)]) nums)))) d st
      | _ \<Rightarrow> Inl TypeError)"

definition multimodal_of :: "rows \<Rightarrow> ((string, pyval list) dict \<times> (string, int list) dict) option result" where
  "multimodal_of rows =
     (case map_of rows ''multimodal_train_inputs'' of
        Some (Some vs) \<Rightarrow> bindE (foldE add_multimodal vs ([], [])) (\<lambda>r. Inr (Some r))
      | _ \<Rightarrow> Inr None)"

definition same_shape :: "'a list list \<Rightarrow> 'b list list \<Rightarrow> bool" where
  "same_shape a b = (map length a = map length b)"

definition get_batch ::
  "cp_layout \<Rightarrow> string \<Rightarrow> string list \<Rightarrow> data_iterator \<Rightarrow> (train_batch \<times> data_iterator) result" where
  "get_batch cl qkv_format keys it =
     bindE (assertE (''tokens'' \<in> set keys)) (\<lambda>_.
     bindE (get_next keys it) (\<lambda>(rows, it').
     bindE (column_of rows ''tokens'' (to_list to_int)) (\<lambda>tokens.
     bindE (if qkv_format = ''bshd'' then
              bindE (column_of rows ''max_seq_lens'' to_int) (\<lambda>ms.
              bindE (py_nth ms 0) (\<lambda>m.
              bindE (raise_unless ValueError (tokens \<noteq> [])) (\<lambda>_.
              bindE (assertE (\<forall>t \<in> set tokens. int (length t) \<le> m)) (\<lambda>_.
              bindE (mapE (\<lambda>t. slice_with_cp (int (cl_cp_size cl)) (int (cl_cp_rank cl)) t 0 ''bshd'' (Some m)) tokens) (\<lambda>sliced.
              bindE (torch_stack sliced) (\<lambda>grid. Inr (grid, None, 0, Some m)))))))
            else if qkv_format = ''thd'' then
              bindE (packed_tokens cl tokens) (\<lambda>(mine, cu, pad).
                Inr ([mine], Some \<lparr>cu_seqlens = cu, max_seqlen = Max (set (differences cu))\<rparr>, pad, None))
            else Inl ValueError) (\<lambda>(grid, packed, pad, m).
     bindE (column_of rows ''loss_masks'' (to_list to_int)) (\<lambda>masks.
     bindE (column_of rows ''total_lengths'' to_int) (\<lambda>total_lengths.
     bindE (column_of rows ''response_lengths'' to_int) (\<lambda>response_lengths.
     bindE (aligned_masks masks total_lengths response_lengths) (\<lambda>masks.
     bindE (if qkv_format = ''bshd'' then
              bindE (if cl_allgather_cp cl then Inr masks
                     else mapE (\<lambda>x. slice_with_cp (int (cl_cp_size cl)) (int (cl_cp_rank cl)) x 0 ''bshd'' m) masks) torch_stack
            else packed_masks cl pad masks) (\<lambda>full.
     bindE (assertE (same_shape full grid)) (\<lambda>_.
     bindE (multimodal_of rows) (\<lambda>mm.
       Inr (\<lparr>tb_tokens = grid, tb_unconcat_tokens = tokens, tb_packed_seq_params = packed, tb_full_loss_masks = full,
             tb_rows = rows, tb_dynamic_global_batch_size = rb_dynamic_global_batch_size (it_rollout_data it),
             tb_multimodal = mm\<rparr>, it'))))))))))))"

end
