(* ===== verification/Train_Rules.thy ===== *)
theory Train_Rules
  imports Train_Data
begin

text \<open>
  The schedule of the micro-batches: all data-parallel ranks take the same number of them, together
  they hold each sample of a step once, and their sizes are bounded; a micro-batch keeps tokens and
  masks in line.
\<close>

section \<open>First fit\<close>

lemma first_fit_sum: "sum_list (first_fit c n bs) = n + sum_list bs"
  by (induction bs) auto

lemma first_fit_length: "length bs \<le> length (first_fit c n bs)" "length (first_fit c n bs) \<le> length bs + 1" "first_fit c n bs \<noteq> []"
  by (induction bs) auto

lemma first_fit_bound: "\<forall>b \<in> set bs. b \<le> m \<Longrightarrow> c \<le> m \<Longrightarrow> n \<le> m \<Longrightarrow> \<forall>b \<in> set (first_fit c n bs). b \<le> m"
  by (induction bs) auto

lemma fold_first_fit:
  assumes "\<forall>n \<in> set lens. n \<le> m" "c \<le> m" "\<forall>b \<in> set bs. b \<le> m"
  shows "sum_list (fold (\<lambda>n bs. first_fit c n bs) lens bs) = sum_list lens + sum_list bs \<and>
    length bs \<le> length (fold (\<lambda>n bs. first_fit c n bs) lens bs) \<and>
    length (fold (\<lambda>n bs. first_fit c n bs) lens bs) \<le> length bs + length lens \<and>
    (\<forall>b \<in> set (fold (\<lambda>n bs. first_fit c n bs) lens bs). b \<le> m)"
  using assms
proof (induction lens arbitrary: bs)
  case (Cons n lens)
  have "\<forall>b \<in> set (first_fit c n bs). b \<le> m" using Cons.prems by (intro first_fit_bound) auto
  with Cons.IH[of "first_fit c n bs"] Cons.prems show ?case
    using first_fit_length(1,2)[where bs = bs and c = c and n = n] by (simp add: first_fit_sum)
qed simp

text \<open>Between one and one per sample, and enough for the total.\<close>

lemma micro_batch_number:
  assumes "\<forall>n \<in> set lens. n \<le> m" "c \<le> m"
  shows "get_minimum_num_micro_batch_size lens c \<le> length lens"
    "lens \<noteq> [] \<Longrightarrow> 1 \<le> get_minimum_num_micro_batch_size lens c"
    "sum_list lens \<le> int (get_minimum_num_micro_batch_size lens c) * m"
proof -
  let ?bs = "micro_batches lens c"
  have f: "sum_list ?bs = sum_list lens" "length ?bs \<le> length lens" "\<forall>b \<in> set ?bs. b \<le> m"
    using fold_first_fit[OF assms, of "[]"] by (simp_all add: micro_batches_def)
  show "get_minimum_num_micro_batch_size lens c \<le> length lens" using f(2) by (simp add: get_minimum_num_micro_batch_size_def)
  have "sum_list ?bs \<le> sum_list (map (\<lambda>_. m) ?bs)" using f(3) sum_list_mono[of ?bs "\<lambda>b. b" "\<lambda>_. m"] by simp
  then show "sum_list lens \<le> int (get_minimum_num_micro_batch_size lens c) * m"
    using f(1) by (simp add: get_minimum_num_micro_batch_size_def sum_list_triv)
  assume "lens \<noteq> []"
  then obtain n ls where l: "lens = n # ls" by (cases lens) auto
  have "n \<le> m" "\<forall>k \<in> set ls. k \<le> m" using assms(1) by (auto simp: l)
  with fold_first_fit[of ls m c "[n]"] assms(2) have "length [n] \<le> length (fold (\<lambda>n bs. first_fit c n bs) ls [n])" by simp
  moreover have "?bs = fold (\<lambda>n bs. first_fit c n bs) ls [n]" by (simp add: micro_batches_def l)
  ultimately show "1 \<le> get_minimum_num_micro_batch_size lens c" by (simp add: get_minimum_num_micro_batch_size_def)
qed

section \<open>Reading\<close>

fun read_step :: "string list \<Rightarrow> nat \<Rightarrow> data_iterator \<Rightarrow> (rows list \<times> data_iterator) result" where
  "read_step keys 0 it = Inr ([], it)"
| "read_step keys (Suc n) it =
     bindE (get_next keys it) (\<lambda>(b, it). bindE (read_step keys n it) (\<lambda>(bs, it). Inr (b # bs, it)))"

fun read_steps :: "string list \<Rightarrow> int list \<Rightarrow> data_iterator \<Rightarrow> (rows list list \<times> data_iterator) result" where
  "read_steps keys [] it = Inr ([], it)"
| "read_steps keys (n # ns) it =
     bindE (read_step keys (nat n) it) (\<lambda>(bs, it). bindE (read_steps keys ns it) (\<lambda>(bss, it). Inr (bs # bss, it)))"

text \<open>The rows of a column that a step has read, in order.\<close>

definition read_rows :: "string \<Rightarrow> rows list \<Rightarrow> pyval list" where
  "read_rows key bs = concat (map (\<lambda>b. the (the (map_of b key))) bs)"

definition aligned_columns :: "nat \<Rightarrow> (string, pyval list) dict \<Rightarrow> bool" where
  "aligned_columns n cols = (\<forall>key col. map_of cols key = Some col \<longrightarrow> length col = n)"

text \<open>\<open>get_next\<close> takes the same rows of every column.\<close>

lemma get_next_fold:
  assumes "\<forall>key col. map_of cols key = Some col \<longrightarrow> next_rows it col = Inr (pick col)"
  shows "\<exists>b. foldE (\<lambda>key batch. case map_of cols key of None \<Rightarrow> Inr (dset key None batch)
              | Some vals \<Rightarrow> bindE (next_rows it vals) (\<lambda>vs. Inr (dset key (Some vs) batch))) keys b0 = Inr b \<and>
    (\<forall>key. map_of b key = (if key \<in> set keys then Some (map_option pick (map_of cols key)) else map_of b0 key))"
proof (induction keys arbitrary: b0)
  case (Cons key keys)
  let ?v = "map_option pick (map_of cols key)"
  obtain b where "foldE (\<lambda>key batch. case map_of cols key of None \<Rightarrow> Inr (dset key None batch)
              | Some vals \<Rightarrow> bindE (next_rows it vals) (\<lambda>vs. Inr (dset key (Some vs) batch))) keys (dset key ?v b0) = Inr b"
    "\<forall>k. map_of b k = (if k \<in> set keys then Some (map_option pick (map_of cols k)) else map_of (dset key ?v b0) k)"
    using Cons.IH[of "dset key ?v b0"] by blast
  then show ?case using assms by (intro exI[of _ b]) (auto split: option.splits)
qed simp

lemma get_next_rows:
  assumes "\<forall>key col. map_of (rb_columns (it_rollout_data it)) key = Some col \<longrightarrow> next_rows it col = Inr (pick col)"
    "(case it_micro_batch_indices it of Some _ \<Rightarrow> Inr 1
      | None \<Rightarrow> (case it_micro_batch_size it of None \<Rightarrow> Inl TypeError | Some m \<Rightarrow> Inr m)) = (Inr step :: int result)"
  shows "\<exists>b. get_next keys it = Inr (b, it\<lparr>it_offset := it_offset it + step\<rparr>) \<and>
    (\<forall>key \<in> set keys. \<forall>col. map_of (rb_columns (it_rollout_data it)) key = Some col \<longrightarrow> map_of b key = Some (Some (pick col)))"
  using get_next_fold[OF assms(1), of keys "[]"] assms(2) by (auto simp: get_next_def)

section \<open>Iterators that read\<close>

text \<open>\<open>reads it cols o n f\<close>: from offset \<open>o\<close>, \<open>n\<close> micro-batches hold the rows \<open>f\<close> of each column.\<close>

definition reads :: "(string, pyval list) dict \<Rightarrow> string list \<Rightarrow> nat \<Rightarrow> (pyval list \<Rightarrow> pyval list) \<Rightarrow> data_iterator \<Rightarrow> data_iterator \<Rightarrow> bool" where
  "reads cols keys n f it it' = (\<exists>bs. read_step keys n it = Inr (bs, it') \<and> length bs = n \<and>
     (\<forall>key \<in> set keys. \<forall>col. map_of cols key = Some col \<longrightarrow> read_rows key bs = f col))"

lemma reads_0: "reads cols keys 0 (\<lambda>_. []) it it"
  by (simp add: reads_def read_rows_def)

lemma reads_Suc:
  assumes "get_next keys it = Inr (b, it1)" "\<forall>key \<in> set keys. \<forall>col. map_of cols key = Some col \<longrightarrow> map_of b key = Some (Some (g col))"
    "reads cols keys n f it1 it'" "\<forall>key col. map_of cols key = Some col \<longrightarrow> h col = g col @ f col"
  shows "reads cols keys (Suc n) h it it'"
proof -
  obtain bs where bs: "read_step keys n it1 = Inr (bs, it')" "length bs = n"
    "\<forall>key \<in> set keys. \<forall>col. map_of cols key = Some col \<longrightarrow> read_rows key bs = f col" using assms(3) by (auto simp: reads_def)
  then show ?thesis using assms(1,2,4) unfolding reads_def
    by (intro exI[of _ "b # bs"]) (auto simp: read_rows_def)
qed

lemma reads_indices:
  assumes "it_micro_batch_indices it = Some mbs" "it_offset it = int k" "k + n \<le> length mbs" "\<forall>p \<in> set mbs. \<forall>i \<in> set p. i < N"
    "aligned_columns N (rb_columns (it_rollout_data it))"
  shows "reads (rb_columns (it_rollout_data it)) keys n (\<lambda>col. map ((!) col) (concat (take n (drop k mbs)))) it (it\<lparr>it_offset := int (k + n)\<rparr>)"
  using assms
proof (induction n arbitrary: it k)
  case 0
  then have "it\<lparr>it_offset := int k\<rparr> = it" by simp
  then show ?case using reads_0[of "rb_columns (it_rollout_data it)" keys it] by simp
next
  case (Suc n)
  let ?cols = "rb_columns (it_rollout_data it)" and ?g = "\<lambda>col. map ((!) col) (mbs ! k)"
  have k: "k < length mbs" "mbs ! k \<in> set mbs" using Suc.prems(3) by auto
  have "\<forall>key col. map_of ?cols key = Some col \<longrightarrow> next_rows it col = Inr (?g col)"
  proof (intro allI impI)
    fix key col assume c: "map_of ?cols key = Some col"
    have "mapE (\<lambda>i. py_nth col (int i)) (mbs ! k) = Inr (map ((!) col) (mbs ! k))"
      using Suc.prems(4,5) c k(2) by (intro mapE_Inr) (auto simp: py_nth_def aligned_columns_def)
    then show "next_rows it col = Inr (?g col)" using Suc.prems(1,2) k(1) by (simp add: next_rows_def py_nth_def)
  qed
  from get_next_rows[OF this, of 1 keys] obtain b where b: "get_next keys it = Inr (b, it\<lparr>it_offset := int k + 1\<rparr>)"
    "\<forall>key \<in> set keys. \<forall>col. map_of ?cols key = Some col \<longrightarrow> map_of b key = Some (Some (?g col))"
    using Suc.prems(1,2) by auto
  have "reads ?cols keys n (\<lambda>col. map ((!) col) (concat (take n (drop (Suc k) mbs)))) (it\<lparr>it_offset := int k + 1\<rparr>)
      (it\<lparr>it_offset := int k + 1\<rparr>\<lparr>it_offset := int (Suc k + n)\<rparr>)"
    using Suc.IH[of "it\<lparr>it_offset := int k + 1\<rparr>" "Suc k"] Suc.prems by simp
  from reads_Suc[OF b this] show ?case using k(1) by (simp add: Cons_nth_drop_Suc[symmetric])
qed

lemma reads_slices:
  assumes "it_micro_batch_indices it = None" "it_micro_batch_size it = Some (int m)" "it_offset it = int k" "k + n * m \<le> N"
    "aligned_columns N (rb_columns (it_rollout_data it))"
  shows "reads (rb_columns (it_rollout_data it)) keys n (\<lambda>col. take (n * m) (drop k col)) it (it\<lparr>it_offset := int (k + n * m)\<rparr>)"
  using assms
proof (induction n arbitrary: it k)
  case 0
  then have "it\<lparr>it_offset := int k\<rparr> = it" by simp
  then show ?case using reads_0[of "rb_columns (it_rollout_data it)" keys it] by simp
next
  case (Suc n)
  let ?cols = "rb_columns (it_rollout_data it)" and ?g = "\<lambda>col :: pyval list. take m (drop k col)"
  have len: "length col = N" if "map_of ?cols key = Some col" for key col
    using that Suc.prems(5) by (auto simp: aligned_columns_def)
  have "\<forall>key col. map_of ?cols key = Some col \<longrightarrow> next_rows it col = Inr (?g col)"
    using Suc.prems(1-4) len by (simp add: next_rows_def py_slice_of_nat assertE_def flip: of_nat_add)
  from get_next_rows[OF this, of "int m" keys] obtain b where b: "get_next keys it = Inr (b, it\<lparr>it_offset := int (k + m)\<rparr>)"
    "\<forall>key \<in> set keys. \<forall>col. map_of ?cols key = Some col \<longrightarrow> map_of b key = Some (Some (?g col))"
    using Suc.prems(1-3) by auto
  have "reads ?cols keys n (\<lambda>col. take (n * m) (drop (k + m) col)) (it\<lparr>it_offset := int (k + m)\<rparr>)
      (it\<lparr>it_offset := int (k + m)\<rparr>\<lparr>it_offset := int (k + m + n * m)\<rparr>)"
    using Suc.IH[of "it\<lparr>it_offset := int (k + m)\<rparr>" "k + m"] Suc.prems by simp
  from reads_Suc[OF b this, of "\<lambda>col. take (Suc n * m) (drop k col)"] show ?case
    by (simp add: take_add drop_drop add_ac)
qed

text \<open>Whole steps: \<open>fs\<close> says what each step holds of a column.\<close>

definition reads_steps :: "(string, pyval list) dict \<Rightarrow> string list \<Rightarrow> int list \<Rightarrow> (nat \<Rightarrow> pyval list \<Rightarrow> pyval list) \<Rightarrow> data_iterator \<Rightarrow> bool" where
  "reads_steps cols keys counts fs it = (\<exists>out it'. read_steps keys counts it = Inr (out, it') \<and> length out = length counts \<and>
     (\<forall>s < length counts. int (length (out ! s)) = counts ! s \<and>
        (\<forall>key \<in> set keys. \<forall>col. map_of cols key = Some col \<longrightarrow> read_rows key (out ! s) = fs s col)))"

lemma reads_steps_Cons:
  assumes "reads cols keys n (fs 0) it it1" "reads_steps cols keys ns (\<lambda>s. fs (Suc s)) it1"
  shows "reads_steps cols keys (int n # ns) fs it"
proof -
  obtain bs where bs: "read_step keys n it = Inr (bs, it1)" "length bs = n"
    "\<forall>key \<in> set keys. \<forall>col. map_of cols key = Some col \<longrightarrow> read_rows key bs = fs 0 col" using assms(1) by (auto simp: reads_def)
  obtain out it' where out: "read_steps keys ns it1 = Inr (out, it')" "length out = length ns"
    "\<forall>s < length ns. int (length (out ! s)) = ns ! s \<and>
        (\<forall>key \<in> set keys. \<forall>col. map_of cols key = Some col \<longrightarrow> read_rows key (out ! s) = fs (Suc s) col)"
    using assms(2) unfolding reads_steps_def by blast
  show ?thesis unfolding reads_steps_def
    by (intro exI[of _ "bs # out"] exI[of _ it']) (use bs out in \<open>auto simp: nth_Cons split: nat.splits\<close>)
qed

lemma reads_steps_Nil: "reads_steps cols keys [] fs it"
  by (simp add: reads_steps_def)

lemma reads_steps_indices:
  assumes "it_micro_batch_indices it = Some (pre @ concat parts)" "it_offset it = int (length pre)"
    "\<forall>p \<in> set (pre @ concat parts). \<forall>i \<in> set p. i < N" "aligned_columns N (rb_columns (it_rollout_data it))"
  shows "reads_steps (rb_columns (it_rollout_data it)) keys (map (\<lambda>p. int (length p)) parts) (\<lambda>s col. map ((!) col) (concat (parts ! s))) it"
  using assms
proof (induction parts arbitrary: it pre)
  case (Cons p parts)
  let ?it = "it\<lparr>it_offset := int (length pre + length p)\<rparr>"
  have "reads (rb_columns (it_rollout_data it)) keys (length p)
     (\<lambda>col. map ((!) col) (concat (take (length p) (drop (length pre) (pre @ concat (p # parts)))))) it ?it"
    using Cons.prems by (intro reads_indices[where N = N]) auto
  moreover have "take (length p) (drop (length pre) (pre @ concat (p # parts))) = p" by simp
  moreover have "reads_steps (rb_columns (it_rollout_data ?it)) keys (map (\<lambda>p. int (length p)) parts) (\<lambda>s col. map ((!) col) (concat (parts ! s))) ?it"
    using Cons.prems by (intro Cons.IH[of _ "pre @ p"]) auto
  ultimately show ?case using reads_steps_Cons[of "rb_columns (it_rollout_data it)" keys "length p"
      "\<lambda>s col. map ((!) col) (concat ((p # parts) ! s))" it ?it] by simp
qed (simp add: reads_steps_Nil)

lemma reads_steps_slices:
  assumes "it_micro_batch_indices it = None" "it_micro_batch_size it = Some (int m)" "it_offset it = int k"
    "k + steps * (c * m) \<le> N" "aligned_columns N (rb_columns (it_rollout_data it))"
  shows "reads_steps (rb_columns (it_rollout_data it)) keys (replicate steps (int c))
    (\<lambda>s col. take (c * m) (drop (k + s * (c * m)) col)) it"
  using assms
proof (induction steps arbitrary: it k)
  case (Suc steps)
  let ?it = "it\<lparr>it_offset := int (k + c * m)\<rparr>"
  have "reads (rb_columns (it_rollout_data it)) keys c (\<lambda>col. take (c * m) (drop k col)) it ?it"
    using Suc.prems by (intro reads_slices[where N = N]) auto
  moreover have "reads_steps (rb_columns (it_rollout_data ?it)) keys (replicate steps (int c))
    (\<lambda>s col. take (c * m) (drop (k + c * m + s * (c * m)) col)) ?it"
    using Suc.prems by (intro Suc.IH) auto
  ultimately show ?case using reads_steps_Cons[of "rb_columns (it_rollout_data it)" keys c
      "\<lambda>s col. take (c * m) (drop (k + s * (c * m)) col)" it ?it] by (simp add: add.assoc)
qed (simp add: reads_steps_Nil)

section \<open>The schedule of a rank\<close>

definition lens_of :: "rollout_batch \<Rightarrow> nat list" where
  "lens_of rd = (case map_of (rb_columns rd) ''total_lengths'' of None \<Rightarrow> []
     | Some vs \<Rightarrow> map (\<lambda>v. case v of PInt i \<Rightarrow> nat i | _ \<Rightarrow> 0) vs)"

text \<open>A rank holds \<open>n\<close> rows of every column it has, among them the lengths.\<close>

definition batch_ok :: "nat \<Rightarrow> rollout_batch \<Rightarrow> bool" where
  "batch_ok n rd = (aligned_columns n (rb_columns rd) \<and>
     map_of (rb_columns rd) ''total_lengths'' = Some (map (\<lambda>l. PInt (int l)) (lens_of rd)) \<and> length (lens_of rd) = n)"

definition group_ok :: "schedule_args \<Rightarrow> rollout_batch list \<Rightarrow> nat \<Rightarrow> nat \<Rightarrow> bool" where
  "group_ok args ranks gbs steps = (ranks \<noteq> [] \<and> 0 < gbs \<and>
     (\<forall>rd \<in> set ranks. batch_ok (steps * gbs) rd \<and>
        (case rb_dynamic_global_batch_size rd of None \<Rightarrow> sa_global_batch_size args | Some g \<Rightarrow> g) div int (length ranks) = int gbs))"

lemma lengths_read:
  assumes "batch_ok n rd"
  shows "total_lengths_of rd = Inr (map int (lens_of rd))"
proof -
  have "mapE to_int (map (\<lambda>l. PInt (int l)) ls) = Inr (map int ls)" for ls by (induction ls) auto
  then show ?thesis using assms by (simp add: total_lengths_of_def batch_ok_def)
qed

lemma steps_of:
  assumes "group_ok args ranks gbs steps" "rd \<in> set ranks"
  shows "local_steps args (length ranks) rd = Inr (int gbs, int steps)"
  using assms by (auto simp: local_steps_def group_ok_def batch_ok_def Let_def)

lemma step_lengths_eq: "step_lengths (int gbs) (map int ls) s = map int (take gbs (drop (s * gbs) ls))"
proof -
  have "py_slice (map int ls) (int (s * gbs)) (int (s * gbs + gbs)) = take gbs (drop (s * gbs) (map int ls))"
    by (simp add: py_slice_of_nat del: of_nat_add of_nat_mult)
  then show ?thesis by (simp add: step_lengths_def take_map drop_map algebra_simps)
qed

definition step_size :: "nat \<Rightarrow> nat list \<Rightarrow> nat \<Rightarrow> nat list" where
  "step_size gbs ls s = take gbs (drop (s * gbs) ls)"

lemma length_step_size: "s < steps \<Longrightarrow> length ls = steps * gbs \<Longrightarrow> length (step_size gbs ls s) = gbs"
proof -
  assume "s < steps" "length ls = steps * gbs"
  then have "(s + 1) * gbs \<le> length ls" by (simp del: mult_Suc add: mult_le_mono1)
  then show ?thesis by (simp add: step_size_def)
qed

lemma nth_step_size: "s < steps \<Longrightarrow> length ls = steps * gbs \<Longrightarrow> i < gbs \<Longrightarrow> step_size gbs ls s ! i = ls ! (i + s * gbs)"
proof -
  assume a: "s < steps" "length ls = steps * gbs" "i < gbs"
  then have "(s + 1) * gbs \<le> length ls" by (simp del: mult_Suc add: mult_le_mono1)
  then show ?thesis using a(3) by (simp add: step_size_def add.commute)
qed

text \<open>The micro-batches of one step, as indices into the samples of the rank.\<close>

definition step_ok :: "nat list \<Rightarrow> nat \<Rightarrow> nat \<Rightarrow> int \<Rightarrow> nat list list \<Rightarrow> bool" where
  "step_ok ls gbs s c mbs = (int (length mbs) = c \<and> mset (concat mbs) = mset [s * gbs..<(s + 1) * gbs] \<and>
     (\<forall>p \<in> set mbs. \<forall>q \<in> set mbs. sum_list (map ((!) ls) p) \<le> sum_list (map ((!) ls) q) + Max (set (step_size gbs ls s))))"

lemma shifted_sum:
  assumes "\<forall>i \<in> set p. i < gbs" "s < steps" "length ls = steps * gbs"
  shows "sum_list (map ((!) ls) (map (\<lambda>k. k + s * gbs) p)) = sum_list (map ((!) (step_size gbs ls s)) p)"
  using assms nth_step_size[OF assms(2,3)] by (auto intro!: arg_cong[of _ _ sum_list] simp: comp_def)

lemma step_partitions_ok:
  assumes "s < steps" "length ls = steps * gbs" "1 \<le> c" "c \<le> int gbs"
  shows "\<exists>mbs. step_partitions (int gbs) (map int ls) (s, c) = Inr mbs \<and> step_ok ls gbs s c mbs"
proof -
  let ?ls = "step_size gbs ls s"
  have k: "0 < nat c" "nat c \<le> length ?ls" using assms(3,4) length_step_size[OF assms(1,2)] by auto
  obtain ps where ps: "get_seqlen_balanced_partitions ?ls (nat c) False = Inr ps" "is_partition ?ls (nat c) ps" "balanced ?ls ps"
    using partitions_spec[of "nat c" ?ls False] k by auto
  let ?mbs = "map (map (\<lambda>k. k + s * gbs)) ps"
  have "map nat (step_lengths (int gbs) (map int ls) s) = ?ls" by (simp add: step_lengths_eq step_size_def comp_def)
  then have "step_partitions (int gbs) (map int ls) (s, c) = Inr ?mbs" using ps(1) by (simp add: step_partitions_def)
  moreover have "mset (concat ?mbs) = mset [s * gbs..<(s + 1) * gbs]"
  proof -
    have "concat ?mbs = map (\<lambda>k. k + s * gbs) (concat ps)" by (simp add: map_concat)
    then have "mset (concat ?mbs) = image_mset (\<lambda>k. k + s * gbs) (mset [0..<gbs])"
      using ps(2) length_step_size[OF assms(1,2)] by (simp add: is_partition_def)
    also have "\<dots> = mset (map (\<lambda>k. k + s * gbs) [0..<gbs])" by simp
    also have "map (\<lambda>k. k + s * gbs) [0..<gbs] = [s * gbs..<(s + 1) * gbs]" by (simp add: map_add_upt add.commute)
    finally show ?thesis .
  qed
  moreover have "sum_list (map ((!) ls) (map (\<lambda>k. k + s * gbs) p)) = part_sum ?ls p" if "p \<in> set ps" for p
  proof -
    have "set (concat ps) = set [0..<length ?ls]" using ps(2) by (metis is_partition_def set_mset_mset)
    then have "\<forall>i \<in> set p. i < gbs" using that length_step_size[OF assms(1,2)] by auto
    from shifted_sum[OF this assms(1,2)] show ?thesis by (simp add: part_sum_def)
  qed
  ultimately show ?thesis using ps(2,3) assms(3) by (intro exI[of _ ?mbs]) (auto simp: step_ok_def is_partition_def balanced_def)
qed

lemma mapE_of_map: "mapE f (map g xs) = mapE (\<lambda>x. f (g x)) xs"
  by (induction xs) auto

lemma step_ranges: "(\<Union>s < steps. {s * gbs..<(s + 1) * gbs}) = {0..<steps * gbs}" for gbs :: nat
proof (induction steps)
  case (Suc steps)
  have "(\<Union>s < Suc steps. {s * gbs..<(s + 1) * gbs}) = {steps * gbs..<(steps + 1) * gbs} \<union> {0..<steps * gbs}"
    using Suc by (simp add: lessThan_Suc)
  also have "\<dots> = {0..<Suc steps * gbs}" by auto
  finally show ?case .
qed simp

lemma local_schedule_ok:
  assumes "group_ok args ranks gbs steps" "rd \<in> set ranks" "length counts = steps" "\<forall>c \<in> set counts. 1 \<le> c \<and> c \<le> int gbs"
  shows "\<exists>parts. local_schedule args (length ranks) rd counts =
      Inr (replicate (vpp_of args) \<lparr>it_rollout_data = rd, it_micro_batch_size = None,
        it_micro_batch_indices = Some (concat parts), it_offset = 0\<rparr>, counts) \<and>
    length parts = steps \<and> (\<forall>s < steps. step_ok (lens_of rd) gbs s (counts ! s) (parts ! s))"
proof -
  let ?ls = "lens_of rd"
  have b: "batch_ok (steps * gbs) rd" using assms(1,2) by (simp add: group_ok_def)
  then have l: "length ?ls = steps * gbs" by (simp add: batch_ok_def)
  have "\<exists>f. \<forall>s < steps. step_partitions (int gbs) (map int ?ls) (s, counts ! s) = Inr (f s) \<and> step_ok ?ls gbs s (counts ! s) (f s)"
    using step_partitions_ok[OF _ l] assms(3,4) by (intro choice_iff[THEN iffD1]) auto
  then obtain f where f: "\<forall>s < steps. step_partitions (int gbs) (map int ?ls) (s, counts ! s) = Inr (f s) \<and> step_ok ?ls gbs s (counts ! s) (f s)" ..
  let ?parts = "map f [0..<steps]"
  have e: "enumerate_list counts = map (\<lambda>s. (s, counts ! s)) [0..<steps]"
    by (intro nth_equalityI) (simp_all add: enumerate_list_def assms(3) nth_enumerate_eq)
  have m: "mapE (step_partitions (int gbs) (map int ?ls)) (enumerate_list counts) = Inr ?parts"
    unfolding e mapE_of_map using f by (intro mapE_Inr) simp
  have sets: "set (concat (f s)) = {s * gbs..<(s + 1) * gbs}" if "s < steps" for s
  proof -
    have "mset (concat (f s)) = mset [s * gbs..<(s + 1) * gbs]" using f that by (simp add: step_ok_def)
    then have "set (concat (f s)) = set [s * gbs..<(s + 1) * gbs]" by (metis set_mset_mset)
    then show ?thesis by simp
  qed
  have "set (concat (concat ?parts)) = (\<Union>s < steps. {s * gbs..<(s + 1) * gbs})" using sets by auto
  also have "\<dots> = {0..<steps * gbs}" by (rule step_ranges)
  finally have "card (set (concat (concat ?parts))) = length ?ls" using l by simp
  then have "local_schedule args (length ranks) rd counts =
      Inr (replicate (vpp_of args) \<lparr>it_rollout_data = rd, it_micro_batch_size = None,
        it_micro_batch_indices = Some (concat ?parts), it_offset = 0\<rparr>, counts)"
    unfolding local_schedule_def steps_of[OF assms(1,2)] lengths_read[OF b] bindE_simps prod.case m Let_def
    by (simp add: new_iterator_def assertE_def)
  then show ?thesis using f by (intro exI[of _ ?parts]) simp
qed

section \<open>The counts of the group\<close>

lemma max_rows:
  assumes "rows \<noteq> []" "\<forall>row \<in> set rows. length row = n \<and> (\<forall>c \<in> set row. lo \<le> c \<and> c \<le> hi)"
  shows "\<exists>m. all_reduce_max rows = Inr m \<and> length m = n \<and> (\<forall>c \<in> set m. lo \<le> c \<and> c \<le> hi) \<and>
    (\<forall>row \<in> set rows. \<forall>i < n. row ! i \<le> m ! i)"
proof -
  have h: "length (hd rows) = n" using assms by simp
  let ?m = "map (\<lambda>i. Max ((\<lambda>row. row ! i) ` set rows)) [0..<n]"
  have "all_reduce_max rows = Inr ?m" using assms h by (simp add: all_reduce_max_def raise_unless_def)
  moreover have "lo \<le> Max ((\<lambda>row. row ! i) ` set rows) \<and> Max ((\<lambda>row. row ! i) ` set rows) \<le> hi" if "i < n" for i
  proof -
    have "Max ((\<lambda>row. row ! i) ` set rows) \<in> (\<lambda>row. row ! i) ` set rows" using assms(1) by (intro Max_in) auto
    then show ?thesis using assms(2) that by auto
  qed
  ultimately show ?thesis by (intro exI[of _ ?m]) auto
qed

lemma rounded_counts:
  assumes "\<forall>c \<in> set counts. 1 \<le> c \<and> c \<le> hi" "vpp_of args > 1 \<longrightarrow> 0 < sa_microbatch_group_size_per_vp_stage args"
  shows "\<exists>m. round_for_vpp args counts = Inr m \<and> length m = length counts \<and> (\<forall>c \<in> set m. 1 \<le> c \<and> c \<le> hi) \<and>
    (vpp_of args \<le> 1 \<longrightarrow> m = counts)"
proof (cases "vpp_of args > 1")
  case True
  let ?g = "sa_microbatch_group_size_per_vp_stage args"
  have "n div ?g * ?g \<le> n" for n using True assms(2) by (simp add: minus_mod_eq_div_mult[symmetric])
  then have "1 \<le> max 1 (n div ?g * ?g) \<and> max 1 (n div ?g * ?g) \<le> hi" if "n \<in> set counts" for n
    using assms(1) that by (auto intro: order_trans)
  then show ?thesis using True assms(2) by (intro exI[of _ "map (\<lambda>n. max 1 (n div ?g * ?g)) counts"]) (auto simp: round_for_vpp_def Let_def)
qed (use assms(1) in \<open>auto simp: round_for_vpp_def Let_def\<close>)

definition count_at :: "schedule_args \<Rightarrow> int \<Rightarrow> nat \<Rightarrow> rollout_batch \<Rightarrow> nat \<Rightarrow> nat" where
  "count_at args cap gbs rd s = get_minimum_num_micro_batch_size (map int (step_size gbs (lens_of rd) s)) cap"

lemma local_counts_eq:
  assumes "group_ok args ranks gbs steps" "rd \<in> set ranks" "sa_max_tokens_per_gpu args = Some m"
  shows "local_counts args (length ranks) rd = Inr (map (\<lambda>s. int (count_at args (m * int (sa_cp_size args)) gbs rd s)) [0..<steps])"
proof -
  have b: "batch_ok (steps * gbs) rd" using assms(1,2) by (simp add: group_ok_def)
  show ?thesis unfolding local_counts_def steps_of[OF assms(1,2)] lengths_read[OF b] assms(3) bindE_simps prod.case option.case
    by (simp add: step_lengths_eq count_at_def step_size_def)
qed

lemma count_at_bounds:
  assumes "group_ok args ranks gbs steps" "rd \<in> set ranks" "s < steps"
  shows "1 \<le> count_at args cap gbs rd s" "count_at args cap gbs rd s \<le> gbs"
    "int (sum_list (step_size gbs (lens_of rd) s)) \<le> int (count_at args cap gbs rd s) * max cap (int (Max (set (lens_of rd))))"
proof -
  let ?ls = "step_size gbs (lens_of rd) s" and ?m = "max cap (int (Max (set (lens_of rd))))"
  have b: "batch_ok (steps * gbs) rd" "0 < gbs" using assms(1,2) by (simp_all add: group_ok_def)
  then have len: "length ?ls = gbs" using length_step_size[OF assms(3)] by (simp add: batch_ok_def)
  have "\<forall>n \<in> set (map int ?ls). n \<le> ?m"
  proof
    fix n assume "n \<in> set (map int ?ls)"
    then obtain k where "k \<in> set (lens_of rd)" "n = int k" by (auto simp: step_size_def dest: in_set_takeD in_set_dropD)
    then show "n \<le> ?m" by (simp add: le_max_iff_disj)
  qed
  moreover have "map int ?ls \<noteq> []" using len b(2) by auto
  ultimately show "1 \<le> count_at args cap gbs rd s" "count_at args cap gbs rd s \<le> gbs"
    "int (sum_list ?ls) \<le> int (count_at args cap gbs rd s) * ?m"
    using micro_batch_number[of "map int ?ls" ?m cap] len by (simp_all add: count_at_def sum_list_of_nat)
qed

text \<open>With a dynamic batch size every rank gets the counts that the group agreed on.\<close>

lemma dynamic_schedule:
  assumes "group_ok args ranks gbs steps" "sa_use_dynamic_batch_size args" "sa_max_tokens_per_gpu args = Some m"
    "vpp_of args > 1 \<longrightarrow> 0 < sa_microbatch_group_size_per_vp_stage args"
  shows "\<exists>counts scheds. get_data_iterator args ranks = Inr scheds \<and> length scheds = length ranks \<and> length counts = steps \<and>
    (\<forall>c \<in> set counts. 1 \<le> c \<and> c \<le> int gbs) \<and>
    (vpp_of args \<le> 1 \<longrightarrow> (\<forall>rd \<in> set ranks. \<forall>s < steps. int (count_at args (m * int (sa_cp_size args)) gbs rd s) \<le> counts ! s)) \<and>
    (\<forall>r < length ranks. \<exists>parts. scheds ! r = (replicate (vpp_of args) \<lparr>it_rollout_data = ranks ! r, it_micro_batch_size = None,
        it_micro_batch_indices = Some (concat parts), it_offset = 0\<rparr>, counts) \<and>
      length parts = steps \<and> (\<forall>s < steps. step_ok (lens_of (ranks ! r)) gbs s (counts ! s) (parts ! s)))"
proof -
  let ?row = "\<lambda>rd. map (\<lambda>s. int (count_at args (m * int (sa_cp_size args)) gbs rd s)) [0..<steps]"
  have rows: "mapE (local_counts args (length ranks)) ranks = Inr (map ?row ranks)"
    by (rule mapE_Inr) (rule local_counts_eq[OF assms(1) _ assms(3)])
  have "map ?row ranks \<noteq> []" using assms(1) by (simp add: group_ok_def)
  moreover have "\<forall>row \<in> set (map ?row ranks). length row = steps \<and> (\<forall>c \<in> set row. 1 \<le> c \<and> c \<le> int gbs)"
    using count_at_bounds(1,2)[OF assms(1)] by (auto simp: Suc_le_eq)
  ultimately obtain top where top: "all_reduce_max (map ?row ranks) = Inr top" "length top = steps" "\<forall>c \<in> set top. 1 \<le> c \<and> c \<le> int gbs"
    "\<forall>row \<in> set (map ?row ranks). \<forall>i < steps. row ! i \<le> top ! i"
    using max_rows[of "map ?row ranks" steps 1 "int gbs"] by blast
  obtain counts where counts: "round_for_vpp args top = Inr counts" "length counts = steps" "\<forall>c \<in> set counts. 1 \<le> c \<and> c \<le> int gbs"
    "vpp_of args \<le> 1 \<longrightarrow> counts = top" using rounded_counts[OF top(3) assms(4)] top(2) by auto
  have "\<exists>parts. \<forall>rd \<in> set ranks. local_schedule args (length ranks) rd counts =
      Inr (replicate (vpp_of args) \<lparr>it_rollout_data = rd, it_micro_batch_size = None,
        it_micro_batch_indices = Some (concat (parts rd)), it_offset = 0\<rparr>, counts) \<and>
    length (parts rd) = steps \<and> (\<forall>s < steps. step_ok (lens_of rd) gbs s (counts ! s) (parts rd ! s))"
    using local_schedule_ok[OF assms(1) _ counts(2,3)] by (intro bchoice) blast
  then obtain parts where parts: "\<forall>rd \<in> set ranks. local_schedule args (length ranks) rd counts =
      Inr (replicate (vpp_of args) \<lparr>it_rollout_data = rd, it_micro_batch_size = None,
        it_micro_batch_indices = Some (concat (parts rd)), it_offset = 0\<rparr>, counts) \<and>
    length (parts rd) = steps \<and> (\<forall>s < steps. step_ok (lens_of rd) gbs s (counts ! s) (parts rd ! s))" ..
  let ?scheds = "map (\<lambda>rd. (replicate (vpp_of args) \<lparr>it_rollout_data = rd, it_micro_batch_size = None,
        it_micro_batch_indices = Some (concat (parts rd)), it_offset = 0\<rparr>, counts)) ranks"
  have "mapE (\<lambda>rd. local_schedule args (length ranks) rd counts) ranks = Inr ?scheds"
    using parts by (intro mapE_Inr) simp
  then have "get_data_iterator args ranks = Inr ?scheds"
    using assms(2) rows top(1) counts(1) by (simp add: get_data_iterator_def)
  moreover have "int (count_at args (m * int (sa_cp_size args)) gbs rd s) \<le> counts ! s" if "vpp_of args \<le> 1" "rd \<in> set ranks" "s < steps" for rd s
    using top(4) counts(4) that by auto
  ultimately show ?thesis using parts counts(2,3) by (intro exI[of _ counts] exI[of _ ?scheds]) auto
qed

text \<open>Without it every rank cuts its samples into windows.\<close>

lemma fixed_schedule_ok:
  assumes "group_ok args ranks gbs steps" "\<not> sa_use_dynamic_batch_size args" "0 < sa_micro_batch_size args" "int gbs = int c * sa_micro_batch_size args"
  shows "get_data_iterator args ranks = Inr (map (\<lambda>rd. (replicate (vpp_of args) \<lparr>it_rollout_data = rd,
      it_micro_batch_size = Some (sa_micro_batch_size args), it_micro_batch_indices = None, it_offset = 0\<rparr>, replicate steps (int c))) ranks)"
proof -
  have "fixed_schedule args (length ranks) rd = Inr (replicate (vpp_of args) \<lparr>it_rollout_data = rd,
      it_micro_batch_size = Some (sa_micro_batch_size args), it_micro_batch_indices = None, it_offset = 0\<rparr>, replicate steps (int c))"
    if "rd \<in> set ranks" for rd
    unfolding fixed_schedule_def steps_of[OF assms(1) that] bindE_simps prod.case
    using assms(3,4) by (auto simp: new_iterator_def assertE_def raise_unless_def)
  then show ?thesis using assms(2) by (simp add: get_data_iterator_def mapE_Inr)
qed

lemma step_rows:
  assumes "mset p = mset [s * gbs..<(s + 1) * gbs]" "s < steps" "length col = steps * gbs"
  shows "mset (map ((!) col) p) = mset (take gbs (drop (s * gbs) col))"
proof -
  have "(s + 1) * gbs \<le> length col" using assms(2,3) by (simp del: mult_Suc add: mult_le_mono1)
  then have "take gbs (drop (s * gbs) col) = map ((!) col) [s * gbs..<(s + 1) * gbs]"
    by (intro nth_equalityI) (auto simp: add.commute)
  then show ?thesis using assms(1) by (metis mset_map)
qed

lemma dynamic_reads:
  assumes "group_ok args ranks gbs steps" "sa_use_dynamic_batch_size args" "sa_max_tokens_per_gpu args = Some m"
    "vpp_of args > 1 \<longrightarrow> 0 < sa_microbatch_group_size_per_vp_stage args"
  shows "\<exists>counts scheds. get_data_iterator args ranks = Inr scheds \<and> length scheds = length ranks \<and> length counts = steps \<and>
    (\<forall>r < length ranks. \<exists>it fs. scheds ! r = (replicate (vpp_of args) it, counts) \<and>
      reads_steps (rb_columns (ranks ! r)) keys counts fs it \<and>
      (\<forall>s < steps. \<forall>key col. map_of (rb_columns (ranks ! r)) key = Some col \<longrightarrow> mset (fs s col) = mset (take gbs (drop (s * gbs) col))))"
proof -
  let ?it = "\<lambda>r parts. \<lparr>it_rollout_data = ranks ! r, it_micro_batch_size = None, it_micro_batch_indices = Some (concat parts), it_offset = 0\<rparr>"
  obtain counts scheds where s: "get_data_iterator args ranks = Inr scheds" "length scheds = length ranks" "length counts = steps"
    "\<forall>r < length ranks. \<exists>parts. scheds ! r = (replicate (vpp_of args) (?it r parts), counts) \<and> length parts = steps \<and>
      (\<forall>s < steps. step_ok (lens_of (ranks ! r)) gbs s (counts ! s) (parts ! s))" using dynamic_schedule[OF assms] by blast
  have "\<exists>it fs. scheds ! r = (replicate (vpp_of args) it, counts) \<and> reads_steps (rb_columns (ranks ! r)) keys counts fs it \<and>
      (\<forall>s < steps. \<forall>key col. map_of (rb_columns (ranks ! r)) key = Some col \<longrightarrow> mset (fs s col) = mset (take gbs (drop (s * gbs) col)))"
    if r: "r < length ranks" for r
  proof -
    obtain parts where p: "scheds ! r = (replicate (vpp_of args) (?it r parts), counts)" "length parts = steps"
      "\<forall>s < steps. step_ok (lens_of (ranks ! r)) gbs s (counts ! s) (parts ! s)" using s(4) r by blast
    have cols: "aligned_columns (steps * gbs) (rb_columns (ranks ! r))" using assms(1) r by (simp add: group_ok_def batch_ok_def)
    have ms: "mset (concat (parts ! s)) = mset [s * gbs..<(s + 1) * gbs]" if "s < steps" for s
      using p(3) that by (simp add: step_ok_def)
    have idx: "i < steps * gbs" if "p \<in> set (concat parts)" "i \<in> set p" for p i
    proof -
      obtain mbs where "mbs \<in> set parts" "p \<in> set mbs" using \<open>p \<in> set (concat parts)\<close> by auto
      then obtain s where s: "s < steps" "p \<in> set (parts ! s)" using p(2) by (metis in_set_conv_nth)
      have "set (concat (parts ! s)) = set [s * gbs..<(s + 1) * gbs]" using ms[OF s(1)] by (metis set_mset_mset)
      then have "i < (s + 1) * gbs" using s(2) that(2) by auto
      also have "\<dots> \<le> steps * gbs" using s(1) by (intro mult_le_mono1) simp
      finally show ?thesis .
    qed
    have c: "map (\<lambda>p. int (length p)) parts = counts"
      using p(2,3) s(3) by (intro nth_equalityI) (simp_all add: step_ok_def)
    have "reads_steps (rb_columns (it_rollout_data (?it r parts))) keys (map (\<lambda>p. int (length p)) parts)
       (\<lambda>s col. map ((!) col) (concat (parts ! s))) (?it r parts)"
      using idx cols by (intro reads_steps_indices[of _ "[]" _ "steps * gbs"]) auto
    then have "reads_steps (rb_columns (ranks ! r)) keys counts (\<lambda>s col. map ((!) col) (concat (parts ! s))) (?it r parts)"
      unfolding c by simp
    moreover have "mset (map ((!) col) (concat (parts ! s))) = mset (take gbs (drop (s * gbs) col))"
      if "s < steps" "map_of (rb_columns (ranks ! r)) key = Some col" for s key col
    proof (rule step_rows[OF ms[OF that(1)] that(1)])
      show "length col = steps * gbs" using cols that(2) unfolding aligned_columns_def by blast
    qed
    ultimately show ?thesis using p(1) by blast
  qed
  then show ?thesis using s(1-3) by blast
qed

lemma fixed_reads:
  assumes "group_ok args ranks gbs steps" "\<not> sa_use_dynamic_batch_size args" "0 < sa_micro_batch_size args" "sa_micro_batch_size args dvd int gbs"
  shows "\<exists>counts scheds. get_data_iterator args ranks = Inr scheds \<and> length scheds = length ranks \<and> length counts = steps \<and>
    (\<forall>r < length ranks. \<exists>it fs. scheds ! r = (replicate (vpp_of args) it, counts) \<and>
      reads_steps (rb_columns (ranks ! r)) keys counts fs it \<and>
      (\<forall>s < steps. \<forall>key col. map_of (rb_columns (ranks ! r)) key = Some col \<longrightarrow> mset (fs s col) = mset (take gbs (drop (s * gbs) col))))"
proof -
  obtain m where m: "sa_micro_batch_size args = int m" "0 < m" using assms(3) by (metis of_nat_0_less_iff zero_less_imp_eq_int)
  obtain c where c: "gbs = c * m" using assms(4) m(1) by (metis dvd_def int_dvd_int_iff mult.commute)
  let ?it = "\<lambda>rd. \<lparr>it_rollout_data = rd, it_micro_batch_size = Some (sa_micro_batch_size args), it_micro_batch_indices = None, it_offset = 0\<rparr>"
  have g: "get_data_iterator args ranks = Inr (map (\<lambda>rd. (replicate (vpp_of args) (?it rd), replicate steps (int c))) ranks)"
    using assms c m by (intro fixed_schedule_ok[of _ _ gbs]) auto
  have "reads_steps (rb_columns (ranks ! r)) keys (replicate steps (int c)) (\<lambda>s col. take gbs (drop (s * gbs) col)) (?it (ranks ! r))"
    if r: "r < length ranks" for r
  proof -
    have "aligned_columns (steps * gbs) (rb_columns (ranks ! r))" using assms(1) r by (simp add: group_ok_def batch_ok_def)
    then show ?thesis using reads_steps_slices[of "?it (ranks ! r)" m 0 steps c "steps * gbs" keys] m(1) by (simp add: c)
  qed
  then show ?thesis unfolding g
    by (intro exI[of _ "replicate steps (int c)"] exI[of _ "map (\<lambda>rd. (replicate (vpp_of args) (?it rd), replicate steps (int c))) ranks"]) auto
qed


section \<open>The size of a micro-batch\<close>

lemma sum_list_ge: "\<forall>p \<in> set ps. lo \<le> f p \<Longrightarrow> int (length ps) * lo \<le> sum_list (map f ps)" for lo :: int
  by (induction ps) (auto simp: algebra_simps)

lemma sum_parts: "sum_list (map (\<lambda>p. sum_list (map f p)) ps) = sum_list (map f (concat ps))" for f :: "'a \<Rightarrow> nat"
  by (induction ps) auto

lemma sum_over_step:
  assumes "mset p = mset [s * gbs..<(s + 1) * gbs]" "s < steps" "length ls = steps * gbs"
  shows "sum_list (map ((!) ls) p) = sum_list (step_size gbs ls s)"
proof -
  have "(s + 1) * gbs \<le> length ls" using assms(2,3) by (simp del: mult_Suc add: mult_le_mono1)
  then have "step_size gbs ls s = map ((!) ls) [s * gbs..<(s + 1) * gbs]"
    by (intro nth_equalityI) (auto simp: step_size_def add.commute)
  then show ?thesis using assms(1) by (metis mset_map sum_mset_sum_list)
qed

lemma step_bound:
  assumes "step_ok ls gbs s c mbs" "s < steps" "length ls = steps * gbs" "0 < gbs" "1 \<le> c"
    "int (sum_list (step_size gbs ls s)) \<le> c * b" "p \<in> set mbs"
  shows "int (sum_list (map ((!) ls) p)) \<le> b + int (Max (set ls))"
proof -
  let ?sum = "\<lambda>p. int (sum_list (map ((!) ls) p))" and ?m = "int (Max (set (step_size gbs ls s)))"
  have mbs: "int (length mbs) = c" "mset (concat mbs) = mset [s * gbs..<(s + 1) * gbs]"
    "\<forall>q \<in> set mbs. ?sum p \<le> ?sum q + ?m" using assms(1,7) by (force simp: step_ok_def)+
  have "c * (?sum p - ?m) \<le> sum_list (map ?sum mbs)"
    unfolding mbs(1)[symmetric] using mbs(3) by (intro sum_list_ge) (simp add: diff_le_eq)
  also have "\<dots> = int (sum_list (step_size gbs ls s))"
  proof -
    have "int (sum_list (step_size gbs ls s)) = int (sum_list (map (\<lambda>p. sum_list (map ((!) ls) p)) mbs))"
      unfolding sum_parts sum_over_step[OF mbs(2) assms(2,3)] ..
    also have "\<dots> = sum_list (map ?sum mbs)" by (induction mbs) auto
    finally show ?thesis by simp
  qed
  finally have "c * (?sum p - ?m) \<le> c * b" using assms(6) by linarith
  then have "?sum p - ?m \<le> b" using assms(5) by simp
  moreover have "?m \<le> int (Max (set ls))"
  proof -
    have "step_size gbs ls s \<noteq> []" using length_step_size[OF assms(2,3)] assms(4) by auto
    moreover have "set (step_size gbs ls s) \<subseteq> set ls" by (auto simp: step_size_def dest: in_set_takeD in_set_dropD)
    ultimately have "Max (set (step_size gbs ls s)) \<le> Max (set ls)" by (intro Max_mono) auto
    then show ?thesis by simp
  qed
  ultimately show ?thesis by linarith
qed


text \<open>The budget itself can be exceeded: first fit needs two micro-batches of at most 15 tokens, the
  balanced partition into two parts has one of 16.\<close>

lemma budget_exceeded:
  "get_minimum_num_micro_batch_size [8, 7, 6, 5, 4] 15 = 2 \<and>
   (\<exists>ps. get_seqlen_balanced_partitions [8, 7, 6, 5, 4] 2 False = Inr ps \<and> (\<exists>p \<in> set ps. sum_list (map ((!) [8, 7, 6, 5, 4 :: nat]) p) = 16))"
proof
  show "get_minimum_num_micro_batch_size [8, 7, 6, 5, 4] 15 = 2"
    by (simp add: get_minimum_num_micro_batch_size_def micro_batches_def)
  have "get_seqlen_balanced_partitions [8, 7, 6, 5, 4] 2 False = Inr [[1, 3, 4], [0, 2]]" by code_simp
  then show "\<exists>ps. get_seqlen_balanced_partitions [8, 7, 6, 5, 4] 2 False = Inr ps \<and>
      (\<exists>p \<in> set ps. sum_list (map ((!) [8, 7, 6, 5, 4 :: nat]) p) = 16)" by simp
qed

section \<open>Tokens and masks in line\<close>

lemma py_slice_map: "py_slice (map f xs) i j = map f (py_slice xs i j)"
  by (simp add: py_slice_def Let_def take_map drop_map)

lemma slice_map:
  "slice_with_cp c r xs v fmt m = Inr s \<Longrightarrow> slice_with_cp c r (map f xs) (f v) fmt m = Inr (map f s)"
  by (auto simp: slice_with_cp_def bindE_eq_Inr Let_def take_map py_slice_map split: if_splits option.splits
      simp flip: map_replicate map_append)

lemma slice_total:
  assumes "0 < cp" "r < cp" "xs \<noteq> []"
  shows "\<exists>s. slice_with_cp (int cp) (int r) xs v ''thd'' None = Inr s"
proof (cases "cp = 1")
  case False
  then show ?thesis using slice_with_cp_spec[of cp r xs v] assms by auto
qed (simp add: slice_with_cp_def)

text \<open>The tokens of a sample, each with the mask of the token that its row predicts.\<close>

definition with_mask :: "int list \<times> int list \<Rightarrow> (int \<times> int) list" where
  "with_mask = (\<lambda>(t, m). zip t (replicate (length t - length m - 1) 0 @ m @ [0]))"

lemma aligned_masks_eq:
  assumes "\<forall>(t, m) \<in> set ss. length m < length t"
  shows "aligned_masks (map snd ss) (map (\<lambda>s. int (length (fst s))) ss) (map (\<lambda>s. int (length (snd s))) ss) =
    Inr (map (\<lambda>s. map snd (with_mask s)) ss)"
proof -
  have "f_pad (int (length t) - int (length m) - 1) 1 0 m = Inr (map snd (with_mask (t, m)))" if "length m < length t" for t m
  proof -
    have "map snd (with_mask (t, m)) = replicate (length t - length m - 1) 0 @ m @ [0]" using that by (simp add: with_mask_def)
    moreover have "nat (int (length t) - int (length m) - 1) = length t - length m - 1" by linarith
    moreover have "nat (1 + int (length m) - int (length t)) = 0" using that by simp
    ultimately show ?thesis using that by (simp add: f_pad_def Let_def)
  qed
  then have "mapE (\<lambda>(m, t, r). f_pad (t - r - 1) 1 0 m) (zip (map snd ss) (zip (map (\<lambda>s. int (length (fst s))) ss) (map (\<lambda>s. int (length (snd s))) ss)))
      = Inr (map (\<lambda>s. map snd (with_mask s)) ss)"
    using assms by (induction ss) auto
  then show ?thesis by (simp add: aligned_masks_def)
qed

lemma masks_fst: "length m < length t \<Longrightarrow> map fst (with_mask (t, m)) = t"
  by (simp add: with_mask_def)

lemma sliced_pairs:
  assumes "0 < cp" "r < cp" "\<forall>(t, m) \<in> set ss. length m < length t"
  shows "\<exists>ps. mapE (\<lambda>s. slice_with_cp (int cp) (int r) (with_mask s) (0, 0) ''thd'' None) ss = Inr ps \<and> length ps = length ss \<and>
    mapE (\<lambda>t. slice_with_cp (int cp) (int r) t 0 ''thd'' None) (map fst ss) = Inr (map (map fst) ps) \<and>
    mapE (\<lambda>m. slice_with_cp (int cp) (int r) m 0 ''thd'' None) (map (\<lambda>s. map snd (with_mask s)) ss) = Inr (map (map snd) ps)"
  using assms(3)
proof (induction ss)
  case (Cons s ss)
  obtain t m where s: "s = (t, m)" "length m < length t" using Cons.prems by (cases s) auto
  then have "with_mask s \<noteq> []" by (auto simp: with_mask_def)
  from slice_total[OF assms(1,2) this, of "(0, 0)"] obtain p where p: "slice_with_cp (int cp) (int r) (with_mask s) (0, 0) ''thd'' None = Inr p" ..
  have "slice_with_cp (int cp) (int r) (fst s) 0 ''thd'' None = Inr (map fst p)"
    using slice_map[OF p, of fst] s masks_fst by simp
  moreover have "slice_with_cp (int cp) (int r) (map snd (with_mask s)) 0 ''thd'' None = Inr (map snd p)"
    using slice_map[OF p, of snd] by simp
  ultimately show ?case using Cons p by auto
qed simp

lemma cumulative_snoc: "cumulative (ns @ [n]) = cumulative ns @ [last (cumulative ns) + n]"
  by (simp add: cumulative_def)

lemma cumulative_eq: "cumulative ns = map (\<lambda>i. sum_list (take i ns)) [0..<Suc (length ns)]"
proof (induction ns rule: rev_induct)
  case (snoc n ns)
  have "last (cumulative ns) = sum_list ns" using snoc.IH by (simp add: last_map)
  moreover have "map (\<lambda>i. sum_list (take i (ns @ [n]))) [0..<Suc (length ns)] = map (\<lambda>i. sum_list (take i ns)) [0..<Suc (length ns)]"
    by (rule map_cong) auto
  ultimately show ?case using snoc.IH by (simp add: cumulative_snoc)
qed (simp add: cumulative_def)

lemma int_lengths: "sum_list (map (\<lambda>x. int (length x)) xs) = int (length (concat xs))"
  by (induction xs) auto

lemma missing_bounds:
  assumes "0 < m"
  shows "0 \<le> missing m n" "missing m n < m" "m dvd n + missing m n"
proof -
  show "0 \<le> missing m n" "missing m n < m" using assms by (simp_all add: missing_def)
  have "(n + missing m n) mod m = (n + (m - n mod m)) mod m" unfolding missing_def by (rule mod_add_right_eq)
  also have "n + (m - n mod m) = m * (n div m) + m" using mult_div_mod_eq[of m n] by linarith
  also have "(m * (n div m) + m) mod m = 0" by simp
  finally show "m dvd n + missing m n" by (simp only: dvd_eq_mod_eq_0)
qed

text \<open>A packed micro-batch keeps tokens and masks in line under context parallelism: the rank's tokens and
  its masks are the two halves of one slicing of the pairs of a token and the mask of the token its row
  predicts, followed by padding that trains nothing, up to a multiple of the padding size; the running
  lengths are those of the whole group, and the format assertion never fails.\<close>

lemma micro_batch_packed:
  assumes "cl_cp_rank cl < cl_cp_size cl" "0 < cl_pad_size cl" "\<not> cl_allgather_cp cl" "''tokens'' \<in> set keys"
    "get_next keys it = Inr (rows, it')" "multimodal_of rows = Inr mm" "ss \<noteq> []" "\<forall>(t, m) \<in> set ss. length m < length t"
    "column_of rows ''tokens'' (to_list to_int) = Inr (map fst ss)" "column_of rows ''loss_masks'' (to_list to_int) = Inr (map snd ss)"
    "column_of rows ''total_lengths'' to_int = Inr (map (\<lambda>s. int (length (fst s))) ss)"
    "column_of rows ''response_lengths'' to_int = Inr (map (\<lambda>s. int (length (snd s))) ss)"
  shows "\<exists>b ps pad cu ms. get_batch cl ''thd'' keys it = Inr (b, it') \<and> tb_unconcat_tokens b = map fst ss \<and>
    mapE (\<lambda>s. slice_with_cp (int (cl_cp_size cl)) (int (cl_cp_rank cl)) (with_mask s) (0, 0) ''thd'' None) ss = Inr ps \<and>
    tb_tokens b = [map fst (concat ps) @ replicate pad 0] \<and> tb_full_loss_masks b = [map snd (concat ps) @ replicate pad 0] \<and>
    int pad < cl_pad_size cl \<and> cl_pad_size cl dvd int (length (hd (tb_tokens b))) \<and>
    tb_packed_seq_params b = Some \<lparr>cu_seqlens = cu, max_seqlen = ms\<rparr> \<and>
    (\<forall>i \<le> length ss. cu ! i = int (cl_cp_size cl) * int (length (concat (take i ps)))) \<and>
    last cu = int (cl_cp_size cl) * int (length (hd (tb_tokens b)))"
proof -
  let ?cp = "cl_cp_size cl" and ?r = "cl_cp_rank cl"
  have cp: "0 < ?cp" using assms(1) by simp
  obtain ps where ps: "mapE (\<lambda>s. slice_with_cp (int ?cp) (int ?r) (with_mask s) (0, 0) ''thd'' None) ss = Inr ps" "length ps = length ss"
    "mapE (\<lambda>t. slice_with_cp (int ?cp) (int ?r) t 0 ''thd'' None) (map fst ss) = Inr (map (map fst) ps)"
    "mapE (\<lambda>m. slice_with_cp (int ?cp) (int ?r) m 0 ''thd'' None) (map (\<lambda>s. map snd (with_mask s)) ss) = Inr (map (map snd) ps)"
    using sliced_pairs[OF cp assms(1,8)] by blast
  have ne: "ps \<noteq> []" using ps(2) assms(7) by auto
  let ?n = "length (concat ps)" let ?pad = "missing (cl_pad_size cl) (int ?n)"
  define pad where "pad = nat ?pad"
  have pad: "?pad = int pad" "int pad < cl_pad_size cl" "cl_pad_size cl dvd int (?n + pad)"
    using missing_bounds[OF assms(2), of "int ?n"] by (simp_all add: pad_def)
  have len: "length (concat (map (map f) ps)) = ?n" for f :: "int \<times> int \<Rightarrow> int" by (simp add: map_concat[symmetric])
  have padded: "f_pad 0 (int pad) 0 xs = Inr (xs @ replicate pad 0)" for xs :: "int list" by (simp add: f_pad_def)
  let ?ns = "map (\<lambda>t. int (length t)) (map (map fst) ps) @ (if ?pad \<noteq> 0 then [?pad] else [])"
  let ?cu = "map (\<lambda>n. n * int ?cp) (cumulative ?ns)"
  have tokens: "packed_tokens cl (map fst ss) = Inr (map fst (concat ps) @ replicate pad 0, ?cu, int pad)"
    using assms(2,3) ne pad(1) by (simp add: packed_tokens_def ps(3) torch_cat_def len padded map_concat Let_def raise_unless_def)
  have masks: "packed_masks cl (int pad) (map (\<lambda>s. map snd (with_mask s)) ss) = Inr [map snd (concat ps) @ replicate pad 0]"
    using assms(3) ne by (simp add: packed_masks_def ps(4) torch_cat_def padded map_concat raise_unless_def)
  let ?b = "\<lparr>tb_tokens = [map fst (concat ps) @ replicate pad 0], tb_unconcat_tokens = map fst ss,
    tb_packed_seq_params = Some \<lparr>cu_seqlens = ?cu, max_seqlen = Max (set (differences ?cu))\<rparr>,
    tb_full_loss_masks = [map snd (concat ps) @ replicate pad 0], tb_rows = rows,
    tb_dynamic_global_batch_size = rb_dynamic_global_batch_size (it_rollout_data it), tb_multimodal = mm\<rparr>"
  have shape: "same_shape [map snd (concat ps) @ replicate pad 0] [map fst (concat ps) @ replicate pad 0]" by (simp add: same_shape_def)
  have thd: "(''thd'' = ''bshd'') = False" by simp
  have get: "get_batch cl ''thd'' keys it = Inr (?b, it')"
    unfolding get_batch_def thd if_False
    by (simp only: assms(4-6,9-12) assertE_simps bindE_simps prod.case if_True refl tokens aligned_masks_eq[OF assms(8)] masks shape)
  have sums: "sum_list (take i ?ns) = int (length (concat (take i ps)))" if "i \<le> length ps" for i
    using that int_lengths[of "take i ps"] by (simp add: take_map comp_def)
  have cu: "?cu ! i = int ?cp * int (length (concat (take i ps)))" if "i \<le> length ps" for i
    using that sums[OF that] by (simp add: cumulative_eq nth_append del: upt_Suc)
  have "sum_list ?ns = int ?n + int pad" using pad(1) int_lengths[of ps] by (simp add: comp_def)
  then have lastcu: "last ?cu = int ?cp * int (?n + pad)" by (simp add: cumulative_eq last_map)
  show ?thesis
    using get ps(1,2) pad(2,3) cu lastcu
    by (intro exI[of _ ?b] exI[of _ ps] exI[of _ pad] exI[of _ ?cu] exI[of _ "Max (set (differences ?cu))"]) simp
qed

section \<open>Concrete batches\<close>

definition demo_rank :: "nat list \<Rightarrow> rollout_batch" where
  "demo_rank ls = \<lparr>rb_columns = [(''total_lengths'', map (\<lambda>l. PInt (int l)) ls)], rb_dynamic_global_batch_size = None\<rparr>"

definition demo_schedule :: schedule_args where
  "demo_schedule = \<lparr>sa_global_batch_size = 4, sa_use_dynamic_batch_size = True, sa_micro_batch_size = 1, sa_max_tokens_per_gpu = Some 8,
     sa_vpp_size = None, sa_microbatch_group_size_per_vp_stage = 1, sa_cp_size = 1\<rparr>"

lemma demo_group: "group_ok demo_schedule [demo_rank [3, 5, 2, 4], demo_rank [1, 7, 6, 2]] 2 2"
  by (simp add: group_ok_def demo_schedule_def demo_rank_def batch_ok_def lens_of_def aligned_columns_def)



definition demo_packed :: data_iterator where
  "demo_packed = \<lparr>it_rollout_data = \<lparr>rb_columns = [(''tokens'', [of_list PInt [11, 12, 13, 14, 15], of_list PInt [21, 22, 23]]),
       (''loss_masks'', [of_list PInt [1, 1, 1], of_list PInt [0, 1]]), (''total_lengths'', [PInt 5, PInt 3]),
       (''response_lengths'', [PInt 3, PInt 2])], rb_dynamic_global_batch_size = None\<rparr>,
     it_micro_batch_size = Some 2, it_micro_batch_indices = None, it_offset = 0\<rparr>"

end
