(* ===== verification/Sglang_Config.thy ===== *)
theory Sglang_Config
  imports Sample_Types
begin

text \<open>
  \<open>backends/sglang_utils/sglang_config.py\<close>: which models are served, in which groups of engines, on
  how many GPUs; and \<open>_resolve_sglang_config\<close> of \<open>ray/rollout.py\<close>, which picks the source of the
  configuration.  A configuration file is the value that the YAML parser returns for it.
\<close>

section \<open>Groups\<close>

definition valid_types :: "string list" where
  "valid_types = [''regular'', ''prefill'', ''decode'', ''placeholder'', ''encoder'']"

record group_config =
  gc_worker_type :: string
  gc_num_gpus :: int
  gc_num_gpus_per_engine :: "int option"
  gc_overrides :: "(string, pyval) dict"

definition new_group_config :: "string \<Rightarrow> int \<Rightarrow> int option \<Rightarrow> (string, pyval) dict \<Rightarrow> group_config result" where
  "new_group_config worker_type num_gpus num_gpus_per_engine overrides =
     bindE (assertE (worker_type \<in> set valid_types)) (\<lambda>_.
     bindE (assertE (num_gpus > 0)) (\<lambda>_.
       Inr \<lparr>gc_worker_type = worker_type, gc_num_gpus = num_gpus, gc_num_gpus_per_engine = num_gpus_per_engine,
             gc_overrides = overrides\<rparr>))"

text \<open>The values the code takes from the arguments.\<close>

record serve_args =
  sv_hf_checkpoint :: string
  sv_rollout_num_gpus :: int
  sv_rollout_num_gpus_per_engine :: int
  sv_num_gpus_per_node :: int
  sv_prefill_num_servers :: "int option"
  sv_sglang_config :: "pyval option"
  sv_sglang_dp_size :: nat
  sv_rollout_external :: bool
  sv_rollout_external_engine_addrs :: "string list"
  sv_patch :: bool
  sv_debug_train_only :: bool
  sv_debug_rollout_only :: bool
  sv_colocate :: bool
  sv_critic_train_only :: bool
  sv_use_critic :: bool
  sv_actor_num_nodes :: nat
  sv_actor_num_gpus_per_node :: nat
  sv_critic_num_nodes :: nat
  sv_critic_num_gpus_per_node :: nat
  sv_offload_rollout :: bool
  sv_sglang_router_ip :: "string option"
  sv_sglang_router_port :: "int option"

section \<open>Models\<close>

record model_config =
  mc_name :: string
  mc_model_path :: "string option"
  mc_num_gpus_per_engine :: "int option"
  mc_server_groups :: "group_config list"
  mc_update_weights :: "bool option"

text \<open>\<open>a or b\<close> for an optional number or string.\<close>

definition or_int :: "int option \<Rightarrow> int \<Rightarrow> int" where
  "or_int a b = (case a of None \<Rightarrow> b | Some n \<Rightarrow> if n = 0 then b else n)"

definition or_str :: "string option \<Rightarrow> string \<Rightarrow> string" where
  "or_str a b = (case a of None \<Rightarrow> b | Some s \<Rightarrow> if s = [] then b else s)"

definition resolve_group :: "int \<Rightarrow> string \<Rightarrow> group_config \<Rightarrow> group_config" where
  "resolve_group default_gpus_per_engine default_model_path g =
     (let g = (if gc_num_gpus_per_engine g = None then g\<lparr>gc_num_gpus_per_engine := Some default_gpus_per_engine\<rparr> else g) in
      if map_of (gc_overrides g) ''model_path'' = None
      then g\<lparr>gc_overrides := dset ''model_path'' (PStr default_model_path) (gc_overrides g)\<rparr> else g)"

definition group_model_path :: "group_config \<Rightarrow> pyval option" where
  "group_model_path g = map_of (gc_overrides g) ''model_path''"

definition resolve :: "serve_args \<Rightarrow> model_config \<Rightarrow> model_config result" where
  "resolve args m =
     (let default_gpus_per_engine = or_int (mc_num_gpus_per_engine m) (sv_rollout_num_gpus_per_engine args);
          default_model_path = or_str (mc_model_path m) (sv_hf_checkpoint args);
          groups = map (resolve_group default_gpus_per_engine default_model_path) (mc_server_groups m);
          m = m\<lparr>mc_server_groups := groups\<rparr> in
      bindE (if groups \<noteq> []
             then bindE (assertE (card (set (map group_model_path groups)) = 1)) (\<lambda>_. Inr (group_model_path (hd groups)))
             else Inr (Some (PStr default_model_path))) (\<lambda>effective_model_path.
        Inr (if mc_update_weights m = None
             then m\<lparr>mc_update_weights := Some (effective_model_path = Some (PStr (sv_hf_checkpoint args)))\<rparr> else m)))"

definition model_has_pd :: "model_config \<Rightarrow> bool" where
  "model_has_pd m = (\<exists>g \<in> set (mc_server_groups m). gc_worker_type g = ''prefill'' \<or> gc_worker_type g = ''decode'')"

definition model_has_encoder :: "model_config \<Rightarrow> bool" where
  "model_has_encoder m = (\<exists>g \<in> set (mc_server_groups m). gc_worker_type g = ''encoder'')"

definition model_num_gpus :: "model_config \<Rightarrow> int" where
  "model_num_gpus m = sum_list (map gc_num_gpus (mc_server_groups m))"

section \<open>The configuration\<close>

definition config_num_gpus :: "model_config list \<Rightarrow> int" where
  "config_num_gpus models = sum_list (map model_num_gpus models)"

text \<open>\<open>ServerGroupConfig(**g)\<close>: unknown names and missing arguments are errors.\<close>

definition group_of_yaml :: "pyval \<Rightarrow> group_config result" where
  "group_of_yaml v =
     bindE (to_dict v) (\<lambda>d.
     bindE (raise_unless TypeError (\<forall>k \<in> set (map fst d). k \<in> {''worker_type'', ''num_gpus'', ''num_gpus_per_engine'', ''overrides''})) (\<lambda>_.
     bindE (case map_of d ''worker_type'' of None \<Rightarrow> Inl TypeError | Some v \<Rightarrow> to_str v) (\<lambda>worker_type.
     bindE (case map_of d ''num_gpus'' of None \<Rightarrow> Inl TypeError | Some v \<Rightarrow> to_int v) (\<lambda>num_gpus.
     bindE (to_option to_int (dget_default d ''num_gpus_per_engine'' PNone)) (\<lambda>per_engine.
     bindE (to_dict (dget_default d ''overrides'' (PDict []))) (\<lambda>overrides.
       new_group_config worker_type num_gpus per_engine overrides))))))"

definition falsy :: "pyval \<Rightarrow> bool" where
  "falsy v = (v \<in> {PNone, PList [], PDict [], PStr [], PBool False, PInt 0, PFloat 0})"

definition model_of_yaml :: "pyval \<Rightarrow> model_config result" where
  "model_of_yaml v =
     bindE (to_dict v) (\<lambda>m.
     let sg = dget_default m ''server_groups'' PNone; eg = dget_default m ''engine_groups'' PNone;
         raw_groups = (if \<not> falsy sg then sg else if \<not> falsy eg then eg else PList []) in
     bindE (to_list group_of_yaml raw_groups) (\<lambda>groups.
     bindE (bindE (dget m ''name'') to_str) (\<lambda>name.
     bindE (to_option to_str (dget_default m ''model_path'' PNone)) (\<lambda>model_path.
     bindE (to_option to_int (dget_default m ''num_gpus_per_engine'' PNone)) (\<lambda>per_engine.
     bindE (to_option to_bool (dget_default m ''update_weights'' PNone)) (\<lambda>update_weights.
       Inr \<lparr>mc_name = name, mc_model_path = model_path, mc_num_gpus_per_engine = per_engine,
             mc_server_groups = groups, mc_update_weights = update_weights\<rparr>))))))"

definition from_yaml :: "pyval \<Rightarrow> model_config list result" where
  "from_yaml data =
     bindE (to_dict data) (\<lambda>d.
     bindE (assertE (map_of d ''sglang'' \<noteq> None)) (\<lambda>_.
     bindE (dget d ''sglang'') (to_list model_of_yaml)))"

definition plain_model :: "group_config list \<Rightarrow> model_config" where
  "plain_model groups = \<lparr>mc_name = ''default'', mc_model_path = None, mc_num_gpus_per_engine = None,
     mc_server_groups = groups, mc_update_weights = None\<rparr>"

definition from_prefill_num_servers :: "serve_args \<Rightarrow> int \<Rightarrow> model_config list result" where
  "from_prefill_num_servers args prefill_num_servers =
     (let total_gpus = sv_rollout_num_gpus args;
          prefill_gpus = prefill_num_servers * sv_rollout_num_gpus_per_engine args;
          decode_gpus = total_gpus - prefill_gpus in
      bindE (assertE (decode_gpus > 0)) (\<lambda>_.
      bindE (new_group_config ''prefill'' prefill_gpus None []) (\<lambda>p.
      bindE (new_group_config ''decode'' decode_gpus None []) (\<lambda>d.
        Inr [plain_model [p, d]]))))"

definition resolve_sglang_config :: "serve_args \<Rightarrow> model_config list result" where
  "resolve_sglang_config args =
     (case sv_sglang_config args of
        Some data \<Rightarrow>
          bindE (from_yaml data) (\<lambda>config.
          bindE (assertE (config_num_gpus config = sv_rollout_num_gpus args)) (\<lambda>_. Inr config))
      | None \<Rightarrow>
          (case sv_prefill_num_servers args of
             Some n \<Rightarrow> from_prefill_num_servers args n
           | None \<Rightarrow> bindE (new_group_config ''regular'' (sv_rollout_num_gpus args) None []) (\<lambda>g. Inr [plain_model [g]])))"

section \<open>What a configuration guarantees\<close>

definition config_ok :: "model_config list \<Rightarrow> bool" where
  "config_ok models = (\<forall>m \<in> set models. \<forall>g \<in> set (mc_server_groups m). gc_worker_type g \<in> set valid_types \<and> 0 < gc_num_gpus g)"

lemma new_group_config_ok:
  "new_group_config t n p ov = Inr g \<Longrightarrow>
    gc_worker_type g = t \<and> gc_num_gpus g = n \<and> gc_num_gpus_per_engine g = p \<and> t \<in> set valid_types \<and> 0 < n"
  by (auto simp: new_group_config_def bindE_eq_Inr)

lemma mapE_all: "mapE f xs = Inr ys \<Longrightarrow> (\<And>x y. x \<in> set xs \<Longrightarrow> f x = Inr y \<Longrightarrow> P y) \<Longrightarrow> \<forall>y \<in> set ys. P y"
  by (metis in_set_conv_nth mapE_eq_Inr_length mapE_eq_Inr_nth)

lemma to_list_all: "to_list f v = Inr ys \<Longrightarrow> (\<And>x y. f x = Inr y \<Longrightarrow> P y) \<Longrightarrow> \<forall>y \<in> set ys. P y"
  by (cases v) (auto dest: mapE_all)

lemma group_of_yaml_ok: "group_of_yaml v = Inr g \<Longrightarrow> gc_worker_type g \<in> set valid_types \<and> 0 < gc_num_gpus g"
  by (auto simp: group_of_yaml_def bindE_eq_Inr dest: new_group_config_ok)

lemma model_of_yaml_ok:
  "model_of_yaml v = Inr m \<Longrightarrow> \<forall>g \<in> set (mc_server_groups m). gc_worker_type g \<in> set valid_types \<and> 0 < gc_num_gpus g"
  by (auto simp: model_of_yaml_def bindE_eq_Inr Let_def dest!: to_list_all[OF _ group_of_yaml_ok] split: if_splits)

lemma resolved_config_ok: "resolve_sglang_config args = Inr config \<Longrightarrow> config_ok config \<and> config_num_gpus config = sv_rollout_num_gpus args"
  by (auto simp: resolve_sglang_config_def from_prefill_num_servers_def from_yaml_def bindE_eq_Inr config_ok_def Let_def
      plain_model_def config_num_gpus_def model_num_gpus_def split: option.splits
      dest!: new_group_config_ok to_list_all[OF _ model_of_yaml_ok])

lemma resolve_groups:
  "resolve args m = Inr m' \<Longrightarrow> length (mc_server_groups m') = length (mc_server_groups m) \<and> mc_name m' = mc_name m \<and> mc_update_weights m' \<noteq> None \<and>
    (\<forall>i < length (mc_server_groups m). gc_num_gpus (mc_server_groups m' ! i) = gc_num_gpus (mc_server_groups m ! i) \<and>
       gc_worker_type (mc_server_groups m' ! i) = gc_worker_type (mc_server_groups m ! i) \<and> gc_num_gpus_per_engine (mc_server_groups m' ! i) \<noteq> None)"
  by (auto simp: resolve_def resolve_group_def bindE_eq_Inr Let_def split: if_splits)

end
