(* ===== verification/Servers.thy ===== *)
theory Servers
  imports Sglang_Config
begin

text \<open>
  \<open>ray/rollout.py\<close>: server groups and their engines, the allocation of ports, the servers of all models,
  recovery of dead engines, memory offloading, and \<open>get_free_port\<close> of \<open>utils/misc.py\<close>.  An engine (a
  Ray actor) is the record of what it was created with; what the nodes answer (their addresses and the
  ports that are free on them) is a parameter that does not change while ports are allocated.
\<close>

section \<open>Engines and their nodes\<close>

record engine =
  en_rank :: nat
  en_worker_type :: string
  en_base_gpu_id :: int
  en_bundle_index :: nat
  en_num_gpus_per_engine :: int
  en_overrides :: "(string, pyval) dict"

record world =
  w_available :: "engine \<Rightarrow> nat \<Rightarrow> bool"
  w_ip :: "engine \<Rightarrow> string"

text \<open>\<open>get_free_port\<close>: there are 65536 ports, beyond them the search goes on for ever.\<close>

definition block_free :: "(nat \<Rightarrow> bool) \<Rightarrow> nat \<Rightarrow> nat \<Rightarrow> bool" where
  "block_free avail port consecutive = (\<forall>i \<in> set [0..<consecutive]. port + i < 65536 \<and> avail (port + i))"

function get_free_port :: "(nat \<Rightarrow> bool) \<Rightarrow> nat \<Rightarrow> nat \<Rightarrow> nat result" where
  "get_free_port avail port consecutive =
     (if block_free avail port consecutive then Inr port
      else if port \<ge> 65536 then Inl Diverges
      else get_free_port avail (port + 1) consecutive)"
  by pat_completeness auto
termination by (relation "measure (\<lambda>(_, port, _). 65536 - port)") auto

declare get_free_port.simps [simp del]

section \<open>Addresses\<close>

datatype dist_addr = Port_Of string nat | Given string

record addr =
  ad_host :: "string option"
  ad_port :: "int option"
  ad_nccl_port :: "int option"
  ad_bootstrap_port :: "int option"
  ad_dist_init_addr :: "dist_addr option"

definition no_addr :: addr where
  "no_addr = \<lparr>ad_host = None, ad_port = None, ad_nccl_port = None, ad_bootstrap_port = None, ad_dist_init_addr = None\<rparr>"

type_synonym addrs = "(nat, addr) dict"
type_synonym cursors = "(nat, nat) dict"

definition set_addr :: "nat \<Rightarrow> (addr \<Rightarrow> addr) \<Rightarrow> addrs \<Rightarrow> addrs" where
  "set_addr rank f addrs = dset rank (f (dget_default addrs rank no_addr)) addrs"

section \<open>External engines\<close>

fun split_at :: "char \<Rightarrow> string \<Rightarrow> string list" where
  "split_at c [] = [[]]"
| "split_at c (x # xs) = (if x = c then [] # split_at c xs else (case split_at c xs of [] \<Rightarrow> [[x]] | p # ps \<Rightarrow> (x # p) # ps))"

definition digit :: "char \<Rightarrow> bool" where
  "digit c = (c \<in> set ''0123456789'')"

definition space :: "char \<Rightarrow> bool" where
  "space c = (of_char c \<in> {9 :: nat, 10, 11, 12, 13, 28, 29, 30, 31, 32})"

text \<open>\<open>int(s)\<close>: blanks around, a sign, digits with single underscores between them.\<close>

fun digits_of :: "bool \<Rightarrow> int \<Rightarrow> string \<Rightarrow> int result" where
  "digits_of after_digit n [] = (if after_digit then Inr n else Inl ValueError)"
| "digits_of after_digit n (c # cs) =
     (if digit c then digits_of True (n * 10 + (of_char c - 48)) cs
      else if c = CHR ''_'' \<and> after_digit \<and> cs \<noteq> [] then digits_of False n cs else Inl ValueError)"

definition int_of_string :: "string \<Rightarrow> int result" where
  "int_of_string s =
     (let t = rev (dropWhile space (rev (dropWhile space s))) in
      case t of [] \<Rightarrow> Inl ValueError
      | c # cs \<Rightarrow> if c = CHR ''-'' then bindE (digits_of False 0 cs) (\<lambda>n. Inr (- n))
                  else if c = CHR ''+'' then digits_of False 0 cs else digits_of False 0 t)"

definition allocate_external :: "serve_args \<Rightarrow> (nat \<times> engine) list \<Rightarrow> addrs result" where
  "allocate_external args rollout_engines =
     foldE (\<lambda>(rank, _) addrs.
       bindE (py_nth (sv_rollout_external_engine_addrs args) (int rank)) (\<lambda>a.
       case split_at (CHR '':'') a of
         [host, port] \<Rightarrow> bindE (int_of_string port) (\<lambda>p.
           Inr (dset rank \<lparr>ad_host = Some host, ad_port = Some p, ad_nccl_port = None, ad_bootstrap_port = None,
                          ad_dist_init_addr = Some (Given a)\<rparr> addrs))
       | _ \<Rightarrow> Inl ValueError)) rollout_engines []"

section \<open>Ports\<close>

text \<open>\<open>port(consecutive)\<close> and \<open>addr()\<close> of one engine; the cursor of its node follows the ports.\<close>

definition take_port :: "world \<Rightarrow> engine \<Rightarrow> nat \<Rightarrow> nat \<Rightarrow> nat \<Rightarrow> cursors \<Rightarrow> (nat \<times> cursors) result" where
  "take_port w e node base_port consecutive cursors =
     bindE (get_free_port (w_available w e) (dget_default cursors node base_port) consecutive) (\<lambda>port.
       Inr (port, dset node (port + consecutive) cursors))"

definition get_addr :: "world \<Rightarrow> engine \<Rightarrow> string result" where
  "get_addr w e = bindE (get_free_port (w_available w e) 10000 1) (\<lambda>_. Inr (w_ip w e))"

definition server_ports :: "world \<Rightarrow> string \<Rightarrow> engine \<Rightarrow> nat \<Rightarrow> nat \<Rightarrow> nat \<Rightarrow> addrs \<times> cursors \<Rightarrow> (addrs \<times> cursors) result" where
  "server_ports w worker_type e node base_port rank = (\<lambda>(addrs, cs).
     bindE (get_addr w e) (\<lambda>host.
     bindE (take_port w e node base_port 1 cs) (\<lambda>(port, cs).
     bindE (take_port w e node base_port 1 cs) (\<lambda>(nccl, cs).
     let addrs = set_addr rank (\<lambda>a. a\<lparr>ad_host := Some host, ad_port := Some (int port), ad_nccl_port := Some (int nccl)\<rparr>) addrs in
     if worker_type = ''prefill''
     then bindE (take_port w e node base_port 1 cs) (\<lambda>(boot, cs).
            Inr (set_addr rank (\<lambda>a. a\<lparr>ad_bootstrap_port := Some (int boot)\<rparr>) addrs, cs))
     else Inr (addrs, cs)))))"

definition dist_port :: "world \<Rightarrow> nat \<Rightarrow> engine \<Rightarrow> nat \<Rightarrow> nat \<Rightarrow> nat list \<Rightarrow> addrs \<times> cursors \<Rightarrow> (addrs \<times> cursors) result" where
  "dist_port w dp_size e node base_port ranks = (\<lambda>(addrs, cs).
     bindE (get_addr w e) (\<lambda>host.
     bindE (take_port w e node base_port (30 + dp_size) cs) (\<lambda>(port, cs).
       Inr (fold (\<lambda>rank. set_addr rank (\<lambda>a. a\<lparr>ad_dist_init_addr := Some (Port_Of host port)\<rparr>)) ranks addrs, cs))))"

record port_plan =
  pp_worker_type :: string
  pp_gpus_per_engine :: int
  pp_num_gpus_per_node :: int
  pp_dp_size :: nat
  pp_rank_offset :: nat
  pp_base_port :: nat

definition engines_per_node :: "port_plan \<Rightarrow> nat" where
  "engines_per_node pl = nat (max 1 (pp_num_gpus_per_node pl div pp_gpus_per_engine pl))"

text \<open>All engines of a node from this rank on.\<close>

definition allocate_node :: "world \<Rightarrow> port_plan \<Rightarrow> nat \<times> engine \<Rightarrow> addrs \<times> cursors \<Rightarrow> (addrs \<times> cursors) result" where
  "allocate_node w pl = (\<lambda>(rank, e) st.
     let local_rank = rank - pp_rank_offset pl;
         node = local_rank div engines_per_node pl;
         ranks = [rank..<rank + (engines_per_node pl - local_rank mod engines_per_node pl)] in
     bindE (foldE (server_ports w (pp_worker_type pl) e node (pp_base_port pl)) ranks st) (\<lambda>st.
     if pp_gpus_per_engine pl > pp_num_gpus_per_node pl then
       bindE (raise_unless ZeroDivisionError (pp_num_gpus_per_node pl \<noteq> 0)) (\<lambda>_.
       let num_node_per_engine = nat (pp_gpus_per_engine pl div pp_num_gpus_per_node pl) in
       if local_rank mod num_node_per_engine = 0
       then dist_port w (pp_dp_size pl) e node (pp_base_port pl) [rank..<rank + num_node_per_engine] st
       else Inr st)
     else foldE (\<lambda>r. dist_port w (pp_dp_size pl) e node (pp_base_port pl) [r]) ranks st))"

definition port_set :: "addrs \<Rightarrow> nat \<Rightarrow> bool" where
  "port_set addrs rank = (case map_of addrs rank of None \<Rightarrow> False
     | Some a \<Rightarrow> ad_port a \<noteq> None \<and> ad_nccl_port a \<noteq> None \<and> ad_dist_init_addr a \<noteq> None)"

definition allocate_normal :: "world \<Rightarrow> port_plan \<Rightarrow> (nat \<times> engine) list \<Rightarrow> (addrs \<times> cursors) result" where
  "allocate_normal w pl rollout_engines =
     bindE (raise_unless ZeroDivisionError (pp_gpus_per_engine pl \<noteq> 0)) (\<lambda>_.
     bindE (foldE (\<lambda>(rank, e) (visited, st).
         let node = (rank - pp_rank_offset pl) div engines_per_node pl in
         if node \<in> set visited then Inr (visited, st)
         else bindE (allocate_node w pl (rank, e) st) (\<lambda>st. Inr (set_add node visited, st)))
       rollout_engines ([], ([], []))) (\<lambda>(_, (addrs, cursors)).
     bindE (foldE (\<lambda>(rank, _) _.
         bindE (raise_unless KeyError (map_of addrs rank \<noteq> None)) (\<lambda>_. assertE (port_set addrs rank))) rollout_engines ()) (\<lambda>_.
       Inr (addrs, cursors))))"

section \<open>A group of engines\<close>

record server_group =
  sg_bundle_indices :: "nat list"
  sg_gpu_ids :: "int list"
  sg_all_engines :: "engine option list"
  sg_num_gpus_per_engine :: int
  sg_num_new_engines :: nat
  sg_worker_type :: string
  sg_rank_offset :: nat
  sg_gpu_offset :: int
  sg_overrides :: "(string, pyval) dict"
  sg_needs_offload :: bool
  sg_model_path :: "pyval"
  sg_router :: "(string \<times> int) option"

definition every_nth :: "nat \<Rightarrow> 'a list \<Rightarrow> 'a list" where
  "every_nth n xs = map (\<lambda>i. xs ! (i * n)) [0..<(length xs + n - 1) div n]"

definition nodes_per_engine :: "serve_args \<Rightarrow> server_group \<Rightarrow> nat" where
  "nodes_per_engine args g = nat (max 1 (sg_num_gpus_per_engine g div sv_num_gpus_per_node args))"

definition group_engines :: "serve_args \<Rightarrow> server_group \<Rightarrow> engine option list" where
  "group_engines args g = every_nth (nodes_per_engine args g) (sg_all_engines g)"

text \<open>The engines for the empty places of the list.\<close>

definition create_engine :: "serve_args \<Rightarrow> server_group \<Rightarrow> nat \<Rightarrow> engine result" where
  "create_engine args g i =
     (let num_gpu_per_engine = min (sg_num_gpus_per_engine g) (sv_num_gpus_per_node args);
          gpu_index = sg_gpu_offset g + int i * num_gpu_per_engine in
      bindE (py_nth (sg_gpu_ids g) gpu_index) (\<lambda>base_gpu_id.
      bindE (py_nth (sg_bundle_indices g) gpu_index) (\<lambda>bundle.
        Inr \<lparr>en_rank = sg_rank_offset g + i, en_worker_type = sg_worker_type g, en_base_gpu_id = base_gpu_id,
              en_bundle_index = bundle, en_num_gpus_per_engine = sg_num_gpus_per_engine g, en_overrides = sg_overrides g\<rparr>)))"

definition create_engines :: "serve_args \<Rightarrow> server_group \<Rightarrow> ((nat \<times> engine) list \<times> engine option list) result" where
  "create_engines args g =
     foldE (\<lambda>i (new, engines).
       if engines ! i \<noteq> None then Inr (new, engines)
       else bindE (create_engine args g i) (\<lambda>e. Inr (new @ [(sg_rank_offset g + i, e)], engines[i := Some e])))
       [0..<length (sg_all_engines g)] ([], sg_all_engines g)"

type_synonym init_call = "engine \<times> addr"

definition base_port_of :: "serve_args \<Rightarrow> cursors \<Rightarrow> nat" where
  "base_port_of args cursors =
     (if sv_patch args then 17000 else if cursors \<noteq> [] then Max (set (map snd cursors)) else 15000)"

definition plan_of :: "serve_args \<Rightarrow> server_group \<Rightarrow> nat \<Rightarrow> port_plan" where
  "plan_of args g base_port =
     \<lparr>pp_worker_type = sg_worker_type g,
      pp_gpus_per_engine = (if sg_num_gpus_per_engine g \<noteq> 0 then sg_num_gpus_per_engine g else sv_rollout_num_gpus_per_engine args),
      pp_num_gpus_per_node = sv_num_gpus_per_node args, pp_dp_size = sv_sglang_dp_size args,
      pp_rank_offset = sg_rank_offset g, pp_base_port = base_port\<rparr>"

definition start_engines ::
  "world \<Rightarrow> serve_args \<Rightarrow> cursors \<Rightarrow> server_group \<Rightarrow> (init_call list \<times> cursors \<times> server_group) result" where
  "start_engines w args port_cursors g =
     (if sv_debug_train_only args \<or> sg_worker_type g = ''placeholder''
      then Inr ([], port_cursors, g\<lparr>sg_num_new_engines := 0\<rparr>)
      else
        bindE (create_engines args g) (\<lambda>(new, engines).
        let g = g\<lparr>sg_all_engines := engines, sg_num_new_engines := length new\<rparr> in
        if new = [] then Inr ([], port_cursors, g)
        else
          bindE (if sv_rollout_external args
                 then bindE (allocate_external args new) (\<lambda>addrs. Inr (addrs, port_cursors))
                 else allocate_normal w (plan_of args g (base_port_of args port_cursors)) new) (\<lambda>(addrs, cursors).
          bindE (mapE (\<lambda>(rank, e). bindE (dget addrs rank) (\<lambda>a. Inr (e, a))) new) (\<lambda>calls.
            Inr (calls, cursors, g)))))"

section \<open>Memory of the engines\<close>

datatype memory_call = Release engine | Resume engine "string list option" | From_Disk engine pyval

definition living :: "engine option list \<Rightarrow> engine list" where
  "living es = map the (filter (\<lambda>e. e \<noteq> None) es)"

definition group_offload :: "serve_args \<Rightarrow> server_group \<Rightarrow> memory_call list" where
  "group_offload args g = (if sg_needs_offload g then map Release (living (group_engines args g)) else [])"

definition group_onload :: "serve_args \<Rightarrow> string list option \<Rightarrow> server_group \<Rightarrow> memory_call list" where
  "group_onload args tags g = (if sg_needs_offload g then map (\<lambda>e. Resume e tags) (living (group_engines args g)) else [])"

definition group_onload_from_disk :: "serve_args \<Rightarrow> server_group \<Rightarrow> memory_call list" where
  "group_onload_from_disk args g =
     (if \<not> sg_needs_offload g \<or> falsy (sg_model_path g) then []
      else map (\<lambda>e. From_Disk e (sg_model_path g)) (living (group_engines args g)))"

section \<open>A server\<close>

record rollout_server =
  rs_server_groups :: "server_group list"
  rs_router :: "(string \<times> int) option"
  rs_model_name :: string
  rs_update_weights :: bool

definition server_engines :: "serve_args \<Rightarrow> rollout_server \<Rightarrow> engine option list" where
  "server_engines args s = concat (map (group_engines args) (rs_server_groups s))"

definition server_num_new_engines :: "rollout_server \<Rightarrow> nat" where
  "server_num_new_engines s = sum_list (map sg_num_new_engines (rs_server_groups s))"

definition set_num_new_engines :: "nat \<Rightarrow> rollout_server \<Rightarrow> rollout_server" where
  "set_num_new_engines n s = s\<lparr>rs_server_groups := map (\<lambda>g. g\<lparr>sg_num_new_engines := n\<rparr>) (rs_server_groups s)\<rparr>"

definition engine_gpu_counts :: "serve_args \<Rightarrow> rollout_server \<Rightarrow> int list" where
  "engine_gpu_counts args s =
     concat (map (\<lambda>g. replicate (length (group_engines args g)) (sg_num_gpus_per_engine g)) (rs_server_groups s))"

definition engine_gpu_offsets :: "serve_args \<Rightarrow> rollout_server \<Rightarrow> int list" where
  "engine_gpu_offsets args s =
     concat (map (\<lambda>g. map (\<lambda>j. sg_gpu_offset g + int j * sg_num_gpus_per_engine g) [0..<length (group_engines args g)]) (rs_server_groups s))"

definition server_nodes_per_engine :: "serve_args \<Rightarrow> rollout_server \<Rightarrow> nat result" where
  "server_nodes_per_engine args s =
     (let values = set_update [] (map (nodes_per_engine args) (filter (\<lambda>g. sg_worker_type g \<noteq> ''placeholder'') (rs_server_groups s))) in
      bindE (raise_unless ValueError (length values = 1)) (\<lambda>_. Inr (hd values)))"

definition start_groups ::
  "world \<Rightarrow> serve_args \<Rightarrow> server_group list \<Rightarrow> (init_call list \<times> server_group list) result" where
  "start_groups w args groups =
     bindE (foldE (\<lambda>g (calls, cursors, done).
       bindE (start_engines w args cursors g) (\<lambda>(cs, cursors, g). Inr (calls @ cs, cursors, done @ [g]))) groups ([], [], []))
       (\<lambda>(calls, _, done). Inr (calls, done))"

definition dead_indices :: "server_group \<Rightarrow> nat list" where
  "dead_indices g = filter (\<lambda>i. sg_all_engines g ! i = None) [0..<length (sg_all_engines g)]"

definition new_engines_of :: "server_group \<Rightarrow> nat list \<Rightarrow> engine list" where
  "new_engines_of g dead = map (\<lambda>i. the (sg_all_engines g ! i)) dead"

text \<open>The calls of a recovery: initialization of the new engines, then release and resumption of their memory.\<close>

definition recover :: "world \<Rightarrow> serve_args \<Rightarrow> rollout_server \<Rightarrow> (init_call list \<times> memory_call list \<times> rollout_server) result" where
  "recover w args s =
     (let dead_per_group = map dead_indices (rs_server_groups s) in
      bindE (start_groups w args (rs_server_groups s)) (\<lambda>(calls, groups).
      bindE (mapE (\<lambda>(g, dead).
          bindE (assertE (sg_num_new_engines g = length dead)) (\<lambda>_.
            let new = new_engines_of g dead in
            Inr (if sg_needs_offload g \<and> dead \<noteq> []
                 then (map Release new,
                       (if rs_update_weights s then new else []),
                       (if \<not> rs_update_weights s \<and> \<not> falsy (sg_model_path g) then new else []))
                 else ([], [], []))))
        (zip groups dead_per_group)) (\<lambda>parts.
      let release = concat (map fst parts);
          resume = concat (map (\<lambda>(_, u, _). u) parts) @ concat (map (\<lambda>(_, _, n). n) parts) in
        Inr (calls, (if release = [] then [] else release @ map (\<lambda>e. Resume e (Some [''weights''])) resume),
             s\<lparr>rs_server_groups := groups\<rparr>))))"

definition server_offload :: "serve_args \<Rightarrow> rollout_server \<Rightarrow> memory_call list" where
  "server_offload args s = concat (map (group_offload args) (rs_server_groups s))"

definition server_onload :: "serve_args \<Rightarrow> string list option \<Rightarrow> rollout_server \<Rightarrow> memory_call list" where
  "server_onload args tags s = concat (map (group_onload args tags) (rs_server_groups s))"

definition server_onload_weights :: "serve_args \<Rightarrow> rollout_server \<Rightarrow> memory_call list" where
  "server_onload_weights args s =
     concat (map (\<lambda>g. if \<not> sg_needs_offload g then [] else group_onload args (Some [''weights'']) g) (rs_server_groups s))"

definition server_onload_kv :: "serve_args \<Rightarrow> rollout_server \<Rightarrow> memory_call list" where
  "server_onload_kv args s =
     concat (map (group_onload args (Some [''kv_cache'', ''cuda_graph''])) (rs_server_groups s))"

section \<open>Starting the servers\<close>

definition compute_rollout_offset :: "serve_args \<Rightarrow> nat" where
  "compute_rollout_offset args =
     (if sv_debug_train_only args \<or> sv_debug_rollout_only args \<or> sv_colocate args then 0
      else if sv_critic_train_only args then sv_critic_num_nodes args * sv_critic_num_gpus_per_node args
      else sv_actor_num_nodes args * sv_actor_num_gpus_per_node args +
           (if sv_use_critic args then sv_critic_num_nodes args * sv_critic_num_gpus_per_node args else 0))"

definition compute_megatron_num_gpus :: "serve_args \<Rightarrow> nat" where
  "compute_megatron_num_gpus args =
     (if sv_debug_rollout_only args then 0
      else if sv_critic_train_only args then sv_critic_num_nodes args * sv_critic_num_gpus_per_node args
      else sv_actor_num_nodes args * sv_actor_num_gpus_per_node args +
           (if sv_use_critic args then sv_critic_num_nodes args * sv_critic_num_gpus_per_node args else 0))"

record placement =
  pl_bundle_indices :: "nat list"
  pl_gpu_ids :: "int list"

text \<open>\<open>_make_group\<close>; the offsets count what earlier groups took.\<close>

definition make_group ::
  "serve_args \<Rightarrow> placement \<Rightarrow> (string \<times> int) option \<Rightarrow> (string, pyval) dict \<Rightarrow> group_config \<Rightarrow> int \<times> int \<Rightarrow>
   (server_group \<times> (int \<times> int)) result"
where
  "make_group args pg router overrides_extra cfg = (\<lambda>(engine_offset, gpu_offset).
     bindE (case gc_num_gpus_per_engine cfg of None \<Rightarrow> Inl TypeError | Some n \<Rightarrow> Inr n) (\<lambda>gpus_per_engine.
     let local_gpus = min gpus_per_engine (sv_num_gpus_per_node args) in
     bindE (raise_unless ZeroDivisionError (local_gpus \<noteq> 0)) (\<lambda>_.
     let num_engines = gc_num_gpus cfg div local_gpus;
         group_abs_start = int (compute_rollout_offset args + (if sv_patch args then 1 else 0)) + gpu_offset;
         needs_offload = (sv_offload_rollout args \<and> group_abs_start < int (compute_megatron_num_gpus args));
         overrides = fold (\<lambda>(k, v) d. if map_of d k = None then dset k v d else d) overrides_extra (gc_overrides cfg);
         overrides = (if sv_offload_rollout args \<and> \<not> needs_offload \<and> map_of overrides ''enable_memory_saver'' = None
                      then dset ''enable_memory_saver'' (PBool False) overrides else overrides) in
     Inr (\<lparr>sg_bundle_indices = pl_bundle_indices pg, sg_gpu_ids = pl_gpu_ids pg,
           sg_all_engines = (if gc_worker_type cfg \<noteq> ''placeholder'' then replicate (nat num_engines) None else []),
           sg_num_gpus_per_engine = gpus_per_engine, sg_num_new_engines = 0, sg_worker_type = gc_worker_type cfg,
           sg_rank_offset = nat engine_offset, sg_gpu_offset = gpu_offset, sg_overrides = overrides,
           sg_needs_offload = needs_offload,
           sg_model_path = dget_default overrides ''model_path'' (PStr (sv_hf_checkpoint args)), sg_router = router\<rparr>,
          (engine_offset + num_engines, gpu_offset + gc_num_gpus cfg)))))"

text \<open>The groups of a model that are started one after the other, with the ports and offsets so far.\<close>

type_synonym start_state = "(int \<times> int) \<times> cursors \<times> server_group list"

definition start_group ::
  "world \<Rightarrow> serve_args \<Rightarrow> placement \<Rightarrow> (string \<times> int) option \<Rightarrow> (string, pyval) dict \<Rightarrow> group_config \<Rightarrow> start_state \<Rightarrow> start_state result"
where
  "start_group w args pg router extra cfg = (\<lambda>(offs, cursors, groups).
     bindE (make_group args pg router extra cfg offs) (\<lambda>(g, offs).
     bindE (start_engines w args cursors g) (\<lambda>(_, cursors, g).
       Inr (offs, cursors, groups @ [g]))))"

text \<open>
  \<open>url\<close> is what an engine answers to \<open>get_url\<close>; \<open>router\<close> what \<open>_start_router\<close> returns.  Encoders start
  first, and prefill engines are told their addresses.  The address of the engine that is published is
  that of the last group started, by the variable of the loop: for a model without groups it holds the
  group of an earlier model, or is unbound.
\<close>

definition get_urls :: "(engine \<Rightarrow> pyval) \<Rightarrow> engine option list \<Rightarrow> pyval list result" where
  "get_urls url es = mapE (\<lambda>e. case e of None \<Rightarrow> Inl AttributeError | Some e \<Rightarrow> Inr (url e)) es"

definition start_encoder ::
  "world \<Rightarrow> serve_args \<Rightarrow> placement \<Rightarrow> (engine \<Rightarrow> pyval) \<Rightarrow> (string \<times> int) option \<Rightarrow> group_config \<Rightarrow>
   start_state \<times> pyval list \<Rightarrow> (start_state \<times> pyval list) result"
where
  "start_encoder w args pg url router c = (\<lambda>(st, encoder_urls).
     bindE (start_group w args pg router [] c st) (\<lambda>st.
     bindE (get_urls url (group_engines args (last (snd (snd st))))) (\<lambda>urls.
       Inr (st, encoder_urls @ filter (\<lambda>u. u \<noteq> PNone) urls))))"

definition prefill_extra :: "pyval list \<Rightarrow> group_config \<Rightarrow> (string, pyval) dict" where
  "prefill_extra encoder_urls c =
     (if encoder_urls \<noteq> [] \<and> gc_worker_type c = ''prefill''
      then [(''language_only'', PBool True), (''encoder_urls'', PList encoder_urls)] else [])"

definition start_model ::
  "world \<Rightarrow> serve_args \<Rightarrow> placement \<Rightarrow> (engine \<Rightarrow> pyval) \<Rightarrow> (string \<times> int) option \<Rightarrow> model_config \<Rightarrow>
   server_group option \<Rightarrow> int \<times> int \<Rightarrow> (rollout_server \<times> server_group option \<times> (int \<times> int)) result"
where
  "start_model w args pg url router m prev offs =
     (let is_encoder = (\<lambda>c. gc_worker_type c = ''encoder'') in
      bindE (if model_has_encoder m then
        bindE (foldE (start_encoder w args pg url router) (filter is_encoder (mc_server_groups m)) ((offs, [], []), [])) (\<lambda>(st, urls).
        foldE (\<lambda>c. start_group w args pg router (prefill_extra urls c) c) (filter (\<lambda>c. \<not> is_encoder c) (mc_server_groups m)) st)
      else
        bindE (foldE (start_group w args pg router []) (mc_server_groups m) (offs, [], [])) (\<lambda>(offs, cursors, groups).
        bindE (case (if groups \<noteq> [] then Some (last groups) else prev) of None \<Rightarrow> Inl NameError | Some g \<Rightarrow> Inr g) (\<lambda>g.
        bindE (py_nth (group_engines args g) 0) (\<lambda>e.
        bindE (raise_unless AttributeError (e \<noteq> None)) (\<lambda>_. Inr (offs, cursors, groups)))))) (\<lambda>(offs, _, groups).
      Inr (\<lparr>rs_server_groups = groups, rs_router = router, rs_model_name = mc_name m,
            rs_update_weights = (mc_update_weights m = Some True)\<rparr>,
           (if groups \<noteq> [] then Some (last groups) else prev), offs)))"

text \<open>The second set of servers (\<open>args.patch\<close>) serves the small model.\<close>

definition patched :: "serve_args \<Rightarrow> serve_args" where
  "patched args = (if sv_patch args then args\<lparr>sv_hf_checkpoint := ''/data/huangguang/model/Qwen/Qwen2.5-1.5B-expand/''\<rparr> else args)"

definition start_rollout_servers ::
  "world \<Rightarrow> serve_args \<Rightarrow> placement \<Rightarrow> (engine \<Rightarrow> pyval) \<Rightarrow> (nat \<Rightarrow> (string \<times> int) option) \<Rightarrow> (string, rollout_server) dict result"
where
  "start_rollout_servers w args pg url routers =
     bindE (resolve_sglang_config args) (\<lambda>config.
     let args = patched args in
     bindE (foldE (\<lambda>(i, m) (servers, prev, offs).
         bindE (resolve args m) (\<lambda>m.
         bindE (start_model w args pg url (routers i) m prev offs) (\<lambda>(srv, prev, offs).
           Inr (dset (mc_name m) srv servers, prev, offs)))) (enumerate_list config) ([], None, (0, 0))) (\<lambda>(servers, _).
       Inr servers))"

end
