(* ===== verification/Port_Rules.thy ===== *)
theory Port_Rules
  imports Servers
begin

text \<open>
  The allocation of ports: the ports that an allocation hands out on a node are free there, and no two
  of them, nor any of the consecutive blocks for distributed initialization, overlap.
\<close>

section \<open>Searching\<close>

lemma get_free_port_spec:
  "get_free_port avail start c = Inr p \<Longrightarrow> start \<le> p \<and> (\<forall>q \<in> {p..<p + c}. q < 65536 \<and> avail q)"
proof (induction avail start c rule: get_free_port.induct)
  case (1 avail port c)
  show ?case
  proof (cases "block_free avail port c")
    case True
    then have "p = port" using "1.prems" by (simp add: get_free_port.simps)
    moreover have "q < 65536 \<and> avail q" if "q \<in> {port..<port + c}" for q
    proof -
      have "q - port \<in> set [0..<c]" "port + (q - port) = q" using that by auto
      then show ?thesis using True unfolding block_free_def by metis
    qed
    ultimately show ?thesis by simp
  next
    case False
    then show ?thesis using 1 by (simp add: get_free_port.simps[of avail port] split: if_splits)
  qed
qed

lemma get_free_port_result: "(\<exists>p. get_free_port avail start c = Inr p) \<or> get_free_port avail start c = Inl Diverges"
proof (induction avail start c rule: get_free_port.induct)
  case (1 avail port c)
  then show ?case by (subst (1 2) get_free_port.simps) (auto simp: not_less)
qed

section \<open>What a node has given away\<close>

definition cursor :: "port_plan \<Rightarrow> cursors \<Rightarrow> nat \<Rightarrow> nat" where
  "cursor pl cs n = dget_default cs n (pp_base_port pl)"

definition node_of :: "port_plan \<Rightarrow> nat \<Rightarrow> nat" where
  "node_of pl rank = (rank - pp_rank_offset pl) div engines_per_node pl"

definition node_ranks :: "port_plan \<Rightarrow> nat \<Rightarrow> nat list" where
  "node_ranks pl n = [pp_rank_offset pl + n * engines_per_node pl..<pp_rank_offset pl + (n + 1) * engines_per_node pl]"

text \<open>The rank that a block for distributed initialization belongs to: each, or the first of the nodes of an engine.\<close>

definition nodes_of_engine :: "port_plan \<Rightarrow> nat" where
  "nodes_of_engine pl = nat (pp_gpus_per_engine pl div pp_num_gpus_per_node pl)"

definition owns_dist :: "port_plan \<Rightarrow> nat \<Rightarrow> bool" where
  "owns_dist pl rank = (pp_gpus_per_engine pl \<le> pp_num_gpus_per_node pl \<or> (rank - pp_rank_offset pl) mod nodes_of_engine pl = 0)"

definition ports_of :: "port_plan \<Rightarrow> nat \<Rightarrow> addr \<Rightarrow> nat list" where
  "ports_of pl rank a =
     (case ad_port a of None \<Rightarrow> [] | Some p \<Rightarrow> [nat p]) @ (case ad_nccl_port a of None \<Rightarrow> [] | Some p \<Rightarrow> [nat p]) @
     (case ad_bootstrap_port a of None \<Rightarrow> [] | Some p \<Rightarrow> [nat p]) @
     (case ad_dist_init_addr a of Some (Port_Of _ p) \<Rightarrow> if owns_dist pl rank then [p..<p + (30 + pp_dp_size pl)] else [] | _ \<Rightarrow> [])"

definition entry :: "addrs \<Rightarrow> nat \<Rightarrow> addr" where
  "entry addrs rank = dget_default addrs rank no_addr"

definition node_ports :: "port_plan \<Rightarrow> addrs \<Rightarrow> nat \<Rightarrow> nat list" where
  "node_ports pl addrs n = concat (map (\<lambda>r. ports_of pl r (entry addrs r)) (node_ranks pl n))"

definition ports_ok :: "port_plan \<Rightarrow> (nat \<Rightarrow> nat \<Rightarrow> bool) \<Rightarrow> addrs \<times> cursors \<Rightarrow> bool" where
  "ports_ok pl free = (\<lambda>(addrs, cs). \<forall>n. distinct (node_ports pl addrs n) \<and> pp_base_port pl \<le> cursor pl cs n \<and>
     (\<forall>p \<in> set (node_ports pl addrs n). pp_base_port pl \<le> p \<and> p < cursor pl cs n \<and> p < 65536 \<and> free n p))"

lemma entry_set_addr: "entry (set_addr r f addrs) k = (if k = r then f (entry addrs r) else entry addrs k)"
  by (simp add: entry_def set_addr_def dget_default_def)

lemma cursor_dset: "cursor pl (dset n c cs) k = (if k = n then c else cursor pl cs k)"
  by (simp add: cursor_def dget_default_def)

lemma epn_pos: "0 < engines_per_node pl"
  by (simp add: engines_per_node_def)

lemma div_iff: "0 < e \<Longrightarrow> x div e = n \<longleftrightarrow> n * e \<le> x \<and> x < (n + 1) * e" for e x n :: nat
  using dividend_less_div_times[of e x] by (auto intro!: div_nat_eqI simp: mult.commute)

lemma in_node_ranks: "r \<in> set (node_ranks pl n) \<longleftrightarrow> pp_rank_offset pl \<le> r \<and> node_of pl r = n"
proof -
  let ?e = "engines_per_node pl" and ?o = "pp_rank_offset pl"
  have "?o + n * ?e \<le> r \<and> r < ?o + (n + 1) * ?e \<longleftrightarrow> ?o \<le> r \<and> n * ?e \<le> r - ?o \<and> r - ?o < (n + 1) * ?e" by auto
  also have "\<dots> \<longleftrightarrow> ?o \<le> r \<and> (r - ?o) div ?e = n" using div_iff[OF epn_pos[of pl], of "r - ?o" n] by auto
  finally show ?thesis by (simp add: node_ranks_def node_of_def)
qed

lemma distinct_sub:
  assumes "mset ys \<subseteq># mset xs" "distinct xs"
  shows "distinct ys"
proof -
  have "count (mset ys) a = (if a \<in> set ys then 1 else 0)" for a
  proof -
    have "count (mset ys) a \<le> count (mset xs) a" by (rule mset_subset_eq_count[OF assms(1)])
    moreover have "count (mset xs) a \<le> 1" using assms(2) by (simp add: distinct_count_atmost_1)
    ultimately have le: "count (mset ys) a \<le> 1" by linarith
    show ?thesis
    proof (cases "a \<in> set ys")
      case True
      then have "count (mset ys) a \<noteq> 0" by simp
      then have "count (mset ys) a = 1" using le by linarith
      then show ?thesis using True by simp
    qed (simp add: count_eq_zero_iff)
  qed
  then show ?thesis by (simp add: distinct_count_atmost_1)
qed

lemma ports_ofD: "q \<in> set (ports_of pl r a) \<Longrightarrow> r \<in> set (node_ranks pl n) \<Longrightarrow> entry addrs r = a \<Longrightarrow> q \<in> set (node_ports pl addrs n)"
  by (auto simp: node_ports_def)

text \<open>One entry of a node gets new ports from beyond the cursor.\<close>

lemma node_ports_change:
  assumes "\<forall>k. k \<noteq> r \<longrightarrow> mset (ports_of pl k (entry addrs' k)) \<subseteq># mset (ports_of pl k (entry addrs k))"
    "mset (ports_of pl r (entry addrs' r)) \<subseteq># mset (ports_of pl r (entry addrs r)) + mset new"
  shows "mset (node_ports pl addrs' n) \<subseteq># mset (node_ports pl addrs n) + (if r \<in> set (node_ranks pl n) then mset new else {#})"
proof -
  have "mset (concat (map (\<lambda>k. ports_of pl k (entry addrs' k)) ks)) \<subseteq>#
      mset (concat (map (\<lambda>k. ports_of pl k (entry addrs k)) ks)) + (if r \<in> set ks then mset new else {#})"
    if "distinct ks" for ks
    using that
  proof (induction ks)
    case (Cons k ks)
    let ?f = "\<lambda>k. mset (ports_of pl k (entry addrs' k))" and ?g = "\<lambda>k. mset (ports_of pl k (entry addrs k))"
    show ?case
    proof (cases "k = r")
      case True
      then have "mset (concat (map (\<lambda>k. ports_of pl k (entry addrs' k)) ks)) \<subseteq># mset (concat (map (\<lambda>k. ports_of pl k (entry addrs k)) ks))"
        using Cons by simp
      with assms(2) have "?f r + mset (concat (map (\<lambda>k. ports_of pl k (entry addrs' k)) ks)) \<subseteq>#
          (?g r + mset new) + mset (concat (map (\<lambda>k. ports_of pl k (entry addrs k)) ks))" by (rule subset_mset.add_mono)
      then show ?thesis using True by (simp add: add_ac)
    next
      case False
      have "?f k + mset (concat (map (\<lambda>k. ports_of pl k (entry addrs' k)) ks)) \<subseteq>#
          ?g k + (mset (concat (map (\<lambda>k. ports_of pl k (entry addrs k)) ks)) + (if r \<in> set ks then mset new else {#}))"
        using Cons assms(1) False by (intro subset_mset.add_mono) auto
      then show ?thesis using False by (simp add: add.assoc)
    qed
  qed simp
  moreover have "distinct (node_ranks pl n)" by (simp add: node_ranks_def)
  ultimately show ?thesis unfolding node_ports_def by blast
qed

lemma ports_ok_change:
  assumes "ports_ok pl free (addrs, cs)" "r \<in> set (node_ranks pl n)"
    "\<forall>k. k \<noteq> r \<longrightarrow> mset (ports_of pl k (entry addrs' k)) \<subseteq># mset (ports_of pl k (entry addrs k))"
    "mset (ports_of pl r (entry addrs' r)) \<subseteq># mset (ports_of pl r (entry addrs r)) + mset new"
    "distinct new" "\<forall>p \<in> set new. cursor pl cs n \<le> p \<and> p < c \<and> p < 65536 \<and> free n p" "cursor pl cs n \<le> c"
  shows "ports_ok pl free (addrs', dset n c cs)"
proof -
  have "distinct (node_ports pl addrs' m) \<and> pp_base_port pl \<le> cursor pl (dset n c cs) m \<and>
     (\<forall>p \<in> set (node_ports pl addrs' m). pp_base_port pl \<le> p \<and> p < cursor pl (dset n c cs) m \<and> p < 65536 \<and> free m p)" for m
  proof -
    have old: "distinct (node_ports pl addrs m)" "pp_base_port pl \<le> cursor pl cs m"
      "\<forall>p \<in> set (node_ports pl addrs m). pp_base_port pl \<le> p \<and> p < cursor pl cs m \<and> p < 65536 \<and> free m p"
      using assms(1) by (auto simp: ports_ok_def)
    have sub: "mset (node_ports pl addrs' m) \<subseteq># mset (node_ports pl addrs m) + (if r \<in> set (node_ranks pl m) then mset new else {#})"
      by (rule node_ports_change[OF assms(3,4)])
    show ?thesis
    proof (cases "m = n")
      case True
      have sub: "mset (node_ports pl addrs' n) \<subseteq># mset (node_ports pl addrs n @ new)" using sub assms(2) True by simp
      have "set (node_ports pl addrs n) \<inter> set new = {}" using old(3) assms(6) True by force
      then have "distinct (node_ports pl addrs n @ new)" using old(1) assms(5) True by simp
      then have "distinct (node_ports pl addrs' n)" by (rule distinct_sub[OF sub])
      moreover have "set (node_ports pl addrs' n) \<subseteq> set (node_ports pl addrs n) \<union> set new"
        using set_mset_mono[OF sub] by auto
      ultimately show ?thesis using old(2,3) assms(6,7) True by (auto simp: cursor_dset dest!: subsetD)
    next
      case False
      then have "r \<notin> set (node_ranks pl m)" using assms(2) by (auto simp: in_node_ranks)
      then have sub: "mset (node_ports pl addrs' m) \<subseteq># mset (node_ports pl addrs m)" using sub by simp
      have "distinct (node_ports pl addrs' m)" by (rule distinct_sub[OF sub old(1)])
      moreover have "set (node_ports pl addrs' m) \<subseteq> set (node_ports pl addrs m)" using set_mset_mono[OF sub] by auto
      ultimately show ?thesis using old(2,3) False by (auto simp: cursor_dset)
    qed
  qed
  then show ?thesis by (simp add: ports_ok_def)
qed

section \<open>Every step keeps the ports apart\<close>

lemma take_portD:
  assumes "take_port w e n (pp_base_port pl) c cs = Inr (p, cs')"
  shows "cs' = dset n (p + c) cs" "cursor pl cs n \<le> p" "\<forall>q \<in> {p..<p + c}. q < 65536 \<and> w_available w e q"
proof -
  have "get_free_port (w_available w e) (cursor pl cs n) c = Inr p" "cs' = dset n (p + c) cs"
    using assms by (auto simp: take_port_def bindE_eq_Inr cursor_def)
  with get_free_port_spec show "cs' = dset n (p + c) cs" "cursor pl cs n \<le> p" "\<forall>q \<in> {p..<p + c}. q < 65536 \<and> w_available w e q" by blast+
qed

definition serves :: "port_plan \<Rightarrow> world \<Rightarrow> (nat \<Rightarrow> nat \<Rightarrow> bool) \<Rightarrow> nat \<times> engine \<Rightarrow> bool" where
  "serves pl w free = (\<lambda>(rank, e). pp_rank_offset pl \<le> rank \<and> (\<forall>p. w_available w e p = free (node_of pl rank) p))"

lemma dset_dset: "dset n b (dset n a cs) = dset n b cs"
  by (induction cs) auto

lemma ports_of_server: "mset (ports_of pl r (a\<lparr>ad_host := h, ad_port := Some (int p), ad_nccl_port := Some (int q)\<rparr>))
    \<subseteq># mset (ports_of pl r a) + mset [p, q]"
  unfolding ports_of_def by (cases "ad_port a"; cases "ad_nccl_port a") simp_all

lemma ports_of_boot: "mset (ports_of pl r (a\<lparr>ad_bootstrap_port := Some (int b)\<rparr>)) \<subseteq># mset (ports_of pl r a) + mset [b]"
  unfolding ports_of_def by (cases "ad_bootstrap_port a") simp_all

lemma ports_of_dist:
  "mset (ports_of pl r (a\<lparr>ad_dist_init_addr := Some (Port_Of h p)\<rparr>))
    \<subseteq># mset (ports_of pl r a) + (if owns_dist pl r then mset [p..<p + (30 + pp_dp_size pl)] else {#})"
  unfolding ports_of_def by (cases "ad_dist_init_addr a") (simp_all split: dist_addr.split)

lemma server_ports_ok:
  assumes "server_ports w wt e n (pp_base_port pl) r (addrs, cs) = Inr (addrs', cs')" "ports_ok pl free (addrs, cs)"
    "r \<in> set (node_ranks pl n)" "\<forall>p. w_available w e p = free n p"
  shows "ports_ok pl free (addrs', cs')"
proof -
  obtain host p cs1 q cs2 where 1: "take_port w e n (pp_base_port pl) 1 cs = Inr (p, cs1)" "take_port w e n (pp_base_port pl) 1 cs1 = Inr (q, cs2)"
    and 2: "(if wt = ''prefill'' then bindE (take_port w e n (pp_base_port pl) 1 cs2) (\<lambda>(b, cs).
            Inr (set_addr r (\<lambda>a. a\<lparr>ad_bootstrap_port := Some (int b)\<rparr>)
              (set_addr r (\<lambda>a. a\<lparr>ad_host := Some host, ad_port := Some (int p), ad_nccl_port := Some (int q)\<rparr>) addrs), cs))
        else Inr (set_addr r (\<lambda>a. a\<lparr>ad_host := Some host, ad_port := Some (int p), ad_nccl_port := Some (int q)\<rparr>) addrs, cs2)) = Inr (addrs', cs')"
    using assms(1) by (auto simp: server_ports_def bindE_eq_Inr Let_def)
  note p = take_portD[OF 1(1)] and q = take_portD[OF 1(2)]
  let ?addrs = "set_addr r (\<lambda>a. a\<lparr>ad_host := Some host, ad_port := Some (int p), ad_nccl_port := Some (int q)\<rparr>) addrs"
  have pq: "p < q" "cs2 = dset n (q + 1) cs" using p(1) q(1,2) by (simp_all add: cursor_dset dset_dset)
  have ok: "ports_ok pl free (?addrs, cs2)" unfolding pq(2)
    using assms(2,3) p(2,3) q(3) pq(1) assms(4)
    by (intro ports_ok_change[where new = "[p, q]"]) (auto simp: entry_set_addr ports_of_server[simplified])
  show ?thesis
  proof (cases "wt = ''prefill''")
    case True
    then obtain b where b: "take_port w e n (pp_base_port pl) 1 cs2 = Inr (b, cs')"
      "addrs' = set_addr r (\<lambda>a. a\<lparr>ad_bootstrap_port := Some (int b)\<rparr>) ?addrs"
      using 2 by (auto simp: bindE_eq_Inr)
    note b' = take_portD[OF b(1)]
    show ?thesis unfolding b(2) b'(1)
      using ok assms(3,4) b'(2,3)
      by (intro ports_ok_change[where new = "[b]"]) (auto simp: entry_set_addr ports_of_boot[simplified])
  qed (use 2 ok in auto)
qed

lemma fold_set_addr:
  "distinct ks \<Longrightarrow> entry (fold (\<lambda>k. set_addr k f) ks addrs) r = (if r \<in> set ks then f (entry addrs r) else entry addrs r)"
  by (induction ks arbitrary: addrs) (auto simp: entry_set_addr)

lemma dist_port_ok:
  assumes "dist_port w (pp_dp_size pl) e n (pp_base_port pl) ranks (addrs, cs) = Inr (addrs', cs')" "ports_ok pl free (addrs, cs)"
    "r \<in> set (node_ranks pl n)" "\<forall>p. w_available w e p = free n p" "distinct ranks" "\<forall>k \<in> set ranks. k \<noteq> r \<longrightarrow> \<not> owns_dist pl k"
  shows "ports_ok pl free (addrs', cs')"
proof -
  obtain host p where p: "take_port w e n (pp_base_port pl) (30 + pp_dp_size pl) cs = Inr (p, cs')"
    "addrs' = fold (\<lambda>rank. set_addr rank (\<lambda>a. a\<lparr>ad_dist_init_addr := Some (Port_Of host p)\<rparr>)) ranks addrs"
    using assms(1) by (auto simp: dist_port_def bindE_eq_Inr)
  note t = take_portD[OF p(1)]
  let ?new = "[p..<p + (30 + pp_dp_size pl)]"
  have e: "entry addrs' k = (if k \<in> set ranks then (entry addrs k)\<lparr>ad_dist_init_addr := Some (Port_Of host p)\<rparr> else entry addrs k)" for k
    unfolding p(2) by (rule fold_set_addr[OF assms(5)])
  have sub: "mset (ports_of pl k (entry addrs' k)) \<subseteq># mset (ports_of pl k (entry addrs k)) + (if owns_dist pl k then mset ?new else {#})" for k
    using ports_of_dist[where a = "entry addrs k" and h = host and p = p and r = k and pl = pl] by (cases "owns_dist pl k") (simp_all add: e)
  show ?thesis
  proof (cases "owns_dist pl r")
    case True
    have other: "mset (ports_of pl k (entry addrs' k)) \<subseteq># mset (ports_of pl k (entry addrs k))" if "k \<noteq> r" for k
    proof (cases "k \<in> set ranks")
      case True
      then show ?thesis using sub[of k] assms(6) that by simp
    qed (simp add: e)
    show ?thesis unfolding t(1)
      using assms(2,3,4) t(2,3) sub[of r] other True by (intro ports_ok_change[where new = ?new and r = r]) auto
  next
    case False
    have "mset (ports_of pl k (entry addrs' k)) \<subseteq># mset (ports_of pl k (entry addrs k))" for k
    proof (cases "k \<in> set ranks")
      case True
      then have "\<not> owns_dist pl k" using False assms(6) by (cases "k = r") auto
      then show ?thesis using sub[of k] by simp
    qed (simp add: e)
    then show ?thesis unfolding t(1)
      using assms(2,3) t(2) by (intro ports_ok_change[where new = "[]" and r = r]) auto
  qed
qed

lemma rest_of_node:
  assumes "pp_rank_offset pl \<le> rank"
    "k \<in> set [rank..<rank + (engines_per_node pl - (rank - pp_rank_offset pl) mod engines_per_node pl)]"
  shows "k \<in> set (node_ranks pl (node_of pl rank))"
proof -
  let ?e = "engines_per_node pl" let ?l = "rank - pp_rank_offset pl"
  obtain i where i: "k = rank + i" "i < ?e - ?l mod ?e" using assms(2) by (auto simp: nat_le_iff_add)
  have "?l mod ?e < ?e" using epn_pos by simp
  moreover have "?l div ?e * ?e + ?l mod ?e = ?l" by (rule div_mult_mod_eq)
  moreover have "k - pp_rank_offset pl = ?l + i" using i(1) assms(1) by simp
  ultimately have "?l div ?e * ?e \<le> k - pp_rank_offset pl" "k - pp_rank_offset pl < ?l div ?e * ?e + ?e"
    using i(2) by linarith+
  then have "?l div ?e * ?e \<le> k - pp_rank_offset pl" "k - pp_rank_offset pl < (?l div ?e + 1) * ?e" by simp_all
  then have "(k - pp_rank_offset pl) div ?e = ?l div ?e" using div_iff[OF epn_pos] by blast
  then show ?thesis using assms by (auto simp: in_node_ranks node_of_def)
qed

lemma allocate_node_ok:
  assumes "allocate_node w pl (rank, e) st = Inr st'" "ports_ok pl free st" "serves pl w free (rank, e)" "0 < pp_num_gpus_per_node pl"
  shows "ports_ok pl free st'"
proof -
  let ?l = "rank - pp_rank_offset pl" and ?n = "node_of pl rank"
  let ?ranks = "[rank..<rank + (engines_per_node pl - ?l mod engines_per_node pl)]"
  have e: "pp_rank_offset pl \<le> rank" "\<forall>p. w_available w e p = free ?n p" using assms(3) by (simp_all add: serves_def)
  obtain st1 where 1: "foldE (server_ports w (pp_worker_type pl) e ?n (pp_base_port pl)) ?ranks st = Inr st1"
    and 2: "(if pp_gpus_per_engine pl > pp_num_gpus_per_node pl then
       if ?l mod nodes_of_engine pl = 0
       then dist_port w (pp_dp_size pl) e ?n (pp_base_port pl) [rank..<rank + nodes_of_engine pl] st1 else Inr st1
     else foldE (\<lambda>r. dist_port w (pp_dp_size pl) e ?n (pp_base_port pl) [r]) ?ranks st1) = Inr st'"
    using assms(1,4) by (auto simp: allocate_node_def bindE_eq_Inr Let_def node_of_def nodes_of_engine_def split: if_splits)
  have ok1: "ports_ok pl free st1"
  proof (rule foldE_invariant[where P = "ports_ok pl free", OF 1 assms(2)])
    fix k s t assume "k \<in> set ?ranks" "ports_ok pl free s" "server_ports w (pp_worker_type pl) e ?n (pp_base_port pl) k s = Inr t"
    then show "ports_ok pl free t" using server_ports_ok rest_of_node[OF e(1)] e(2) by (cases s; cases t) blast
  qed
  show ?thesis
  proof (cases "pp_gpus_per_engine pl > pp_num_gpus_per_node pl")
    case True
    have "\<not> owns_dist pl k" if z: "?l mod nodes_of_engine pl = 0" "k \<in> set [rank..<rank + nodes_of_engine pl]" "k \<noteq> rank" for k
    proof -
      obtain i where i: "k = rank + i" "0 < i" "i < nodes_of_engine pl" using z(2,3) by (auto simp: nat_le_iff_add)
      then have "(k - pp_rank_offset pl) mod nodes_of_engine pl = i mod nodes_of_engine pl"
        using e(1) z(1) by (metis add_diff_assoc2 mod_add_left_eq add_0)
      then show ?thesis using i True by (simp add: owns_dist_def)
    qed
    moreover have "rank \<in> set (node_ranks pl ?n)" using e(1) by (simp add: in_node_ranks)
    ultimately show ?thesis using 2 True ok1 dist_port_ok[of w pl e ?n "[rank..<rank + nodes_of_engine pl]" "fst st1" "snd st1" "fst st'" "snd st'" free rank] e(2)
      by (auto split: if_splits)
  next
    case False
    then have f: "foldE (\<lambda>r. dist_port w (pp_dp_size pl) e ?n (pp_base_port pl) [r]) ?ranks st1 = Inr st'" using 2 by simp
    show ?thesis
    proof (rule foldE_invariant[where P = "ports_ok pl free", OF f ok1])
      fix k s t assume k: "k \<in> set ?ranks" "ports_ok pl free s" "dist_port w (pp_dp_size pl) e ?n (pp_base_port pl) [k] s = Inr t"
      then show "ports_ok pl free t"
        using dist_port_ok[of w pl e ?n "[k]" "fst s" "snd s" "fst t" "snd t" free k] rest_of_node[OF e(1) k(1)] e(2) by simp
    qed
  qed
qed

lemma ports_ok_start: "ports_ok pl free ([], [])"
proof -
  have "node_ports pl [] n = []" for n by (simp add: node_ports_def entry_def dget_default_def ports_of_def no_addr_def)
  then show ?thesis by (simp add: ports_ok_def cursor_def dget_default_def)
qed

lemma allocate_normal_ports:
  assumes "allocate_normal w pl new = Inr (addrs, cs)" "0 < pp_num_gpus_per_node pl" "\<forall>x \<in> set new. serves pl w free x"
  shows "ports_ok pl free (addrs, cs)"
proof -
  obtain vis where "foldE (\<lambda>(rank, e) (visited, st).
         let node = (rank - pp_rank_offset pl) div engines_per_node pl in
         if node \<in> set visited then Inr (visited, st)
         else bindE (allocate_node w pl (rank, e) st) (\<lambda>st. Inr (set_add node visited, st))) new ([], ([], [])) = Inr (vis, addrs, cs)"
    using assms(1) by (auto simp: allocate_normal_def bindE_eq_Inr)
  then have "ports_ok pl free (snd (vis, addrs, cs))"
  proof (rule foldE_invariant[where P = "\<lambda>s. ports_ok pl free (snd s)"])
    show "ports_ok pl free (snd ([], ([], [])))" by (simp add: ports_ok_start)
    fix x s t assume x: "x \<in> set new" "ports_ok pl free (snd s)"
      "(case x of (rank, e) \<Rightarrow> \<lambda>(visited, st).
         let node = (rank - pp_rank_offset pl) div engines_per_node pl in
         if node \<in> set visited then Inr (visited, st)
         else bindE (allocate_node w pl (rank, e) st) (\<lambda>st. Inr (set_add node visited, st))) s = Inr t"
    obtain rank e visited st where xs: "x = (rank, e)" "s = (visited, st)" by (cases x; cases s) auto
    show "ports_ok pl free (snd t)"
    proof (cases "node_of pl rank \<in> set visited")
      case False
      then obtain st' where st': "allocate_node w pl (rank, e) st = Inr st'" "snd t = st'"
        using x(3) by (auto simp: xs Let_def bindE_eq_Inr node_of_def)
      have "serves pl w free (rank, e)" using assms(3) x(1) xs(1) by blast
      with allocate_node_ok[OF st'(1) _ _ assms(2)] x(2) show ?thesis by (simp add: xs st'(2))
    qed (use x in \<open>auto simp: xs Let_def node_of_def\<close>)
  qed
  then show ?thesis by simp
qed

text \<open>C31. The ports that an allocation hands out on a node do not collide: the server, NCCL and bootstrap ports of
  its engines and their blocks for distributed initialization are pairwise different, were free on the
  node, and lie between the base port and the cursor from which the next group of engines continues.\<close>

theorem ports_disjoint:
  assumes "allocate_normal w pl new = Inr (addrs, cs)" "0 < pp_num_gpus_per_node pl"
    "\<forall>(rank, e) \<in> set new. pp_rank_offset pl \<le> rank \<and> (\<forall>p. w_available w e p = free (node_of pl rank) p)"
  shows "\<forall>n. distinct (node_ports pl addrs n) \<and>
    (\<forall>p \<in> set (node_ports pl addrs n). pp_base_port pl \<le> p \<and> p < 65536 \<and> free n p \<and> p < cursor pl cs n)"
  using allocate_normal_ports[OF assms(1,2), of free] assms(3) by (fastforce simp: serves_def ports_ok_def)

definition demo_engine :: "nat \<Rightarrow> engine" where
  "demo_engine r = \<lparr>en_rank = r, en_worker_type = ''regular'', en_base_gpu_id = 0, en_bundle_index = 0,
     en_num_gpus_per_engine = 4, en_overrides = []\<rparr>"

definition demo_world :: world where
  "demo_world = \<lparr>w_available = (\<lambda>_ p. p \<noteq> 15001), w_ip = (\<lambda>_. ''10.0.0.1'')\<rparr>"

definition demo_plan :: port_plan where
  "demo_plan = \<lparr>pp_worker_type = ''regular'', pp_gpus_per_engine = 4, pp_num_gpus_per_node = 8, pp_dp_size = 1,
     pp_rank_offset = 0, pp_base_port = 15000\<rparr>"

theorem ports_disjoint_witness:
  "\<exists>addrs cs. allocate_normal demo_world demo_plan [(0, demo_engine 0), (1, demo_engine 1)] = Inr (addrs, cs) \<and>
    distinct (node_ports demo_plan addrs 0) \<and> 15001 \<notin> set (node_ports demo_plan addrs 0)"
proof -
  have "\<not> isl (allocate_normal demo_world demo_plan [(0, demo_engine 0), (1, demo_engine 1)])"
    by (simp add: allocate_normal_def demo_plan_def engines_per_node_def allocate_node_def server_ports_def dist_port_def get_addr_def
        take_port_def demo_world_def get_free_port.simps block_free_def upt_rec dget_default_def set_addr_def set_add_def
        port_set_def no_addr_def Let_def)
  then obtain addrs cs where a: "allocate_normal demo_world demo_plan [(0, demo_engine 0), (1, demo_engine 1)] = Inr (addrs, cs)"
    by (cases "allocate_normal demo_world demo_plan [(0, demo_engine 0), (1, demo_engine 1)]") auto
  have "\<forall>(rank, e) \<in> set [(0, demo_engine 0), (1, demo_engine 1)]. pp_rank_offset demo_plan \<le> rank \<and>
      (\<forall>p. w_available demo_world e p = (p \<noteq> 15001))" by (simp add: demo_plan_def demo_world_def)
  from ports_disjoint[OF a _ this] show ?thesis using a by (auto simp: demo_plan_def)
qed

end
