(* ===== verification/Server_Rules.thy ===== *)
theory Server_Rules
  imports Port_Rules
begin

text \<open>
  Starting and recovering the engines of a group: exactly the empty places are filled, each engine gets the
  rank and the GPU of its place, and the only way to fail is to run out of ports, provided the nodes of
  an engine are dead together.
\<close>

section \<open>Creating engines\<close>

definition engine_at :: "serve_args \<Rightarrow> server_group \<Rightarrow> nat \<Rightarrow> engine" where
  "engine_at args g i =
     (let k = nat (sg_gpu_offset g) + i * nat (min (sg_num_gpus_per_engine g) (sv_num_gpus_per_node args)) in
      \<lparr>en_rank = sg_rank_offset g + i, en_worker_type = sg_worker_type g, en_base_gpu_id = sg_gpu_ids g ! k,
       en_bundle_index = sg_bundle_indices g ! k, en_num_gpus_per_engine = sg_num_gpus_per_engine g, en_overrides = sg_overrides g\<rparr>)"

text \<open>The placement group has GPUs for all places of the group.\<close>

definition group_fits :: "serve_args \<Rightarrow> server_group \<Rightarrow> bool" where
  "group_fits args g = (0 \<le> sg_gpu_offset g \<and> 0 < sg_num_gpus_per_engine g \<and> 0 < sv_num_gpus_per_node args \<and>
     nat (sg_gpu_offset g) + length (sg_all_engines g) * nat (min (sg_num_gpus_per_engine g) (sv_num_gpus_per_node args)) \<le> length (sg_gpu_ids g) \<and>
     length (sg_bundle_indices g) = length (sg_gpu_ids g))"

lemma py_nth_at: "k < length xs \<Longrightarrow> py_nth xs (int k) = Inr (xs ! k)"
  by (simp add: py_nth_def)

lemma create_engine_eq:
  assumes "group_fits args g" "i < length (sg_all_engines g)"
  shows "create_engine args g i = Inr (engine_at args g i)"
proof -
  let ?m = "min (sg_num_gpus_per_engine g) (sv_num_gpus_per_node args)"
  let ?k = "nat (sg_gpu_offset g) + i * nat ?m"
  have m: "0 < nat ?m" using assms(1) by (simp add: group_fits_def)
  have idx: "sg_gpu_offset g + int i * ?m = int ?k" using assms(1) by (simp add: group_fits_def)
  have "(i + 1) * nat ?m \<le> length (sg_all_engines g) * nat ?m" using assms(2) by (intro mult_le_mono1) simp
  moreover have "nat (sg_gpu_offset g) + length (sg_all_engines g) * nat ?m \<le> length (sg_gpu_ids g)"
    using assms(1) by (simp add: group_fits_def)
  moreover have "(i + 1) * nat ?m = i * nat ?m + nat ?m" by simp
  ultimately have "?k < length (sg_gpu_ids g)" using m by linarith
  then have p: "py_nth (sg_gpu_ids g) (int ?k) = Inr (sg_gpu_ids g ! ?k)" "py_nth (sg_bundle_indices g) (int ?k) = Inr (sg_bundle_indices g ! ?k)"
    using assms(1) by (simp_all only: py_nth_at group_fits_def)
  show ?thesis unfolding create_engine_def engine_at_def Let_def idx by (simp only: p bindE_simps)
qed

definition filled :: "serve_args \<Rightarrow> server_group \<Rightarrow> engine option list" where
  "filled args g = map (\<lambda>i. case sg_all_engines g ! i of None \<Rightarrow> Some (engine_at args g i) | Some e \<Rightarrow> Some e) [0..<length (sg_all_engines g)]"

definition new_places :: "serve_args \<Rightarrow> server_group \<Rightarrow> (nat \<times> engine) list" where
  "new_places args g = map (\<lambda>i. (sg_rank_offset g + i, engine_at args g i)) (dead_indices g)"

lemma create_engines_eq:
  assumes "group_fits args g"
  shows "create_engines args g = Inr (new_places args g, filled args g)"
proof -
  let ?f = "\<lambda>i (new, engines). if engines ! i \<noteq> None then Inr (new, engines)
       else bindE (create_engine args g i) (\<lambda>e. Inr (new @ [(sg_rank_offset g + i, e)], engines[i := Some e]))"
  let ?es = "sg_all_engines g" let ?n = "length ?es"
  have "foldE ?f [0..<k] ([], ?es) =
      Inr (map (\<lambda>i. (sg_rank_offset g + i, engine_at args g i)) (filter (\<lambda>i. ?es ! i = None) [0..<k]), take k (filled args g) @ drop k ?es)"
    if "k \<le> ?n" for k
    using that
  proof (induction k)
    case (Suc k)
    have l: "length (filled args g) = ?n" by (simp add: filled_def)
    have nth: "(take k (filled args g) @ drop k ?es) ! k = ?es ! k" using Suc.prems l by (simp add: nth_append)
    have fk: "filled args g ! k = (case ?es ! k of None \<Rightarrow> Some (engine_at args g k) | Some e \<Rightarrow> Some e)"
    proof -
      have "k < ?n" using Suc.prems by simp
      then show ?thesis by (cases "sg_all_engines g ! k") (simp_all add: filled_def)
    qed
    have upd: "(take k (filled args g) @ drop k ?es)[k := filled args g ! k] = take (Suc k) (filled args g) @ drop (Suc k) ?es"
      using Suc.prems l by (simp add: list_update_append take_Suc_conv_app_nth Cons_nth_drop_Suc[symmetric])
    have same: "take k (filled args g) @ drop k ?es = take (Suc k) (filled args g) @ drop (Suc k) ?es" if "?es ! k \<noteq> None"
    proof -
      have "filled args g ! k = ?es ! k" using fk that by auto
      then show ?thesis using upd nth by (metis list_update_id)
    qed
    show ?case
    proof (cases "?es ! k")
      case None
      then show ?thesis using Suc nth upd fk create_engine_eq[OF assms, of k]
        by (simp add: foldE_append)
    next
      case (Some e)
      then show ?thesis using Suc nth same by (simp add: foldE_append)
    qed
  qed simp
  from this[of ?n] show ?thesis
    by (simp add: create_engines_def new_places_def dead_indices_def filled_def)
qed

section \<open>Only ports can run out\<close>

definition ports_only :: "'a result \<Rightarrow> bool" where
  "ports_only m = ((\<exists>x. m = Inr x) \<or> m = Inl Diverges)"

lemma ports_only_simps [simp]: "ports_only (Inr x)" "ports_only (Inl Diverges)" "ports_only (Inl e) \<longleftrightarrow> e = Diverges"
  by (auto simp: ports_only_def)

lemma ports_only_bind: "ports_only m \<Longrightarrow> (\<And>x. m = Inr x \<Longrightarrow> ports_only (f x)) \<Longrightarrow> ports_only (bindE m f)"
  by (cases m) (auto simp: ports_only_def)

lemma ports_only_fold: "(\<And>x s. x \<in> set xs \<Longrightarrow> ports_only (f x s)) \<Longrightarrow> ports_only (foldE f xs s)"
  by (induction xs arbitrary: s) (auto intro!: ports_only_bind)

lemma ports_only_take: "ports_only (take_port w e n b c cs)"
  using get_free_port_result[of "w_available w e" "dget_default cs n b" c] by (auto simp: take_port_def ports_only_def)

lemma ports_only_addr: "ports_only (get_addr w e)"
  using get_free_port_result[of "w_available w e" 10000 1] by (auto simp: get_addr_def ports_only_def)

lemma ports_only_server: "ports_only (server_ports w wt e n b r st)"
  by (cases st) (auto simp: server_ports_def Let_def intro!: ports_only_bind ports_only_addr ports_only_take)

lemma ports_only_dist: "ports_only (dist_port w dp e n b rs st)"
  by (cases st) (auto simp: dist_port_def intro!: ports_only_bind ports_only_addr ports_only_take)

lemma ports_only_node:
  "0 < pp_num_gpus_per_node pl \<Longrightarrow> ports_only (allocate_node w pl x st)"
  by (cases x) (auto simp: allocate_node_def Let_def intro!: ports_only_bind ports_only_fold ports_only_server ports_only_dist)

section \<open>Every new engine gets its addresses\<close>

definition served :: "addr \<Rightarrow> bool" where
  "served a = (ad_port a \<noteq> None \<and> ad_nccl_port a \<noteq> None)"

definition grows :: "addrs \<Rightarrow> addrs \<Rightarrow> bool" where
  "grows addrs addrs' = (\<forall>k. (map_of addrs k \<noteq> None \<longrightarrow> map_of addrs' k \<noteq> None) \<and> (served (entry addrs k) \<longrightarrow> served (entry addrs' k)) \<and>
     (ad_dist_init_addr (entry addrs k) \<noteq> None \<longrightarrow> ad_dist_init_addr (entry addrs' k) \<noteq> None))"

lemma grows_refl [simp]: "grows a a"
  by (simp add: grows_def)

lemma grows_trans: "grows a b \<Longrightarrow> grows b c \<Longrightarrow> grows a c"
  unfolding grows_def by blast

lemma map_of_set_addr: "map_of (set_addr r f addrs) k = (if k = r then Some (f (entry addrs r)) else map_of addrs k)"
  by (simp add: set_addr_def entry_def)

lemma entry_map_of: "map_of addrs k = Some a \<Longrightarrow> entry addrs k = a"
  by (simp add: entry_def dget_default_def)

lemma server_ports_grow:
  assumes "server_ports w wt e n b r st = Inr st'"
  shows "grows (fst st) (fst st') \<and> served (entry (fst st') r) \<and> map_of (fst st') r \<noteq> None"
  using assms by (cases st; cases st') (auto simp: server_ports_def bindE_eq_Inr Let_def grows_def served_def entry_set_addr map_of_set_addr split: if_splits)

lemma fold_dist_grow:
  "grows addrs (fold (\<lambda>rank. set_addr rank (\<lambda>a. a\<lparr>ad_dist_init_addr := Some d\<rparr>)) ranks addrs) \<and>
   (\<forall>r \<in> set ranks. ad_dist_init_addr (entry (fold (\<lambda>rank. set_addr rank (\<lambda>a. a\<lparr>ad_dist_init_addr := Some d\<rparr>)) ranks addrs) r) \<noteq> None)"
proof (induction ranks arbitrary: addrs)
  case (Cons r ranks)
  let ?a = "set_addr r (\<lambda>a. a\<lparr>ad_dist_init_addr := Some d\<rparr>) addrs"
  have g: "grows addrs ?a" by (auto simp: grows_def served_def entry_set_addr map_of_set_addr)
  have "ad_dist_init_addr (entry ?a r) \<noteq> None" by (simp add: entry_set_addr)
  with Cons.IH[of ?a] g show ?case by (auto intro: grows_trans simp: grows_def)
qed simp

lemma dist_port_grow:
  assumes "dist_port w dp e n b ranks st = Inr st'"
  shows "grows (fst st) (fst st') \<and> (\<forall>r \<in> set ranks. ad_dist_init_addr (entry (fst st') r) \<noteq> None)"
  using assms fold_dist_grow by (cases st; cases st') (auto simp: dist_port_def bindE_eq_Inr)

text \<open>Loops that only add reach all their elements.\<close>

lemma foldE_reach:
  assumes "foldE f xs s = Inr t" "\<And>x s t. f x s = Inr t \<Longrightarrow> G s t \<and> Q x t" "\<And>s. G s s" "\<And>s t u. G s t \<Longrightarrow> G t u \<Longrightarrow> G s u"
    "\<And>x s t. Q x s \<Longrightarrow> G s t \<Longrightarrow> Q x t"
  shows "G s t \<and> (\<forall>x \<in> set xs. Q x t)"
  using assms(1)
proof (induction xs arbitrary: s)
  case (Cons x xs)
  then obtain u where u: "f x s = Inr u" "foldE f xs u = Inr t" by (auto simp: bindE_eq_Inr)
  then show ?case using Cons.IH[OF u(2)] assms(2)[OF u(1)] assms(4,5) by auto
qed (simp add: assms(3))

definition node_rest :: "port_plan \<Rightarrow> nat \<Rightarrow> nat list" where
  "node_rest pl rank = [rank..<rank + (engines_per_node pl - (rank - pp_rank_offset pl) mod engines_per_node pl)]"

definition covered :: "port_plan \<Rightarrow> nat \<Rightarrow> addrs \<Rightarrow> bool" where
  "covered pl rank addrs =
     ((\<forall>k \<in> set (node_rest pl rank). map_of addrs k \<noteq> None \<and> served (entry addrs k) \<and>
         (pp_gpus_per_engine pl \<le> pp_num_gpus_per_node pl \<longrightarrow> ad_dist_init_addr (entry addrs k) \<noteq> None)) \<and>
      (pp_gpus_per_engine pl > pp_num_gpus_per_node pl \<and> (rank - pp_rank_offset pl) mod nodes_of_engine pl = 0 \<longrightarrow>
         (\<forall>k \<in> set [rank..<rank + nodes_of_engine pl]. ad_dist_init_addr (entry addrs k) \<noteq> None)))"

lemma growsD:
  "grows a b \<Longrightarrow> map_of a k \<noteq> None \<Longrightarrow> map_of b k \<noteq> None"
  "grows a b \<Longrightarrow> served (entry a k) \<Longrightarrow> served (entry b k)"
  "grows a b \<Longrightarrow> ad_dist_init_addr (entry a k) \<noteq> None \<Longrightarrow> ad_dist_init_addr (entry b k) \<noteq> None"
  unfolding grows_def by blast+

lemma covered_grows:
  assumes "covered pl rank addrs" "grows addrs addrs'"
  shows "covered pl rank addrs'"
  unfolding covered_def
proof (intro conjI ballI impI)
  fix k assume k: "k \<in> set (node_rest pl rank)"
  then have c: "map_of addrs k \<noteq> None" "served (entry addrs k)"
    "pp_gpus_per_engine pl \<le> pp_num_gpus_per_node pl \<Longrightarrow> ad_dist_init_addr (entry addrs k) \<noteq> None"
    using assms(1) by (auto simp: covered_def)
  show "map_of addrs' k \<noteq> None" by (rule growsD(1)[OF assms(2) c(1)])
  show "served (entry addrs' k)" by (rule growsD(2)[OF assms(2) c(2)])
  show "ad_dist_init_addr (entry addrs' k) \<noteq> None" if "pp_gpus_per_engine pl \<le> pp_num_gpus_per_node pl"
    by (rule growsD(3)[OF assms(2) c(3)[OF that]])
next
  fix k assume z: "pp_num_gpus_per_node pl < pp_gpus_per_engine pl \<and> (rank - pp_rank_offset pl) mod nodes_of_engine pl = 0"
    "k \<in> set [rank..<rank + nodes_of_engine pl]"
  have "ad_dist_init_addr (entry addrs k) \<noteq> None"
    by (rule bspec[OF mp[OF conjunct2[OF assms(1)[unfolded covered_def]] z(1)] z(2)])
  then show "ad_dist_init_addr (entry addrs' k) \<noteq> None" by (rule growsD(3)[OF assms(2)])
qed

lemma allocate_node_grow:
  assumes "allocate_node w pl (rank, e) (addrs, cs) = Inr (addrs', cs')"
  shows "grows addrs addrs' \<and> covered pl rank addrs'"
proof -
  let ?n = "(rank - pp_rank_offset pl) div engines_per_node pl" and ?G = "\<lambda>s t. grows (fst s) (fst t)"
  obtain st1 where 1: "foldE (server_ports w (pp_worker_type pl) e ?n (pp_base_port pl)) (node_rest pl rank) (addrs, cs) = Inr st1"
    and 2: "(if pp_gpus_per_engine pl > pp_num_gpus_per_node pl then
       bindE (raise_unless ZeroDivisionError (pp_num_gpus_per_node pl \<noteq> 0)) (\<lambda>_.
       if (rank - pp_rank_offset pl) mod nodes_of_engine pl = 0
       then dist_port w (pp_dp_size pl) e ?n (pp_base_port pl) [rank..<rank + nodes_of_engine pl] st1 else Inr st1)
     else foldE (\<lambda>r. dist_port w (pp_dp_size pl) e ?n (pp_base_port pl) [r]) (node_rest pl rank) st1) = Inr (addrs', cs')"
    using assms unfolding allocate_node_def prod.case Let_def node_rest_def[symmetric] nodes_of_engine_def[symmetric]
      bindE_eq_Inr[of "foldE _ _ _"] by blast
  have s1: "?G (addrs, cs) st1 \<and> (\<forall>k \<in> set (node_rest pl rank). map_of (fst st1) k \<noteq> None \<and> served (entry (fst st1) k))"
  proof (rule foldE_reach[OF 1, where G = ?G and Q = "\<lambda>k s. map_of (fst s) k \<noteq> None \<and> served (entry (fst s) k)"])
    show "?G s t \<and> map_of (fst t) k \<noteq> None \<and> served (entry (fst t) k)"
      if "server_ports w (pp_worker_type pl) e ?n (pp_base_port pl) k s = Inr t" for k s t
      using server_ports_grow[OF that] by blast
    show "?G s u" if "?G s t" "?G t u" for s t u by (rule grows_trans[OF that])
    show "map_of (fst t) k \<noteq> None \<and> served (entry (fst t) k)" if "map_of (fst s) k \<noteq> None \<and> served (entry (fst s) k)" "?G s t" for k s t
      using that growsD(1,2) by blast
  qed simp
  show ?thesis
  proof (cases "pp_gpus_per_engine pl > pp_num_gpus_per_node pl")
    case True
    then have "grows (fst st1) addrs' \<and> ((rank - pp_rank_offset pl) mod nodes_of_engine pl = 0 \<longrightarrow>
        (\<forall>k \<in> set [rank..<rank + nodes_of_engine pl]. ad_dist_init_addr (entry addrs' k) \<noteq> None))"
      using 2 by (auto simp: bindE_eq_Inr split: if_splits dest: dist_port_grow)
    then show ?thesis using s1 True growsD(1,2) grows_trans unfolding covered_def fst_conv by (meson leD)
  next
    case False
    then have f: "foldE (\<lambda>r. dist_port w (pp_dp_size pl) e ?n (pp_base_port pl) [r]) (node_rest pl rank) st1 = Inr (addrs', cs')" using 2 by simp
    have "?G st1 (addrs', cs') \<and> (\<forall>k \<in> set (node_rest pl rank). ad_dist_init_addr (entry (fst (addrs', cs')) k) \<noteq> None)"
    proof (rule foldE_reach[OF f, where G = ?G and Q = "\<lambda>k s. ad_dist_init_addr (entry (fst s) k) \<noteq> None"])
      show "?G s t \<and> ad_dist_init_addr (entry (fst t) k) \<noteq> None"
        if "dist_port w (pp_dp_size pl) e ?n (pp_base_port pl) [k] s = Inr t" for k s t
        using dist_port_grow[OF that] by simp
      show "?G s u" if "?G s t" "?G t u" for s t u by (rule grows_trans[OF that])
      show "ad_dist_init_addr (entry (fst t) k) \<noteq> None" if "ad_dist_init_addr (entry (fst s) k) \<noteq> None" "?G s t" for k s t
        by (rule growsD(3)[OF that(2,1)])
    qed simp
    then show ?thesis using s1 False growsD(1,2) grows_trans unfolding covered_def fst_conv by (meson leD)
  qed
qed

section \<open>An allocation\<close>

definition visit :: "world \<Rightarrow> port_plan \<Rightarrow> nat \<times> engine \<Rightarrow> nat list \<times> (addrs \<times> cursors) \<Rightarrow> (nat list \<times> (addrs \<times> cursors)) result" where
  "visit w pl = (\<lambda>(rank, e) (visited, st).
     let node = (rank - pp_rank_offset pl) div engines_per_node pl in
     if node \<in> set visited then Inr (visited, st)
     else bindE (allocate_node w pl (rank, e) st) (\<lambda>st. Inr (set_add node visited, st)))"

text \<open>Each node is covered from the first of its new ranks.\<close>

definition started :: "port_plan \<Rightarrow> nat \<Rightarrow> addrs \<Rightarrow> bool" where
  "started pl rank addrs = (\<exists>r0. pp_rank_offset pl \<le> r0 \<and> r0 \<le> rank \<and> node_of pl r0 = node_of pl rank \<and> covered pl r0 addrs)"

lemma started_grows: "started pl rank addrs \<Longrightarrow> grows addrs addrs' \<Longrightarrow> started pl rank addrs'"
  unfolding started_def using covered_grows by blast

lemma visits_start:
  assumes "foldE (visit w pl) new (visited, addrs, cs) = Inr (visited', addrs', cs')" "sorted (map fst new)"
    "\<forall>(r, e) \<in> set new. pp_rank_offset pl \<le> r \<and> (node_of pl r \<in> set visited \<longrightarrow> started pl r addrs)"
  shows "grows addrs addrs' \<and> (\<forall>(r, e) \<in> set new. started pl r addrs')"
  using assms
proof (induction new arbitrary: visited addrs cs)
  case (Cons x new)
  obtain rank e where x: "x = (rank, e)" by (cases x)
  obtain vis1 addrs1 cs1 where v: "visit w pl x (visited, addrs, cs) = Inr (vis1, addrs1, cs1)"
    "foldE (visit w pl) new (vis1, addrs1, cs1) = Inr (visited', addrs', cs')"
    using Cons.prems(1) by (auto simp: bindE_eq_Inr)
  have off: "pp_rank_offset pl \<le> rank" using Cons.prems(3) x by auto
  have step: "grows addrs addrs1 \<and> started pl rank addrs1 \<and> (\<forall>n \<in> set vis1. n \<in> set visited \<or> n = node_of pl rank)"
  proof (cases "node_of pl rank \<in> set visited")
    case True
    then show ?thesis using v(1) Cons.prems(3) by (auto simp: x visit_def Let_def node_of_def)
  next
    case False
    then have "allocate_node w pl (rank, e) (addrs, cs) = Inr (addrs1, cs1)" "vis1 = set_add (node_of pl rank) visited"
      using v(1) by (auto simp: x visit_def Let_def node_of_def bindE_eq_Inr)
    then show ?thesis using allocate_node_grow[of w pl rank e addrs cs addrs1 cs1] off by (auto simp: started_def)
  qed
  have "\<forall>(r, e) \<in> set new. pp_rank_offset pl \<le> r \<and> (node_of pl r \<in> set vis1 \<longrightarrow> started pl r addrs1)"
  proof (clarify, intro conjI impI)
    fix r e assume r: "(r, e) \<in> set new"
    then show "pp_rank_offset pl \<le> r" using Cons.prems(3) by auto
    assume "node_of pl r \<in> set vis1"
    then consider "node_of pl r \<in> set visited" | "node_of pl r = node_of pl rank" using step by blast
    then show "started pl r addrs1"
    proof cases
      case 1
      then show ?thesis using Cons.prems(3) r step started_grows by fastforce
    next
      case 2
      moreover have "rank \<le> r" using Cons.prems(2) r x by force
      ultimately show ?thesis using step unfolding started_def by (metis order_trans)
    qed
  qed
  from Cons.IH[OF v(2) _ this] Cons.prems(2) step show ?case
    using grows_trans started_grows x by auto
qed simp

lemma covered_rank:
  assumes "started pl rank addrs" "pp_rank_offset pl \<le> rank"
  shows "map_of addrs rank \<noteq> None \<and> served (entry addrs rank) \<and>
    (pp_gpus_per_engine pl \<le> pp_num_gpus_per_node pl \<longrightarrow> ad_dist_init_addr (entry addrs rank) \<noteq> None)"
proof -
  obtain r0 where r0: "pp_rank_offset pl \<le> r0" "r0 \<le> rank" "node_of pl r0 = node_of pl rank" "covered pl r0 addrs"
    using assms(1) by (auto simp: started_def)
  let ?e = "engines_per_node pl" let ?l = "r0 - pp_rank_offset pl"
  have "rank - pp_rank_offset pl < (?l div ?e + 1) * ?e"
    using r0(3) div_iff[OF epn_pos, of "rank - pp_rank_offset pl" pl "?l div ?e"] by (simp add: node_of_def)
  moreover have "?l div ?e * ?e + ?l mod ?e = ?l" "(?l div ?e + 1) * ?e = ?l div ?e * ?e + ?e" by (simp_all add: div_mult_mod_eq)
  moreover have "?l mod ?e < ?e" using epn_pos by simp
  ultimately have "rank < r0 + (?e - ?l mod ?e)" using r0(1,2) assms(2) by linarith
  then have "rank \<in> set (node_rest pl r0)" using r0(2) by (simp add: node_rest_def)
  then show ?thesis using r0(4) by (simp add: covered_def)
qed

text \<open>The first node of an engine.\<close>

definition first_node :: "port_plan \<Rightarrow> nat \<Rightarrow> nat" where
  "first_node pl rank = rank - (rank - pp_rank_offset pl) mod nodes_of_engine pl"

lemma one_per_node: "0 < pp_num_gpus_per_node pl \<Longrightarrow> pp_gpus_per_engine pl > pp_num_gpus_per_node pl \<Longrightarrow> engines_per_node pl = 1"
  by (simp add: engines_per_node_def)

lemma allocate_normal_complete:
  assumes "0 < pp_num_gpus_per_node pl" "0 < pp_gpus_per_engine pl" "sorted (map fst new)" "\<forall>(r, e) \<in> set new. pp_rank_offset pl \<le> r"
    "pp_gpus_per_engine pl > pp_num_gpus_per_node pl \<longrightarrow> (\<forall>(r, e) \<in> set new. first_node pl r \<in> fst ` set new)"
  shows "ports_only (allocate_normal w pl new) \<and>
    (\<forall>addrs cs. allocate_normal w pl new = Inr (addrs, cs) \<longrightarrow> (\<forall>(r, e) \<in> set new. port_set addrs r))"
proof -
  have norm: "allocate_normal w pl new = bindE (foldE (visit w pl) new ([], [], [])) (\<lambda>(_, (addrs, cursors)).
     bindE (foldE (\<lambda>(rank, _) _. bindE (raise_unless KeyError (map_of addrs rank \<noteq> None)) (\<lambda>_. assertE (port_set addrs rank))) new ()) (\<lambda>_.
       Inr (addrs, cursors)))"
    using assms(2) by (simp add: allocate_normal_def visit_def[abs_def] raise_unless_def)
  have set: "port_set addrs r" if z: "foldE (visit w pl) new ([], [], []) = Inr (v, addrs, cs)" "(r, e) \<in> set new" for v addrs cs r e
  proof -
    have st: "\<forall>(r, e) \<in> set new. started pl r addrs" using visits_start[OF z(1) assms(3)] assms(4) by auto
    have off: "pp_rank_offset pl \<le> r" using assms(4) z(2) by auto
    have c: "map_of addrs r \<noteq> None \<and> served (entry addrs r) \<and>
        (pp_gpus_per_engine pl \<le> pp_num_gpus_per_node pl \<longrightarrow> ad_dist_init_addr (entry addrs r) \<noteq> None)"
      using covered_rank[OF _ off] st z(2) by blast
    have "ad_dist_init_addr (entry addrs r) \<noteq> None"
    proof (cases "pp_gpus_per_engine pl > pp_num_gpus_per_node pl")
      case True
      let ?f = "first_node pl r" and ?k = "nodes_of_engine pl" and ?l = "r - pp_rank_offset pl"
      have kp: "0 < ?k" using True assms(1) by (simp add: nodes_of_engine_def pos_imp_zdiv_pos_iff)
      obtain e' where f: "(?f, e') \<in> set new" using assms(5) True z(2) by force
      then have "started pl ?f addrs" "pp_rank_offset pl \<le> ?f" using st assms(4) by auto
      then have "covered pl ?f addrs" unfolding started_def node_of_def using one_per_node[OF assms(1) True]
        by (metis diff_is_0_eq div_by_1 le_add_diff_inverse)
      moreover have "?l mod ?k \<le> ?l" by simp
      then have "?f - pp_rank_offset pl = ?l - ?l mod ?k" using off by (simp add: first_node_def)
      then have "(?f - pp_rank_offset pl) mod ?k = 0" by (metis minus_mod_eq_mult_div mod_mult_self1_is_0)
      moreover have "r \<in> set [?f..<?f + ?k]"
      proof -
        have "?l mod ?k < ?k" using kp by simp
        then show ?thesis using off \<open>?l mod ?k \<le> ?l\<close> by (auto simp: first_node_def)
      qed
      ultimately show ?thesis using True by (simp add: covered_def)
    qed (use c in auto)
    then show ?thesis using c by (auto simp: port_set_def served_def entry_def dget_default_def)
  qed
  have check: "foldE (\<lambda>(rank, _) _. bindE (raise_unless KeyError (map_of addrs rank \<noteq> None)) (\<lambda>_. assertE (port_set addrs rank))) xs () = Inr ()"
    if "\<forall>(r, e) \<in> set xs. port_set addrs r" for addrs and xs :: "(nat \<times> engine) list"
    using that by (induction xs) (auto simp: port_set_def split: option.splits)
  have po: "ports_only (foldE (visit w pl) new ([], [], []))"
    by (rule ports_only_fold) (auto simp: visit_def Let_def intro!: ports_only_bind ports_only_node[OF assms(1)])
  show ?thesis unfolding norm
    using po set check by (fastforce simp: ports_only_def bindE_eq_Inr)
qed

section \<open>Recovery\<close>

text \<open>The nodes of an engine die together: with a node, its first node is to be replaced.\<close>

definition dead_together :: "serve_args \<Rightarrow> server_group \<Rightarrow> bool" where
  "dead_together args g = (\<forall>i \<in> set (dead_indices g). i - i mod nodes_per_engine args g \<in> set (dead_indices g))"

definition recoverable :: "serve_args \<Rightarrow> server_group \<Rightarrow> bool" where
  "recoverable args g = (group_fits args g \<and> dead_together args g \<and> (sg_worker_type g = ''placeholder'' \<longrightarrow> sg_all_engines g = []))"

definition recovered :: "serve_args \<Rightarrow> server_group \<Rightarrow> server_group" where
  "recovered args g = g\<lparr>sg_all_engines := filled args g, sg_num_new_engines := length (dead_indices g)\<rparr>"

definition addressed :: "addr \<Rightarrow> bool" where
  "addressed a = (ad_port a \<noteq> None \<and> ad_nccl_port a \<noteq> None \<and> ad_dist_init_addr a \<noteq> None)"

lemma port_setD: "port_set addrs r \<Longrightarrow> \<exists>a. map_of addrs r = Some a \<and> addressed a"
  by (auto simp: port_set_def addressed_def split: option.splits)

lemma calls_of:
  assumes "\<forall>(r, e) \<in> set new. port_set addrs r"
  shows "\<exists>calls. mapE (\<lambda>(rank, e). bindE (dget addrs rank) (\<lambda>a. Inr (e, a))) new = Inr calls \<and>
    map fst calls = map snd new \<and> (\<forall>(e, a) \<in> set calls. addressed a)"
  using assms
proof (induction new)
  case (Cons x new)
  obtain r e where x: "x = (r, e)" by (cases x)
  obtain a where "map_of addrs r = Some a" "addressed a" using port_setD[of addrs r] Cons.prems x by auto
  then show ?case using Cons x by (auto simp: dget_def)
qed simp

lemma sorted_new_places: "sorted (map fst (new_places args g))"
  by (simp add: new_places_def dead_indices_def comp_def sorted_map sorted_wrt_filter sorted_wrt_upt)

lemma start_engines_eq:
  assumes "recoverable args g" "\<not> sv_debug_train_only args" "\<not> sv_rollout_external args"
  shows "start_engines w args cs g = Inl Diverges \<or> (\<exists>calls cursors. start_engines w args cs g = Inr (calls, cursors, recovered args g) \<and>
     map fst calls = map (engine_at args g) (dead_indices g) \<and> (\<forall>(e, a) \<in> set calls. addressed a))"
proof (cases "dead_indices g = []")
  case True
  have "filled args g = sg_all_engines g"
    using True by (auto simp: filled_def dead_indices_def filter_empty_conv intro!: nth_equalityI split: option.split)
  then show ?thesis using True assms
    by (auto simp: start_engines_def create_engines_eq recoverable_def new_places_def recovered_def Let_def)
next
  case False
  let ?pl = "plan_of args g (base_port_of args cs)" and ?new = "new_places args g"
  have fits: "group_fits args g" and np: "sg_worker_type g \<noteq> ''placeholder''"
    using assms(1) False by (auto simp: recoverable_def dead_indices_def)
  have pl: "0 < pp_num_gpus_per_node ?pl" "0 < pp_gpus_per_engine ?pl" "pp_rank_offset ?pl = sg_rank_offset g"
    "pp_gpus_per_engine ?pl = sg_num_gpus_per_engine g" "pp_num_gpus_per_node ?pl = sv_num_gpus_per_node args"
    using fits by (auto simp: plan_of_def group_fits_def)
  have first: "pp_gpus_per_engine ?pl > pp_num_gpus_per_node ?pl \<longrightarrow> (\<forall>(r, e) \<in> set ?new. first_node ?pl r \<in> fst ` set ?new)"
  proof (intro impI ballI, clarify)
    fix r e assume b: "pp_gpus_per_engine ?pl > pp_num_gpus_per_node ?pl" and "(r, e) \<in> set ?new"
    then obtain i where i: "i \<in> set (dead_indices g)" "r = sg_rank_offset g + i" by (auto simp: new_places_def)
    have "nodes_of_engine ?pl = nodes_per_engine args g"
    proof -
      have "1 \<le> sg_num_gpus_per_engine g div sv_num_gpus_per_node args" using b pl by (simp add: pos_imp_zdiv_pos_iff int_one_le_iff_zero_less)
      then show ?thesis by (simp add: nodes_of_engine_def nodes_per_engine_def pl)
    qed
    then have "first_node ?pl r = sg_rank_offset g + (i - i mod nodes_per_engine args g)"
      by (simp add: first_node_def pl i(2))
    moreover have "i - i mod nodes_per_engine args g \<in> set (dead_indices g)" using assms(1) i(1) by (simp add: recoverable_def dead_together_def)
    ultimately show "first_node ?pl r \<in> fst ` set ?new" by (force simp: new_places_def)
  qed
  have "\<forall>(r, e) \<in> set ?new. pp_rank_offset ?pl \<le> r" by (auto simp: new_places_def pl)
  from allocate_normal_complete[OF pl(1,2) sorted_new_places this first] have a: "ports_only (allocate_normal w ?pl ?new)"
    "\<And>addrs cursors. allocate_normal w ?pl ?new = Inr (addrs, cursors) \<Longrightarrow> \<forall>(r, e) \<in> set ?new. port_set addrs r" by blast+
  have ne: "?new \<noteq> []" "length ?new = length (dead_indices g)" "map snd ?new = map (engine_at args g) (dead_indices g)"
    using False by (simp_all add: new_places_def)
  have start: "start_engines w args cs g = bindE (allocate_normal w ?pl ?new) (\<lambda>(addrs, cursors).
      bindE (mapE (\<lambda>(rank, e). bindE (dget addrs rank) (\<lambda>a. Inr (e, a))) ?new) (\<lambda>calls. Inr (calls, cursors, recovered args g)))"
    using assms(2,3) np ne(1,2) by (simp add: start_engines_def create_engines_eq[OF fits] plan_of_def recovered_def Let_def)
  from a(1) show ?thesis unfolding ports_only_def
  proof (elim disjE exE)
    fix x assume x: "allocate_normal w ?pl ?new = Inr x"
    obtain addrs cursors where "x = (addrs, cursors)" by (cases x)
    with x calls_of[OF a(2)[of addrs cursors]] show ?thesis unfolding start using ne(3) by auto
  qed (simp add: start)
qed

lemma start_groups_eq:
  assumes "\<forall>g \<in> set groups. recoverable args g" "\<not> sv_debug_train_only args" "\<not> sv_rollout_external args"
  shows "start_groups w args groups = Inl Diverges \<or> (\<exists>calls. start_groups w args groups = Inr (calls, map (recovered args) groups) \<and>
     map fst calls = concat (map (\<lambda>g. map (engine_at args g) (dead_indices g)) groups) \<and> (\<forall>(e, a) \<in> set calls. addressed a))"
proof -
  let ?f = "\<lambda>g (calls, cursors, done). bindE (start_engines w args cursors g) (\<lambda>(cs, cursors, g). Inr (calls @ cs, cursors, done @ [g]))"
  have "foldE ?f gs (calls0, cs, done) = Inl Diverges \<or> (\<exists>calls cs'. foldE ?f gs (calls0, cs, done) = Inr (calls0 @ calls, cs', done @ map (recovered args) gs) \<and>
     map fst calls = concat (map (\<lambda>g. map (engine_at args g) (dead_indices g)) gs) \<and> (\<forall>(e, a) \<in> set calls. addressed a))"
    if "\<forall>g \<in> set gs. recoverable args g" for gs calls0 cs "done"
    using that
  proof (induction gs arbitrary: calls0 cs "done")
    case (Cons g gs)
    from start_engines_eq[OF _ assms(2,3), of g w cs] Cons.prems consider "start_engines w args cs g = Inl Diverges"
      | calls cs' where "start_engines w args cs g = Inr (calls, cs', recovered args g)"
          "map fst calls = map (engine_at args g) (dead_indices g)" "\<forall>(e, a) \<in> set calls. addressed a" by auto
    then show ?case
    proof cases
      case 2
      have ih: "\<forall>g \<in> set gs. recoverable args g" using Cons.prems by simp
      from Cons.IH[OF ih, of "calls0 @ calls" cs' "done @ [recovered args g]"] 2 show ?thesis by fastforce
    qed simp
  qed simp
  from this[of groups "[]" "[]" "[]"] assms(1) show ?thesis by (fastforce simp: start_groups_def)
qed

lemma new_engines_of_recovered: "new_engines_of (recovered args g) (dead_indices g) = map (engine_at args g) (dead_indices g)"
  by (auto simp: new_engines_of_def recovered_def filled_def dead_indices_def)

text \<open>The engines whose memory recovery manages: those of the groups that share GPUs with training.\<close>

definition sharing :: "serve_args \<Rightarrow> server_group list \<Rightarrow> engine list" where
  "sharing args gs = concat (map (\<lambda>g. map (engine_at args g) (dead_indices g)) (filter sg_needs_offload gs))"

definition with_weights :: "rollout_server \<Rightarrow> server_group list" where
  "with_weights s = filter (\<lambda>g. rs_update_weights s \<or> \<not> falsy (sg_model_path g)) (rs_server_groups s)"


definition demo_args :: serve_args where
  "demo_args = \<lparr>sv_hf_checkpoint = ''m'', sv_rollout_num_gpus = 8, sv_rollout_num_gpus_per_engine = 4, sv_num_gpus_per_node = 8,
     sv_prefill_num_servers = None, sv_sglang_config = None, sv_sglang_dp_size = 1, sv_rollout_external = False,
     sv_rollout_external_engine_addrs = [], sv_patch = False, sv_debug_train_only = False, sv_debug_rollout_only = False,
     sv_colocate = True, sv_critic_train_only = False, sv_use_critic = False, sv_actor_num_nodes = 1,
     sv_actor_num_gpus_per_node = 8, sv_critic_num_nodes = 0, sv_critic_num_gpus_per_node = 0, sv_offload_rollout = True,
     sv_sglang_router_ip = None, sv_sglang_router_port = None\<rparr>"

definition demo_group :: server_group where
  "demo_group = \<lparr>sg_bundle_indices = [0..<8], sg_gpu_ids = [0, 1, 2, 3, 4, 5, 6, 7], sg_all_engines = [Some (demo_engine 0), None],
     sg_num_gpus_per_engine = 4, sg_num_new_engines = 0, sg_worker_type = ''regular'', sg_rank_offset = 0, sg_gpu_offset = 0,
     sg_overrides = [], sg_needs_offload = True, sg_model_path = PStr ''m'', sg_router = None\<rparr>"

definition demo_server :: rollout_server where
  "demo_server = \<lparr>rs_server_groups = [demo_group], rs_router = None, rs_model_name = ''default'', rs_update_weights = True\<rparr>"

lemma demo_dead: "dead_indices demo_group = [1]"
  by (simp add: dead_indices_def demo_group_def upt_rec)

lemma demo_recoverable: "recoverable demo_args demo_group"
  by (simp add: recoverable_def group_fits_def dead_together_def demo_dead nodes_per_engine_def)
    (simp add: demo_group_def demo_args_def)


end
