(* ===== verification/Layout_Rules.thy ===== *)
theory Layout_Rules
  imports Server_Rules
begin

text \<open>
  Where the groups of all models lie: each group has its own ranks and its own GPUs of the placement group,
  one after the other in the order in which the groups are started.
\<close>

section \<open>Groups side by side\<close>

definition group_width :: "serve_args \<Rightarrow> server_group \<Rightarrow> int" where
  "group_width args g = int (length (sg_all_engines g)) * min (sg_num_gpus_per_engine g) (sv_num_gpus_per_node args)"

definition before :: "serve_args \<Rightarrow> server_group \<Rightarrow> server_group \<Rightarrow> bool" where
  "before args g h = (sg_gpu_offset g + group_width args g \<le> sg_gpu_offset h \<and>
     sg_rank_offset g + length (sg_all_engines g) \<le> sg_rank_offset h)"

text \<open>The groups take ranks and GPUs between two pairs of offsets.\<close>

definition laid :: "serve_args \<Rightarrow> server_group list \<Rightarrow> int \<times> int \<Rightarrow> int \<times> int \<Rightarrow> bool" where
  "laid args gs = (\<lambda>(e, x) (e', x'). 0 \<le> e \<and> e \<le> e' \<and> 0 \<le> x \<and> x \<le> x' \<and> sorted_wrt (before args) gs \<and>
     (\<forall>g \<in> set gs. x \<le> sg_gpu_offset g \<and> sg_gpu_offset g + group_width args g \<le> x' \<and>
        e \<le> int (sg_rank_offset g) \<and> int (sg_rank_offset g + length (sg_all_engines g)) \<le> e'))"

lemma laid_Nil: "laid args [] a b \<longleftrightarrow> 0 \<le> fst a \<and> fst a \<le> fst b \<and> 0 \<le> snd a \<and> snd a \<le> snd b"
  by (cases a; cases b) (auto simp: laid_def)

lemma laid_append:
  assumes "laid args gs a b" "laid args hs b c"
  shows "laid args (gs @ hs) a c"
proof -
  obtain a1 a2 b1 b2 c1 c2 where s: "a = (a1, a2)" "b = (b1, b2)" "c = (c1, c2)" by (metis surj_pair)
  have "before args g h" if gh: "g \<in> set gs" "h \<in> set hs" for g h
  proof -
    have "sg_gpu_offset g + group_width args g \<le> b2" "int (sg_rank_offset g + length (sg_all_engines g)) \<le> b1"
      using assms(1) gh(1) by (auto simp: laid_def s)
    moreover have "b2 \<le> sg_gpu_offset h" "b1 \<le> int (sg_rank_offset h)" using assms(2) gh(2) by (auto simp: laid_def s)
    ultimately show ?thesis by (simp add: before_def)
  qed
  then show ?thesis using assms by (fastforce simp: laid_def s sorted_wrt_append)
qed

section \<open>One group\<close>

lemma create_engines_length: "create_engines args g = Inr (new, es) \<Longrightarrow> length es = length (sg_all_engines g)"
proof -
  assume a: "create_engines args g = Inr (new, es)"
  have "(\<lambda>(new, es). length es = length (sg_all_engines g)) (new, es)"
    by (rule foldE_invariant[OF a[unfolded create_engines_def]]) (auto simp: bindE_eq_Inr split: if_splits)
  then show ?thesis by simp
qed

lemma start_engines_same:
  assumes "start_engines w args cs g = Inr (calls, cs', g')"
  shows "length (sg_all_engines g') = length (sg_all_engines g) \<and> sg_num_gpus_per_engine g' = sg_num_gpus_per_engine g \<and>
    sg_gpu_offset g' = sg_gpu_offset g \<and> sg_rank_offset g' = sg_rank_offset g"
  using assms unfolding start_engines_def
  by (auto simp: bindE_eq_Inr Let_def split: if_splits dest!: create_engines_length)

definition sized :: "group_config \<Rightarrow> bool" where
  "sized c = (0 < gc_num_gpus c \<and> (\<exists>n > 0. gc_num_gpus_per_engine c = Some n))"

lemma make_group_laid:
  assumes "make_group args pg router extra cfg offs = Inr (g, offs')" "sized cfg" "0 < sv_num_gpus_per_node args" "0 \<le> fst offs" "0 \<le> snd offs"
  shows "laid args [g] offs offs' \<and> snd offs' = snd offs + gc_num_gpus cfg"
proof -
  obtain n where n: "gc_num_gpus_per_engine cfg = Some n" "0 < n" "0 < gc_num_gpus cfg" using assms(2) by (auto simp: sized_def)
  let ?l = "min n (sv_num_gpus_per_node args)" let ?k = "gc_num_gpus cfg div ?l"
  have l: "0 < ?l" using n assms(3) by simp
  have k: "0 \<le> ?k" using l n(3) by (simp add: pos_imp_zdiv_nonneg_iff)
  have w: "?k * ?l \<le> gc_num_gpus cfg" using l by (metis div_mult_mod_eq le_add_same_cancel1 pos_mod_sign)
  have g: "sg_gpu_offset g = snd offs" "sg_rank_offset g = nat (fst offs)" "sg_num_gpus_per_engine g = n"
    "length (sg_all_engines g) = (if gc_worker_type cfg \<noteq> ''placeholder'' then nat ?k else 0)"
    and o: "fst offs' = fst offs + ?k" "snd offs' = snd offs + gc_num_gpus cfg"
    using assms(1) n(1) l by (cases offs; auto simp: make_group_def Let_def)+
  have "0 \<le> ?k * ?l" using k l by simp
  then show ?thesis using w k n(3) assms(4,5) unfolding laid_def
    by (cases offs; cases offs') (use g o in \<open>auto simp: group_width_def\<close>)
qed

lemma laid_same:
  assumes "laid args [g] a b" "length (sg_all_engines g') = length (sg_all_engines g) \<and> sg_num_gpus_per_engine g' = sg_num_gpus_per_engine g \<and>
    sg_gpu_offset g' = sg_gpu_offset g \<and> sg_rank_offset g' = sg_rank_offset g"
  shows "laid args [g'] a b"
  using assms by (cases a; cases b) (auto simp: laid_def group_width_def)

lemma start_group_laid:
  assumes "start_group w args pg router extra cfg (offs, cs, groups) = Inr (offs', cs', groups')" "sized cfg"
    "0 < sv_num_gpus_per_node args" "0 \<le> fst offs" "0 \<le> snd offs"
  shows "\<exists>g. groups' = groups @ [g] \<and> laid args [g] offs offs' \<and> snd offs' = snd offs + gc_num_gpus cfg"
proof -
  obtain g g' calls where g: "make_group args pg router extra cfg offs = Inr (g, offs')" "start_engines w args cs g = Inr (calls, cs', g')"
    "groups' = groups @ [g']"
    using assms(1) by (auto simp: start_group_def bindE_eq_Inr)
  show ?thesis
    using make_group_laid[OF g(1) assms(2-5)] laid_same start_engines_same[OF g(2)] g(3) by blast
qed

section \<open>The groups of a model\<close>

text \<open>A state reached from another by starting groups that have the given numbers of GPUs.\<close>

definition placed :: "serve_args \<Rightarrow> start_state \<Rightarrow> int \<Rightarrow> start_state \<Rightarrow> bool" where
  "placed args = (\<lambda>(offs, _, groups) n (offs', _, groups'). \<exists>hs. groups' = groups @ hs \<and> laid args hs offs offs' \<and> snd offs' = snd offs + n)"

lemma placed_trans: "placed args s n t \<Longrightarrow> placed args t m u \<Longrightarrow> placed args s (n + m) u"
  by (cases s; cases t; cases u) (auto simp: placed_def intro: laid_append)

lemma placed_bounds: "placed args s n t \<Longrightarrow> 0 \<le> fst (fst t) \<and> 0 \<le> snd (fst t)"
  by (cases s; cases t) (auto simp: placed_def laid_def)

lemma fold_placed:
  assumes "foldE f cs s = Inr t" "\<And>c s t. c \<in> set cs \<Longrightarrow> f c s = Inr t \<Longrightarrow> 0 \<le> fst (fst (h s)) \<Longrightarrow> 0 \<le> snd (fst (h s)) \<Longrightarrow> placed args (h s) (gc_num_gpus c) (h t)"
    "0 \<le> fst (fst (h s))" "0 \<le> snd (fst (h s))"
  shows "placed args (h s) (sum_list (map gc_num_gpus cs)) (h t)"
  using assms
proof (induction cs arbitrary: s)
  case Nil
  then show ?case by (cases "h s") (auto simp: placed_def laid_Nil)
next
  case (Cons c cs)
  obtain u where u: "f c s = Inr u" "foldE f cs u = Inr t" using Cons.prems(1) by (auto simp: bindE_eq_Inr)
  have p: "placed args (h s) (gc_num_gpus c) (h u)" using Cons.prems(2)[OF _ u(1)] Cons.prems(3,4) by simp
  have "placed args (h u) (sum_list (map gc_num_gpus cs)) (h t)"
    using Cons.IH[OF u(2)] Cons.prems(2) placed_bounds[OF p] by simp
  with p show ?case by (auto dest: placed_trans)
qed

lemma start_group_placed:
  assumes "start_group w args pg router extra c s = Inr t" "sized c" "0 < sv_num_gpus_per_node args" "0 \<le> fst (fst s)" "0 \<le> snd (fst s)"
  shows "placed args s (gc_num_gpus c) t"
  using assms start_group_laid[of w args pg router extra c] by (cases s; cases t) (fastforce simp: placed_def)

lemma start_model_laid:
  assumes "start_model w args pg url router m prev offs = Inr (srv, prev', offs')" "\<forall>c \<in> set (mc_server_groups m). sized c"
    "0 < sv_num_gpus_per_node args" "0 \<le> fst offs" "0 \<le> snd offs"
  shows "laid args (rs_server_groups srv) offs offs' \<and> snd offs' = snd offs + model_num_gpus m"
proof -
  let ?enc = "\<lambda>c. gc_worker_type c = ''encoder''" let ?cs = "mc_server_groups m"
  have "\<exists>st. placed args (offs, [], []) (model_num_gpus m) st \<and> offs' = fst st \<and> rs_server_groups srv = snd (snd st)"
  proof (cases "model_has_encoder m")
    case True
    then obtain st urls st' where 1: "foldE (start_encoder w args pg url router) (filter ?enc ?cs) ((offs, [], []), []) = Inr (st, urls)"
      and 2: "foldE (\<lambda>c. start_group w args pg router (prefill_extra urls c) c) (filter (\<lambda>c. \<not> ?enc c) ?cs) st = Inr st'"
      and r: "offs' = fst st'" "rs_server_groups srv = snd (snd st')"
      using assms(1) by (auto simp: start_model_def bindE_eq_Inr Let_def)
    have "placed args (fst ((offs, [], []), [] :: pyval list)) (sum_list (map gc_num_gpus (filter ?enc ?cs))) (fst (st, urls))"
    proof (rule fold_placed[where h = fst, OF 1])
      show "placed args (fst s) (gc_num_gpus c) (fst t)"
        if "c \<in> set (filter ?enc ?cs)" "start_encoder w args pg url router c s = Inr t" "0 \<le> fst (fst (fst s))" "0 \<le> snd (fst (fst s))" for c s t
        using that assms(2,3) by (cases s) (auto simp: start_encoder_def bindE_eq_Inr intro!: start_group_placed)
    qed (use assms in simp_all)
    then have p1: "placed args (offs, [], []) (sum_list (map gc_num_gpus (filter ?enc ?cs))) st" by simp
    have p2: "placed args st (sum_list (map gc_num_gpus (filter (\<lambda>c. \<not> ?enc c) ?cs))) st'"
      by (rule fold_placed[where h = "\<lambda>x. x", OF 2]) (use assms placed_bounds[OF p1] in \<open>auto intro: start_group_placed\<close>)
    have "model_num_gpus m = sum_list (map gc_num_gpus (filter ?enc ?cs)) + sum_list (map gc_num_gpus (filter (\<lambda>c. \<not> ?enc c) ?cs))"
    proof -
      have "sum_list (map gc_num_gpus cs) = sum_list (map gc_num_gpus (filter ?enc cs)) + sum_list (map gc_num_gpus (filter (\<lambda>c. \<not> ?enc c) cs))" for cs
        by (induction cs) simp_all
      then show ?thesis by (simp add: model_num_gpus_def)
    qed
    then have "placed args (offs, [], []) (model_num_gpus m) st'" using placed_trans[OF p1 p2] by simp
    then show ?thesis using r by blast
  next
    case False
    then obtain st where 1: "foldE (start_group w args pg router []) ?cs (offs, [], []) = Inr st"
      and r: "offs' = fst st" "rs_server_groups srv = snd (snd st)"
      using assms(1) by (auto simp: start_model_def bindE_eq_Inr Let_def)
    have "placed args (offs, [], []) (model_num_gpus m) st" unfolding model_num_gpus_def
      by (rule fold_placed[where h = "\<lambda>x. x", OF 1]) (use assms in \<open>auto intro: start_group_placed\<close>)
    then show ?thesis using r by blast
  qed
  then show ?thesis by (auto simp: placed_def)
qed

section \<open>All models\<close>

definition counts_positive :: "serve_args \<Rightarrow> model_config \<Rightarrow> bool" where
  "counts_positive args m = (0 < or_int (mc_num_gpus_per_engine m) (sv_rollout_num_gpus_per_engine args) \<and>
     (\<forall>g \<in> set (mc_server_groups m). \<forall>n. gc_num_gpus_per_engine g = Some n \<longrightarrow> 0 < n))"

lemma resolve_sized:
  assumes "resolve args m = Inr m'" "counts_positive args m" "\<forall>g \<in> set (mc_server_groups m). 0 < gc_num_gpus g"
  shows "(\<forall>c \<in> set (mc_server_groups m'). sized c) \<and> model_num_gpus m' = model_num_gpus m \<and> mc_name m' = mc_name m"
proof -
  let ?r = "resolve_group (or_int (mc_num_gpus_per_engine m) (sv_rollout_num_gpus_per_engine args)) (or_str (mc_model_path m) (sv_hf_checkpoint args))"
  have m': "mc_server_groups m' = map ?r (mc_server_groups m)" "mc_name m' = mc_name m"
    using assms(1) by (auto simp: resolve_def bindE_eq_Inr Let_def split: if_splits)
  have n: "gc_num_gpus (?r c) = gc_num_gpus c" for c by (simp add: resolve_group_def Let_def)
  have "sized (?r c)" if "c \<in> set (mc_server_groups m)" for c
    using that assms(2,3) by (auto simp: sized_def n) (auto simp: counts_positive_def resolve_group_def Let_def)
  then show ?thesis using m' n by (auto simp: model_num_gpus_def comp_def)
qed

lemma dset_fresh: "k \<notin> fst ` set d \<Longrightarrow> dset k v d = d @ [(k, v)]"
  by (induction d) auto

lemma patched_same: "sv_num_gpus_per_node (patched args) = sv_num_gpus_per_node args"
    "sv_rollout_num_gpus_per_engine (patched args) = sv_rollout_num_gpus_per_engine args"
  by (simp_all add: patched_def)

lemma laid_patched: "laid (patched args) = laid args"
  unfolding laid_def before_def[abs_def] group_width_def patched_same ..

definition all_groups :: "(string, rollout_server) dict \<Rightarrow> server_group list" where
  "all_groups servers = concat (map (\<lambda>(_, s). rs_server_groups s) servers)"

lemma models_laid:
  assumes "foldE (\<lambda>(i, m) (servers, prev, offs). bindE (resolve args m) (\<lambda>m.
         bindE (start_model w args pg url (routers i) m prev offs) (\<lambda>(srv, prev, offs). Inr (dset (mc_name m) srv servers, prev, offs))))
       ims (servers, prev, offs) = Inr (servers', prev', offs')"
    "\<forall>(i, m) \<in> set ims. counts_positive args m \<and> (\<forall>g \<in> set (mc_server_groups m). 0 < gc_num_gpus g)" "0 < sv_num_gpus_per_node args"
    "distinct (map fst servers @ map (mc_name \<circ> snd) ims)" "laid args (all_groups servers) (0, 0) offs"
  shows "map fst servers' = map fst servers @ map (mc_name \<circ> snd) ims \<and> laid args (all_groups servers') (0, 0) offs' \<and>
    snd offs' = snd offs + config_num_gpus (map snd ims)"
  using assms
proof (induction ims arbitrary: servers prev offs)
  case (Cons im ims)
  obtain i m where im: "im = (i, m)" by (cases im)
  obtain m' srv prev1 e1 x1 where 1: "resolve args m = Inr m'" "start_model w args pg url (routers i) m' prev offs = Inr (srv, prev1, (e1, x1))"
    and 2: "foldE (\<lambda>(i, m) (servers, prev, offs). bindE (resolve args m) (\<lambda>m.
         bindE (start_model w args pg url (routers i) m prev offs) (\<lambda>(srv, prev, offs). Inr (dset (mc_name m) srv servers, prev, offs))))
       ims (dset (mc_name m') srv servers, prev1, (e1, x1)) = Inr (servers', prev', offs')"
    using Cons.prems(1) by (simp only: im foldE.simps prod.case bindE_eq_Inr) (elim exE conjE, clarsimp simp: bindE_eq_Inr)
  let ?offs1 = "(e1, x1)"
  have m: "\<forall>c \<in> set (mc_server_groups m'). sized c" "model_num_gpus m' = model_num_gpus m" "mc_name m' = mc_name m"
    using resolve_sized[OF 1(1)] Cons.prems(2) im by auto
  have b: "0 \<le> fst offs" "0 \<le> snd offs" using Cons.prems(5) by (cases offs; auto simp: laid_def)+
  have l: "laid args (rs_server_groups srv) offs ?offs1 \<and> snd ?offs1 = snd offs + model_num_gpus m"
    using start_model_laid[OF 1(2) m(1) Cons.prems(3) b] unfolding m(2) .
  have d: "dset (mc_name m') srv servers = servers @ [(mc_name m, srv)]"
    unfolding m(3) using Cons.prems(4) im by (intro dset_fresh) auto
  have "laid args (all_groups (servers @ [(mc_name m, srv)])) (0, 0) ?offs1"
    using laid_append[OF Cons.prems(5), of "rs_server_groups srv" ?offs1] l by (simp add: all_groups_def)
  with Cons.IH[OF 2[unfolded d]] Cons.prems(2-4) im show ?case
    using l by (auto simp: config_num_gpus_def)
qed (simp add: config_num_gpus_def)

text \<open>C32. Starting the servers of a valid configuration gives one server per model; the engines of all groups get
  pairwise disjoint ranges of ranks and of GPUs, in order, and all ranges lie within the GPUs for rollout.\<close>

theorem groups_disjoint:
  assumes "start_rollout_servers w args pg url routers = Inr servers" "resolve_sglang_config args = Inr config"
    "distinct (map mc_name config)" "0 < sv_num_gpus_per_node args" "\<forall>m \<in> set config. counts_positive args m"
  shows "map fst servers = map mc_name config \<and> sorted_wrt (before args) (all_groups servers) \<and>
    (\<forall>g \<in> set (all_groups servers). 0 \<le> sg_gpu_offset g \<and> sg_gpu_offset g + group_width args g \<le> sv_rollout_num_gpus args)"
proof -
  let ?a = "patched args"
  obtain prev' offs' where f: "foldE (\<lambda>(i, m) (servers, prev, offs). bindE (resolve ?a m) (\<lambda>m.
         bindE (start_model w ?a pg url (routers i) m prev offs) (\<lambda>(srv, prev, offs). Inr (dset (mc_name m) srv servers, prev, offs))))
       (enumerate_list config) ([], None, (0, 0)) = Inr (servers, prev', offs')"
    using assms(1,2) by (auto simp: start_rollout_servers_def bindE_eq_Inr Let_def)
  have snd_e: "map snd (enumerate_list config) = config" by (simp add: enumerate_list_def)
  then have names: "map (mc_name \<circ> snd) (enumerate_list config) = map mc_name config" by (metis map_map)
  have ok: "config_ok config" "config_num_gpus config = sv_rollout_num_gpus args" using resolved_config_ok[OF assms(2)] by auto
  have cs: "\<forall>(i, m) \<in> set (enumerate_list config). counts_positive ?a m \<and> (\<forall>g \<in> set (mc_server_groups m). 0 < gc_num_gpus g)"
  proof clarify
    fix i m assume "(i, m) \<in> set (enumerate_list config)"
    then have "m \<in> set config" by (metis snd_e image_eqI list.set_map snd_conv)
    then show "counts_positive ?a m \<and> (\<forall>g \<in> set (mc_server_groups m). 0 < gc_num_gpus g)"
      using assms(5) ok(1) by (auto simp: counts_positive_def patched_same config_ok_def)
  qed
  have "distinct (map fst ([] :: (string, rollout_server) dict) @ map (mc_name \<circ> snd) (enumerate_list config))"
    using assms(3) by (simp only: names list.map append.simps)
  moreover have "laid ?a (all_groups []) (0, 0) (0, 0)" by (simp add: all_groups_def laid_Nil)
  ultimately have "map fst servers = map mc_name config" "laid args (all_groups servers) (0, 0) offs'" "snd offs' = sv_rollout_num_gpus args"
    using models_laid[OF f cs] assms(4) by (auto simp: patched_same laid_patched names snd_e ok(2))
  then show ?thesis by (cases offs') (auto simp: laid_def)
qed

definition split_args :: serve_args where
  "split_args = demo_args\<lparr>sv_rollout_num_gpus := 4, sv_rollout_num_gpus_per_engine := 2, sv_prefill_num_servers := Some 1,
     sv_rollout_external := True, sv_rollout_external_engine_addrs := [''a:1'', ''a:2'']\<rparr>"

definition split_cfg :: "string \<Rightarrow> int option \<Rightarrow> (string, pyval) dict \<Rightarrow> group_config" where
  "split_cfg t n ov = \<lparr>gc_worker_type = t, gc_num_gpus = 2, gc_num_gpus_per_engine = n, gc_overrides = ov\<rparr>"

definition split_config :: "model_config list" where
  "split_config = [plain_model [split_cfg ''prefill'' None [], split_cfg ''decode'' None []]]"

lemma split_config_resolved: "resolve_sglang_config split_args = Inr split_config"
  by (simp add: resolve_sglang_config_def split_args_def demo_args_def from_prefill_num_servers_def new_group_config_def
      valid_types_def split_config_def split_cfg_def)

abbreviation split_path :: "(string, pyval) dict" where
  "split_path \<equiv> [(''model_path'', PStr ''m'')]"

definition split_model :: model_config where
  "split_model = (plain_model [split_cfg ''prefill'' (Some 2) split_path, split_cfg ''decode'' (Some 2) split_path])\<lparr>mc_update_weights := Some True\<rparr>"

lemma split_model_resolved: "resolve split_args (plain_model [split_cfg ''prefill'' None [], split_cfg ''decode'' None []]) = Inr split_model"
  by (simp add: resolve_def plain_model_def split_args_def demo_args_def resolve_group_def group_model_path_def or_int_def or_str_def
      split_model_def split_cfg_def Let_def)

definition split_place :: placement where
  "split_place = \<lparr>pl_bundle_indices = [0, 1, 2, 3], pl_gpu_ids = [0, 1, 2, 3]\<rparr>"

definition split_group :: "string \<Rightarrow> nat \<Rightarrow> engine option \<Rightarrow> nat \<Rightarrow> server_group" where
  "split_group t k e n = \<lparr>sg_bundle_indices = [0, 1, 2, 3], sg_gpu_ids = [0, 1, 2, 3], sg_all_engines = [e],
     sg_num_gpus_per_engine = 2, sg_num_new_engines = n, sg_worker_type = t, sg_rank_offset = k, sg_gpu_offset = 2 * int k,
     sg_overrides = split_path, sg_needs_offload = True, sg_model_path = PStr ''m'', sg_router = None\<rparr>"

lemma split_make_group:
  assumes "t \<noteq> ''placeholder''" "k < 4"
  shows "make_group split_args split_place None [] (split_cfg t (Some 2) split_path) (int k, 2 * int k) =
    Inr (split_group t k None 0, (int k + 1, 2 * int k + 2))"
  using assms by (simp add: make_group_def split_cfg_def split_args_def demo_args_def compute_rollout_offset_def compute_megatron_num_gpus_def
      dget_default_def split_place_def split_group_def Let_def)

lemma split_start:
  assumes "t \<in> {''prefill'', ''decode''}" "k < 2"
  shows "\<exists>e calls. start_engines demo_world split_args [] (split_group t k None 0) = Inr (calls, [], split_group t k (Some e) 1)"
proof -
  let ?k = "2 * k"
  have n: "py_nth [0, 1, 2, 3 :: int] (2 * int k) = Inr (2 * int k)" "py_nth [0, 1, 2, 3 :: nat] (2 * int k) = Inr ?k"
    using assms(2) by (auto simp: less_Suc_eq numeral_2_eq_2 py_nth_def)
  obtain e where c: "create_engines split_args (split_group t k None 0) = Inr ([(k, e)], [Some e])"
    using n by (simp add: create_engines_def create_engine_def split_group_def split_args_def demo_args_def)
  have "\<exists>a. allocate_external split_args [(k, e)] = Inr [(k, a)]"
    using assms(2) by (auto simp: less_Suc_eq numeral_2_eq_2 allocate_external_def split_args_def py_nth_def int_of_string_def space_def digit_def)
  then obtain a where a: "allocate_external split_args [(k, e)] = Inr [(k, a)]" by blast
  have b: "\<not> sv_debug_train_only split_args" "sv_rollout_external split_args" by (simp_all add: split_args_def demo_args_def)
  show ?thesis using b assms(1) unfolding start_engines_def c bindE_simps prod.case Let_def
    by (auto simp: a dget_def split_group_def)
qed

lemma split_start_group:
  assumes "t \<in> {''prefill'', ''decode''}" "k < 2"
  shows "\<exists>e. start_group demo_world split_args split_place None [] (split_cfg t (Some 2) split_path) ((int k, 2 * int k), [], gs) =
    Inr ((int k + 1, 2 * int k + 2), [], gs @ [split_group t k (Some e) 1])"
proof -
  obtain e calls where "start_engines demo_world split_args [] (split_group t k None 0) = Inr (calls, [], split_group t k (Some e) 1)"
    using split_start[OF assms] by blast
  then show ?thesis using split_make_group[of t k] assms by (auto simp: start_group_def)
qed

lemma split_servers: "\<exists>servers. start_rollout_servers demo_world split_args split_place (\<lambda>_. PNone) (\<lambda>_. None) = Inr servers \<and>
    map sg_gpu_offset (all_groups servers) = [0, 2]"
proof -
  obtain e where e: "start_group demo_world split_args split_place None [] (split_cfg ''prefill'' (Some 2) split_path) ((0, 0), [], []) =
      Inr ((1, 2), [], [split_group ''prefill'' 0 (Some e) 1])"
    using split_start_group[of "''prefill''" 0 "[]"] by auto
  obtain f where f: "start_group demo_world split_args split_place None [] (split_cfg ''decode'' (Some 2) split_path) ((1, 2), [], [split_group ''prefill'' 0 (Some e) 1]) =
      Inr ((2, 4), [], [split_group ''prefill'' 0 (Some e) 1, split_group ''decode'' 1 (Some f) 1])"
    using split_start_group[of "''decode''" 1 "[split_group ''prefill'' 0 (Some e) 1]"] by auto
  have enc: "\<not> model_has_encoder split_model" by (simp add: model_has_encoder_def split_model_def plain_model_def split_cfg_def)
  have g: "py_nth (group_engines split_args (split_group ''decode'' 1 (Some f) 1)) 0 = Inr (Some f)"
    by (simp add: group_engines_def every_nth_def nodes_per_engine_def split_group_def split_args_def demo_args_def py_nth_def)
  have m: "mc_server_groups split_model = [split_cfg ''prefill'' (Some 2) split_path, split_cfg ''decode'' (Some 2) split_path]"
    by (simp add: split_model_def plain_model_def)
  then obtain srv prev offs where srv: "start_model demo_world split_args split_place (\<lambda>_. PNone) None split_model None (0, 0) = Inr (srv, prev, offs)"
      "rs_server_groups srv = [split_group ''prefill'' 0 (Some e) 1, split_group ''decode'' 1 (Some f) 1]"
    using enc g by (simp add: start_model_def e f Let_def del: One_nat_def)
  have "patched split_args = split_args" "mc_name split_model = ''default''"
    by (simp_all add: patched_def split_args_def demo_args_def split_model_def plain_model_def)
  then have "start_rollout_servers demo_world split_args split_place (\<lambda>_. PNone) (\<lambda>_. None) = Inr [(''default'', srv)]"
    unfolding start_rollout_servers_def split_config_resolved split_config_def
    by (simp add: enumerate_list_def split_model_resolved srv(1))
  moreover have "map sg_gpu_offset (all_groups [(''default'', srv)]) = [0, 2]"
    by (simp add: all_groups_def srv(2)) (simp add: split_group_def)
  ultimately show ?thesis by (intro exI conjI)
qed

theorem groups_disjoint_witness:
  "\<exists>servers. start_rollout_servers demo_world split_args split_place (\<lambda>_. PNone) (\<lambda>_. None) = Inr servers \<and>
    map sg_gpu_offset (all_groups servers) = [0, 2] \<and> sorted_wrt (before split_args) (all_groups servers)"
proof -
  obtain servers where s: "start_rollout_servers demo_world split_args split_place (\<lambda>_. PNone) (\<lambda>_. None) = Inr servers"
    "map sg_gpu_offset (all_groups servers) = [0, 2]" using split_servers by (elim exE conjE) (rule that)
  have c: "distinct (map mc_name split_config)" "0 < sv_num_gpus_per_node split_args" "\<forall>m \<in> set split_config. counts_positive split_args m"
    by (simp_all add: split_config_def split_cfg_def split_args_def demo_args_def plain_model_def counts_positive_def or_int_def)
  show ?thesis by (rule exI, rule conjI[OF s(1)], rule conjI[OF s(2)]) (rule conjunct1[OF conjunct2[OF groups_disjoint[OF s(1) split_config_resolved c]]])
qed

end
