(* ===== verification/Health_Monitor.thy ===== *)
theory Health_Monitor
  imports Server_Rules
begin

text \<open>
  \<open>utils/health_monitor.py\<close>: the thread that checks the engines of a group and kills those that do not
  answer, against the operations that other threads call.  Every test of a shared attribute or event and every
  write is one step; a call of \<open>wait\<close> begins in the step of the test before it.  An attribute holding an event is \<open>None\<close> or whether the event is set.  Calls to an
  engine and waits return at last (they have timeouts); how an engine answers is a parameter.
\<close>

section \<open>The state\<close>

text \<open>Where the thread is.  \<open>First_Wait\<close> and \<open>Interval\<close> are inside a call of \<open>wait\<close>.\<close>

datatype pc =
    Off | At_Loop | Pause_Test | Pause_Stop | Stop_Test | First_Test | First_Wait | First_Pause | Need_Clear
  | Run_Pause | Run_Stop
  | Check "engine option list" nat | Check_Pause "engine option list" nat
  | Health "engine option list" nat engine | Kill "engine option list" nat nat
  | Interval | Exited | Crashed

record monitor =
  hm_engines :: "engine option list"
  hm_thread :: bool
  hm_stop :: "bool option"
  hm_pause :: "bool option"
  hm_need_first_wait :: bool
  hm_enabled :: bool
  hm_pc :: pc

definition new_monitor :: "engine option list \<Rightarrow> monitor" where
  "new_monitor es = \<lparr>hm_engines = es, hm_thread = False, hm_stop = None, hm_pause = None, hm_need_first_wait = True,
     hm_enabled = False, hm_pc = Off\<rparr>"

section \<open>The thread\<close>

text \<open>\<open>event.is_set()\<close> on an attribute that may be \<open>None\<close> by now.\<close>

definition test :: "bool option \<Rightarrow> pc \<Rightarrow> pc \<Rightarrow> pc" where
  "test flag if_set if_clear = (case flag of None \<Rightarrow> Crashed | Some b \<Rightarrow> if b then if_set else if_clear)"

definition enter_wait :: "bool option \<Rightarrow> pc \<Rightarrow> pc" where
  "enter_wait flag p = (case flag of None \<Rightarrow> Crashed | Some _ \<Rightarrow> p)"

text \<open>\<open>wait\<close> returns whether the event it was called on is set; only \<open>stop\<close> makes the attribute \<open>None\<close>, after setting the event.\<close>

definition waited :: "bool option \<Rightarrow> pc \<Rightarrow> pc" where
  "waited flag if_clear = (if flag = Some False then if_clear else Exited)"

definition next_pc :: "nat \<Rightarrow> (engine \<Rightarrow> bool) \<Rightarrow> monitor \<Rightarrow> pc" where
  "next_pc n healthy s =
     (case hm_pc s of
        Off \<Rightarrow> Off | Exited \<Rightarrow> Exited | Crashed \<Rightarrow> Crashed
      | At_Loop \<Rightarrow> test (hm_stop s) Exited Pause_Test
      | Pause_Test \<Rightarrow> test (hm_pause s) Pause_Stop Stop_Test
      | Pause_Stop \<Rightarrow> test (hm_stop s) Stop_Test Pause_Test
      | Stop_Test \<Rightarrow> test (hm_stop s) Exited First_Test
      | First_Test \<Rightarrow> if hm_need_first_wait s then enter_wait (hm_stop s) First_Wait else Run_Pause
      | First_Wait \<Rightarrow> waited (hm_stop s) First_Pause
      | First_Pause \<Rightarrow> test (hm_pause s) At_Loop Need_Clear
      | Need_Clear \<Rightarrow> Run_Pause
      | Run_Pause \<Rightarrow> test (hm_pause s) (enter_wait (hm_stop s) Interval) Run_Stop
      | Run_Stop \<Rightarrow> test (hm_stop s) Interval (Check (every_nth n (hm_engines s)) 0)
      | Check es i \<Rightarrow> if i \<ge> length es \<or> hm_stop s = Some True then enter_wait (hm_stop s) Interval else Check_Pause es i
      | Check_Pause es i \<Rightarrow>
          if hm_pause s = Some True then enter_wait (hm_stop s) Interval
          else (case es ! i of None \<Rightarrow> Check es (i + 1) | Some e \<Rightarrow> Health es i e)
      | Health es i e \<Rightarrow> if healthy e then Check es (i + 1) else Kill es i (i * n)
      | Kill es i k \<Rightarrow>
          if k \<ge> (i + 1) * n then Check es (i + 1)
          else if k \<ge> length (hm_engines s) then Crashed else Kill es i (k + 1)
      | Interval \<Rightarrow> waited (hm_stop s) At_Loop)"

text \<open>An engine is shut down and killed, if there is one at the place, and its place becomes empty.\<close>

definition thread_step :: "nat \<Rightarrow> (engine \<Rightarrow> bool) \<Rightarrow> monitor \<Rightarrow> monitor" where
  "thread_step n healthy s =
     (let s' = s\<lparr>hm_pc := next_pc n healthy s\<rparr> in
      case hm_pc s of
        Need_Clear \<Rightarrow> s'\<lparr>hm_need_first_wait := False\<rparr>
      | Kill es i k \<Rightarrow> if k < (i + 1) * n \<and> k < length (hm_engines s) then s'\<lparr>hm_engines := (hm_engines s)[k := None]\<rparr> else s'
      | _ \<Rightarrow> s')"

section \<open>The operations of other threads\<close>

definition start_monitor :: "monitor \<Rightarrow> bool \<times> monitor" where
  "start_monitor s =
     (if hm_engines s = [] then (False, s)
      else if hm_thread s then (True, s)
      else (True, s\<lparr>hm_stop := Some False, hm_pause := Some True, hm_thread := True, hm_pc := At_Loop\<rparr>))"

definition pause_monitor :: "monitor \<Rightarrow> monitor" where
  "pause_monitor s = (if hm_pause s = None then s else s\<lparr>hm_pause := Some True, hm_enabled := False\<rparr>)"

definition resume_monitor :: "monitor \<Rightarrow> monitor" where
  "resume_monitor s = (if hm_pause s = None then s else s\<lparr>hm_need_first_wait := True, hm_pause := Some False, hm_enabled := True\<rparr>)"

text \<open>\<open>stop\<close> sets the event, then joins the thread for a limited time, then forgets thread and events.\<close>

definition request_stop :: "monitor \<Rightarrow> monitor" where
  "request_stop s = (if \<not> hm_thread s then s
     else s\<lparr>hm_stop := Some True, hm_pause := (if hm_pause s = None then None else Some False)\<rparr>)"

definition forget_thread :: "monitor \<Rightarrow> monitor" where
  "forget_thread s = (if \<not> hm_thread s then s else s\<lparr>hm_thread := False, hm_stop := None, hm_pause := None, hm_enabled := False\<rparr>)"

definition thread_ended :: "monitor \<Rightarrow> bool" where
  "thread_ended s = (hm_pc s \<in> {Off, Exited, Crashed})"

definition killing :: "monitor \<Rightarrow> bool" where
  "killing s = (case hm_pc s of Kill es i k \<Rightarrow> True | _ \<Rightarrow> False)"

text \<open>A recovery fills the empty places.\<close>

definition refilled :: "engine option list \<Rightarrow> engine option list \<Rightarrow> bool" where
  "refilled es es' = (length es' = length es \<and> (\<forall>i < length es. es' ! i \<noteq> None \<and> (es ! i \<noteq> None \<longrightarrow> es' ! i = es ! i)))"

text \<open>Steps of the thread and of its environment in any order; \<open>atomic\<close> says that no recovery starts in the middle of a
  kill and that \<open>stop\<close> waits until the thread has ended.\<close>

inductive monitor_step :: "bool \<Rightarrow> nat \<Rightarrow> monitor \<Rightarrow> monitor \<Rightarrow> bool" for "atomic" :: bool and n :: nat where
  Thread: "monitor_step atomic n s (thread_step n healthy s)"
| Start: "thread_ended s \<Longrightarrow> monitor_step atomic n s (snd (start_monitor s))"
| Pause: "monitor_step atomic n s (pause_monitor s)"
| Resume: "monitor_step atomic n s (resume_monitor s)"
| Request_Stop: "monitor_step atomic n s (request_stop s)"
| Forget: "atomic \<longrightarrow> thread_ended s \<Longrightarrow> monitor_step atomic n s (forget_thread s)"
| Recover: "atomic \<longrightarrow> \<not> killing s \<Longrightarrow> refilled (hm_engines s) es \<Longrightarrow> monitor_step atomic n s (s\<lparr>hm_engines := es\<rparr>)"

inductive reaches :: "bool \<Rightarrow> nat \<Rightarrow> monitor \<Rightarrow> monitor \<Rightarrow> bool" for "atomic" :: bool and n :: nat where
  refl: "reaches atomic n s s"
| step: "reaches atomic n s t \<Longrightarrow> monitor_step atomic n t u \<Longrightarrow> reaches atomic n s u"

inductive_cases monitor_stepE: "monitor_step a n s t"

end
