(* ===== verification/Health_Rules.thy ===== *)
theory Health_Rules
  imports Health_Monitor
begin

text \<open>
  The health monitor: what it leaves of the engines can always be recovered, it does nothing new while it is
  paused, and while it runs it finds and removes an engine that no longer answers.
\<close>

section \<open>The invariant\<close>

definition first_place :: "nat \<Rightarrow> nat \<Rightarrow> nat" where
  "first_place n k = k - k mod n"

definition dead_closed :: "nat \<Rightarrow> engine option list \<Rightarrow> bool" where
  "dead_closed n es = (\<forall>k < length es. es ! k = None \<longrightarrow> es ! first_place n k = None)"

definition pc_ok :: "nat \<Rightarrow> nat \<Rightarrow> pc \<Rightarrow> bool" where
  "pc_ok n l p = (case p of
       Check es i \<Rightarrow> length es * n = l
     | Check_Pause es i \<Rightarrow> length es * n = l \<and> i < length es
     | Health es i e \<Rightarrow> length es * n = l \<and> i < length es \<and> es ! i = Some e
     | Kill es i k \<Rightarrow> length es * n = l \<and> i < length es \<and> i * n \<le> k \<and> k \<le> (i + 1) * n
     | _ \<Rightarrow> True)"

definition monitor_ok :: "nat \<Rightarrow> monitor \<Rightarrow> bool" where
  "monitor_ok n s = (0 < n \<and> n dvd length (hm_engines s) \<and> pc_ok n (length (hm_engines s)) (hm_pc s))"

text \<open>What holds besides when recovery and \<open>stop\<close> wait for the thread.\<close>

definition killed_up_to :: "nat \<Rightarrow> engine option list \<Rightarrow> pc \<Rightarrow> bool" where
  "killed_up_to n es p = (case p of Kill snap i k \<Rightarrow> \<forall>m. i * n \<le> m \<and> m < k \<longrightarrow> es ! m = None | _ \<Rightarrow> True)"

definition atomic_ok :: "nat \<Rightarrow> monitor \<Rightarrow> bool" where
  "atomic_ok n s = (dead_closed n (hm_engines s) \<and> hm_pc s \<noteq> Crashed \<and>
     (\<not> thread_ended s \<longrightarrow> hm_stop s \<noteq> None \<and> hm_pause s \<noteq> None) \<and>
     killed_up_to n (hm_engines s) (hm_pc s))"

lemma every_nth_length:
  assumes "0 < n" "n dvd length xs"
  shows "length (every_nth n xs) * n = length xs"
proof -
  obtain k where k: "length xs = n * k" using assms(2) by (auto simp: dvd_def)
  have "n * k + n - 1 = (n - 1) + k * n" using assms(1) by (simp add: mult.commute[of k])
  then have "(n * k + n - 1) div n = k" using assms(1) by (simp only: div_mult_self1) simp
  then show ?thesis by (simp add: every_nth_def k)
qed

lemma op_same [simp]:
  "hm_pc (pause_monitor s) = hm_pc s" "hm_engines (pause_monitor s) = hm_engines s"
  "hm_pc (resume_monitor s) = hm_pc s" "hm_engines (resume_monitor s) = hm_engines s"
  "hm_pc (request_stop s) = hm_pc s" "hm_engines (request_stop s) = hm_engines s"
  "hm_pc (forget_thread s) = hm_pc s" "hm_engines (forget_thread s) = hm_engines s"
  "hm_engines (snd (start_monitor s)) = hm_engines s"
  "hm_pc (snd (start_monitor s)) \<in> {hm_pc s, At_Loop}"
  by (simp_all add: pause_monitor_def resume_monitor_def request_stop_def forget_thread_def start_monitor_def)

lemma thread_engines: "hm_engines (thread_step n h s) = (case hm_pc s of Kill es i k \<Rightarrow>
    if k < (i + 1) * n \<and> k < length (hm_engines s) then (hm_engines s)[k := None] else hm_engines s | _ \<Rightarrow> hm_engines s)"
  by (simp add: thread_step_def Let_def split: pc.split)

lemma thread_pc: "hm_pc (thread_step n h s) = next_pc n h s"
  by (simp add: thread_step_def Let_def split: pc.split)

lemma thread_flags [simp]: "hm_stop (thread_step n h s) = hm_stop s" "hm_pause (thread_step n h s) = hm_pause s"
    "hm_thread (thread_step n h s) = hm_thread s" "length (hm_engines (thread_step n h s)) = length (hm_engines s)"
  by (simp_all add: thread_step_def Let_def split: pc.split)

lemma kill_in_range:
  assumes "pc_ok n l (Kill es i k)"
  shows "(i + 1) * n \<le> l"
proof -
  have "(i + 1) * n \<le> length es * n" using assms by (intro mult_le_mono1) (auto simp: pc_ok_def)
  then show ?thesis using assms by (simp add: pc_ok_def)
qed

lemmas pc_simps = test_def enter_wait_def waited_def

lemma next_pc_ok:
  assumes "monitor_ok n s"
  shows "pc_ok n (length (hm_engines s)) (next_pc n h s)"
  using assms every_nth_length[of n "hm_engines s"]
  by (cases "hm_pc s") (auto simp: monitor_ok_def pc_ok_def next_pc_def pc_simps not_le split: option.splits)

lemma next_pc_runs:
  assumes "hm_stop s = Some b" "hm_pause s = Some c" "monitor_ok n s" "hm_pc s \<noteq> Crashed"
  shows "next_pc n h s \<noteq> Crashed"
proof (cases "hm_pc s")
  case (Kill es i k)
  then show ?thesis using assms(3) kill_in_range[of n "length (hm_engines s)" es i k] by (simp add: next_pc_def monitor_ok_def)
qed (use assms in \<open>auto simp: next_pc_def pc_simps split: option.splits\<close>)

lemma step_ok: "monitor_step a n s t \<Longrightarrow> monitor_ok n s \<Longrightarrow> monitor_ok n t"
proof (induction rule: monitor_step.induct)
  case (Thread s h)
  then show ?case using next_pc_ok[of n s h] by (simp add: monitor_ok_def thread_pc)
next
  case (Recover s es)
  then show ?case by (simp add: monitor_ok_def refilled_def)
next
  case (Start s)
  then show ?case using op_same(10)[of s] by (auto simp: monitor_ok_def pc_ok_def)
qed (simp_all add: monitor_ok_def)

lemma reaches_ok:
  assumes "reaches a n (new_monitor es) s" "0 < n" "n dvd length es"
  shows "monitor_ok n s"
  using assms(1)
proof (induction "new_monitor es" s rule: reaches.induct)
  case refl
  then show ?case using assms(2,3) by (simp add: monitor_ok_def new_monitor_def pc_ok_def)
qed (auto intro: step_ok)

lemma reaches_length: "reaches a n s t \<Longrightarrow> length (hm_engines t) = length (hm_engines s)"
proof (induction rule: reaches.induct)
  case (step s t u)
  from step(2) have "length (hm_engines u) = length (hm_engines t)"
    by (cases rule: monitor_step.cases) (auto simp: refilled_def)
  then show ?case using step by simp
qed simp

section \<open>What is dead is dead as a whole\<close>

lemma first_place_le: "first_place n k \<le> k"
  by (simp add: first_place_def)

lemma first_place_eq: "0 < n \<Longrightarrow> i * n \<le> k \<Longrightarrow> k < (i + 1) * n \<Longrightarrow> first_place n k = i * n"
  using div_iff[of n k i] by (simp add: first_place_def minus_mod_eq_div_mult)

lemma kill_closed:
  assumes "dead_closed n es" "0 < n" "i * n \<le> k" "k < (i + 1) * n" "\<forall>m. i * n \<le> m \<and> m < k \<longrightarrow> es ! m = None"
  shows "dead_closed n (es[k := None])"
  unfolding dead_closed_def
proof (intro allI impI)
  fix m assume m: "m < length (es[k := None])" "es[k := None] ! m = None"
  have fk: "first_place n k = i * n" by (rule first_place_eq[OF assms(2-4)])
  have fl: "first_place n m < length es" using m(1) first_place_le[of n m] by simp
  show "es[k := None] ! first_place n m = None"
  proof (cases "m = k")
    case True
    then show ?thesis using fk fl assms(3,5) by (cases "k = i * n") (auto simp: nth_list_update)
  next
    case False
    then have "es ! first_place n m = None" using assms(1) m by (auto simp: dead_closed_def)
    then show ?thesis using fl by (cases "first_place n m = k") auto
  qed
qed

lemma killed_step:
  assumes "monitor_ok n s" "killed_up_to n (hm_engines s) (hm_pc s)"
  shows "killed_up_to n (hm_engines (thread_step n h s)) (next_pc n h s)"
proof (cases "hm_pc s")
  case (Kill es i k)
  have "(i + 1) * n \<le> length (hm_engines s)" using assms(1) Kill kill_in_range[of n _ es i k] by (simp add: monitor_ok_def)
  then show ?thesis using assms(2) Kill by (auto simp: thread_engines next_pc_def killed_up_to_def nth_list_update less_Suc_eq)
qed (auto simp: next_pc_def pc_simps killed_up_to_def split: option.split)

lemma step_atomic:
  assumes "monitor_step True n s t" "monitor_ok n s" "atomic_ok n s"
  shows "atomic_ok n t"
  using assms(1)
proof (cases rule: monitor_step.cases)
  case (Thread h)
  have f: "thread_ended s \<or> hm_stop s \<noteq> None \<and> hm_pause s \<noteq> None" "hm_pc s \<noteq> Crashed" using assms(3) by (auto simp: atomic_ok_def)
  have nc: "hm_pc t \<noteq> Crashed" unfolding Thread thread_pc
  proof (cases "thread_ended s")
    case True
    then show "next_pc n h s \<noteq> Crashed" using f(2) by (auto simp: next_pc_def thread_ended_def)
  next
    case False
    then obtain b c where "hm_stop s = Some b" "hm_pause s = Some c" using f(1) by auto
    then show "next_pc n h s \<noteq> Crashed" by (rule next_pc_runs[OF _ _ assms(2) f(2)])
  qed
  have te: "\<not> thread_ended t \<Longrightarrow> \<not> thread_ended s"
    by (auto simp: Thread thread_ended_def thread_pc next_pc_def)
  show ?thesis
  proof (cases "\<exists>es i k. hm_pc s = Kill es i k")
    case True
    then obtain es i k where k: "hm_pc s = Kill es i k" by blast
    have r: "0 < n" "i * n \<le> k" "k \<le> (i + 1) * n" "\<forall>m. i * n \<le> m \<and> m < k \<longrightarrow> hm_engines s ! m = None" "dead_closed n (hm_engines s)"
      using assms(2,3) k by (auto simp: monitor_ok_def pc_ok_def atomic_ok_def killed_up_to_def)
    have "dead_closed n (hm_engines t)" unfolding Thread thread_engines using k kill_closed[OF r(5,1,2) _ r(4)] r(5) by simp
    then show ?thesis using nc te f killed_step[OF assms(2), of h] assms(3) unfolding atomic_ok_def by (auto simp: Thread thread_pc)
  next
    case False
    then have "hm_engines t = hm_engines s" by (auto simp: Thread thread_engines split: pc.split)
    then show ?thesis using nc te assms(3) killed_step[OF assms(2), of h] unfolding atomic_ok_def by (auto simp: Thread thread_pc)
  qed
next
  case Start
  then have "t = s \<or> hm_engines t = hm_engines s \<and> hm_pc t = At_Loop \<and> hm_stop t = Some False \<and> hm_pause t = Some True"
    by (auto simp: start_monitor_def)
  then show ?thesis using assms(3)
  proof (elim disjE)
    assume "hm_engines t = hm_engines s \<and> hm_pc t = At_Loop \<and> hm_stop t = Some False \<and> hm_pause t = Some True"
    then show ?thesis using assms(3) by (simp add: atomic_ok_def killed_up_to_def)
  qed simp
next
  case (Recover es)
  have l: "length es = length (hm_engines s)" "\<forall>i < length es. es ! i \<noteq> None" using Recover(3) by (auto simp: refilled_def)
  then have "dead_closed n es" by (auto simp: dead_closed_def)
  moreover have "killed_up_to n es (hm_pc s)" using Recover(2) by (auto simp: killing_def killed_up_to_def split: pc.splits)
  ultimately show ?thesis using assms(3) Recover by (simp add: atomic_ok_def thread_ended_def)
qed (use assms(3) in \<open>auto simp: atomic_ok_def pause_monitor_def resume_monitor_def request_stop_def forget_thread_def thread_ended_def\<close>)

lemma reaches_atomic:
  assumes "reaches True n (new_monitor es) s" "0 < n" "n dvd length es" "dead_closed n es"
  shows "atomic_ok n s"
  using assms(1)
proof (induction "new_monitor es" s rule: reaches.induct)
  case refl
  then show ?case using assms(4) by (simp add: atomic_ok_def new_monitor_def thread_ended_def killed_up_to_def)
next
  case (step t u)
  then show ?case using step_atomic reaches_ok assms(2,3) by blast
qed

lemma dead_closed_group:
  "dead_closed (nodes_per_engine args g) es \<Longrightarrow> dead_together args (g\<lparr>sg_all_engines := es\<rparr>)"
  by (auto simp: dead_together_def dead_closed_def dead_indices_def first_place_def nodes_per_engine_def less_imp_diff_less)


section \<open>Paused\<close>

definition in_flight :: "pc \<Rightarrow> nat option" where
  "in_flight p = (case p of Health es i e \<Rightarrow> Some i | Kill es i k \<Rightarrow> Some i | _ \<Rightarrow> None)"

text \<open>Until the monitor is resumed: steps of the thread, and further pauses.\<close>

inductive while_paused :: "nat \<Rightarrow> monitor \<Rightarrow> monitor \<Rightarrow> bool" for n :: nat where
  refl: "while_paused n s s"
| thread: "while_paused n s t \<Longrightarrow> while_paused n s (thread_step n h t)"
| pause: "while_paused n s t \<Longrightarrow> while_paused n s (pause_monitor t)"

lemma paused_step:
  assumes "hm_pause s = Some True" "monitor_ok n s"
  shows "in_flight (next_pc n h s) \<in> {None, in_flight (hm_pc s)}"
    "in_flight (hm_pc s) \<noteq> Some (k div n) \<Longrightarrow> hm_engines (thread_step n h s) ! k = hm_engines s ! k"
proof -
  show "in_flight (next_pc n h s) \<in> {None, in_flight (hm_pc s)}"
    using assms(1) by (cases "hm_pc s") (auto simp: next_pc_def pc_simps in_flight_def split: option.splits)
  assume "in_flight (hm_pc s) \<noteq> Some (k div n)"
  moreover have "m div n = i" if "hm_pc s = Kill es i m" "m < (i + 1) * n" for es i m
    using that assms(2) div_iff[of n m i] by (simp add: monitor_ok_def pc_ok_def)
  ultimately show "hm_engines (thread_step n h s) ! k = hm_engines s ! k"
    by (cases "hm_pc s") (auto simp: thread_engines in_flight_def nth_list_update)
qed

text \<open>C30. After \<open>pause\<close> the monitor may finish the check that is going on, but it starts no other: until it is resumed,
  only the places of the engine in that check can change.\<close>

theorem paused_kills_nothing_new:
  assumes "reaches a n (new_monitor es) s" "0 < n" "n dvd length es" "hm_pause s = Some True" "while_paused n s t"
  shows "in_flight (hm_pc t) \<in> {None, in_flight (hm_pc s)} \<and>
    (\<forall>k. in_flight (hm_pc s) \<noteq> Some (k div n) \<longrightarrow> hm_engines t ! k = hm_engines s ! k)"
proof -
  have ok: "monitor_ok n s" by (rule reaches_ok[OF assms(1-3)])
  have "hm_pause t = Some True \<and> monitor_ok n t \<and> in_flight (hm_pc t) \<in> {None, in_flight (hm_pc s)} \<and>
    (\<forall>k. in_flight (hm_pc s) \<noteq> Some (k div n) \<longrightarrow> hm_engines t ! k = hm_engines s ! k)"
    using assms(5,4) ok
  proof (induction rule: while_paused.induct)
    case (thread s t h)
    then have t: "hm_pause t = Some True" "monitor_ok n t" "in_flight (hm_pc t) \<in> {None, in_flight (hm_pc s)}"
      "\<And>k. in_flight (hm_pc s) \<noteq> Some (k div n) \<Longrightarrow> hm_engines t ! k = hm_engines s ! k" by auto
    have "monitor_ok n (thread_step n h t)" using step_ok[OF monitor_step.Thread t(2)] .
    moreover have "hm_engines (thread_step n h t) ! k = hm_engines s ! k" if "in_flight (hm_pc s) \<noteq> Some (k div n)" for k
    proof -
      have "in_flight (hm_pc t) \<noteq> Some (k div n)" using t(3) that by auto
      then show ?thesis using paused_step(2)[OF t(1,2)] t(4)[OF that] by simp
    qed
    ultimately show ?case using t(1,3) paused_step(1)[OF t(1,2), of h] by (auto simp: thread_pc)
  next
    case (pause s t)
    then show ?case by (auto simp: pause_monitor_def monitor_ok_def)
  qed auto
  then show ?thesis by blast
qed

section \<open>Running\<close>

definition seen :: "nat \<Rightarrow> engine \<Rightarrow> engine option list \<Rightarrow> nat \<Rightarrow> bool" where
  "seen j e es i = (es ! j = Some e \<and> i \<le> j)"

text \<open>How many steps it takes at most until engine \<open>j\<close> of \<open>E\<close>, which does not answer, is removed.\<close>

definition round_steps :: "nat \<Rightarrow> nat \<Rightarrow> nat" where
  "round_steps n j = (j + 1) * (n + 4)"

definition check_steps :: "nat \<Rightarrow> nat \<Rightarrow> nat \<Rightarrow> engine \<Rightarrow> engine option list \<Rightarrow> nat \<Rightarrow> nat" where
  "check_steps n E j e es i = (if seen j e es i then (j - i) * (n + 4) + (n + 4) else round_steps n j + 11 + (E - i) * (n + 4))"

definition steps_left :: "nat \<Rightarrow> nat \<Rightarrow> nat \<Rightarrow> engine \<Rightarrow> pc \<Rightarrow> nat" where
  "steps_left n E j e p =
     (let T = round_steps n j in
      case p of
        Off \<Rightarrow> 0 | Exited \<Rightarrow> 0 | Crashed \<Rightarrow> 0
      | Run_Stop \<Rightarrow> T + 1 | Run_Pause \<Rightarrow> T + 2 | Need_Clear \<Rightarrow> T + 3 | First_Pause \<Rightarrow> T + 4 | First_Wait \<Rightarrow> T + 5 | First_Test \<Rightarrow> T + 6
      | Stop_Test \<Rightarrow> T + 7 | Pause_Test \<Rightarrow> T + 8 | Pause_Stop \<Rightarrow> T + 9 | At_Loop \<Rightarrow> T + 9 | Interval \<Rightarrow> T + 10
      | Check es i \<Rightarrow> check_steps n E j e es i
      | Check_Pause es i \<Rightarrow> check_steps n E j e es i - 1
      | Health es i d \<Rightarrow> check_steps n E j e es i - 2
      | Kill es i k \<Rightarrow> check_steps n E j e es i - 3 - (k - i * n))"

definition removed :: "nat \<Rightarrow> nat \<Rightarrow> monitor \<Rightarrow> bool" where
  "removed n j s = (\<forall>m < n. hm_engines s ! (j * n + m) = None)"

definition hunting :: "nat \<Rightarrow> nat \<Rightarrow> nat \<Rightarrow> engine \<Rightarrow> monitor \<Rightarrow> bool" where
  "hunting n E j e s = (monitor_ok n s \<and> length (hm_engines s) = E * n \<and> j < E \<and> hm_stop s = Some False \<and> hm_pause s = Some False \<and>
     \<not> thread_ended s \<and> killed_up_to n (hm_engines s) (hm_pc s) \<and>
     (hm_engines s ! (j * n) = Some e \<or> (\<exists>es k. hm_pc s = Kill es j k)))"

lemma every_nth_nth:
  assumes "0 < n" "n dvd length xs" "j * n < length xs"
  shows "every_nth n xs ! j = xs ! (j * n)"
proof -
  have "j * n < length (every_nth n xs) * n" using every_nth_length[OF assms(1,2)] assms(3) by simp
  then have "j < length (every_nth n xs)" using assms(1) by simp
  then show ?thesis by (simp add: every_nth_def)
qed

lemma check_next:
  assumes "i < E" "j < E" "\<not> (i = j \<and> es ! j = Some e)"
  shows "check_steps n E j e es i = check_steps n E j e es (i + 1) + (n + 4)"
proof (cases "seen j e es i")
  case True
  then obtain d where "j = i + Suc d" using assms(3) less_iff_Suc_add[of i j] by (auto simp: seen_def)
  then show ?thesis using True by (simp add: check_steps_def seen_def)
next
  case False
  obtain d where "E = i + Suc d" using assms(1) less_iff_Suc_add[of i E] by auto
  then show ?thesis using False by (auto simp: check_steps_def seen_def)
qed

lemma check_at_least: "i < E \<Longrightarrow> n + 4 \<le> check_steps n E j e es i"
  by (cases "E - i") (auto simp: check_steps_def)

lemma hunting_kept:
  assumes "hunting n E j e s" "\<not> removed n j s"
  shows "hunting n E j e (thread_step n h s)"
proof -
  have s: "monitor_ok n s" "length (hm_engines s) = E * n" "j < E" "hm_stop s = Some False" "hm_pause s = Some False"
    "\<not> thread_ended s" "killed_up_to n (hm_engines s) (hm_pc s)" "hm_engines s ! (j * n) = Some e \<or> (\<exists>es k. hm_pc s = Kill es j k)"
    using assms(1) by (auto simp: hunting_def)
  have pos: "0 < n" using s(1) by (simp add: monitor_ok_def)
  have "next_pc n h s \<noteq> Crashed" using next_pc_runs[OF s(4,5,1)] s(6) by (simp add: thread_ended_def)
  then have run: "\<not> thread_ended (thread_step n h s)"
    using s(4-6) by (cases "hm_pc s") (auto simp: thread_ended_def thread_pc next_pc_def pc_simps split: option.split)
  have alive: "hm_engines (thread_step n h s) ! (j * n) = Some e \<or> (\<exists>es k. next_pc n h s = Kill es j k)"
  proof (cases "hm_pc s")
    case (Kill es i k)
    have k: "i * n \<le> k" "k \<le> (i + 1) * n" "(i + 1) * n \<le> length (hm_engines s)"
      using s(1) Kill kill_in_range[of n _ es i k] by (auto simp: monitor_ok_def pc_ok_def)
    show ?thesis
    proof (cases "i = j")
      case True
      have "k < (i + 1) * n"
      proof (rule ccontr)
        assume "\<not> k < (i + 1) * n"
        then have "removed n j s" using k(2) s(7) Kill True by (auto simp: removed_def killed_up_to_def)
        then show False using assms(2) by simp
      qed
      then show ?thesis using Kill True k(3) by (simp add: next_pc_def)
    next
      case False
      then have "k \<noteq> j * n \<or> \<not> k < (i + 1) * n" using k(1) div_iff[OF pos, of k i] pos by auto
      then show ?thesis using s(8) Kill False by (auto simp: thread_engines)
    qed
  qed (use s(8) in \<open>auto simp: thread_engines\<close>)
  show ?thesis unfolding hunting_def
    using s(2-5) run alive killed_step[OF s(1,7)] step_ok[OF monitor_step.Thread s(1)] by (simp add: thread_pc)
qed

lemma steps_decrease:
  assumes "hunting n E j e s" "\<not> removed n j s" "\<not> h e"
  shows "steps_left n E j e (next_pc n h s) < steps_left n E j e (hm_pc s)"
proof -
  have s: "monitor_ok n s" "length (hm_engines s) = E * n" "j < E" "hm_stop s = Some False" "hm_pause s = Some False"
    "\<not> thread_ended s" "killed_up_to n (hm_engines s) (hm_pc s)" "hm_engines s ! (j * n) = Some e \<or> (\<exists>es k. hm_pc s = Kill es j k)"
    using assms(1) by (auto simp: hunting_def)
  have pos: "0 < n" "n dvd length (hm_engines s)" using s(1) by (simp_all add: monitor_ok_def)
  note simps = next_pc_def pc_simps steps_left_def Let_def s(4,5)
  have len: "length es = E" if "length es * n = length (hm_engines s)" for es :: "engine option list" using that pos(1) by (simp add: s(2))
  show ?thesis
  proof (cases "hm_pc s")
    case Run_Stop
    then have "hm_engines s ! (j * n) = Some e" using s(8) by simp
    then have "every_nth n (hm_engines s) ! j = Some e" using every_nth_nth[OF pos, of j] s(2,3) pos(1) by simp
    then show ?thesis using Run_Stop by (simp add: simps check_steps_def seen_def round_steps_def)
  next
    case (Check es i)
    have "length es = E" using len s(1) Check by (simp add: monitor_ok_def pc_ok_def)
    then show ?thesis using Check s(3) check_at_least[of i E n j e es] by (auto simp: simps check_steps_def seen_def)
  next
    case (Check_Pause es i)
    have "i < E" using len s(1) Check_Pause by (auto simp: monitor_ok_def pc_ok_def)
    show ?thesis
    proof (cases "es ! i")
      case None
      then have "\<not> (i = j \<and> es ! j = Some e)" by auto
      then show ?thesis using None Check_Pause check_next[of i E j es e n] \<open>i < E\<close> s(3) by (simp add: simps)
    next
      case (Some d)
      then show ?thesis using Check_Pause check_at_least[of i E n j e es] \<open>i < E\<close> by (simp add: simps)
    qed
  next
    case (Health es i d)
    have "i < E" "es ! i = Some d" using len s(1) Health by (auto simp: monitor_ok_def pc_ok_def)
    show ?thesis
    proof (cases "h d")
      case True
      then have "\<not> (i = j \<and> es ! j = Some e)" using \<open>es ! i = Some d\<close> assms(3) by auto
      then show ?thesis using True Health check_next[of i E j es e n] \<open>i < E\<close> s(3) by (simp add: simps)
    next
      case False
      then show ?thesis using Health check_at_least[of i E n j e es] \<open>i < E\<close> by (simp add: simps)
    qed
  next
    case (Kill es i k)
    have e: "i < E" "i * n \<le> k" "k \<le> (i + 1) * n" "(i + 1) * n \<le> length (hm_engines s)"
      using len s(1) Kill kill_in_range[of n _ es i k] by (auto simp: monitor_ok_def pc_ok_def)
    show ?thesis
    proof (cases "k < (i + 1) * n")
      case True
      then show ?thesis using Kill e check_at_least[of i E n j e es] by (auto simp: simps)
    next
      case False
      then have k: "k = (i + 1) * n" using e(3) by simp
      then have "i \<noteq> j" using assms(2) s(7) Kill by (auto simp: removed_def killed_up_to_def)
      then show ?thesis using Kill k check_next[of i E j es e n] e(1) s(3) by (simp add: simps)
    qed
  qed (use s(6) in \<open>auto simp: simps thread_ended_def\<close>)
qed

lemma hunt_ends:
  assumes "hunting n E j e s" "\<not> h e"
  shows "\<exists>k \<le> steps_left n E j e (hm_pc s). removed n j ((thread_step n h ^^ k) s)"
  using assms
proof (induction "steps_left n E j e (hm_pc s)" arbitrary: s rule: less_induct)
  case less
  show ?case
  proof (cases "removed n j s")
    case False
    let ?t = "thread_step n h s"
    have d: "steps_left n E j e (hm_pc ?t) < steps_left n E j e (hm_pc s)"
      using steps_decrease[where h = h, OF less.prems(1) False less.prems(2)] by (simp add: thread_pc)
    obtain k where "k \<le> steps_left n E j e (hm_pc ?t)" "removed n j ((thread_step n h ^^ k) ?t)"
      using less.hyps[OF d hunting_kept[OF less.prems(1) False] less.prems(2)] by blast
    then show ?thesis using d by (intro exI[of _ "Suc k"]) (simp add: funpow_swap1)
  qed auto
qed

lemma steps_bound:
  assumes "j < E"
  shows "steps_left n E j e p \<le> 2 * (E * (n + 4)) + 11"
proof -
  have r: "round_steps n j \<le> E * (n + 4)" using assms unfolding round_steps_def by (intro mult_le_mono1) simp
  have "check_steps n E j e es i \<le> 2 * (E * (n + 4)) + 11" for es i
  proof (cases "seen j e es i")
    case True
    have "(j - i) * (n + 4) + (n + 4) = (j - i + 1) * (n + 4)" by simp
    also have "\<dots> \<le> E * (n + 4)" using assms by (intro mult_le_mono1) simp
    finally show ?thesis using True by (simp add: check_steps_def)
  next
    case False
    have "(E - i) * (n + 4) \<le> E * (n + 4)" by (intro mult_le_mono1) simp
    with r have "round_steps n j + 11 + (E - i) * (n + 4) \<le> 2 * (E * (n + 4)) + 11" by linarith
    then show ?thesis using False by (simp only: check_steps_def if_False)
  qed
  then have c: "check_steps n E j e es i - x \<le> 2 * (E * (n + 4)) + 11" for es i x using diff_le_self le_trans by blast
  show ?thesis using r c c[of _ _ 0] by (cases p) (auto simp: steps_left_def Let_def diff_diff_left)
qed

text \<open>C29. While the monitor runs undisturbed, an engine that no longer answers is removed with all its nodes, wherever the thread
  is, after at most as many steps as one round that is going on and one full round take.\<close>

theorem dead_engine_removed:
  assumes "reaches True n (new_monitor es) s" "0 < n" "length es = E * n" "dead_closed n es"
    "hm_stop s = Some False" "hm_pause s = Some False" "\<not> thread_ended s"
    "j < E" "hm_engines s ! (j * n) = Some e" "\<not> healthy e"
  shows "\<exists>k \<le> 2 * (E * (n + 4)) + 11. \<forall>m < n. hm_engines ((thread_step n healthy ^^ k) s) ! (j * n + m) = None"
proof -
  have d: "n dvd length es" using assms(3) by simp
  have "length (hm_engines s) = E * n" using reaches_length[OF assms(1)] assms(3) by (simp add: new_monitor_def)
  then have "hunting n E j e s"
    using reaches_ok[OF assms(1,2) d] reaches_atomic[OF assms(1,2) d assms(4)] assms(5-9) by (simp add: hunting_def atomic_ok_def)
  from hunt_ends[OF this, of healthy] assms(10) obtain k where
    "k \<le> steps_left n E j e (hm_pc s)" "removed n j ((thread_step n healthy ^^ k) s)" by blast
  then show ?thesis using steps_bound[OF assms(8), of n e "hm_pc s"] unfolding removed_def by (meson le_trans)
qed

section \<open>Examples\<close>

lemma reaches_trans: "reaches a n s t \<Longrightarrow> reaches a n t u \<Longrightarrow> reaches a n s u"
  by (rotate_tac, induction rule: reaches.induct) (auto intro: reaches.step)

lemma reaches_run: "reaches a n s t \<Longrightarrow> reaches a n s ((thread_step n h ^^ k) t)"
  by (induction k) (auto intro: reaches.step monitor_step.Thread)

text \<open>A monitor that was started and resumed, after some steps of its thread.\<close>

definition after :: "nat \<Rightarrow> nat \<Rightarrow> engine option list \<Rightarrow> monitor" where
  "after n k es = (thread_step n (\<lambda>_. False) ^^ k) (resume_monitor (snd (start_monitor (new_monitor es))))"

lemma reaches_after: "reaches a n (new_monitor es) (after n k es)"
  unfolding after_def
  by (intro reaches_run reaches.step[OF _ monitor_step.Resume] reaches.step[OF _ monitor_step.Start] reaches.refl)
    (simp add: thread_ended_def new_monitor_def)

lemma thread_step_record:
  "thread_step n h \<lparr>hm_engines = es, hm_thread = t, hm_stop = a, hm_pause = b, hm_need_first_wait = w, hm_enabled = c, hm_pc = p\<rparr> =
   \<lparr>hm_engines = (case p of Kill q i k \<Rightarrow> if k < (i + 1) * n \<and> k < length es then es[k := None] else es | _ \<Rightarrow> es), hm_thread = t, hm_stop = a,
    hm_pause = b, hm_need_first_wait = (w \<and> p \<noteq> Need_Clear), hm_enabled = c,
    hm_pc = next_pc n h \<lparr>hm_engines = es, hm_thread = t, hm_stop = a, hm_pause = b, hm_need_first_wait = w, hm_enabled = c, hm_pc = p\<rparr>\<rparr>"
  by (simp add: thread_step_def Let_def split: pc.split)

lemmas run_simps = thread_step_record next_pc_def pc_simps eval_nat_numeral

lemma after_health:
  assumes "hd (every_nth n es) = Some e" "every_nth n es \<noteq> []" "es \<noteq> []"
  shows "after n 11 es = \<lparr>hm_engines = es, hm_thread = True, hm_stop = Some False, hm_pause = Some False, hm_need_first_wait = False,
     hm_enabled = True, hm_pc = Health (every_nth n es) 0 e\<rparr>"
  using assms by (simp add: after_def new_monitor_def start_monitor_def resume_monitor_def run_simps hd_conv_nth)

lemma every_nth_ex: "every_nth 1 xs = xs" "every_nth 2 [x, y] = [x]"
  by (simp_all add: every_nth_def map_nth)

text \<open>With two nodes per engine: the first node is killed, a recovery fills its place, and the kill goes on with the second node.\<close>

lemma recovery_in_kill:
  "\<exists>s. reaches False 2 (new_monitor [Some e, Some e]) s \<and> \<not> dead_closed 2 (hm_engines s)"
proof -
  let ?h = "\<lambda>_. False" and ?n = "new_monitor [Some e, Some e]"
  let ?s = "(thread_step 2 ?h ^^ 2) (after 2 11 [Some e, Some e])"
  have "after 2 11 [Some e, Some e] = \<lparr>hm_engines = [Some e, Some e], hm_thread = True, hm_stop = Some False, hm_pause = Some False,
      hm_need_first_wait = False, hm_enabled = True, hm_pc = Health [Some e] 0 e\<rparr>"
    using after_health[of 2 "[Some e, Some e]" e] by (simp add: every_nth_ex)
  then have s: "hm_engines ?s = [None, Some e]" "hm_pc ?s = Kill [Some e] 0 1" by (simp_all only:) (simp_all add: run_simps)
  let ?t = "?s\<lparr>hm_engines := [Some e, Some e]\<rparr>"
  have rf: "refilled (hm_engines ?s) [Some e, Some e]" unfolding refilled_def s by (auto simp: less_Suc_eq)
  have "reaches False 2 ?n ?t"
    by (rule reaches.step[OF reaches_run[OF reaches_after] monitor_step.Recover[OF _ rf]]) simp
  then have "reaches False 2 ?n (thread_step 2 ?h ?t)" by (rule reaches.step[OF _ monitor_step.Thread])
  moreover have "hm_engines (thread_step 2 ?h ?t) = [Some e, None]" by (simp add: thread_engines s)
  moreover have "\<not> dead_closed 2 [Some e, None]"
    unfolding dead_closed_def first_place_def by (rule notI, drule spec[of _ 1]) simp
  ultimately show ?thesis by metis
qed

text \<open>When \<open>stop\<close> gives up waiting for the check of the first engine, the thread goes on and kills the second one.\<close>

lemma after_two:
  "after 1 11 [Some e, Some f] = \<lparr>hm_engines = [Some e, Some f], hm_thread = True, hm_stop = Some False, hm_pause = Some False,
      hm_need_first_wait = False, hm_enabled = True, hm_pc = Health [Some e, Some f] 0 e\<rparr>"
  using after_health[of 1 "[Some e, Some f]" e] by (simp add: every_nth_ex[unfolded One_nat_def])

lemma kill_after_stop:
  "\<exists>s. reaches False 1 (new_monitor [Some e, Some f]) s \<and> in_flight (hm_pc s) = Some 0 \<and>
    hm_engines ((thread_step 1 (\<lambda>_. False) ^^ 7) (forget_thread (request_stop s))) = [None, None]"
proof -
  let ?s = "after 1 11 [Some e, Some f]"
  have s: "?s = \<lparr>hm_engines = [Some e, Some f], hm_thread = True, hm_stop = Some False, hm_pause = Some False,
      hm_need_first_wait = False, hm_enabled = True, hm_pc = Health [Some e, Some f] 0 e\<rparr>"
    by (rule after_two)
  have "hm_engines ((thread_step 1 (\<lambda>_. False) ^^ 7) (forget_thread (request_stop ?s))) = [None, None]"
    unfolding s by (simp add: run_simps forget_thread_def request_stop_def)
  moreover have "in_flight (hm_pc ?s) = Some 0" unfolding s by (simp add: in_flight_def)
  ultimately show ?thesis using reaches_after by blast
qed

theorem paused_kills_nothing_new_witness:
  "\<exists>s t. reaches True 1 (new_monitor [Some (demo_engine 0), Some (demo_engine 1)]) s \<and> while_paused 1 s t \<and>
     hm_engines t ! 0 = None \<and> hm_engines t ! 1 = Some (demo_engine 1)"
proof -
  let ?es = "[Some (demo_engine 0), Some (demo_engine 1)]"
  let ?s = "pause_monitor (after 1 11 ?es)" and ?t = "(thread_step 1 (\<lambda>_. False) ^^ 2) (pause_monitor (after 1 11 ?es))"
  have r: "reaches True 1 (new_monitor ?es) ?s" by (rule reaches.step[OF reaches_after monitor_step.Pause])
  have q: "while_paused 1 ?s ?t" by (simp add: numeral_2_eq_2 while_paused.refl while_paused.thread)
  have s: "hm_pause ?s = Some True" "hm_engines ?s = ?es" "in_flight (hm_pc ?s) = Some 0" unfolding after_two
    by (simp_all add: pause_monitor_def in_flight_def)
  have "hm_engines ?t ! 0 = None" unfolding after_two by (simp add: pause_monitor_def run_simps)
  moreover have "hm_engines ?t ! 1 = Some (demo_engine 1)"
    using paused_kills_nothing_new[OF r _ _ s(1) q] s(2,3) by auto
  ultimately show ?thesis using r q by blast
qed

theorem dead_engine_removed_witness:
  "\<exists>k \<le> 31. hm_engines ((thread_step 1 (\<lambda>e. e \<noteq> demo_engine 1) ^^ k) (after 1 11 [Some (demo_engine 0), Some (demo_engine 1)])) ! 1 = None"
proof -
  let ?es = "[Some (demo_engine 0), Some (demo_engine 1)]" let ?s = "after 1 11 ?es"
  have d: "dead_closed 1 ?es" by (simp add: dead_closed_def less_Suc_eq)
  have s: "hm_stop ?s = Some False" "hm_pause ?s = Some False" "\<not> thread_ended ?s" "hm_engines ?s ! (1 * 1) = Some (demo_engine 1)"
    unfolding after_two by (simp_all add: thread_ended_def)
  have "\<exists>k \<le> 2 * (2 * (1 + 4)) + 11. \<forall>m < 1. hm_engines ((thread_step 1 (\<lambda>e. e \<noteq> demo_engine 1) ^^ k) ?s) ! (1 * 1 + m) = None"
    by (rule dead_engine_removed[OF reaches_after _ _ d s(1-3) _ s(4)]) simp_all
  then show ?thesis by auto
qed


end
