(* ===== verification/Generation.thy ===== *)
theory Generation
  imports Data_Source Sglang_Config
begin

text \<open>
  \<open>rollout/sglang_rollout.py\<close> with the filters of \<open>rollout/filter_hub\<close>: generating a sample and its reward,
  a group, and a whole rollout with over-sampling, filtering and abortion.  Parameters: the tokenizer and the
  processor, the reply of the inference server to a payload, the reward models, user functions, and the order in
  which tasks finish.  Results of custom functions that are lists of samples are not modelled.
\<close>

section \<open>One sample\<close>

record gen_args =
  ga_ci_test :: bool
  ga_partial_rollout :: bool
  ga_mask_offpolicy :: bool
  ga_group_rm :: bool
  ga_rollout_global_dataset :: bool
  ga_routing_replay :: bool
  ga_deterministic :: bool
  ga_consistent_hashing :: bool
  ga_speculative :: bool
  ga_rollout_seed :: int
  ga_n_samples_per_prompt :: nat
  ga_rollout_batch_size :: nat
  ga_over_sampling_batch_size :: nat
  ga_num_layers :: nat
  ga_moe_router_topk :: nat
  ga_custom_path :: "string option"

record sampling =
  sp_max_new_tokens :: int
  sp_seed :: "int option"
  sp_rest :: "(string, pyval) dict"

record payload =
  pay_sampling :: sampling
  pay_routed_experts :: bool
  pay_images :: "pyval list option"
  pay_input_ids :: "int list option"
  pay_text :: "pyval option"
  pay_routing_key :: "string option"

record server_output =
  out_text :: string
  out_logprobs :: "(real \<times> int) list option"
  out_experts :: "int list option"
  out_meta :: "(string, pyval) dict"

record tokenizing =
  tk_encode :: "pyval \<Rightarrow> int list"
  tk_processor :: "(pyval \<Rightarrow> pyval \<Rightarrow> int list \<times> (string, pyval) dict) option"
  tk_image :: "pyval \<Rightarrow> pyval"

definition mm_value :: "string \<Rightarrow> pyval \<Rightarrow> pyval" where
  "mm_value k v = (case v of PDict d \<Rightarrow> dget_default d k PNone | _ \<Rightarrow> PNone)"

definition uses_processor :: "tokenizing \<Rightarrow> sample \<Rightarrow> bool" where
  "uses_processor tk s = (tk_processor tk \<noteq> None \<and>
     (case smp_multimodal_inputs s of PDict d \<Rightarrow> \<exists>(k, v) \<in> set d. v \<noteq> PNone | _ \<Rightarrow> False))"

text \<open>The token ids of the prompt, and what the processor returns besides.\<close>

definition encode_prompt :: "tokenizing \<Rightarrow> sample \<Rightarrow> int list \<times> sample" where
  "encode_prompt tk s =
     (case tk_processor tk of
        Some p \<Rightarrow>
          if uses_processor tk s
          then (let (ids, rest) = p (smp_prompt s) (smp_multimodal_inputs s) in
                (ids, s\<lparr>smp_multimodal_train_inputs := (if rest = [] then PNone else PDict rest)\<rparr>))
          else (tk_encode tk (smp_prompt s), s)
      | None \<Rightarrow> (tk_encode tk (smp_prompt s), s))"

definition make_payload :: "gen_args \<Rightarrow> tokenizing \<Rightarrow> int list \<Rightarrow> sampling \<Rightarrow> sample \<Rightarrow> payload \<times> sample" where
  "make_payload args tk prompt_ids sp s =
     (let images = mm_value ''images'' (smp_multimodal_inputs s);
          has_multimodal = (\<not> falsy images);
          pay = \<lparr>pay_sampling = sp, pay_routed_experts = ga_routing_replay args,
                 pay_images = (case images of PList is \<Rightarrow> if has_multimodal then Some (map (tk_image tk) is) else None | _ \<Rightarrow> None),
                 pay_input_ids = None, pay_text = None,
                 pay_routing_key = (if ga_consistent_hashing args \<and> smp_session_id s \<noteq> Some [] then smp_session_id s else None)\<rparr>;
          started = (if smp_tokens s = [] then s\<lparr>smp_tokens := prompt_ids\<rparr> else s) in
      if smp_response s \<noteq> [] then (pay\<lparr>pay_input_ids := Some (smp_tokens s)\<rparr>, s)
      else if has_multimodal then (pay\<lparr>pay_text := Some (smp_prompt s)\<rparr>, started)
      else (pay\<lparr>pay_input_ids := Some prompt_ids\<rparr>, started))"

text \<open>\<open>reshape(len(tokens) - 1, num_layers, topk)\<close> of the flat array of expert numbers.\<close>

fun chunks_of :: "nat \<Rightarrow> nat \<Rightarrow> 'a list \<Rightarrow> 'a list list" where
  "chunks_of 0 n xs = []"
| "chunks_of (Suc k) n xs = take n xs # chunks_of k n (drop n xs)"

definition reshape_experts :: "nat \<Rightarrow> nat \<Rightarrow> nat \<Rightarrow> int list \<Rightarrow> pyval result" where
  "reshape_experts a b c xs =
     (if length xs \<noteq> a * b * c then Inl ValueError
      else Inr (PList (map (\<lambda>rows. PList (map (of_list PInt) (chunks_of b c rows))) (chunks_of a (b * c) xs))))"

definition take_output :: "gen_args \<Rightarrow> server_output \<Rightarrow> sample \<Rightarrow> sample result" where
  "take_output args out s =
     (let items = (case out_logprobs out of None \<Rightarrow> [] | Some is \<Rightarrow> is);
          new_tokens = map snd items; new_log_probs = map fst items;
          s = s\<lparr>smp_tokens := smp_tokens s @ new_tokens, smp_response_length := smp_response_length s + int (length new_tokens),
                smp_response := smp_response s @ out_text out\<rparr> in
      bindE (case smp_loss_mask s of None \<Rightarrow> Inr s
             | Some m \<Rightarrow> bindE (assertE (ga_partial_rollout args \<and> ga_mask_offpolicy args)) (\<lambda>_.
                 Inr (s\<lparr>smp_loss_mask := Some (m @ replicate (length new_tokens) 1)\<rparr>))) (\<lambda>s.
      let s = s\<lparr>smp_rollout_log_probs := Some ((case smp_rollout_log_probs s of None \<Rightarrow> [] | Some l \<Rightarrow> l) @ new_log_probs)\<rparr> in
      bindE (case out_experts out of None \<Rightarrow> Inr s
             | Some xs \<Rightarrow> bindE (reshape_experts (length (smp_tokens s) - 1) (ga_num_layers args) (ga_moe_router_topk args) xs) (\<lambda>v.
                 Inr (s\<lparr>smp_rollout_routed_experts := v\<rparr>))) (\<lambda>s.
        update_from_meta_info (ga_speculative args) (out_meta out) s)))"

definition generate :: "gen_args \<Rightarrow> tokenizing \<Rightarrow> (payload \<Rightarrow> server_output) \<Rightarrow> sampling \<Rightarrow> sample \<Rightarrow> sample result" where
  "generate args tk post sp s =
     bindE (assertE (ga_ci_test args \<longrightarrow> (case smp_prompt s of PStr _ \<Rightarrow> True | _ \<Rightarrow> False))) (\<lambda>_.
     bindE (assertE (smp_status s = PENDING \<or> smp_status s = ABORTED)) (\<lambda>_.
     let (prompt_ids, s) = encode_prompt tk s;
         budget = (if smp_response s \<noteq> [] then sp_max_new_tokens sp - (int (length (smp_tokens s)) - int (length prompt_ids))
                   else sp_max_new_tokens sp) in
     bindE (assertE (budget \<ge> 0)) (\<lambda>_.
     if budget = 0 then Inr (s\<lparr>smp_status := TRUNCATED\<rparr>)
     else let (pay, s) = make_payload args tk prompt_ids (sp\<lparr>sp_max_new_tokens := budget\<rparr>) s in
          take_output args (post pay) s)))"

section \<open>Its reward\<close>

text \<open>What a task meets: the server, whether the rollout was aborted meanwhile, user functions and reward models.\<close>

record environment =
  ev_post :: "payload \<Rightarrow> server_output"
  ev_aborted :: bool
  ev_custom :: "string \<Rightarrow> sample \<Rightarrow> sampling \<Rightarrow> sample result"
  ev_reward :: "sample \<Rightarrow> pyval result"

definition mask_offpolicy :: "gen_args \<Rightarrow> sample \<Rightarrow> sample" where
  "mask_offpolicy args s =
     (if ga_partial_rollout args \<and> ga_mask_offpolicy args \<and> smp_response_length s > 0
      then s\<lparr>smp_loss_mask := Some (replicate (nat (smp_response_length s)) 0)\<rparr> else s)"

definition custom_path :: "gen_args \<Rightarrow> sample \<Rightarrow> string option" where
  "custom_path args s = (case smp_generate_function_path s of None \<Rightarrow> ga_custom_path args
     | Some p \<Rightarrow> if p = [] then ga_custom_path args else Some p)"

definition generate_and_rm :: "gen_args \<Rightarrow> tokenizing \<Rightarrow> environment \<Rightarrow> sampling \<Rightarrow> sample \<Rightarrow> sample result" where
  "generate_and_rm args tk ev sp s =
     (let s = mask_offpolicy args s in
      if smp_status s = COMPLETED \<or> smp_status s = TRUNCATED
      then bindE (assertE (\<not> ga_group_rm args \<longrightarrow> smp_reward s \<noteq> PNone)) (\<lambda>_. Inr s)
      else if ev_aborted ev then Inr (s\<lparr>smp_status := ABORTED\<rparr>)
      else bindE (case custom_path args s of Some p \<Rightarrow> ev_custom ev p s sp | None \<Rightarrow> generate args tk (ev_post ev) sp s) (\<lambda>s.
        if ga_group_rm args \<or> smp_status s = ABORTED \<or> smp_reward s \<noteq> PNone then Inr s
        else bindE (ev_reward ev s) (\<lambda>r. Inr (s\<lparr>smp_reward := r\<rparr>))))"

section \<open>A group\<close>

record group_environment =
  ge_aborted_before :: bool
  ge_sample :: "nat \<Rightarrow> environment"
  ge_aborted_after :: bool
  ge_session_id :: "nat \<Rightarrow> string"
  ge_group_rewards :: "sample list \<Rightarrow> pyval list"

definition name_session :: "(nat \<Rightarrow> string) \<Rightarrow> nat \<times> sample \<Rightarrow> sample" where
  "name_session ids = (\<lambda>(i, s). if smp_session_id s = None then s\<lparr>smp_session_id := Some (ids i)\<rparr> else s)"

text \<open>The tasks of the samples are gathered, in whatever order they run.\<close>

definition generate_and_rm_group :: "gen_args \<Rightarrow> tokenizing \<Rightarrow> group_environment \<Rightarrow> sampling \<Rightarrow> sample list \<Rightarrow> sample list result" where
  "generate_and_rm_group args tk ge sp grp =
     (if ge_aborted_before ge then Inr grp
      else
        let grp = map (name_session (ge_session_id ge)) (enumerate_list grp) in
        bindE (mapE (\<lambda>(i, s).
            bindE (if ga_deterministic args
                   then bindE (raise_unless IndexError (i < ga_n_samples_per_prompt args)) (\<lambda>_.
                          Inr (sp\<lparr>sp_seed := Some (ga_rollout_seed args + int i)\<rparr>))
                   else Inr sp) (\<lambda>sp.
            generate_and_rm args tk (ge_sample ge i) sp s)) (enumerate_list grp)) (\<lambda>grp.
        Inr (if \<not> ge_aborted_after ge \<and> ga_group_rm args
             then (let rs = ge_group_rewards ge grp in
                   map (\<lambda>(i, s). if i < length rs then s\<lparr>smp_reward := rs ! i\<rparr> else s) (enumerate_list grp))
             else grp)))"

section \<open>Filters\<close>

text \<open>A dynamic filter returns whether to keep the group and a reason to drop it.\<close>

type_synonym dynamic_filter = "sample list \<Rightarrow> bool \<times> string option"

definition call_dynamic_filter :: "dynamic_filter option \<Rightarrow> sample list \<Rightarrow> bool \<times> string option" where
  "call_dynamic_filter flt g = (case flt of None \<Rightarrow> (True, None) | Some f \<Rightarrow> f g)"

type_synonym drop_counts = "(string, nat) dict"

definition on_dynamic_filter_drop :: "string option \<Rightarrow> drop_counts \<Rightarrow> drop_counts" where
  "on_dynamic_filter_drop reason counts =
     (case reason of None \<Rightarrow> counts | Some r \<Rightarrow> if r = [] then counts else dset r (dget_default counts r 0 + 1) counts)"

definition collect :: "drop_counts \<Rightarrow> (string, nat) dict" where
  "collect counts = map (\<lambda>(r, n). (''rollout/dynamic_filter/drop_'' @ r, n)) counts"

section \<open>A rollout\<close>

record 's gen_state =
  gs_source :: 's
  gs_remaining :: nat
  gs_pendings :: "sample list list"
  gs_data :: "sample list list"
  gs_all_data :: "sample list list"
  gs_drops :: drop_counts

definition submit :: "sample list list \<Rightarrow> 's gen_state \<Rightarrow> 's gen_state" where
  "submit samples st = st\<lparr>gs_pendings := gs_pendings st @ samples, gs_remaining := gs_remaining st + length samples\<rparr>"

partial_function (option) submit_until :: "('s \<Rightarrow> sample list list \<times> 's) \<Rightarrow> nat \<Rightarrow> 's gen_state \<Rightarrow> 's gen_state option" where
  "submit_until fetch target st =
     (if gs_remaining st < target
      then submit_until fetch target (submit (fst (fetch (gs_source st))) (st\<lparr>gs_source := snd (fetch (gs_source st))\<rparr>))
      else Some st)"

text \<open>The tasks that one \<open>asyncio.wait\<close> returns as done, at least one, in the order in which they are looked at.\<close>

fun take_done :: "nat list \<Rightarrow> 'a list \<Rightarrow> 'a list \<times> 'a list" where
  "take_done [] pendings = ([], pendings)"
| "take_done (p # picks) pendings =
     (if pendings = [] then ([], [])
      else let i = p mod length pendings; (ds, rest) = take_done picks (take i pendings @ drop (Suc i) pendings) in
           (pendings ! i # ds, rest))"

definition finish_task ::
  "gen_args \<Rightarrow> dynamic_filter option \<Rightarrow> (sample list \<Rightarrow> sample list result) \<Rightarrow> sample list \<Rightarrow> 's gen_state \<Rightarrow> 's gen_state result"
where
  "finish_task args flt run task st =
     bindE (run task) (\<lambda>group.
     bindE (raise_unless IndexError (group \<noteq> [] \<or> gs_all_data st \<noteq> [])) (\<lambda>_.
     bindE (assertE (length group = ga_n_samples_per_prompt args)) (\<lambda>_.
     let st = st\<lparr>gs_all_data := gs_all_data st @ [group]\<rparr>; (keep, reason) = call_dynamic_filter flt group in
     Inr (if \<not> keep then st\<lparr>gs_drops := on_dynamic_filter_drop reason (gs_drops st), gs_remaining := gs_remaining st - 1\<rparr>
          else if length (gs_data st) < ga_rollout_batch_size args then st\<lparr>gs_data := gs_data st @ [group]\<rparr> else st))))"

fun rollout_loop ::
  "gen_args \<Rightarrow> dynamic_filter option \<Rightarrow> (sample list \<Rightarrow> sample list result) \<Rightarrow> ('s \<Rightarrow> sample list list \<times> 's) \<Rightarrow>
   (nat \<times> nat list) list \<Rightarrow> 's gen_state \<Rightarrow> 's gen_state option result"
where
  "rollout_loop args flt run fetch waits st =
     (if \<not> length (gs_data st) < ga_rollout_batch_size args then Inr (Some st)
      else case submit_until fetch (ga_rollout_batch_size args) st of None \<Rightarrow> Inl Diverges
      | Some st \<Rightarrow>
          (case waits of [] \<Rightarrow> Inr None
           | (p, ps) # waits \<Rightarrow>
               bindE (raise_unless ValueError (gs_pendings st \<noteq> [])) (\<lambda>_.
               let (ds, rest) = take_done (p # ps) (gs_pendings st) in
               bindE (foldE (finish_task args flt run) ds (st\<lparr>gs_pendings := rest\<rparr>)) (\<lambda>st.
                 rollout_loop args flt run fetch waits st))))"

declare rollout_loop.simps [simp del]

text \<open>\<open>abort\<close>: all pending tasks end; with partial rollouts the groups are collected, and the first rollout of a
  started sample is noted.\<close>

definition mark_partial :: "int \<Rightarrow> sample \<Rightarrow> sample" where
  "mark_partial rollout_id s =
     (if smp_response s \<noteq> [] \<and> map_of (smp_metadata s) ''start_rollout_id'' = None
      then s\<lparr>smp_metadata := dset ''start_rollout_id'' (PInt rollout_id) (smp_metadata s)\<rparr> else s)"

definition abort :: "gen_args \<Rightarrow> int \<Rightarrow> (sample list \<Rightarrow> sample list result) \<Rightarrow> nat list \<Rightarrow> sample list list \<Rightarrow> sample list list result" where
  "abort args rollout_id run_aborted picks pendings =
     (let (ds, rest) = take_done picks pendings in
      if \<not> ga_partial_rollout args then Inr []
      else mapE (\<lambda>task. bindE (run_aborted task) (\<lambda>g. Inr (map (mark_partial rollout_id) g))) (ds @ rest))"

definition group_index :: "sample list \<Rightarrow> int" where
  "group_index g = (case g of [] \<Rightarrow> 0 | s # _ \<Rightarrow> (case smp_index s of None \<Rightarrow> 0 | Some i \<Rightarrow> i))"

definition has_index :: "sample list \<Rightarrow> bool" where
  "has_index g = (g \<noteq> [] \<and> smp_index (hd g) \<noteq> None)"

definition sort_groups :: "sample list list \<Rightarrow> sample list list result" where
  "sort_groups gs =
     bindE (raise_unless IndexError (list_all (\<lambda>g. g \<noteq> []) gs)) (\<lambda>_.
       if length gs < 2 \<or> list_all has_index gs then Inr (sort_key group_index gs) else Inl TypeError)"

record rollout_result =
  rr_data :: "sample list list"
  rr_all_samples :: "sample list list"
  rr_drops :: "(string, nat) dict"
  rr_aborted :: "sample list list"

definition generate_rollout_async ::
  "gen_args \<Rightarrow> int \<Rightarrow> dynamic_filter option \<Rightarrow> (sample list \<Rightarrow> sample list result) \<Rightarrow> (sample list \<Rightarrow> sample list result) \<Rightarrow>
   ('s \<Rightarrow> sample list list \<times> 's) \<Rightarrow> (nat \<times> nat list) list \<Rightarrow> nat list \<Rightarrow> 's \<Rightarrow> (rollout_result \<times> 's) option result"
where
  "generate_rollout_async args rollout_id flt run run_aborted fetch waits picks src =
     bindE (assertE (ga_rollout_global_dataset args)) (\<lambda>_.
     bindE (rollout_loop args flt run fetch waits
              \<lparr>gs_source = src, gs_remaining = 0, gs_pendings = [], gs_data = [], gs_all_data = [], gs_drops = []\<rparr>) (\<lambda>r.
     case r of None \<Rightarrow> Inr None
     | Some st \<Rightarrow>
       bindE (raise_unless IndexError (gs_data st \<noteq> [])) (\<lambda>_.
       bindE (abort args rollout_id run_aborted picks (gs_pendings st)) (\<lambda>aborted_samples.
       bindE (assertE (length (gs_data st) = ga_rollout_batch_size args)) (\<lambda>_.
       bindE (sort_groups (gs_data st)) (\<lambda>data.
       bindE (sort_groups (gs_all_data st)) (\<lambda>all_samples.
         Inr (Some (\<lparr>rr_data = data, rr_all_samples = all_samples, rr_drops = collect (gs_drops st), rr_aborted = aborted_samples\<rparr>,
                    gs_source st)))))))))"

text \<open>The aborted groups go back into the buffer of the data source.\<close>

definition generate_rollout ::
  "gen_args \<Rightarrow> ds_args \<Rightarrow> shuffler \<Rightarrow> buffer_filter \<Rightarrow> int \<Rightarrow> dynamic_filter option \<Rightarrow> (sample list \<Rightarrow> sample list result) \<Rightarrow>
   (sample list \<Rightarrow> sample list result) \<Rightarrow> (nat \<times> nat list) list \<Rightarrow> nat list \<Rightarrow> buffered \<Rightarrow> (rollout_result \<times> buffered) option result"
where
  "generate_rollout args ds_args perm bflt rollout_id flt run run_aborted waits picks b =
     bindE (generate_rollout_async args rollout_id flt run run_aborted
              (buffered_get_samples perm bflt ds_args (int (ga_over_sampling_batch_size args))) waits picks b) (\<lambda>r.
     case r of None \<Rightarrow> Inr None
     | Some (res, b) \<Rightarrow>
         (let (b, ok) = add_samples ds_args (rr_aborted res) b in bindE ok (\<lambda>_. Inr (Some (res, b)))))"

section \<open>Evaluation\<close>

text \<open>Every prompt \<open>n\<close> times, numbered in order.\<close>

definition eval_samples :: "nat \<Rightarrow> (pyval \<Rightarrow> (string, pyval) dict) \<Rightarrow> string option \<Rightarrow> sample list \<Rightarrow> sample list" where
  "eval_samples n inject path prompts =
     map (\<lambda>(k, s). s\<lparr>smp_index := Some (int k), smp_metadata := inject (PDict (smp_metadata s)), smp_generate_function_path := path\<rparr>)
       (enumerate_list (concat (map (replicate n) prompts)))"

record eval_result =
  er_rewards :: "pyval list"
  er_truncated :: "bool list"
  er_samples :: "sample list"

text \<open>\<open>finished\<close> are the samples in the order in which their tasks completed.\<close>

definition sample_index :: "sample \<Rightarrow> int" where
  "sample_index s = (case smp_index s of None \<Rightarrow> 0 | Some i \<Rightarrow> i)"

definition collect_eval :: "string option \<Rightarrow> sample list \<Rightarrow> eval_result result" where
  "collect_eval reward_key finished =
     bindE (raise_unless TypeError (length finished < 2 \<or> list_all (\<lambda>s. smp_index s \<noteq> None) finished)) (\<lambda>_.
     let data = sort_key sample_index finished in
     bindE (mapE (get_reward_value reward_key) data) (\<lambda>rewards.
       Inr \<lparr>er_rewards = rewards, er_truncated = map (\<lambda>s. smp_status s = TRUNCATED) data, er_samples = data\<rparr>))"

end
