(* ===== verification/Generation_Rules.thy ===== *)
theory Generation_Rules
  imports Generation
begin

text \<open>
  Generation: over any number of interrupted attempts the parts of a sample stay aligned and within the budget;
  a rollout accounts for every group that it takes from the source, never waits for nothing, and its results do
  not depend on the order in which tasks finish where they should not.
\<close>

section \<open>A sample over its attempts\<close>

definition prompt_of :: "tokenizing \<Rightarrow> sample \<Rightarrow> int list" where
  "prompt_of tk s = fst (encode_prompt tk s)"

text \<open>The tokens are the prompt and the response; log probabilities and mask belong to the response.\<close>

definition aligned :: "int list \<Rightarrow> sample \<Rightarrow> bool" where
  "aligned prompt s \<longleftrightarrow>
     (\<exists>r. smp_response_length s = int (length r) \<and> (smp_response s = [] \<longleftrightarrow> r = []) \<and>
        (smp_tokens s = prompt @ r \<or> r = [] \<and> smp_tokens s = []) \<and>
        (case smp_rollout_log_probs s of None \<Rightarrow> r = [] | Some l \<Rightarrow> length l = length r) \<and>
        (case smp_loss_mask s of None \<Rightarrow> True | Some m \<Rightarrow> length m = length r))"

definition new_items :: "server_output \<Rightarrow> (real \<times> int) list" where
  "new_items out = (case out_logprobs out of None \<Rightarrow> [] | Some is \<Rightarrow> is)"

text \<open>The server sends text exactly when it sends tokens, and keeps to \<open>max_new_tokens\<close>.\<close>

definition keeps_limit :: "(payload \<Rightarrow> server_output) \<Rightarrow> bool" where
  "keeps_limit post = (\<forall>pay. (out_text (post pay) = [] \<longleftrightarrow> new_items (post pay) = []) \<and>
     (0 \<le> sp_max_new_tokens (pay_sampling pay) \<longrightarrow> int (length (new_items (post pay))) \<le> sp_max_new_tokens (pay_sampling pay)))"

definition in_progress :: "gen_args \<Rightarrow> tokenizing \<Rightarrow> int list \<Rightarrow> int \<Rightarrow> sample \<Rightarrow> bool" where
  "in_progress args tk prompt limit s \<longleftrightarrow>
     (aligned prompt s \<and> prompt_of tk s = prompt \<and> smp_response_length s \<le> limit \<and> custom_path args s = None \<and> smp_status s \<noteq> FAILED \<and>
      (smp_loss_mask s \<noteq> None \<longrightarrow> ga_partial_rollout args \<and> ga_mask_offpolicy args) \<and>
      (\<not> ga_group_rm args \<and> (smp_status s = COMPLETED \<or> smp_status s = TRUNCATED) \<longrightarrow> smp_reward s \<noteq> PNone))"

lemma update_meta_fields:
  assumes "update_from_meta_info b meta s = Inr s'"
  shows "smp_tokens s' = smp_tokens s \<and> smp_response s' = smp_response s \<and> smp_response_length s' = smp_response_length s \<and>
    smp_loss_mask s' = smp_loss_mask s \<and> smp_rollout_log_probs s' = smp_rollout_log_probs s \<and> smp_prompt s' = smp_prompt s \<and>
    smp_multimodal_inputs s' = smp_multimodal_inputs s \<and> smp_reward s' = smp_reward s \<and>
    smp_generate_function_path s' = smp_generate_function_path s \<and> (smp_status s \<noteq> FAILED \<longrightarrow> smp_status s' \<noteq> FAILED) \<and>
    smp_index s' = smp_index s"
proof -
  obtain si ci v st where "s' = s\<lparr>smp_spec_info := si, smp_prefix_cache_info := ci, smp_weight_versions := v, smp_status := st\<rparr>"
      "smp_status s \<noteq> FAILED \<longrightarrow> st \<noteq> FAILED"
    using assms unfolding update_from_meta_info_def bindE_eq_Inr Let_def
    by (elim exE conjE) (rule that, rule sym, erule sum.inject(2)[THEN iffD1], simp)
  then show ?thesis by simp
qed

lemma no_assertion_conv: "to_int v \<noteq> Inl AssertionError" "to_str v \<noteq> Inl AssertionError" "to_dict v \<noteq> Inl AssertionError"
    "dget d k \<noteq> Inl AssertionError"
  by (cases v; simp)+ (simp add: dget_def split: option.split)

lemma no_assertion_bind: "m \<noteq> Inl AssertionError \<Longrightarrow> (\<And>x. f x \<noteq> Inl AssertionError) \<Longrightarrow> bindE m f \<noteq> Inl AssertionError"
  by (cases m) auto

lemma update_meta_error: "update_from_meta_info b meta s \<noteq> Inl AssertionError"
  unfolding update_from_meta_info_def spec_info_add_def prefix_cache_add_def get_count_def
  by (cases b; cases "map_of meta ''weight_version''") (simp only: if_True if_False option.case Let_def; intro no_assertion_bind no_assertion_conv; simp)+

lemma take_output_parts:
  assumes "take_output args out s = Inr s'"
  shows "smp_tokens s' = smp_tokens s @ map snd (new_items out) \<and> smp_response s' = smp_response s @ out_text out \<and>
    smp_response_length s' = smp_response_length s + int (length (new_items out)) \<and>
    smp_loss_mask s' = map_option (\<lambda>m. m @ replicate (length (new_items out)) 1) (smp_loss_mask s) \<and>
    smp_rollout_log_probs s' = Some ((case smp_rollout_log_probs s of None \<Rightarrow> [] | Some l \<Rightarrow> l) @ map fst (new_items out)) \<and>
    smp_prompt s' = smp_prompt s \<and> smp_multimodal_inputs s' = smp_multimodal_inputs s \<and> smp_reward s' = smp_reward s \<and>
    smp_generate_function_path s' = smp_generate_function_path s \<and> (smp_status s \<noteq> FAILED \<longrightarrow> smp_status s' \<noteq> FAILED) \<and>
    smp_index s' = smp_index s"
  using assms unfolding take_output_def new_items_def[symmetric]
  by (auto simp: bindE_eq_Inr Let_def dest!: update_meta_fields split: option.splits)

lemma take_output_error:
  assumes "smp_loss_mask s \<noteq> None \<longrightarrow> ga_partial_rollout args \<and> ga_mask_offpolicy args"
  shows "take_output args out s \<noteq> Inl AssertionError"
  using assms by (auto simp: take_output_def bindE_eq_Inl bindE_eq_Inr Let_def update_meta_error reshape_experts_def split: option.splits if_splits)

lemma encode_prompt_snd:
  "\<exists>m. snd (encode_prompt tk s) = s\<lparr>smp_multimodal_train_inputs := m\<rparr>"
proof -
  have "\<exists>m. s = s\<lparr>smp_multimodal_train_inputs := m\<rparr>" by (rule exI[of _ "smp_multimodal_train_inputs s"]) simp
  then show ?thesis by (auto simp: encode_prompt_def split: option.split prod.split)
qed

lemma prompt_of_same:
  "smp_prompt s' = smp_prompt s \<Longrightarrow> smp_multimodal_inputs s' = smp_multimodal_inputs s \<Longrightarrow> prompt_of tk s' = prompt_of tk s"
  by (auto simp: prompt_of_def encode_prompt_def uses_processor_def split: option.split prod.split)

lemma make_payload_parts:
  assumes "smp_tokens s = prompt @ r \<or> r = [] \<and> smp_tokens s = []" "smp_response s = [] \<longleftrightarrow> r = []"
  shows "pay_sampling (fst (make_payload args tk prompt sp s)) = sp \<and>
    snd (make_payload args tk prompt sp s) = s\<lparr>smp_tokens := prompt @ r\<rparr>"
proof -
  have "s = s\<lparr>smp_tokens := smp_tokens s\<rparr>" by simp
  then show ?thesis using assms by (auto simp: make_payload_def Let_def)
qed

lemma generate_step:
  assumes "in_progress args tk prompt (sp_max_new_tokens sp) s" "smp_status s = PENDING \<or> smp_status s = ABORTED"
    "keeps_limit post" "\<not> ga_ci_test args"
  shows "generate args tk post sp s \<noteq> Inl AssertionError \<and>
    (\<forall>s'. generate args tk post sp s = Inr s' \<longrightarrow> aligned prompt s' \<and> prompt_of tk s' = prompt \<and>
       smp_response_length s' \<le> sp_max_new_tokens sp \<and> custom_path args s' = None \<and> smp_status s' \<noteq> FAILED \<and>
       (smp_loss_mask s' \<noteq> None \<longrightarrow> ga_partial_rollout args \<and> ga_mask_offpolicy args))"
proof -
  let ?limit = "sp_max_new_tokens sp"
  have p: "aligned prompt s" "prompt_of tk s = prompt" "smp_response_length s \<le> ?limit" "custom_path args s = None" "smp_status s \<noteq> FAILED"
    "smp_loss_mask s \<noteq> None \<longrightarrow> ga_partial_rollout args \<and> ga_mask_offpolicy args"
    using assms(1) by (auto simp: in_progress_def)
  obtain r where r: "smp_response_length s = int (length r)" "smp_response s = [] \<longleftrightarrow> r = []"
    "smp_tokens s = prompt @ r \<or> r = [] \<and> smp_tokens s = []"
    "case smp_rollout_log_probs s of None \<Rightarrow> r = [] | Some l \<Rightarrow> length l = length r"
    "case smp_loss_mask s of None \<Rightarrow> True | Some m \<Rightarrow> length m = length r"
    using p(1) by (auto simp: aligned_def)
  obtain m where m: "snd (encode_prompt tk s) = s\<lparr>smp_multimodal_train_inputs := m\<rparr>" using encode_prompt_snd by blast
  have enc: "encode_prompt tk s = (prompt, s\<lparr>smp_multimodal_train_inputs := m\<rparr>)" using m p(2) by (metis prompt_of_def prod.collapse)
  let ?s = "s\<lparr>smp_multimodal_train_inputs := m\<rparr>"
  let ?b = "?limit - int (length r)"
  have same: "aligned prompt (?s\<lparr>smp_status := TRUNCATED\<rparr>)" using r unfolding aligned_def by (intro exI[of _ r]) simp
  let ?t = "?s\<lparr>smp_tokens := prompt @ r\<rparr>"
  obtain pay where pay: "pay_sampling pay = sp\<lparr>sp_max_new_tokens := ?b\<rparr>" "make_payload args tk prompt (sp\<lparr>sp_max_new_tokens := ?b\<rparr>) ?s = (pay, ?t)"
    using make_payload_parts[of ?s prompt r args tk "sp\<lparr>sp_max_new_tokens := ?b\<rparr>"] r(2,3) by (auto simp: prod_eq_iff)
  have gen: "generate args tk post sp s = (if ?b = 0 then Inr (?s\<lparr>smp_status := TRUNCATED\<rparr>) else take_output args (post pay) ?t)"
  proof -
    have b': "(if smp_response ?s \<noteq> [] then ?limit - (int (length (smp_tokens ?s)) - int (length prompt)) else ?limit) = ?b"
      using r(2,3) by auto
    show ?thesis unfolding generate_def enc prod.case Let_def b' pay(2) using assms(2,4) p(3) r(1) by auto
  qed
  have lim: "sp_max_new_tokens (pay_sampling pay) = ?b" by (simp add: pay(1))
  note k = spec[OF assms(3)[unfolded keeps_limit_def], of pay, unfolded lim]
  have b: "0 \<le> ?b" using p(3) r(1) by simp
  have keep: "out_text (post pay) = [] \<longleftrightarrow> new_items (post pay) = []" "int (length (new_items (post pay))) \<le> ?b"
    by (rule conjunct1[OF k], rule mp[OF conjunct2[OF k] b])
  show ?thesis
  proof (cases "?b = 0")
    case True
    have "prompt_of tk (?s\<lparr>smp_status := TRUNCATED\<rparr>) = prompt" using prompt_of_same[of "?s\<lparr>smp_status := TRUNCATED\<rparr>" s tk] p(2) by simp
    moreover have "custom_path args (?s\<lparr>smp_status := TRUNCATED\<rparr>) = None" using p(4) by (simp add: custom_path_def)
    ultimately show ?thesis unfolding gen using True same p(3,6) by simp
  next
    case False
    have "aligned prompt s' \<and> prompt_of tk s' = prompt \<and> smp_response_length s' \<le> ?limit \<and> custom_path args s' = None \<and> smp_status s' \<noteq> FAILED \<and>
       (smp_loss_mask s' \<noteq> None \<longrightarrow> ga_partial_rollout args \<and> ga_mask_offpolicy args)"
      if "take_output args (post pay) ?t = Inr s'" for s'
    proof -
      note t = take_output_parts[OF that]
      have "aligned prompt s'" unfolding aligned_def
        using t r keep(1) by (intro exI[of _ "r @ map snd (new_items (post pay))"]) (auto split: option.splits)
      moreover have "prompt_of tk s' = prompt" using prompt_of_same[of s' s tk] t p(2) by simp
      moreover have "custom_path args s' = None" using p(4) t by (simp add: custom_path_def)
      ultimately show ?thesis using t r(1) keep(2) p(5,6) by auto
    qed
    moreover have "take_output args (post pay) ?t \<noteq> Inl AssertionError" using take_output_error[of ?t args] p(6) by simp
    ultimately show ?thesis unfolding gen using False by simp
  qed
qed

lemma mask_offpolicy_keeps:
  assumes "in_progress args tk prompt limit s"
  shows "in_progress args tk prompt limit (mask_offpolicy args s)"
proof -
  have a: "aligned prompt s" using assms by (simp add: in_progress_def)
  then have "aligned prompt (mask_offpolicy args s)" by (auto simp: aligned_def mask_offpolicy_def)
  moreover have "prompt_of tk (mask_offpolicy args s) = prompt_of tk s" by (rule prompt_of_same) (simp_all add: mask_offpolicy_def)
  ultimately show ?thesis using assms by (auto simp: in_progress_def mask_offpolicy_def custom_path_def)
qed

definition attempts :: "gen_args \<Rightarrow> tokenizing \<Rightarrow> sampling \<Rightarrow> environment list \<Rightarrow> sample \<Rightarrow> sample result" where
  "attempts args tk sp evs s = foldE (\<lambda>ev. generate_and_rm args tk ev sp) evs s"

lemma attempt_step:
  assumes "in_progress args tk prompt (sp_max_new_tokens sp) s" "keeps_limit (ev_post ev)" "\<not> ga_ci_test args"
    "\<forall>s. ev_reward ev s \<noteq> Inl AssertionError \<and> ev_reward ev s \<noteq> Inr PNone"
  shows "generate_and_rm args tk ev sp s \<noteq> Inl AssertionError \<and>
    (\<forall>s'. generate_and_rm args tk ev sp s = Inr s' \<longrightarrow> in_progress args tk prompt (sp_max_new_tokens sp) s')"
proof -
  let ?s = "mask_offpolicy args s"
  have i: "in_progress args tk prompt (sp_max_new_tokens sp) ?s" by (rule mask_offpolicy_keeps[OF assms(1)])
  have cp: "custom_path args ?s = None" using i by (simp add: in_progress_def)
  consider (fin) "smp_status ?s = COMPLETED \<or> smp_status ?s = TRUNCATED"
    | (aborted) "\<not> (smp_status ?s = COMPLETED \<or> smp_status ?s = TRUNCATED)" "ev_aborted ev"
    | (run) "smp_status ?s = PENDING \<or> smp_status ?s = ABORTED" "\<not> ev_aborted ev"
    using i by (cases "smp_status ?s") (auto simp: in_progress_def)
  then show ?thesis
  proof cases
    case fin
    then show ?thesis using i by (auto simp: generate_and_rm_def Let_def in_progress_def)
  next
    case aborted
    have "aligned prompt (?s\<lparr>smp_status := ABORTED\<rparr>)" using i by (auto simp: in_progress_def aligned_def)
    moreover have "prompt_of tk (?s\<lparr>smp_status := ABORTED\<rparr>) = prompt" using i prompt_of_same[of "?s\<lparr>smp_status := ABORTED\<rparr>" ?s tk] by (simp add: in_progress_def)
    ultimately show ?thesis using aborted i by (simp add: generate_and_rm_def Let_def in_progress_def custom_path_def)
  next
    case run
    note g = generate_step[OF i run(1) assms(2,3)]
    have eq: "generate_and_rm args tk ev sp s = bindE (generate args tk (ev_post ev) sp ?s) (\<lambda>s.
        if ga_group_rm args \<or> smp_status s = ABORTED \<or> smp_reward s \<noteq> PNone then Inr s
        else bindE (ev_reward ev s) (\<lambda>r. Inr (s\<lparr>smp_reward := r\<rparr>)))"
      using run cp by (auto simp: generate_and_rm_def Let_def)
    have rew: "in_progress args tk prompt (sp_max_new_tokens sp) (s'\<lparr>smp_reward := v\<rparr>)"
      if s': "generate args tk (ev_post ev) sp ?s = Inr s'" "v \<noteq> PNone" for s' v
    proof -
      have f: "aligned prompt s'" "prompt_of tk s' = prompt" using g s'(1) by auto
      have "aligned prompt (s'\<lparr>smp_reward := v\<rparr>)" using f(1) by (auto simp: aligned_def)
      moreover have "prompt_of tk (s'\<lparr>smp_reward := v\<rparr>) = prompt" using f(2) prompt_of_same[of "s'\<lparr>smp_reward := v\<rparr>" s' tk] by simp
      ultimately show ?thesis using g s' by (auto simp: in_progress_def custom_path_def)
    qed
    show ?thesis unfolding eq
    proof (intro conjI allI impI)
      show "bindE (generate args tk (ev_post ev) sp ?s) (\<lambda>s.
        if ga_group_rm args \<or> smp_status s = ABORTED \<or> smp_reward s \<noteq> PNone then Inr s
        else bindE (ev_reward ev s) (\<lambda>r. Inr (s\<lparr>smp_reward := r\<rparr>))) \<noteq> Inl AssertionError"
        using g assms(4) by (auto simp: bindE_eq_Inl split: if_splits)
    next
      fix s' assume "bindE (generate args tk (ev_post ev) sp ?s) (\<lambda>s.
        if ga_group_rm args \<or> smp_status s = ABORTED \<or> smp_reward s \<noteq> PNone then Inr s
        else bindE (ev_reward ev s) (\<lambda>r. Inr (s\<lparr>smp_reward := r\<rparr>))) = Inr s'"
      then obtain t where t: "generate args tk (ev_post ev) sp ?s = Inr t"
        "s' = t \<and> (ga_group_rm args \<or> smp_status t = ABORTED \<or> smp_reward t \<noteq> PNone) \<or> (\<exists>v. ev_reward ev t = Inr v \<and> s' = t\<lparr>smp_reward := v\<rparr>)"
        by (auto simp: bindE_eq_Inr split: if_splits)
      from t(2) show "in_progress args tk prompt (sp_max_new_tokens sp) s'"
      proof
        assume "s' = t \<and> (ga_group_rm args \<or> smp_status t = ABORTED \<or> smp_reward t \<noteq> PNone)"
        then show ?thesis using g t(1) by (auto simp: in_progress_def)
      next
        assume "\<exists>v. ev_reward ev t = Inr v \<and> s' = t\<lparr>smp_reward := v\<rparr>"
        then obtain v where v: "ev_reward ev t = Inr v" "s' = t\<lparr>smp_reward := v\<rparr>" by blast
        have "v \<noteq> PNone" using v(1) assms(4) by metis
        then show ?thesis using rew[OF t(1)] v(2) by simp
      qed
    qed
  qed
qed


definition demo_gen_args :: gen_args where
  "demo_gen_args = \<lparr>ga_ci_test = False, ga_partial_rollout = True, ga_mask_offpolicy = True, ga_group_rm = False,
     ga_rollout_global_dataset = True, ga_routing_replay = False, ga_deterministic = False, ga_consistent_hashing = False,
     ga_speculative = False, ga_rollout_seed = 0, ga_n_samples_per_prompt = 1, ga_rollout_batch_size = 1,
     ga_over_sampling_batch_size = 2, ga_num_layers = 1, ga_moe_router_topk = 1, ga_custom_path = None\<rparr>"

definition demo_tokenizing :: tokenizing where
  "demo_tokenizing = \<lparr>tk_encode = (\<lambda>_. [10, 11]), tk_processor = None, tk_image = id\<rparr>"

text \<open>A server that sends one token and stops for the given reason.\<close>

definition demo_env :: "string \<Rightarrow> environment" where
  "demo_env why = \<lparr>ev_post = (\<lambda>pay. if sp_max_new_tokens (pay_sampling pay) \<le> 0
        then \<lparr>out_text = [], out_logprobs = None, out_experts = None, out_meta = []\<rparr>
        else \<lparr>out_text = ''x'', out_logprobs = Some [(0, 7)], out_experts = None,
               out_meta = [(''finish_reason'', PDict [(''type'', PStr why)])]\<rparr>),
     ev_aborted = False, ev_custom = (\<lambda>_ _ _. Inl KeyError), ev_reward = (\<lambda>_. Inr (PInt 1))\<rparr>"

definition demo_sampling :: sampling where
  "demo_sampling = \<lparr>sp_max_new_tokens = 2, sp_seed = None, sp_rest = []\<rparr>"


section \<open>A rollout\<close>

lemma take_done_mset: "take_done picks pendings = (ds, rest) \<Longrightarrow> mset ds + mset rest = mset pendings"
proof (induction picks pendings arbitrary: ds rest rule: take_done.induct)
  case (2 p picks pendings)
  show ?case
  proof (cases "pendings = []")
    case False
    let ?i = "p mod length pendings"
    obtain ds' where d: "take_done picks (take ?i pendings @ drop (Suc ?i) pendings) = (ds', rest)" "ds = pendings ! ?i # ds'"
      using "2.prems" False by (auto simp: Let_def split: prod.splits)
    have "?i < length pendings" using False by simp
    then have "mset pendings = add_mset (pendings ! ?i) (mset (take ?i pendings @ drop (Suc ?i) pendings))"
      by (metis id_take_nth_drop mset.simps(2) mset_append union_mset_add_mset_right)
    then show ?thesis using "2.IH"[OF False refl d(1)] d(2) by simp
  qed (use "2.prems" in auto)
qed auto

lemma take_done_some: "take_done (p # picks) pendings = (ds, rest) \<Longrightarrow> pendings \<noteq> [] \<Longrightarrow> ds \<noteq> []"
  by (auto simp: Let_def split: prod.splits)

definition kept :: "dynamic_filter option \<Rightarrow> sample list list \<Rightarrow> sample list list" where
  "kept flt gs = filter (\<lambda>g. fst (call_dynamic_filter flt g)) gs"

text \<open>The state of a rollout; \<open>ds\<close> are tasks that are done and not yet looked at.\<close>

definition rollout_ok :: "gen_args \<Rightarrow> dynamic_filter option \<Rightarrow> sample list list \<Rightarrow> 's gen_state \<Rightarrow> bool" where
  "rollout_ok args flt ds st =
     (gs_data st = take (ga_rollout_batch_size args) (kept flt (gs_all_data st)) \<and>
      gs_remaining st = length (kept flt (gs_all_data st)) + length (gs_pendings st) + length ds \<and>
      (\<forall>g \<in> set (gs_all_data st). length g = ga_n_samples_per_prompt args))"

definition numbers :: "sample list \<Rightarrow> int option list" where
  "numbers g = map smp_index g"

text \<open>A source that remembers what it gave away, and where all of it is.\<close>

definition logging :: "('s \<Rightarrow> sample list list \<times> 's) \<Rightarrow> sample list list \<times> 's \<Rightarrow> sample list list \<times> (sample list list \<times> 's)" where
  "logging fetch = (\<lambda>(log, s). (fst (fetch s), (log @ fst (fetch s), snd (fetch s))))"

definition accounted :: "sample list list \<Rightarrow> (sample list list \<times> 's) gen_state \<Rightarrow> bool" where
  "accounted ds st = (mset (map numbers (fst (gs_source st))) =
     mset (map numbers (gs_all_data st)) + mset (map numbers (gs_pendings st)) + mset (map numbers ds))"

lemma finish_task_keeps:
  assumes "finish_task args flt run task st = Inr st'" "rollout_ok args flt (task # ds) st"
  shows "rollout_ok args flt ds st' \<and> gs_source st' = gs_source st \<and> gs_pendings st' = gs_pendings st \<and>
    (\<exists>g. run task = Inr g \<and> gs_all_data st' = gs_all_data st @ [g])"
proof -
  obtain g where g: "run task = Inr g" "length g = ga_n_samples_per_prompt args"
    using assms(1) by (auto simp: finish_task_def bindE_eq_Inr)
  obtain keep reason where f: "call_dynamic_filter flt g = (keep, reason)" by (cases "call_dynamic_filter flt g")
  have st': "st' = (let st = st\<lparr>gs_all_data := gs_all_data st @ [g]\<rparr> in
      if \<not> keep then st\<lparr>gs_drops := on_dynamic_filter_drop reason (gs_drops st), gs_remaining := gs_remaining st - 1\<rparr>
      else if length (gs_data st) < ga_rollout_batch_size args then st\<lparr>gs_data := gs_data st @ [g]\<rparr> else st)"
    using assms(1) g f by (simp add: finish_task_def Let_def bindE_eq_Inr split: if_splits)
  show ?thesis
  proof (cases keep)
    case False
    then show ?thesis using assms(2) g f by (auto simp: st' Let_def rollout_ok_def kept_def)
  next
    case True
    then have k: "kept flt (gs_all_data st @ [g]) = kept flt (gs_all_data st) @ [g]" using f by (simp add: kept_def)
    then show ?thesis using assms(2) True g by (auto simp: st' Let_def rollout_ok_def)
  qed
qed

lemma finish_tasks_keep:
  assumes "foldE (finish_task args flt run) ds st = Inr st'" "rollout_ok args flt ds st"
  shows "rollout_ok args flt [] st' \<and> gs_source st' = gs_source st \<and> gs_pendings st' = gs_pendings st \<and>
    (\<exists>gs. list_all2 (\<lambda>d g. run d = Inr g) ds gs \<and> gs_all_data st' = gs_all_data st @ gs)"
  using assms
proof (induction ds arbitrary: st)
  case (Cons d ds)
  obtain u where u: "finish_task args flt run d st = Inr u" "foldE (finish_task args flt run) ds u = Inr st'"
    using Cons.prems(1) by (auto simp: bindE_eq_Inr)
  have f: "rollout_ok args flt ds u" "gs_source u = gs_source st" "gs_pendings u = gs_pendings st"
    using finish_task_keeps[OF u(1) Cons.prems(2)] by auto
  obtain g where g: "run d = Inr g" "gs_all_data u = gs_all_data st @ [g]" using finish_task_keeps[OF u(1) Cons.prems(2)] by blast
  obtain gs where "list_all2 (\<lambda>d g. run d = Inr g) ds gs" "gs_all_data st' = gs_all_data u @ gs" using Cons.IH[OF u(2) f(1)] by blast
  then have "list_all2 (\<lambda>d g. run d = Inr g) (d # ds) (g # gs) \<and> gs_all_data st' = gs_all_data st @ (g # gs)" using g by simp
  then show ?case using Cons.IH[OF u(2) f(1)] f by metis
qed auto

lemma submit_until_keeps:
  assumes "submit_until fetch target st = Some st'"
  shows "(rollout_ok args flt [] st \<longrightarrow> rollout_ok args flt [] st') \<and> target \<le> gs_remaining st' \<and> gs_data st' = gs_data st"
  using assms
proof (induction rule: submit_until.raw_induct[rotated 1, consumes 1])
  case (1 submit_until fetch target st st')
  show ?case
  proof (cases "gs_remaining st < target")
    case True
    let ?u = "submit (fst (fetch (gs_source st))) (st\<lparr>gs_source := snd (fetch (gs_source st))\<rparr>)"
    have "(rollout_ok args flt [] ?u \<longrightarrow> rollout_ok args flt [] st') \<and> target \<le> gs_remaining st' \<and> gs_data st' = gs_data ?u"
      using 1 True by simp
    moreover have "rollout_ok args flt [] st \<longrightarrow> rollout_ok args flt [] ?u" "gs_data ?u = gs_data st"
      by (simp_all add: rollout_ok_def submit_def)
    ultimately show ?thesis by simp
  qed (use 1 in auto)
qed

lemma submit_until_accounted:
  assumes "submit_until (logging fetch) target st = Some st'" "accounted [] st"
  shows "accounted [] st'"
  using assms
proof (induction "logging fetch" target st st' rule: submit_until.raw_induct[rotated 1, consumes 1])
  case (1 submit_until target st st')
  show ?case
  proof (cases "gs_remaining st < target")
    case True
    let ?u = "submit (fst (logging fetch (gs_source st))) (st\<lparr>gs_source := snd (logging fetch (gs_source st))\<rparr>)"
    have "accounted [] ?u" using 1(3) by (cases "gs_source st") (auto simp: accounted_def submit_def logging_def)
    then show ?thesis using 1 True by simp
  qed (use 1 in auto)
qed

lemma same_numbers:
  assumes "list_all2 (\<lambda>d g. run d = Inr g) ds gs" "\<forall>d g. run d = Inr g \<longrightarrow> numbers g = numbers d"
  shows "map numbers gs = map numbers ds"
  using assms(1) by (induction rule: list_all2_induct) (auto simp: assms(2))

lemma finish_tasks_accounted:
  assumes "foldE (finish_task args flt run) ds st = Inr st'" "rollout_ok args flt ds st" "accounted ds st"
    "\<forall>d g. run d = Inr g \<longrightarrow> numbers g = numbers d"
  shows "accounted [] st'"
proof -
  obtain gs where "list_all2 (\<lambda>d g. run d = Inr g) ds gs" "gs_all_data st' = gs_all_data st @ gs"
    "gs_source st' = gs_source st" "gs_pendings st' = gs_pendings st"
    using finish_tasks_keep[OF assms(1,2)] by blast
  then show ?thesis using assms(3) same_numbers[OF _ assms(4)] by (simp add: accounted_def)
qed

lemma wait_splits:
  assumes "take_done picks (gs_pendings st) = (ds, rest)" "rollout_ok args flt [] st"
  shows "rollout_ok args flt ds (st\<lparr>gs_pendings := rest\<rparr>)"
  using assms(2) arg_cong[OF take_done_mset[OF assms(1)], of size] by (simp add: rollout_ok_def)

lemma wait_accounted:
  assumes "take_done picks (gs_pendings st) = (ds, rest)" "accounted [] st"
  shows "accounted ds (st\<lparr>gs_pendings := rest\<rparr>)"
proof -
  have "mset (map numbers (gs_pendings st)) = mset (map numbers rest) + mset (map numbers ds)"
    by (simp add: take_done_mset[OF assms(1), symmetric])
  then show ?thesis using assms(2) by (simp add: accounted_def)
qed

lemma rollout_loop_step:
  assumes "rollout_loop args flt run fetch waits st = Inr (Some st')" "length (gs_data st) < ga_rollout_batch_size args"
  obtains p ps ws u ds rest v where "waits = (p, ps) # ws" "submit_until fetch (ga_rollout_batch_size args) st = Some u"
    "take_done (p # ps) (gs_pendings u) = (ds, rest)" "foldE (finish_task args flt run) ds (u\<lparr>gs_pendings := rest\<rparr>) = Inr v"
    "rollout_loop args flt run fetch ws v = Inr (Some st')"
proof -
  obtain u where u: "submit_until fetch (ga_rollout_batch_size args) st = Some u"
    using assms by (subst (asm) rollout_loop.simps) (auto split: option.splits)
  obtain p ps ws where w: "waits = (p, ps) # ws"
    using assms u by (subst (asm) rollout_loop.simps) (auto split: list.splits)
  obtain ds rest where d: "take_done (p # ps) (gs_pendings u) = (ds, rest)" by fastforce
  have "bindE (raise_unless ValueError (gs_pendings u \<noteq> [])) (\<lambda>_. bindE (foldE (finish_task args flt run) ds (u\<lparr>gs_pendings := rest\<rparr>)) (\<lambda>st.
                 rollout_loop args flt run fetch ws st)) = Inr (Some st')"
    using assms u w d by (subst (asm) rollout_loop.simps) (simp add: Let_def)
  then show thesis using that[OF w u d] by (auto simp: bindE_eq_Inr)
qed

lemma rollout_loop_keeps:
  assumes "rollout_loop args flt run (logging fetch) waits st = Inr (Some st')" "rollout_ok args flt [] st" "accounted [] st"
    "\<forall>d g. run d = Inr g \<longrightarrow> numbers g = numbers d"
  shows "rollout_ok args flt [] st' \<and> accounted [] st' \<and> ga_rollout_batch_size args \<le> length (gs_data st')"
  using assms(1-3)
proof (induction "length waits" arbitrary: waits st rule: less_induct)
  case less
  show ?case
  proof (cases "length (gs_data st) < ga_rollout_batch_size args")
    case False
    then have "st' = st" using less.prems(1) by (subst (asm) rollout_loop.simps) simp
    then show ?thesis using less.prems False by simp
  next
    case True
    from rollout_loop_step[OF less.prems(1) True] obtain p ps ws u ds rest v where s: "waits = (p, ps) # ws"
      "submit_until (logging fetch) (ga_rollout_batch_size args) st = Some u" "take_done (p # ps) (gs_pendings u) = (ds, rest)"
      "foldE (finish_task args flt run) ds (u\<lparr>gs_pendings := rest\<rparr>) = Inr v" "rollout_loop args flt run (logging fetch) ws v = Inr (Some st')" .
    have u: "rollout_ok args flt [] u" "accounted [] u"
      using submit_until_keeps[OF s(2), of args flt] submit_until_accounted[OF s(2)] less.prems(2,3) by auto
    note o = wait_splits[OF s(3) u(1)]
    have "rollout_ok args flt [] v" using finish_tasks_keep[OF s(4) o] by blast
    moreover have "accounted [] v" by (rule finish_tasks_accounted[OF s(4) o wait_accounted[OF s(3) u(2)] assms(4)])
    ultimately show ?thesis using less.hyps[OF _ s(5)] s(1) by simp
  qed
qed

lemma abort_numbers:
  assumes "abort args rid run_aborted picks pendings = Inr gs" "ga_partial_rollout args" "\<forall>d g. run_aborted d = Inr g \<longrightarrow> numbers g = numbers d"
  shows "mset (map numbers gs) = mset (map numbers pendings)"
proof -
  obtain ds rest where d: "take_done picks pendings = (ds, rest)" by fastforce
  have m: "mapE (\<lambda>task. bindE (run_aborted task) (\<lambda>g. Inr (map (mark_partial rid) g))) xs = Inr ys \<Longrightarrow> map numbers ys = map numbers xs" for xs ys
  proof (induction xs arbitrary: ys)
    case (Cons x xs)
    have "numbers (map (mark_partial rid) g) = numbers g" for g by (simp add: numbers_def mark_partial_def)
    then show ?case using Cons assms(3) by (auto simp: bindE_eq_Inr)
  qed simp
  have "map numbers gs = map numbers (ds @ rest)" using assms(1,2) d m[of "ds @ rest" gs] by (simp add: abort_def)
  then have "mset (map numbers gs) = image_mset numbers (mset ds + mset rest)" by simp
  then show ?thesis using take_done_mset[OF d] by simp
qed


text \<open>A source of numbered groups of one sample; two are fetched for one that is asked for.\<close>

definition demo_fetch :: "int \<Rightarrow> sample list list \<times> int" where
  "demo_fetch k = ([[sample_new\<lparr>smp_index := Some k\<rparr>], [sample_new\<lparr>smp_index := Some (k + 1)\<rparr>]], k + 2)"

lemma demo_rollout:
  "generate_rollout_async demo_gen_args 5 None Inr Inr (logging demo_fetch) [(1, [])] [] ([], 0) =
    Inr (Some (\<lparr>rr_data = [[sample_new\<lparr>smp_index := Some 1\<rparr>]], rr_all_samples = [[sample_new\<lparr>smp_index := Some 1\<rparr>]], rr_drops = [],
      rr_aborted = [[sample_new\<lparr>smp_index := Some 0\<rparr>]]\<rparr>, (fst (demo_fetch 0), 2)))"
proof -
  let ?st = "\<lparr>gs_source = ([], 0 :: int), gs_remaining = 0, gs_pendings = [], gs_data = [], gs_all_data = [], gs_drops = []\<rparr>"
  let ?u = "\<lparr>gs_source = (fst (demo_fetch 0), 2), gs_remaining = 2, gs_pendings = fst (demo_fetch 0), gs_data = [], gs_all_data = [], gs_drops = []\<rparr>"
  have s: "submit_until (logging demo_fetch) (Suc 0) ?st = Some ?u"
    by (subst submit_until.simps, subst submit_until.simps) (simp add: submit_def logging_def demo_fetch_def)
  have "rollout_loop demo_gen_args None Inr (logging demo_fetch) [(1, [])] ?st = Inr (Some
      \<lparr>gs_source = (fst (demo_fetch 0), 2), gs_remaining = 2, gs_pendings = [[sample_new\<lparr>smp_index := Some 0\<rparr>]],
       gs_data = [[sample_new\<lparr>smp_index := Some 1\<rparr>]], gs_all_data = [[sample_new\<lparr>smp_index := Some 1\<rparr>]], gs_drops = []\<rparr>)"
    unfolding rollout_loop.simps[of demo_gen_args None Inr "logging demo_fetch" "[(1, [])]" ?st]
    by (simp add: s demo_gen_args_def demo_fetch_def finish_task_def call_dynamic_filter_def rollout_loop.simps[of _ _ _ _ "[]"])
  then show ?thesis
    by (simp add: generate_rollout_async_def demo_gen_args_def abort_def sort_groups_def mark_partial_def collect_def has_index_def)
      (simp add: sample_new_def)
qed


end
