(* ===== verification/Source_Interface.thy ===== *)
theory Source_Interface
  imports Data_Rules
begin

text \<open>
  What a rollout relies on in a source of groups, as a locale, and the proof that the buffered source of
  \<open>rollout/data_source.py\<close> provides it.
\<close>

definition usable :: "nat \<Rightarrow> sample list \<Rightarrow> bool" where
  "usable n g \<longleftrightarrow> length g = n \<and> list_all (\<lambda>s. smp_index s \<noteq> None) g"

lemma usable_iff: "usable n g \<longleftrightarrow> length (map smp_index g) = n \<and> None \<notin> set (map smp_index g)"
proof -
  have "list_all (\<lambda>s. smp_index s \<noteq> None) g \<longleftrightarrow> None \<notin> set (map smp_index g)" by (induction g) auto
  then show ?thesis by (simp add: usable_def)
qed

lemma usable_numbers: "map smp_index g' = map smp_index g \<Longrightarrow> usable n g' = usable n g"
  by (simp only: usable_iff)

locale group_source =
  fixes fetch :: "'s \<Rightarrow> sample list list \<times> 's"
    and give :: "sample list list \<Rightarrow> 's \<Rightarrow> 's \<times> unit result"
    and ready :: "'s \<Rightarrow> bool"
    and n :: nat
  assumes fetch_some: "ready s \<Longrightarrow> fst (fetch s) \<noteq> []"
    and fetch_usable: "ready s \<Longrightarrow> list_all (usable n) (fst (fetch s))"
    and fetch_ready: "ready s \<Longrightarrow> ready (snd (fetch s))"
    and give_ready: "ready s \<Longrightarrow> list_all (usable n) gs \<Longrightarrow> snd (give gs s) = Inr () \<and> ready (fst (give gs s))"

section \<open>The buffered source\<close>

text \<open>The source is somewhere in the stream of a data set with at least \<open>k\<close> prompts, and the buffer holds whole groups.\<close>

definition source_ready :: "shuffler \<Rightarrow> ds_args \<Rightarrow> nat \<Rightarrow> buffered \<Rightarrow> bool" where
  "source_ready perm args k b \<longleftrightarrow> shuffles perm \<and> 0 < k \<and>
     (\<exists>origin seed e off. k \<le> length origin \<and> source_at perm args origin seed e off (data_source.truncate b)) \<and>
     list_all (usable (da_n_samples_per_prompt args)) (src_buffer b)"

lemma sample_groups_usable: "list_all (usable n) (sample_groups n g i ps)"
  by (induction ps arbitrary: g i) (auto simp: usable_def sample_group_def list_all_iff)

lemma length_sample_groups: "length (sample_groups n g i ps) = length ps"
  by (simp add: sample_groups_map)

lemma get_samples_at:
  assumes "shuffles perm" "source_at perm args origin seed e off s" "k \<le> length origin"
  obtains gs s' e' off' where "get_samples perm args (int k) s = (gs, s')" "length gs = k"
    "list_all (usable (da_n_samples_per_prompt args)) gs" "source_at perm args origin seed e' off' s'"
proof -
  obtain e' off' s' where t: "take_prompts perm args (int k) s =
      (map (\<lambda>i. stream_prompt perm args origin seed (e * length origin + off + i)) [0..<k], s')" "source_at perm args origin seed e' off' s'"
    using take_prompts_at[OF assms] by blast
  let ?s = "s'\<lparr>src_sample_group_index := src_sample_group_index s' + int k,
      src_sample_index := src_sample_index s' + int (k * da_n_samples_per_prompt args)\<rparr>"
  have "source_at perm args origin seed e' off' ?s" using t(2) by (simp add: source_at_def)
  with that show thesis
    using t(1) by (simp add: get_samples_def Let_def) (metis diff_zero length_map length_sample_groups length_upt sample_groups_usable)
qed

lemma from_buffer:
  "get_samples_from_buffer pop_first (int k) b = (take k (src_buffer b), b\<lparr>src_buffer := drop k (src_buffer b)\<rparr>)"
proof (cases "src_buffer b = [] \<or> k = 0")
  case True
  then have "b\<lparr>src_buffer := drop k (src_buffer b)\<rparr> = b" by auto
  then show ?thesis using True by (auto simp: get_samples_from_buffer_def)
next
  case False
  have m: "min (int (length (src_buffer b))) (int k) = int (min (length (src_buffer b)) k)" by simp
  have "py_slice (src_buffer b) 0 (min (int (length (src_buffer b))) (int k)) = take k (src_buffer b)"
    unfolding m using py_slice_of_nat[of "src_buffer b" 0 "min (length (src_buffer b)) k"] by (cases "k \<le> length (src_buffer b)") simp_all
  moreover have "drop (min (length (src_buffer b)) k) (src_buffer b) = drop k (src_buffer b)"
    by (cases "k \<le> length (src_buffer b)") simp_all
  ultimately show ?thesis using False by (auto simp: get_samples_from_buffer_def pop_first_def Let_def)
qed

lemma truncate_buffer [simp]: "data_source.truncate (b\<lparr>src_buffer := x\<rparr>) = data_source.truncate b"
  by (simp add: data_source.truncate_def)

lemma with_source_parts [simp]: "data_source.truncate (with_source s b) = s" "src_buffer (with_source s b) = src_buffer b"
  by (simp_all add: with_source_def data_source.truncate_def data_source.extend_def buffered.fields_def)

lemma buffered_fetch:
  assumes "source_ready perm args k b"
  obtains gs b' where "buffered_get_samples perm pop_first args (int k) b = (gs, b')" "gs \<noteq> []"
    "list_all (usable (da_n_samples_per_prompt args)) gs" "source_ready perm args k b'"
proof -
  let ?u = "usable (da_n_samples_per_prompt args)" and ?buf = "src_buffer b" and ?k = "k - length (src_buffer b)"
  obtain origin seed e off where s: "shuffles perm" "0 < k" "k \<le> length origin" "source_at perm args origin seed e off (data_source.truncate b)"
    and buf: "list_all ?u ?buf" using assms by (auto simp: source_ready_def)
  have td: "list_all ?u (take k ?buf)" "list_all ?u (drop k ?buf)" using buf by (auto simp: list_all_iff dest: in_set_takeD in_set_dropD)
  have n: "int k - int (length (take k ?buf)) = int ?k" by (simp add: min_def)
  show thesis
  proof (cases "?k = 0")
    case True
    then have "take k ?buf \<noteq> []" using s(2) by auto
    moreover have "buffered_get_samples perm pop_first args (int k) b = (take k ?buf, b\<lparr>src_buffer := drop k ?buf\<rparr>)"
      using n True by (simp add: buffered_get_samples_def from_buffer Let_def)
    moreover have "source_ready perm args k (b\<lparr>src_buffer := drop k ?buf\<rparr>)"
      unfolding source_ready_def using s td(2) by auto
    ultimately show thesis using that td(1) by blast
  next
    case False
    have "?k \<le> length origin" using s(3) by simp
    then obtain gs s' e' off' where g: "get_samples perm args (int ?k) (data_source.truncate b) = (gs, s')" "length gs = ?k"
      "list_all ?u gs" "source_at perm args origin seed e' off' s'" using get_samples_at[OF s(1,4)] by blast
    let ?b = "with_source s' (b\<lparr>src_buffer := drop k ?buf\<rparr>)"
    have "buffered_get_samples perm pop_first args (int k) b = (take k ?buf @ gs, ?b)"
      using n False g(1) by (simp add: buffered_get_samples_def from_buffer Let_def)
    moreover have "take k ?buf @ gs \<noteq> []" using g(2) False by auto
    moreover have "source_ready perm args k ?b"
      unfolding source_ready_def using s(1-3) g(4) td(2) by auto
    ultimately show thesis using that td(1) g(3) by (metis list_all_append)
  qed
qed

lemma buffered_give:
  assumes "source_ready perm args k b" "list_all (usable (da_n_samples_per_prompt args)) gs"
  shows "snd (add_samples args gs b) = Inr () \<and> source_ready perm args k (fst (add_samples args gs b))"
proof -
  have ok: "list_all (\<lambda>g. length g = da_n_samples_per_prompt args) gs" using assms(2) by (auto simp: list_all_iff usable_def)
  then have "takeWhile (\<lambda>g. length g = da_n_samples_per_prompt args) gs = gs" by (simp add: list_all_iff)
  then show ?thesis using assms ok by (auto simp: add_samples_def Let_def source_ready_def assertE_def simp del: takeWhile_eq_all_conv)
qed

interpretation buffered_source: group_source "buffered_get_samples perm pop_first args (int k)" "add_samples args"
  "source_ready perm args k" "da_n_samples_per_prompt args" for perm args k
proof unfold_locales
  fix b assume r: "source_ready perm args k b"
  obtain gs b' where "buffered_get_samples perm pop_first args (int k) b = (gs, b')" "gs \<noteq> []"
    "list_all (usable (da_n_samples_per_prompt args)) gs" "source_ready perm args k b'" using buffered_fetch[OF r] .
  then show "fst (buffered_get_samples perm pop_first args (int k) b) \<noteq> []"
    "list_all (usable (da_n_samples_per_prompt args)) (fst (buffered_get_samples perm pop_first args (int k) b))"
    "source_ready perm args k (snd (buffered_get_samples perm pop_first args (int k) b))" by simp_all
qed (use buffered_give in blast)

end
