(* ===== verification/Generation_Order.thy ===== *)
theory Generation_Order
  imports Generation_Rules Source_Interface
begin

text \<open>
  A rollout gets through on every source that keeps the contract of \<open>group_source\<close>, and what it returns does not depend
  on the order in which tasks finish where it should not.
\<close>

section \<open>No rollout gets stuck\<close>

text \<open>Tasks end, and keep the numbers of their samples.\<close>

definition finishing :: "nat \<Rightarrow> (sample list \<Rightarrow> sample list result) \<Rightarrow> bool" where
  "finishing n run \<longleftrightarrow>
     (\<forall>g. length g = n \<and> (\<forall>s \<in> set g. smp_index s \<noteq> None) \<longrightarrow> (\<exists>g'. run g = Inr g' \<and> map smp_index g' = map smp_index g))"

lemma finishing_usable:
  assumes "finishing n run" "usable n g"
  obtains g' where "run g = Inr g'" "usable n g'"
proof -
  obtain g' where "run g = Inr g'" "map smp_index g' = map smp_index g"
    using assms unfolding finishing_def usable_def list_all_iff by blast
  then show thesis using that assms(2) usable_numbers by blast
qed

context group_source
begin

definition sound :: "'s gen_state \<Rightarrow> bool" where
  "sound st \<longleftrightarrow> ready (gs_source st) \<and> list_all (usable n) (gs_pendings st) \<and> list_all (usable n) (gs_all_data st)"

lemma submit_until_total:
  assumes "sound st"
  shows "\<exists>st'. submit_until fetch target st = Some st' \<and> sound st'"
  using assms
proof (induction "target - gs_remaining st" arbitrary: st rule: less_induct)
  case less
  show ?case
  proof (cases "gs_remaining st < target")
    case True
    let ?u = "submit (fst (fetch (gs_source st))) (st\<lparr>gs_source := snd (fetch (gs_source st))\<rparr>)"
    have r: "ready (gs_source st)" using less.prems by (simp add: sound_def)
    have ne: "0 < length (fst (fetch (gs_source st)))" using fetch_some[OF r] by simp
    have "gs_remaining ?u = gs_remaining st + length (fst (fetch (gs_source st)))" by (simp add: submit_def)
    then have "target - gs_remaining ?u < target - gs_remaining st" using True ne by linarith
    moreover have "sound ?u" using less.prems fetch_usable[OF r] fetch_ready[OF r] by (simp add: sound_def submit_def)
    ultimately show ?thesis using less.hyps[of ?u] True by (simp add: submit_until.simps[of fetch target st])
  qed (use less.prems in \<open>simp add: submit_until.simps\<close>)
qed

lemma finish_task_total:
  assumes "finishing n run" "usable n d" "sound st" "0 < n" "ga_n_samples_per_prompt args = n"
  shows "\<exists>st'. finish_task args flt run d st = Inr st' \<and> sound st'"
proof -
  obtain g where g: "run d = Inr g" "usable n g" using finishing_usable[OF assms(1,2)] .
  then have "g \<noteq> []" "length g = n" using assms(4) by (auto simp: usable_def)
  then show ?thesis using g assms(3,5) by (auto simp: finish_task_def Let_def sound_def split: prod.split)
qed

lemma finish_tasks_total:
  assumes "finishing n run" "list_all (usable n) ds" "sound st" "0 < n" "ga_n_samples_per_prompt args = n"
  shows "\<exists>st'. foldE (finish_task args flt run) ds st = Inr st' \<and> sound st'"
  using assms(2,3)
proof (induction ds arbitrary: st)
  case (Cons d ds)
  obtain u where "finish_task args flt run d st = Inr u" "sound u"
    using finish_task_total[OF assms(1) _ Cons.prems(2) assms(4,5)] Cons.prems(1) by auto
  then show ?case using Cons by simp
qed simp

text \<open>One turn of the loop, as long as groups are missing: there are pending tasks, and without a filter a group is added.\<close>

lemma turn_total:
  assumes "finishing n run" "0 < n" "ga_n_samples_per_prompt args = n" "rollout_ok args flt [] st" "sound st"
    "length (gs_data st) < ga_rollout_batch_size args"
  obtains v where "rollout_ok args flt [] v" "sound v" "flt = None \<longrightarrow> length (gs_data st) < length (gs_data v)"
    "rollout_loop args flt run fetch ((p, ps) # waits) st = rollout_loop args flt run fetch waits v"
proof -
  let ?n = "ga_rollout_batch_size args"
  obtain u where u: "submit_until fetch ?n st = Some u" "sound u" using submit_until_total[OF assms(5)] by blast
  have uk: "rollout_ok args flt [] u" "?n \<le> gs_remaining u" "gs_data u = gs_data st"
    using submit_until_keeps[OF u(1), of args flt] assms(4) by auto
  obtain ds rest where d: "take_done (p # ps) (gs_pendings u) = (ds, rest)" by fastforce
  have "length (kept flt (gs_all_data u)) < ?n" using assms(6) uk(1,3) by (simp add: rollout_ok_def)
  then have pend: "gs_pendings u \<noteq> []" using uk(1,2) by (auto simp: rollout_ok_def)
  have "set ds \<union> set rest = set (gs_pendings u)" using arg_cong[OF take_done_mset[OF d], of set_mset] by simp
  then have us: "list_all (usable n) ds" "sound (u\<lparr>gs_pendings := rest\<rparr>)" using u(2) unfolding sound_def list_all_iff by auto
  obtain v where v: "foldE (finish_task args flt run) ds (u\<lparr>gs_pendings := rest\<rparr>) = Inr v" "sound v"
    using finish_tasks_total[OF assms(1) us assms(2,3)] by blast
  have fk: "rollout_ok args flt [] v" "\<exists>gs. list_all2 (\<lambda>d g. run d = Inr g) ds gs \<and> gs_all_data v = gs_all_data u @ gs"
    using finish_tasks_keep[OF v(1) wait_splits[OF d uk(1)]] by auto
  have eq: "rollout_loop args flt run fetch ((p, ps) # waits) st = rollout_loop args flt run fetch waits v"
    unfolding rollout_loop.simps[of args flt run fetch "(p, ps) # waits" st] using assms(6) u(1) d v(1) pend
    by (simp add: Let_def del: take_done.simps)
  have "length (gs_data st) < length (gs_data v)" if "flt = None"
  proof -
    have k: "kept flt gs = gs" for gs using that by (simp add: kept_def call_dynamic_filter_def)
    obtain gs where gs: "list_all2 (\<lambda>d g. run d = Inr g) ds gs" "gs_all_data v = gs_all_data u @ gs" using fk(2) by blast
    have "length gs = length ds" using list_all2_lengthD[OF gs(1)] by simp
    moreover have "ds \<noteq> []" by (rule take_done_some[OF d pend])
    ultimately have "0 < length gs" by simp
    then have "length (gs_all_data u) < length (gs_all_data v)" using gs(2) by simp
    then show ?thesis using fk(1) uk(1,3) assms(6) by (simp add: rollout_ok_def k)
  qed
  then show thesis using that[OF fk(1) v(2) _ eq] by blast
qed

lemma loop_total:
  assumes "finishing n run" "0 < n" "ga_n_samples_per_prompt args = n" "rollout_ok args flt [] st" "sound st"
  shows "(\<exists>st'. rollout_loop args flt run fetch waits st = Inr (Some st') \<and> rollout_ok args flt [] st' \<and> sound st' \<and>
        ga_rollout_batch_size args \<le> length (gs_data st')) \<or>
    rollout_loop args flt run fetch waits st = Inr None \<and> (flt = None \<longrightarrow> length (gs_data st) + length waits < ga_rollout_batch_size args)"
  using assms(4,5)
proof (induction waits arbitrary: st)
  case Nil
  obtain u where "submit_until fetch (ga_rollout_batch_size args) st = Some u" using submit_until_total[OF Nil(2)] by blast
  then show ?case using Nil by (cases "length (gs_data st) < ga_rollout_batch_size args") (auto simp: rollout_loop.simps)
next
  case (Cons w waits)
  obtain p ps where w: "w = (p, ps)" by (cases w)
  show ?case
  proof (cases "length (gs_data st) < ga_rollout_batch_size args")
    case True
    obtain v where v: "rollout_ok args flt [] v" "sound v" "flt = None \<longrightarrow> length (gs_data st) < length (gs_data v)"
      "rollout_loop args flt run fetch ((p, ps) # waits) st = rollout_loop args flt run fetch waits v"
      using turn_total[OF assms(1-3) Cons.prems True] .
    show ?thesis using Cons.IH[OF v(1,2)] v(3) unfolding w v(4) by auto
  qed (use Cons.prems in \<open>auto simp: rollout_loop.simps\<close>)
qed

lemma abort_total:
  assumes "finishing n run_aborted" "list_all (usable n) pendings"
  shows "\<exists>gs. abort args rid run_aborted picks pendings = Inr gs \<and> list_all (usable n) gs"
proof -
  let ?f = "\<lambda>task. bindE (run_aborted task) (\<lambda>g. Inr (map (mark_partial rid) g))"
  have m: "\<exists>gs. mapE ?f xs = Inr gs \<and> list_all (usable n) gs" if "list_all (usable n) xs" for xs
    using that
  proof (induction xs)
    case (Cons x xs)
    have "usable n x" using Cons.prems by simp
    then obtain g where g: "run_aborted x = Inr g" "usable n g" using finishing_usable[OF assms(1)] by blast
    have "map smp_index (map (mark_partial rid) g) = map smp_index g" by (simp add: mark_partial_def)
    then have "usable n (map (mark_partial rid) g)" using g(2) usable_numbers by blast
    then show ?case using Cons g(1) by auto
  qed simp
  obtain ds rest where d: "take_done picks pendings = (ds, rest)" by fastforce
  have "set ds \<union> set rest = set pendings" using arg_cong[OF take_done_mset[OF d], of set_mset] by simp
  then have "list_all (usable n) (ds @ rest)" using assms(2) unfolding list_all_iff by auto
  then show ?thesis using m[of "ds @ rest"] d by (simp add: abort_def)
qed

lemma sort_groups_total:
  assumes "list_all (usable n) gs" "0 < n"
  shows "\<exists>gs'. sort_groups gs = Inr gs'"
proof -
  have "g \<noteq> [] \<and> has_index g" if "usable n g" for g
    using that assms(2) by (cases g) (auto simp: usable_def has_index_def)
  then have "list_all (\<lambda>g. g \<noteq> []) gs" "list_all has_index gs" using assms(1) by (simp_all add: list_all_iff)
  then show ?thesis by (simp add: sort_groups_def)
qed

lemma rollout_total:
  assumes "ready src" "finishing n run" "finishing n run_aborted" "0 < n" "ga_n_samples_per_prompt args = n"
    "ga_rollout_global_dataset args" "0 < ga_rollout_batch_size args"
  shows "(\<exists>res src'. generate_rollout_async args rollout_id flt run run_aborted fetch waits picks src = Inr (Some (res, src')) \<and>
      ready src' \<and> list_all (usable n) (rr_aborted res)) \<or>
    generate_rollout_async args rollout_id flt run run_aborted fetch waits picks src = Inr None \<and>
      (flt = None \<longrightarrow> length waits < ga_rollout_batch_size args)"
proof -
  let ?st0 = "\<lparr>gs_source = src, gs_remaining = 0, gs_pendings = [], gs_data = [], gs_all_data = [], gs_drops = []\<rparr>"
  have "rollout_ok args flt [] ?st0" "sound ?st0" using assms(1) by (simp_all add: rollout_ok_def kept_def sound_def)
  from loop_total[OF assms(2,4,5) this, of waits] show ?thesis
  proof (elim disjE exE conjE)
    fix st assume l: "rollout_loop args flt run fetch waits ?st0 = Inr (Some st)" "rollout_ok args flt [] st" "sound st"
      "ga_rollout_batch_size args \<le> length (gs_data st)"
    have len: "length (gs_data st) = ga_rollout_batch_size args" "gs_data st \<noteq> []" using l(2,4) assms(7) by (auto simp: rollout_ok_def)
    have "set (gs_data st) \<subseteq> set (gs_all_data st)" using l(2) by (auto simp: rollout_ok_def kept_def dest: in_set_takeD)
    then have "list_all (usable n) (gs_data st)" "list_all (usable n) (gs_all_data st)" using l(3) by (auto simp: sound_def list_all_iff)
    then obtain xs ys where s: "sort_groups (gs_data st) = Inr xs" "sort_groups (gs_all_data st) = Inr ys"
      using sort_groups_total assms(4) by blast
    obtain gs where a: "abort args rollout_id run_aborted picks (gs_pendings st) = Inr gs" "list_all (usable n) gs"
      using abort_total[OF assms(3), of "gs_pendings st"] l(3) unfolding sound_def by blast
    show ?thesis using l(1,3) len s a assms(6) by (simp add: generate_rollout_async_def sound_def)
  qed (use assms(6) in \<open>simp add: generate_rollout_async_def\<close>)
qed

end

text \<open>C35. On a source in order (its prompts are at least as many as one fetch, and the buffer holds whole groups) a rollout never
  raises and never waits for an empty set of tasks, whatever the dynamic filter drops and in whatever order tasks
  finish, provided that every task ends and keeps the numbers of its samples; without a filter it is done after at
  most as many waits as it needs groups; and with the aborted groups in the buffer the source is in order again.\<close>

theorem rollout_progress:
  assumes "source_ready perm ds (ga_over_sampling_batch_size args) b" "ga_rollout_global_dataset args" "0 < ga_rollout_batch_size args"
    "0 < ga_n_samples_per_prompt args" "da_n_samples_per_prompt ds = ga_n_samples_per_prompt args"
    "finishing (ga_n_samples_per_prompt args) run" "finishing (ga_n_samples_per_prompt args) run_aborted"
  shows "let r = generate_rollout args ds perm pop_first rollout_id flt run run_aborted waits picks b in
    (r = Inr None \<or> (\<exists>res b'. r = Inr (Some (res, b')) \<and> source_ready perm ds (ga_over_sampling_batch_size args) b')) \<and>
    (flt = None \<and> ga_rollout_batch_size args \<le> length waits \<longrightarrow> r \<noteq> Inr None)"
  using buffered_source.rollout_total[OF assms(1), of run run_aborted args rollout_id flt waits picks] assms
    buffered_source.give_ready[of perm ds "ga_over_sampling_batch_size args"]
  by (fastforce simp: generate_rollout_def Let_def split: prod.split)

definition demo_source :: buffered where
  "demo_source = data_source.extend (new_source demo_perm (demo_ds_args\<lparr>da_n_samples_per_prompt := 1\<rparr>) (Some (new_dataset demo_origin 0)))
     (buffered.fields [])"

lemma demo_source_parts:
  "data_source.truncate demo_source = new_source demo_perm (demo_ds_args\<lparr>da_n_samples_per_prompt := 1\<rparr>) (Some (new_dataset demo_origin 0))"
  "src_buffer demo_source = []"
  by (simp_all add: demo_source_def data_source.truncate_def data_source.extend_def buffered.fields_def)

theorem rollout_progress_witness:
  "\<exists>res b. generate_rollout demo_gen_args (demo_ds_args\<lparr>da_n_samples_per_prompt := 1\<rparr>) demo_perm pop_first 5 None Inr Inr [(1, [])] [] demo_source =
     Inr (Some (res, b)) \<and> source_ready demo_perm (demo_ds_args\<lparr>da_n_samples_per_prompt := 1\<rparr>) 2 b"
proof -
  let ?ds = "demo_ds_args\<lparr>da_n_samples_per_prompt := 1\<rparr>"
  have g: "ga_over_sampling_batch_size demo_gen_args = 2" "ga_rollout_global_dataset demo_gen_args" "ga_rollout_batch_size demo_gen_args = 1"
    "ga_n_samples_per_prompt demo_gen_args = 1" by (simp_all add: demo_gen_args_def)
  have "source_at demo_perm ?ds demo_origin 0 0 0 (data_source.truncate demo_source)"
    unfolding demo_source_parts by (rule source_at_start) (simp add: demo_ds_args_def)
  then have s: "source_ready demo_perm ?ds 2 demo_source"
    unfolding source_ready_def demo_source_parts(2) using demo_shuffles
    by (intro conjI exI[of _ demo_origin] exI[of _ 0] exI[of _ 0]) (simp_all add: demo_origin_def)
  show ?thesis
    using rollout_progress[of demo_perm ?ds demo_gen_args demo_source Inr Inr 5 None "[(1, [])]" "[]"] s
    by (simp add: g finishing_def Let_def) blast
qed

section \<open>A group of samples keeps its numbers\<close>

lemma generate_index:
  assumes "generate args tk post sp s = Inr s'"
  shows "smp_index s' = smp_index s"
proof -
  have m: "smp_index (snd (make_payload args tk ids sp t)) = smp_index t" for ids sp t
    by (simp add: make_payload_def Let_def)
  obtain x where e: "snd (encode_prompt tk s) = s\<lparr>smp_multimodal_train_inputs := x\<rparr>" using encode_prompt_snd by blast
  obtain ids t where enc: "encode_prompt tk s = (ids, t)" by fastforce
  have t: "smp_index t = smp_index s" using e enc by simp
  consider "s' = t\<lparr>smp_status := TRUNCATED\<rparr>"
    | sp' pay u where "make_payload args tk ids sp' t = (pay, u)" "take_output args (post pay) u = Inr s'"
    using assms enc unfolding generate_def Let_def by (auto simp: bindE_eq_Inr split: if_splits prod.splits)
  then show ?thesis
  proof cases
    case (2 sp' pay u)
    have "smp_index s' = smp_index u" using take_output_parts[OF 2(2)] by blast
    moreover have "smp_index u = smp_index t" using m[of ids sp' t] 2(1) by simp
    ultimately show ?thesis using t by simp
  qed (simp add: t)
qed

lemma generate_and_rm_index:
  assumes "generate_and_rm args tk ev sp s = Inr s'" "\<forall>p s sp s'. ev_custom ev p s sp = Inr s' \<longrightarrow> smp_index s' = smp_index s"
  shows "smp_index s' = smp_index s"
proof -
  define q where "q = mask_offpolicy args s"
  define run where "run = (case custom_path args q of Some p \<Rightarrow> ev_custom ev p q sp | None \<Rightarrow> generate args tk (ev_post ev) sp q)"
  have m: "smp_index q = smp_index s" by (simp add: mask_offpolicy_def q_def)
  let ?rew = "\<lambda>t. if ga_group_rm args \<or> smp_status t = ABORTED \<or> smp_reward t \<noteq> PNone then Inr t
        else bindE (ev_reward ev t) (\<lambda>r. Inr (t\<lparr>smp_reward := r\<rparr>))"
  have eq: "Inr s' = (if smp_status q = COMPLETED \<or> smp_status q = TRUNCATED
      then bindE (assertE (\<not> ga_group_rm args \<longrightarrow> smp_reward q \<noteq> PNone)) (\<lambda>_. Inr q)
      else if ev_aborted ev then Inr (q\<lparr>smp_status := ABORTED\<rparr>) else bindE run ?rew)"
    using assms(1) unfolding generate_and_rm_def Let_def q_def[symmetric] run_def[symmetric] by (rule sym)
  have rew: "\<exists>r. u = t \<or> u = t\<lparr>smp_reward := r\<rparr>" if "?rew t = Inr u" for t u
    using that by (cases "ev_reward ev t") (auto split: if_splits)
  have "s' = q \<or> s' = q\<lparr>smp_status := ABORTED\<rparr> \<or> (\<exists>t r. run = Inr t \<and> (s' = t \<or> s' = t\<lparr>smp_reward := r\<rparr>))"
  proof (cases "smp_status q = COMPLETED \<or> smp_status q = TRUNCATED")
    case True
    have "bindE (assertE (\<not> ga_group_rm args \<longrightarrow> smp_reward q \<noteq> PNone)) (\<lambda>_. Inr q) = Inr s'" using eq unfolding if_P[OF True] by (rule sym)
    then have "s' = q" unfolding bindE_eq_Inr by (elim exE conjE) (rule sym, erule sum.inject(2)[THEN iffD1])
    then show ?thesis by (rule disjI1)
  next
    case False
    show ?thesis
    proof (cases "ev_aborted ev")
      case True
      have "s' = q\<lparr>smp_status := ABORTED\<rparr>" using eq unfolding if_not_P[OF False] if_P[OF True] by (rule sum.inject(2)[THEN iffD1])
      then show ?thesis by (intro disjI2 disjI1)
    next
      case ab: False
      obtain t where t: "run = Inr t" "?rew t = Inr s'"
        using eq unfolding if_not_P[OF False] if_not_P[OF ab] by (cases run) auto
      then show ?thesis using rew[OF t(2)] by blast
    qed
  qed
  moreover have "smp_index t = smp_index q" if "run = Inr t" for t
    using that generate_index[of args tk "ev_post ev" sp q t] assms(2) by (cases "custom_path args q") (auto simp: run_def)
  ultimately show ?thesis using m by auto
qed

lemma group_keeps_numbers:
  assumes "generate_and_rm_group args tk ge sp g = Inr g'"
    "\<forall>i p s sp s'. ev_custom (ge_sample ge i) p s sp = Inr s' \<longrightarrow> smp_index s' = smp_index s"
  shows "map smp_index g' = map smp_index g"
proof (cases "ge_aborted_before ge")
  case False
  let ?g = "map (name_session (ge_session_id ge)) (enumerate_list g)"
  let ?sp = "\<lambda>i. if ga_deterministic args
                   then bindE (raise_unless IndexError (i < ga_n_samples_per_prompt args)) (\<lambda>_. Inr (sp\<lparr>sp_seed := Some (ga_rollout_seed args + int i)\<rparr>))
                   else Inr sp"
  let ?f = "\<lambda>(i, s). bindE (?sp i) (\<lambda>sp. generate_and_rm args tk (ge_sample ge i) sp s)"
  have n: "map smp_index ?g = map smp_index g"
    by (rule nth_equalityI) (auto simp: name_session_def enumerate_list_def nth_enumerate_eq)
  obtain h where h: "mapE ?f (enumerate_list ?g) = Inr h"
    and g': "g' = (if \<not> ge_aborted_after ge \<and> ga_group_rm args
             then (let rs = ge_group_rewards ge h in
                   map (\<lambda>(i, s). if i < length rs then s\<lparr>smp_reward := rs ! i\<rparr> else s) (enumerate_list h)) else h)"
    using assms(1) False unfolding generate_and_rm_group_def Let_def by (auto simp: bindE_eq_Inr)
  have r: "map smp_index g' = map smp_index h"
    unfolding g' by (rule nth_equalityI) (auto simp: Let_def enumerate_list_def nth_enumerate_eq)
  have l: "length h = length ?g" using mapE_eq_Inr_length[OF h] by (simp add: enumerate_list_def)
  have "map smp_index h = map smp_index ?g"
  proof (rule nth_equalityI)
    fix i assume "i < length (map smp_index h)"
    then have i: "i < length ?g" using l by simp
    have "?f (enumerate_list ?g ! i) = Inr (h ! i)" using mapE_eq_Inr_nth[OF h] i by (simp add: enumerate_list_def)
    then obtain sp' where "generate_and_rm args tk (ge_sample ge i) sp' (?g ! i) = Inr (h ! i)"
      using i by (auto simp: enumerate_list_def nth_enumerate_eq bindE_eq_Inr)
    then have "smp_index (h ! i) = smp_index (?g ! i)" using generate_and_rm_index assms(2) by blast
    then show "map smp_index h ! i = map smp_index ?g ! i" using i l by simp
  qed (use l in simp)
  then show ?thesis using r n by simp
qed (use assms in \<open>simp add: generate_and_rm_group_def\<close>)

section \<open>Evaluation\<close>

text \<open>The evaluation of a data set does not depend on the order in which its samples are finished: rewards, truncation
  flags and samples are in the order of the prompts.\<close>

lemma eval_order_irrelevant:
  assumes "mset finished = mset done_in_order" "sorted_wrt (<) (map sample_index done_in_order)"
  shows "collect_eval reward_key finished = collect_eval reward_key done_in_order \<and>
    (\<forall>r. collect_eval reward_key finished = Inr r \<longrightarrow> er_samples r = done_in_order)"
proof -
  have d: "distinct (map sample_index done_in_order)" "sorted (map sample_index done_in_order)"
    using assms(2) by (simp_all add: strict_sorted_iff)
  have a: "sort_key sample_index done_in_order = done_in_order" using d(2) by (rule sort_key_id_if_sorted)
  have "inj_on sample_index (set finished)" using d(1) mset_eq_setD[OF assms(1)] by (simp add: distinct_map)
  then have b: "sort_key sample_index finished = done_in_order"
    using properties_for_sort_key[of done_in_order finished sample_index] assms(1) d(2) by (metis a sort_key_inj_key_eq)
  have "list_all P finished = list_all P done_in_order" for P using mset_eq_setD[OF assms(1)] by (simp add: list_all_iff)
  moreover have "length finished = length done_in_order" using assms(1) by (rule mset_eq_length)
  ultimately show ?thesis by (auto simp: collect_eval_def a b bindE_eq_Inr Let_def)
qed

end
