(* ===== verification/Train_Loop.thy ===== *)
theory Train_Loop
  imports Prelude
begin

text \<open>
  The drivers \<open>train.py\<close> and \<open>train_async.py\<close> with what they call in \<open>ray/placement_group.py\<close>: which remote
  calls they make, in which order, and on which data.  The rollout manager and the models are actors; the drivers
  are functions to lists of calls.  Tracking and logging are left out.
\<close>

datatype role = Actor | Critic

text \<open>A future of generated data is the number of its rollout.\<close>

datatype remote_call =
    Offload_Rollout | Onload_Weights | Onload_Kv | Check_Weights string
  | Init_Model role bool bool | Connect_Critic | Set_Manager role | Load_Source int
  | Update_Weights | Evaluate int
  | Generate_Start int | Generate_Get int
  | Train_Start role int "int option" | Train_End role int
  | Save_Model role int bool | Save_Source int
  | Offload_Model role | Clear_Memory role | Dispose_Manager

record loop_args =
  lp_offload_rollout :: bool
  lp_offload_train :: bool
  lp_use_critic :: bool
  lp_critic_train_only :: bool
  lp_check_weight_update_equal :: bool
  lp_rollout_global_dataset :: bool
  lp_skip_eval_before_train :: bool
  lp_colocate :: bool
  lp_with_ref :: bool
  lp_with_opd_teacher :: bool
  lp_rollout_batch_size :: int
  lp_num_rollout :: "int option"
  lp_num_epoch :: "int option"
  lp_start_rollout_id :: "int option"
  lp_eval_interval :: "int option"
  lp_save_interval :: "int option"
  lp_num_critic_only_steps :: int
  lp_update_weights_interval :: int

definition only :: "bool \<Rightarrow> 'a list \<Rightarrow> 'a list" where
  "only b xs = (if b then xs else [])"

definition divides :: "int \<Rightarrow> int \<Rightarrow> bool result" where
  "divides k n = bindE (raise_unless ZeroDivisionError (k \<noteq> 0)) (\<lambda>_. Inr (n mod k = 0))"

definition should_run_periodic_action :: "int \<Rightarrow> int option \<Rightarrow> int option \<Rightarrow> int option \<Rightarrow> bool result" where
  "should_run_periodic_action rollout_id interval num_rollout_per_epoch num_rollout =
     (case interval of None \<Rightarrow> Inr False
      | Some k \<Rightarrow>
          if num_rollout = Some (rollout_id + 1) then Inr True
          else let step = rollout_id + 1 in
            bindE (divides k step) (\<lambda>a. if a then Inr True
              else (case num_rollout_per_epoch of None \<Rightarrow> Inr False | Some n \<Rightarrow> divides n step)))"

section \<open>Setting up\<close>

definition get_num_rollout_per_epoch :: "loop_args \<Rightarrow> int \<Rightarrow> int result" where
  "get_num_rollout_per_epoch args len =
     bindE (assertE (lp_rollout_global_dataset args)) (\<lambda>_.
     bindE (raise_unless ZeroDivisionError (lp_rollout_batch_size args \<noteq> 0)) (\<lambda>_.
       Inr (len div lp_rollout_batch_size args)))"

text \<open>The arguments with \<open>num_rollout\<close> set, the rollouts of an epoch, and the calls.\<close>

definition create_rollout_manager :: "loop_args \<Rightarrow> int \<Rightarrow> (loop_args \<times> int option \<times> remote_call list) result" where
  "create_rollout_manager args len =
     bindE (case lp_num_rollout args of Some _ \<Rightarrow> Inr (args, None)
        | None \<Rightarrow>
            bindE (get_num_rollout_per_epoch args len) (\<lambda>n.
            bindE (case lp_num_epoch args of None \<Rightarrow> Inl TypeError | Some e \<Rightarrow> Inr (n * e)) (\<lambda>num.
            bindE (assertE (num > 0)) (\<lambda>_. Inr (args\<lparr>lp_num_rollout := Some num\<rparr>, Some n))))) (\<lambda>(args, per_epoch).
     Inr (args, per_epoch,
       only (lp_check_weight_update_equal args) [Check_Weights ''snapshot'', Check_Weights ''reset_tensors''] @
       only (lp_offload_rollout args) [Offload_Rollout]))"

text \<open>\<open>actor_ids\<close> and \<open>critic_ids\<close> are the rollouts at which the ranks of the models say that they start.\<close>

definition create_training_models :: "loop_args \<Rightarrow> int list \<Rightarrow> int list \<Rightarrow> (loop_args \<times> remote_call list) result" where
  "create_training_models args actor_ids critic_ids =
     (let start_ids = (if lp_use_critic args \<and> lp_critic_train_only args then critic_ids else actor_ids) in
      bindE (assertE (length (remdups start_ids) = 1)) (\<lambda>_.
      let start = (case lp_start_rollout_id args of None \<Rightarrow> hd start_ids | Some i \<Rightarrow> i) in
      Inr (args\<lparr>lp_start_rollout_id := Some start\<rparr>,
        only (lp_use_critic args) [Init_Model Critic False False] @
        [Init_Model Actor (lp_with_ref args) (lp_with_opd_teacher args)] @
        only (lp_use_critic args \<and> \<not> lp_critic_train_only args) [Connect_Critic] @
        [Set_Manager Actor] @ only (lp_use_critic args) [Set_Manager Critic] @
        only (lp_rollout_global_dataset args) [Load_Source (start - 1)])))"

definition start_of :: "loop_args \<Rightarrow> int" where
  "start_of args = (case lp_start_rollout_id args of None \<Rightarrow> 0 | Some i \<Rightarrow> i)"

definition num_of :: "loop_args \<Rightarrow> int" where
  "num_of args = (case lp_num_rollout args of None \<Rightarrow> 0 | Some n \<Rightarrow> n)"

definition first_weights :: "loop_args \<Rightarrow> remote_call list" where
  "first_weights args =
     only (\<not> lp_critic_train_only args)
       ([Update_Weights] @ only (lp_check_weight_update_equal args) [Check_Weights ''compare''])"

definition actor_trains :: "loop_args \<Rightarrow> int \<Rightarrow> bool" where
  "actor_trains args rollout_id =
     (lp_use_critic args \<longrightarrow> rollout_id \<ge> lp_num_critic_only_steps args \<and> \<not> lp_critic_train_only args)"

text \<open>Both scripts train the critic and the actor at the same time and wait for both.\<close>

definition train_calls :: "loop_args \<Rightarrow> int \<Rightarrow> int option \<Rightarrow> remote_call list" where
  "train_calls args rollout_id d =
     (if lp_use_critic args
      then [Train_Start Critic rollout_id d] @
           only (rollout_id \<ge> lp_num_critic_only_steps args \<and> \<not> lp_critic_train_only args)
             [Train_Start Actor rollout_id d, Train_End Actor rollout_id] @
           [Train_End Critic rollout_id]
      else [Train_Start Actor rollout_id d, Train_End Actor rollout_id])"

section \<open>train.py\<close>

definition offload_train :: "loop_args \<Rightarrow> int \<Rightarrow> remote_call list" where
  "offload_train args rollout_id =
     (if lp_offload_train args
      then if lp_use_critic args
           then [Offload_Model Critic] @
                only (rollout_id \<ge> lp_num_critic_only_steps args \<and> \<not> lp_critic_train_only args) [Offload_Model Actor]
           else [Offload_Model Actor]
      else if lp_critic_train_only args then [Clear_Memory Critic] else [Clear_Memory Actor])"

definition save_calls :: "loop_args \<Rightarrow> int \<Rightarrow> remote_call list" where
  "save_calls args rollout_id =
     (let force_sync = (rollout_id = num_of args - 1) in
      only (\<not> lp_use_critic args \<or> rollout_id \<ge> lp_num_critic_only_steps args \<and> \<not> lp_critic_train_only args)
        [Save_Model Actor rollout_id force_sync] @
      only (lp_use_critic args) [Save_Model Critic rollout_id force_sync] @
      only (lp_rollout_global_dataset args) [Save_Source rollout_id])"

definition train_step :: "loop_args \<Rightarrow> int option \<Rightarrow> int \<Rightarrow> remote_call list result" where
  "train_step args per_epoch rollout_id =
     bindE (should_run_periodic_action rollout_id (lp_save_interval args) per_epoch (lp_num_rollout args)) (\<lambda>saves.
     bindE (should_run_periodic_action rollout_id (lp_eval_interval args) per_epoch None) (\<lambda>evals.
     Inr (only (lp_eval_interval args \<noteq> None \<and> rollout_id = 0 \<and> \<not> lp_skip_eval_before_train args) [Evaluate rollout_id] @
       [Generate_Start rollout_id, Generate_Get rollout_id] @
       only (lp_offload_rollout args) [Offload_Rollout] @
       train_calls args rollout_id (Some rollout_id) @
       only saves (save_calls args rollout_id) @
       offload_train args rollout_id @
       only (lp_offload_rollout args) [Onload_Weights] @
       only (\<not> lp_critic_train_only args) [Update_Weights] @
       only (lp_offload_rollout args) [Onload_Kv] @
       only evals [Evaluate rollout_id])))"

definition train :: "loop_args \<Rightarrow> int \<Rightarrow> int list \<Rightarrow> int list \<Rightarrow> remote_call list result" where
  "train args len actor_ids critic_ids =
     bindE (create_rollout_manager args len) (\<lambda>(args, per_epoch, calls1).
     bindE (create_training_models args actor_ids critic_ids) (\<lambda>(args, calls2).
     bindE (mapE (train_step args per_epoch) [start_of args .. num_of args - 1]) (\<lambda>steps.
     Inr (calls1 @ calls2 @ only (lp_offload_rollout args) [Onload_Weights] @ first_weights args @
       only (lp_offload_rollout args) [Onload_Kv] @
       only (num_of args = 0 \<and> lp_eval_interval args \<noteq> None) [Evaluate 0] @
       concat steps @ [Dispose_Manager]))))"

section \<open>train\_async.py\<close>

definition save_calls_async :: "loop_args \<Rightarrow> int \<Rightarrow> remote_call list" where
  "save_calls_async args rollout_id =
     (let force_sync = (rollout_id = num_of args - 1) in
      only (\<not> lp_critic_train_only args) [Save_Model Actor rollout_id force_sync] @
      only (lp_use_critic args) [Save_Model Critic rollout_id force_sync] @
      only (lp_rollout_global_dataset args) [Save_Source rollout_id])"

text \<open>The next future and the current data, and the calls so far.\<close>

record async_state =
  as_next :: "int option"
  as_curr :: "int option"
  as_calls :: "remote_call list"

definition get_future :: "int option \<Rightarrow> remote_call list" where
  "get_future x = (case x of None \<Rightarrow> [] | Some r \<Rightarrow> [Generate_Get r])"

definition async_step :: "loop_args \<Rightarrow> int option \<Rightarrow> int \<Rightarrow> async_state \<Rightarrow> async_state result" where
  "async_step args per_epoch rollout_id s =
     (let curr = (case as_next s of None \<Rightarrow> as_curr s | Some x \<Rightarrow> Some x);
          early = (rollout_id + 1 < num_of args);
          nxt = (if early then Some (rollout_id + 1) else as_next s) in
      bindE (should_run_periodic_action rollout_id (lp_save_interval args) per_epoch (lp_num_rollout args)) (\<lambda>saves.
      bindE (divides (lp_update_weights_interval args) (rollout_id + 1)) (\<lambda>updates.
      bindE (should_run_periodic_action rollout_id (lp_eval_interval args) per_epoch None) (\<lambda>evals.
      Inr \<lparr>as_next = (if updates then None else nxt), as_curr = (if updates then nxt else curr),
           as_calls = as_calls s @ get_future (as_next s) @ only early [Generate_Start (rollout_id + 1)] @
             train_calls args rollout_id curr @
             only saves (save_calls_async args rollout_id) @
             only updates (get_future nxt @ only (\<not> lp_critic_train_only args) [Update_Weights]) @
             only evals [Evaluate rollout_id]\<rparr>))))"

definition train_async :: "loop_args \<Rightarrow> int \<Rightarrow> int list \<Rightarrow> int list \<Rightarrow> remote_call list result" where
  "train_async args len actor_ids critic_ids =
     bindE (assertE (\<not> lp_colocate args)) (\<lambda>_.
     bindE (create_rollout_manager args len) (\<lambda>(args, per_epoch, calls1).
     bindE (create_training_models args actor_ids critic_ids) (\<lambda>(args, calls2).
     bindE (foldE (async_step args per_epoch) [start_of args .. num_of args - 1]
              \<lparr>as_next = Some (start_of args), as_curr = None,
               as_calls = calls1 @ calls2 @ first_weights args @ [Generate_Start (start_of args)]\<rparr>) (\<lambda>s.
     Inr (as_calls s @ [Dispose_Manager])))))"

end
