(* ===== verification/Loop_Rules.thy ===== *)
theory Loop_Rules
  imports Train_Loop
begin

text \<open>
  What the order of the calls guarantees: every rollout is generated once and trained on once, by weights of a
  bounded age; weights never change in the middle of a generation; and engines and models that share their GPUs
  are never loaded at the same time.  Each guarantee is an automaton that reads the calls and refuses those that
  are not allowed.
\<close>

section \<open>Automata over calls\<close>

primrec obeys :: "('c \<Rightarrow> 's \<Rightarrow> 's option) \<Rightarrow> 'c list \<Rightarrow> 's \<Rightarrow> 's option" where
  "obeys f [] s = Some s"
| "obeys f (c # cs) s = (case f c s of None \<Rightarrow> None | Some t \<Rightarrow> obeys f cs t)"

lemma obeys_append: "obeys f (xs @ ys) s = (case obeys f xs s of None \<Rightarrow> None | Some t \<Rightarrow> obeys f ys t)"
  by (induction xs arbitrary: s) (auto split: option.split)

lemma obeys_then: "obeys f xs s = Some t \<Longrightarrow> obeys f (xs @ ys) s = obeys f ys t"
  by (simp add: obeys_append)

lemma obeys_thenI: "obeys f xs s = Some t \<Longrightarrow> obeys f ys t = Some u \<Longrightarrow> obeys f (xs @ ys) s = Some u"
  by (simp add: obeys_append)

lemma obeys_idle: "(\<And>c. c \<in> set cs \<Longrightarrow> f c s = Some s) \<Longrightarrow> obeys f cs s = Some s"
  by (induction cs) auto

lemma only_simps [simp]: "only True xs = xs" "only False xs = []" "set (only b xs) = (if b then set xs else {})"
  by (simp_all add: only_def)

section \<open>Versions of the weights\<close>

record versions =
  vs_trained :: nat
  vs_served :: nat
  vs_open :: "int list"
  vs_version :: "int \<Rightarrow> nat option"
  vs_actor :: "int list"
  vs_critic :: "int list"

definition no_versions :: versions where
  "no_versions = \<lparr>vs_trained = 0, vs_served = 0, vs_open = [], vs_version = (\<lambda>_. None), vs_actor = [], vs_critic = []\<rparr>"

text \<open>A rollout is generated once, with the weights that the engines serve at its start; a model is trained on a rollout
  with the data of this rollout after its generation has ended; the actor has made at most \<open>k\<close> more steps than
  the weights that generated the data; weights are updated while no generation is running.\<close>

fun policy :: "nat \<Rightarrow> remote_call \<Rightarrow> versions \<Rightarrow> versions option" where
  "policy k (Generate_Start r) v =
     (if vs_version v r = None
      then Some (v\<lparr>vs_open := r # vs_open v, vs_version := (vs_version v)(r \<mapsto> vs_served v)\<rparr>) else None)"
| "policy k (Generate_Get r) v =
     (if vs_version v r = None then None else Some (v\<lparr>vs_open := removeAll r (vs_open v)\<rparr>))"
| "policy k (Train_Start m r d) v =
     (case vs_version v r of None \<Rightarrow> None
      | Some g \<Rightarrow>
          if d = Some r \<and> r \<notin> set (vs_open v) \<and> (m = Actor \<longrightarrow> vs_trained v \<le> g + k)
          then Some (if m = Actor then v\<lparr>vs_actor := vs_actor v @ [r]\<rparr> else v\<lparr>vs_critic := vs_critic v @ [r]\<rparr>)
          else None)"
| "policy k (Train_End m r) v = Some (if m = Actor then v\<lparr>vs_trained := vs_trained v + 1\<rparr> else v)"
| "policy k Update_Weights v = (if vs_open v = [] then Some (v\<lparr>vs_served := vs_trained v\<rparr>) else None)"
| "policy k _ v = Some v"

definition steps_of :: "remote_call \<Rightarrow> bool" where
  "steps_of c = (case c of Generate_Start _ \<Rightarrow> True | Generate_Get _ \<Rightarrow> True | Train_Start _ _ _ \<Rightarrow> True | Train_End _ _ \<Rightarrow> True
     | Update_Weights \<Rightarrow> True | _ \<Rightarrow> False)"

lemma policy_idle: "(\<And>c. c \<in> set cs \<Longrightarrow> \<not> steps_of c) \<Longrightarrow> obeys (policy k) cs v = Some v"
proof (rule obeys_idle)
  fix c assume "\<And>c. c \<in> set cs \<Longrightarrow> \<not> steps_of c" "c \<in> set cs"
  then have "\<not> steps_of c" by blast
  then show "policy k c v = Some v" by (cases c) (simp_all add: steps_of_def)
qed

lemma not_steps [simp]:
  "c \<in> set (save_calls args r) \<Longrightarrow> \<not> steps_of c" "c \<in> set (save_calls_async args r) \<Longrightarrow> \<not> steps_of c"
  "c \<in> set (offload_train args r) \<Longrightarrow> \<not> steps_of c"
  by (auto simp: save_calls_def save_calls_async_def offload_train_def steps_of_def only_def Let_def split: if_splits)

lemma policy_train:
  assumes "vs_version v r = Some g" "r \<notin> set (vs_open v)" "vs_trained v \<le> g + k"
  shows "obeys (policy k) (train_calls args r (Some r)) v =
    Some (v\<lparr>vs_trained := vs_trained v + (if actor_trains args r then 1 else 0),
            vs_actor := vs_actor v @ only (actor_trains args r) [r], vs_critic := vs_critic v @ only (lp_use_critic args) [r]\<rparr>)"
  using assms by (auto simp: train_calls_def actor_trains_def only_def)

lemma policy_first:
  assumes "vs_open v = []" "vs_trained v = vs_served v"
  shows "obeys (policy k) (first_weights args) v = Some v"
proof -
  have "v\<lparr>vs_served := vs_served v\<rparr> = v" by simp
  then show ?thesis using assms by (simp add: first_weights_def only_def)
qed

section \<open>Setting up\<close>

definition planned :: "loop_args \<Rightarrow> int \<Rightarrow> int" where
  "planned args len = (case lp_num_rollout args of Some n \<Rightarrow> n
     | None \<Rightarrow> len div lp_rollout_batch_size args * (case lp_num_epoch args of None \<Rightarrow> 0 | Some e \<Rightarrow> e))"

text \<open>Intervals are not zero, and without \<open>num_rollout\<close> there are whole rollouts in the data set.\<close>

definition valid_run :: "loop_args \<Rightarrow> int \<Rightarrow> bool" where
  "valid_run args len =
     (lp_save_interval args \<noteq> Some 0 \<and> lp_eval_interval args \<noteq> Some 0 \<and>
      (lp_num_rollout args = None \<longrightarrow> lp_rollout_global_dataset args \<and> lp_rollout_batch_size args \<noteq> 0 \<and>
         lp_num_epoch args \<noteq> None \<and> planned args len > 0))"

definition start_ids :: "loop_args \<Rightarrow> int list \<Rightarrow> int list \<Rightarrow> int list" where
  "start_ids args actor_ids critic_ids = (if lp_use_critic args \<and> lp_critic_train_only args then critic_ids else actor_ids)"

definition first_rollout :: "loop_args \<Rightarrow> int list \<Rightarrow> int list \<Rightarrow> int" where
  "first_rollout args actor_ids critic_ids =
     (case lp_start_rollout_id args of None \<Rightarrow> hd (start_ids args actor_ids critic_ids) | Some i \<Rightarrow> i)"

text \<open>The drivers run with the arguments as they are, \<open>num_rollout\<close> and \<open>start_rollout_id\<close> set.\<close>

definition resolved :: "loop_args \<Rightarrow> int \<Rightarrow> int list \<Rightarrow> int list \<Rightarrow> loop_args" where
  "resolved args len actor_ids critic_ids =
     args\<lparr>lp_num_rollout := Some (planned args len), lp_start_rollout_id := Some (first_rollout args actor_ids critic_ids)\<rparr>"

lemma manager_created:
  assumes "valid_run args len"
  obtains n calls where "create_rollout_manager args len = Inr (args\<lparr>lp_num_rollout := Some (planned args len)\<rparr>, n, calls)"
    "n \<noteq> Some 0" "\<And>c. c \<in> set calls \<Longrightarrow> \<not> steps_of c" "calls = only (lp_check_weight_update_equal args) [Check_Weights ''snapshot'', Check_Weights ''reset_tensors''] @
       only (lp_offload_rollout args) [Offload_Rollout]"
proof (cases "lp_num_rollout args")
  case None
  obtain e where e: "lp_num_epoch args = Some e" using assms None by (auto simp: valid_run_def)
  let ?n = "len div lp_rollout_batch_size args"
  have p: "planned args len = ?n * e" "0 < ?n * e" using assms None e by (auto simp: planned_def valid_run_def)
  then have "?n \<noteq> 0" by auto
  then show ?thesis using assms None e p
    by (intro that[of "Some ?n"]) (auto simp: create_rollout_manager_def get_num_rollout_per_epoch_def valid_run_def only_def steps_of_def)
next
  case (Some k)
  have "args = args\<lparr>lp_num_rollout := Some (planned args len)\<rparr>" using Some by (simp add: planned_def)
  then show ?thesis using Some
    by (intro that[of None]) (auto simp: create_rollout_manager_def planned_def only_def steps_of_def)
qed

lemma models_created:
  assumes "length (remdups (start_ids args actor_ids critic_ids)) = 1"
  obtains calls where "create_training_models (args\<lparr>lp_num_rollout := Some (planned args len)\<rparr>) actor_ids critic_ids =
      Inr (resolved args len actor_ids critic_ids, calls)"
    "\<And>c. c \<in> set calls \<Longrightarrow> \<not> steps_of c"
    "\<And>c. c \<in> set calls \<Longrightarrow> (\<exists>m a b. c = Init_Model m a b) \<or> c = Connect_Critic \<or> (\<exists>m. c = Set_Manager m) \<or> (\<exists>r. c = Load_Source r)"
proof -
  let ?start = "first_rollout args actor_ids critic_ids"
  let ?calls = "only (lp_use_critic args) [Init_Model Critic False False] @ [Init_Model Actor (lp_with_ref args) (lp_with_opd_teacher args)] @
        only (lp_use_critic args \<and> \<not> lp_critic_train_only args) [Connect_Critic] @
        [Set_Manager Actor] @ only (lp_use_critic args) [Set_Manager Critic] @
        only (lp_rollout_global_dataset args) [Load_Source (?start - 1)]"
  have e: "create_training_models (args\<lparr>lp_num_rollout := Some (planned args len)\<rparr>) actor_ids critic_ids =
      Inr (resolved args len actor_ids critic_ids, ?calls)"
    unfolding create_training_models_def Let_def first_rollout_def start_ids_def resolved_def
    using assms[unfolded start_ids_def] by simp blast
  have c: "(\<exists>m a b. c = Init_Model m a b) \<or> c = Connect_Critic \<or> (\<exists>m. c = Set_Manager m) \<or> (\<exists>r. c = Load_Source r)" if "c \<in> set ?calls" for c
    using that by (simp split: if_splits) blast+
  have n: "\<not> steps_of c" if "c \<in> set ?calls" for c
    using c[OF that] by (elim disjE exE) (simp_all add: steps_of_def)
  show thesis by (rule that[OF e n c])
qed

lemma divides_simp: "k \<noteq> 0 \<Longrightarrow> divides k n = Inr (n mod k = 0)"
  by (simp add: divides_def)

lemma periodic_total:
  assumes "interval \<noteq> Some 0" "n \<noteq> Some 0"
  shows "\<exists>b. should_run_periodic_action r interval n num = Inr b"
  using assms by (cases interval; cases n) (simp_all add: should_run_periodic_action_def divides_simp Let_def ex_bool_eq)

lemma upto_snoc: "i \<le> j \<Longrightarrow> [i..j] = [i..j - 1] @ [j :: int]"
  by (rule upto_rec2)

section \<open>Training on fresh data\<close>

text \<open>Before the step \<open>r\<close>: the lists of the rollouts that the models were trained on.\<close>

definition trained_on :: "loop_args \<Rightarrow> int \<Rightarrow> int \<Rightarrow> versions \<Rightarrow> bool" where
  "trained_on args start r v \<longleftrightarrow>
     vs_actor v = filter (actor_trains args) [start..r - 1] \<and> vs_critic v = only (lp_use_critic args) [start..r - 1] \<and>
     (lp_use_critic args \<and> lp_critic_train_only args \<longrightarrow> vs_trained v = 0) \<and> vs_served v \<le> vs_trained v"

lemma trained_on_step:
  assumes "trained_on args start r v" "start \<le> r" "vs_trained w = vs_trained v + (if actor_trains args r then 1 else 0)"
    "vs_actor w = vs_actor v @ only (actor_trains args r) [r]" "vs_critic w = vs_critic v @ only (lp_use_critic args) [r]"
    "vs_served w \<le> vs_trained w"
  shows "trained_on args start (r + 1) w"
  using assms upto_snoc[OF assms(2)] by (auto simp: trained_on_def only_def actor_trains_def)

definition fresh :: "loop_args \<Rightarrow> int \<Rightarrow> int \<Rightarrow> versions \<Rightarrow> bool" where
  "fresh args start r v \<longleftrightarrow>
     trained_on args start r v \<and> vs_open v = [] \<and> vs_served v = vs_trained v \<and> (\<forall>i \<ge> r. vs_version v i = None)"

lemma train_step_fresh:
  assumes "train_step args n r = Inr calls" "fresh args start r v" "start \<le> r" "lp_critic_train_only args \<longrightarrow> lp_use_critic args"
  shows "\<exists>w. obeys (policy 0) calls v = Some w \<and> fresh args start (r + 1) w"
proof -
  let ?pre = "only (lp_eval_interval args \<noteq> None \<and> r = 0 \<and> \<not> lp_skip_eval_before_train args) [Evaluate r]"
  obtain saves evals where c: "calls = ?pre @ [Generate_Start r, Generate_Get r] @ only (lp_offload_rollout args) [Offload_Rollout] @
       train_calls args r (Some r) @ only saves (save_calls args r) @ offload_train args r @
       only (lp_offload_rollout args) [Onload_Weights] @ only (\<not> lp_critic_train_only args) [Update_Weights] @
       only (lp_offload_rollout args) [Onload_Kv] @ only evals [Evaluate r]"
    using assms(1) by (auto simp: train_step_def bindE_eq_Inr)
  have pre: "\<And>c. c \<in> set ?pre \<Longrightarrow> \<not> steps_of c" by (simp add: steps_of_def split: if_splits)
  let ?g = "v\<lparr>vs_version := (vs_version v)(r \<mapsto> vs_served v)\<rparr>"
  let ?t = "?g\<lparr>vs_trained := vs_trained v + (if actor_trains args r then 1 else 0), vs_actor := vs_actor v @ only (actor_trains args r) [r],
      vs_critic := vs_critic v @ only (lp_use_critic args) [r]\<rparr>"
  let ?w = "if lp_critic_train_only args then ?t else ?t\<lparr>vs_served := vs_trained ?t\<rparr>"
  have v: "vs_open v = []" "vs_served v = vs_trained v" "vs_version v r = None" "trained_on args start r v" "\<forall>i \<ge> r. vs_version v i = None"
    using assms(2) by (simp_all add: fresh_def)
  have "v\<lparr>vs_open := []\<rparr> = v" using v(1) by (metis versions.surjective versions.update_convs(3))
  then have gen: "obeys (policy 0) [Generate_Start r, Generate_Get r] v = Some ?g" using v(1,3) by simp
  have tr: "obeys (policy 0) (train_calls args r (Some r)) ?g = Some ?t" using policy_train[of ?g r "vs_served v" 0 args] v(1,2) by simp
  have up: "obeys (policy 0) (only (\<not> lp_critic_train_only args) [Update_Weights]) ?t = Some ?w" using v(1) by (simp add: only_def)
  have idle: "obeys (policy 0) (only b [c]) u = Some u" "obeys (policy 0) (only b (save_calls args r)) u = Some u"
    "obeys (policy 0) (offload_train args r) u = Some u" if "\<not> steps_of c" for b c u
    using that by (auto intro!: policy_idle split: if_splits)
  have k: "\<not> steps_of Offload_Rollout" "\<not> steps_of Onload_Weights" "\<not> steps_of Onload_Kv" "\<not> steps_of (Evaluate r)"
    by (simp_all add: steps_of_def)
  have "obeys (policy 0) calls v = Some ?w"
    unfolding c
    by (rule obeys_thenI, rule policy_idle, erule pre, rule obeys_thenI, rule gen, rule obeys_thenI, rule idle(1)[OF k(1)],
      rule obeys_thenI, rule tr, rule obeys_thenI, rule idle(2)[OF k(1)], rule obeys_thenI, rule idle(3)[OF k(1)],
      rule obeys_thenI, rule idle(1)[OF k(2)], rule obeys_thenI, rule up, rule obeys_thenI, rule idle(1)[OF k(3)], rule idle(1)[OF k(4)])
  moreover have "fresh args start (r + 1) ?w"
  proof -
    have f: "vs_trained ?w = vs_trained v + (if actor_trains args r then 1 else 0)" "vs_actor ?w = vs_actor v @ only (actor_trains args r) [r]"
      "vs_critic ?w = vs_critic v @ only (lp_use_critic args) [r]" "vs_open ?w = []" "vs_version ?w = (vs_version v)(r \<mapsto> vs_served v)"
      using v(1) by (simp_all split: if_split)
    have s: "vs_served ?w = vs_trained ?w"
    proof (cases "lp_critic_train_only args")
      case True
      then have "\<not> actor_trains args r" using assms(4) by (simp add: actor_trains_def)
      then show ?thesis using v(2) True by simp
    qed simp
    have "trained_on args start (r + 1) ?w" by (rule trained_on_step[OF v(4) assms(3) f(1-3)]) (simp only: s order_refl)
    then show ?thesis unfolding fresh_def using f(4,5) s v(5) by (simp only:) simp
  qed
  ultimately show ?thesis by blast
qed

lemma train_steps_fresh:
  assumes "mapE (train_step args n) [r..e] = Inr steps" "fresh args start r v" "start \<le> r" "lp_critic_train_only args \<longrightarrow> lp_use_critic args" "r \<le> e + 1"
  shows "\<exists>w. obeys (policy 0) (concat steps) v = Some w \<and> fresh args start (e + 1) w"
  using assms
proof (induction "nat (e + 1 - r)" arbitrary: r v steps)
  case 0
  then show ?case by (simp add: antisym)
next
  case (Suc k)
  have r: "[r..e] = r # [r + 1..e]" using Suc(2) by (intro upto_rec1) simp
  obtain cs rest where c: "train_step args n r = Inr cs" "mapE (train_step args n) [r + 1..e] = Inr rest" "steps = cs # rest"
    using Suc.prems(1) unfolding r by (auto simp: bindE_eq_Inr)
  obtain w where w: "obeys (policy 0) cs v = Some w" "fresh args start (r + 1) w" using train_step_fresh[OF c(1) Suc.prems(2-4)] by blast
  show ?case using Suc.hyps(1)[OF _ c(2) w(2)] Suc.hyps(2) Suc.prems w(1) c(3) by (simp add: obeys_append)
qed

lemma train_steps_total:
  assumes "valid_run args len" "n \<noteq> Some 0"
  shows "\<exists>steps. mapE (train_step (resolved args len a c) n) rs = Inr steps"
proof (rule mapE_total)
  fix r assume "r \<in> set rs"
  let ?args = "resolved args len a c"
  have i: "lp_save_interval ?args \<noteq> Some 0" "lp_eval_interval ?args \<noteq> Some 0" using assms(1) by (simp_all add: resolved_def valid_run_def)
  obtain x y where "should_run_periodic_action r (lp_save_interval ?args) n (lp_num_rollout ?args) = Inr x"
    "should_run_periodic_action r (lp_eval_interval ?args) n None = Inr y"
    using periodic_total[OF i(1) assms(2)] periodic_total[OF i(2) assms(2)] by meson
  then show "\<exists>y. train_step ?args n r = Inr y" by (simp add: train_step_def)
qed

lemma range_of_resolved [simp]:
  "start_of (resolved args len a c) = first_rollout args a c" "num_of (resolved args len a c) = planned args len"
  "lp_use_critic (resolved args len a c) = lp_use_critic args" "lp_critic_train_only (resolved args len a c) = lp_critic_train_only args"
  "lp_offload_rollout (resolved args len a c) = lp_offload_rollout args" "lp_offload_train (resolved args len a c) = lp_offload_train args"
  "lp_update_weights_interval (resolved args len a c) = lp_update_weights_interval args"
  "actor_trains (resolved args len a c) = actor_trains args"
  by (simp_all add: resolved_def start_of_def num_of_def actor_trains_def[abs_def])

lemma train_runs:
  assumes "valid_run args len" "length (remdups (start_ids args actor_ids critic_ids)) = 1"
  shows "\<exists>calls. train args len actor_ids critic_ids = Inr calls"
proof -
  let ?args = "resolved args len actor_ids critic_ids"
  obtain n calls1 where m: "create_rollout_manager args len = Inr (args\<lparr>lp_num_rollout := Some (planned args len)\<rparr>, n, calls1)"
    "n \<noteq> Some 0" using manager_created[OF assms(1)] by metis
  obtain calls2 where t: "create_training_models (args\<lparr>lp_num_rollout := Some (planned args len)\<rparr>) actor_ids critic_ids = Inr (?args, calls2)"
    using models_created[OF assms(2)] by metis
  obtain steps where "mapE (train_step ?args n) [start_of ?args..num_of ?args - 1] = Inr steps" using train_steps_total[OF assms(1) m(2)] by blast
  then show ?thesis using m(1) t by (simp add: train_def)
qed

lemma trained_on_start: "trained_on args start start no_versions"
  by (simp add: trained_on_def no_versions_def only_def)

text \<open>C36. The synchronous driver runs to the end; it generates every rollout once, trains on it once and in order, with its own
  data and weights that have made no step since, and never updates weights while a generation is running.\<close>

theorem train_on_policy:
  assumes "valid_run args len" "length (remdups (start_ids args actor_ids critic_ids)) = 1" "lp_critic_train_only args \<longrightarrow> lp_use_critic args"
  shows "\<exists>calls v. train args len actor_ids critic_ids = Inr calls \<and> obeys (policy 0) calls no_versions = Some v \<and>
    vs_actor v = filter (actor_trains args) [first_rollout args actor_ids critic_ids..planned args len - 1] \<and>
    vs_critic v = only (lp_use_critic args) [first_rollout args actor_ids critic_ids..planned args len - 1]"
proof -
  let ?args = "resolved args len actor_ids critic_ids" let ?start = "first_rollout args actor_ids critic_ids" let ?e = "planned args len - 1"
  obtain n calls1 where m: "create_rollout_manager args len = Inr (args\<lparr>lp_num_rollout := Some (planned args len)\<rparr>, n, calls1)"
    "n \<noteq> Some 0" "\<And>c. c \<in> set calls1 \<Longrightarrow> \<not> steps_of c" using manager_created[OF assms(1)] by metis
  obtain calls2 where t: "create_training_models (args\<lparr>lp_num_rollout := Some (planned args len)\<rparr>) actor_ids critic_ids = Inr (?args, calls2)"
    "\<And>c. c \<in> set calls2 \<Longrightarrow> \<not> steps_of c" using models_created[OF assms(2)] by metis
  obtain steps where s: "mapE (train_step ?args n) [?start..?e] = Inr steps" using train_steps_total[OF assms(1) m(2)] by blast
  let ?calls = "calls1 @ calls2 @ only (lp_offload_rollout args) [Onload_Weights] @ first_weights ?args @ only (lp_offload_rollout args) [Onload_Kv] @
      only (planned args len = 0 \<and> lp_eval_interval ?args \<noteq> None) [Evaluate 0] @ concat steps @ [Dispose_Manager]"
  have calls: "train args len actor_ids critic_ids = Inr ?calls" using m(1) t(1) s by (simp add: train_def)
  have idle: "obeys (policy 0) (only b [c]) u = Some u" if "\<not> steps_of c" for b c u
    using that by (auto intro!: policy_idle split: if_splits)
  have k: "\<not> steps_of Onload_Weights" "\<not> steps_of Onload_Kv" "\<not> steps_of (Evaluate 0)" "\<not> steps_of Dispose_Manager"
    by (simp_all add: steps_of_def)
  have f0: "fresh ?args ?start ?start no_versions"
    unfolding fresh_def by (intro conjI trained_on_start) (simp_all add: no_versions_def)
  obtain v where v: "obeys (policy 0) (concat steps) no_versions = Some v" "vs_actor v = filter (actor_trains args) [?start..?e]"
    "vs_critic v = only (lp_use_critic args) [?start..?e]"
  proof (cases "?start \<le> ?e + 1")
    case True
    obtain w where "obeys (policy 0) (concat steps) no_versions = Some w" "fresh ?args ?start (?e + 1) w"
      using train_steps_fresh[OF s f0 order_refl _ True] assms(3) by auto
    then show thesis by (intro that[of w]) (simp_all add: fresh_def trained_on_def)
  next
    case False
    then have "steps = []" using s by simp
    then show thesis using False by (intro that[of no_versions]) (simp_all add: no_versions_def only_def)
  qed
  have first: "obeys (policy 0) (first_weights ?args) no_versions = Some no_versions" by (rule policy_first) (simp_all add: no_versions_def)
  have "obeys (policy 0) ?calls no_versions = Some v"
    by (rule obeys_thenI, rule policy_idle, erule m(3), rule obeys_thenI, rule policy_idle, erule t(2), rule obeys_thenI, rule idle[OF k(1)],
      rule obeys_thenI, rule first, rule obeys_thenI, rule idle[OF k(2)], rule obeys_thenI, rule idle[OF k(3)], rule obeys_thenI, rule v(1))
      (use k(4) in \<open>simp add: steps_of_def\<close>)
  then show ?thesis using calls v(2,3) by blast
qed

section \<open>Training one step behind\<close>

definition async_inv :: "loop_args \<Rightarrow> nat \<Rightarrow> int \<Rightarrow> int \<Rightarrow> async_state \<Rightarrow> versions \<Rightarrow> bool" where
  "async_inv args k start r s v \<longleftrightarrow>
     obeys (policy k) (as_calls s) no_versions = Some v \<and> trained_on args start r v \<and> (\<forall>i > r. vs_version v i = None) \<and>
     int (vs_trained v) \<le> int (vs_served v) + r mod int k \<and>
     (r < num_of args \<longrightarrow>
        (\<exists>g. vs_version v r = Some g \<and> vs_trained v \<le> g + k) \<and>
        (as_next s = Some r \<and> vs_open v = [r] \<or> as_next s = None \<and> as_curr s = Some r \<and> vs_open v = []))"

lemma get_future_closes:
  assumes "\<And>r. x = Some r \<Longrightarrow> vs_version v r \<noteq> None" "x = None \<longrightarrow> vs_open v = []" "set (vs_open v) \<subseteq> set_option x"
  obtains w where "obeys (policy k) (get_future x) v = Some w" "vs_open w = []" "vs_version w = vs_version v" "vs_trained w = vs_trained v"
    "vs_served w = vs_served v" "vs_actor w = vs_actor v" "vs_critic w = vs_critic v"
proof (cases x)
  case None
  then show ?thesis using assms(2) by (intro that[of v]) (simp_all add: get_future_def)
next
  case (Some r)
  have "removeAll r (vs_open v) = []" using assms(3) Some by (auto simp: filter_empty_conv removeAll_filter_not_eq)
  then show ?thesis using assms(1)[OF Some] Some by (intro that[of "v\<lparr>vs_open := []\<rparr>"]) (auto simp: get_future_def)
qed

lemma next_mod:
  assumes "0 < k" "(r + 1) mod int k \<noteq> 0"
  shows "(r + 1) mod int k = r mod int k + 1"
proof -
  have b: "0 \<le> r mod int k" "r mod int k < int k" using assms(1) by simp_all
  have e: "(r + 1) mod int k = (r mod int k + 1) mod int k" by (simp add: mod_simps)
  have "r mod int k + 1 \<noteq> int k" using assms(2) e by auto
  then show ?thesis using e b by simp
qed

lemma async_step_ok:
  assumes "async_step args n r s = Inr t" "async_inv args k start r s v" "start \<le> r" "r < num_of args"
    "lp_update_weights_interval args = int k" "0 < k" "lp_critic_train_only args \<longrightarrow> lp_use_critic args"
  shows "\<exists>w. async_inv args k start (r + 1) t w"
proof -
  let ?early = "r + 1 < num_of args" let ?nxt = "if ?early then Some (r + 1) else as_next s"
  let ?updates = "(r + 1) mod int k = 0"
  have v: "obeys (policy k) (as_calls s) no_versions = Some v" "trained_on args start r v" "\<forall>i > r. vs_version v i = None"
    "int (vs_trained v) \<le> int (vs_served v) + r mod int k" using assms(2) by (simp_all add: async_inv_def)
  obtain g where g: "vs_version v r = Some g" "vs_trained v \<le> g + k" using assms(2,4) by (auto simp: async_inv_def)
  have nx: "as_next s = Some r \<and> vs_open v = [r] \<or> as_next s = None \<and> as_curr s = Some r \<and> vs_open v = []"
    using assms(2,4) by (simp add: async_inv_def)
  then have curr: "(case as_next s of None \<Rightarrow> as_curr s | Some x \<Rightarrow> Some x) = Some r" by auto
  have a: "divides (lp_update_weights_interval args) (r + 1) = Inr ?updates" using assms(5,6) by (simp add: divides_simp)
  obtain saves evals where t: "t = \<lparr>as_next = (if ?updates then None else ?nxt), as_curr = (if ?updates then ?nxt else Some r),
           as_calls = as_calls s @ get_future (as_next s) @ only ?early [Generate_Start (r + 1)] @ train_calls args r (Some r) @
             only saves (save_calls_async args r) @
             only ?updates (get_future ?nxt @ only (\<not> lp_critic_train_only args) [Update_Weights]) @ only evals [Evaluate r]\<rparr>"
    using assms(1) unfolding async_step_def Let_def curr a by (auto simp: bindE_eq_Inr)
  obtain v1 where v1: "obeys (policy k) (get_future (as_next s)) v = Some v1" "vs_open v1 = []" "vs_version v1 = vs_version v" "vs_trained v1 = vs_trained v"
    "vs_served v1 = vs_served v" "vs_actor v1 = vs_actor v" "vs_critic v1 = vs_critic v"
    by (rule get_future_closes[of "as_next s" v k]) (use nx g(1) in auto)
  define v2 where "v2 = (if ?early then v1\<lparr>vs_open := [r + 1], vs_version := (vs_version v)(r + 1 \<mapsto> vs_served v)\<rparr> else v1)"
  have s2: "obeys (policy k) (only ?early [Generate_Start (r + 1)]) v1 = Some v2" using v(3) v1 by (simp add: v2_def only_def)
  have f2: "vs_version v2 r = Some g" "r \<notin> set (vs_open v2)" "vs_trained v2 = vs_trained v" "vs_served v2 = vs_served v" "vs_actor v2 = vs_actor v"
    "vs_critic v2 = vs_critic v" "vs_open v2 = only ?early [r + 1]" "\<forall>i > r + 1. vs_version v2 i = None" "?early \<longrightarrow> vs_version v2 (r + 1) = Some (vs_served v)"
    using v1 v(3) g(1) by (simp_all add: v2_def only_def)
  let ?T = "vs_trained v + (if actor_trains args r then 1 else 0)"
  obtain v3 where s3: "obeys (policy k) (train_calls args r (Some r)) v2 = Some v3" and f3: "vs_trained v3 = ?T"
    "vs_actor v3 = vs_actor v @ only (actor_trains args r) [r]" "vs_critic v3 = vs_critic v @ only (lp_use_critic args) [r]"
    "vs_served v3 = vs_served v" "vs_open v3 = only ?early [r + 1]" "vs_version v3 = vs_version v2"
  proof -
    have "vs_trained v2 \<le> g + k" using f2(3) g(2) by simp
    from policy_train[OF f2(1,2) this, of args] show thesis by (rule that) (use f2(3-7) in simp_all)
  qed
  obtain v4 where s4: "obeys (policy k) (only ?updates (get_future ?nxt @ only (\<not> lp_critic_train_only args) [Update_Weights])) v3 = Some v4"
    and f4: "vs_trained v4 = ?T" "vs_actor v4 = vs_actor v3" "vs_critic v4 = vs_critic v3" "vs_version v4 = vs_version v2"
    "vs_open v4 = only (?early \<and> \<not> ?updates) [r + 1]" "vs_served v4 = (if ?updates \<and> \<not> lp_critic_train_only args then ?T else vs_served v)"
  proof (cases ?updates)
    case True
    have nn: "\<And>i. ?nxt = Some i \<Longrightarrow> vs_version v3 i \<noteq> None" using f2(1,9) f3(6) nx by (auto split: if_splits)
    obtain w where w: "obeys (policy k) (get_future ?nxt) v3 = Some w" "vs_open w = []" "vs_version w = vs_version v3" "vs_trained w = vs_trained v3"
      "vs_served w = vs_served v3" "vs_actor w = vs_actor v3" "vs_critic w = vs_critic v3"
      by (rule get_future_closes[of ?nxt v3 k, OF nn]) (use f3(5) in \<open>auto simp: only_def\<close>)
    show thesis using True w f3 by (intro that[of "if lp_critic_train_only args then w else w\<lparr>vs_served := vs_trained w\<rparr>"]) (simp_all add: obeys_append only_def)
  next
    case False
    then show thesis using f3 by (intro that[of v3]) (simp_all add: only_def)
  qed
  have "obeys (policy k) (as_calls t) no_versions = Some v4"
    unfolding t async_state.simps
    by (rule obeys_thenI, rule v(1), rule obeys_thenI, rule v1(1), rule obeys_thenI, rule s2, rule obeys_thenI, rule s3, rule obeys_thenI,
      rule policy_idle, simp split: if_splits, rule obeys_thenI, rule s4, rule policy_idle) (simp add: steps_of_def split: if_splits)
  moreover have "trained_on args start (r + 1) v4"
    by (rule trained_on_step[OF v(2) assms(3)]) (use f4(1-3,6) f3(2,3) v(2) in \<open>auto simp: trained_on_def\<close>)
  moreover have diff: "int ?T \<le> int (vs_served v4) + (r + 1) mod int k"
  proof (cases ?updates)
    case True
    then show ?thesis using f4(6) v(2) assms(7) by (auto simp: trained_on_def actor_trains_def)
  next
    case False
    then show ?thesis using v(4) f4(6) next_mod[OF assms(6) False] by simp
  qed
  moreover have "int ?T \<le> int (vs_served v) + int k"
  proof -
    have "r mod int k < int k" using assms(6) by simp
    then show ?thesis using v(4) by simp
  qed
  ultimately show ?thesis using f4 f2(8,9) t unfolding async_inv_def
    by (intro exI[of _ v4]) (auto simp: only_def)
qed

lemma async_steps_ok:
  assumes "foldE (async_step args n) [r..num_of args - 1] s = Inr t" "async_inv args k start r s v" "start \<le> r" "r \<le> num_of args"
    "lp_update_weights_interval args = int k" "0 < k" "lp_critic_train_only args \<longrightarrow> lp_use_critic args"
  shows "\<exists>w. async_inv args k start (num_of args) t w"
  using assms
proof (induction "nat (num_of args - r)" arbitrary: r s v)
  case 0
  then show ?case by auto
next
  case (Suc m)
  have lt: "r < num_of args" using Suc(2) by simp
  have "[r..num_of args - 1] = r # [r + 1..num_of args - 1]" using lt by (intro upto_rec1) simp
  then obtain u where u: "async_step args n r s = Inr u" "foldE (async_step args n) [r + 1..num_of args - 1] u = Inr t"
    using Suc.prems(1) by (auto simp: bindE_eq_Inr)
  obtain w where "async_inv args k start (r + 1) u w" using async_step_ok[OF u(1) Suc.prems(2,3) lt Suc.prems(5-7)] by blast
  then show ?case using Suc.hyps(1)[OF _ u(2)] Suc.hyps(2) Suc.prems(3,5-7) lt by simp
qed

lemma async_steps_total:
  assumes "valid_run args len" "n \<noteq> Some 0" "lp_update_weights_interval args \<noteq> 0"
  shows "\<exists>t. foldE (async_step (resolved args len a c) n) rs s = Inr t"
proof -
  let ?args = "resolved args len a c"
  have i: "lp_save_interval ?args \<noteq> Some 0" "lp_eval_interval ?args \<noteq> Some 0" using assms(1) by (simp_all add: resolved_def valid_run_def)
  have "\<exists>t. async_step ?args n r u = Inr t" for r u
  proof -
    obtain x y where "should_run_periodic_action r (lp_save_interval ?args) n (lp_num_rollout ?args) = Inr x"
      "should_run_periodic_action r (lp_eval_interval ?args) n None = Inr y"
      using periodic_total[OF i(1) assms(2)] periodic_total[OF i(2) assms(2)] by meson
    then show ?thesis using assms(3) by (simp add: async_step_def Let_def divides_simp)
  qed
  then show ?thesis using foldE_total[of "\<lambda>_. True" s rs "async_step ?args n"] by simp
qed

text \<open>C37. The asynchronous driver runs to the end; although the next rollout is generated while the models train, every rollout is
  generated once and trained on once, in order and with its own data, weights are only updated between generations,
  and the weights that generated the data of a step of the actor are at most \<open>update_weights_interval\<close> of its steps old.\<close>

theorem train_async_staleness:
  assumes "valid_run args len" "length (remdups (start_ids args actor_ids critic_ids)) = 1" "lp_critic_train_only args \<longrightarrow> lp_use_critic args"
    "\<not> lp_colocate args" "lp_update_weights_interval args = int k" "0 < k" "first_rollout args actor_ids critic_ids \<le> planned args len"
  shows "\<exists>calls v. train_async args len actor_ids critic_ids = Inr calls \<and> obeys (policy k) calls no_versions = Some v \<and>
    vs_actor v = filter (actor_trains args) [first_rollout args actor_ids critic_ids..planned args len - 1] \<and>
    vs_critic v = only (lp_use_critic args) [first_rollout args actor_ids critic_ids..planned args len - 1]"
proof -
  let ?args = "resolved args len actor_ids critic_ids" let ?start = "first_rollout args actor_ids critic_ids"
  obtain n calls1 where m: "create_rollout_manager args len = Inr (args\<lparr>lp_num_rollout := Some (planned args len)\<rparr>, n, calls1)"
    "n \<noteq> Some 0" "\<And>c. c \<in> set calls1 \<Longrightarrow> \<not> steps_of c" using manager_created[OF assms(1)] by metis
  obtain calls2 where t: "create_training_models (args\<lparr>lp_num_rollout := Some (planned args len)\<rparr>) actor_ids critic_ids = Inr (?args, calls2)"
    "\<And>c. c \<in> set calls2 \<Longrightarrow> \<not> steps_of c" using models_created[OF assms(2)] by metis
  let ?s = "\<lparr>as_next = Some ?start, as_curr = None, as_calls = calls1 @ calls2 @ first_weights ?args @ [Generate_Start ?start]\<rparr>"
  let ?v = "no_versions\<lparr>vs_open := [?start], vs_version := (\<lambda>_. None)(?start \<mapsto> 0)\<rparr>"
  have k0: "lp_update_weights_interval args \<noteq> 0" using assms(5,6) by simp
  obtain u where u: "foldE (async_step ?args n) [?start..planned args len - 1] ?s = Inr u" using async_steps_total[OF assms(1) m(2) k0] by blast
  have calls: "train_async args len actor_ids critic_ids = Inr (as_calls u @ [Dispose_Manager])" using m(1) t(1) u assms(4) by (simp add: train_async_def)
  have first: "obeys (policy k) (first_weights ?args) no_versions = Some no_versions" by (rule policy_first) (simp_all add: no_versions_def)
  have gen: "obeys (policy k) [Generate_Start ?start] no_versions = Some ?v" by (simp add: no_versions_def)
  have "obeys (policy k) (calls1 @ calls2 @ first_weights ?args @ [Generate_Start ?start]) no_versions = Some ?v"
    by (rule obeys_thenI, rule policy_idle, erule m(3), rule obeys_thenI, rule policy_idle, erule t(2), rule obeys_thenI, rule first, rule gen)
  moreover have "trained_on ?args ?start ?start ?v" using trained_on_start by (simp add: trained_on_def)
  ultimately have inv: "async_inv ?args k ?start ?start ?s ?v" using assms(6) by (simp add: async_inv_def) (simp add: no_versions_def)
  obtain w where w: "async_inv ?args k ?start (num_of ?args) u w"
    using async_steps_ok[of ?args n ?start ?s u k ?start ?v] u inv assms(3,5-7) by auto
  then have "obeys (policy k) (as_calls u @ [Dispose_Manager]) no_versions = Some w" by (simp add: async_inv_def obeys_append)
  then show ?thesis using calls w by (auto simp: async_inv_def trained_on_def)
qed

section \<open>Sharing the GPUs\<close>

record memory =
  mem_weights :: bool
  mem_kv :: bool
  mem_actor :: bool
  mem_critic :: bool

text \<open>What is loaded: the weights and the caches of the engines, and the models. Models load when they train and sleep after
  their initialization.\<close>

fun memory_rule :: "remote_call \<Rightarrow> memory \<Rightarrow> memory option" where
  "memory_rule Offload_Rollout m = Some (m\<lparr>mem_weights := False, mem_kv := False\<rparr>)"
| "memory_rule Onload_Weights m = (if mem_actor m \<or> mem_critic m then None else Some (m\<lparr>mem_weights := True\<rparr>))"
| "memory_rule Onload_Kv m = (if mem_actor m \<or> mem_critic m then None else Some (m\<lparr>mem_kv := True\<rparr>))"
| "memory_rule Update_Weights m = (if mem_weights m \<and> \<not> mem_kv m then Some m else None)"
| "memory_rule (Init_Model r a b) m = (if mem_weights m \<or> mem_kv m then None else Some m)"
| "memory_rule (Evaluate r) m = (if mem_weights m \<and> mem_kv m \<and> \<not> mem_actor m \<and> \<not> mem_critic m then Some m else None)"
| "memory_rule (Generate_Start r) m = (if mem_weights m \<and> mem_kv m \<and> \<not> mem_actor m \<and> \<not> mem_critic m then Some m else None)"
| "memory_rule (Train_Start x r d) m =
     (if mem_weights m \<or> mem_kv m then None else Some (if x = Actor then m\<lparr>mem_actor := True\<rparr> else m\<lparr>mem_critic := True\<rparr>))"
| "memory_rule (Offload_Model x) m = Some (if x = Actor then m\<lparr>mem_actor := False\<rparr> else m\<lparr>mem_critic := False\<rparr>)"
| "memory_rule _ m = Some m"

definition serving :: memory where "serving = \<lparr>mem_weights = True, mem_kv = True, mem_actor = False, mem_critic = False\<rparr>"
definition away :: memory where "away = \<lparr>mem_weights = False, mem_kv = False, mem_actor = False, mem_critic = False\<rparr>"

lemma memory_step:
  assumes "train_step args n r = Inr calls" "lp_offload_rollout args" "lp_offload_train args"
  shows "obeys memory_rule calls serving = Some serving"
proof -
  obtain saves evals where c: "calls = only (lp_eval_interval args \<noteq> None \<and> r = 0 \<and> \<not> lp_skip_eval_before_train args) [Evaluate r] @
       [Generate_Start r, Generate_Get r, Offload_Rollout] @ (train_calls args r (Some r) @ only saves (save_calls args r) @ offload_train args r) @
       [Onload_Weights] @ only (\<not> lp_critic_train_only args) [Update_Weights] @ [Onload_Kv] @ only evals [Evaluate r]"
    using assms by (auto simp: train_step_def bindE_eq_Inr)
  have sv: "obeys memory_rule (only b (save_calls args r)) m = Some m" for b m
    by (rule obeys_idle) (auto simp: save_calls_def only_def Let_def split: if_splits)
  let ?awake = "away\<lparr>mem_actor := actor_trains args r, mem_critic := lp_use_critic args\<rparr>"
  have t: "obeys memory_rule (train_calls args r (Some r)) away = Some ?awake"
    by (simp add: train_calls_def actor_trains_def away_def only_def)
  have o: "obeys memory_rule (offload_train args r) ?awake = Some away"
    using assms(3) by (simp add: offload_train_def actor_trains_def away_def only_def)
  have tr: "obeys memory_rule (train_calls args r (Some r) @ only saves (save_calls args r) @ offload_train args r) away = Some away"
    by (rule obeys_thenI, rule t, rule obeys_thenI, rule sv, rule o)
  have g: "obeys memory_rule [Generate_Start r, Generate_Get r, Offload_Rollout] serving = Some away" by (simp add: serving_def away_def)
  have l: "obeys memory_rule ([Onload_Weights] @ only (\<not> lp_critic_train_only args) [Update_Weights] @ [Onload_Kv] @ only evals [Evaluate r]) away = Some serving"
    by (simp add: serving_def away_def only_def)
  have ev: "obeys memory_rule (only b [Evaluate r]) serving = Some serving" for b by (simp add: serving_def only_def)
  show ?thesis unfolding c by (rule obeys_thenI, rule ev, rule obeys_thenI, rule g, rule obeys_thenI, rule tr, rule l)
qed

lemma manager_parts:
  assumes "create_rollout_manager args len = Inr (args', n, calls)"
  shows "lp_offload_rollout args' = lp_offload_rollout args \<and> lp_offload_train args' = lp_offload_train args \<and>
    calls = only (lp_check_weight_update_equal args) [Check_Weights ''snapshot'', Check_Weights ''reset_tensors''] @
       only (lp_offload_rollout args) [Offload_Rollout]"
  using assms by (cases "lp_num_rollout args") (auto simp: create_rollout_manager_def bindE_eq_Inr split: option.splits)

lemma models_parts:
  assumes "create_training_models args actor_ids critic_ids = Inr (args', calls)"
  shows "lp_offload_rollout args' = lp_offload_rollout args \<and> lp_offload_train args' = lp_offload_train args \<and>
    obeys memory_rule calls away = Some away"
  using assms unfolding create_training_models_def Let_def bindE_eq_Inr by (auto simp: only_def away_def)

text \<open>C38. When models and engines share GPUs, the synchronous driver never has both loaded: engines generate and evaluate while the
  models sleep, models train while the engines are offloaded, and weights are updated after the weights of the engines
  are back and before their caches are.\<close>

theorem train_memory:
  assumes "train args len actor_ids critic_ids = Inr calls" "lp_offload_rollout args" "lp_offload_train args"
  shows "obeys memory_rule calls serving = Some serving"
proof -
  obtain args1 n calls1 where m: "create_rollout_manager args len = Inr (args1, n, calls1)" "lp_offload_rollout args1" "lp_offload_train args1"
    "calls1 = only (lp_check_weight_update_equal args) [Check_Weights ''snapshot'', Check_Weights ''reset_tensors''] @ [Offload_Rollout]"
  proof -
    obtain a n cs where e: "create_rollout_manager args len = Inr (a, n, cs)"
      using assms(1) by (auto simp: train_def bindE_eq_Inr)
    show thesis by (rule that[OF e]) (use manager_parts[OF e] assms(2,3) in simp_all)
  qed
  obtain args2 calls2 where t: "create_training_models args1 actor_ids critic_ids = Inr (args2, calls2)" "lp_offload_rollout args2" "lp_offload_train args2"
    "obeys memory_rule calls2 away = Some away"
  proof -
    obtain a cs where e: "create_training_models args1 actor_ids critic_ids = Inr (a, cs)"
      using assms(1) m(1) by (auto simp: train_def bindE_eq_Inr)
    show thesis by (rule that[OF e]) (use models_parts[OF e] m(2,3) in simp_all)
  qed
  obtain steps where s: "mapE (train_step args2 n) [start_of args2..num_of args2 - 1] = Inr steps"
    "calls = calls1 @ calls2 @ [Onload_Weights] @ first_weights args2 @ [Onload_Kv] @
       only (num_of args2 = 0 \<and> lp_eval_interval args2 \<noteq> None) [Evaluate 0] @ concat steps @ [Dispose_Manager]"
    using assms(1) m(1) t(1,2) by (auto simp: train_def bindE_eq_Inr)
  have "mapE (train_step args2 n) rs = Inr ss \<Longrightarrow> obeys memory_rule (concat ss) serving = Some serving" for rs ss
  proof (induction rs arbitrary: ss)
    case (Cons r rs)
    then show ?case using memory_step[OF _ t(2,3)] by (auto simp: bindE_eq_Inr obeys_append)
  qed simp
  then have st: "obeys memory_rule (concat steps) serving = Some serving" using s(1) by blast
  have b: "obeys memory_rule calls1 serving = Some away" by (simp add: m(4) serving_def away_def only_def)
  have w: "obeys memory_rule [Onload_Weights] away = Some (away\<lparr>mem_weights := True\<rparr>)"
    "obeys memory_rule (first_weights args2) (away\<lparr>mem_weights := True\<rparr>) = Some (away\<lparr>mem_weights := True\<rparr>)"
    "obeys memory_rule [Onload_Kv] (away\<lparr>mem_weights := True\<rparr>) = Some serving"
    "obeys memory_rule (only x [Evaluate 0]) serving = Some serving" "obeys memory_rule [Dispose_Manager] serving = Some serving" for x
    by (simp_all add: first_weights_def serving_def away_def only_def)
  show ?thesis unfolding s(2)
    by (rule obeys_thenI, rule b, rule obeys_thenI, rule t(4), rule obeys_thenI, rule w(1), rule obeys_thenI, rule w(2), rule obeys_thenI, rule w(3),
      rule obeys_thenI, rule w(4), rule obeys_thenI, rule st, rule w(5))
qed

text \<open>The asynchronous driver lacks the calls that load offloaded engines again: with \<open>offload_rollout\<close> it uses engines
  without weights.\<close>

lemma async_steps_extend:
  "foldE (async_step args n) rs s = Inr t \<Longrightarrow> \<exists>cs. as_calls t = as_calls s @ cs"
proof (induction rs arbitrary: s)
  case (Cons r rs)
  obtain u where u: "async_step args n r s = Inr u" "foldE (async_step args n) rs u = Inr t" using Cons.prems by (auto simp: bindE_eq_Inr)
  have "\<exists>cs. as_calls u = as_calls s @ cs" using u(1) by (auto simp: async_step_def Let_def bindE_eq_Inr)
  then show ?case using Cons.IH[OF u(2)] by auto
qed simp

lemma async_never_onloads:
  assumes "train_async args len actor_ids critic_ids = Inr calls" "lp_offload_rollout args"
  shows "obeys memory_rule calls serving = None"
proof -
  obtain args1 n calls1 where m: "create_rollout_manager args len = Inr (args1, n, calls1)"
    using assms(1) by (auto simp: train_async_def bindE_eq_Inr)
  obtain args2 calls2 where t: "create_training_models args1 actor_ids critic_ids = Inr (args2, calls2)"
    using assms(1) m by (auto simp: train_async_def bindE_eq_Inr)
  obtain u where u: "foldE (async_step args2 n) [start_of args2..num_of args2 - 1] \<lparr>as_next = Some (start_of args2), as_curr = None,
      as_calls = calls1 @ calls2 @ first_weights args2 @ [Generate_Start (start_of args2)]\<rparr> = Inr u" "calls = as_calls u @ [Dispose_Manager]"
    using assms(1) m t by (auto simp: train_async_def bindE_eq_Inr)
  obtain cs where cs: "as_calls u = calls1 @ calls2 @ first_weights args2 @ [Generate_Start (start_of args2)] @ cs"
    using async_steps_extend[OF u(1)] by auto
  have b: "obeys memory_rule calls1 serving = Some away" using manager_parts[OF m] assms(2) by (simp add: serving_def away_def only_def)
  have c: "obeys memory_rule calls2 away = Some away" using models_parts[OF t] by simp
  show ?thesis unfolding u(2) cs append_assoc obeys_then[OF b] obeys_then[OF c]
    by (simp add: first_weights_def away_def only_def)
qed

section \<open>A run\<close>

definition demo_loop_args :: loop_args where
  "demo_loop_args = \<lparr>lp_offload_rollout = True, lp_offload_train = True, lp_use_critic = True, lp_critic_train_only = False,
     lp_check_weight_update_equal = False, lp_rollout_global_dataset = True, lp_skip_eval_before_train = False, lp_colocate = False,
     lp_with_ref = True, lp_with_opd_teacher = False, lp_rollout_batch_size = 2, lp_num_rollout = None, lp_num_epoch = Some 2,
     lp_start_rollout_id = None, lp_eval_interval = Some 2, lp_save_interval = Some 3, lp_num_critic_only_steps = 1,
     lp_update_weights_interval = 2\<rparr>"

lemma demo_run:
  "valid_run demo_loop_args 4" "length (remdups (start_ids demo_loop_args [0, 0] [0])) = 1" "planned demo_loop_args 4 = 4"
  "first_rollout demo_loop_args [0, 0] [0] = 0" "lp_update_weights_interval demo_loop_args = int 2"
  by (simp_all add: demo_loop_args_def valid_run_def planned_def start_ids_def first_rollout_def)

theorem train_on_policy_witness:
  "\<exists>calls v. train demo_loop_args 4 [0, 0] [0] = Inr calls \<and> obeys (policy 0) calls no_versions = Some v \<and>
    vs_actor v = [1, 2, 3] \<and> vs_critic v = [0, 1, 2, 3]"
proof -
  have u: "[0..3] = [0, 1, 2, 3 :: int]" by (simp add: upto_rec1)
  have "lp_critic_train_only demo_loop_args \<longrightarrow> lp_use_critic demo_loop_args" by (simp add: demo_loop_args_def)
  from train_on_policy[OF demo_run(1,2) this] show ?thesis unfolding demo_run(3,4)
    by (simp add: u demo_loop_args_def actor_trains_def only_def)
qed

theorem train_async_staleness_witness:
  "\<exists>calls v. train_async demo_loop_args 4 [0, 0] [0] = Inr calls \<and> obeys (policy 2) calls no_versions = Some v \<and>
    vs_actor v = [1, 2, 3] \<and> vs_critic v = [0, 1, 2, 3]"
proof -
  have u: "[0..3] = [0, 1, 2, 3 :: int]" by (simp add: upto_rec1)
  have h: "lp_critic_train_only demo_loop_args \<longrightarrow> lp_use_critic demo_loop_args" "\<not> lp_colocate demo_loop_args" by (simp_all add: demo_loop_args_def)
  have "first_rollout demo_loop_args [0, 0] [0] \<le> planned demo_loop_args 4" by (simp add: demo_run)
  from train_async_staleness[OF demo_run(1,2) h demo_run(5) _ this] show ?thesis unfolding demo_run(3,4)
    by (simp add: u demo_loop_args_def actor_trains_def only_def)
qed

theorem train_memory_witness:
  "\<exists>calls. train demo_loop_args 4 [0, 0] [0] = Inr calls \<and> obeys memory_rule calls serving = Some serving"
proof -
  obtain calls where c: "train demo_loop_args 4 [0, 0] [0] = Inr calls" using train_runs[OF demo_run(1,2)] by blast
  have "lp_offload_rollout demo_loop_args" "lp_offload_train demo_loop_args" by (simp_all add: demo_loop_args_def)
  from train_memory[OF c this] c show ?thesis by blast
qed

end
