(* ===== verification/Eval_Config.thy ===== *)
theory Eval_Config
  imports Sglang_Config
begin

text \<open>
  \<open>utils/eval_config.py\<close> and \<open>_resolve_eval_datasets\<close>: the settings of an evaluation data set come from its own entry,
  the defaults of the file, or the arguments.  The arguments are their name space, a dictionary; the YAML file is
  its value.
\<close>

section \<open>Picking values\<close>

record field_spec =
  fs_field :: string
  fs_dataset_keys :: "string list"
  fs_default_keys :: "string list"
  fs_arg_attrs :: "string list"

definition spec :: "string \<Rightarrow> string list \<Rightarrow> field_spec" where
  "spec f attrs = \<lparr>fs_field = f, fs_dataset_keys = [f], fs_default_keys = [f], fs_arg_attrs = attrs\<rparr>"

definition dataset_runtime_specs :: "field_spec list" where
  "dataset_runtime_specs =
     [spec ''n_samples_per_eval_prompt'' [''n_samples_per_eval_prompt'', ''n_samples_per_prompt''],
      spec ''temperature'' [''eval_temperature'', ''rollout_temperature''],
      spec ''top_p'' [''eval_top_p'', ''rollout_top_p''],
      spec ''top_k'' [''eval_top_k'', ''rollout_top_k''],
      spec ''max_response_len'' [''eval_max_response_len'', ''rollout_max_response_len'']]"

definition dataset_sample_specs :: "field_spec list" where
  "dataset_sample_specs =
     [spec ''input_key'' [''eval_input_key'', ''input_key''], spec ''label_key'' [''eval_label_key'', ''label_key''],
      spec ''tool_key'' [''eval_tool_key'', ''tool_key''], spec ''metadata_key'' [''metadata_key'']]"

fun first_not_missing :: "pyval option list \<Rightarrow> pyval option" where
  "first_not_missing [] = None"
| "first_not_missing (None # vs) = first_not_missing vs"
| "first_not_missing (Some v # vs) = Some v"

definition pick_from_mapping :: "(string, pyval) dict \<Rightarrow> string list \<Rightarrow> pyval option" where
  "pick_from_mapping d key_names = first_not_missing (map (map_of d) key_names)"

fun pick_from_args :: "(string, pyval) dict \<Rightarrow> string list \<Rightarrow> pyval" where
  "pick_from_args args [] = PNone"
| "pick_from_args args (a # attrs) =
     (case map_of args a of None \<Rightarrow> pick_from_args args attrs
      | Some v \<Rightarrow> if v = PNone then pick_from_args args attrs else v)"

definition resolve_field :: "(string, pyval) dict \<Rightarrow> (string, pyval) dict \<Rightarrow> field_spec \<Rightarrow> (string, pyval) dict \<Rightarrow> pyval" where
  "resolve_field args defaults s cfg =
     (case first_not_missing [pick_from_mapping cfg (fs_dataset_keys s), pick_from_mapping defaults (fs_default_keys s)] of
        Some v \<Rightarrow> v | None \<Rightarrow> pick_from_args args (fs_arg_attrs s))"

definition apply_dataset_field_overrides ::
  "(string, pyval) dict \<Rightarrow> (string, pyval) dict \<Rightarrow> field_spec list \<Rightarrow> (string, pyval) dict \<Rightarrow> (string, pyval) dict"
where
  "apply_dataset_field_overrides args defaults specs cfg =
     fold (\<lambda>s cfg. dset (fs_field s) (resolve_field args defaults s cfg) cfg) specs cfg"

section \<open>A data set\<close>

record eval_config =
  ec_name :: pyval
  ec_path :: pyval
  ec_rm_type :: pyval
  ec_input_key :: pyval
  ec_label_key :: pyval
  ec_tool_key :: pyval
  ec_metadata_key :: pyval
  ec_n_samples_per_eval_prompt :: pyval
  ec_temperature :: pyval
  ec_top_p :: pyval
  ec_top_k :: pyval
  ec_max_response_len :: pyval
  ec_stop :: pyval
  ec_stop_token_ids :: pyval
  ec_min_new_tokens :: pyval
  ec_custom_generate_function_path :: pyval
  ec_app_service :: pyval
  ec_metadata_overrides :: "(string, pyval) dict"

definition eval_fields :: "string list" where
  "eval_fields =
     [''name'', ''path'', ''rm_type'', ''input_key'', ''label_key'', ''tool_key'', ''metadata_key'', ''n_samples_per_eval_prompt'',
      ''temperature'', ''top_p'', ''top_k'', ''max_response_len'', ''stop'', ''stop_token_ids'', ''min_new_tokens'',
      ''custom_generate_function_path'', ''app_service'', ''metadata_overrides'']"

definition ensure_metadata_overrides :: "pyval \<Rightarrow> (string, pyval) dict result" where
  "ensure_metadata_overrides v = (case v of PNone \<Rightarrow> Inr [] | PDict d \<Rightarrow> Inr d | _ \<Rightarrow> Inl TypeError)"

text \<open>\<open>EvalDatasetConfig(**d)\<close>.\<close>

definition new_eval_config :: "(string, pyval) dict \<Rightarrow> eval_config result" where
  "new_eval_config d =
     (let f = (\<lambda>k. dget_default d k PNone) in
      bindE (raise_unless TypeError (list_all (\<lambda>(k, v). k \<in> set eval_fields) d)) (\<lambda>_.
      bindE (raise_unless TypeError (map_of d ''name'' \<noteq> None \<and> map_of d ''path'' \<noteq> None)) (\<lambda>_.
      bindE (ensure_metadata_overrides (f ''metadata_overrides'')) (\<lambda>overrides.
      Inr \<lparr>ec_name = f ''name'', ec_path = f ''path'', ec_rm_type = f ''rm_type'', ec_input_key = f ''input_key'',
           ec_label_key = f ''label_key'', ec_tool_key = f ''tool_key'', ec_metadata_key = f ''metadata_key'',
           ec_n_samples_per_eval_prompt = f ''n_samples_per_eval_prompt'', ec_temperature = f ''temperature'',
           ec_top_p = f ''top_p'', ec_top_k = f ''top_k'', ec_max_response_len = f ''max_response_len'', ec_stop = f ''stop'',
           ec_stop_token_ids = f ''stop_token_ids'', ec_min_new_tokens = f ''min_new_tokens'',
           ec_custom_generate_function_path = f ''custom_generate_function_path'', ec_app_service = f ''app_service'',
           ec_metadata_overrides = overrides\<rparr>))))"

definition cache_key :: "eval_config \<Rightarrow> pyval list" where
  "cache_key c = [ec_name c, ec_path c, ec_input_key c, ec_label_key c, ec_tool_key c, ec_metadata_key c]"

definition inject_metadata :: "eval_config \<Rightarrow> pyval \<Rightarrow> (string, pyval) dict" where
  "inject_metadata c sample_metadata =
     (let metadata = (case sample_metadata of PDict d \<Rightarrow> d | _ \<Rightarrow> []);
          metadata = (if ec_rm_type c \<noteq> PNone then dset ''rm_type'' (ec_rm_type c) metadata else metadata) in
      fold (\<lambda>(k, v). dset k v) (ec_metadata_overrides c) metadata)"

section \<open>All data sets\<close>

text \<open>\<open>dict(x or {})\<close>, where \<open>x\<close> is a mapping.\<close>

definition dict_or_empty :: "pyval \<Rightarrow> (string, pyval) dict result" where
  "dict_or_empty v = (if falsy v then Inr [] else to_dict v)"

definition ensure_dataset_list :: "pyval \<Rightarrow> (string, pyval) dict list result" where
  "ensure_dataset_list config =
     (case config of
        PNone \<Rightarrow> Inr []
      | PDict d \<Rightarrow> mapE (\<lambda>(name, cfg). bindE (dict_or_empty cfg) (\<lambda>dataset.
          Inr (if map_of dataset ''name'' = None then dset ''name'' (PStr name) dataset else dataset))) d
      | PList items \<Rightarrow> mapE (\<lambda>item. bindE (dict_or_empty item) (\<lambda>dataset.
          bindE (raise_unless ValueError (map_of dataset ''name'' \<noteq> None)) (\<lambda>_. Inr dataset))) items
      | _ \<Rightarrow> Inl TypeError)"

definition build_eval_dataset_configs ::
  "(string, pyval) dict \<Rightarrow> (string, pyval) dict list \<Rightarrow> (string, pyval) dict \<Rightarrow> eval_config list result"
where
  "build_eval_dataset_configs args raw_config defaults =
     mapE (\<lambda>cfg. new_eval_config
       (apply_dataset_field_overrides args defaults (dataset_runtime_specs @ dataset_sample_specs) cfg)) raw_config"

fun name_path_pairs :: "pyval list \<Rightarrow> (string, pyval) dict list result" where
  "name_path_pairs [] = Inr []"
| "name_path_pairs [v] = Inl ValueError"
| "name_path_pairs (n # p # vs) = bindE (name_path_pairs vs) (\<lambda>ds. Inr ([(''name'', n), (''path'', p)] # ds))"

text \<open>\<open>container\<close> is the file \<open>eval_config\<close>; the second result is the new value of \<open>eval_prompt_data\<close>.\<close>

definition resolve_eval_datasets ::
  "(string, pyval) dict \<Rightarrow> pyval option \<Rightarrow> pyval list option \<Rightarrow> (eval_config list \<times> pyval list option) result"
where
  "resolve_eval_datasets args container eval_prompt_data =
     bindE (case container of
        Some c \<Rightarrow>
          bindE (case c of PDict d \<Rightarrow> Inr d | _ \<Rightarrow> Inl ValueError) (\<lambda>cfg_dict.
          bindE (case dget_default cfg_dict ''eval'' (PDict cfg_dict) of PDict d \<Rightarrow> Inr d | _ \<Rightarrow> Inl ValueError) (\<lambda>eval_cfg.
          bindE (dict_or_empty (dget_default eval_cfg ''defaults'' PNone)) (\<lambda>defaults.
          bindE (ensure_dataset_list (dget_default eval_cfg ''datasets'' PNone)) (\<lambda>datasets.
          bindE (raise_unless ValueError (datasets \<noteq> [])) (\<lambda>_. Inr (defaults, datasets))))))
      | None \<Rightarrow>
          (case eval_prompt_data of
             None \<Rightarrow> Inr ([], [])
           | Some values \<Rightarrow>
               bindE (name_path_pairs (if length values = 1 then PStr ''aime'' # values else values)) (\<lambda>datasets.
                 Inr ([], datasets)))) (\<lambda>(defaults, datasets_config).
     bindE (build_eval_dataset_configs args datasets_config defaults) (\<lambda>eval_datasets.
       Inr (eval_datasets,
         if eval_datasets = [] then None else Some (concat (map (\<lambda>d. [ec_name d, ec_path d]) eval_datasets)))))"

section \<open>Precedence\<close>

lemma first_not_missing_single [simp]: "first_not_missing [x] = x"
  by (cases x) auto

text \<open>A setting of a data set is its own, if it has one (even if it is \<open>None\<close>), or that of the defaults of the file, or the
  first argument that is set.\<close>

definition chosen :: "(string, pyval) dict \<Rightarrow> (string, pyval) dict \<Rightarrow> (string, pyval) dict \<Rightarrow> string \<Rightarrow> string list \<Rightarrow> pyval" where
  "chosen args defaults cfg key attrs =
     (case map_of cfg key of Some v \<Rightarrow> v
      | None \<Rightarrow> (case map_of defaults key of Some v \<Rightarrow> v | None \<Rightarrow> pick_from_args args attrs))"

lemma resolve_field_chosen: "resolve_field args defaults (spec f attrs) cfg = chosen args defaults cfg f attrs"
  by (cases "map_of cfg f"; cases "map_of defaults f") (simp_all add: resolve_field_def pick_from_mapping_def spec_def chosen_def)

lemma chosen_other: "k \<noteq> f \<Longrightarrow> chosen args defaults (dset k v cfg) f attrs = chosen args defaults cfg f attrs"
  by (simp add: chosen_def)

definition apply_specs :: "(string, pyval) dict \<Rightarrow> (string, pyval) dict \<Rightarrow> (string \<times> string list) list \<Rightarrow> (string, pyval) dict \<Rightarrow> (string, pyval) dict" where
  "apply_specs args defaults fas cfg = apply_dataset_field_overrides args defaults (map (\<lambda>(f, a). spec f a) fas) cfg"

lemma apply_specs_Cons:
  "apply_specs args defaults ((f, a) # fas) cfg = apply_specs args defaults fas (dset f (chosen args defaults cfg f a) cfg)"
  by (simp add: apply_specs_def apply_dataset_field_overrides_def resolve_field_chosen) (simp add: spec_def)

lemma apply_specs_other: "k \<notin> fst ` set fas \<Longrightarrow> map_of (apply_specs args defaults fas cfg) k = map_of cfg k"
proof (induction fas arbitrary: cfg)
  case (Cons x fas)
  obtain f a where x: "x = (f, a)" by (cases x)
  have "map_of (dset f v cfg) k = map_of cfg k" for v using Cons.prems x by (simp add: update_conv)
  then show ?case using Cons x by (simp add: apply_specs_Cons)
qed (simp add: apply_specs_def apply_dataset_field_overrides_def)

lemma apply_specs_chosen:
  "distinct (map fst fas) \<Longrightarrow> (f, a) \<in> set fas \<Longrightarrow> map_of (apply_specs args defaults fas cfg) f = Some (chosen args defaults cfg f a)"
proof (induction fas arbitrary: cfg)
  case (Cons x fas)
  obtain g b where x: "x = (g, b)" by (cases x)
  show ?case
  proof (cases "f = g")
    case True
    then have "a = b" "f \<notin> fst ` set fas" using Cons.prems x by force+
    then show ?thesis using True by (simp add: x apply_specs_Cons apply_specs_other update_conv)
  next
    case False
    then have "(f, a) \<in> set fas" using Cons.prems x by simp
    then show ?thesis using Cons.IH Cons.prems x False by (simp add: apply_specs_Cons chosen_other)
  qed
qed simp

definition all_specs :: "(string \<times> string list) list" where
  "all_specs =
     [(''n_samples_per_eval_prompt'', [''n_samples_per_eval_prompt'', ''n_samples_per_prompt'']),
      (''temperature'', [''eval_temperature'', ''rollout_temperature'']), (''top_p'', [''eval_top_p'', ''rollout_top_p'']),
      (''top_k'', [''eval_top_k'', ''rollout_top_k'']), (''max_response_len'', [''eval_max_response_len'', ''rollout_max_response_len'']),
      (''input_key'', [''eval_input_key'', ''input_key'']), (''label_key'', [''eval_label_key'', ''label_key'']),
      (''tool_key'', [''eval_tool_key'', ''tool_key'']), (''metadata_key'', [''metadata_key''])]"

lemma specs_are_all: "dataset_runtime_specs @ dataset_sample_specs = map (\<lambda>(f, a). spec f a) all_specs"
  by (simp add: dataset_runtime_specs_def dataset_sample_specs_def all_specs_def)

lemma all_specs_distinct: "distinct (map fst all_specs)"
  by (simp add: all_specs_def)

lemma new_eval_config_fields:
  assumes "new_eval_config d = Inr c"
  shows "[ec_n_samples_per_eval_prompt c, ec_temperature c, ec_top_p c, ec_top_k c, ec_max_response_len c, ec_input_key c,
      ec_label_key c, ec_tool_key c, ec_metadata_key c] = map (\<lambda>(f, a). dget_default d f PNone) all_specs"
    "map_of d ''name'' = Some (ec_name c)" "map_of d ''path'' = Some (ec_path c)"
proof -
  let ?f = "\<lambda>k. dget_default d k PNone"
  obtain o' where c: "c = \<lparr>ec_name = ?f ''name'', ec_path = ?f ''path'', ec_rm_type = ?f ''rm_type'', ec_input_key = ?f ''input_key'',
           ec_label_key = ?f ''label_key'', ec_tool_key = ?f ''tool_key'', ec_metadata_key = ?f ''metadata_key'',
           ec_n_samples_per_eval_prompt = ?f ''n_samples_per_eval_prompt'', ec_temperature = ?f ''temperature'',
           ec_top_p = ?f ''top_p'', ec_top_k = ?f ''top_k'', ec_max_response_len = ?f ''max_response_len'', ec_stop = ?f ''stop'',
           ec_stop_token_ids = ?f ''stop_token_ids'', ec_min_new_tokens = ?f ''min_new_tokens'',
           ec_custom_generate_function_path = ?f ''custom_generate_function_path'', ec_app_service = ?f ''app_service'',
           ec_metadata_overrides = o'\<rparr>" and n: "map_of d ''name'' \<noteq> None" "map_of d ''path'' \<noteq> None"
    using assms unfolding new_eval_config_def Let_def bindE_eq_Inr raise_unless_simps
    by (elim exE conjE) (rule that, rule sym, erule sum.inject(2)[THEN iffD1], assumption+)
  show "[ec_n_samples_per_eval_prompt c, ec_temperature c, ec_top_p c, ec_top_k c, ec_max_response_len c, ec_input_key c,
      ec_label_key c, ec_tool_key c, ec_metadata_key c] = map (\<lambda>(f, a). ?f f) all_specs"
    unfolding c all_specs_def eval_config.simps list.map prod.case ..
  show "map_of d ''name'' = Some (ec_name c)" "map_of d ''path'' = Some (ec_path c)"
    using n unfolding c eval_config.simps dget_default_def by (auto split: option.split)
qed

lemma apply_specs_keys: "fst ` set (apply_specs args defaults fas cfg) \<subseteq> fst ` set cfg \<union> fst ` set fas"
proof (induction fas arbitrary: cfg)
  case (Cons x fas)
  obtain f a where x: "x = (f, a)" by (cases x)
  have "fst ` set (dset f v cfg) \<subseteq> insert f (fst ` set cfg)" for v by (simp add: dom_update)
  then have "fst ` set (apply_specs args defaults fas (dset f (chosen args defaults cfg f a) cfg)) \<subseteq> insert f (fst ` set cfg) \<union> fst ` set fas"
    by (rule order.trans[OF Cons.IH Un_mono[OF _ order_refl]])
  then show ?case unfolding x apply_specs_Cons by simp
qed (simp add: apply_specs_def apply_dataset_field_overrides_def)

lemma new_eval_config_total:
  assumes "fst ` set cfg \<subseteq> set eval_fields" "map_of cfg ''name'' \<noteq> None" "map_of cfg ''path'' \<noteq> None" "map_of cfg ''metadata_overrides'' = None"
  shows "\<exists>c. new_eval_config (apply_specs args defaults all_specs cfg) = Inr c"
proof -
  let ?d = "apply_specs args defaults all_specs cfg"
  have "fst ` set all_specs \<subseteq> set eval_fields" by (simp add: all_specs_def eval_fields_def)
  then have keys: "fst ` set ?d \<subseteq> set eval_fields"
    by (rule order.trans[OF apply_specs_keys Un_least[OF assms(1)]])
  have "list_all (\<lambda>(k, v). k \<in> set eval_fields) ?d" unfolding list_all_iff
  proof (rule ballI)
    fix p assume "p \<in> set ?d"
    then have "fst p \<in> set eval_fields" by (rule subsetD[OF keys imageI])
    then show "case p of (k, v) \<Rightarrow> k \<in> set eval_fields" by (simp only: case_prod_beta)
  qed
  moreover have m: "map_of ?d ''name'' = map_of cfg ''name''" "map_of ?d ''path'' = map_of cfg ''path''"
      "map_of ?d ''metadata_overrides'' = map_of cfg ''metadata_overrides''"
    by (rule apply_specs_other, simp add: all_specs_def)+
  moreover have "ensure_metadata_overrides (dget_default ?d ''metadata_overrides'' PNone) = Inr []"
    using m(3) assms(4) by (simp add: ensure_metadata_overrides_def dget_default_def)
  ultimately show ?thesis using assms(2,3) unfolding new_eval_config_def Let_def by simp
qed

text \<open>Every evaluation data set gets each of its nine settings from its own entry, else from the defaults of the file, else from
  the first argument that is set; its name and path are those of its entry.\<close>

lemma eval_settings:
  assumes "build_eval_dataset_configs args raw defaults = Inr cs"
  shows "list_all2 (\<lambda>cfg c. [ec_n_samples_per_eval_prompt c, ec_temperature c, ec_top_p c, ec_top_k c, ec_max_response_len c, ec_input_key c,
      ec_label_key c, ec_tool_key c, ec_metadata_key c] = map (\<lambda>(f, a). chosen args defaults cfg f a) all_specs \<and>
      map_of cfg ''name'' = Some (ec_name c) \<and> map_of cfg ''path'' = Some (ec_path c)) raw cs"
proof -
  have one: "[ec_n_samples_per_eval_prompt c, ec_temperature c, ec_top_p c, ec_top_k c, ec_max_response_len c, ec_input_key c,
      ec_label_key c, ec_tool_key c, ec_metadata_key c] = map (\<lambda>(f, a). chosen args defaults cfg f a) all_specs \<and>
      map_of cfg ''name'' = Some (ec_name c) \<and> map_of cfg ''path'' = Some (ec_path c)"
    if "new_eval_config (apply_dataset_field_overrides args defaults (dataset_runtime_specs @ dataset_sample_specs) cfg) = Inr c" for cfg c
  proof -
    have n: "new_eval_config (apply_specs args defaults all_specs cfg) = Inr c" using that by (simp add: specs_are_all apply_specs_def)
    have "map (\<lambda>(f, a). dget_default (apply_specs args defaults all_specs cfg) f PNone) all_specs = map (\<lambda>(f, a). chosen args defaults cfg f a) all_specs"
      using apply_specs_chosen[OF all_specs_distinct] by (intro map_cong refl) (auto simp: dget_default_def)
    moreover have "''name'' \<notin> fst ` set all_specs" "''path'' \<notin> fst ` set all_specs" by (simp_all add: all_specs_def)
    ultimately show ?thesis using new_eval_config_fields[OF n] by (simp add: apply_specs_other)
  qed
  show ?thesis using mapE_eq_Inr_length[OF assms[unfolded build_eval_dataset_configs_def]]
      mapE_eq_Inr_nth[OF assms[unfolded build_eval_dataset_configs_def]]
    by (intro list_all2_all_nthI one) simp_all
qed

end
