(* ===== verification/Arguments.thy ===== *)
theory Arguments
  imports Eval_Config
begin

text \<open>
  \<open>slime_validate_args\<close> of \<open>utils/arguments.py\<close>: the checks of the arguments and the values that it fills in, in the order of
  the code.  The fields are grouped by what they are about.  The file system is a parameter.  Messages are left out.
\<close>

section \<open>The arguments\<close>

record checkpoint_args =
  ck_load :: "string option"
  ck_ref_load :: "string option"
  ck_hf_checkpoint :: "string option"
  ck_critic_load :: "string option"
  ck_save :: "string option"
  ck_save_interval :: "int option"
  ck_megatron_to_hf_mode :: string
  ck_ref_ckpt_step :: "int option"
  ck_ckpt_step :: "int option"
  ck_no_load_optim :: bool
  ck_no_load_rng :: bool
  ck_finetune :: bool
  ck_start_rollout_id :: "int option"
  ck_dump_details :: "string option"
  ck_save_debug_rollout_data :: "string option"
  ck_save_debug_train_data :: "string option"
  ck_load_debug_rollout_data :: "string option"

record algorithm_args =
  al_kl_coef :: real
  al_use_kl_loss :: bool
  al_kl_loss_coef :: real
  al_use_opd :: bool
  al_opd_type :: "string option"
  al_opd_teacher_load :: "string option"
  al_advantage_estimator :: string
  al_normalize_advantages :: bool
  al_use_rollout_logprobs :: bool
  al_use_tis :: bool
  al_get_mismatch_metrics :: bool
  al_custom_tis_function_path :: "string option"
  al_eps_clip :: real
  al_eps_clip_high :: "real option"
  al_reward_key :: "string option"
  al_eval_reward_key :: "string option"
  al_use_critic :: bool
  al_critic_train_only :: bool
  al_lr :: "real option"
  al_critic_lr :: "real option"
  al_enable_mtp_training :: bool
  al_mtp_num_layers :: "int option"
  al_only_train_params :: "string list option"
  al_freeze_params :: "string list option"

text \<open>\<open>offload\<close> is deleted by the validation; afterwards it has no meaning.\<close>

record gpu_args =
  gp_actor_num_nodes :: int
  gp_actor_num_gpus_per_node :: int
  gp_critic_num_nodes :: "int option"
  gp_critic_num_gpus_per_node :: "int option"
  gp_rollout_num_gpus :: "int option"
  gp_offload :: bool
  gp_offload_train :: "bool option"
  gp_offload_rollout :: "bool option"
  gp_colocate :: bool
  gp_debug_rollout_only :: bool
  gp_debug_train_only :: bool
  gp_train_memory_margin_bytes :: int

record batch_args =
  bt_rollout_batch_size :: int
  bt_n_samples_per_prompt :: int
  bt_num_steps_per_rollout :: "int option"
  bt_global_batch_size :: "int option"
  bt_over_sampling_batch_size :: "int option"
  bt_grpo_std_normalization :: bool
  bt_num_epoch :: "int option"
  bt_num_rollout :: "int option"
  bt_rollout_global_dataset :: bool
  bt_eval_interval :: "int option"
  bt_use_dynamic_batch_size :: bool
  bt_max_tokens_per_gpu :: "int option"
  bt_log_probs_max_tokens_per_gpu :: "int option"
  bt_rollout_max_context_len :: "int option"
  bt_rollout_max_prompt_len :: "int option"
  bt_eval_max_context_len :: "int option"
  bt_rollout_function_path :: string
  bt_eval_function_path :: "string option"
  bt_use_rollout_routing_replay :: bool
  bt_use_routing_replay :: bool
  bt_qkv_format :: string
  bt_train_backend :: string
  bt_use_slime_router :: bool

text \<open>\<open>ar_namespace\<close> has the arguments that evaluation settings may come from, \<open>ar_eval_config\<close> the value of the YAML file.
  What the custom file assigns is a parameter of the validation.\<close>

record slime_args =
  ar_checkpoint :: checkpoint_args
  ar_algorithm :: algorithm_args
  ar_gpus :: gpu_args
  ar_batch :: batch_args
  ar_namespace :: "(string, pyval) dict"
  ar_eval_config :: "pyval option"
  ar_eval_prompt_data :: "pyval list option"
  ar_eval_datasets :: "eval_config list"

definition path_join :: "string \<Rightarrow> string \<Rightarrow> string" where
  "path_join a b = (if a = [] \<or> last a = CHR ''/'' then a @ b else a @ ''/'' @ b)"

text \<open>\<open>os.path.exists\<close>, which raises for \<open>None\<close>.\<close>

definition exists :: "(string \<Rightarrow> bool) \<Rightarrow> string option \<Rightarrow> bool result" where
  "exists fs p = (case p of None \<Rightarrow> Inl TypeError | Some x \<Rightarrow> Inr (fs x))"

definition latest :: string where
  "latest = ''latest_checkpointed_iteration.txt''"

text \<open>\<open>load\<close> is a checkpoint of Megatron.\<close>

definition is_megatron_checkpoint :: "(string \<Rightarrow> bool) \<Rightarrow> string option \<Rightarrow> bool" where
  "is_megatron_checkpoint fs p = (case p of None \<Rightarrow> False | Some x \<Rightarrow> fs x \<and> fs (path_join x latest))"

definition fill :: "'a option \<Rightarrow> 'a \<Rightarrow> 'a option" where
  "fill x d = (case x of None \<Rightarrow> Some d | Some _ \<Rightarrow> x)"

definition fill_from :: "'a option \<Rightarrow> 'a option \<Rightarrow> 'a option" where
  "fill_from x d = (case x of None \<Rightarrow> d | Some _ \<Rightarrow> x)"

section \<open>Models to load\<close>

definition check_ref :: "(string \<Rightarrow> bool) \<Rightarrow> slime_args \<Rightarrow> unit result" where
  "check_ref fs args =
     (if al_kl_coef (ar_algorithm args) \<noteq> 0 \<or> al_use_kl_loss (ar_algorithm args)
      then bindE (exists fs (ck_ref_load (ar_checkpoint args))) (raise_unless FileNotFoundError) else Inr ())"

definition check_opd :: "(string \<Rightarrow> bool) \<Rightarrow> algorithm_args \<Rightarrow> unit result" where
  "check_opd fs al =
     (if al_use_opd al
      then (case al_opd_type al of
              None \<Rightarrow> Inl ValueError
            | Some t \<Rightarrow>
                if t = ''megatron''
                then bindE (raise_unless ValueError (al_opd_teacher_load al \<noteq> None)) (\<lambda>_.
                     bindE (exists fs (al_opd_teacher_load al)) (raise_unless FileNotFoundError))
                else if t = ''sglang'' then raise_unless ValueError (al_opd_teacher_load al = None)
                else Inr ())
      else raise_unless ValueError (al_opd_teacher_load al = None))"

definition resolve_load :: "(string \<Rightarrow> bool) \<Rightarrow> checkpoint_args \<Rightarrow> checkpoint_args" where
  "resolve_load fs ck =
     (if ck_megatron_to_hf_mode ck = ''bridge''
      then if is_megatron_checkpoint fs (ck_load ck) then ck
           else ck\<lparr>ck_load := (case ck_load ck of
                        None \<Rightarrow> (if ck_ref_load ck \<noteq> None \<and> ck_ref_load ck \<noteq> Some [] then ck_ref_load ck else ck_hf_checkpoint ck)
                      | Some _ \<Rightarrow> ck_load ck),
                    ck_start_rollout_id := Some 0\<rparr>
      else if is_megatron_checkpoint fs (ck_load ck) then ck
      else ck\<lparr>ck_no_load_optim := True, ck_no_load_rng := True, ck_finetune := True, ck_load := ck_ref_load ck,
              ck_ckpt_step := (case ck_ref_ckpt_step ck of None \<Rightarrow> ck_ckpt_step ck | Some _ \<Rightarrow> ck_ref_ckpt_step ck),
              ck_start_rollout_id := Some 0\<rparr>)"

definition check_intervals :: "slime_args \<Rightarrow> unit result" where
  "check_intervals args =
     bindE (assertE (bt_eval_interval (ar_batch args) \<noteq> None \<longrightarrow> ar_eval_datasets args \<noteq> [])) (\<lambda>_.
     assertE (ck_save_interval (ar_checkpoint args) \<noteq> None \<longrightarrow> ck_save (ar_checkpoint args) \<noteq> None))"

section \<open>The algorithm\<close>

definition check_algorithm :: "algorithm_args \<Rightarrow> unit result" where
  "check_algorithm al =
     bindE (assertE (\<not> (al_kl_coef al \<noteq> 0 \<and> al_kl_loss_coef al \<noteq> 0))) (\<lambda>_.
     bindE (assertE (al_advantage_estimator al \<in> {''reinforce_plus_plus'', ''reinforce_plus_plus_baseline''} \<longrightarrow> al_normalize_advantages al)) (\<lambda>_.
     bindE (assertE (al_use_rollout_logprobs al \<longrightarrow> \<not> al_use_tis al)) (\<lambda>_.
     assertE (al_get_mismatch_metrics al \<longrightarrow> al_custom_tis_function_path al \<noteq> None))))"

definition resolve_dynamic :: "batch_args \<Rightarrow> batch_args result" where
  "resolve_dynamic bt =
     (if bt_use_dynamic_batch_size bt
      then bindE (assertE (bt_max_tokens_per_gpu bt \<noteq> None)) (\<lambda>_.
             Inr (bt\<lparr>bt_log_probs_max_tokens_per_gpu := fill_from (bt_log_probs_max_tokens_per_gpu bt) (bt_max_tokens_per_gpu bt)\<rparr>))
      else Inr bt)"

definition resolve_algorithm :: "algorithm_args \<Rightarrow> algorithm_args" where
  "resolve_algorithm al =
     al\<lparr>al_eps_clip_high := fill (al_eps_clip_high al) (al_eps_clip al),
        al_eval_reward_key := fill_from (al_eval_reward_key al) (al_reward_key al)\<rparr>"

definition resolve_dumps :: "checkpoint_args \<Rightarrow> checkpoint_args" where
  "resolve_dumps ck =
     (case ck_dump_details ck of None \<Rightarrow> ck
      | Some d \<Rightarrow> ck\<lparr>ck_save_debug_rollout_data := Some (d @ ''/rollout_data/{rollout_id}.pt''),
                     ck_save_debug_train_data := Some (d @ ''/train_data/{rollout_id}_{rank}.pt'')\<rparr>)"

section \<open>GPUs\<close>

definition resolve_critic :: "slime_args \<Rightarrow> slime_args result" where
  "resolve_critic args =
     (let gp = ar_gpus args; ck = ar_checkpoint args; al = ar_algorithm args;
          al = al\<lparr>al_use_critic := (al_advantage_estimator al = ''ppo'')\<rparr> in
      bindE (if al_critic_train_only al
             then bindE (raise_unless ValueError (al_use_critic al)) (\<lambda>_.
                  raise_unless ValueError (gp_actor_num_nodes gp = 0 \<and> gp_actor_num_gpus_per_node gp = 0))
             else Inr ()) (\<lambda>_.
      Inr (args\<lparr>ar_algorithm := al\<lparr>al_critic_lr := fill_from (al_critic_lr al) (al_lr al)\<rparr>,
                ar_gpus := gp\<lparr>gp_critic_num_gpus_per_node := fill (gp_critic_num_gpus_per_node gp) (gp_actor_num_gpus_per_node gp),
                               gp_critic_num_nodes := fill (gp_critic_num_nodes gp) (gp_actor_num_nodes gp)\<rparr>,
                ar_checkpoint := ck\<lparr>ck_critic_load := fill_from (ck_critic_load ck) (ck_load ck)\<rparr>\<rparr>)))"

definition resolve_debug_train :: "slime_args \<Rightarrow> slime_args" where
  "resolve_debug_train args =
     (if ck_load_debug_rollout_data (ar_checkpoint args) \<noteq> None
      then args\<lparr>ar_gpus := (ar_gpus args)\<lparr>gp_debug_train_only := True\<rparr>\<rparr> else args)"

definition actor_world :: "gpu_args \<Rightarrow> int" where
  "actor_world gp = gp_actor_num_gpus_per_node gp * gp_actor_num_nodes gp"

definition resolve_offload :: "gpu_args \<Rightarrow> gpu_args" where
  "resolve_offload gp = (if gp_offload gp then gp\<lparr>gp_offload_train := Some True, gp_offload_rollout := Some True\<rparr> else gp)"

definition resolve_debug_rollout :: "gpu_args \<Rightarrow> gpu_args result" where
  "resolve_debug_rollout gp =
     (if gp_debug_rollout_only gp
      then bindE (if gp_colocate gp \<and> (gp_rollout_num_gpus gp = None \<or> gp_rollout_num_gpus gp = Some 0)
                  then Inr (gp\<lparr>gp_rollout_num_gpus := Some (actor_world gp)\<rparr>)
                  else (case gp_rollout_num_gpus gp of
                          None \<Rightarrow> Inl TypeError
                        | Some n \<Rightarrow>
                            bindE (raise_unless ZeroDivisionError (min 8 n \<noteq> 0)) (\<lambda>_.
                              Inr (gp\<lparr>gp_actor_num_gpus_per_node := min 8 n, gp_actor_num_nodes := n div min 8 n\<rparr>)))) (\<lambda>gp.
             Inr (gp\<lparr>gp_colocate := False, gp_offload_train := Some False, gp_offload_rollout := Some False,
                     gp_train_memory_margin_bytes := min 0 (gp_train_memory_margin_bytes gp)\<rparr>))
      else Inr gp)"

definition critic_world :: "gpu_args \<Rightarrow> int" where
  "critic_world gp = (case gp_critic_num_gpus_per_node gp of None \<Rightarrow> 0 | Some a \<Rightarrow> (case gp_critic_num_nodes gp of None \<Rightarrow> 0 | Some b \<Rightarrow> a * b))"

definition resolve_colocate :: "bool \<Rightarrow> gpu_args \<Rightarrow> gpu_args" where
  "resolve_colocate use_critic gp =
     (if gp_colocate gp
      then gp\<lparr>gp_offload_train := fill (gp_offload_train gp) True, gp_offload_rollout := fill (gp_offload_rollout gp) True,
              gp_rollout_num_gpus := (if gp_rollout_num_gpus gp \<noteq> Some (actor_world gp)
                then Some (actor_world gp + (if use_critic then critic_world gp else 0)) else gp_rollout_num_gpus gp)\<rparr>
      else gp)"

definition resolve_gpus :: "bool \<Rightarrow> gpu_args \<Rightarrow> gpu_args result" where
  "resolve_gpus use_critic gp =
     bindE (resolve_debug_rollout (resolve_offload gp)) (\<lambda>gp.
     bindE (assertE (\<not> (gp_debug_rollout_only gp \<and> gp_debug_train_only gp))) (\<lambda>_.
     let gp = resolve_colocate use_critic gp in
     Inr (gp\<lparr>gp_offload_train := fill (gp_offload_train gp) False, gp_offload_rollout := fill (gp_offload_rollout gp) False\<rparr>)))"

section \<open>Batches\<close>

definition resolve_batch :: "batch_args \<Rightarrow> batch_args result" where
  "resolve_batch bt =
     bindE (case bt_num_steps_per_rollout bt of
              None \<Rightarrow> Inr bt
            | Some steps \<Rightarrow>
                bindE (raise_unless ZeroDivisionError (steps \<noteq> 0)) (\<lambda>_.
                let global_batch_size = bt_rollout_batch_size bt * bt_n_samples_per_prompt bt div steps in
                bindE (assertE (case bt_global_batch_size bt of None \<Rightarrow> True | Some g \<Rightarrow> g = global_batch_size)) (\<lambda>_.
                Inr (bt\<lparr>bt_global_batch_size := Some global_batch_size\<rparr>)))) (\<lambda>bt.
     let bt = bt\<lparr>bt_grpo_std_normalization := (bt_n_samples_per_prompt bt \<noteq> 1 \<and> bt_grpo_std_normalization bt)\<rparr>;
         over = (case bt_over_sampling_batch_size bt of None \<Rightarrow> bt_rollout_batch_size bt | Some o' \<Rightarrow> o') in
     bindE (assertE (over \<ge> bt_rollout_batch_size bt)) (\<lambda>_.
     bindE (case bt_num_epoch bt of
              Some _ \<Rightarrow> assertE (bt_num_rollout bt = None \<longrightarrow> bt_rollout_global_dataset bt)
            | None \<Rightarrow> assertE (bt_num_rollout bt \<noteq> None)) (\<lambda>_.
     Inr (bt\<lparr>bt_over_sampling_batch_size := Some over\<rparr>))))"

definition check_mtp :: "algorithm_args \<Rightarrow> unit result" where
  "check_mtp al = assertE (al_enable_mtp_training al \<longrightarrow> al_mtp_num_layers al \<noteq> None \<and> al_mtp_num_layers al \<noteq> Some 0)"

definition resolve_contexts :: "batch_args \<Rightarrow> batch_args result" where
  "resolve_contexts bt =
     (let bt = bt\<lparr>bt_eval_max_context_len := fill_from (bt_eval_max_context_len bt) (bt_rollout_max_context_len bt)\<rparr> in
      case bt_rollout_max_context_len bt of
        None \<Rightarrow> Inr bt
      | Some c \<Rightarrow>
          let p = (case bt_rollout_max_prompt_len bt of None \<Rightarrow> c - 1 | Some p \<Rightarrow> p) in
          bindE (assertE (p \<le> c - 1)) (\<lambda>_. Inr (bt\<lparr>bt_rollout_max_prompt_len := Some p\<rparr>)))"

definition check_format :: "batch_args \<Rightarrow> unit result" where
  "check_format bt =
     (if bt_qkv_format bt = ''bshd''
      then bindE (assertE (bt_train_backend bt = ''megatron'')) (\<lambda>_. assertE (\<not> bt_use_dynamic_batch_size bt)) else Inr ())"

definition some_names :: "string list option \<Rightarrow> bool" where
  "some_names x = (case x of None \<Rightarrow> False | Some ns \<Rightarrow> ns \<noteq> [])"

section \<open>All of it\<close>

text \<open>What is loaded, evaluated and optimized.\<close>

definition validate_sources :: "(string \<Rightarrow> bool) \<Rightarrow> slime_args \<Rightarrow> slime_args result" where
  "validate_sources fs args =
     bindE (resolve_eval_datasets (ar_namespace args) (ar_eval_config args) (ar_eval_prompt_data args)) (\<lambda>(datasets, prompt_data).
     let args = args\<lparr>ar_eval_datasets := datasets, ar_eval_prompt_data := prompt_data,
                     ar_batch := (ar_batch args)\<lparr>bt_use_slime_router := False\<rparr>\<rparr> in
     bindE (check_ref fs args) (\<lambda>_.
     bindE (check_opd fs (ar_algorithm args)) (\<lambda>_.
     let args = args\<lparr>ar_checkpoint := resolve_load fs (ar_checkpoint args)\<rparr> in
     bindE (check_intervals args) (\<lambda>_.
     bindE (check_algorithm (ar_algorithm args)) (\<lambda>_.
     bindE (resolve_dynamic (ar_batch args)) (\<lambda>bt.
     Inr (resolve_debug_train (args\<lparr>ar_batch := bt, ar_algorithm := resolve_algorithm (ar_algorithm args),
                                    ar_checkpoint := resolve_dumps (ar_checkpoint args)\<rparr>))))))))"

text \<open>How much runs where.\<close>

definition validate_sizes :: "slime_args \<Rightarrow> slime_args result" where
  "validate_sizes args =
     bindE (resolve_critic args) (\<lambda>args.
     bindE (resolve_gpus (al_use_critic (ar_algorithm args)) (ar_gpus args)) (\<lambda>gp.
     let bt = ar_batch args; bt = bt\<lparr>bt_eval_function_path := fill (bt_eval_function_path bt) (bt_rollout_function_path bt)\<rparr> in
     bindE (resolve_batch bt) (\<lambda>bt.
     bindE (check_mtp (ar_algorithm args)) (\<lambda>_.
     let bt = bt\<lparr>bt_use_routing_replay := (bt_use_rollout_routing_replay bt \<or> bt_use_routing_replay bt)\<rparr> in
     Inr (args\<lparr>ar_gpus := gp, ar_batch := bt\<rparr>)))))"

definition validate_rest :: "slime_args \<Rightarrow> slime_args result" where
  "validate_rest args =
     bindE (resolve_contexts (ar_batch args)) (\<lambda>bt.
     bindE (check_format bt) (\<lambda>_.
     bindE (raise_unless ValueError (\<not> (some_names (al_only_train_params (ar_algorithm args)) \<and> some_names (al_freeze_params (ar_algorithm args))))) (\<lambda>_.
     Inr (args\<lparr>ar_batch := bt\<rparr>))))"

text \<open>The custom file is read after the sizes have been checked.\<close>

definition slime_validate_args :: "(string \<Rightarrow> bool) \<Rightarrow> (slime_args \<Rightarrow> slime_args) option \<Rightarrow> slime_args \<Rightarrow> slime_args result" where
  "slime_validate_args fs custom_config args =
     bindE (validate_sources fs args) (\<lambda>args.
     bindE (validate_sizes args) (\<lambda>args.
     validate_rest (case custom_config of None \<Rightarrow> args | Some assign \<Rightarrow> assign args)))"

end
