(* ===== verification/Placement.thy ===== *)
theory Placement
  imports Servers
begin

text \<open>
  \<open>ray/placement_group.py\<close> and the allocation of the ranks in \<open>ray/actor_group.py\<close>: one bundle per GPU, sorted by
  node and GPU, shared out to the actor, the critic and the engines.  Ray is a parameter: which node and GPU a
  bundle has got, and what a host name resolves to.
\<close>

section \<open>The order of the bundles\<close>

text \<open>The parts of an IP address, of the address of a host name, or else the codes of the characters.\<close>

definition ip_parts :: "string \<Rightarrow> int list result" where
  "ip_parts s = mapE int_of_string (split_at (CHR ''.'') s)"

definition node_parts :: "(string \<Rightarrow> string option) \<Rightarrow> string \<Rightarrow> int list result" where
  "node_parts resolve_host node =
     (case ip_parts node of
        Inr ps \<Rightarrow> Inr ps
      | Inl e \<Rightarrow>
          if e \<noteq> ValueError then Inl e
          else (case resolve_host node of
                  None \<Rightarrow> Inr (map (\<lambda>c. int (of_char c)) node)
                | Some address \<Rightarrow> ip_parts address))"

type_synonym bundle_info = "nat \<times> string \<times> int"

definition bundle_key :: "(string \<Rightarrow> string option) \<Rightarrow> bundle_info \<Rightarrow> (int list \<times> int) result" where
  "bundle_key resolve_host = (\<lambda>(index, node, gpu). bindE (node_parts resolve_host node) (\<lambda>ps. Inr (ps, gpu)))"

text \<open>Lists and pairs are compared lexicographically.\<close>

fun list_le :: "int list \<Rightarrow> int list \<Rightarrow> bool" where
  "list_le [] ys = True"
| "list_le (x # xs) [] = False"
| "list_le (x # xs) (y # ys) = (x < y \<or> x = y \<and> list_le xs ys)"

definition key_le :: "int list \<times> int \<Rightarrow> int list \<times> int \<Rightarrow> bool" where
  "key_le a b = (if fst a = fst b then snd a \<le> snd b else list_le (fst a) (fst b))"

fun insert_by :: "('a \<Rightarrow> 'a \<Rightarrow> bool) \<Rightarrow> 'a \<Rightarrow> 'a list \<Rightarrow> 'a list" where
  "insert_by le x [] = [x]"
| "insert_by le x (y # ys) = (if le x y then x # y # ys else y # insert_by le x ys)"

definition sort_by :: "('a \<Rightarrow> 'a \<Rightarrow> bool) \<Rightarrow> 'a list \<Rightarrow> 'a list" where
  "sort_by le xs = foldr (insert_by le) xs []"

definition sort_bundles :: "(string \<Rightarrow> string option) \<Rightarrow> bundle_info list \<Rightarrow> bundle_info list result" where
  "sort_bundles resolve_host bs =
     bindE (mapE (bundle_key resolve_host) bs) (\<lambda>ks.
       Inr (map snd (sort_by (\<lambda>a b. key_le (fst a) (fst b)) (zip ks bs))))"

text \<open>\<open>located i\<close> is the node and the GPU of bundle \<open>i\<close>.\<close>

definition create_placement_group :: "(nat \<Rightarrow> string \<times> int) \<Rightarrow> (string \<Rightarrow> string option) \<Rightarrow> nat \<Rightarrow> placement result" where
  "create_placement_group located resolve_host num_gpus =
     bindE (sort_bundles resolve_host (map (\<lambda>i. (i, located i)) [0..<num_gpus])) (\<lambda>bs.
       Inr \<lparr>pl_bundle_indices = map fst bs, pl_gpu_ids = map (\<lambda>b. snd (located (fst b))) bs\<rparr>)"

section \<open>Sharing the GPUs out\<close>

record placement_groups =
  pg_actor :: placement
  pg_critic :: "placement option"
  pg_rollout :: placement
  pg_rollout1 :: "placement option"

definition actor_gpus :: "serve_args \<Rightarrow> nat" where
  "actor_gpus args = sv_actor_num_nodes args * sv_actor_num_gpus_per_node args"

definition critic_gpus :: "serve_args \<Rightarrow> nat" where
  "critic_gpus args = sv_critic_num_nodes args * sv_critic_num_gpus_per_node args"

text \<open>The number of GPUs, the offset of the engines and, where it is assigned, that of the critic.\<close>

definition gpu_plan :: "serve_args \<Rightarrow> int \<times> nat \<times> nat option" where
  "gpu_plan args =
     (let critic = (if sv_use_critic args then critic_gpus args else 0);
          critic_offset = (if sv_use_critic args then Some (actor_gpus args) else None) in
      if sv_debug_train_only args then (int (actor_gpus args + critic), 0, critic_offset)
      else if sv_debug_rollout_only args then (sv_rollout_num_gpus args, 0, None)
      else if sv_colocate args then (int (actor_gpus args + critic), 0, critic_offset)
      else (int (actor_gpus args) + sv_rollout_num_gpus args + int critic, actor_gpus args + critic, critic_offset))"

definition drop_placement :: "nat \<Rightarrow> placement \<Rightarrow> placement" where
  "drop_placement k p = \<lparr>pl_bundle_indices = drop k (pl_bundle_indices p), pl_gpu_ids = drop k (pl_gpu_ids p)\<rparr>"

definition create_placement_groups ::
  "(nat \<Rightarrow> string \<times> int) \<Rightarrow> (string \<Rightarrow> string option) \<Rightarrow> serve_args \<Rightarrow> placement_groups result"
where
  "create_placement_groups located resolve_host args =
     (let (num_gpus, rollout_offset, critic_offset) = gpu_plan args;
          num_gpus = (if sv_patch args then num_gpus + 1 else num_gpus) in
      bindE (create_placement_group located resolve_host (nat num_gpus)) (\<lambda>pg.
      bindE (if sv_use_critic args
             then (case critic_offset of None \<Rightarrow> Inl NameError | Some k \<Rightarrow> Inr (Some (drop_placement k pg)))
             else Inr None) (\<lambda>critic.
      Inr \<lparr>pg_actor = pg, pg_critic = critic, pg_rollout = drop_placement rollout_offset pg,
           pg_rollout1 = (if sv_patch args then Some (drop_placement (rollout_offset + 1) pg) else None)\<rparr>)))"

text \<open>\<open>RayTrainGroup\<close>: the bundle of every rank of a model.\<close>

definition allocate_train_group :: "nat \<Rightarrow> nat \<Rightarrow> placement \<Rightarrow> nat list result" where
  "allocate_train_group num_nodes num_gpus_per_node pg =
     mapE (\<lambda>rank. bindE (raise_unless IndexError (rank < length (pl_bundle_indices pg))) (\<lambda>_. Inr (pl_bundle_indices pg ! rank)))
       [0..<num_nodes * num_gpus_per_node]"

definition allocate_training_models :: "serve_args \<Rightarrow> placement_groups \<Rightarrow> (nat list \<times> nat list option) result" where
  "allocate_training_models args pgs =
     bindE (allocate_train_group (sv_actor_num_nodes args) (sv_actor_num_gpus_per_node args) (pg_actor pgs)) (\<lambda>actor.
     bindE (if sv_use_critic args
            then (case pg_critic pgs of None \<Rightarrow> Inl TypeError
                  | Some p \<Rightarrow> bindE (allocate_train_group (sv_critic_num_nodes args) (sv_critic_num_gpus_per_node args) p) (\<lambda>c. Inr (Some c)))
            else Inr None) (\<lambda>critic. Inr (actor, critic)))"

end
