(* ===== verification/Placement_Rules.thy ===== *)
theory Placement_Rules
  imports Placement
begin

text \<open>
  The shares of the actor, the critic and the engines: every rank gets a bundle of its own, the shares overlap
  only where they are meant to, and the servers compute the same offset as the placement.
\<close>

section \<open>Sorting\<close>

lemma insert_by_mset [simp]: "mset (insert_by le x ys) = add_mset x (mset ys)"
  by (induction ys) auto

lemma sort_by_mset [simp]: "mset (sort_by le xs) = mset xs"
  by (induction xs) (auto simp: sort_by_def)

lemma list_le_total: "list_le xs ys \<or> list_le ys xs"
  by (induction xs ys rule: list_le.induct) auto

lemma list_le_trans: "list_le xs ys \<Longrightarrow> list_le ys zs \<Longrightarrow> list_le xs zs"
proof (induction xs ys arbitrary: zs rule: list_le.induct)
  case (3 x xs y ys)
  then show ?case by (cases zs) auto
qed auto

lemma list_le_antisym: "list_le xs ys \<Longrightarrow> list_le ys xs \<Longrightarrow> xs = ys"
  by (induction xs ys rule: list_le.induct) (auto elim: list_le.elims)

lemma key_le_total: "key_le a b \<or> key_le b a"
  using list_le_total[of "fst a" "fst b"] by (auto simp: key_le_def)

lemma key_le_trans: "key_le a b \<Longrightarrow> key_le b c \<Longrightarrow> key_le a c"
  using list_le_trans list_le_antisym by (auto simp: key_le_def split: if_splits)

lemma insert_by_sorted:
  assumes "\<And>a b. le a b \<or> le b a" "\<And>a b c. le a b \<Longrightarrow> le b c \<Longrightarrow> le a c" "sorted_wrt le ys"
  shows "sorted_wrt le (insert_by le x ys)"
  using assms(3)
proof (induction ys)
  case (Cons y ys)
  have s: "set (insert_by le x ys) = insert x (set ys)" by (metis insert_by_mset set_mset_mset set_mset_add_mset_insert)
  have "\<forall>z \<in> set ys. le y z" using Cons.prems by simp
  then show ?case using Cons assms(1)[of x y] assms(2)[of x y] by (auto simp: s)
qed simp

lemma sort_by_sorted:
  assumes "\<And>a b. le a b \<or> le b a" "\<And>a b c. le a b \<Longrightarrow> le b c \<Longrightarrow> le a c"
  shows "sorted_wrt le (sort_by le xs)"
proof (induction xs)
  case (Cons x xs)
  then show ?case using insert_by_sorted[of le "sort_by le xs" x, OF assms(1)] assms(2) by (simp add: sort_by_def)
qed (simp add: sort_by_def)

lemma sort_bundles_perm:
  assumes "sort_bundles resolve_host bs = Inr cs"
  shows "mset cs = mset bs"
proof -
  obtain ks where k: "mapE (bundle_key resolve_host) bs = Inr ks" "cs = map snd (sort_by (\<lambda>a b. key_le (fst a) (fst b)) (zip ks bs))"
    using assms by (auto simp: sort_bundles_def bindE_eq_Inr)
  have "mset cs = image_mset snd (mset (zip ks bs))" unfolding k(2) by simp
  also have "\<dots> = mset (map snd (zip ks bs))" by simp
  also have "\<dots> = mset bs" using mapE_eq_Inr_length[OF k(1)] by simp
  finally show ?thesis .
qed

text \<open>The bundles of a node are neighbours and in the order of their GPUs.\<close>

lemma sort_bundles_sorted:
  assumes "sort_bundles resolve_host bs = Inr cs"
  shows "sorted_wrt (\<lambda>a b. \<exists>j k. bundle_key resolve_host a = Inr j \<and> bundle_key resolve_host b = Inr k \<and> key_le j k) cs"
proof -
  let ?le = "\<lambda>a b. key_le (fst a) (fst b)"
  obtain ks where k: "mapE (bundle_key resolve_host) bs = Inr ks" "cs = map snd (sort_by ?le (zip ks bs))"
    using assms by (auto simp: sort_bundles_def bindE_eq_Inr)
  have s: "sorted_wrt ?le (sort_by ?le (zip ks bs))"
    using key_le_total key_le_trans by (intro sort_by_sorted) blast+
  have "set (sort_by ?le (zip ks bs)) = set (zip ks bs)" by (metis sort_by_mset set_mset_mset)
  then have "bundle_key resolve_host (snd p) = Inr (fst p)" if "p \<in> set (sort_by ?le (zip ks bs))" for p
    using that mapE_eq_Inr_nth[OF k(1)] by (auto simp: set_zip)
  then show ?thesis unfolding k(2) sorted_wrt_map by (intro sorted_wrt_mono_rel[OF _ s]) blast
qed

section \<open>The shares\<close>

lemma placement_group_indices:
  assumes "create_placement_group located resolve_host n = Inr pg"
  shows "mset (pl_bundle_indices pg) = mset [0..<n]" "pl_gpu_ids pg = map (\<lambda>i. snd (located i)) (pl_bundle_indices pg)"
proof -
  obtain bs where b: "sort_bundles resolve_host (map (\<lambda>i. (i, located i)) [0..<n]) = Inr bs"
    "pg = \<lparr>pl_bundle_indices = map fst bs, pl_gpu_ids = map (\<lambda>b. snd (located (fst b))) bs\<rparr>"
    using assms by (auto simp: create_placement_group_def bindE_eq_Inr)
  have "mset (map fst bs) = image_mset fst (mset (map (\<lambda>i. (i, located i)) [0..<n]))" using sort_bundles_perm[OF b(1)] by simp
  then show "mset (pl_bundle_indices pg) = mset [0..<n]" using b(2) by (simp add: image_mset.compositionality comp_def)
  show "pl_gpu_ids pg = map (\<lambda>i. snd (located i)) (pl_bundle_indices pg)" using b(2) by simp
qed

lemma allocate_train_group_take:
  assumes "num_nodes * gpus \<le> length (pl_bundle_indices pg)"
  shows "allocate_train_group num_nodes gpus pg = Inr (take (num_nodes * gpus) (pl_bundle_indices pg))"
proof -
  have "allocate_train_group num_nodes gpus pg = Inr (map ((!) (pl_bundle_indices pg)) [0..<num_nodes * gpus])"
    unfolding allocate_train_group_def by (rule mapE_Inr) (use assms in simp)
  then show ?thesis using assms by (auto intro: nth_equalityI)
qed

definition shared_gpus :: "serve_args \<Rightarrow> bool" where
  "shared_gpus args = (sv_debug_train_only args \<or> sv_colocate args)"

text \<open>The ranks of the actor and of the critic and the engines get bundles of their own: no bundle is given out twice, unless
  engines and models are meant to share GPUs, there are enough for every rank, and the engines get as many as asked
  for, from the offset that the rollout servers compute for themselves.\<close>

lemma placement_shares:
  assumes "create_placement_groups located resolve_host args = Inr pgs" "\<not> sv_debug_rollout_only args" "0 \<le> sv_rollout_num_gpus args"
    "sv_critic_train_only args \<longrightarrow> sv_use_critic args \<and> actor_gpus args = 0"
  shows "\<exists>actor critic. allocate_training_models args pgs = Inr (actor, critic) \<and>
    length actor = actor_gpus args \<and>
    (case critic of None \<Rightarrow> \<not> sv_use_critic args | Some c \<Rightarrow> sv_use_critic args \<and> length c = critic_gpus args) \<and>
    pg_rollout pgs = drop_placement (compute_rollout_offset args) (pg_actor pgs) \<and>
    distinct (actor @ (case critic of None \<Rightarrow> [] | Some c \<Rightarrow> c) @ (if shared_gpus args then [] else pl_bundle_indices (pg_rollout pgs))) \<and>
    (\<not> shared_gpus args \<longrightarrow> int (length (pl_bundle_indices (pg_rollout pgs))) = sv_rollout_num_gpus args + (if sv_patch args then 1 else 0))"
proof -
  let ?A = "actor_gpus args" let ?C = "if sv_use_critic args then critic_gpus args else 0"
  let ?n = "fst (gpu_plan args) + (if sv_patch args then 1 else 0)"
  obtain pg where pg: "create_placement_group located resolve_host (nat ?n) = Inr pg" and
    p: "pg_actor pgs = pg" "pg_rollout pgs = drop_placement (fst (snd (gpu_plan args))) pg"
      "pg_critic pgs = (if sv_use_critic args then Some (drop_placement ?A pg) else None)"
    using assms(1,2) by (auto simp: create_placement_groups_def gpu_plan_def bindE_eq_Inr Let_def split: if_splits)
  let ?is = "pl_bundle_indices pg"
  have m: "mset ?is = mset [0..<nat ?n]" by (rule placement_group_indices(1)[OF pg])
  have d: "distinct ?is" using m by (metis distinct_upt mset_eq_imp_distinct_iff)
  have l: "length ?is = nat ?n" using mset_eq_length[OF m] by simp
  have len: "?A + ?C \<le> length ?is" using assms(2,3) unfolding l by (auto simp: gpu_plan_def Let_def)
  have actor: "allocate_train_group (sv_actor_num_nodes args) (sv_actor_num_gpus_per_node args) pg = Inr (take ?A ?is)"
    using allocate_train_group_take[of "sv_actor_num_nodes args" "sv_actor_num_gpus_per_node args" pg] len by (simp add: actor_gpus_def)
  have critic: "allocate_train_group (sv_critic_num_nodes args) (sv_critic_num_gpus_per_node args) (drop_placement ?A pg) = Inr (take ?C (drop ?A ?is))"
    if "sv_use_critic args"
    using allocate_train_group_take[of "sv_critic_num_nodes args" "sv_critic_num_gpus_per_node args" "drop_placement ?A pg"] len that
    by (simp add: critic_gpus_def drop_placement_def)
  let ?c = "if sv_use_critic args then Some (take ?C (drop ?A ?is)) else None"
  have alloc: "allocate_training_models args pgs = Inr (take ?A ?is, ?c)"
    using actor critic p(1,3) by (simp add: allocate_training_models_def)
  have off: "fst (snd (gpu_plan args)) = compute_rollout_offset args"
    using assms(2,4) by (auto simp: gpu_plan_def compute_rollout_offset_def actor_gpus_def critic_gpus_def Let_def)
  have parts: "?is = take ?A ?is @ take ?C (drop ?A ?is) @ drop (?A + ?C) ?is"
    by (metis append_take_drop_id drop_drop add.commute)
  have dis: "distinct (take ?A ?is @ take ?C (drop ?A ?is) @ drop (?A + ?C) ?is)" using d parts by metis
  have cs: "(case ?c of None \<Rightarrow> [] | Some c \<Rightarrow> c) = take ?C (drop ?A ?is)" by simp
  have roll: "pl_bundle_indices (pg_rollout pgs) = drop (?A + ?C) ?is" "fst (gpu_plan args) = int (?A + ?C) + sv_rollout_num_gpus args" if "\<not> shared_gpus args"
    using that assms(2) p(2) by (auto simp: gpu_plan_def shared_gpus_def drop_placement_def Let_def)
  have "distinct (take ?A ?is @ (case ?c of None \<Rightarrow> [] | Some c \<Rightarrow> c) @ (if shared_gpus args then [] else pl_bundle_indices (pg_rollout pgs)))"
    unfolding cs using dis roll(1) by (cases "shared_gpus args") auto
  moreover have "int (length (pl_bundle_indices (pg_rollout pgs))) = sv_rollout_num_gpus args + (if sv_patch args then 1 else 0)" if "\<not> shared_gpus args"
    using roll[OF that] l assms(3) by auto
  moreover have "length (take ?A ?is) = ?A" "case ?c of None \<Rightarrow> \<not> sv_use_critic args | Some c \<Rightarrow> sv_use_critic args \<and> length c = critic_gpus args"
    using len by auto
  moreover have "pg_rollout pgs = drop_placement (compute_rollout_offset args) (pg_actor pgs)" using off p(1,2) by simp
  ultimately show ?thesis using alloc by blast
qed

text \<open>Two nodes of four GPUs, the second one listed first; an actor of two ranks, a critic of two, four GPUs for engines.\<close>

definition place_args :: serve_args where
  "place_args = \<lparr>sv_hf_checkpoint = [], sv_rollout_num_gpus = 4, sv_rollout_num_gpus_per_engine = 2, sv_num_gpus_per_node = 4,
     sv_prefill_num_servers = None, sv_sglang_config = None, sv_sglang_dp_size = 1, sv_rollout_external = False,
     sv_rollout_external_engine_addrs = [], sv_patch = False, sv_debug_train_only = False, sv_debug_rollout_only = False,
     sv_colocate = False, sv_critic_train_only = False, sv_use_critic = True, sv_actor_num_nodes = 1, sv_actor_num_gpus_per_node = 2,
     sv_critic_num_nodes = 1, sv_critic_num_gpus_per_node = 2, sv_offload_rollout = False, sv_sglang_router_ip = None,
     sv_sglang_router_port = None\<rparr>"

definition place_located :: "nat \<Rightarrow> string \<times> int" where
  "place_located i = (if i < 4 then (''10.0.0.10'', int i) else (''10.0.0.9'', 7 - int i))"

lemma placed:
  "create_placement_groups place_located (\<lambda>_. None) place_args = Inr
    \<lparr>pg_actor = \<lparr>pl_bundle_indices = [7, 6, 5, 4, 0, 1, 2, 3], pl_gpu_ids = [0, 1, 2, 3, 0, 1, 2, 3]\<rparr>,
     pg_critic = Some \<lparr>pl_bundle_indices = [5, 4, 0, 1, 2, 3], pl_gpu_ids = [2, 3, 0, 1, 2, 3]\<rparr>,
     pg_rollout = \<lparr>pl_bundle_indices = [0, 1, 2, 3], pl_gpu_ids = [0, 1, 2, 3]\<rparr>, pg_rollout1 = None\<rparr>"
proof -
  have g: "create_placement_group place_located (\<lambda>_. None) 8 =
      Inr \<lparr>pl_bundle_indices = [7, 6, 5, 4, 0, 1, 2, 3], pl_gpu_ids = [0, 1, 2, 3, 0, 1, 2, 3]\<rparr>"
    by code_simp
  have p: "gpu_plan place_args = (8, 4, Some 2)" by (simp add: gpu_plan_def place_args_def actor_gpus_def critic_gpus_def)
  have a: "sv_use_critic place_args" "\<not> sv_patch place_args" by (simp_all add: place_args_def)
  show ?thesis by (simp add: create_placement_groups_def p a g drop_placement_def)
qed

text \<open>Only with \<open>debug_rollout_only\<close> and a critic is the offset of the critic missing.\<close>

lemma critic_offset_missing:
  assumes "sv_debug_rollout_only args" "\<not> sv_debug_train_only args" "sv_use_critic args"
    "create_placement_group located resolve_host (nat (sv_rollout_num_gpus args + (if sv_patch args then 1 else 0))) = Inr pg"
  shows "create_placement_groups located resolve_host args = Inl NameError"
  using assms by (auto simp: create_placement_groups_def gpu_plan_def Let_def split: if_splits)

end
