(* ===== verification/Argument_Rules.thy ===== *)
theory Argument_Rules
  imports Arguments Placement_Rules
begin

text \<open>
  What the other parts may assume of validated arguments: the optional ones are filled in, the numbers fit together, and
  the GPUs can be shared out as planned.
\<close>

section \<open>The stages\<close>

lemma fill_Some [simp]: "fill x d = Some (case x of None \<Rightarrow> d | Some v \<Rightarrow> v)"
  by (simp add: fill_def split: option.split)

lemma resolve_debug_rollout_parts:
  assumes "resolve_debug_rollout gp = Inr gp'"
  shows "gp_debug_rollout_only gp' = gp_debug_rollout_only gp \<and> gp_debug_train_only gp' = gp_debug_train_only gp \<and>
    gp_critic_num_nodes gp' = gp_critic_num_nodes gp \<and> gp_critic_num_gpus_per_node gp' = gp_critic_num_gpus_per_node gp \<and>
    (gp_debug_rollout_only gp \<longrightarrow> \<not> gp_colocate gp' \<and> gp_offload_train gp' = Some False \<and> gp_offload_rollout gp' = Some False) \<and>
    (\<not> gp_debug_rollout_only gp \<longrightarrow> gp' = gp)"
  using assms by (auto simp: resolve_debug_rollout_def bindE_eq_Inr split: if_splits option.splits)

lemma resolve_gpus_parts:
  assumes "resolve_gpus c gp = Inr gp'"
  shows "gp_offload_train gp' \<noteq> None" "gp_offload_rollout gp' \<noteq> None" "\<not> (gp_debug_rollout_only gp' \<and> gp_debug_train_only gp')"
    "gp_debug_rollout_only gp' \<Longrightarrow> \<not> gp_colocate gp' \<and> gp_offload_train gp' = Some False \<and> gp_offload_rollout gp' = Some False"
    "gp_colocate gp' \<Longrightarrow> gp_rollout_num_gpus gp' = Some (actor_world gp') \<or> gp_rollout_num_gpus gp' = Some (actor_world gp' + (if c then critic_world gp' else 0))"
    "gp_critic_num_nodes gp' = gp_critic_num_nodes gp" "gp_critic_num_gpus_per_node gp' = gp_critic_num_gpus_per_node gp"
    "\<not> gp_debug_rollout_only gp' \<Longrightarrow> gp_actor_num_nodes gp' = gp_actor_num_nodes gp \<and> gp_actor_num_gpus_per_node gp' = gp_actor_num_gpus_per_node gp"
proof -
  obtain g where g: "resolve_debug_rollout (resolve_offload gp) = Inr g" "\<not> (gp_debug_rollout_only g \<and> gp_debug_train_only g)"
    "gp' = (resolve_colocate c g)\<lparr>gp_offload_train := fill (gp_offload_train (resolve_colocate c g)) False,
       gp_offload_rollout := fill (gp_offload_rollout (resolve_colocate c g)) False\<rparr>"
    using assms by (auto simp: resolve_gpus_def bindE_eq_Inr Let_def)
  note p = resolve_debug_rollout_parts[OF g(1)]
  have o: "gp_critic_num_nodes (resolve_offload gp) = gp_critic_num_nodes gp" "gp_critic_num_gpus_per_node (resolve_offload gp) = gp_critic_num_gpus_per_node gp"
    "gp_actor_num_nodes (resolve_offload gp) = gp_actor_num_nodes gp" "gp_actor_num_gpus_per_node (resolve_offload gp) = gp_actor_num_gpus_per_node gp"
    "gp_debug_rollout_only (resolve_offload gp) = gp_debug_rollout_only gp"
    by (simp_all add: resolve_offload_def)
  have r: "gp_debug_rollout_only gp' = gp_debug_rollout_only g" "gp_debug_train_only gp' = gp_debug_train_only g" "gp_colocate gp' = gp_colocate g"
    "gp_critic_num_nodes gp' = gp_critic_num_nodes g" "gp_critic_num_gpus_per_node gp' = gp_critic_num_gpus_per_node g"
    "gp_actor_num_nodes gp' = gp_actor_num_nodes g" "gp_actor_num_gpus_per_node gp' = gp_actor_num_gpus_per_node g"
    by (simp_all add: g(3) resolve_colocate_def)
  show "gp_offload_train gp' \<noteq> None" "gp_offload_rollout gp' \<noteq> None" by (simp_all add: g(3))
  show "\<not> (gp_debug_rollout_only gp' \<and> gp_debug_train_only gp')" using g(2) r by simp
  show "gp_critic_num_nodes gp' = gp_critic_num_nodes gp" "gp_critic_num_gpus_per_node gp' = gp_critic_num_gpus_per_node gp" using p o r by simp_all
  show "\<not> gp_colocate gp' \<and> gp_offload_train gp' = Some False \<and> gp_offload_rollout gp' = Some False" if "gp_debug_rollout_only gp'"
    using that p r o by (simp add: g(3) resolve_colocate_def fill_def)
  show "gp_rollout_num_gpus gp' = Some (actor_world gp') \<or> gp_rollout_num_gpus gp' = Some (actor_world gp' + (if c then critic_world gp' else 0))" if "gp_colocate gp'"
  proof -
    have w: "actor_world gp' = actor_world g" "critic_world gp' = critic_world g"
      unfolding actor_world_def critic_world_def r by (rule refl)+
    show ?thesis unfolding w using that r(3) by (simp add: g(3) resolve_colocate_def)
  qed
  show "gp_actor_num_nodes gp' = gp_actor_num_nodes gp \<and> gp_actor_num_gpus_per_node gp' = gp_actor_num_gpus_per_node gp" if "\<not> gp_debug_rollout_only gp'"
    using that p o r by simp
qed

text \<open>Numbers of samples and batches that fit together.\<close>

definition batches_fit :: "batch_args \<Rightarrow> bool" where
  "batches_fit bt \<longleftrightarrow>
     (case bt_num_steps_per_rollout bt of None \<Rightarrow> True
      | Some steps \<Rightarrow> steps \<noteq> 0 \<and> bt_global_batch_size bt = Some (bt_rollout_batch_size bt * bt_n_samples_per_prompt bt div steps)) \<and>
     (\<exists>over. bt_over_sampling_batch_size bt = Some over \<and> bt_rollout_batch_size bt \<le> over) \<and>
     (bt_grpo_std_normalization bt \<longrightarrow> bt_n_samples_per_prompt bt \<noteq> 1) \<and>
     (bt_num_rollout bt = None \<longrightarrow> bt_num_epoch bt \<noteq> None \<and> bt_rollout_global_dataset bt)"

lemma resolve_batch_parts:
  assumes "resolve_batch bt = Inr bt'"
  shows "batches_fit bt'" "bt_eval_function_path bt' = bt_eval_function_path bt" "bt_use_dynamic_batch_size bt' = bt_use_dynamic_batch_size bt"
    "bt_log_probs_max_tokens_per_gpu bt' = bt_log_probs_max_tokens_per_gpu bt" "bt_eval_interval bt' = bt_eval_interval bt"
  using assms by (auto simp: resolve_batch_def batches_fit_def bindE_eq_Inr Let_def split: option.splits)

lemma resolve_contexts_parts:
  assumes "resolve_contexts bt = Inr bt'"
  shows "\<exists>e p. bt' = bt\<lparr>bt_eval_max_context_len := e, bt_rollout_max_prompt_len := p\<rparr>"
    "\<forall>c. bt_rollout_max_context_len bt' = Some c \<longrightarrow> (\<exists>p. bt_rollout_max_prompt_len bt' = Some p \<and> p < c)"
proof -
  have n: "bt = bt\<lparr>bt_rollout_max_prompt_len := bt_rollout_max_prompt_len bt\<rparr>" by simp
  show "\<exists>e p. bt' = bt\<lparr>bt_eval_max_context_len := e, bt_rollout_max_prompt_len := p\<rparr>"
  proof (cases "bt_rollout_max_context_len bt")
    case None
    then have "bt' = bt\<lparr>bt_eval_max_context_len := bt_eval_max_context_len bt', bt_rollout_max_prompt_len := bt_rollout_max_prompt_len bt\<rparr>"
      using assms by (auto simp: resolve_contexts_def Let_def)
    then show ?thesis by blast
  qed (use assms in \<open>auto simp: resolve_contexts_def bindE_eq_Inr Let_def\<close>)
  show "\<forall>c. bt_rollout_max_context_len bt' = Some c \<longrightarrow> (\<exists>p. bt_rollout_max_prompt_len bt' = Some p \<and> p < c)"
    using assms by (auto simp: resolve_contexts_def bindE_eq_Inr Let_def split: option.splits)
qed

lemma resolve_critic_parts:
  assumes "resolve_critic args = Inr args'"
  shows "ar_batch args' = ar_batch args" "ar_eval_datasets args' = ar_eval_datasets args"
    "gp_critic_num_nodes (ar_gpus args') \<noteq> None" "gp_critic_num_gpus_per_node (ar_gpus args') \<noteq> None"
    "al_eps_clip_high (ar_algorithm args') = al_eps_clip_high (ar_algorithm args)"
    "al_use_critic (ar_algorithm args') = (al_advantage_estimator (ar_algorithm args') = ''ppo'')"
    "al_critic_train_only (ar_algorithm args') \<Longrightarrow> al_use_critic (ar_algorithm args') \<and>
       gp_actor_num_nodes (ar_gpus args') = 0 \<and> gp_actor_num_gpus_per_node (ar_gpus args') = 0"
    "ck_save_interval (ar_checkpoint args') = ck_save_interval (ar_checkpoint args)" "ck_save (ar_checkpoint args') = ck_save (ar_checkpoint args)"
  using assms by (auto simp: resolve_critic_def bindE_eq_Inr Let_def split: if_splits)

section \<open>Validated arguments\<close>

definition dynamic_filled :: "batch_args \<Rightarrow> bool" where
  "dynamic_filled bt \<longleftrightarrow> (bt_use_dynamic_batch_size bt \<longrightarrow> bt_log_probs_max_tokens_per_gpu bt \<noteq> None)"

lemma resolve_dynamic_parts:
  assumes "resolve_dynamic bt = Inr bt'"
  shows "dynamic_filled bt'" "bt_eval_interval bt' = bt_eval_interval bt"
  using assms by (auto simp: resolve_dynamic_def dynamic_filled_def fill_from_def bindE_eq_Inr split: if_splits option.splits)

lemma sources_parts:
  assumes "validate_sources fs args = Inr args'"
  shows "bt_eval_interval (ar_batch args') \<noteq> None \<longrightarrow> ar_eval_datasets args' \<noteq> []"
    "ck_save_interval (ar_checkpoint args') \<noteq> None \<longrightarrow> ck_save (ar_checkpoint args') \<noteq> None"
    "dynamic_filled (ar_batch args')" "al_eps_clip_high (ar_algorithm args') \<noteq> None"
proof -
  obtain ds pd where e: "resolve_eval_datasets (ar_namespace args) (ar_eval_config args) (ar_eval_prompt_data args) = Inr (ds, pd)"
    using assms by (auto simp: validate_sources_def bindE_eq_Inr)
  define a0 where "a0 = args\<lparr>ar_eval_datasets := ds, ar_eval_prompt_data := pd, ar_batch := (ar_batch args)\<lparr>bt_use_slime_router := False\<rparr>\<rparr>"
  define a where "a = a0\<lparr>ar_checkpoint := resolve_load fs (ar_checkpoint a0)\<rparr>"
  have "\<exists>bt. check_intervals a = Inr () \<and> resolve_dynamic (ar_batch a) = Inr bt \<and>
    args' = resolve_debug_train (a\<lparr>ar_batch := bt, ar_algorithm := resolve_algorithm (ar_algorithm a), ar_checkpoint := resolve_dumps (ar_checkpoint a)\<rparr>)"
    using assms unfolding validate_sources_def Let_def e bindE_simps prod.case a0_def[symmetric]
    unfolding a_def[symmetric] bindE_eq_Inr
    by (elim exE conjE) (intro exI conjI, simp, assumption, rule sym, erule sum.inject(2)[THEN iffD1])
  then obtain bt where b: "check_intervals a = Inr ()" "resolve_dynamic (ar_batch a) = Inr bt"
    "args' = resolve_debug_train (a\<lparr>ar_batch := bt, ar_algorithm := resolve_algorithm (ar_algorithm a), ar_checkpoint := resolve_dumps (ar_checkpoint a)\<rparr>)"
    by blast
  have f: "ar_batch args' = bt" "ar_eval_datasets args' = ar_eval_datasets a" "ar_algorithm args' = resolve_algorithm (ar_algorithm a)"
    "ar_checkpoint args' = resolve_dumps (ar_checkpoint a)" by (simp_all add: b(3) resolve_debug_train_def)
  have i: "bt_eval_interval (ar_batch a) \<noteq> None \<longrightarrow> ar_eval_datasets a \<noteq> []" "ck_save_interval (ar_checkpoint a) \<noteq> None \<longrightarrow> ck_save (ar_checkpoint a) \<noteq> None"
    using b(1) by (auto simp: check_intervals_def bindE_eq_Inr)
  show "bt_eval_interval (ar_batch args') \<noteq> None \<longrightarrow> ar_eval_datasets args' \<noteq> []" using i(1) f(1,2) resolve_dynamic_parts(2)[OF b(2)] by simp
  show "ck_save_interval (ar_checkpoint args') \<noteq> None \<longrightarrow> ck_save (ar_checkpoint args') \<noteq> None"
    using i(2) f(4) by (simp add: resolve_dumps_def split: option.split)
  show "dynamic_filled (ar_batch args')" using resolve_dynamic_parts(1)[OF b(2)] f(1) by simp
  show "al_eps_clip_high (ar_algorithm args') \<noteq> None" using f(3) by (simp add: resolve_algorithm_def)
qed

lemma sizes_parts:
  assumes "validate_sizes args = Inr args'"
  obtains g gp bt where "resolve_critic args = Inr g" "resolve_gpus (al_use_critic (ar_algorithm g)) (ar_gpus g) = Inr gp"
    "resolve_batch ((ar_batch g)\<lparr>bt_eval_function_path := fill (bt_eval_function_path (ar_batch g)) (bt_rollout_function_path (ar_batch g))\<rparr>) = Inr bt"
    "args' = g\<lparr>ar_gpus := gp, ar_batch := bt\<lparr>bt_use_routing_replay := bt_use_rollout_routing_replay bt \<or> bt_use_routing_replay bt\<rparr>\<rparr>"
  using assms unfolding validate_sizes_def Let_def bindE_eq_Inr
  by (elim exE conjE) (rule that, assumption+, rule sym, erule sum.inject(2)[THEN iffD1])

lemma rest_parts:
  assumes "validate_rest args = Inr args'"
  obtains bt where "resolve_contexts (ar_batch args) = Inr bt" "args' = args\<lparr>ar_batch := bt\<rparr>"
  using assms by (auto simp: validate_rest_def bindE_eq_Inr)


section \<open>Validated arguments and the placement\<close>

text \<open>The arguments as the placement and the servers read them; what they do not say is as in \<open>sv\<close>.\<close>

definition gpus_of :: "slime_args \<Rightarrow> serve_args \<Rightarrow> serve_args" where
  "gpus_of a sv =
     (let gp = ar_gpus a; the0 = (\<lambda>x. case x of None \<Rightarrow> 0 | Some n \<Rightarrow> n) in
      sv\<lparr>sv_rollout_num_gpus := the0 (gp_rollout_num_gpus gp), sv_debug_train_only := gp_debug_train_only gp,
         sv_debug_rollout_only := gp_debug_rollout_only gp, sv_colocate := gp_colocate gp,
         sv_critic_train_only := al_critic_train_only (ar_algorithm a), sv_use_critic := al_use_critic (ar_algorithm a),
         sv_actor_num_nodes := nat (gp_actor_num_nodes gp), sv_actor_num_gpus_per_node := nat (gp_actor_num_gpus_per_node gp),
         sv_critic_num_nodes := nat (the0 (gp_critic_num_nodes gp)), sv_critic_num_gpus_per_node := nat (the0 (gp_critic_num_gpus_per_node gp)),
         sv_offload_rollout := (gp_offload_rollout gp = Some True)\<rparr>)"

lemma validated_gpus:
  assumes "slime_validate_args fs None args = Inr a"
  shows "al_critic_train_only (ar_algorithm a) \<longrightarrow> al_use_critic (ar_algorithm a) \<and> (\<not> gp_debug_rollout_only (ar_gpus a) \<longrightarrow> gp_actor_num_nodes (ar_gpus a) = 0)"
    "gp_colocate (ar_gpus a) \<longrightarrow> gp_rollout_num_gpus (ar_gpus a) = Some (actor_world (ar_gpus a)) \<or>
       gp_rollout_num_gpus (ar_gpus a) = Some (actor_world (ar_gpus a) + (if al_use_critic (ar_algorithm a) then critic_world (ar_gpus a) else 0))"
proof -
  obtain a1 a2 where v: "validate_sources fs args = Inr a1" "validate_sizes a1 = Inr a2" "validate_rest a2 = Inr a"
    using assms by (auto simp: slime_validate_args_def bindE_eq_Inr)
  obtain g gp bt where z: "resolve_critic a1 = Inr g" "resolve_gpus (al_use_critic (ar_algorithm g)) (ar_gpus g) = Inr gp"
    "a2 = g\<lparr>ar_gpus := gp, ar_batch := bt\<lparr>bt_use_routing_replay := bt_use_rollout_routing_replay bt \<or> bt_use_routing_replay bt\<rparr>\<rparr>"
    by (rule sizes_parts[OF v(2)])
  obtain bt3 where r: "a = a2\<lparr>ar_batch := bt3\<rparr>" by (rule rest_parts[OF v(3)])
  have f: "ar_gpus a = gp" "ar_algorithm a = ar_algorithm g" by (simp_all add: r z(3))
  show "al_critic_train_only (ar_algorithm a) \<longrightarrow> al_use_critic (ar_algorithm a) \<and> (\<not> gp_debug_rollout_only (ar_gpus a) \<longrightarrow> gp_actor_num_nodes (ar_gpus a) = 0)"
    unfolding f using resolve_critic_parts(7)[OF z(1)] resolve_gpus_parts(8)[OF z(2)] by auto
  show "gp_colocate (ar_gpus a) \<longrightarrow> gp_rollout_num_gpus (ar_gpus a) = Some (actor_world (ar_gpus a)) \<or>
       gp_rollout_num_gpus (ar_gpus a) = Some (actor_world (ar_gpus a) + (if al_use_critic (ar_algorithm a) then critic_world (ar_gpus a) else 0))"
    unfolding f using resolve_gpus_parts(5)[OF z(2)] by auto
qed

lemma shares_enough:
  assumes "create_placement_groups located resolve_host args = Inr pgs" "\<not> sv_debug_rollout_only args"
  shows "int (length (pl_bundle_indices (pg_rollout pgs))) \<ge>
    (if shared_gpus args then int (actor_gpus args + (if sv_use_critic args then critic_gpus args else 0)) else sv_rollout_num_gpus args)"
proof -
  let ?n = "fst (gpu_plan args) + (if sv_patch args then 1 else 0)"
  obtain pg where pg: "create_placement_group located resolve_host (nat ?n) = Inr pg" and
    p: "pg_rollout pgs = drop_placement (fst (snd (gpu_plan args))) pg"
    using assms by (auto simp: create_placement_groups_def gpu_plan_def bindE_eq_Inr Let_def split: if_splits)
  have "length (pl_bundle_indices pg) = nat ?n" using mset_eq_length[OF placement_group_indices(1)[OF pg]] by simp
  then show ?thesis using assms(2) p by (auto simp: gpu_plan_def shared_gpus_def drop_placement_def Let_def)
qed


section \<open>A configuration\<close>

definition demo_slime_args :: slime_args where
  "demo_slime_args = \<lparr>
     ar_checkpoint = \<lparr>ck_load = None, ck_ref_load = Some ''ref'', ck_hf_checkpoint = Some ''hf'', ck_critic_load = None, ck_save = Some ''out'',
       ck_save_interval = Some 10, ck_megatron_to_hf_mode = ''raw'', ck_ref_ckpt_step = Some 7, ck_ckpt_step = None, ck_no_load_optim = False,
       ck_no_load_rng = False, ck_finetune = False, ck_start_rollout_id = None, ck_dump_details = None, ck_save_debug_rollout_data = None,
       ck_save_debug_train_data = None, ck_load_debug_rollout_data = None\<rparr>,
     ar_algorithm = \<lparr>al_kl_coef = 0, al_use_kl_loss = True, al_kl_loss_coef = 1 / 100, al_use_opd = False, al_opd_type = None,
       al_opd_teacher_load = None, al_advantage_estimator = ''ppo'', al_normalize_advantages = True, al_use_rollout_logprobs = False, al_use_tis = True,
       al_get_mismatch_metrics = False, al_custom_tis_function_path = None, al_eps_clip = 1 / 5, al_eps_clip_high = None, al_reward_key = Some ''score'',
       al_eval_reward_key = None, al_use_critic = False, al_critic_train_only = False, al_lr = Some (1 / 10 ^ 6), al_critic_lr = None,
       al_enable_mtp_training = False, al_mtp_num_layers = None, al_only_train_params = None, al_freeze_params = None\<rparr>,
     ar_gpus = \<lparr>gp_actor_num_nodes = 1, gp_actor_num_gpus_per_node = 2, gp_critic_num_nodes = None, gp_critic_num_gpus_per_node = None,
       gp_rollout_num_gpus = Some 4, gp_offload = False, gp_offload_train = None, gp_offload_rollout = None, gp_colocate = False,
       gp_debug_rollout_only = False, gp_debug_train_only = False, gp_train_memory_margin_bytes = 0\<rparr>,
     ar_batch = \<lparr>bt_rollout_batch_size = 8, bt_n_samples_per_prompt = 4, bt_num_steps_per_rollout = Some 2, bt_global_batch_size = None,
       bt_over_sampling_batch_size = None, bt_grpo_std_normalization = True, bt_num_epoch = None, bt_num_rollout = Some 100,
       bt_rollout_global_dataset = True, bt_eval_interval = Some 5, bt_use_dynamic_batch_size = True, bt_max_tokens_per_gpu = Some 4096,
       bt_log_probs_max_tokens_per_gpu = None, bt_rollout_max_context_len = Some 100, bt_rollout_max_prompt_len = None, bt_eval_max_context_len = None,
       bt_rollout_function_path = ''f'', bt_eval_function_path = None, bt_use_rollout_routing_replay = False, bt_use_routing_replay = False,
       bt_qkv_format = ''thd'', bt_train_backend = ''megatron'', bt_use_slime_router = False\<rparr>,
     ar_namespace = [], ar_eval_config = None, ar_eval_prompt_data = Some [PStr ''data''], ar_eval_datasets = []\<rparr>"

lemma demo_eval: "\<exists>c pd. resolve_eval_datasets [] None (Some [PStr ''data'']) = Inr ([c], pd)"
proof -
  have "\<exists>c. new_eval_config (apply_specs [] [] all_specs [(''name'', PStr ''aime''), (''path'', PStr ''data'')]) = Inr c"
    by (rule new_eval_config_total) (simp_all add: eval_fields_def)
  then show ?thesis by (auto simp: resolve_eval_datasets_def build_eval_dataset_configs_def specs_are_all apply_specs_def)
qed

lemma demo_sources:
  "\<exists>a. validate_sources (\<lambda>_. True) demo_slime_args = Inr a \<and> ar_gpus a = ar_gpus demo_slime_args \<and>
    ar_batch a = (ar_batch demo_slime_args)\<lparr>bt_log_probs_max_tokens_per_gpu := Some 4096\<rparr> \<and>
    al_advantage_estimator (ar_algorithm a) = ''ppo'' \<and> \<not> al_critic_train_only (ar_algorithm a) \<and> \<not> al_enable_mtp_training (ar_algorithm a) \<and>
    al_only_train_params (ar_algorithm a) = None"
proof -
  obtain c pd where e: "resolve_eval_datasets [] None (Some [PStr ''data'']) = Inr ([c], pd)" using demo_eval by blast
  show ?thesis
    by (simp add: validate_sources_def demo_slime_args_def e check_ref_def exists_def check_opd_def resolve_load_def is_megatron_checkpoint_def
      check_intervals_def check_algorithm_def resolve_dynamic_def fill_from_def resolve_debug_train_def resolve_dumps_def resolve_algorithm_def)
qed

lemma demo_validated:
  "\<exists>a. slime_validate_args (\<lambda>_. True) None demo_slime_args = Inr a \<and> bt_global_batch_size (ar_batch a) = Some 16 \<and>
    bt_eval_interval (ar_batch a) = Some 5 \<and> al_use_critic (ar_algorithm a) \<and> \<not> al_critic_train_only (ar_algorithm a) \<and>
    ar_gpus a = (ar_gpus demo_slime_args)\<lparr>gp_critic_num_nodes := Some 1, gp_critic_num_gpus_per_node := Some 2,
      gp_offload_train := Some False, gp_offload_rollout := Some False\<rparr>"
proof -
  obtain a1 where a1: "validate_sources (\<lambda>_. True) demo_slime_args = Inr a1" "ar_gpus a1 = ar_gpus demo_slime_args"
    "ar_batch a1 = (ar_batch demo_slime_args)\<lparr>bt_log_probs_max_tokens_per_gpu := Some 4096\<rparr>"
    "al_advantage_estimator (ar_algorithm a1) = ''ppo''" "\<not> al_critic_train_only (ar_algorithm a1)" "\<not> al_enable_mtp_training (ar_algorithm a1)"
    "al_only_train_params (ar_algorithm a1) = None" using demo_sources by blast
  obtain a2 where a2: "validate_sizes a1 = Inr a2" "al_only_train_params (ar_algorithm a2) = None"
    "al_use_critic (ar_algorithm a2)" "\<not> al_critic_train_only (ar_algorithm a2)"
    "ar_batch a2 = (ar_batch a1)\<lparr>bt_eval_function_path := Some ''f'', bt_global_batch_size := Some 16, bt_over_sampling_batch_size := Some 8\<rparr>"
    "ar_gpus a2 = (ar_gpus demo_slime_args)\<lparr>gp_critic_num_nodes := Some 1, gp_critic_num_gpus_per_node := Some 2,
      gp_offload_train := Some False, gp_offload_rollout := Some False\<rparr>"
    using a1(2-) by (simp add: validate_sizes_def resolve_critic_def resolve_gpus_def resolve_debug_rollout_def resolve_offload_def
      resolve_colocate_def resolve_batch_def check_mtp_def demo_slime_args_def Let_def)
  have "validate_rest a2 = Inr (a2\<lparr>ar_batch := (ar_batch a2)\<lparr>bt_eval_max_context_len := Some 100, bt_rollout_max_prompt_len := Some 99\<rparr>\<rparr>)"
    using a2(2,5) a1(3) by (simp add: validate_rest_def resolve_contexts_def fill_from_def check_format_def some_names_def demo_slime_args_def Let_def)
  then show ?thesis using a1(1,3) a2 by (simp add: slime_validate_args_def) (simp add: demo_slime_args_def)
qed



end
