(* ===== verification/Spec2Isabelle.thy ===== *)
theory Spec2Isabelle
  imports Board_Rules Junqi_Rollout Seqlen_Balancing Loss_Rules Advantage_Rules Data_Rules Rollout_Rules Train_Rules Layout_Rules Health_Rules Generation_Order Loop_Rules Argument_Rules
begin

text \<open>
  slime-board trains a language model by reinforcement learning on a four-handed Chinese military chess (junqi)
  that the model plays against itself.  The repository is slime (training with Megatron-LM, generation with SGLang,
  Ray actors in between) and a patch with the game.  This development models the program's own Python code; every
  theory names the file that it models and keeps the names of its functions.

  \<^bold>\<open>How the parts interact.\<close>  The scripts \<open>train.py\<close> and \<open>train_async.py\<close> validate the arguments, place the models and the
  engines on the GPUs, start the servers, and then repeat: generate a rollout, train on it, send the weights to the
  engines.  A rollout takes groups of samples from the data source, sends them to the engines (or plays games of
  junqi with them), drops what a filter rejects, and puts unfinished groups back.  The samples are turned into columns,
  split over the data-parallel ranks, cut into balanced micro-batches, sliced for context parallelism, and go through
  the estimators of advantages and the losses.  A monitor kills engines that do not answer, and a recovery replaces them.

  \<^bold>\<open>Shared.\<close>  \<open>Prelude\<close>: Python's exceptions as the sum type \<open>py_error + 'a\<close> with \<open>bindE\<close>, \<open>mapE\<close>, \<open>foldE\<close>; dictionaries as
  association lists in insertion order; Python values; slices and indices with their behaviour out of range.  \<open>Tensors\<close>:
  one-dimensional tensors as lists of reals (rounding, devices and dtypes are not modelled).

  \<^bold>\<open>The game\<close> (\<open>patch/board\<close>, \<open>patch/ppo_rollout.py\<close>).
  \<^item> \<open>Board_Util\<close>: the tables of \<open>board_util.py\<close>, with the prefix trees of the railway lines built the way the module does;
    every tree holds exactly the rays of its square (C6).  \<open>Board_Moves\<close>: \<open>traverse_bfs\<close>, \<open>traverse_dfs\<close>, \<open>traverse\<close>,
    \<open>get_moves\<close>, \<open>get_engineer_moves\<close>, which always end (C5).  \<open>Board_Layout\<close>: \<open>generate_layout\<close> for any random draws (C7).
  \<^item> \<open>Board\<close>: class \<open>Board\<close> as a record, the constructor, every method and every branch of \<open>update\<close>.  \<open>Board_Mask\<close>: the mask
    against the moves.  \<open>Board_Inv\<close>, \<open>Board_Init\<close>, \<open>Board_Start\<close>, \<open>Board_Game\<close>: the invariant, that a new board has it and
    that \<open>update\<close> keeps it.  \<open>Board_Turn\<close>: a turn against the rules of the game, stated without the code.  \<open>Board_Play\<close>: the
    locale \<open>turn_game\<close> between a board and its player, interpreted by \<open>Board\<close>.  \<open>Board_Rules\<close>: C1 to C7.
  \<^item> \<open>Junqi_Rollout\<close>: one game of self-play, at most 400 turns as in the code, with the samples of both teams (C8, C9).

  \<^bold>\<open>Samples and their way to the trainer\<close> (\<open>utils/types.py\<close>, \<open>rollout/\<close>, \<open>ray/rollout.py\<close>, \<open>utils/data.py\<close>).
  \<^item> \<open>Sample_Types\<close>: \<open>Sample\<close> with its conversions (C10).  \<open>Data_Source\<close>, \<open>Data_Rules\<close>: the prompts with epochs, buffer and
    checkpoints (C22, C23).  \<open>Source_Interface\<close>: the locale \<open>group_source\<close>, what a rollout needs of a source of groups,
    interpreted by \<open>buffered_get_samples\<close> and \<open>add_samples\<close>.
  \<^item> \<open>Generation\<close>: \<open>generate\<close>, \<open>generate_and_rm\<close>, \<open>generate_and_rm_group\<close>, \<open>generate_rollout_async\<close>, \<open>abort\<close>, \<open>generate_rollout\<close> of
    \<open>sglang_rollout.py\<close>.  \<open>Generation_Rules\<close>: interrupted attempts (C33) and the account of all groups (C34).
    \<open>Generation_Order\<close>: a rollout gets through (C35), proved over \<open>group_source\<close>.
  \<^item> \<open>Rollout_Data\<close>, \<open>Rollout_Rules\<close>: rewards, columns and their split over the ranks (C24).  \<open>Train_Data\<close>, \<open>Train_Rules\<close>:
    \<open>backends/megatron_utils/data.py\<close>, iterators, the schedule of micro-batches, packing (C25, C26).  \<open>Seqlen_Balancing\<close>:
    the largest differencing method over the locale \<open>min_queue\<close>, which \<open>heapq\<close> satisfies (C11).

  \<^bold>\<open>Training arithmetic\<close> (\<open>utils/ppo_utils.py\<close>, \<open>backends/megatron_utils\<close>, \<open>utils/distributed_utils.py\<close>).
  \<^item> \<open>Cp_Utils\<close>: offsets, slices and sums under context parallelism (C12, C13).  \<open>Ppo_Utils\<close>, \<open>Ppo_Facts\<close>, \<open>Ppo_Rules\<close>:
    divergences, clipped losses, entropy, all estimators of advantages (C14 to C17).
  \<^item> \<open>Responses\<close>, \<open>Losses\<close>, \<open>Loss_Rules\<close>: \<open>loss.py\<close>, the rows of the responses on every rank, log probabilities and the
    losses (C18 to C20).  \<open>Advantages\<close>, \<open>Advantage_Rules\<close>: \<open>compute_advantages_and_returns\<close> and the whitening (C21).

  \<^bold>\<open>Serving\<close> (\<open>sglang_config.py\<close>, \<open>ray/rollout.py\<close>, \<open>utils/health_monitor.py\<close>).
  \<^item> \<open>Sglang_Config\<close>: models and groups of engines.  \<open>Servers\<close>: \<open>ServerGroup\<close>, \<open>RolloutServer\<close>, ports, recovery,
    \<open>start_rollout_servers\<close>.  \<open>Server_Rules\<close> (C27), \<open>Port_Rules\<close> (C31), \<open>Layout_Rules\<close> (C32).
  \<^item> \<open>Health_Monitor\<close>, \<open>Health_Rules\<close>: the thread of the monitor as a step relation against the calls of other threads
    (C28 to C30).

  \<^bold>\<open>Running\<close> (\<open>train.py\<close>, \<open>train_async.py\<close>, \<open>ray/placement_group.py\<close>, \<open>utils/eval_config.py\<close>, \<open>utils/arguments.py\<close>).
  \<^item> \<open>Train_Loop\<close>: the drivers as functions to lists of remote calls.  \<open>Loop_Rules\<close>: automata that read these lists and
    refuse what must not happen (C36 to C38).
  \<^item> \<open>Placement\<close>, \<open>Placement_Rules\<close>: bundles, shares and ranks.  \<open>Eval_Config\<close>: settings of evaluation data sets.
    \<open>Arguments\<close>, \<open>Argument_Rules\<close>: \<open>slime_validate_args\<close> and what the other parts may assume after it (C39, C40).

  \<^bold>\<open>Loops that may not end.\<close>  \<open>get_free_port\<close> searches below 65536, the number of ports, and is \<open>Diverges\<close> beyond.
  \<open>submit_until\<close> is a \<open>partial_function (option)\<close>; C35 shows that it returns.  \<open>rollout_loop\<close> recurses over a list of what the
  calls of \<open>asyncio.wait\<close> return, and is \<open>None\<close> when the list ends first; C35 says how long a list is enough.  C29 bounds
  the steps in which the monitor removes a dead engine.  The traversals of the board have measures.

  \<^bold>\<open>Parameters.\<close>  What is not code of the repository is an argument of the definitions that use it: random draws and
  permutations, tokenizer and processor, the answers of the engines and of reward models, the order in which tasks finish,
  collectives of \<open>torch.distributed\<close> (functions of what all ranks bring), Megatron's kernels, Ray's bundles and nodes, which
  ports are free, whether an engine answers, files and the values that a custom configuration assigns.

  \<^bold>\<open>Not modelled.\<close>  Megatron-LM and sgl-workspace (vendored); the models, checkpoints and updates of weights of the Megatron
  backend, which act on modules and process groups of these libraries; the wrapper of the SGLang process, HTTP clients and
  the router; reward functions of \<open>rm_hub\<close>; reading prompt files and templates; the declarations of command-line options;
  gradients (values only); logging, tracing and profiling; \<open>patch/board/app.py\<close>, a web page, and \<open>patch/sglang_rollout.py\<close>, an
  earlier version of the self-play rollout; tokenizer scripts; examples, plugins, tools and tests.
\<close>

end
